(* ===== verification/Nxfr_Prelude.thy ===== *)
theory Nxfr_Prelude
  imports Main "HOL-Library.Word" "HOL-Library.Char_ord" "HOL-Library.List_Lexorder"
    "HOL-Library.Sublist"
begin

text \<open>
  Shared vocabulary of the development: the Rust integer types as words, \<open>Result\<close> as a sum
  type with the \<open>?\<close> operator, big-endian integer encodings, slices, the \<open>BTreeMap\<close> of the
  control-message codec, hexadecimal printing, and the lemma collections the component theories
  draw on. A Rust \<open>String\<close> is the list of its UTF-8 bytes (a \<^typ>\<open>string\<close>), so
  \<open>len()\<close> is \<^const>\<open>length\<close> and comparison is bytewise, as in Rust.
\<close>

named_theorems wire_simps \<open>lengths and round trips of fixed-width encodings\<close>
named_theorems result_simps \<open>inversion of the result monad\<close>
named_theorems btree_simps \<open>lookups in ordered maps\<close>

section \<open>Integers and byte strings\<close>

type_synonym u8 = "8 word"
type_synonym u16 = "16 word"
type_synonym u32 = "32 word"
type_synonym u64 = "64 word"
type_synonym i64 = int
type_synonym bytes = "u8 list"

text \<open>
  \<open>to_be_bytes\<close> and \<open>from_be_bytes\<close>: \<open>nat_to_be n v\<close> is the big-endian encoding of
  \<open>v mod 256 ^ n\<close> in \<open>n\<close> bytes.
\<close>

fun nat_to_be :: "nat \<Rightarrow> nat \<Rightarrow> bytes" where
  "nat_to_be 0 v = []"
| "nat_to_be (Suc n) v = nat_to_be n (v div 256) @ [of_nat v]"

definition be_to_nat :: "bytes \<Rightarrow> nat" where
  "be_to_nat bs = foldl (\<lambda>a b. a * 256 + unat b) 0 bs"

definition u16_to_be_bytes :: "u16 \<Rightarrow> bytes" where
  "u16_to_be_bytes w = nat_to_be 2 (unat w)"

definition u32_to_be_bytes :: "u32 \<Rightarrow> bytes" where
  "u32_to_be_bytes w = nat_to_be 4 (unat w)"

definition u64_to_be_bytes :: "u64 \<Rightarrow> bytes" where
  "u64_to_be_bytes w = nat_to_be 8 (unat w)"

definition u16_from_be_bytes :: "bytes \<Rightarrow> u16" where
  "u16_from_be_bytes bs = of_nat (be_to_nat bs)"

definition u32_from_be_bytes :: "bytes \<Rightarrow> u32" where
  "u32_from_be_bytes bs = of_nat (be_to_nat bs)"

definition u64_from_be_bytes :: "bytes \<Rightarrow> u64" where
  "u64_from_be_bytes bs = of_nat (be_to_nat bs)"

text \<open>The subslice \<open>buf[a..b]\<close>, for \<open>b \<le> buf.len()\<close>.\<close>

definition subslice :: "nat \<Rightarrow> nat \<Rightarrow> 'a list \<Rightarrow> 'a list" where
  "subslice a b xs = take (b - a) (drop a xs)"

section \<open>Results\<close>

text \<open>
  \<open>Result<T, E>\<close> is \<open>'e + 'a\<close> with \<^const>\<open>Inl\<close> for \<open>Err\<close>. \<open>and_then\<close> is the \<open>?\<close>
  operator: it returns the error or goes on with the value.
\<close>

fun and_then :: "'e + 'a \<Rightarrow> ('a \<Rightarrow> 'e + 'b) \<Rightarrow> 'e + 'b" where
  "and_then (Inl e) f = Inl e"
| "and_then (Inr x) f = f x"

fun map_err :: "('e \<Rightarrow> 'f) \<Rightarrow> 'e + 'a \<Rightarrow> 'f + 'a" where
  "map_err g (Inl e) = Inl (g e)"
| "map_err g (Inr x) = Inr x"

text \<open>\<open>ok_or\<close> turns an \<open>Option\<close> into a \<open>Result\<close>.\<close>

fun ok_or :: "'e \<Rightarrow> 'a option \<Rightarrow> 'e + 'a" where
  "ok_or e None = Inl e"
| "ok_or e (Some x) = Inr x"

text \<open>A \<open>for\<close> loop that pushes the results of a fallible body and returns at the first error.\<close>

fun try_map :: "('a \<Rightarrow> 'e + 'b) \<Rightarrow> 'a list \<Rightarrow> 'e + 'b list" where
  "try_map f [] = Inr []"
| "try_map f (x # xs) = and_then (f x) (\<lambda>y. and_then (try_map f xs) (\<lambda>ys. Inr (y # ys)))"

section \<open>Ordered maps\<close>

text \<open>
  \<open>BTreeMap<String, V>\<close> as the sorted association list its iterator yields;
  \<open>btree_insert\<close> replaces the value of a key that is already present.
\<close>

type_synonym 'v btree = "(string \<times> 'v) list"

fun btree_insert :: "string \<Rightarrow> 'v \<Rightarrow> 'v btree \<Rightarrow> 'v btree" where
  "btree_insert k v [] = [(k, v)]"
| "btree_insert k v ((k', v') # m) =
     (if k < k' then (k, v) # (k', v') # m
      else if k = k' then (k, v) # m
      else (k', v') # btree_insert k v m)"

definition btree_wf :: "'v btree \<Rightarrow> bool" where
  "btree_wf m \<longleftrightarrow> sorted (map fst m) \<and> distinct (map fst m)"

section \<open>Hexadecimal\<close>

definition hex_digit :: "nat \<Rightarrow> char" where
  "hex_digit n = ''0123456789abcdef'' ! (n mod 16)"

text \<open>\<open>hex::encode\<close> and the \<open>02x\<close> format: two lower-case digits per byte.\<close>

definition hex_byte :: "u8 \<Rightarrow> string" where
  "hex_byte b = [hex_digit (unat b div 16), hex_digit (unat b mod 16)]"

definition hex_encode :: "bytes \<Rightarrow> string" where
  "hex_encode bs = concat (map hex_byte bs)"

section \<open>Lemmas\<close>

subsection \<open>Results\<close>

lemma and_then_Inr_iff [result_simps]:
  "and_then r f = Inr y \<longleftrightarrow> (\<exists>x. r = Inr x \<and> f x = Inr y)"
  by (cases r) auto

lemma and_then_Inl_iff:
  "and_then r f = Inl e \<longleftrightarrow> r = Inl e \<or> (\<exists>x. r = Inr x \<and> f x = Inl e)"
  by (cases r) auto

lemma map_err_Inr_iff [result_simps]: "map_err g r = Inr x \<longleftrightarrow> r = Inr x"
  by (cases r) auto

lemma ok_or_Inr_iff [result_simps]: "ok_or e r = Inr x \<longleftrightarrow> r = Some x"
  by (cases r) auto

lemma try_map_Inr_length: "try_map f xs = Inr ys \<Longrightarrow> length ys = length xs"
  by (induction xs arbitrary: ys) (auto simp: result_simps)

lemma try_map_Inr_set: "try_map f xs = Inr ys \<Longrightarrow> y \<in> set ys \<Longrightarrow> \<exists>x\<in>set xs. f x = Inr y"
  by (induction xs arbitrary: ys) (auto simp: result_simps)

lemma try_map_map_inverse:
  assumes "\<And>x. x \<in> set xs \<Longrightarrow> f (g x) = Inr x"
  shows "try_map f (map g xs) = Inr xs"
  using assms by (induction xs) auto

subsection \<open>Big-endian integers\<close>

lemma length_nat_to_be [simp, wire_simps]: "length (nat_to_be n v) = n"
  by (induction n arbitrary: v) auto

lemma be_to_nat_Nil [simp]: "be_to_nat [] = 0"
  by (simp add: be_to_nat_def)

lemma be_to_nat_snoc [simp]: "be_to_nat (bs @ [b]) = be_to_nat bs * 256 + unat b"
  by (simp add: be_to_nat_def)

lemma be_to_nat_bound: "be_to_nat bs < 256 ^ length bs"
proof (induction bs rule: rev_induct)
  case Nil
  then show ?case by simp
next
  case (snoc b bs)
  have "unat b < 256" using unsigned_less [of b, where ?'a = nat] by simp
  then have "be_to_nat bs * 256 + unat b < (be_to_nat bs + 1) * 256" by simp
  also have "\<dots> \<le> 256 ^ length bs * 256" using snoc by (intro mult_le_mono1) simp
  finally show ?case by (simp add: mult.commute)
qed

lemma unat_of_nat_u8: "unat (of_nat v :: u8) = v mod 256"
  by (simp add: unat_of_nat)

lemma be_to_nat_nat_to_be: "be_to_nat (nat_to_be n v) = v mod 256 ^ n"
proof (induction n arbitrary: v)
  case 0
  then show ?case by simp
next
  case (Suc n)
  have "be_to_nat (nat_to_be (Suc n) v) = (v div 256) mod 256 ^ n * 256 + v mod 256"
    by (simp add: Suc unat_of_nat_u8)
  also have "\<dots> = v mod (256 * 256 ^ n)"
    by (simp add: mod_mult2_eq)
  finally show ?case by simp
qed

lemma nat_to_be_be_to_nat: "nat_to_be (length bs) (be_to_nat bs) = bs"
proof (induction bs rule: rev_induct)
  case Nil
  then show ?case by simp
next
  case (snoc b bs)
  have b: "unat b < 256" using unsigned_less [of b, where ?'a = nat] by simp
  then have "(be_to_nat bs * 256 + unat b) div 256 = be_to_nat bs" by simp
  moreover have "(of_nat (be_to_nat bs * 256 + unat b) :: u8) = b"
  proof -
    have "unat (of_nat (be_to_nat bs * 256 + unat b) :: u8) = unat b"
      using b by (simp only: unat_of_nat_u8) simp
    then show ?thesis by (simp add: word_unat_eq_iff)
  qed
  ultimately show ?case using snoc by simp
qed

lemma length_be_bytes [simp, wire_simps]:
  "length (u16_to_be_bytes a) = 2" "length (u32_to_be_bytes b) = 4"
  "length (u64_to_be_bytes c) = 8"
  by (simp_all add: u16_to_be_bytes_def u32_to_be_bytes_def u64_to_be_bytes_def)

lemma u16_be_roundtrip [simp, wire_simps]: "u16_from_be_bytes (u16_to_be_bytes w) = w"
  using unsigned_less [of w, where ?'a = nat]
  by (simp add: u16_from_be_bytes_def u16_to_be_bytes_def be_to_nat_nat_to_be)

lemma u32_be_roundtrip [simp, wire_simps]: "u32_from_be_bytes (u32_to_be_bytes w) = w"
  using unsigned_less [of w, where ?'a = nat]
  by (simp add: u32_from_be_bytes_def u32_to_be_bytes_def be_to_nat_nat_to_be)

lemma u64_be_roundtrip [simp, wire_simps]: "u64_from_be_bytes (u64_to_be_bytes w) = w"
  using unsigned_less [of w, where ?'a = nat]
  by (simp add: u64_from_be_bytes_def u64_to_be_bytes_def be_to_nat_nat_to_be)

lemma u16_to_from_be:
  assumes "length bs = 2" shows "u16_to_be_bytes (u16_from_be_bytes bs) = bs"
proof -
  have "unat (u16_from_be_bytes bs) = be_to_nat bs"
    using be_to_nat_bound [of bs] assms by (simp add: u16_from_be_bytes_def unat_of_nat)
  then show ?thesis using nat_to_be_be_to_nat [of bs] assms by (simp add: u16_to_be_bytes_def)
qed

lemma u32_to_from_be:
  assumes "length bs = 4" shows "u32_to_be_bytes (u32_from_be_bytes bs) = bs"
proof -
  have "unat (u32_from_be_bytes bs) = be_to_nat bs"
    using be_to_nat_bound [of bs] assms by (simp add: u32_from_be_bytes_def unat_of_nat)
  then show ?thesis using nat_to_be_be_to_nat [of bs] assms by (simp add: u32_to_be_bytes_def)
qed

lemma u64_to_from_be:
  assumes "length bs = 8" shows "u64_to_be_bytes (u64_from_be_bytes bs) = bs"
proof -
  have "unat (u64_from_be_bytes bs) = be_to_nat bs"
    using be_to_nat_bound [of bs] assms by (simp add: u64_from_be_bytes_def unat_of_nat)
  then show ?thesis using nat_to_be_be_to_nat [of bs] assms by (simp add: u64_to_be_bytes_def)
qed

lemma unat_of_nat_u32: "n < 2 ^ 32 \<Longrightarrow> unat (of_nat n :: u32) = n"
  by (simp add: unat_of_nat)

lemma unat_of_nat_u64: "n < 2 ^ 64 \<Longrightarrow> unat (of_nat n :: u64) = n"
  by (simp add: unat_of_nat)

subsection \<open>Slices\<close>

lemma subslice_length [simp]: "b \<le> length xs \<Longrightarrow> length (subslice a b xs) = b - a"
  by (simp add: subslice_def)

lemma subslice_append_skip: "length xs \<le> a \<Longrightarrow> subslice a b (xs @ ys) = subslice (a - length xs) (b - length xs) ys"
  by (simp add: subslice_def)

lemma subslice_append_take: "b \<le> length xs \<Longrightarrow> subslice a b (xs @ ys) = subslice a b xs"
  by (simp add: subslice_def)

lemma subslice_whole: "b = length xs \<Longrightarrow> subslice 0 b xs = xs"
  by (simp add: subslice_def)

lemma subslice_join: "a \<le> b \<Longrightarrow> b \<le> c \<Longrightarrow> subslice a b xs @ subslice b c xs = subslice a c xs"
proof -
  assume "a \<le> b" "b \<le> c"
  then have "subslice b c xs = take (c - b) (drop (b - a) (drop a xs))" by (simp add: subslice_def)
  then show ?thesis
    using take_add [of "b - a" "c - b" "drop a xs"] \<open>a \<le> b\<close> \<open>b \<le> c\<close> by (simp add: subslice_def)
qed

subsection \<open>Ordered maps\<close>

lemma map_of_btree_insert [simp, btree_simps]:
  "map_of (btree_insert k v m) = (map_of m)(k \<mapsto> v)"
  by (induction k v m rule: btree_insert.induct) (auto simp: fun_eq_iff)

lemma fst_set_btree_insert: "fst ` set (btree_insert k v m) = insert k (fst ` set m)"
  by (induction k v m rule: btree_insert.induct) auto

lemma set_btree_insert_subset: "set (btree_insert k v m) \<subseteq> insert (k, v) (set m)"
  by (induction k v m rule: btree_insert.induct) auto

lemma btree_wf_Nil [simp, btree_simps]: "btree_wf []"
  by (simp add: btree_wf_def)

lemma btree_wf_Cons: "btree_wf ((k, v) # m) \<longleftrightarrow> (\<forall>k'\<in>fst ` set m. k < k') \<and> btree_wf m"
  by (auto simp: btree_wf_def less_le image_iff)

lemma btree_wf_insert [simp, btree_simps]: "btree_wf m \<Longrightarrow> btree_wf (btree_insert k v m)"
proof (induction k v m rule: btree_insert.induct)
  case (1 k v)
  then show ?case by (simp add: btree_wf_def)
next
  case (2 k v k' v' m)
  then show ?case
    by (auto simp: btree_wf_Cons fst_set_btree_insert dest: less_trans)
qed

text \<open>A well-formed map is rebuilt by inserting its entries in order.\<close>

lemma btree_insert_last:
  "\<forall>k'\<in>fst ` set m. k' < k \<Longrightarrow> btree_insert k v m = m @ [(k, v)]"
  by (induction k v m rule: btree_insert.induct) auto

lemma btree_wf_append_snoc:
  "btree_wf (m @ (k, v) # m') \<Longrightarrow> \<forall>k'\<in>fst ` set m. k' < k"
  by (induction m) (fastforce simp: btree_wf_Cons)+

subsection \<open>Hexadecimal\<close>

lemma length_hex_encode [simp]: "length (hex_encode bs) = 2 * length bs"
  by (induction bs) (auto simp: hex_encode_def hex_byte_def)

lemma hex_digit_inject: "m < 16 \<Longrightarrow> n < 16 \<Longrightarrow> hex_digit m = hex_digit n \<longleftrightarrow> m = n"
proof -
  assume "m < 16" "n < 16"
  moreover have "distinct ''0123456789abcdef''" "length ''0123456789abcdef'' = 16" by simp_all
  ultimately show ?thesis by (simp only: hex_digit_def mod_less nth_eq_iff_index_eq)
qed

lemma hex_byte_inject: "hex_byte a = hex_byte b \<longleftrightarrow> a = b"
proof
  assume "hex_byte a = hex_byte b"
  moreover have "unat a < 256" "unat b < 256" using unsigned_less [of a, where ?'a = nat] unsigned_less [of b, where ?'a = nat] by simp_all
  ultimately have "unat a div 16 = unat b div 16" "unat a mod 16 = unat b mod 16"
    by (simp_all add: hex_byte_def hex_digit_inject less_mult_imp_div_less)
  then have "unat a = unat b" by (metis div_mod_decomp)
  then show "a = b" by (simp add: word_unat_eq_iff)
qed simp

lemma hex_encode_inject: "hex_encode a = hex_encode b \<longleftrightarrow> a = b"
proof
  show "hex_encode a = hex_encode b \<Longrightarrow> a = b"
  proof (induction a arbitrary: b)
    case Nil
    then show ?case by (cases b) (auto simp: hex_encode_def hex_byte_def)
  next
    case (Cons x xs)
    then obtain y ys where b: "b = y # ys"
      by (cases b) (auto simp: hex_encode_def hex_byte_def)
    with Cons.prems have "hex_byte x = hex_byte y" "hex_encode xs = hex_encode ys"
      by (auto simp: hex_encode_def hex_byte_def)
    with Cons.IH b show ?case by (simp add: hex_byte_inject)
  qed
qed simp

end
