(* ===== verification/Nxfr_Common.thy ===== *)
theory Nxfr_Common
  imports Nxfr_Prelude
begin

text \<open>
  The crate \<open>nxfr-common\<close>: identifiers, platforms, protocol versions, the limits and timeouts of
  the protocol (\<open>types.rs\<close>) and the error types of the core library (\<open>error.rs\<close>). A fixed
  array \<open>[u8; n]\<close> is a byte list; the predicates \<open>wf_\<dots>\<close> state its length. \<open>usize\<close> values
  are naturals.
\<close>

section \<open>Identifiers\<close>

datatype DeviceId = DeviceId (device_id_bytes: bytes)

datatype TransferId = TransferId (transfer_id_bytes: bytes)

definition wf_device_id :: "DeviceId \<Rightarrow> bool" where
  "wf_device_id d \<longleftrightarrow> length (device_id_bytes d) = 32"

definition wf_transfer_id :: "TransferId \<Rightarrow> bool" where
  "wf_transfer_id t \<longleftrightarrow> length (transfer_id_bytes t) = 16"

text \<open>The \<open>Display\<close> of a device id: two hex digits per byte.\<close>

fun device_id_display :: "DeviceId \<Rightarrow> string" where
  "device_id_display (DeviceId bs) = concat (map hex_byte bs)"

type_synonym SessionId = u32
type_synonym StreamId = u32
type_synonym FileId = u32

section \<open>Platforms and versions\<close>

datatype Platform = Linux | Android | Windows | MacOs | Ios | Other string

fun platform_as_str :: "Platform \<Rightarrow> string" where
  "platform_as_str Linux = ''linux''"
| "platform_as_str Android = ''android''"
| "platform_as_str Windows = ''windows''"
| "platform_as_str MacOs = ''macos''"
| "platform_as_str Ios = ''ios''"
| "platform_as_str (Other s) = s"

definition platform_from_str_lossy :: "string \<Rightarrow> Platform" where
  "platform_from_str_lossy s =
     (if s = ''linux'' then Linux
      else if s = ''android'' then Android
      else if s = ''windows'' then Windows
      else if s = ''macos'' then MacOs
      else if s = ''ios'' then Ios
      else Other s)"

record ProtocolVersion =
  major :: u32
  minor :: u32

definition V1_0 :: ProtocolVersion where
  "V1_0 = \<lparr>major = 1, minor = 0\<rparr>"

definition V0_1 :: ProtocolVersion where
  "V0_1 = \<lparr>major = 0, minor = 1\<rparr>"

definition is_supported :: "ProtocolVersion \<Rightarrow> bool" where
  "is_supported v \<longleftrightarrow> (major v = 1 \<and> minor v = 0) \<or> (major v = 0 \<and> minor v = 1)"

section \<open>Limits\<close>

definition CONTROL_PAYLOAD_MAX :: u32 where
  "CONTROL_PAYLOAD_MAX = 65536"

definition CHUNK_PAYLOAD_MAX :: u32 where
  "CHUNK_PAYLOAD_MAX = 4194304"

definition CHUNK_PAYLOAD_MIN :: u32 where
  "CHUNK_PAYLOAD_MIN = 41"

definition KEEPALIVE_PAYLOAD_MAX :: u32 where
  "KEEPALIVE_PAYLOAD_MAX = 8"

definition MAX_MANIFEST_ENTRIES :: nat where
  "MAX_MANIFEST_ENTRIES = 500"

definition MAX_PATH_COMPONENT :: nat where
  "MAX_PATH_COMPONENT = 255"

definition MAX_RELATIVE_PATH :: nat where
  "MAX_RELATIVE_PATH = 4096"

definition MAX_CBOR_NESTING :: nat where
  "MAX_CBOR_NESTING = 6"

definition FRAME_HEADER_SIZE :: nat where
  "FRAME_HEADER_SIZE = 28"

text \<open>The bytes of \<open>b"NXFR"\<close>.\<close>

definition FRAME_MAGIC :: bytes where
  "FRAME_MAGIC = [0x4E, 0x58, 0x46, 0x52]"

definition FRAME_VERSION :: u8 where
  "FRAME_VERSION = 1"

section \<open>Errors\<close>

datatype FrameError =
    InvalidMagic
  | UnsupportedVersion u8
  | UnknownKind u8
  | PayloadTooLarge (ptl_kind: string) (ptl_size: u32) (ptl_max: u32)
  | IncompleteHeader nat
  | ChunkPayloadTooSmall u32
  | KeepalivePayloadInvalid u32

datatype CodecError =
    CborDecode string
  | NotAMap
  | NonStringKey
  | MissingField string
  | WrongType (wt_field: string) (wt_expected: string)
  | UnknownMessageType u64
  | NestingTooDeep nat
  | TagNotAllowed
  | IndefiniteLength
  | CborEncode string
  | ManifestTooLarge nat
  | EncodedTooLarge

datatype PathError =
    EmptyPath
  | AbsolutePath string
  | ParentTraversal string
  | NullByte
  | ControlCharacter u8
  | WindowsReservedName string
  | ComponentTooLong nat
  | PathTooLong nat
  | Backslash

datatype StateError = InvalidTransition (from_state: string) (on_event: string)

section \<open>Lemmas\<close>

lemmas limit_defs = CONTROL_PAYLOAD_MAX_def CHUNK_PAYLOAD_MAX_def CHUNK_PAYLOAD_MIN_def
  KEEPALIVE_PAYLOAD_MAX_def MAX_MANIFEST_ENTRIES_def MAX_PATH_COMPONENT_def MAX_RELATIVE_PATH_def
  MAX_CBOR_NESTING_def FRAME_HEADER_SIZE_def FRAME_MAGIC_def FRAME_VERSION_def

text \<open>
  Printing and reparsing a platform is the identity exactly on the platforms that
  \<open>from_str_lossy\<close> can produce: an \<open>Other\<close> that spells a known platform is absorbed by it.
\<close>

definition canonical_platform :: "Platform \<Rightarrow> bool" where
  "canonical_platform p \<longleftrightarrow>
     (case p of Other s \<Rightarrow> s \<notin> {''linux'', ''android'', ''windows'', ''macos'', ''ios''} | _ \<Rightarrow> True)"

lemma platform_roundtrip:
  "platform_from_str_lossy (platform_as_str p) = p \<longleftrightarrow> canonical_platform p"
  by (cases p) (auto simp: platform_from_str_lossy_def canonical_platform_def)

lemma platform_from_str_canonical: "canonical_platform (platform_from_str_lossy s)"
  by (simp add: platform_from_str_lossy_def canonical_platform_def)

lemma platform_as_str_from_str [simp]: "platform_as_str (platform_from_str_lossy s) = s"
  by (simp add: platform_from_str_lossy_def)

lemma device_id_display_inject: "device_id_display d = device_id_display d' \<longleftrightarrow> d = d'"
proof (cases d; cases d')
  fix a b assume "d = DeviceId a" "d' = DeviceId b"
  then show ?thesis using hex_encode_inject [of a b] by (simp add: hex_encode_def)
qed

end
