(* ===== verification/Nxfr_Machine.thy ===== *)
theory Nxfr_Machine
  imports Nxfr_Common
begin

text \<open>
  What the session and the transfer state machine share: both are pure functions from a state and
  an event to an error or a new state with a list of actions. \<open>machine_run\<close> is the reachability
  relation of such a function, with the history of events and emitted actions; \<open>live_timers\<close> is
  the set of timers that a driver obeying the actions has running. The locale \<open>timed_machine\<close>
  states the timer discipline of one step and derives that of whole runs; both machines interpret
  it.
\<close>

section \<open>Runs\<close>

inductive machine_run :: "('s \<Rightarrow> 'e \<Rightarrow> 'err + 's \<times> 'a list) \<Rightarrow> 's \<Rightarrow> 's \<Rightarrow> ('e \<times> 'a list) list \<Rightarrow> bool"
  for step :: "'s \<Rightarrow> 'e \<Rightarrow> 'err + 's \<times> 'a list" and s0 :: 's where
  run_start: "machine_run step s0 s0 []"
| run_step: "machine_run step s0 s h \<Longrightarrow> step s e = Inr (s', acts) \<Longrightarrow>
    machine_run step s0 s' (h @ [(e, acts)])"

text \<open>The executable counterpart: feed a list of events, stop at the first refused one.\<close>

fun feed :: "('s \<Rightarrow> 'e \<Rightarrow> 'err + 's \<times> 'a list) \<Rightarrow> 's \<Rightarrow> 'e list \<Rightarrow> 'err + 's \<times> ('e \<times> 'a list) list" where
  "feed step s [] = Inr (s, [])"
| "feed step s (e # es) =
     and_then (step s e) (\<lambda>(s', acts).
     and_then (feed step s' es) (\<lambda>(s'', h). Inr (s'', (e, acts) # h)))"

definition history_events :: "('e \<times> 'a list) list \<Rightarrow> 'e list" where
  "history_events h = map fst h"

definition history_actions :: "('e \<times> 'a list) list \<Rightarrow> 'a list" where
  "history_actions h = concat (map snd h)"

text \<open>A timer stops when it fires; starting and cancelling are the effects of actions.\<close>

fun live_timers :: "('a \<Rightarrow> 't set \<Rightarrow> 't set) \<Rightarrow> ('e \<Rightarrow> 't set) \<Rightarrow> ('e \<times> 'a list) list \<Rightarrow> 't set \<Rightarrow> 't set" where
  "live_timers effect fired [] L = L"
| "live_timers effect fired ((e, acts) # h) L =
     live_timers effect fired h (fold effect acts (L - fired e))"

section \<open>Lemmas\<close>

lemma history_simps [simp]:
  "history_events [] = []" "history_events (h @ h') = history_events h @ history_events h'"
  "history_events ((e, acts) # h) = e # history_events h"
  "history_actions [] = []" "history_actions (h @ h') = history_actions h @ history_actions h'"
  "history_actions ((e, acts) # h) = acts @ history_actions h"
  by (simp_all add: history_events_def history_actions_def)

lemma live_timers_append [simp]:
  "live_timers effect fired (h @ h') L = live_timers effect fired h' (live_timers effect fired h L)"
  by (induction h arbitrary: L) auto

lemma machine_run_feed:
  "machine_run step s0 s h \<Longrightarrow> feed step s es = Inr (s', h') \<Longrightarrow> machine_run step s0 s' (h @ h')"
proof (induction es arbitrary: s h h')
  case (Cons e es)
  from Cons.prems(2) obtain t acts h'' where t: "step s e = Inr (t, acts)"
    and f: "feed step t es = Inr (s', h'')" and h': "h' = (e, acts) # h''"
    by (auto simp: result_simps)
  from Cons.IH [OF run_step [OF Cons.prems(1) t] f] show ?case using h' by simp
qed simp

lemma subseq_snoc: "subseq xs ys \<Longrightarrow> subseq (xs @ [y]) (ys @ [y])"
  by (rule list_emb_append_mono) simp_all

lemma subseq_snoc_right: "subseq xs ys \<Longrightarrow> subseq xs (ys @ [y])"
  using list_emb_append2 by auto

section \<open>Timer discipline\<close>

locale timed_machine =
  fixes step :: "'s \<Rightarrow> 'e \<Rightarrow> 'err + 's \<times> 'a list"
    and start_state :: 's
    and terminal :: "'s \<Rightarrow> bool"
    and effect :: "'a \<Rightarrow> 't set \<Rightarrow> 't set"
    and fired :: "'e \<Rightarrow> 't set"
    and timers_of :: "'s \<Rightarrow> 't set"
  assumes start_timers: "timers_of start_state = {}"
    and terminal_refuses: "terminal s \<Longrightarrow> \<exists>err. step s e = Inl err"
    and step_timers: "step s e = Inr (s', acts) \<Longrightarrow> \<not> terminal s' \<Longrightarrow>
      fold effect acts (timers_of s - fired e) = timers_of s'"
begin

lemma run_timers:
  assumes "machine_run step start_state s h"
  shows "\<not> terminal s \<longrightarrow> live_timers effect fired h {} = timers_of s"
  using assms
proof induction
  case run_start
  then show ?case by (simp add: start_timers)
next
  case (run_step s h e s' acts)
  have "\<not> terminal s" using terminal_refuses [of s e] run_step.hyps by auto
  then show ?case using run_step step_timers by auto
qed

end

end
