(* ===== verification/Nxfr_Session.thy ===== *)
theory Nxfr_Session
  imports Nxfr_Machine
begin

text \<open>
  The session state machine, \<open>nxfr-core/src/session.rs\<close>. The one \<open>match\<close> of
  \<open>session_handle_event\<close> is written as one definition per source state, with the arms that hold
  in any state and the final error arm in \<open>session_any\<close>.
\<close>

section \<open>States, events, actions\<close>

datatype SessionState =
    Disconnected | Connecting | HelloWait | Established | Pairing | Active | Closing | Closed

fun session_state_str :: "SessionState \<Rightarrow> string" where
  "session_state_str Disconnected = ''Disconnected''"
| "session_state_str Connecting = ''Connecting''"
| "session_state_str HelloWait = ''HelloWait''"
| "session_state_str Established = ''Established''"
| "session_state_str Pairing = ''Pairing''"
| "session_state_str Active = ''Active''"
| "session_state_str Closing = ''Closing''"
| "session_state_str Closed = ''Closed''"

datatype SessionTimer = TlsHandshake | HelloExchange | PairingSas | CloseGrace | KeepaliveTimeout

datatype SessionEvent =
    UserConnect
  | TlsEstablished
  | TlsFailed
  | HelloReceived DeviceId bool
  | HelloAckReceived DeviceId u32 bool
  | IncompatibleVersion
  | PairRequestSent
  | PairAcceptReceived
  | PairRejectReceived
  | UnpairedSessionAccepted
  | MutuallyPaired
  | SessionCloseSent
  | SessionCloseReceived
  | ConnectionLost
  | FatalErrorReceived
  | TimerFired SessionTimer

fun session_timer_debug :: "SessionTimer \<Rightarrow> string" where
  "session_timer_debug TlsHandshake = ''TlsHandshake''"
| "session_timer_debug HelloExchange = ''HelloExchange''"
| "session_timer_debug PairingSas = ''PairingSas''"
| "session_timer_debug CloseGrace = ''CloseGrace''"
| "session_timer_debug KeepaliveTimeout = ''KeepaliveTimeout''"

fun session_event_str :: "SessionEvent \<Rightarrow> string" where
  "session_event_str UserConnect = ''UserConnect''"
| "session_event_str TlsEstablished = ''TlsEstablished''"
| "session_event_str TlsFailed = ''TlsFailed''"
| "session_event_str (HelloReceived _ _) = ''HelloReceived''"
| "session_event_str (HelloAckReceived _ _ _) = ''HelloAckReceived''"
| "session_event_str IncompatibleVersion = ''IncompatibleVersion''"
| "session_event_str PairRequestSent = ''PairRequestSent''"
| "session_event_str PairAcceptReceived = ''PairAcceptReceived''"
| "session_event_str PairRejectReceived = ''PairRejectReceived''"
| "session_event_str UnpairedSessionAccepted = ''UnpairedSessionAccepted''"
| "session_event_str MutuallyPaired = ''MutuallyPaired''"
| "session_event_str SessionCloseSent = ''SessionCloseSent''"
| "session_event_str SessionCloseReceived = ''SessionCloseReceived''"
| "session_event_str ConnectionLost = ''ConnectionLost''"
| "session_event_str FatalErrorReceived = ''FatalErrorReceived''"
| "session_event_str (TimerFired t) = ''TimerFired('' @ session_timer_debug t @ '')''"

datatype SessionAction =
    OpenConnection
  | SendHello
  | SendHelloAck u32
  | RecordSessionId u32
  | DisplaySas
  | PinPeerIdentity DeviceId
  | SendError string
  | SendSessionClose
  | CloseConnection
  | ReleaseResources
  | StartTimer SessionTimer
  | CancelTimer SessionTimer
  | Log string

type_synonym session_result = "StateError + (SessionState \<times> SessionAction list)"

section \<open>Transitions\<close>

definition session_invalid :: "SessionState \<Rightarrow> SessionEvent \<Rightarrow> session_result" where
  "session_invalid state event = Inl (InvalidTransition (session_state_str state) (session_event_str event))"

definition session_any :: "SessionState \<Rightarrow> SessionEvent \<Rightarrow> session_result" where
  "session_any state event =
     (case event of
        FatalErrorReceived \<Rightarrow>
          if state \<noteq> Closed \<and> state \<noteq> Disconnected
          then Inr (Closed, [SendError ''internal_error'', CloseConnection, ReleaseResources])
          else session_invalid state event
      | ConnectionLost \<Rightarrow>
          if state \<noteq> Closed \<and> state \<noteq> Disconnected
          then Inr (Closed, [ReleaseResources])
          else session_invalid state event
      | TimerFired KeepaliveTimeout \<Rightarrow>
          if state = Active
          then Inr (Closed, [SendError ''session_timeout'', CloseConnection, ReleaseResources])
          else session_invalid state event
      | _ \<Rightarrow> session_invalid state event)"

definition session_disconnected :: "SessionEvent \<Rightarrow> session_result" where
  "session_disconnected event =
     (case event of
        UserConnect \<Rightarrow> Inr (Connecting, [OpenConnection, StartTimer TlsHandshake])
      | _ \<Rightarrow> session_any Disconnected event)"

definition session_connecting :: "SessionEvent \<Rightarrow> session_result" where
  "session_connecting event =
     (case event of
        TlsEstablished \<Rightarrow>
          Inr (HelloWait, [CancelTimer TlsHandshake, SendHello, StartTimer HelloExchange])
      | TlsFailed \<Rightarrow>
          Inr (Closed, [CancelTimer TlsHandshake, Log ''TLS handshake failed or timed out'', ReleaseResources])
      | TimerFired TlsHandshake \<Rightarrow>
          Inr (Closed, [CancelTimer TlsHandshake, Log ''TLS handshake failed or timed out'', ReleaseResources])
      | _ \<Rightarrow> session_any Connecting event)"

definition session_hello_wait :: "SessionEvent \<Rightarrow> session_result" where
  "session_hello_wait event =
     (case event of
        HelloReceived _ _ \<Rightarrow> Inr (Established, [CancelTimer HelloExchange, SendHelloAck 0])
      | HelloAckReceived _ session_id _ \<Rightarrow>
          Inr (Established, [CancelTimer HelloExchange, RecordSessionId session_id])
      | TimerFired HelloExchange \<Rightarrow> Inr (Closed, [Log ''HELLO exchange timed out'', ReleaseResources])
      | IncompatibleVersion \<Rightarrow> Inr (Closed, [SendError ''unsupported_version'', ReleaseResources])
      | _ \<Rightarrow> session_any HelloWait event)"

definition session_established :: "SessionEvent \<Rightarrow> session_result" where
  "session_established event =
     (case event of
        PairRequestSent \<Rightarrow> Inr (Pairing, [DisplaySas, StartTimer PairingSas])
      | MutuallyPaired \<Rightarrow> Inr (Active, [])
      | UnpairedSessionAccepted \<Rightarrow> Inr (Active, [])
      | _ \<Rightarrow> session_any Established event)"

definition session_pairing :: "SessionEvent \<Rightarrow> session_result" where
  "session_pairing event =
     (case event of
        PairAcceptReceived \<Rightarrow>
          Inr (Active, [CancelTimer PairingSas, PinPeerIdentity (DeviceId (replicate 32 0))])
      | PairRejectReceived \<Rightarrow> Inr (Established, [CancelTimer PairingSas, Log ''Pairing rejected by peer''])
      | TimerFired PairingSas \<Rightarrow>
          Inr (Closed, [Log ''Pairing SAS confirmation timed out'', CloseConnection, ReleaseResources])
      | _ \<Rightarrow> session_any Pairing event)"

definition session_active :: "SessionEvent \<Rightarrow> session_result" where
  "session_active event =
     (case event of
        SessionCloseSent \<Rightarrow> Inr (Closing, [SendSessionClose, StartTimer CloseGrace])
      | ConnectionLost \<Rightarrow> Inr (Closed, [Log ''Connection lost or fatal error in ACTIVE state'', ReleaseResources])
      | FatalErrorReceived \<Rightarrow> Inr (Closed, [Log ''Connection lost or fatal error in ACTIVE state'', ReleaseResources])
      | _ \<Rightarrow> session_any Active event)"

definition session_closing :: "SessionEvent \<Rightarrow> session_result" where
  "session_closing event =
     (case event of
        SessionCloseReceived \<Rightarrow> Inr (Closed, [CancelTimer CloseGrace, CloseConnection, ReleaseResources])
      | TimerFired CloseGrace \<Rightarrow> Inr (Closed, [CancelTimer CloseGrace, CloseConnection, ReleaseResources])
      | _ \<Rightarrow> session_any Closing event)"

fun session_handle_event :: "SessionState \<Rightarrow> SessionEvent \<Rightarrow> session_result" where
  "session_handle_event Disconnected event = session_disconnected event"
| "session_handle_event Connecting event = session_connecting event"
| "session_handle_event HelloWait event = session_hello_wait event"
| "session_handle_event Established event = session_established event"
| "session_handle_event Pairing event = session_pairing event"
| "session_handle_event Active event = session_active event"
| "session_handle_event Closing event = session_closing event"
| "session_handle_event Closed event = session_any Closed event"

section \<open>Timers\<close>

fun session_timer_effect :: "SessionAction \<Rightarrow> SessionTimer set \<Rightarrow> SessionTimer set" where
  "session_timer_effect (StartTimer t) L = insert t L"
| "session_timer_effect (CancelTimer t) L = L - {t}"
| "session_timer_effect _ L = L"

fun session_fired :: "SessionEvent \<Rightarrow> SessionTimer set" where
  "session_fired (TimerFired t) = {t}"
| "session_fired _ = {}"

text \<open>The timers that run in a state.\<close>

fun session_timers :: "SessionState \<Rightarrow> SessionTimer set" where
  "session_timers Connecting = {TlsHandshake}"
| "session_timers HelloWait = {HelloExchange}"
| "session_timers Pairing = {PairingSas}"
| "session_timers Closing = {CloseGrace}"
| "session_timers _ = {}"

section \<open>Lemmas\<close>

lemmas session_defs = session_invalid_def session_any_def session_disconnected_def
  session_connecting_def session_hello_wait_def session_established_def session_pairing_def
  session_active_def session_closing_def

text \<open>The transition table: every accepted step, by rule.\<close>

inductive session_edge :: "SessionState \<Rightarrow> SessionEvent \<Rightarrow> SessionState \<Rightarrow> bool" where
  connect: "session_edge Disconnected UserConnect Connecting"
| tls_ok: "session_edge Connecting TlsEstablished HelloWait"
| hello: "session_edge HelloWait (HelloReceived d p) Established"
| hello_ack: "session_edge HelloWait (HelloAckReceived d n p) Established"
| pair: "session_edge Established PairRequestSent Pairing"
| paired: "session_edge Established MutuallyPaired Active"
| unpaired: "session_edge Established UnpairedSessionAccepted Active"
| pair_accept: "session_edge Pairing PairAcceptReceived Active"
| pair_reject: "session_edge Pairing PairRejectReceived Established"
| close: "session_edge Active SessionCloseSent Closing"
| lost: "s \<noteq> Closed \<Longrightarrow> s \<noteq> Disconnected \<Longrightarrow> e \<in> {ConnectionLost, FatalErrorReceived} \<Longrightarrow> session_edge s e Closed"
| tls_failed: "e \<in> {TlsFailed, TimerFired TlsHandshake} \<Longrightarrow> session_edge Connecting e Closed"
| hello_failed: "e \<in> {IncompatibleVersion, TimerFired HelloExchange} \<Longrightarrow> session_edge HelloWait e Closed"
| pair_timeout: "session_edge Pairing (TimerFired PairingSas) Closed"
| idle_timeout: "session_edge Active (TimerFired KeepaliveTimeout) Closed"
| closed: "e \<in> {SessionCloseReceived, TimerFired CloseGrace} \<Longrightarrow> session_edge Closing e Closed"

inductive_cases session_edge_ClosedE: "session_edge Closed e s'"
inductive_cases session_edge_toE: "session_edge s e s'"

lemma session_step_edge: "session_handle_event s e = Inr (s', acts) \<Longrightarrow> session_edge s e s'"
  by (cases s)
    (auto simp: session_defs intro: session_edge.intros split: SessionEvent.splits SessionTimer.splits if_splits)

lemma session_edge_step: "session_edge s e s' \<Longrightarrow> \<exists>acts. session_handle_event s e = Inr (s', acts)"
proof (induction rule: session_edge.induct)
  case (lost s e)
  then show ?case by (cases s) (auto simp: session_defs)
qed (auto simp: session_defs)

interpretation session: timed_machine session_handle_event Disconnected "\<lambda>s. s = Closed"
  session_timer_effect session_fired session_timers
proof unfold_locales
  fix s e s' acts
  assume "session_handle_event s e = Inr (s', acts)" "s' \<noteq> Closed"
  then show "fold session_timer_effect acts (session_timers s - session_fired e) = session_timers s'"
    by (cases s) (auto simp: session_defs split: SessionEvent.splits SessionTimer.splits if_splits)
next
  fix s e assume "s = Closed"
  then show "\<exists>err. session_handle_event s e = Inl err"
    by (cases e) (auto simp: session_defs split: SessionTimer.splits)
qed simp

text \<open>How far the handshake of a run has come, by the state it is in.\<close>

fun is_hello_event :: "SessionEvent \<Rightarrow> bool" where
  "is_hello_event (HelloReceived d p) = True"
| "is_hello_event (HelloAckReceived d n p) = True"
| "is_hello_event _ = False"

definition authorizing_events :: "SessionEvent set" where
  "authorizing_events = {MutuallyPaired, UnpairedSessionAccepted, PairAcceptReceived}"

definition handshake_done :: "SessionEvent list \<Rightarrow> bool" where
  "handshake_done es \<longleftrightarrow> (\<exists>he. is_hello_event he \<and> subseq [UserConnect, TlsEstablished, he] es)"

definition authorized :: "SessionEvent list \<Rightarrow> bool" where
  "authorized es \<longleftrightarrow> (\<exists>he. is_hello_event he \<and> (\<exists>au\<in>authorizing_events.
     subseq [UserConnect, TlsEstablished, he, au] es))"

fun session_progress :: "SessionState \<Rightarrow> SessionEvent list \<Rightarrow> bool" where
  "session_progress Connecting es = subseq [UserConnect] es"
| "session_progress HelloWait es = subseq [UserConnect, TlsEstablished] es"
| "session_progress Established es = handshake_done es"
| "session_progress Pairing es = handshake_done es"
| "session_progress Active es = authorized es"
| "session_progress Closing es = authorized es"
| "session_progress _ es = True"

lemma handshake_done_snoc: "handshake_done es \<Longrightarrow> handshake_done (es @ [e])"
  by (auto simp: handshake_done_def intro: subseq_snoc_right)

lemma authorized_snoc: "authorized es \<Longrightarrow> authorized (es @ [e])"
  by (auto simp: authorized_def intro: subseq_snoc_right)

lemma handshake_completes:
  "subseq [UserConnect, TlsEstablished] es \<Longrightarrow> is_hello_event he \<Longrightarrow> handshake_done (es @ [he])"
  using subseq_snoc [of "[UserConnect, TlsEstablished]" es he] by (auto simp: handshake_done_def)

lemma authorization_completes:
  assumes "handshake_done es" "au \<in> authorizing_events"
  shows "authorized (es @ [au])"
proof -
  from assms(1) obtain he where "is_hello_event he" "subseq [UserConnect, TlsEstablished, he] es"
    by (auto simp: handshake_done_def)
  then show ?thesis
    using subseq_snoc [of "[UserConnect, TlsEstablished, he]" es au] assms(2) by (auto simp: authorized_def)
qed

lemma session_progress_step:
  assumes "session_edge s e s'" "session_progress s es"
  shows "session_progress s' (es @ [e])"
  using assms
proof induction
  case tls_ok
  then show ?case using subseq_snoc [of "[UserConnect]" es TlsEstablished] by simp
next
  case (hello d p)
  then show ?case by (auto intro: handshake_completes)
next
  case (hello_ack d n p)
  then show ?case by (auto intro: handshake_completes)
next
  case connect
  then show ?case using subseq_snoc [of "[]" es UserConnect] by simp
qed (auto intro: handshake_done_snoc authorized_snoc authorization_completes simp: authorizing_events_def)

lemma session_run_progress:
  "machine_run session_handle_event Disconnected s h \<Longrightarrow> session_progress s (history_events h)"
  by (induction rule: machine_run.induct) (auto dest!: session_step_edge intro: session_progress_step)

text \<open>The identity is pinned only once the authentication string has been shown.\<close>

lemma session_run_pin:
  "machine_run session_handle_event Disconnected s h \<Longrightarrow>
     (s = Pairing \<longrightarrow> DisplaySas \<in> set (history_actions h)) \<and>
     (PinPeerIdentity d \<in> set (history_actions h) \<longrightarrow> DisplaySas \<in> set (history_actions h))"
proof (induction rule: machine_run.induct)
  case (run_step s h e s' acts)
  have "s' = Pairing \<longrightarrow> DisplaySas \<in> set acts"
    "PinPeerIdentity d \<in> set acts \<longrightarrow> s = Pairing"
    using run_step.hyps(2)
    by (cases s; auto simp: session_defs split: SessionEvent.splits SessionTimer.splits if_splits)+
  then show ?case using run_step.IH by auto
qed simp

section \<open>Properties\<close>

text \<open>
  The transition function accepts exactly the edges of the protocol's session diagram; every
  other event is refused with the state and the event in the error and leaves the machine alone.
\<close>

theorem session_transition_table:
  "(\<exists>acts. session_handle_event s e = Inr (s', acts)) \<longleftrightarrow> session_edge s e s'"
  using session_step_edge session_edge_step by blast

text \<open>
  C10 No session becomes active without authorization: whenever a run from the initial state is in
  \<open>Active\<close> or \<open>Closing\<close>, its events contain, in this order, the connect, the completed TLS handshake, a
  hello or hello acknowledgement, and a mutual pairing, an accepted unpaired session or a pairing
  acceptance.
\<close>

theorem session_active_authorized:
  assumes "machine_run session_handle_event Disconnected s h" "s \<in> {Active, Closing}"
  shows "authorized (history_events h)"
  using session_run_progress [OF assms(1)] assms(2) by auto

theorem session_active_authorized_witness:
  "authorized [UserConnect, TlsEstablished, HelloReceived (DeviceId []) True, MutuallyPaired]"
proof -
  let ?es = "[UserConnect, TlsEstablished, HelloReceived (DeviceId []) True, MutuallyPaired]"
  obtain h where h: "feed session_handle_event Disconnected ?es = Inr (Active, h)"
    and e: "history_events h = ?es"
    by (simp add: session_defs)
  from machine_run_feed [OF run_start h] have "machine_run session_handle_event Disconnected Active h"
    by simp
  from session_active_authorized [OF this] show ?thesis using e by simp
qed

text \<open>
  C11 A peer identity is pinned in the paired database only after the short authentication string
  was displayed in the same run.
\<close>

theorem session_pin_after_sas:
  assumes "machine_run session_handle_event Disconnected s h"
    and "PinPeerIdentity d \<in> set (history_actions h)"
  shows "DisplaySas \<in> set (history_actions h)"
  using session_run_pin [OF assms(1)] assms(2) by blast

theorem session_pin_after_sas_witness:
  "\<exists>h. machine_run session_handle_event Disconnected Active h \<and>
     PinPeerIdentity (DeviceId (replicate 32 0)) \<in> set (history_actions h) \<and>
     DisplaySas \<in> set (history_actions h)"
proof -
  let ?es = "[UserConnect, TlsEstablished, HelloReceived (DeviceId []) False, PairRequestSent,
    PairAcceptReceived]"
  obtain h where h: "feed session_handle_event Disconnected ?es = Inr (Active, h)"
    and p: "PinPeerIdentity (DeviceId (replicate 32 0)) \<in> set (history_actions h)"
    by (simp add: session_defs)
  from machine_run_feed [OF run_start h] have "machine_run session_handle_event Disconnected Active h"
    by simp
  with session_pin_after_sas [OF this p] p show ?thesis by blast
qed

text \<open>
  Timer discipline of the session: in every reachable state other than \<open>Closed\<close>, the timers that
  were started and neither cancelled nor fired are exactly those of the state: the handshake, the
  hello, the pairing or the closing timer, and none in the other states.
\<close>

theorem session_timer_discipline:
  assumes "machine_run session_handle_event Disconnected s h" "s \<noteq> Closed"
  shows "live_timers session_timer_effect session_fired h {} = session_timers s"
  using session.run_timers [OF assms(1)] assms(2) by blast

theorem session_timer_discipline_witness:
  "live_timers session_timer_effect session_fired
     [(UserConnect, [OpenConnection, StartTimer TlsHandshake])] {} = {TlsHandshake}"
proof -
  have "machine_run session_handle_event Disconnected Connecting
      ([] @ [(UserConnect, [OpenConnection, StartTimer TlsHandshake])])"
    by (rule run_step [OF run_start]) (simp add: session_defs)
  from session_timer_discipline [OF this] show ?thesis by simp
qed

text \<open>
  Closing always ends in a release: every transition into \<open>Closed\<close> emits \<open>ReleaseResources\<close> as its
  last action, \<open>Closed\<close> refuses every event, and from every state with a connection the loss of the
  connection or a fatal error leads to \<open>Closed\<close> at once.
\<close>

theorem session_closed_releases:
  "(session_handle_event s e = Inr (Closed, acts) \<longrightarrow> acts \<noteq> [] \<and> last acts = ReleaseResources) \<and>
   session_handle_event Closed e = Inl (InvalidTransition ''Closed'' (session_event_str e)) \<and>
   (s \<notin> {Closed, Disconnected} \<and> e \<in> {ConnectionLost, FatalErrorReceived} \<longrightarrow>
      (\<exists>acts. session_handle_event s e = Inr (Closed, acts)))"
proof (intro conjI impI)
  assume "session_handle_event s e = Inr (Closed, acts)"
  then show "acts \<noteq> []" "last acts = ReleaseResources"
    by (cases s; auto simp: session_defs split: SessionEvent.splits SessionTimer.splits if_splits)+
next
  show "session_handle_event Closed e = Inl (InvalidTransition ''Closed'' (session_event_str e))"
    by (cases e) (auto simp: session_defs split: SessionTimer.splits)
next
  assume "s \<notin> {Closed, Disconnected} \<and> e \<in> {ConnectionLost, FatalErrorReceived}"
  then show "\<exists>acts. session_handle_event s e = Inr (Closed, acts)"
    by (intro session_edge_step session_edge.lost) auto
qed

theorem session_closed_releases_witness:
  "\<exists>acts. session_handle_event Pairing ConnectionLost = Inr (Closed, acts) \<and> last acts = ReleaseResources"
  using session_closed_releases [of Pairing ConnectionLost "[ReleaseResources]"]
  by (auto simp: session_defs)

end
