(* ===== verification/Nxfr_Transfer.thy ===== *)
theory Nxfr_Transfer
  imports Nxfr_Machine
begin

text \<open>
  The transfer state machine, \<open>nxfr-core/src/transfer.rs\<close>: the guards for terminal states,
  cancellation and failure come first (\<open>transfer_handle_event\<close>), then one definition per source
  state for the arms of the \<open>match\<close>.
\<close>

section \<open>States, events, actions\<close>

datatype TransferState =
    Idle | Offered | Pending | Negotiating | Streaming | Paused | Completing | Complete | Cancelled | Failed

definition is_terminal :: "TransferState \<Rightarrow> bool" where
  "is_terminal s \<longleftrightarrow> s \<in> {Complete, Cancelled, Failed}"

definition is_active :: "TransferState \<Rightarrow> bool" where
  "is_active s \<longleftrightarrow> s \<in> {Offered, Pending, Negotiating, Streaming, Paused, Completing}"

fun transfer_state_str :: "TransferState \<Rightarrow> string" where
  "transfer_state_str Idle = ''Idle''"
| "transfer_state_str Offered = ''Offered''"
| "transfer_state_str Pending = ''Pending''"
| "transfer_state_str Negotiating = ''Negotiating''"
| "transfer_state_str Streaming = ''Streaming''"
| "transfer_state_str Paused = ''Paused''"
| "transfer_state_str Completing = ''Completing''"
| "transfer_state_str Complete = ''Complete''"
| "transfer_state_str Cancelled = ''Cancelled''"
| "transfer_state_str Failed = ''Failed''"

datatype TransferTimer = Consent | Negotiation | ChunkAck | Pause | Completion

datatype TransferEvent =
    SendTransferRequest
  | ReceiveTransferRequest
  | UserAccept
  | UserReject
  | ReceiveTransferAccept
  | ReceiveTransferReject
  | AllMetadataAcked
  | AllFilesRejected
  | PauseReceived
  | ResumeReceived
  | LastChunkSent
  | AllChunksReceived
  | CancelReceived
  | TransferCompleteSent
  | AckSent
  | AckSuccess
  | AckPartialFailure
  | ChecksumMismatch
  | DiskFull
  | ConnectionLost
  | FatalError
  | TimerFired TransferTimer

fun transfer_timer_debug :: "TransferTimer \<Rightarrow> string" where
  "transfer_timer_debug Consent = ''Consent''"
| "transfer_timer_debug Negotiation = ''Negotiation''"
| "transfer_timer_debug ChunkAck = ''ChunkAck''"
| "transfer_timer_debug Pause = ''Pause''"
| "transfer_timer_debug Completion = ''Completion''"

fun transfer_event_str :: "TransferEvent \<Rightarrow> string" where
  "transfer_event_str SendTransferRequest = ''SendTransferRequest''"
| "transfer_event_str ReceiveTransferRequest = ''ReceiveTransferRequest''"
| "transfer_event_str UserAccept = ''UserAccept''"
| "transfer_event_str UserReject = ''UserReject''"
| "transfer_event_str ReceiveTransferAccept = ''ReceiveTransferAccept''"
| "transfer_event_str ReceiveTransferReject = ''ReceiveTransferReject''"
| "transfer_event_str AllMetadataAcked = ''AllMetadataAcked''"
| "transfer_event_str AllFilesRejected = ''AllFilesRejected''"
| "transfer_event_str PauseReceived = ''PauseReceived''"
| "transfer_event_str ResumeReceived = ''ResumeReceived''"
| "transfer_event_str LastChunkSent = ''LastChunkSent''"
| "transfer_event_str AllChunksReceived = ''AllChunksReceived''"
| "transfer_event_str CancelReceived = ''CancelReceived''"
| "transfer_event_str TransferCompleteSent = ''TransferCompleteSent''"
| "transfer_event_str AckSent = ''AckSent''"
| "transfer_event_str AckSuccess = ''AckSuccess''"
| "transfer_event_str AckPartialFailure = ''AckPartialFailure''"
| "transfer_event_str ChecksumMismatch = ''ChecksumMismatch''"
| "transfer_event_str DiskFull = ''DiskFull''"
| "transfer_event_str ConnectionLost = ''ConnectionLost''"
| "transfer_event_str FatalError = ''FatalError''"
| "transfer_event_str (TimerFired t) = ''TimerFired('' @ transfer_timer_debug t @ '')''"

text \<open>
  The first action has the name of the first event: the event is \<open>TransferEvent.SendTransferRequest\<close>
  below, the action \<open>TransferAction.SendTransferRequest\<close>.
\<close>

datatype TransferAction =
    SendTransferRequest
  | DisplayConsentUi
  | SendTransferAccept
  | SendTransferReject
  | BeginMetadataExchange
  | BeginChunkTransmission
  | StopChunkTransmission
  | ResumeChunkTransmission
  | SendTransferComplete
  | SendTransferAck
  | SendTransferCancel
  | SendError string
  | NotifyUser string
  | CleanupPartialFiles
  | PreserveResumeState
  | StartTimer TransferTimer
  | CancelTimer TransferTimer

type_synonym transfer_result = "StateError + (TransferState \<times> TransferAction list)"

section \<open>Transitions\<close>

definition transfer_invalid :: "TransferState \<Rightarrow> TransferEvent \<Rightarrow> transfer_result" where
  "transfer_invalid state event =
     Inl (InvalidTransition (transfer_state_str state) (transfer_event_str event))"

definition transfer_idle :: "TransferEvent \<Rightarrow> transfer_result" where
  "transfer_idle event =
     (case event of
        TransferEvent.SendTransferRequest \<Rightarrow>
          Inr (Offered, [TransferAction.SendTransferRequest, StartTimer Consent])
      | ReceiveTransferRequest \<Rightarrow> Inr (Pending, [DisplayConsentUi, StartTimer Consent])
      | _ \<Rightarrow> transfer_invalid Idle event)"

definition transfer_pending :: "TransferEvent \<Rightarrow> transfer_result" where
  "transfer_pending event =
     (case event of
        UserAccept \<Rightarrow>
          Inr (Negotiating,
            [CancelTimer Consent, SendTransferAccept, BeginMetadataExchange, StartTimer Negotiation])
      | UserReject \<Rightarrow>
          Inr (Cancelled, [CancelTimer Consent, SendTransferReject, NotifyUser ''Transfer rejected by user''])
      | TimerFired Consent \<Rightarrow>
          Inr (Failed, [SendTransferReject, NotifyUser ''Transfer consent timed out''])
      | _ \<Rightarrow> transfer_invalid Pending event)"

definition transfer_offered :: "TransferEvent \<Rightarrow> transfer_result" where
  "transfer_offered event =
     (case event of
        ReceiveTransferAccept \<Rightarrow>
          Inr (Negotiating, [CancelTimer Consent, BeginMetadataExchange, StartTimer Negotiation])
      | ReceiveTransferReject \<Rightarrow>
          Inr (Cancelled, [CancelTimer Consent, NotifyUser ''Transfer rejected by peer''])
      | TimerFired Consent \<Rightarrow> Inr (Failed, [NotifyUser ''Transfer consent timed out''])
      | _ \<Rightarrow> transfer_invalid Offered event)"

definition transfer_negotiating :: "TransferEvent \<Rightarrow> transfer_result" where
  "transfer_negotiating event =
     (case event of
        AllMetadataAcked \<Rightarrow>
          Inr (Streaming, [CancelTimer Negotiation, BeginChunkTransmission, StartTimer ChunkAck])
      | AllFilesRejected \<Rightarrow>
          Inr (Failed, [CancelTimer Negotiation, NotifyUser ''All files rejected during negotiation''])
      | TimerFired Negotiation \<Rightarrow> Inr (Failed, [NotifyUser ''Metadata negotiation timed out''])
      | _ \<Rightarrow> transfer_invalid Negotiating event)"

definition transfer_streaming :: "TransferEvent \<Rightarrow> transfer_result" where
  "transfer_streaming event =
     (case event of
        PauseReceived \<Rightarrow> Inr (Paused, [CancelTimer ChunkAck, StopChunkTransmission, StartTimer Pause])
      | LastChunkSent \<Rightarrow>
          Inr (Completing, [CancelTimer ChunkAck, SendTransferComplete, StartTimer Completion])
      | AllChunksReceived \<Rightarrow>
          Inr (Completing, [CancelTimer ChunkAck, SendTransferAck, StartTimer Completion])
      | ChecksumMismatch \<Rightarrow>
          Inr (Failed, [CancelTimer ChunkAck, SendError ''checksum_mismatch'', CleanupPartialFiles,
            PreserveResumeState])
      | DiskFull \<Rightarrow> Inr (Failed, [CancelTimer ChunkAck, SendError ''disk_full'', PreserveResumeState])
      | TimerFired ChunkAck \<Rightarrow> Inr (Failed, [NotifyUser ''Chunk ACK timed out'', PreserveResumeState])
      | _ \<Rightarrow> transfer_invalid Streaming event)"

definition transfer_paused :: "TransferEvent \<Rightarrow> transfer_result" where
  "transfer_paused event =
     (case event of
        ResumeReceived \<Rightarrow>
          Inr (Streaming, [CancelTimer Pause, ResumeChunkTransmission, StartTimer ChunkAck])
      | TimerFired Pause \<Rightarrow>
          Inr (Failed, [SendTransferCancel, NotifyUser ''Transfer auto-cancelled after pause timeout'',
            PreserveResumeState])
      | _ \<Rightarrow> transfer_invalid Paused event)"

definition transfer_completing :: "TransferEvent \<Rightarrow> transfer_result" where
  "transfer_completing event =
     (case event of
        AckSuccess \<Rightarrow> Inr (Complete, [CancelTimer Completion, NotifyUser ''Transfer completed successfully''])
      | AckSent \<Rightarrow> Inr (Complete, [CancelTimer Completion, NotifyUser ''Transfer received successfully''])
      | AckPartialFailure \<Rightarrow>
          Inr (Failed, [CancelTimer Completion, NotifyUser ''Transfer completed with partial failures''])
      | ChecksumMismatch \<Rightarrow>
          Inr (Failed, [CancelTimer Completion, SendError ''checksum_mismatch'',
            NotifyUser ''Final checksum verification failed''])
      | TimerFired Completion \<Rightarrow> Inr (Failed, [NotifyUser ''Transfer completion timed out''])
      | _ \<Rightarrow> transfer_invalid Completing event)"

definition transfer_handle_event :: "TransferState \<Rightarrow> TransferEvent \<Rightarrow> transfer_result" where
  "transfer_handle_event state event =
     (if is_terminal state then transfer_invalid state event
      else if event = CancelReceived \<and> is_active state then
        Inr (Cancelled, [SendTransferCancel, CleanupPartialFiles, NotifyUser ''Transfer cancelled''])
      else if (event = FatalError \<or> event = ConnectionLost) \<and> is_active state then
        Inr (Failed, [PreserveResumeState, NotifyUser ''Transfer failed due to error or connection loss''])
      else case state of
        Idle \<Rightarrow> transfer_idle event
      | Pending \<Rightarrow> transfer_pending event
      | Offered \<Rightarrow> transfer_offered event
      | Negotiating \<Rightarrow> transfer_negotiating event
      | Streaming \<Rightarrow> transfer_streaming event
      | Paused \<Rightarrow> transfer_paused event
      | Completing \<Rightarrow> transfer_completing event
      | _ \<Rightarrow> transfer_invalid state event)"

section \<open>Timers\<close>

fun transfer_timer_effect :: "TransferAction \<Rightarrow> TransferTimer set \<Rightarrow> TransferTimer set" where
  "transfer_timer_effect (StartTimer t) L = insert t L"
| "transfer_timer_effect (CancelTimer t) L = L - {t}"
| "transfer_timer_effect _ L = L"

fun transfer_fired :: "TransferEvent \<Rightarrow> TransferTimer set" where
  "transfer_fired (TimerFired t) = {t}"
| "transfer_fired _ = {}"

fun transfer_timers :: "TransferState \<Rightarrow> TransferTimer set" where
  "transfer_timers Offered = {Consent}"
| "transfer_timers Pending = {Consent}"
| "transfer_timers Negotiating = {Negotiation}"
| "transfer_timers Streaming = {ChunkAck}"
| "transfer_timers Paused = {Pause}"
| "transfer_timers Completing = {Completion}"
| "transfer_timers _ = {}"

section \<open>Lemmas\<close>

lemmas transfer_defs = transfer_invalid_def transfer_idle_def transfer_pending_def
  transfer_offered_def transfer_negotiating_def transfer_streaming_def transfer_paused_def
  transfer_completing_def is_terminal_def is_active_def

text \<open>The transition table, by rule.\<close>

inductive transfer_edge :: "TransferState \<Rightarrow> TransferEvent \<Rightarrow> TransferState \<Rightarrow> bool" where
  offer: "transfer_edge Idle TransferEvent.SendTransferRequest Offered"
| receive: "transfer_edge Idle ReceiveTransferRequest Pending"
| user_accept: "transfer_edge Pending UserAccept Negotiating"
| user_reject: "transfer_edge Pending UserReject Cancelled"
| peer_accept: "transfer_edge Offered ReceiveTransferAccept Negotiating"
| peer_reject: "transfer_edge Offered ReceiveTransferReject Cancelled"
| metadata: "transfer_edge Negotiating AllMetadataAcked Streaming"
| pause: "transfer_edge Streaming PauseReceived Paused"
| resume: "transfer_edge Paused ResumeReceived Streaming"
| chunks_done: "e \<in> {LastChunkSent, AllChunksReceived} \<Longrightarrow> transfer_edge Streaming e Completing"
| acked: "e \<in> {AckSuccess, AckSent} \<Longrightarrow> transfer_edge Completing e Complete"
| cancel: "is_active s \<Longrightarrow> transfer_edge s CancelReceived Cancelled"
| fail: "is_active s \<Longrightarrow> e \<in> {FatalError, ConnectionLost} \<Longrightarrow> transfer_edge s e Failed"
| timeout: "is_active s \<Longrightarrow> t \<in> transfer_timers s \<Longrightarrow> transfer_edge s (TimerFired t) Failed"
| rejected: "transfer_edge Negotiating AllFilesRejected Failed"
| stream_fail: "e \<in> {ChecksumMismatch, DiskFull} \<Longrightarrow> transfer_edge Streaming e Failed"
| verify_fail: "e \<in> {ChecksumMismatch, AckPartialFailure} \<Longrightarrow> transfer_edge Completing e Failed"

lemma transfer_step_edge: "transfer_handle_event s e = Inr (s', acts) \<Longrightarrow> transfer_edge s e s'"
  by (cases s)
    (auto simp: transfer_handle_event_def transfer_defs
      intro: transfer_edge.intros split: TransferEvent.splits TransferTimer.splits if_splits)

lemma transfer_edge_step: "transfer_edge s e s' \<Longrightarrow> \<exists>acts. transfer_handle_event s e = Inr (s', acts)"
proof (induction rule: transfer_edge.induct)
  case (timeout s t)
  then show ?case by (cases s) (auto simp: transfer_handle_event_def transfer_defs)
qed (auto simp: transfer_handle_event_def transfer_defs)

interpretation transfer: timed_machine transfer_handle_event Idle is_terminal
  transfer_timer_effect transfer_fired transfer_timers
proof unfold_locales
  fix s e s' acts
  assume "transfer_handle_event s e = Inr (s', acts)" "\<not> is_terminal s'"
  then show "fold transfer_timer_effect acts (transfer_timers s - transfer_fired e) = transfer_timers s'"
    by (cases s)
      (auto simp: transfer_handle_event_def transfer_defs split: TransferEvent.splits TransferTimer.splits if_splits)
next
  fix s e assume "is_terminal s"
  then show "\<exists>err. transfer_handle_event s e = Inl err"
    by (simp add: transfer_handle_event_def transfer_invalid_def)
qed simp

text \<open>
  The milestones of a run. Consent is an offer that the peer accepted, or a request that the local
  user accepted.
\<close>

definition milestones :: "TransferEvent list \<Rightarrow> TransferEvent list \<Rightarrow> bool" where
  "milestones ms es \<longleftrightarrow> subseq (TransferEvent.SendTransferRequest # ReceiveTransferAccept # ms) es
     \<or> subseq (ReceiveTransferRequest # UserAccept # ms) es"

fun transfer_progress :: "TransferState \<Rightarrow> TransferEvent list \<Rightarrow> bool" where
  "transfer_progress Offered es = subseq [TransferEvent.SendTransferRequest] es"
| "transfer_progress Pending es = subseq [ReceiveTransferRequest] es"
| "transfer_progress Negotiating es = milestones [] es"
| "transfer_progress Streaming es = milestones [AllMetadataAcked] es"
| "transfer_progress Paused es = milestones [AllMetadataAcked] es"
| "transfer_progress Completing es =
     (\<exists>c\<in>{LastChunkSent, AllChunksReceived}. milestones [AllMetadataAcked, c] es)"
| "transfer_progress Complete es =
     (\<exists>c\<in>{LastChunkSent, AllChunksReceived}. \<exists>a\<in>{AckSuccess, AckSent}. milestones [AllMetadataAcked, c, a] es)"
| "transfer_progress _ es = True"

lemma milestones_keep: "milestones ms es \<Longrightarrow> milestones ms (es @ [e])"
  by (auto simp: milestones_def intro: subseq_snoc_right)

lemma milestones_extend:
  assumes "milestones ms es" shows "milestones (ms @ [e]) (es @ [e])"
proof -
  have "subseq (x # y # ms) es \<Longrightarrow> subseq (x # y # ms @ [e]) (es @ [e])" for x y
    using subseq_snoc [of "x # y # ms" es e] by simp
  then show ?thesis using assms by (auto simp: milestones_def)
qed

lemma transfer_progress_step:
  assumes "transfer_edge s e s'" "transfer_progress s es"
  shows "transfer_progress s' (es @ [e])"
  using assms
proof induction
  case offer
  then show ?case using subseq_snoc [of "[]" es] by simp
next
  case receive
  then show ?case using subseq_snoc [of "[]" es] by simp
next
  case user_accept
  then show ?case using subseq_snoc [of "[ReceiveTransferRequest]" es UserAccept] by (simp add: milestones_def)
next
  case peer_accept
  then show ?case
    using subseq_snoc [of "[TransferEvent.SendTransferRequest]" es ReceiveTransferAccept]
    by (simp add: milestones_def)
next
  case metadata
  then show ?case using milestones_extend [of "[]" es] by simp
next
  case (chunks_done e)
  then show ?case using milestones_extend [of "[AllMetadataAcked]" es e] by auto
next
  case (acked e)
  then obtain c where "c \<in> {LastChunkSent, AllChunksReceived}" "milestones [AllMetadataAcked, c] es"
    by auto
  with acked show ?case using milestones_extend [of "[AllMetadataAcked, c]" es e] by auto
qed (auto intro: milestones_keep)

lemma transfer_run_progress:
  "machine_run transfer_handle_event Idle s h \<Longrightarrow> transfer_progress s (history_events h)"
  by (induction rule: machine_run.induct) (auto dest!: transfer_step_edge intro: transfer_progress_step)

lemma transfer_chunks_need_consent:
  "machine_run transfer_handle_event Idle s h \<Longrightarrow>
     BeginChunkTransmission \<in> set (history_actions h) \<longrightarrow> milestones [AllMetadataAcked] (history_events h)"
proof (induction rule: machine_run.induct)
  case (run_step s h e s' acts)
  have new: "BeginChunkTransmission \<in> set acts \<longrightarrow> s = Negotiating \<and> e = AllMetadataAcked"
    using run_step.hyps(2)
    by (cases s)
      (auto simp: transfer_handle_event_def transfer_defs split: TransferEvent.splits TransferTimer.splits if_splits)
  have "milestones [AllMetadataAcked] (history_events h @ [AllMetadataAcked])" if "s = Negotiating"
    using transfer_run_progress [OF run_step.hyps(1)] that milestones_extend [of "[]"] by fastforce
  then show ?case using run_step.IH new by (auto intro: milestones_keep)
qed simp

section \<open>Properties\<close>

text \<open>
  The transition function of the transfer accepts exactly the edges of the protocol's diagram.
\<close>

theorem transfer_transition_table:
  "(\<exists>acts. transfer_handle_event s e = Inr (s', acts)) \<longleftrightarrow> transfer_edge s e s'"
  using transfer_step_edge transfer_edge_step by blast

text \<open>
  C12 A transfer is complete only after every stage of it, in order: the offer and its acceptance by
  the peer, or the request and its acceptance by the user; the acknowledged metadata; the last
  chunk; and the final acknowledgement.
\<close>

theorem transfer_complete_stages:
  assumes "machine_run transfer_handle_event Idle Complete h"
  shows "\<exists>c\<in>{LastChunkSent, AllChunksReceived}. \<exists>a\<in>{AckSuccess, AckSent}.
    milestones [AllMetadataAcked, c, a] (history_events h)"
  using transfer_run_progress [OF assms] by simp

theorem transfer_complete_stages_witness:
  "\<exists>h. machine_run transfer_handle_event Idle Complete h \<and>
     (\<exists>c\<in>{LastChunkSent, AllChunksReceived}. \<exists>a\<in>{AckSuccess, AckSent}.
        milestones [AllMetadataAcked, c, a] (history_events h))"
proof -
  let ?es = "[TransferEvent.SendTransferRequest, ReceiveTransferAccept, AllMetadataAcked,
    PauseReceived, ResumeReceived, LastChunkSent, AckSuccess]"
  obtain h where h: "feed transfer_handle_event Idle ?es = Inr (Complete, h)"
    by (simp add: transfer_handle_event_def transfer_defs)
  from machine_run_feed [OF run_start h] have "machine_run transfer_handle_event Idle Complete h"
    by simp
  with transfer_complete_stages [OF this] show ?thesis by blast
qed

text \<open>
  No chunk is transmitted without consent: in every run, the start of the chunk transmission is
  preceded by an accepted offer or an accepted request and by the metadata acknowledgements.
\<close>

theorem transfer_chunks_after_consent:
  assumes "machine_run transfer_handle_event Idle s h"
    and "BeginChunkTransmission \<in> set (history_actions h)"
  shows "milestones [AllMetadataAcked] (history_events h)"
  using transfer_chunks_need_consent [OF assms(1)] assms(2) by blast

theorem transfer_chunks_after_consent_witness:
  "\<exists>s h. machine_run transfer_handle_event Idle s h \<and> milestones [AllMetadataAcked] (history_events h)"
proof -
  let ?es = "[ReceiveTransferRequest, UserAccept, AllMetadataAcked]"
  obtain h where h: "feed transfer_handle_event Idle ?es = Inr (Streaming, h)"
    and b: "BeginChunkTransmission \<in> set (history_actions h)"
    by (simp add: transfer_handle_event_def transfer_defs)
  from machine_run_feed [OF run_start h] have "machine_run transfer_handle_event Idle Streaming h"
    by simp
  with transfer_chunks_after_consent [OF this b] show ?thesis by blast
qed

text \<open>
  Timer discipline of the transfer: in every reachable state that is not terminal, the running
  timers are exactly those of the state.
\<close>

theorem transfer_timer_discipline:
  assumes "machine_run transfer_handle_event Idle s h" "\<not> is_terminal s"
  shows "live_timers transfer_timer_effect transfer_fired h {} = transfer_timers s"
  using transfer.run_timers [OF assms(1)] assms(2) by blast

theorem transfer_timer_discipline_witness:
  "live_timers transfer_timer_effect transfer_fired
     [(ReceiveTransferRequest, [DisplayConsentUi, StartTimer Consent])] {} = {Consent}"
proof -
  have "machine_run transfer_handle_event Idle Pending
      ([] @ [(ReceiveTransferRequest, [DisplayConsentUi, StartTimer Consent])])"
    by (rule run_step [OF run_start]) (simp add: transfer_handle_event_def transfer_defs)
  from transfer_timer_discipline [OF this] show ?thesis by (simp add: is_terminal_def)
qed

text \<open>
  The terminal states are exactly the states that refuse every event; from every other state but
  \<open>Idle\<close> a cancellation ends in \<open>Cancelled\<close> with the partial files removed, and a lost
  connection or fatal error ends in \<open>Failed\<close> with the resume state kept and no partial file removed.
\<close>

theorem transfer_terminal_states:
  "(is_terminal s \<longleftrightarrow> (\<forall>e. \<exists>err. transfer_handle_event s e = Inl err)) \<and>
   (is_active s \<longleftrightarrow> s \<noteq> Idle \<and> \<not> is_terminal s) \<and>
   (is_active s \<longrightarrow>
      (\<exists>acts. transfer_handle_event s CancelReceived = Inr (Cancelled, acts)
         \<and> CleanupPartialFiles \<in> set acts) \<and>
      (\<forall>e\<in>{ConnectionLost, FatalError}.
         \<exists>acts. transfer_handle_event s e = Inr (Failed, acts)
           \<and> PreserveResumeState \<in> set acts \<and> CleanupPartialFiles \<notin> set acts))"
proof (intro conjI impI)
  show "is_terminal s \<longleftrightarrow> (\<forall>e. \<exists>err. transfer_handle_event s e = Inl err)"
  proof
    assume refuse: "\<forall>e. \<exists>err. transfer_handle_event s e = Inl err"
    show "is_terminal s"
      using refuse [rule_format, of CancelReceived] refuse [rule_format, of ReceiveTransferRequest]
      by (cases s) (auto simp: transfer_handle_event_def transfer_defs)
  qed (use transfer.terminal_refuses in blast)
  show "is_active s \<longleftrightarrow> s \<noteq> Idle \<and> \<not> is_terminal s"
    by (cases s) (simp_all add: is_active_def is_terminal_def)
qed (auto simp: transfer_handle_event_def is_active_def is_terminal_def)

theorem transfer_terminal_states_witness:
  "\<exists>acts. transfer_handle_event Paused CancelReceived = Inr (Cancelled, acts) \<and> CleanupPartialFiles \<in> set acts"
  using transfer_terminal_states [of Paused] by (simp add: is_active_def)

end
