(* ===== verification/Nxfr_Sql.thy ===== *)
theory Nxfr_Sql
  imports Nxfr_Prelude "HOL-Library.Product_Lexorder"
begin

text \<open>
  The part of SQL that \<open>nxfr-storage\<close> writes its statements in. A database file holds one table of
  rows (absent until \<open>CREATE TABLE\<close>), the counter of an \<open>AUTOINCREMENT\<close> key and, where there is
  one, the \<open>schema_version\<close> table. Every statement may fail (a locked or full database); a failed
  statement changes nothing. The failures are a list of outcomes, one per statement; after its end
  statements succeed. Rows are kept in the order of their \<open>rowid\<close>.

  The locale \<open>keyed_table\<close> is what a client of a keyed table relies on: an operation that succeeds
  changes the row of its key as specified, and nothing else changes.
\<close>

section \<open>Statements\<close>

datatype StorageError = Db string | Io string | MissingHomeDir

record 'r database =
  db_rows :: "'r list option"
  db_autoinc :: int
  db_version :: "int list option"
  db_faults :: "string option list"

definition sql_run :: "('r database \<Rightarrow> (string + 'a) \<times> 'r database) \<Rightarrow> 'r database
    \<Rightarrow> (StorageError + 'a) \<times> 'r database" where
  "sql_run stmt db =
     (case db_faults db of
        [] \<Rightarrow> (case stmt db of (r, db') \<Rightarrow> (map_err Db r, db'))
      | None # fs \<Rightarrow> (case stmt (db\<lparr>db_faults := fs\<rparr>) of (r, db') \<Rightarrow> (map_err Db r, db'))
      | Some e # fs \<Rightarrow> (Inl (Db e), db\<lparr>db_faults := fs\<rparr>))"

definition sql_create_table :: "'r database \<Rightarrow> (string + unit) \<times> 'r database" where
  "sql_create_table db =
     (Inr (), if db_rows db = None then db\<lparr>db_rows := Some []\<rparr> else db)"

text \<open>A statement on the rows of the table; it fails when there is no table.\<close>

definition sql_on_rows :: "('r list \<Rightarrow> 'a \<times> 'r list) \<Rightarrow> 'r database \<Rightarrow> (string + 'a) \<times> 'r database" where
  "sql_on_rows f db =
     (case db_rows db of
        None \<Rightarrow> (Inl ''no such table'', db)
      | Some rows \<Rightarrow> (case f rows of (x, rows') \<Rightarrow> (Inr x, db\<lparr>db_rows := Some rows'\<rparr>)))"

text \<open>
  \<open>INSERT \<dots> ON CONFLICT(key) DO UPDATE\<close>: \<open>merge old new\<close> is the row after the update.
\<close>

definition rows_upsert :: "('r \<Rightarrow> 'k) \<Rightarrow> ('r \<Rightarrow> 'r \<Rightarrow> 'r) \<Rightarrow> 'r \<Rightarrow> 'r list \<Rightarrow> 'r list" where
  "rows_upsert key merge new rows =
     (if list_ex (\<lambda>r. key r = key new) rows
      then map (\<lambda>r. if key r = key new then merge r new else r) rows
      else rows @ [new])"

definition rows_with :: "('r \<Rightarrow> 'k) \<Rightarrow> 'k \<Rightarrow> 'r list \<Rightarrow> 'r list" where
  "rows_with key k rows = filter (\<lambda>r. key r = k) rows"

definition rows_delete :: "('r \<Rightarrow> 'k) \<Rightarrow> 'k \<Rightarrow> 'r list \<Rightarrow> 'r list" where
  "rows_delete key k rows = filter (\<lambda>r. key r \<noteq> k) rows"

definition rows_update :: "('r \<Rightarrow> 'k) \<Rightarrow> 'k \<Rightarrow> ('r \<Rightarrow> 'r) \<Rightarrow> 'r list \<Rightarrow> 'r list" where
  "rows_update key k f rows = map (\<lambda>r. if key r = k then f r else r) rows"

text \<open>\<open>ORDER BY a DESC, b DESC\<close>.\<close>

definition rows_order_desc :: "('r \<Rightarrow> int \<times> int) \<Rightarrow> 'r list \<Rightarrow> 'r list" where
  "rows_order_desc k rows = sort_key (\<lambda>r. (- fst (k r), - snd (k r))) rows"

text \<open>
  The row of a key, as a \<open>SELECT \<dots> WHERE key = k\<close> that takes the first row yields it; the keys of
  the table are unique.
\<close>

definition table_view :: "('r \<Rightarrow> 'k) \<Rightarrow> 'r database \<Rightarrow> 'k \<Rightarrow> 'r option" where
  "table_view key db k = (case db_rows db of None \<Rightarrow> None | Some rows \<Rightarrow> find (\<lambda>r. key r = k) rows)"

definition table_ok :: "('r \<Rightarrow> 'k) \<Rightarrow> 'r database \<Rightarrow> bool" where
  "table_ok key db \<longleftrightarrow> (case db_rows db of None \<Rightarrow> False | Some rows \<Rightarrow> distinct (map key rows))"

text \<open>Run operations one after the other and record which succeeded.\<close>

fun run_ops :: "('op \<Rightarrow> 'w \<Rightarrow> ('e + unit) \<times> 'w) \<Rightarrow> 'op list \<Rightarrow> 'w \<Rightarrow> 'op list \<times> 'w" where
  "run_ops perform [] w = ([], w)"
| "run_ops perform (x # xs) w =
     (case perform x w of (r, w1) \<Rightarrow>
        case run_ops perform xs w1 of (log, w2) \<Rightarrow>
          (case r of Inl _ \<Rightarrow> (log, w2) | Inr _ \<Rightarrow> (x # log, w2)))"

section \<open>Lemmas\<close>

lemma sql_run_cases:
  assumes "sql_run stmt db = (r, db')"
  obtains (fault) e fs where "r = Inl (Db e)" "db' = db\<lparr>db_faults := fs\<rparr>"
  | (ran) q fs where "stmt (db\<lparr>db_faults := fs\<rparr>) = (q, db')" "r = map_err Db q"
proof (cases "db_faults db")
  case Nil
  obtain q db1 where q: "stmt db = (q, db1)" by (cases "stmt db")
  have "db\<lparr>db_faults := []\<rparr> = db" using Nil by simp
  with q have "stmt (db\<lparr>db_faults := []\<rparr>) = (q, db1)" by simp
  moreover have "r = map_err Db q" "db' = db1" using assms Nil q by (simp_all add: sql_run_def)
  ultimately show thesis using that(2) by blast
next
  case (Cons a fs)
  then show thesis using assms that by (cases a) (auto simp: sql_run_def split: prod.splits)
qed

lemma sql_run_no_faults [simp]:
  "db_faults db = [] \<Longrightarrow> sql_run stmt db = (case stmt db of (r, db') \<Rightarrow> (map_err Db r, db'))"
  by (simp add: sql_run_def)

lemma find_filter_hd: "find P xs = (case filter P xs of [] \<Rightarrow> None | x # _ \<Rightarrow> Some x)"
  by (induction xs) auto

lemma find_map_same:
  assumes "\<And>r. P (f r) \<longleftrightarrow> P r"
  shows "find P (map f rows) = map_option f (find P rows)"
  by (induction rows) (auto simp: assms)

lemma find_append: "find P (xs @ ys) = (case find P xs of None \<Rightarrow> find P ys | Some x \<Rightarrow> Some x)"
  by (induction xs) auto

lemma find_rows_upsert:
  assumes "\<And>old. key old = key new \<Longrightarrow> key (merge old new) = key new"
  shows "find (\<lambda>r. key r = k) (rows_upsert key merge new rows) =
    (if k = key new
     then Some (case find (\<lambda>r. key r = k) rows of None \<Rightarrow> new | Some old \<Rightarrow> merge old new)
     else find (\<lambda>r. key r = k) rows)"
proof (cases "list_ex (\<lambda>r. key r = key new) rows")
  case True
  let ?f = "\<lambda>r. if key r = key new then merge r new else r"
  have f: "key (?f r) = k \<longleftrightarrow> key r = k" for r using assms by auto
  have "find (\<lambda>r. key r = k) (map ?f rows) = map_option ?f (find (\<lambda>r. key r = k) rows)"
    by (rule find_map_same) (rule f)
  moreover have "\<exists>old. find (\<lambda>r. key r = key new) rows = Some old"
    using True by (induction rows) auto
  moreover have "find (\<lambda>r. key r = k) rows = Some r \<Longrightarrow> key r = k" for r by (induction rows) (auto split: if_splits)
  ultimately show ?thesis
    using True by (cases "find (\<lambda>r. key r = k) rows") (auto simp: rows_upsert_def)
next
  case False
  then have "find (\<lambda>r. key r = key new) rows = None" by (induction rows) auto
  then show ?thesis
    using False by (auto simp: rows_upsert_def find_append split: option.splits)
qed

lemma find_rows_delete:
  "find (\<lambda>r. key r = k) (rows_delete key k' rows) = (if k = k' then None else find (\<lambda>r. key r = k) rows)"
  by (induction rows) (auto simp: rows_delete_def)

lemma find_rows_update:
  assumes "\<And>r. key (f r) = key r"
  shows "find (\<lambda>r. key r = k) (rows_update key k' f rows) =
    (if k = k' then map_option f (find (\<lambda>r. key r = k) rows) else find (\<lambda>r. key r = k) rows)"
  by (induction rows) (auto simp: rows_update_def assms)

lemma map_key_rows_upsert:
  assumes "\<And>old. key old = key new \<Longrightarrow> key (merge old new) = key new"
  shows "map key (rows_upsert key merge new rows) =
    (if key new \<in> key ` set rows then map key rows else map key rows @ [key new])"
proof -
  have "key new \<in> key ` set rows \<longleftrightarrow> list_ex (\<lambda>r. key r = key new) rows"
    by (induction rows) auto
  then show ?thesis using assms by (simp add: rows_upsert_def)
qed

lemma distinct_rows_upsert:
  assumes "\<And>old. key old = key new \<Longrightarrow> key (merge old new) = key new" "distinct (map key rows)"
  shows "distinct (map key (rows_upsert key merge new rows))"
  using assms by (simp add: map_key_rows_upsert)

lemma distinct_rows_delete: "distinct (map key rows) \<Longrightarrow> distinct (map key (rows_delete key k rows))"
  by (simp add: rows_delete_def distinct_map_filter)

lemma distinct_rows_update:
  assumes "\<And>r. key (f r) = key r"
  shows "map key (rows_update key k f rows) = map key rows"
  by (simp add: rows_update_def assms)

section \<open>Keyed tables\<close>

text \<open>
  \<open>perform\<close> runs an operation, \<open>view\<close> reads the row of a key, \<open>keeps\<close> is the invariant of the
  table, \<open>key_of\<close> the key an operation names and \<open>effect\<close> what it does to the row of that key.
\<close>

locale keyed_table =
  fixes perform :: "'op \<Rightarrow> 'w \<Rightarrow> ('e + unit) \<times> 'w"
    and view :: "'w \<Rightarrow> 'k \<Rightarrow> 'v option"
    and keeps :: "'w \<Rightarrow> bool"
    and key_of :: "'op \<Rightarrow> 'k"
    and effect :: "'op \<Rightarrow> 'v option \<Rightarrow> 'v option"
  assumes perform_keeps: "keeps w \<Longrightarrow> perform x w = (r, w') \<Longrightarrow> keeps w'"
    and perform_ok: "keeps w \<Longrightarrow> perform x w = (Inr u, w') \<Longrightarrow> view w' (key_of x) = effect x (view w (key_of x))"
    and perform_fails: "keeps w \<Longrightarrow> perform x w = (Inl e, w') \<Longrightarrow> view w' k = view w k"
    and perform_other: "keeps w \<Longrightarrow> perform x w = (r, w') \<Longrightarrow> k \<noteq> key_of x \<Longrightarrow> view w' k = view w k"
begin

lemma perform_view:
  assumes "keeps w" "perform x w = (r, w')"
  shows "view w' k = (if (\<exists>u. r = Inr u) \<and> key_of x = k then effect x (view w k) else view w k)"
  using assms perform_ok perform_fails perform_other by (cases r) auto

text \<open>The row of a key after a sequence: the effects of the successful operations that name it.\<close>

lemma run_view:
  "keeps w \<Longrightarrow> run_ops perform xs w = (log, w') \<Longrightarrow>
     keeps w' \<and> view w' k = fold effect (filter (\<lambda>x. key_of x = k) log) (view w k)"
proof (induction xs arbitrary: w log)
  case Nil
  then show ?case by simp
next
  case (Cons x xs)
  obtain r w1 where r: "perform x w = (r, w1)" by (cases "perform x w")
  obtain log1 where log1: "run_ops perform xs w1 = (log1, w')"
    "log = (case r of Inl _ \<Rightarrow> log1 | Inr _ \<Rightarrow> x # log1)"
    using Cons.prems r by (auto split: prod.splits sum.splits)
  have "keeps w1" using perform_keeps Cons.prems(1) r by blast
  with Cons.IH log1(1)
  have "keeps w' \<and> view w' k = fold effect (filter (\<lambda>x. key_of x = k) log1) (view w1 k)" by blast
  then show ?case
    using perform_view [OF Cons.prems(1) r, of k] log1(2) by (cases r) auto
qed

lemma run_untouched:
  assumes "keeps w" "run_ops perform xs w = (log, w')" "\<forall>x\<in>set log. key_of x \<noteq> k"
  shows "view w' k = view w k"
  using run_view [OF assms(1,2)] assms(3) by simp

end

end
