(* ===== verification/Nxfr_History.thy ===== *)
theory Nxfr_History
  imports Nxfr_Sql "HOL-Library.Multiset"
begin

text \<open>
  The transfer history, \<open>nxfr-storage/src/history.rs\<close>: a table with an \<open>AUTOINCREMENT\<close> key that
  \<open>add\<close> prunes to the 200 newest rows. Columns are 64-bit signed integers: a \<open>u64\<close> that does not fit
  is an error of the binding layer, before the statement runs. The JSON text of the list of paths is
  a parameter (\<open>serde_json\<close>); the locale \<open>paths_json\<close> states that parsing inverts printing.
\<close>

section \<open>Data\<close>

definition MAX_HISTORY_ROWS :: nat where
  "MAX_HISTORY_ROWS = 200"

record TransferHistoryRecord =
  th_id :: i64
  th_ts_ms :: i64
  th_direction :: string
  th_peer_name :: string
  th_peer_id :: string
  th_file_count :: u32
  th_total_bytes :: u64
  th_status :: string
  th_file_paths :: "string list"

text \<open>A row of the table.\<close>

record history_row =
  hr_id :: i64
  hr_ts_ms :: i64
  hr_direction :: string
  hr_peer_name :: string
  hr_peer_id :: string
  hr_file_count :: i64
  hr_total_bytes :: i64
  hr_status :: string
  hr_file_paths :: string

type_synonym history_db = "history_row database"

section \<open>Operations\<close>

text \<open>Binding a \<open>u64\<close> or \<open>usize\<close> parameter of a prepared statement.\<close>

definition bind_uint :: "nat \<Rightarrow> string + i64" where
  "bind_uint n = (if n < 2 ^ 63 then Inr (int n) else Inl ''out of range integral type conversion attempted'')"

definition history_init_schema :: "history_db \<Rightarrow> (StorageError + unit) \<times> history_db" where
  "history_init_schema db =
     (case sql_run sql_create_table db of
        (Inl e, db) \<Rightarrow> (Inl e, db)
      | (Inr _, db) \<Rightarrow> sql_run (sql_on_rows (\<lambda>rows. ((), rows))) db)"

text \<open>\<open>open\<close>: the outcomes of \<open>create_dir_all\<close>, \<open>Connection::open\<close> and the two pragmas are arguments.\<close>

definition history_open :: "string + unit \<Rightarrow> string + unit \<Rightarrow> string + unit \<Rightarrow> history_db
    \<Rightarrow> (StorageError + unit) \<times> history_db" where
  "history_open mkdir connection pragmas db =
     (case and_then (map_err Io mkdir) (\<lambda>_. and_then (map_err Db connection) (\<lambda>_. map_err Db pragmas)) of
        Inl e \<Rightarrow> (Inl e, db)
      | Inr _ \<Rightarrow> history_init_schema db)"

text \<open>\<open>INSERT\<close> with the next value of the key, which \<open>last_insert_rowid\<close> returns.\<close>

definition insert_row :: "nat \<Rightarrow> (i64 \<Rightarrow> history_row) \<Rightarrow> history_db \<Rightarrow> (string + i64) \<times> history_db" where
  "insert_row total_bytes mk db =
     (case db_rows db of
        None \<Rightarrow> (Inl ''no such table'', db)
      | Some rows \<Rightarrow>
          (case bind_uint total_bytes of
             Inl e \<Rightarrow> (Inl e, db)
           | Inr _ \<Rightarrow>
               if db_autoinc db = 2 ^ 63 - 1 then (Inl ''database or disk is full'', db)
               else let i = db_autoinc db + 1
                    in (Inr i, db\<lparr>db_rows := Some (rows @ [mk i]), db_autoinc := i\<rparr>)))"

definition newest_first :: "history_row list \<Rightarrow> history_row list" where
  "newest_first rows = rows_order_desc (\<lambda>r. (hr_ts_ms r, hr_id r)) rows"

definition prune :: "history_row list \<Rightarrow> history_row list" where
  "prune rows =
     (let keep = map hr_id (take MAX_HISTORY_ROWS (newest_first rows))
      in filter (\<lambda>r. hr_id r \<in> set keep) rows)"

definition history_to_row :: "(string list \<Rightarrow> string + string) \<Rightarrow> i64 \<Rightarrow> TransferHistoryRecord \<Rightarrow> i64 \<Rightarrow> history_row" where
  "history_to_row to_string now rec i =
     \<lparr>hr_id = i,
      hr_ts_ms = (if th_ts_ms rec > 0 then th_ts_ms rec else now),
      hr_direction = th_direction rec,
      hr_peer_name = th_peer_name rec,
      hr_peer_id = th_peer_id rec,
      hr_file_count = int (unat (th_file_count rec)),
      hr_total_bytes = int (unat (th_total_bytes rec)),
      hr_status = th_status rec,
      hr_file_paths = (case to_string (th_file_paths rec) of Inl _ \<Rightarrow> ''[]'' | Inr json \<Rightarrow> json)\<rparr>"

definition history_add :: "(string list \<Rightarrow> string + string) \<Rightarrow> i64 \<Rightarrow> TransferHistoryRecord \<Rightarrow> history_db
    \<Rightarrow> (StorageError + i64) \<times> history_db" where
  "history_add to_string now rec db =
     (case sql_run (insert_row (unat (th_total_bytes rec)) (history_to_row to_string now rec)) db of
        (Inl e, db) \<Rightarrow> (Inl e, db)
      | (Inr i, db) \<Rightarrow>
          (case sql_run (sql_on_rows (\<lambda>rows. ((), prune rows))) db of
             (Inl e, db) \<Rightarrow> (Inl e, db)
           | (Inr _, db) \<Rightarrow> (Inr i, db)))"

text \<open>\<open>as u32\<close> and \<open>as u64\<close> of the stored integers wrap.\<close>

definition history_of_row :: "(string \<Rightarrow> string + string list) \<Rightarrow> history_row \<Rightarrow> TransferHistoryRecord" where
  "history_of_row from_str r =
     \<lparr>th_id = hr_id r,
      th_ts_ms = hr_ts_ms r,
      th_direction = hr_direction r,
      th_peer_name = hr_peer_name r,
      th_peer_id = hr_peer_id r,
      th_file_count = of_int (hr_file_count r),
      th_total_bytes = of_int (hr_total_bytes r),
      th_status = hr_status r,
      th_file_paths = (case from_str (hr_file_paths r) of Inl _ \<Rightarrow> [] | Inr paths \<Rightarrow> paths)\<rparr>"

definition select_newest :: "nat \<Rightarrow> history_db \<Rightarrow> (string + history_row list) \<times> history_db" where
  "select_newest fetch_limit db =
     (case db_rows db of
        None \<Rightarrow> (Inl ''no such table'', db)
      | Some rows \<Rightarrow>
          (case bind_uint fetch_limit of
             Inl e \<Rightarrow> (Inl e, db)
           | Inr _ \<Rightarrow> (Inr (take fetch_limit (newest_first rows)), db)))"

definition history_list :: "(string \<Rightarrow> string + string list) \<Rightarrow> nat \<Rightarrow> history_db
    \<Rightarrow> (StorageError + TransferHistoryRecord list) \<times> history_db" where
  "history_list from_str limit db =
     (let fetch_limit = (if limit = 0 then MAX_HISTORY_ROWS else limit)
      in case sql_run (select_newest fetch_limit) db of
           (Inl e, db) \<Rightarrow> (Inl e, db)
         | (Inr rows, db) \<Rightarrow> (Inr (map (history_of_row from_str) rows), db))"

definition history_clear :: "history_db \<Rightarrow> (StorageError + unit) \<times> history_db" where
  "history_clear = sql_run (sql_on_rows (\<lambda>rows. ((), [])))"

text \<open>
  A sequence of additions, with the rows they inserted (an addition that fails while pruning has
  inserted its row).
\<close>

fun history_run :: "(string list \<Rightarrow> string + string) \<Rightarrow> (i64 \<times> TransferHistoryRecord) list \<Rightarrow> history_db
    \<Rightarrow> history_row list \<times> history_db" where
  "history_run to_string [] db = ([], db)"
| "history_run to_string ((now, rec) # xs) db =
     (let db1 = snd (history_add to_string now rec db)
      in case history_run to_string xs db1 of (log, db2) \<Rightarrow>
           (if db_autoinc db1 = db_autoinc db then log
            else history_to_row to_string now rec (db_autoinc db1) # log, db2))"

section \<open>Lemmas\<close>

text \<open>Ids are unique and were all handed out by the counter.\<close>

definition history_ok :: "history_db \<Rightarrow> bool" where
  "history_ok db \<longleftrightarrow> (case db_rows db of
     None \<Rightarrow> False
   | Some rows \<Rightarrow> distinct (map hr_id rows) \<and> (\<forall>r\<in>set rows. hr_id r \<le> db_autoinc db))"

abbreviation sort_position :: "history_row \<Rightarrow> int \<times> int" where
  "sort_position r \<equiv> (- hr_ts_ms r, - hr_id r)"

lemma newest_first_sort: "newest_first rows = sort_key sort_position rows"
  by (simp add: newest_first_def rows_order_desc_def)

lemma set_newest_first [simp]: "set (newest_first rows) = set rows"
  by (simp add: newest_first_sort)

lemma mset_newest_first [simp]: "mset (newest_first rows) = mset rows"
  by (simp add: newest_first_sort)

lemma distinct_newest_first: "distinct (map hr_id (newest_first rows)) \<longleftrightarrow> distinct (map hr_id rows)"
  by (metis mset_newest_first mset_map mset_eq_imp_distinct_iff)

lemma filter_take_ids:
  "distinct (map hr_id xs) \<Longrightarrow> filter (\<lambda>r. hr_id r \<in> hr_id ` set (take n xs)) xs = take n xs"
proof (induction xs arbitrary: n)
  case (Cons x xs)
  show ?case
  proof (cases n)
    case (Suc m)
    have "filter (\<lambda>r. hr_id r \<in> hr_id ` set (take n (x # xs))) xs
        = filter (\<lambda>r. hr_id r \<in> hr_id ` set (take m xs)) xs"
    proof (rule filter_cong)
      fix r assume "r \<in> set xs"
      then have "hr_id r \<noteq> hr_id x" using Cons.prems by (metis distinct.simps(2) image_eqI list.map(2) list.set_map)
      then show "hr_id r \<in> hr_id ` set (take n (x # xs)) \<longleftrightarrow> hr_id r \<in> hr_id ` set (take m xs)"
        using Suc by simp
    qed simp
    then show ?thesis using Cons Suc by simp
  qed simp
qed simp

lemma newest_first_prune:
  assumes "distinct (map hr_id rows)"
  shows "newest_first (prune rows) = take MAX_HISTORY_ROWS (newest_first rows)"
proof -
  have "newest_first (prune rows) =
      filter (\<lambda>r. hr_id r \<in> hr_id ` set (take MAX_HISTORY_ROWS (newest_first rows))) (newest_first rows)"
    by (simp add: newest_first_sort prune_def filter_sort)
  then show ?thesis using filter_take_ids assms distinct_newest_first by metis
qed

lemma take_insort: "take n (insort_key f y zs) = take n (insort_key f y (take n zs))"
  by (induction zs arbitrary: n) (auto simp: take_Cons split: nat.splits)

lemma newest_first_Cons: "newest_first (y # rows) = insort_key sort_position y (newest_first rows)"
  by (simp add: newest_first_sort)

lemma newest_first_perm:
  assumes "mset xs = mset ys" "distinct (map hr_id xs)"
  shows "newest_first xs = newest_first ys"
proof -
  have "inj_on sort_position (set xs)"
    using assms(2) by (auto simp: inj_on_def distinct_map)
  then show ?thesis
    unfolding newest_first_sort using assms(1) by (intro sort_key_inj_key_eq) simp_all
qed

text \<open>Rows outside the newest of a list never become part of the newest of a larger one.\<close>

lemma take_newest_add:
  assumes "take n (newest_first xs) = take n (newest_first ys)"
  shows "take n (newest_first (y # xs)) = take n (newest_first (y # ys))"
  unfolding newest_first_Cons using take_insort [of n sort_position y] assms by metis

lemma take_newest_adds:
  assumes "take n (newest_first xs) = take n (newest_first ys)"
  shows "take n (newest_first (zs @ xs)) = take n (newest_first (zs @ ys))"
proof (induction zs)
  case (Cons z zs)
  then show ?case unfolding append_Cons by (rule take_newest_add)
qed (use assms in simp)

lemma hr_id_to_row [simp]: "hr_id (history_to_row ts now rec i) = i"
  by (simp add: history_to_row_def)

lemma insert_row_effect:
  assumes "sql_run (insert_row n mk) db = (r, db')" "db_rows db = Some rows"
  shows "case r of
      Inl _ \<Rightarrow> db_rows db' = Some rows \<and> db_autoinc db' = db_autoinc db
    | Inr i \<Rightarrow> i = db_autoinc db + 1 \<and> db_autoinc db' = i \<and> db_rows db' = Some (rows @ [mk i]) \<and> n < 2 ^ 63"
  using assms by (elim sql_run_cases) (auto simp: insert_row_def bind_uint_def Let_def split: if_splits)

lemma prune_statement_effect:
  assumes "sql_run (sql_on_rows (\<lambda>rows. ((), prune rows))) db = (r, db')" "db_rows db = Some rows"
  shows "db_autoinc db' = db_autoinc db \<and> db_rows db' = Some (case r of Inl _ \<Rightarrow> rows | Inr _ \<Rightarrow> prune rows)"
  using assms by (elim sql_run_cases) (auto simp: sql_on_rows_def)

lemma history_add_effect:
  assumes "history_add ts now rec db = (r, db')" "db_rows db = Some rows"
  shows "case r of
      Inl _ \<Rightarrow> db_rows db' = Some rows \<and> db_autoinc db' = db_autoinc db
        \<or> db_autoinc db' = db_autoinc db + 1 \<and> db_rows db' = Some (rows @ [history_to_row ts now rec (db_autoinc db')])
    | Inr i \<Rightarrow> i = db_autoinc db + 1 \<and> db_autoinc db' = i \<and>
        db_rows db' = Some (prune (rows @ [history_to_row ts now rec i]))"
proof -
  obtain r1 db1 where 1: "sql_run (insert_row (unat (th_total_bytes rec)) (history_to_row ts now rec)) db = (r1, db1)"
    by (cases "sql_run (insert_row (unat (th_total_bytes rec)) (history_to_row ts now rec)) db")
  note ins = insert_row_effect [OF 1 assms(2)]
  show ?thesis
  proof (cases r1)
    case (Inl e)
    then show ?thesis using assms(1) 1 ins by (auto simp: history_add_def)
  next
    case (Inr i)
    obtain r2 db2 where 2: "sql_run (sql_on_rows (\<lambda>rows. ((), prune rows))) db1 = (r2, db2)"
      by (cases "sql_run (sql_on_rows (\<lambda>rows. ((), prune rows))) db1")
    have "db_rows db1 = Some (rows @ [history_to_row ts now rec i])" using ins Inr by simp
    from prune_statement_effect [OF 2 this] show ?thesis
      using assms(1) 1 2 ins Inr by (cases r2) (auto simp: history_add_def)
  qed
qed

lemma history_ok_insert:
  assumes "history_ok db" "db_rows db = Some rows" "hr_id row = db_autoinc db + 1"
    and "db_autoinc db' = db_autoinc db + 1" "db_rows db' = Some rows'" "rows' = rows @ [row] \<or> rows' = prune (rows @ [row])"
  shows "history_ok db'" and "distinct (map hr_id (rows @ [row]))"
proof -
  have new: "distinct (map hr_id (rows @ [row]))" "\<forall>r\<in>set (rows @ [row]). hr_id r \<le> db_autoinc db + 1"
    using assms(1-3) by (force simp: history_ok_def)+
  have "distinct (map hr_id (filter P (rows @ [row])))" for P
    using new(1) by (rule distinct_map_filter)
  then have "distinct (map hr_id rows')" using new(1) assms(6) by (auto simp: prune_def Let_def simp del: filter_append)
  moreover have "set (prune (rows @ [row])) \<subseteq> set (rows @ [row])" by (simp only: prune_def Let_def filter_is_subset)
  then have "set rows' \<subseteq> set (rows @ [row])" using assms(6) by blast
  then have "\<forall>r\<in>set rows'. hr_id r \<le> db_autoinc db + 1" using new(2) by blast
  ultimately show "history_ok db'"
    using assms(4,5) by (simp add: history_ok_def)
  show "distinct (map hr_id (rows @ [row]))" by (rule new)
qed

lemma take_newest_prune:
  assumes "distinct (map hr_id (rows @ [row]))" "rows' = rows @ [row] \<or> rows' = prune (rows @ [row])"
  shows "take MAX_HISTORY_ROWS (newest_first rows') = take MAX_HISTORY_ROWS (newest_first (row # rows))"
proof -
  have "newest_first (rows @ [row]) = newest_first (row # rows)"
    by (rule newest_first_perm) (use assms(1) in simp_all)
  then show ?thesis using assms by (auto simp: newest_first_prune)
qed

text \<open>The newest rows after a sequence of additions are the newest of all rows ever added.\<close>

lemma history_run_newest:
  "history_ok db \<Longrightarrow> db_rows db = Some rows \<Longrightarrow> history_run ts xs db = (log, db') \<Longrightarrow>
     history_ok db' \<and> (\<exists>rows'. db_rows db' = Some rows' \<and>
       take MAX_HISTORY_ROWS (newest_first rows') = take MAX_HISTORY_ROWS (newest_first (rev log @ rows)))"
proof (induction xs arbitrary: db rows log)
  case Nil
  then show ?case by simp
next
  case (Cons x xs)
  obtain now rec where x: "x = (now, rec)" by (cases x)
  obtain r db1 where r: "history_add ts now rec db = (r, db1)" by (cases "history_add ts now rec db")
  obtain log1 where log1: "history_run ts xs db1 = (log1, db')" by (cases "history_run ts xs db1") (use Cons.prems x r in \<open>auto split: prod.splits\<close>)
  note add = history_add_effect [OF r Cons.prems(2)]
  show ?case
  proof (cases "db_autoinc db1 = db_autoinc db")
    case True
    then have "db_rows db1 = Some rows" using add by (auto split: sum.splits)
    moreover have "history_ok db1" using Cons.prems(1,2) True calculation by (simp add: history_ok_def)
    ultimately show ?thesis using Cons.IH log1 Cons.prems(3) x r True by (simp split: prod.splits)
  next
    case False
    let ?row = "history_to_row ts now rec (db_autoinc db1)"
    obtain rows1 where rows1: "db_rows db1 = Some rows1" "rows1 = rows @ [?row] \<or> rows1 = prune (rows @ [?row])"
      and auto: "db_autoinc db1 = db_autoinc db + 1"
      using add False by (auto split: sum.splits)
    have row: "hr_id ?row = db_autoinc db + 1" using auto by simp
    note ok = history_ok_insert [OF Cons.prems(1,2) row auto rows1]
    obtain rows' where rows': "history_ok db'" "db_rows db' = Some rows'"
      "take MAX_HISTORY_ROWS (newest_first rows') = take MAX_HISTORY_ROWS (newest_first (rev log1 @ rows1))"
      using Cons.IH [OF ok(1) rows1(1) log1] by blast
    have "take MAX_HISTORY_ROWS (newest_first (rev log1 @ rows1)) = take MAX_HISTORY_ROWS (newest_first (rev log1 @ ?row # rows))"
      by (rule take_newest_adds) (rule take_newest_prune [OF ok(2) rows1(2)])
    moreover have "rev log @ rows = rev log1 @ ?row # rows"
      using Cons.prems(3) x r log1 False by (auto split: prod.splits)
    ultimately show ?thesis using rows' by simp
  qed
qed

lemma history_list_no_faults:
  assumes "db_faults db = []" "db_rows db = Some rows"
  shows "fst (history_list from_str 0 db) = Inr (map (history_of_row from_str) (take MAX_HISTORY_ROWS (newest_first rows)))"
  using assms by (simp add: history_list_def select_newest_def bind_uint_def MAX_HISTORY_ROWS_def)

section \<open>The text of the paths\<close>

locale paths_json =
  fixes to_string :: "string list \<Rightarrow> string + string"
    and from_str :: "string \<Rightarrow> string + string list"
  assumes prints: "\<exists>json. to_string paths = Inr json"
    and parse_printed: "to_string paths = Inr json \<Longrightarrow> from_str json = Inr paths"
begin

lemma history_row_roundtrip:
  "history_of_row from_str (history_to_row to_string now rec i) =
     rec\<lparr>th_id := i, th_ts_ms := (if th_ts_ms rec > 0 then th_ts_ms rec else now)\<rparr>"
proof -
  obtain json where "to_string (th_file_paths rec) = Inr json" using prints by blast
  then show ?thesis
    using parse_printed by (cases rec) (simp add: history_of_row_def history_to_row_def)
qed

end

text \<open>A reference printer and parser: string arrays with quotes and backslashes escaped.\<close>

fun escape :: "string \<Rightarrow> string" where
  "escape [] = []"
| "escape (c # s) = (if c = CHR 0x22 \<or> c = CHR 0x5C then CHR 0x5C # c # escape s else c # escape s)"

fun print_items :: "string list \<Rightarrow> string" where
  "print_items [] = '']''"
| "print_items [p] = CHR 0x22 # escape p @ CHR 0x22 # '']''"
| "print_items (p # ps) = CHR 0x22 # escape p @ CHR 0x22 # CHR '','' # print_items ps"

fun parse_items :: "string option \<Rightarrow> string \<Rightarrow> string list option" where
  "parse_items None [] = None"
| "parse_items None (c # s) =
     (if c = CHR '']'' then (if s = [] then Some [] else None)
      else if c = CHR 0x22 then parse_items (Some []) s
      else if c = CHR '','' then parse_items None s
      else None)"
| "parse_items (Some a) [] = None"
| "parse_items (Some a) [c] = None"
| "parse_items (Some a) (c # d # s) =
     (if c = CHR 0x22 then map_option (Cons (rev a)) (parse_items None (d # s))
      else if c = CHR 0x5C then parse_items (Some (d # a)) s
      else parse_items (Some (c # a)) (d # s))"

definition ref_paths_to_string :: "string list \<Rightarrow> string + string" where
  "ref_paths_to_string ps = Inr (CHR ''['' # print_items ps)"

definition ref_paths_from_str :: "string \<Rightarrow> string + string list" where
  "ref_paths_from_str s =
     (case s of [] \<Rightarrow> Inl ''EOF'' | c # s' \<Rightarrow>
        if c = CHR ''['' then (case parse_items None s' of None \<Rightarrow> Inl ''syntax'' | Some ps \<Rightarrow> Inr ps) else Inl ''syntax'')"

lemma parse_escape:
  "s \<noteq> [] \<Longrightarrow> parse_items (Some a) (escape p @ CHR 0x22 # s) = map_option (Cons (rev a @ p)) (parse_items None s)"
proof (induction p arbitrary: a)
  case Nil
  then show ?case by (cases s) simp_all
next
  case (Cons c p)
  obtain d r where "escape p @ CHR 0x22 # s = d # r" by (cases "escape p @ CHR 0x22 # s") auto
  then show ?case using Cons.IH [of "c # a"] Cons.prems by auto
qed

lemma print_items_not_empty: "print_items ps \<noteq> []"
  by (induction ps rule: print_items.induct) simp_all

lemma parse_print_items: "parse_items None (print_items ps) = Some ps"
  by (induction ps rule: print_items.induct) (simp_all add: parse_escape)

interpretation ref_paths: paths_json ref_paths_to_string ref_paths_from_str
  by unfold_locales (auto simp: ref_paths_to_string_def ref_paths_from_str_def parse_print_items)

section \<open>Properties\<close>

text \<open>
  C26 The history shows the newest transfers: after any sequence of additions, of which any may fail,
  also between its insertion and its pruning, a listing returns the 200 newest of all records that
  were ever inserted (by time stamp, ties broken by insertion order), newest first, with their
  fields intact; pruning never loses one of them. Ids stay unique.
\<close>

theorem history_lists_newest:
  assumes "paths_json to_string from_str" "history_ok db" "db_rows db = Some []"
    and "history_run to_string adds db = (log, db')" "db_faults db' = []"
  shows "history_ok db' \<and>
    fst (history_list from_str 0 db') =
      Inr (map (history_of_row from_str) (take 200 (newest_first (rev log)))) \<and>
    (\<forall>row\<in>set log. \<exists>(now, rec)\<in>set adds. history_of_row from_str row =
       rec\<lparr>th_id := hr_id row, th_ts_ms := (if th_ts_ms rec > 0 then th_ts_ms rec else now)\<rparr>)"
proof -
  obtain rows' where rows': "history_ok db'" "db_rows db' = Some rows'"
    "take MAX_HISTORY_ROWS (newest_first rows') = take MAX_HISTORY_ROWS (newest_first (rev log))"
    using history_run_newest [OF assms(2-4)] by auto
  have "\<exists>(now, rec)\<in>set adds. \<exists>i. row = history_to_row to_string now rec i"
    if "history_run to_string adds db = (log, db')" "row \<in> set log" for row db log
    using that
    by (induction adds arbitrary: db log) (force simp: Let_def split: prod.splits if_splits)+
  then have "\<exists>(now, rec)\<in>set adds. history_of_row from_str row =
       rec\<lparr>th_id := hr_id row, th_ts_ms := (if th_ts_ms rec > 0 then th_ts_ms rec else now)\<rparr>"
    if "row \<in> set log" for row
    using that assms(4) paths_json.history_row_roundtrip [OF assms(1)] by fastforce
  moreover have "fst (history_list from_str 0 db') =
      Inr (map (history_of_row from_str) (take 200 (newest_first (rev log))))"
    using history_list_no_faults [OF assms(5) rows'(2)] rows'(3) by (simp add: MAX_HISTORY_ROWS_def)
  ultimately show ?thesis using rows'(1) by blast
qed

theorem history_lists_newest_witness:
  "let rec = (\<lambda>ts. \<lparr>th_id = 0, th_ts_ms = ts, th_direction = ''send'', th_peer_name = ''p'', th_peer_id = ''q'',
               th_file_count = 1, th_total_bytes = 5, th_status = ''complete'', th_file_paths = [''a'', ''b'']\<rparr>);
       db' = snd (history_run ref_paths_to_string [(9, rec 2000), (9, rec 1000), (9, rec 0)]
                \<lparr>db_rows = Some [], db_autoinc = 0, db_version = None, db_faults = []\<rparr>)
   in fst (history_list ref_paths_from_str 0 db') =
        Inr [rec 2000\<lparr>th_id := 1\<rparr>, rec 1000\<lparr>th_id := 2\<rparr>, rec 9\<lparr>th_id := 3\<rparr>]"
proof -
  let ?rec = "\<lambda>ts. \<lparr>th_id = 0, th_ts_ms = ts, th_direction = ''send'', th_peer_name = ''p'', th_peer_id = ''q'',
               th_file_count = 1, th_total_bytes = 5, th_status = ''complete'', th_file_paths = [''a'', ''b'']\<rparr>"
  let ?db = "\<lparr>db_rows = Some [], db_autoinc = 0, db_version = None, db_faults = []\<rparr> :: history_db"
  let ?adds = "[(9, ?rec 2000), (9, ?rec 1000), (9, ?rec 0)] :: (i64 \<times> TransferHistoryRecord) list"
  let ?log = "map (\<lambda>(i, ts). history_to_row ref_paths_to_string 9 (?rec ts) i) [(1, 2000), (2, 1000), (3, 0)]"
  have run: "\<exists>db'. history_run ref_paths_to_string ?adds ?db = (?log, db') \<and> db_faults db' = []"
    by (simp add: history_add_def insert_row_def bind_uint_def sql_on_rows_def Let_def)
  then obtain db' where db': "history_run ref_paths_to_string ?adds ?db = (?log, db')" "db_faults db' = []" by blast
  have "fst (history_list ref_paths_from_str 0 db') = Inr (map (history_of_row ref_paths_from_str) (newest_first (rev ?log)))"
    using history_lists_newest [OF ref_paths.paths_json_axioms _ _ db'(1) db'(2)] by (simp add: history_ok_def newest_first_sort)
  moreover have "newest_first (rev ?log) = ?log"
    by (simp add: newest_first_sort history_to_row_def)
  ultimately show ?thesis using db'(1) ref_paths.history_row_roundtrip by simp
qed

end
