(* ===== verification/Nxfr_Path.thy ===== *)
theory Nxfr_Path
  imports Nxfr_Common
begin

text \<open>
  Path sanitization and the download jail, \<open>nxfr-core/src/path.rs\<close>. A string is its list of
  UTF-8 bytes; every character the code looks for is ASCII, and a byte of a longer UTF-8 sequence
  is never equal to one, so looking at bytes is looking at characters.

  An absolute path is the list of its components (Unix). The file system enters
  \<open>resolve_safe_path\<close> as two parameters, \<open>canonicalize\<close> and \<open>path_exists\<close>.
\<close>

section \<open>Strings\<close>

text \<open>\<open>str::split\<close> on one character and \<open>join\<close>.\<close>

fun split_on :: "'a \<Rightarrow> 'a list \<Rightarrow> 'a list list" where
  "split_on c [] = [[]]"
| "split_on c (x # xs) =
     (if x = c then [] # split_on c xs
      else (x # hd (split_on c xs)) # tl (split_on c xs))"

fun join_with :: "'a \<Rightarrow> 'a list list \<Rightarrow> 'a list" where
  "join_with c [] = []"
| "join_with c [w] = w"
| "join_with c (w # ws) = w @ c # join_with c ws"

definition char_code :: "char \<Rightarrow> nat" where
  "char_code c = of_char c"

definition is_ascii_alphabetic :: "char \<Rightarrow> bool" where
  "is_ascii_alphabetic c \<longleftrightarrow>
     (65 \<le> char_code c \<and> char_code c \<le> 90) \<or> (97 \<le> char_code c \<and> char_code c \<le> 122)"

definition to_ascii_uppercase :: "string \<Rightarrow> string" where
  "to_ascii_uppercase s =
     map (\<lambda>c. if 97 \<le> char_code c \<and> char_code c \<le> 122 then char_of (char_code c - 32) else c) s"

section \<open>Sanitization\<close>

definition has_drive_prefix :: "string \<Rightarrow> bool" where
  "has_drive_prefix s \<longleftrightarrow>
     (case s of c # d # _ \<Rightarrow> d = CHR '':'' \<and> is_ascii_alphabetic c | _ \<Rightarrow> False)"

definition is_control_char :: "char \<Rightarrow> bool" where
  "is_control_char c \<longleftrightarrow> char_code c \<le> 0x1F \<or> char_code c = 0x7F"

definition windows_reserved :: "string list" where
  "windows_reserved = [''CON'', ''PRN'', ''AUX'', ''NUL'', ''COM1'', ''COM2'', ''COM3'', ''COM4'',
     ''COM5'', ''COM6'', ''COM7'', ''COM8'', ''COM9'', ''LPT1'', ''LPT2'', ''LPT3'', ''LPT4'',
     ''LPT5'', ''LPT6'', ''LPT7'', ''LPT8'', ''LPT9'']"

definition is_reserved_component :: "string \<Rightarrow> bool" where
  "is_reserved_component component \<longleftrightarrow>
     (let base_name = hd (split_on CHR ''.'' component)
      in to_ascii_uppercase base_name \<in> set windows_reserved)"

fun normalize_components :: "string \<Rightarrow> string list \<Rightarrow> PathError + string list" where
  "normalize_components input [] = Inr []"
| "normalize_components input (component # rest) =
     (if component = [] \<or> component = ''.'' then normalize_components input rest
      else if component = ''..'' then Inl (ParentTraversal input)
      else if length component > MAX_PATH_COMPONENT then Inl (ComponentTooLong (length component))
      else if is_reserved_component component then Inl (WindowsReservedName input)
      else and_then (normalize_components input rest) (\<lambda>cs. Inr (component # cs)))"

definition sanitize_path :: "string \<Rightarrow> PathError + string" where
  "sanitize_path input =
     (if input = [] then Inl EmptyPath
      else if CHR 0x5C \<in> set input then Inl Backslash
      else if hd input = CHR ''/'' then Inl (AbsolutePath input)
      else if has_drive_prefix input then Inl (AbsolutePath input)
      else if CHR 0x00 \<in> set input then Inl NullByte
      else case find is_control_char input of
        Some c \<Rightarrow> Inl (ControlCharacter (of_nat (char_code c)))
      | None \<Rightarrow>
          and_then (normalize_components input (split_on CHR ''/'' input)) (\<lambda>components.
            if components = [] then Inl EmptyPath
            else let normalized_path = join_with CHR ''/'' components
                 in if length normalized_path > MAX_RELATIVE_PATH
                    then Inl (PathTooLong (length normalized_path))
                    else Inr normalized_path))"

section \<open>The download jail\<close>

type_synonym abspath = "string list"

text \<open>
  \<open>Path::join\<close> with a relative path: its components are appended, empty and \<open>.\<close> components
  dropped. \<open>starts_with\<close> compares whole components, so it is \<^const>\<open>prefix\<close>.
\<close>

definition path_join :: "abspath \<Rightarrow> string \<Rightarrow> abspath" where
  "path_join p s = p @ filter (\<lambda>c. c \<noteq> [] \<and> c \<noteq> ''.'') (split_on CHR ''/'' s)"

definition path_display :: "abspath \<Rightarrow> string" where
  "path_display p = CHR ''/'' # join_with CHR ''/'' p"

definition path_parent :: "abspath \<Rightarrow> abspath option" where
  "path_parent p = (if p = [] then None else Some (butlast p))"

definition path_file_name :: "abspath \<Rightarrow> string option" where
  "path_file_name p = (if p = [] \<or> last p = ''..'' then None else Some (last p))"

definition jail_check_path :: "(abspath \<Rightarrow> string + abspath) \<Rightarrow> (abspath \<Rightarrow> bool) \<Rightarrow> abspath \<Rightarrow> abspath
    \<Rightarrow> PathError + abspath" where
  "jail_check_path canonicalize path_exists canon_root joined =
     (if path_exists joined
      then map_err (\<lambda>e. AbsolutePath (''cannot canonicalize dest: '' @ e)) (canonicalize joined)
      else
        let parent = (case path_parent joined of None \<Rightarrow> canon_root | Some p \<Rightarrow> p)
        in and_then (ok_or EmptyPath (path_file_name joined)) (\<lambda>filename.
             if path_exists parent
             then and_then (map_err (\<lambda>e. AbsolutePath (''cannot canonicalize parent: '' @ e))
                              (canonicalize parent)) (\<lambda>p. Inr (p @ [filename]))
             else Inr joined))"

definition resolve_safe_path :: "(abspath \<Rightarrow> string + abspath) \<Rightarrow> (abspath \<Rightarrow> bool) \<Rightarrow> abspath \<Rightarrow> string
    \<Rightarrow> PathError + abspath" where
  "resolve_safe_path canonicalize path_exists download_root relative =
     and_then (sanitize_path relative) (\<lambda>sanitized.
     and_then (map_err (\<lambda>e. AbsolutePath (''cannot canonicalize root: '' @ e))
                 (canonicalize download_root)) (\<lambda>canon_root.
       let joined = path_join canon_root sanitized
       in and_then (jail_check_path canonicalize path_exists canon_root joined) (\<lambda>check_path.
            if \<not> prefix canon_root check_path
            then Inl (ParentTraversal (''path escapes download root: '' @ path_display check_path))
            else Inr joined)))"

section \<open>Lemmas\<close>

subsection \<open>Splitting and joining\<close>

lemma split_on_nonempty [simp]: "split_on c s \<noteq> []"
  by (cases s) simp_all

lemma split_on_no_sep: "w \<in> set (split_on c s) \<Longrightarrow> c \<notin> set w"
proof (induction s arbitrary: w)
  case (Cons x xs)
  then show ?case
    by (cases "split_on c xs") (auto split: if_splits)
qed simp

lemma split_on_chars: "w \<in> set (split_on c s) \<Longrightarrow> set w \<subseteq> set s"
proof (induction s arbitrary: w)
  case (Cons x xs)
  then show ?case
    by (cases "split_on c xs") (fastforce split: if_splits)+
qed simp

lemma split_on_single: "c \<notin> set w \<Longrightarrow> split_on c w = [w]"
  by (induction w) auto

lemma split_on_append: "c \<notin> set w \<Longrightarrow> split_on c (w @ c # s) = w # split_on c s"
  by (induction w) auto

lemma split_on_join_with:
  "ws \<noteq> [] \<Longrightarrow> \<forall>w\<in>set ws. c \<notin> set w \<Longrightarrow> split_on c (join_with c ws) = ws"
  by (induction c ws rule: join_with.induct) (auto simp: split_on_single split_on_append)

lemma join_with_split_on [simp]: "join_with c (split_on c s) = s"
proof (induction s)
  case (Cons x xs)
  obtain w ws where s: "split_on c xs = w # ws" by (cases "split_on c xs") auto
  with Cons show ?case by (cases ws) auto
qed simp

lemma set_join_with: "set (join_with c ws) \<subseteq> insert c (\<Union> (set ` set ws))"
  by (induction c ws rule: join_with.induct) auto

lemma hd_join_with: "w \<noteq> [] \<Longrightarrow> hd (join_with c (w # ws)) = hd w"
  by (cases ws) simp_all

lemma join_with_Nil_iff: "\<forall>w\<in>set ws. w \<noteq> [] \<Longrightarrow> join_with c ws = [] \<longleftrightarrow> ws = []"
  by (cases ws rule: list.exhaust; cases "tl ws") auto

subsection \<open>Components\<close>

text \<open>What the sanitizer admits as a component of its result.\<close>

definition safe_component :: "string \<Rightarrow> bool" where
  "safe_component w \<longleftrightarrow> w \<noteq> [] \<and> w \<noteq> ''.'' \<and> w \<noteq> ''..'' \<and> length w \<le> 255 \<and> \<not> is_reserved_component w"

lemma normalize_components_Inr:
  "normalize_components input ws = Inr cs \<Longrightarrow>
     cs = filter (\<lambda>w. w \<noteq> [] \<and> w \<noteq> ''.'') ws \<and> list_all safe_component cs"
  by (induction input ws arbitrary: cs rule: normalize_components.induct)
    (auto simp: result_simps safe_component_def MAX_PATH_COMPONENT_def split: if_splits)

lemma normalize_components_safe:
  "list_all safe_component ws \<Longrightarrow> normalize_components input ws = Inr ws"
  by (induction ws) (auto simp: safe_component_def MAX_PATH_COMPONENT_def)

text \<open>
  The specification of a sanitized path: a relative path of at most 4096 bytes, without backslash
  or control characters, all of whose components are safe.
\<close>

definition safe_relative_path :: "string \<Rightarrow> bool" where
  "safe_relative_path p \<longleftrightarrow>
     length p \<le> 4096 \<and> CHR 0x5C \<notin> set p \<and> list_all (\<lambda>c. \<not> is_control_char c) p
     \<and> list_all safe_component (split_on CHR ''/'' p)"

lemma safe_relative_path_hd:
  assumes "safe_relative_path p"
  shows "p \<noteq> [] \<and> hd p \<noteq> CHR ''/''"
  using assms by (cases p) (auto simp: safe_relative_path_def safe_component_def)

lemma nul_is_control: "is_control_char CHR 0x00" and slash_not_control: "\<not> is_control_char CHR ''/''"
  by (simp_all add: is_control_char_def char_code_def)

lemma sanitize_path_Inr:
  assumes "sanitize_path s = Inr p"
  shows "safe_relative_path p"
    and "split_on CHR ''/'' p = filter (\<lambda>w. w \<noteq> [] \<and> w \<noteq> ''.'') (split_on CHR ''/'' s)"
proof -
  from assms obtain cs where
    bs: "CHR 0x5C \<notin> set s" and ctl: "find is_control_char s = None"
    and cs: "normalize_components s (split_on CHR ''/'' s) = Inr cs" "cs \<noteq> []"
    and p: "p = join_with CHR ''/'' cs" and len: "length p \<le> MAX_RELATIVE_PATH"
    by (auto simp: sanitize_path_def Let_def result_simps not_less split: if_splits option.splits)
  have filt: "cs = filter (\<lambda>w. w \<noteq> [] \<and> w \<noteq> ''.'') (split_on CHR ''/'' s)"
    and safe: "list_all safe_component cs"
    using normalize_components_Inr [OF cs(1)] by blast+
  then have sub: "set cs \<subseteq> set (split_on CHR ''/'' s)" by auto
  then have "\<forall>w\<in>set cs. CHR ''/'' \<notin> set w" using split_on_no_sep by (meson subsetD)
  then have split: "split_on CHR ''/'' p = cs"
    unfolding p by (rule split_on_join_with [OF cs(2)])
  have chars: "set p \<subseteq> insert CHR ''/'' (set s)"
    using set_join_with [of "CHR ''/''" cs] sub split_on_chars p by fastforce
  then have "\<forall>c\<in>set p. \<not> is_control_char c"
    using ctl slash_not_control by (auto simp: find_None_iff)
  moreover have "CHR 0x5C \<notin> set p" using chars bs by auto
  ultimately show "safe_relative_path p"
    using len safe split by (simp add: safe_relative_path_def MAX_RELATIVE_PATH_def list_all_iff)
  show "split_on CHR ''/'' p = filter (\<lambda>w. w \<noteq> [] \<and> w \<noteq> ''.'') (split_on CHR ''/'' s)"
    using split filt by simp
qed

lemma sanitize_path_safe:
  assumes "safe_relative_path p"
  shows "sanitize_path p = (if has_drive_prefix p then Inl (AbsolutePath p) else Inr p)"
proof -
  have "find is_control_char p = None" "CHR 0x00 \<notin> set p"
    using assms nul_is_control by (auto simp: safe_relative_path_def find_None_iff list_all_iff)
  then show ?thesis
    using assms safe_relative_path_hd [OF assms]
    by (simp add: sanitize_path_def safe_relative_path_def normalize_components_safe
        MAX_RELATIVE_PATH_def)
qed

lemma path_join_safe: "safe_relative_path p \<Longrightarrow> path_join root p = root @ split_on CHR ''/'' p"
  by (auto simp: path_join_def safe_relative_path_def safe_component_def list_all_iff filter_id_conv)

section \<open>Properties\<close>

text \<open>
  C8 What the sanitizer returns is safe: a non-empty relative path of at most 4096 bytes with no
  backslash and no control character, none of whose components is empty, \<open>.\<close>, \<open>..\<close>, longer than
  255 bytes or a Windows device name. Its components are those of the input without the empty and
  \<open>.\<close> ones: nothing else is dropped, added or reordered.
\<close>

theorem sanitize_path_output_safe:
  assumes "sanitize_path s = Inr p"
  shows "safe_relative_path p \<and> hd p \<noteq> CHR ''/'' \<and>
    split_on CHR ''/'' p = filter (\<lambda>w. w \<noteq> [] \<and> w \<noteq> ''.'') (split_on CHR ''/'' s)"
  using sanitize_path_Inr [OF assms] safe_relative_path_hd by blast

theorem sanitize_path_output_safe_witness:
  "safe_relative_path ''a/b.txt'' \<and> split_on CHR ''/'' ''a/b.txt'' = [''a'', ''b.txt'']"
proof -
  have "sanitize_path ''./a//b.txt'' = Inr ''a/b.txt''" by code_simp
  from sanitize_path_output_safe [OF this] show ?thesis by simp
qed

text \<open>
  The paths that the sanitizer leaves unchanged are exactly the safe ones that do not begin
  with a drive letter and a colon: it accepts every such path.
\<close>

theorem sanitize_path_fixpoints:
  "sanitize_path p = Inr p \<longleftrightarrow> safe_relative_path p \<and> \<not> has_drive_prefix p"
  using sanitize_path_Inr(1) [of p p] sanitize_path_safe [of p] by auto

text \<open>
  The drive-letter check looks at the raw input only, so it is defeated by a leading \<open>./\<close>: the
  sanitizer returns a drive-relative path that it would itself reject, and is not idempotent.
\<close>

theorem sanitize_path_drive_letter_gap:
  "sanitize_path ''./C:foo'' = Inr ''C:foo'' \<and> sanitize_path ''C:foo'' = Inl (AbsolutePath ''C:foo'')"
  by code_simp

lemma jail_check_path_eq:
  assumes "p \<noteq> []" "last p \<noteq> ''..''"
  shows "jail_check_path canonicalize path_exists cr p = Inr check \<longleftrightarrow>
    (if path_exists p then canonicalize p = Inr check
     else if path_exists (butlast p) then \<exists>q. canonicalize (butlast p) = Inr q \<and> check = q @ [last p]
     else check = p)"
  using assms by (auto simp: jail_check_path_def path_parent_def path_file_name_def result_simps)



text \<open>
  Below a parent that does not exist yet, the jail compares names only: with a symbolic link
  \<open>link\<close> inside the root that leads out of it, \<open>link/new/f\<close> is accepted although the nearest
  existing ancestor of the result is outside the root.
\<close>

theorem resolve_safe_path_missing_parent_gap:
  "\<exists>canonicalize path_exists.
     resolve_safe_path canonicalize path_exists [''d''] ''link/new/f'' = Inr [''d'', ''link'', ''new'', ''f'']
     \<and> path_exists [''d'', ''link''] \<and> canonicalize [''d'', ''link''] = Inr [''etc'']"
proof -
  let ?canon = "\<lambda>p. if p = [''d'', ''link''] then Inr [''etc''] else (Inr p :: string + abspath)"
  have "resolve_safe_path ?canon (\<lambda>p. p \<in> {[''d''], [''d'', ''link'']}) [''d''] ''link/new/f''
      = Inr [''d'', ''link'', ''new'', ''f'']"
    by code_simp
  then show ?thesis by (intro exI [of _ ?canon] exI [of _ "\<lambda>p. p \<in> {[''d''], [''d'', ''link'']}"]) simp
qed

end
