(* ===== verification/Nxfr_Files.thy ===== *)
theory Nxfr_Files
  imports Nxfr_Path "HOL-Library.AList"
begin

text \<open>
  The file system as the storage and daemon code uses it through \<open>std::fs\<close> and \<open>std::path\<close>.
  A world has its regular files with their contents, in the order in which a directory is listed,
  its directories, and the outcomes of the coming fallible calls: \<open>Some (e, n)\<close> makes the next call
  fail with the message \<open>e\<close>, a failing write having written its first \<open>n\<close> bytes. When the outcomes are
  used up, calls fail for no other reason than the state of the files.
\<close>

record world =
  files :: "(abspath \<times> bytes) list"
  dirs :: "abspath list"
  io_faults :: "(string \<times> nat) option list"

type_synonym ('a, 'w) io = "(string + 'a) \<times> 'w"

text \<open>The \<open>?\<close> operator on calls that change the world.\<close>

fun io_then :: "('e + 'a) \<times> 'w \<Rightarrow> ('a \<Rightarrow> 'w \<Rightarrow> ('e + 'b) \<times> 'w) \<Rightarrow> ('e + 'b) \<times> 'w" where
  "io_then (Inl e, w) f = (Inl e, w)"
| "io_then (Inr x, w) f = f x w"

definition io_map_err :: "('e \<Rightarrow> 'f) \<Rightarrow> ('e + 'a) \<times> 'w \<Rightarrow> ('f + 'a) \<times> 'w" where
  "io_map_err g r = (map_err g (fst r), snd r)"

definition take_fault :: "world \<Rightarrow> (string \<times> nat) option \<times> world" where
  "take_fault w =
     (case io_faults w of [] \<Rightarrow> (None, w) | f # fs \<Rightarrow> (f, w\<lparr>io_faults := fs\<rparr>))"

text \<open>Run a call unless a fault is due; the second argument is what a failing call still does.\<close>

definition faulty :: "(world \<Rightarrow> (string + 'a) \<times> world) \<Rightarrow> (nat \<Rightarrow> world \<Rightarrow> world) \<Rightarrow> world \<Rightarrow> (string + 'a) \<times> world" where
  "faulty call partial w =
     (case take_fault w of
        (Some (e, n), w') \<Rightarrow> (Inl e, partial n w')
      | (None, w') \<Rightarrow> call w')"

definition fs_lookup :: "abspath \<Rightarrow> world \<Rightarrow> bytes option" where
  "fs_lookup p w = map_of (files w) p"

definition fs_put :: "abspath \<Rightarrow> bytes \<Rightarrow> world \<Rightarrow> world" where
  "fs_put p b w = w\<lparr>files := AList.update p b (files w)\<rparr>"

definition fs_erase :: "abspath \<Rightarrow> world \<Rightarrow> world" where
  "fs_erase p w = w\<lparr>files := AList.delete p (files w)\<rparr>"

section \<open>Calls\<close>

definition fs_exists :: "abspath \<Rightarrow> world \<Rightarrow> bool" where
  "fs_exists p w \<longleftrightarrow> fs_lookup p w \<noteq> None \<or> p \<in> set (dirs w)"

text \<open>A name can be created where its directory exists and no directory has the name.\<close>

definition fs_creatable :: "abspath \<Rightarrow> world \<Rightarrow> bool" where
  "fs_creatable p w \<longleftrightarrow> p \<noteq> [] \<and> butlast p \<in> set (dirs w) \<and> p \<notin> set (dirs w)"

text \<open>\<open>File::create\<close>: an empty file, truncating an existing one.\<close>

definition fs_create :: "abspath \<Rightarrow> world \<Rightarrow> (string + unit) \<times> world" where
  "fs_create p =
     faulty (\<lambda>w. if fs_creatable p w then (Inr (), fs_put p [] w) else (Inl ''not found'', w)) (\<lambda>_ w. w)"

text \<open>\<open>OpenOptions::append\<close>: the file must exist.\<close>

definition fs_open_append :: "abspath \<Rightarrow> world \<Rightarrow> (string + unit) \<times> world" where
  "fs_open_append p =
     faulty (\<lambda>w. (case fs_lookup p w of None \<Rightarrow> Inl ''not found'' | Some _ \<Rightarrow> Inr (), w)) (\<lambda>_ w. w)"

definition fs_extend :: "abspath \<Rightarrow> bytes \<Rightarrow> world \<Rightarrow> world" where
  "fs_extend p b w = (case fs_lookup p w of None \<Rightarrow> w | Some old \<Rightarrow> fs_put p (old @ b) w)"

text \<open>\<open>write_all\<close> on a handle at the end of the file.\<close>

definition fs_write_all :: "abspath \<Rightarrow> bytes \<Rightarrow> world \<Rightarrow> (string + unit) \<times> world" where
  "fs_write_all p b = faulty (\<lambda>w. (Inr (), fs_extend p b w)) (\<lambda>n w. fs_extend p (take n b) w)"

definition fs_sync_all :: "abspath \<Rightarrow> world \<Rightarrow> (string + unit) \<times> world" where
  "fs_sync_all p = faulty (\<lambda>w. (Inr (), w)) (\<lambda>_ w. w)"

definition fs_read :: "abspath \<Rightarrow> world \<Rightarrow> (string + bytes) \<times> world" where
  "fs_read p = faulty (\<lambda>w. (ok_or ''not found'' (fs_lookup p w), w)) (\<lambda>_ w. w)"

text \<open>An open file is its content, a directory can be opened but not read.\<close>

definition fs_open :: "abspath \<Rightarrow> world \<Rightarrow> (string + bytes option) \<times> world" where
  "fs_open p =
     faulty (\<lambda>w. if fs_exists p w then (Inr (fs_lookup p w), w) else (Inl ''not found'', w)) (\<lambda>_ w. w)"

definition fs_read_at :: "bytes option \<Rightarrow> nat \<Rightarrow> nat \<Rightarrow> world \<Rightarrow> (string + bytes) \<times> world" where
  "fs_read_at h pos n =
     faulty (\<lambda>w. (case h of None \<Rightarrow> Inl ''is a directory'' | Some b \<Rightarrow> Inr (take n (drop pos b)), w)) (\<lambda>_ w. w)"

text \<open>\<open>fs::rename\<close> replaces the target atomically.\<close>

definition fs_rename :: "abspath \<Rightarrow> abspath \<Rightarrow> world \<Rightarrow> (string + unit) \<times> world" where
  "fs_rename p q =
     faulty (\<lambda>w. case fs_lookup p w of
         None \<Rightarrow> (Inl ''not found'', w)
       | Some b \<Rightarrow>
           if fs_creatable q w then (Inr (), fs_put q b (fs_erase p w)) else (Inl ''not found'', w))
       (\<lambda>_ w. w)"

definition fs_remove_file :: "abspath \<Rightarrow> world \<Rightarrow> (string + unit) \<times> world" where
  "fs_remove_file p =
     faulty (\<lambda>w. case fs_lookup p w of
         None \<Rightarrow> (Inl ''not found'', w)
       | Some _ \<Rightarrow> (Inr (), fs_erase p w)) (\<lambda>_ w. w)"

text \<open>\<open>fs::read_dir\<close>: the entries of a directory, in no particular order.\<close>

definition fs_read_dir :: "abspath \<Rightarrow> world \<Rightarrow> (string + abspath list) \<times> world" where
  "fs_read_dir d =
     faulty (\<lambda>w. if d \<in> set (dirs w)
       then (Inr (filter (\<lambda>p. p \<noteq> [] \<and> butlast p = d) (map fst (files w) @ dirs w)), w)
       else (Inl ''not found'', w)) (\<lambda>_ w. w)"

text \<open>\<open>fs::create_dir_all\<close>: a failing call may have created some of the directories.\<close>

definition fs_add_dirs :: "abspath list \<Rightarrow> world \<Rightarrow> world" where
  "fs_add_dirs ds w = w\<lparr>dirs := dirs w @ filter (\<lambda>d. d \<notin> set (dirs w)) ds\<rparr>"

definition fs_create_dir_all :: "abspath \<Rightarrow> world \<Rightarrow> (string + unit) \<times> world" where
  "fs_create_dir_all p =
     faulty (\<lambda>w. if list_ex (\<lambda>q. fs_lookup q w \<noteq> None) (prefixes p) then (Inl ''not a directory'', w)
                 else (Inr (), fs_add_dirs (prefixes p) w))
       (\<lambda>n w. fs_add_dirs (take n (prefixes p)) w)"

section \<open>File names\<close>

text \<open>
  \<open>file_stem\<close> and \<open>extension\<close>: split at the last dot, unless there is none or it is the first
  character.
\<close>

definition name_extension :: "string \<Rightarrow> string option" where
  "name_extension n =
     (let e = rev (takeWhile (\<lambda>c. c \<noteq> CHR ''.'') (rev n))
      in if n = ''..'' \<or> length n \<le> Suc (length e) then None else Some e)"

definition name_stem :: "string \<Rightarrow> string" where
  "name_stem n =
     (case name_extension n of None \<Rightarrow> n | Some e \<Rightarrow> take (length n - Suc (length e)) n)"

definition set_extension :: "string \<Rightarrow> string \<Rightarrow> string" where
  "set_extension n e = name_stem n @ CHR ''.'' # e"

section \<open>Lemmas\<close>

named_theorems fs_simps \<open>lookups after file-system calls\<close>

lemma fs_lookup_put [simp, fs_simps]: "fs_lookup q (fs_put p b w) = (if q = p then Some b else fs_lookup q w)"
  by (simp add: fs_lookup_def fs_put_def update_conv')

lemma fs_lookup_erase [simp, fs_simps]: "fs_lookup q (fs_erase p w) = (if q = p then None else fs_lookup q w)"
  by (simp add: fs_lookup_def fs_erase_def delete_conv' restrict_map_def)

lemma fs_lookup_faults [simp, fs_simps]: "fs_lookup q (w\<lparr>io_faults := f\<rparr>) = fs_lookup q w"
  by (simp add: fs_lookup_def)

lemma fs_lookup_extend [simp, fs_simps]:
  "fs_lookup q (fs_extend p b w) =
     (if q = p then map_option (\<lambda>old. old @ b) (fs_lookup p w) else fs_lookup q w)"
  by (simp add: fs_extend_def split: option.splits)

lemma faults_put [simp]: "io_faults (fs_put p b w) = io_faults w"
  "io_faults (fs_erase p w) = io_faults w" "io_faults (fs_extend p b w) = io_faults w"
  by (simp_all add: fs_put_def fs_erase_def fs_extend_def split: option.splits)

lemma dirs_put [simp]: "dirs (fs_put p b w) = dirs w"
  "dirs (fs_erase p w) = dirs w" "dirs (fs_extend p b w) = dirs w"
  by (simp_all add: fs_put_def fs_erase_def fs_extend_def split: option.splits)

lemmas fault_cases = faulty_def take_fault_def
lemmas fault_splits = list.splits option.splits prod.splits

lemma faulty_no_faults [simp]: "io_faults w = [] \<Longrightarrow> faulty call partial w = call w"
  by (simp add: faulty_def take_fault_def)

lemma fs_lookup_files: "files w' = files w \<Longrightarrow> fs_lookup p w' = fs_lookup p w"
  by (simp add: fs_lookup_def)

text \<open>Effects of the calls on the contents of files, whatever the faults.\<close>

lemma fs_create_effect:
  assumes "fs_create p w = (r, w')"
  shows "case r of Inl _ \<Rightarrow> \<forall>q. fs_lookup q w' = fs_lookup q w
    | Inr _ \<Rightarrow> fs_lookup p w' = Some [] \<and> (\<forall>q. q \<noteq> p \<longrightarrow> fs_lookup q w' = fs_lookup q w)"
    and "dirs w' = dirs w"
  using assms by (auto simp: fs_create_def fault_cases split: fault_splits if_splits)

lemma fs_write_all_effect:
  assumes "fs_write_all p b w = (r, w')"
  shows "case r of Inl _ \<Rightarrow> \<exists>n. fs_lookup p w' = map_option (\<lambda>old. old @ take n b) (fs_lookup p w)
    | Inr _ \<Rightarrow> fs_lookup p w' = map_option (\<lambda>old. old @ b) (fs_lookup p w)"
    and "\<forall>q. q \<noteq> p \<longrightarrow> fs_lookup q w' = fs_lookup q w" and "dirs w' = dirs w"
  using assms by (auto simp: fs_write_all_def fault_cases split: fault_splits)

lemma fs_sync_all_effect:
  assumes "fs_sync_all p w = (r, w')" shows "\<forall>q. fs_lookup q w' = fs_lookup q w" and "dirs w' = dirs w"
  using assms by (auto simp: fs_sync_all_def fault_cases split: fault_splits)

lemma fs_read_effect:
  assumes "fs_read p w = (r, w')"
  shows "\<forall>q. fs_lookup q w' = fs_lookup q w" and "dirs w' = dirs w" and "r = Inr b \<Longrightarrow> fs_lookup p w = Some b"
  using assms by (auto simp: fs_read_def fault_cases result_simps split: fault_splits)

lemma fs_open_append_effect:
  assumes "fs_open_append p w = (r, w')"
  shows "\<forall>q. fs_lookup q w' = fs_lookup q w" and "dirs w' = dirs w" and "r = Inr x \<Longrightarrow> fs_lookup p w \<noteq> None"
  using assms by (auto simp: fs_open_append_def fault_cases split: fault_splits)

lemma fs_rename_effect:
  assumes "fs_rename p q w = (r, w')"
  shows "case r of Inl _ \<Rightarrow> \<forall>q. fs_lookup q w' = fs_lookup q w
    | Inr _ \<Rightarrow> fs_lookup p w \<noteq> None \<and> fs_lookup q w' = fs_lookup p w
        \<and> (\<forall>x. x \<noteq> q \<longrightarrow> fs_lookup x w' = (if x = p then None else fs_lookup x w))"
    and "dirs w' = dirs w"
  using assms by (auto simp: fs_rename_def fault_cases split: fault_splits if_splits)

lemma fs_remove_file_effect:
  assumes "fs_remove_file p w = (r, w')"
  shows "case r of Inl _ \<Rightarrow> \<forall>q. fs_lookup q w' = fs_lookup q w
    | Inr _ \<Rightarrow> fs_lookup p w' = None \<and> (\<forall>x. x \<noteq> p \<longrightarrow> fs_lookup x w' = fs_lookup x w)"
    and "dirs w' = dirs w"
  using assms by (auto simp: fs_remove_file_def fault_cases split: fault_splits)

lemma fs_lookup_add_dirs [simp, fs_simps]: "fs_lookup q (fs_add_dirs ds w) = fs_lookup q w"
  by (simp add: fs_add_dirs_def fs_lookup_def)

lemma fs_create_dir_all_effect:
  "fs_create_dir_all p w = (r, w') \<Longrightarrow> fs_lookup q w' = fs_lookup q w"
  by (auto simp: fs_create_dir_all_def fault_cases split: fault_splits if_splits)

lemma io_then_either:
  assumes "io_then m f = (r, s')"
  obtains e where "m = (Inl e, s')" | x t where "m = (Inr x, t)" "f x t = (r, s')"
  using assms by (cases m; cases "fst m") auto

lemma io_then_Inr:
  "io_then m f = (Inr y, w') \<longleftrightarrow> (\<exists>x w. m = (Inr x, w) \<and> f x w = (Inr y, w'))"
  by (cases m; cases "fst m") auto

lemma io_then_Inl:
  "io_then m f = (Inl e, w') \<longleftrightarrow> m = (Inl e, w') \<or> (\<exists>x w. m = (Inr x, w) \<and> f x w = (Inl e, w'))"
  by (cases m; cases "fst m") auto

lemma io_then_inv:
  assumes "P (snd m)" "\<And>x w. P w \<Longrightarrow> P (snd (f x w))"
  shows "P (snd (io_then m f))"
  using assms by (cases m; cases "fst m") auto

lemma io_map_err_eq:
  "io_map_err g m = (r, w') \<longleftrightarrow> (\<exists>r0. m = (r0, w') \<and> r = map_err g r0)"
  by (cases m) (auto simp: io_map_err_def)

text \<open>Extensions.\<close>

lemma name_extension_append:
  assumes "CHR ''.'' \<notin> set e" "e \<noteq> []" "n \<noteq> []"
  shows "name_extension (n @ CHR ''.'' # e) = Some e" "name_stem (n @ CHR ''.'' # e) = n"
proof -
  have tw: "takeWhile (\<lambda>c. c \<noteq> CHR ''.'') (rev e @ CHR ''.'' # rev n) = rev e"
    using assms(1) by (subst takeWhile_append2) auto
  have "last (n @ CHR ''.'' # e) \<noteq> CHR ''.''" using assms last_in_set [of e] by (auto simp del: last_in_set)
  then have "n @ CHR ''.'' # e \<noteq> ''..''" by (metis last_ConsL last_ConsR list.discI)
  then show "name_extension (n @ CHR ''.'' # e) = Some e"
    using tw assms by (simp add: name_extension_def)
  then show "name_stem (n @ CHR ''.'' # e) = n" by (simp add: name_stem_def)
qed

lemma name_split:
  assumes "name_extension n = Some e"
  shows "n = name_stem n @ CHR ''.'' # e"
proof -
  define tw dw where "tw = takeWhile (\<lambda>c. c \<noteq> CHR ''.'') (rev n)" and "dw = dropWhile (\<lambda>c. c \<noteq> CHR ''.'') (rev n)"
  have rev_n: "rev n = tw @ dw" by (simp add: tw_def dw_def)
  have e: "e = rev tw" "Suc (length tw) < length n"
    using assms by (auto simp: name_extension_def Let_def tw_def split: if_splits)
  have "length n = length tw + length dw" using arg_cong [OF rev_n, of length] by simp
  with e(2) have ne: "dw \<noteq> []" by auto
  then have "hd dw = CHR ''.''" using hd_dropWhile [of "\<lambda>c. c \<noteq> CHR ''.''" "rev n"] by (simp add: dw_def)
  then obtain ds where ds: "dw = CHR ''.'' # ds" using ne by (cases dw) auto
  have "rev (rev n) = rev ds @ CHR ''.'' # e" unfolding rev_n using ds e(1) by simp
  then have n: "n = rev ds @ CHR ''.'' # e" by simp
  have "take (length (rev ds)) (rev ds @ CHR ''.'' # e) = rev ds" by simp
  then have "name_stem n = rev ds" unfolding name_stem_def assms by (subst (1 2) n) simp
  then show ?thesis by (subst n) simp
qed

end
