(* ===== verification/Nxfr_Messages.thy ===== *)
theory Nxfr_Messages
  imports Nxfr_Common
begin

text \<open>
  Protocol error codes (\<open>error_code.rs\<close>), the control messages (\<open>messages.rs\<close>) and the
  short authentication string (\<open>sas.rs\<close>) of \<open>nxfr-core\<close>. The fields of a message variant are
  positional arguments in the order of the Rust declaration.
\<close>

section \<open>Error codes\<close>

datatype ErrorCode =
    EcUnsupportedVersion | EcInvalidFrame | EcPayloadTooLarge | EcInvalidCbor
  | EcUnknownMessageType | EcSessionTimeout | EcChecksumMismatch | EcDiskFull | EcStorageError
  | EcPathRejected | EcTransferNotFound | EcStreamNotFound | EcIdentityChanged | EcPairRequired
  | EcRateLimited | EcInternalError | EcManifestTooLarge | EcUnknown string

definition is_fatal :: "ErrorCode \<Rightarrow> bool" where
  "is_fatal c \<longleftrightarrow> c \<in> {EcUnsupportedVersion, EcInvalidFrame, EcPayloadTooLarge, EcInvalidCbor,
     EcSessionTimeout, EcIdentityChanged, EcInternalError}"

definition is_retryable :: "ErrorCode \<Rightarrow> bool" where
  "is_retryable c \<longleftrightarrow> c \<in> {EcChecksumMismatch, EcRateLimited}"

fun error_code_as_str :: "ErrorCode \<Rightarrow> string" where
  "error_code_as_str EcUnsupportedVersion = ''unsupported_version''"
| "error_code_as_str EcInvalidFrame = ''invalid_frame''"
| "error_code_as_str EcPayloadTooLarge = ''payload_too_large''"
| "error_code_as_str EcInvalidCbor = ''invalid_cbor''"
| "error_code_as_str EcUnknownMessageType = ''unknown_message_type''"
| "error_code_as_str EcSessionTimeout = ''session_timeout''"
| "error_code_as_str EcChecksumMismatch = ''checksum_mismatch''"
| "error_code_as_str EcDiskFull = ''disk_full''"
| "error_code_as_str EcStorageError = ''storage_error''"
| "error_code_as_str EcPathRejected = ''path_rejected''"
| "error_code_as_str EcTransferNotFound = ''transfer_not_found''"
| "error_code_as_str EcStreamNotFound = ''stream_not_found''"
| "error_code_as_str EcIdentityChanged = ''identity_changed''"
| "error_code_as_str EcPairRequired = ''pair_required''"
| "error_code_as_str EcRateLimited = ''rate_limited''"
| "error_code_as_str EcInternalError = ''internal_error''"
| "error_code_as_str EcManifestTooLarge = ''manifest_too_large''"
| "error_code_as_str (EcUnknown s) = s"

definition error_code_from_wire_str :: "string \<Rightarrow> ErrorCode" where
  "error_code_from_wire_str s =
     (if s = ''unsupported_version'' then EcUnsupportedVersion
      else if s = ''invalid_frame'' then EcInvalidFrame
      else if s = ''payload_too_large'' then EcPayloadTooLarge
      else if s = ''invalid_cbor'' then EcInvalidCbor
      else if s = ''unknown_message_type'' then EcUnknownMessageType
      else if s = ''session_timeout'' then EcSessionTimeout
      else if s = ''checksum_mismatch'' then EcChecksumMismatch
      else if s = ''disk_full'' then EcDiskFull
      else if s = ''storage_error'' then EcStorageError
      else if s = ''path_rejected'' then EcPathRejected
      else if s = ''transfer_not_found'' then EcTransferNotFound
      else if s = ''stream_not_found'' then EcStreamNotFound
      else if s = ''identity_changed'' then EcIdentityChanged
      else if s = ''pair_required'' then EcPairRequired
      else if s = ''rate_limited'' then EcRateLimited
      else if s = ''internal_error'' then EcInternalError
      else if s = ''manifest_too_large'' then EcManifestTooLarge
      else EcUnknown s)"

section \<open>Control messages\<close>

datatype ManifestEntryType = File | Dir

record ManifestEntry =
  me_file_id :: u32
  me_relative_path :: string
  me_size :: "u64 option"
  me_sha256 :: "bytes option"
  me_entry_type :: ManifestEntryType

datatype TransferType = Files | Directory

record ResumeFileStatus =
  rfs_file_id :: u32
  rfs_received_bytes :: u64
  rfs_received_ranges :: "(u64 \<times> u64) list"
  rfs_partial_sha256 :: "bytes option"

datatype TransferAckStatus = Success | PartialFailure

datatype ControlMessage =
    Hello ProtocolVersion DeviceId string Platform "string list" bool
  | HelloAck ProtocolVersion DeviceId string Platform "string list" bool u32
  | PairRequest string
  | PairAccept
  | PairReject "string option"
  | SessionClose "string option"
  | Error ErrorCode "string option" bool "(string btree) option"
  | TransferRequest TransferId TransferType string u32 u64 "ManifestEntry list"
  | TransferAccept TransferId
  | TransferReject TransferId "string option"
  | FileMetadata TransferId u32 u32 string u64 bytes "string option" "u64 option"
  | FileMetadataAck TransferId u32 u32 bool
  | ChunkAck u32 u64 u64 u64
  | TransferPause TransferId
  | TransferResume TransferId
  | TransferCancel TransferId "string option"
  | TransferComplete TransferId
  | TransferAck TransferId TransferAckStatus "(u32 list) option"
  | ResumeQuery TransferId "(u32 list) option"
  | ResumeStatus TransferId bool "(ResumeFileStatus list) option" "u64 option"

fun type_code :: "ControlMessage \<Rightarrow> u8" where
  "type_code (Hello _ _ _ _ _ _) = 0x01"
| "type_code (HelloAck _ _ _ _ _ _ _) = 0x02"
| "type_code (PairRequest _) = 0x03"
| "type_code PairAccept = 0x04"
| "type_code (PairReject _) = 0x05"
| "type_code (SessionClose _) = 0x06"
| "type_code (Error _ _ _ _) = 0x09"
| "type_code (TransferRequest _ _ _ _ _ _) = 0x10"
| "type_code (TransferAccept _) = 0x11"
| "type_code (TransferReject _ _) = 0x12"
| "type_code (FileMetadata _ _ _ _ _ _ _ _) = 0x13"
| "type_code (FileMetadataAck _ _ _ _) = 0x14"
| "type_code (ChunkAck _ _ _ _) = 0x15"
| "type_code (TransferPause _) = 0x16"
| "type_code (TransferResume _) = 0x17"
| "type_code (TransferCancel _ _) = 0x18"
| "type_code (TransferComplete _) = 0x19"
| "type_code (TransferAck _ _ _) = 0x1A"
| "type_code (ResumeQuery _ _) = 0x20"
| "type_code (ResumeStatus _ _ _ _) = 0x21"

fun type_name :: "ControlMessage \<Rightarrow> string" where
  "type_name (Hello _ _ _ _ _ _) = ''Hello''"
| "type_name (HelloAck _ _ _ _ _ _ _) = ''HelloAck''"
| "type_name (PairRequest _) = ''PairRequest''"
| "type_name PairAccept = ''PairAccept''"
| "type_name (PairReject _) = ''PairReject''"
| "type_name (SessionClose _) = ''SessionClose''"
| "type_name (Error _ _ _ _) = ''Error''"
| "type_name (TransferRequest _ _ _ _ _ _) = ''TransferRequest''"
| "type_name (TransferAccept _) = ''TransferAccept''"
| "type_name (TransferReject _ _) = ''TransferReject''"
| "type_name (FileMetadata _ _ _ _ _ _ _ _) = ''FileMetadata''"
| "type_name (FileMetadataAck _ _ _ _) = ''FileMetadataAck''"
| "type_name (ChunkAck _ _ _ _) = ''ChunkAck''"
| "type_name (TransferPause _) = ''TransferPause''"
| "type_name (TransferResume _) = ''TransferResume''"
| "type_name (TransferCancel _ _) = ''TransferCancel''"
| "type_name (TransferComplete _) = ''TransferComplete''"
| "type_name (TransferAck _ _ _) = ''TransferAck''"
| "type_name (ResumeQuery _ _) = ''ResumeQuery''"
| "type_name (ResumeStatus _ _ _ _) = ''ResumeStatus''"

section \<open>Short authentication string\<close>

text \<open>Decimal printing: \<open>to_string\<close> and the zero-padded format \<open>{:06}\<close>.\<close>

definition dec_digit :: "nat \<Rightarrow> char" where
  "dec_digit n = ''0123456789'' ! (n mod 10)"

fun dec_string :: "nat \<Rightarrow> string" where
  "dec_string n = (if n < 10 then [dec_digit n] else dec_string (n div 10) @ [dec_digit n])"

declare dec_string.simps [simp del]

definition zero_pad :: "nat \<Rightarrow> string \<Rightarrow> string" where
  "zero_pad w s = replicate (w - length s) CHR ''0'' @ s"

text \<open>
  Returns the six-digit code and the 64-byte exporter context: the two device ids in
  lexicographic order.
\<close>

definition derive_sas :: "bytes \<Rightarrow> bytes \<Rightarrow> bytes \<Rightarrow> string \<times> bytes" where
  "derive_sas device_id_a device_id_b exporter_bytes =
     (let context = (if device_id_a < device_id_b then device_id_a @ device_id_b
                     else device_id_b @ device_id_a);
          u32_val = u32_from_be_bytes exporter_bytes;
          v = u32_val mod 1000000
      in (zero_pad 6 (dec_string (unat v)), context))"

section \<open>Lemmas\<close>

text \<open>Codes that \<open>from_wire_str\<close> can produce: an \<open>Unknown\<close> never spells a known code.\<close>

definition known_error_codes :: "ErrorCode list" where
  "known_error_codes = [EcUnsupportedVersion, EcInvalidFrame, EcPayloadTooLarge, EcInvalidCbor,
     EcUnknownMessageType, EcSessionTimeout, EcChecksumMismatch, EcDiskFull, EcStorageError,
     EcPathRejected, EcTransferNotFound, EcStreamNotFound, EcIdentityChanged, EcPairRequired,
     EcRateLimited, EcInternalError, EcManifestTooLarge]"

definition canonical_error_code :: "ErrorCode \<Rightarrow> bool" where
  "canonical_error_code c \<longleftrightarrow>
     (case c of EcUnknown s \<Rightarrow> s \<notin> set (map error_code_as_str known_error_codes) | _ \<Rightarrow> True)"

lemma error_code_roundtrip:
  "error_code_from_wire_str (error_code_as_str c) = c \<longleftrightarrow> canonical_error_code c"
  by (cases c) (auto simp: error_code_from_wire_str_def canonical_error_code_def known_error_codes_def)

lemma error_code_from_wire_canonical: "canonical_error_code (error_code_from_wire_str s)"
  by (simp add: error_code_from_wire_str_def canonical_error_code_def known_error_codes_def)

lemma error_code_as_str_from_wire [simp]: "error_code_as_str (error_code_from_wire_str s) = s"
  by (simp add: error_code_from_wire_str_def)

lemma fatal_not_retryable: "\<not> (is_fatal c \<and> is_retryable c)"
  by (auto simp: is_fatal_def is_retryable_def)

lemma dec_digit_range: "dec_digit n \<in> set ''0123456789''"
  by (simp only: dec_digit_def, rule nth_mem) simp

lemma dec_string_digits: "set (dec_string n) \<subseteq> set ''0123456789''"
proof (induction n rule: dec_string.induct)
  case (1 n)
  show ?case
    using "1.IH" dec_digit_range [of n] by (subst dec_string.simps) auto
qed

lemma length_dec_string: "n < 10 ^ Suc k \<Longrightarrow> length (dec_string n) \<le> Suc k"
proof (induction k arbitrary: n)
  case 0
  then show ?case by (subst dec_string.simps) simp
next
  case (Suc k)
  then have "n div 10 < 10 ^ Suc k" by (simp add: less_mult_imp_div_less mult.commute)
  then have "length (dec_string (n div 10)) \<le> Suc k" by (rule Suc.IH)
  then show ?case by (subst dec_string.simps) simp
qed

lemma derive_sas_commute: "derive_sas a b e = derive_sas b a e"
  by (auto simp: derive_sas_def Let_def)

lemma derive_sas_code:
  "length (fst (derive_sas a b e)) = 6" "set (fst (derive_sas a b e)) \<subseteq> set ''0123456789''"
proof -
  let ?n = "unat (u32_from_be_bytes e mod 1000000)"
  have "?n < 1000000"
    by (simp add: unat_mod)
  then have "?n < 10 ^ Suc 5" by simp
  then have "length (dec_string ?n) \<le> Suc 5" by (rule length_dec_string)
  then show "length (fst (derive_sas a b e)) = 6"
    by (simp add: derive_sas_def Let_def zero_pad_def)
  show "set (fst (derive_sas a b e)) \<subseteq> set ''0123456789''"
    using dec_string_digits [of ?n] by (auto simp: derive_sas_def Let_def zero_pad_def)
qed

lemma derive_sas_context_length:
  "length a = 32 \<Longrightarrow> length b = 32 \<Longrightarrow> length (snd (derive_sas a b e)) = 64"
  by (simp add: derive_sas_def Let_def)

text \<open>The exporter context determines the unordered pair of device ids.\<close>

lemma derive_sas_context_inject:
  assumes "length a = 32" "length b = 32" "length c = 32" "length d = 32"
  shows "snd (derive_sas a b e) = snd (derive_sas c d e') \<longleftrightarrow> {a, b} = {c, d}"
  using assms by (auto simp: derive_sas_def Let_def doubleton_eq_iff)

section \<open>Properties\<close>

text \<open>
  C6 The short authentication string: both peers compute the same code and the same exporter
  context whichever of them is called first, the code is six decimal digits, and the context
  determines the pair of devices (two different pairs never share a context).
\<close>

theorem derive_sas_agreement:
  assumes "length a = 32" "length b = 32" "length c = 32" "length d = 32"
  shows "derive_sas a b e = derive_sas b a e \<and>
    length (fst (derive_sas a b e)) = 6 \<and> set (fst (derive_sas a b e)) \<subseteq> set ''0123456789'' \<and>
    (snd (derive_sas a b e) = snd (derive_sas c d e') \<longleftrightarrow> {a, b} = {c, d})"
  using derive_sas_commute derive_sas_code derive_sas_context_inject [OF assms] by blast

theorem derive_sas_agreement_witness:
  "derive_sas (replicate 32 1) (replicate 32 2) [0, 1, 0xE2, 0x40]
     = derive_sas (replicate 32 2) (replicate 32 1) [0, 1, 0xE2, 0x40] \<and>
   length (fst (derive_sas (replicate 32 1) (replicate 32 2) [0, 1, 0xE2, 0x40])) = 6 \<and>
   snd (derive_sas (replicate 32 1) (replicate 32 2) [0, 1, 0xE2, 0x40])
     \<noteq> snd (derive_sas (replicate 32 1) (replicate 32 3) [0, 1, 0xE2, 0x40])"
proof -
  have ne: "{replicate 32 (1 :: u8), replicate 32 2} \<noteq> {replicate 32 1, replicate 32 3}"
    by (auto simp: doubleton_eq_iff)
  show ?thesis
    using derive_sas_agreement [of "replicate 32 1" "replicate 32 2" "replicate 32 1"
        "replicate 32 3" "[0, 1, 0xE2, 0x40]" "[0, 1, 0xE2, 0x40]", OF length_replicate length_replicate
        length_replicate length_replicate] ne
    by blast
qed

end
