(* ===== verification/Nxfr_Codec.thy ===== *)
theory Nxfr_Codec
  imports Nxfr_Messages
begin

text \<open>
  The control-message codec \<open>nxfr-core/src/codec.rs\<close>. The CBOR library \<open>ciborium\<close> is not part
  of the repository: its reader \<open>from_reader\<close> and writer \<open>into_writer\<close> are arguments of
  \<open>decode_control\<close> and \<open>encode_control\<close>, and the locale \<open>cbor_library\<close> states the one law the
  codec relies on. \<open>Value\<close> is ciborium's document type; a float is its 64-bit pattern.

  The \<open>bytes_to_\<dots>\<close> helpers copy a slice whose length \<open>get_bytes\<close> has checked
  (lemma \<open>get_bytes_length\<close>), so they are the constructors.
\<close>

section \<open>CBOR values\<close>

datatype Value =
    VInteger int
  | VBytes bytes
  | VFloat u64
  | VText string
  | VBool bool
  | VNull
  | VTag nat Value
  | VArray "Value list"
  | VMap "(Value \<times> Value) list"

type_synonym CborMap = "Value btree"

section \<open>Field access\<close>

fun entries_to_map :: "(Value \<times> Value) list \<Rightarrow> CborMap \<Rightarrow> CodecError + CborMap" where
  "entries_to_map [] m = Inr m"
| "entries_to_map ((k, v) # entries) m =
     (case k of
        VText s \<Rightarrow> entries_to_map entries (btree_insert s v m)
      | _ \<Rightarrow> Inl NonStringKey)"

fun to_cbor_map :: "Value \<Rightarrow> CodecError + CborMap" where
  "to_cbor_map (VMap entries) = entries_to_map entries []"
| "to_cbor_map _ = Inl NotAMap"

definition get_required :: "CborMap \<Rightarrow> string \<Rightarrow> CodecError + Value" where
  "get_required m key = ok_or (MissingField key) (map_of m key)"

definition get_uint :: "CborMap \<Rightarrow> string \<Rightarrow> CodecError + u64" where
  "get_uint m key =
     and_then (get_required m key) (\<lambda>v. case v of
         VInteger i \<Rightarrow> if i < 0 then Inl (WrongType key ''unsigned integer'')
                       else Inr (word_of_int i)
       | _ \<Rightarrow> Inl (WrongType key ''unsigned integer''))"

definition get_uint_opt :: "CborMap \<Rightarrow> string \<Rightarrow> CodecError + u64 option" where
  "get_uint_opt m key =
     (case map_of m key of
        None \<Rightarrow> Inr None
      | Some (VInteger i) \<Rightarrow> if i < 0 then Inl (WrongType key ''unsigned integer'')
                            else Inr (Some (word_of_int i))
      | Some _ \<Rightarrow> Inl (WrongType key ''unsigned integer''))"

definition get_text :: "CborMap \<Rightarrow> string \<Rightarrow> CodecError + string" where
  "get_text m key =
     and_then (get_required m key) (\<lambda>v. case v of
         VText s \<Rightarrow> Inr s
       | _ \<Rightarrow> Inl (WrongType key ''text string''))"

definition get_text_opt :: "CborMap \<Rightarrow> string \<Rightarrow> CodecError + string option" where
  "get_text_opt m key =
     (case map_of m key of
        None \<Rightarrow> Inr None
      | Some (VText s) \<Rightarrow> Inr (Some s)
      | Some _ \<Rightarrow> Inl (WrongType key ''text string''))"

definition get_bool :: "CborMap \<Rightarrow> string \<Rightarrow> CodecError + bool" where
  "get_bool m key =
     and_then (get_required m key) (\<lambda>v. case v of
         VBool b \<Rightarrow> Inr b
       | _ \<Rightarrow> Inl (WrongType key ''boolean''))"

definition get_bool_opt :: "CborMap \<Rightarrow> string \<Rightarrow> CodecError + bool option" where
  "get_bool_opt m key =
     (case map_of m key of
        None \<Rightarrow> Inr None
      | Some (VBool b) \<Rightarrow> Inr (Some b)
      | Some _ \<Rightarrow> Inl (WrongType key ''boolean''))"

definition get_bytes :: "CborMap \<Rightarrow> string \<Rightarrow> nat \<Rightarrow> CodecError + bytes" where
  "get_bytes m key expected_len =
     and_then (get_required m key) (\<lambda>v. case v of
         VBytes b \<Rightarrow> if length b \<noteq> expected_len
                     then Inl (WrongType key ''bytes of correct length'') else Inr b
       | _ \<Rightarrow> Inl (WrongType key ''byte string''))"

definition get_bytes_opt :: "CborMap \<Rightarrow> string \<Rightarrow> nat \<Rightarrow> CodecError + bytes option" where
  "get_bytes_opt m key expected_len =
     (case map_of m key of
        None \<Rightarrow> Inr None
      | Some (VBytes b) \<Rightarrow> if length b \<noteq> expected_len
                     then Inl (WrongType key ''bytes of correct length'') else Inr (Some b)
      | Some _ \<Rightarrow> Inl (WrongType key ''byte string''))"

definition get_str_array :: "CborMap \<Rightarrow> string \<Rightarrow> CodecError + string list" where
  "get_str_array m key =
     (case map_of m key of
        None \<Rightarrow> Inr []
      | Some (VArray arr) \<Rightarrow>
          try_map (\<lambda>v. case v of VText s \<Rightarrow> Inr s
                       | _ \<Rightarrow> Inl (WrongType key ''array of text strings'')) arr
      | Some _ \<Rightarrow> Inl (WrongType key ''array''))"

definition get_uint_array_opt :: "CborMap \<Rightarrow> string \<Rightarrow> CodecError + u32 list option" where
  "get_uint_array_opt m key =
     (case map_of m key of
        None \<Rightarrow> Inr None
      | Some (VArray arr) \<Rightarrow>
          and_then (try_map (\<lambda>v. case v of VInteger i \<Rightarrow> Inr (word_of_int i)
                       | _ \<Rightarrow> Inl (WrongType key ''array of unsigned integers'')) arr)
            (\<lambda>result. Inr (Some result))
      | Some _ \<Rightarrow> Inl (WrongType key ''array''))"

definition bytes_to_device_id :: "bytes \<Rightarrow> DeviceId" where
  "bytes_to_device_id b = DeviceId b"

definition bytes_to_transfer_id :: "bytes \<Rightarrow> TransferId" where
  "bytes_to_transfer_id b = TransferId b"

definition bytes_to_hash :: "bytes \<Rightarrow> bytes" where
  "bytes_to_hash b = b"

definition uint_to_value :: "u64 \<Rightarrow> Value" where
  "uint_to_value v = VInteger (uint v)"

definition make_version_array :: "ProtocolVersion \<Rightarrow> Value" where
  "make_version_array pv = VArray [VInteger (uint (major pv)), VInteger (uint (minor pv))]"

definition version_component :: "Value \<Rightarrow> CodecError + u32" where
  "version_component v =
     (case v of VInteger i \<Rightarrow> Inr (word_of_int i)
      | _ \<Rightarrow> Inl (WrongType ''protocol_version'' ''[uint, uint]''))"

definition parse_version_array :: "CborMap \<Rightarrow> CodecError + ProtocolVersion" where
  "parse_version_array m =
     and_then (get_required m ''protocol_version'') (\<lambda>v. case v of
         VArray [a, b] \<Rightarrow>
           and_then (version_component a) (\<lambda>maj.
           and_then (version_component b) (\<lambda>min.
             Inr \<lparr>major = maj, minor = min\<rparr>))
       | _ \<Rightarrow> Inl (WrongType ''protocol_version'' ''[uint, uint]''))"

section \<open>Nesting depth\<close>

function check_nesting_depth :: "Value \<Rightarrow> nat \<Rightarrow> CodecError + unit"
  and check_nesting_entries :: "(Value \<times> Value) list \<Rightarrow> nat \<Rightarrow> CodecError + unit"
  and check_nesting_items :: "Value list \<Rightarrow> nat \<Rightarrow> CodecError + unit" where
  "check_nesting_depth val depth =
     (if depth > MAX_CBOR_NESTING then Inl (NestingTooDeep depth)
      else case val of
        VMap entries \<Rightarrow> check_nesting_entries entries depth
      | VArray items \<Rightarrow> check_nesting_items items depth
      | VTag _ _ \<Rightarrow> Inl TagNotAllowed
      | _ \<Rightarrow> Inr ())"
| "check_nesting_entries [] depth = Inr ()"
| "check_nesting_entries ((k, v) # entries) depth =
     and_then (check_nesting_depth k (depth + 1)) (\<lambda>_.
     and_then (check_nesting_depth v (depth + 1)) (\<lambda>_.
       check_nesting_entries entries depth))"
| "check_nesting_items [] depth = Inr ()"
| "check_nesting_items (item # items) depth =
     and_then (check_nesting_depth item (depth + 1)) (\<lambda>_. check_nesting_items items depth)"
  by pat_completeness auto
termination
  by (relation "measure (\<lambda>x. case x of Inl (v, _) \<Rightarrow> size v
        | Inr (Inl (es, _)) \<Rightarrow> size_list (size_prod size size) es
        | Inr (Inr (vs, _)) \<Rightarrow> size_list size vs)") auto

declare check_nesting_depth.simps [simp del]

section \<open>Decoding\<close>

definition decode_hello :: "CborMap \<Rightarrow> CodecError + ControlMessage" where
  "decode_hello m =
     and_then (parse_version_array m) (\<lambda>protocol_version.
     and_then (get_bytes m ''device_id'' 32) (\<lambda>device_id.
     and_then (get_text m ''device_name'') (\<lambda>device_name.
     and_then (get_text m ''platform'') (\<lambda>platform.
     and_then (get_str_array m ''capabilities'') (\<lambda>capabilities.
     and_then (get_bool m ''is_paired'') (\<lambda>is_paired.
       Inr (Hello protocol_version (bytes_to_device_id device_id) device_name
              (platform_from_str_lossy platform) capabilities is_paired)))))))"

definition decode_hello_ack :: "CborMap \<Rightarrow> CodecError + ControlMessage" where
  "decode_hello_ack m =
     and_then (parse_version_array m) (\<lambda>protocol_version.
     and_then (get_bytes m ''device_id'' 32) (\<lambda>device_id.
     and_then (get_text m ''device_name'') (\<lambda>device_name.
     and_then (get_text m ''platform'') (\<lambda>platform.
     and_then (get_str_array m ''capabilities'') (\<lambda>capabilities.
     and_then (get_bool m ''is_paired'') (\<lambda>is_paired.
     and_then (get_uint m ''session_id'') (\<lambda>session_id.
       Inr (HelloAck protocol_version (bytes_to_device_id device_id) device_name
              (platform_from_str_lossy platform) capabilities is_paired (ucast session_id)))))))))"

definition decode_pair_request :: "CborMap \<Rightarrow> CodecError + ControlMessage" where
  "decode_pair_request m = and_then (get_text m ''sas_method'') (\<lambda>s. Inr (PairRequest s))"

definition decode_error :: "CborMap \<Rightarrow> CodecError + ControlMessage" where
  "decode_error m =
     and_then (get_text m ''code'') (\<lambda>code_str.
     and_then (get_text_opt m ''message'') (\<lambda>message.
     and_then (get_bool m ''fatal'') (\<lambda>fatal.
       Inr (Error (error_code_from_wire_str code_str) message fatal None))))"

definition decode_transfer_type :: "string \<Rightarrow> CodecError + TransferType" where
  "decode_transfer_type s =
     (if s = ''files'' then Inr Files
      else if s = ''directory'' then Inr Directory
      else Inl (WrongType ''transfer_type'' ''\"files\" or \"directory\"''))"

definition decode_entry_type :: "string option \<Rightarrow> CodecError + ManifestEntryType" where
  "decode_entry_type t =
     (case t of
        None \<Rightarrow> Inr File
      | Some s \<Rightarrow>
          if s = ''dir'' then Inr Dir
          else if s = ''file'' then Inr File
          else Inl (WrongType ''manifest[].type'' ''\"file\" or \"dir\"''))"

definition decode_size_sha :: "CborMap \<Rightarrow> ManifestEntryType \<Rightarrow> CodecError + (u64 option \<times> bytes option)" where
  "decode_size_sha em t =
     (case t of
        File \<Rightarrow>
          and_then (get_uint em ''size'') (\<lambda>sz.
          and_then (get_bytes em ''sha256'' 32) (\<lambda>sha.
            Inr (Some sz, Some (bytes_to_hash sha))))
      | Dir \<Rightarrow>
          and_then (get_uint_opt em ''size'') (\<lambda>sz.
          and_then (get_bytes_opt em ''sha256'' 32) (\<lambda>sha.
            Inr (sz, map_option bytes_to_hash sha))))"

definition decode_manifest_entry :: "Value \<Rightarrow> CodecError + ManifestEntry" where
  "decode_manifest_entry entry_val =
     and_then (case entry_val of
         VMap entries \<Rightarrow> entries_to_map entries []
       | _ \<Rightarrow> Inl (WrongType ''manifest[]'' ''map'')) (\<lambda>em.
     and_then (get_uint em ''file_id'') (\<lambda>file_id.
     and_then (get_text em ''relative_path'') (\<lambda>relative_path.
     and_then (get_text_opt em ''type'') (\<lambda>entry_type_str.
     and_then (decode_entry_type entry_type_str) (\<lambda>entry_type.
     and_then (decode_size_sha em entry_type) (\<lambda>(sz, sha).
       Inr \<lparr>me_file_id = ucast file_id, me_relative_path = relative_path, me_size = sz,
             me_sha256 = sha, me_entry_type = entry_type\<rparr>))))))"

definition decode_transfer_request :: "CborMap \<Rightarrow> CodecError + ControlMessage" where
  "decode_transfer_request m =
     and_then (get_bytes m ''transfer_id'' 16) (\<lambda>transfer_id.
     and_then (get_text m ''transfer_type'') (\<lambda>tt_str.
     and_then (decode_transfer_type tt_str) (\<lambda>transfer_type.
     and_then (get_text m ''display_name'') (\<lambda>display_name.
     and_then (get_uint m ''total_files'') (\<lambda>total_files.
     and_then (get_uint m ''total_size'') (\<lambda>total_size.
     and_then (get_required m ''manifest'') (\<lambda>manifest_val.
     and_then (case manifest_val of VArray arr \<Rightarrow> Inr arr
               | _ \<Rightarrow> Inl (WrongType ''manifest'' ''array'')) (\<lambda>manifest_arr.
       if length manifest_arr > MAX_MANIFEST_ENTRIES
       then Inl (ManifestTooLarge (length manifest_arr))
       else and_then (try_map decode_manifest_entry manifest_arr) (\<lambda>manifest.
         Inr (TransferRequest (bytes_to_transfer_id transfer_id) transfer_type display_name
                (ucast total_files) total_size manifest))))))))))"

definition decode_file_metadata :: "CborMap \<Rightarrow> CodecError + ControlMessage" where
  "decode_file_metadata m =
     and_then (get_bytes m ''transfer_id'' 16) (\<lambda>transfer_id.
     and_then (get_uint m ''file_id'') (\<lambda>file_id.
     and_then (get_uint m ''stream_id'') (\<lambda>stream_id.
     and_then (get_text m ''relative_path'') (\<lambda>relative_path.
     and_then (get_uint m ''size'') (\<lambda>sz.
     and_then (get_bytes m ''sha256'' 32) (\<lambda>sha.
     and_then (get_text_opt m ''mime_type'') (\<lambda>mime_type.
     and_then (get_uint_opt m ''modified_time'') (\<lambda>modified_time.
       Inr (FileMetadata (bytes_to_transfer_id transfer_id) (ucast file_id) (ucast stream_id)
              relative_path sz (bytes_to_hash sha) mime_type modified_time)))))))))"

definition decode_file_metadata_ack :: "CborMap \<Rightarrow> CodecError + ControlMessage" where
  "decode_file_metadata_ack m =
     and_then (get_bytes m ''transfer_id'' 16) (\<lambda>transfer_id.
     and_then (get_uint m ''file_id'') (\<lambda>file_id.
     and_then (get_uint m ''stream_id'') (\<lambda>stream_id.
     and_then (get_bool m ''accepted'') (\<lambda>accepted.
       Inr (FileMetadataAck (bytes_to_transfer_id transfer_id) (ucast file_id) (ucast stream_id)
              accepted)))))"

definition decode_chunk_ack :: "CborMap \<Rightarrow> CodecError + ControlMessage" where
  "decode_chunk_ack m =
     and_then (get_uint m ''stream_id'') (\<lambda>stream_id.
     and_then (get_uint m ''message_id'') (\<lambda>message_id.
     and_then (get_uint m ''offset'') (\<lambda>offset.
     and_then (get_uint m ''length'') (\<lambda>len.
       Inr (ChunkAck (ucast stream_id) message_id offset len)))))"

definition decode_ack_status :: "string \<Rightarrow> CodecError + TransferAckStatus" where
  "decode_ack_status s =
     (if s = ''success'' then Inr Success
      else if s = ''partial_failure'' then Inr PartialFailure
      else Inl (WrongType ''status'' ''\"success\" or \"partial_failure\"''))"

definition decode_transfer_ack :: "CborMap \<Rightarrow> CodecError + ControlMessage" where
  "decode_transfer_ack m =
     and_then (get_bytes m ''transfer_id'' 16) (\<lambda>transfer_id.
     and_then (get_text m ''status'') (\<lambda>status_str.
     and_then (decode_ack_status status_str) (\<lambda>status.
     and_then (get_uint_array_opt m ''failed_files'') (\<lambda>failed_files.
       Inr (TransferAck (bytes_to_transfer_id transfer_id) status failed_files)))))"

definition decode_resume_query :: "CborMap \<Rightarrow> CodecError + ControlMessage" where
  "decode_resume_query m =
     and_then (get_bytes m ''transfer_id'' 16) (\<lambda>transfer_id.
     and_then (get_uint_array_opt m ''file_ids'') (\<lambda>file_ids.
       Inr (ResumeQuery (bytes_to_transfer_id transfer_id) file_ids)))"

definition range_component :: "Value \<Rightarrow> CodecError + u64" where
  "range_component v =
     (case v of VInteger i \<Rightarrow> Inr (word_of_int i)
      | _ \<Rightarrow> Inl (WrongType ''received_ranges'' ''[uint, uint]''))"

definition decode_range :: "Value \<Rightarrow> CodecError + (u64 \<times> u64)" where
  "decode_range rv =
     (case rv of
        VArray [a, b] \<Rightarrow>
          and_then (range_component a) (\<lambda>off.
          and_then (range_component b) (\<lambda>len. Inr (off, len)))
      | _ \<Rightarrow> Inl (WrongType ''received_ranges'' ''array of [uint, uint]''))"

definition decode_resume_file :: "Value \<Rightarrow> CodecError + ResumeFileStatus" where
  "decode_resume_file fv =
     and_then (case fv of
         VMap entries \<Rightarrow> entries_to_map entries []
       | _ \<Rightarrow> Inl (WrongType ''files[]'' ''map'')) (\<lambda>fm.
     and_then (get_uint fm ''file_id'') (\<lambda>file_id.
     and_then (get_uint fm ''received_bytes'') (\<lambda>received_bytes.
     and_then (get_required fm ''received_ranges'') (\<lambda>ranges_val.
     and_then (case ranges_val of VArray range_arr \<Rightarrow> try_map decode_range range_arr
               | _ \<Rightarrow> Inl (WrongType ''received_ranges'' ''array'')) (\<lambda>ranges.
     and_then (get_bytes_opt fm ''partial_sha256'' 32) (\<lambda>partial_sha256.
       Inr \<lparr>rfs_file_id = ucast file_id, rfs_received_bytes = received_bytes,
             rfs_received_ranges = ranges,
             rfs_partial_sha256 = map_option bytes_to_hash partial_sha256\<rparr>))))))"

definition decode_resume_status :: "CborMap \<Rightarrow> CodecError + ControlMessage" where
  "decode_resume_status m =
     and_then (get_bytes m ''transfer_id'' 16) (\<lambda>transfer_id.
     and_then (get_bool m ''resumable'') (\<lambda>resumable.
     and_then (get_uint_opt m ''expiry'') (\<lambda>expiry.
     and_then (if resumable
               then (case map_of m ''files'' of
                       Some (VArray arr) \<Rightarrow>
                         and_then (try_map decode_resume_file arr) (\<lambda>result. Inr (Some result))
                     | _ \<Rightarrow> Inr None)
               else Inr None) (\<lambda>files.
       Inr (ResumeStatus (bytes_to_transfer_id transfer_id) resumable files expiry)))))"

definition decode_transfer_id :: "CborMap \<Rightarrow> CodecError + TransferId" where
  "decode_transfer_id m =
     and_then (get_bytes m ''transfer_id'' 16) (\<lambda>b. Inr (bytes_to_transfer_id b))"

definition decode_control_map :: "CborMap \<Rightarrow> CodecError + ControlMessage" where
  "decode_control_map m =
     and_then (get_uint m ''type'') (\<lambda>type_code.
       if type_code = 0x01 then decode_hello m
       else if type_code = 0x02 then decode_hello_ack m
       else if type_code = 0x03 then decode_pair_request m
       else if type_code = 0x04 then Inr PairAccept
       else if type_code = 0x05 then
         and_then (get_text_opt m ''reason'') (\<lambda>reason. Inr (PairReject reason))
       else if type_code = 0x06 then
         and_then (get_text_opt m ''reason'') (\<lambda>reason. Inr (SessionClose reason))
       else if type_code = 0x09 then decode_error m
       else if type_code = 0x10 then decode_transfer_request m
       else if type_code = 0x11 then
         and_then (decode_transfer_id m) (\<lambda>transfer_id. Inr (TransferAccept transfer_id))
       else if type_code = 0x12 then
         and_then (decode_transfer_id m) (\<lambda>transfer_id.
         and_then (get_text_opt m ''reason'') (\<lambda>reason.
           Inr (TransferReject transfer_id reason)))
       else if type_code = 0x13 then decode_file_metadata m
       else if type_code = 0x14 then decode_file_metadata_ack m
       else if type_code = 0x15 then decode_chunk_ack m
       else if type_code = 0x16 then
         and_then (decode_transfer_id m) (\<lambda>transfer_id. Inr (TransferPause transfer_id))
       else if type_code = 0x17 then
         and_then (decode_transfer_id m) (\<lambda>transfer_id. Inr (TransferResume transfer_id))
       else if type_code = 0x18 then
         and_then (decode_transfer_id m) (\<lambda>transfer_id.
         and_then (get_text_opt m ''reason'') (\<lambda>reason.
           Inr (TransferCancel transfer_id reason)))
       else if type_code = 0x19 then
         and_then (decode_transfer_id m) (\<lambda>transfer_id. Inr (TransferComplete transfer_id))
       else if type_code = 0x1A then decode_transfer_ack m
       else if type_code = 0x20 then decode_resume_query m
       else if type_code = 0x21 then decode_resume_status m
       else Inl (UnknownMessageType type_code))"

definition decode_control :: "(bytes \<Rightarrow> string + Value) \<Rightarrow> bytes \<Rightarrow> CodecError + ControlMessage" where
  "decode_control from_reader payload =
     and_then (map_err CborDecode (from_reader payload)) (\<lambda>val.
     and_then (check_nesting_depth val 0) (\<lambda>_.
     and_then (to_cbor_map val) decode_control_map))"

section \<open>Encoding\<close>

text \<open>A sequence of \<open>map.insert\<close> calls, some of them under \<open>if let Some(x)\<close>.\<close>

definition btree_of :: "(string \<times> 'v) list \<Rightarrow> 'v btree" where
  "btree_of kvs = fold (\<lambda>(k, v). btree_insert k v) kvs []"

definition opt_field :: "string \<Rightarrow> ('a \<Rightarrow> Value) \<Rightarrow> 'a option \<Rightarrow> (string \<times> Value) list" where
  "opt_field k f x = (case x of None \<Rightarrow> [] | Some y \<Rightarrow> [(k, f y)])"

definition map_to_value :: "CborMap \<Rightarrow> Value" where
  "map_to_value m = VMap (map (\<lambda>(k, v). (VText k, v)) m)"

definition encode_hello :: "ProtocolVersion \<Rightarrow> DeviceId \<Rightarrow> string \<Rightarrow> Platform \<Rightarrow> string list \<Rightarrow> bool \<Rightarrow> CborMap" where
  "encode_hello protocol_version device_id device_name platform capabilities is_paired =
     btree_of
       [(''capabilities'', VArray (map VText capabilities)),
        (''device_id'', VBytes (device_id_bytes device_id)),
        (''device_name'', VText device_name),
        (''is_paired'', VBool is_paired),
        (''platform'', VText (platform_as_str platform)),
        (''protocol_version'', make_version_array protocol_version),
        (''type'', uint_to_value 0x01)]"

definition encode_hello_ack :: "ProtocolVersion \<Rightarrow> DeviceId \<Rightarrow> string \<Rightarrow> Platform \<Rightarrow> string list \<Rightarrow> bool \<Rightarrow> u32 \<Rightarrow> CborMap" where
  "encode_hello_ack protocol_version device_id device_name platform capabilities is_paired session_id =
     btree_of
       [(''capabilities'', VArray (map VText capabilities)),
        (''device_id'', VBytes (device_id_bytes device_id)),
        (''device_name'', VText device_name),
        (''is_paired'', VBool is_paired),
        (''platform'', VText (platform_as_str platform)),
        (''protocol_version'', make_version_array protocol_version),
        (''session_id'', uint_to_value (ucast session_id)),
        (''type'', uint_to_value 0x02)]"

definition encode_reason :: "u64 \<Rightarrow> string option \<Rightarrow> CborMap" where
  "encode_reason code reason = btree_of (opt_field ''reason'' VText reason @ [(''type'', uint_to_value code)])"

definition encode_error :: "ErrorCode \<Rightarrow> string option \<Rightarrow> bool \<Rightarrow> CborMap" where
  "encode_error code message fatal =
     btree_of
       ([(''code'', VText (error_code_as_str code)), (''fatal'', VBool fatal)]
        @ opt_field ''message'' VText message
        @ [(''type'', uint_to_value 0x09)])"

definition encode_manifest_entry :: "ManifestEntry list \<Rightarrow> ManifestEntry \<Rightarrow> Value" where
  "encode_manifest_entry manifest e =
     map_to_value (btree_of
       ([(''file_id'', uint_to_value (ucast (me_file_id e))),
         (''relative_path'', VText (me_relative_path e))]
        @ opt_field ''sha256'' VBytes (me_sha256 e)
        @ opt_field ''size'' uint_to_value (me_size e)
        @ (case me_entry_type e of
             File \<Rightarrow> if list_ex (\<lambda>x. me_entry_type x = Dir) manifest
                     then [(''type'', VText ''file'')] else []
           | Dir \<Rightarrow> [(''type'', VText ''dir'')])))"

definition encode_transfer_request :: "TransferId \<Rightarrow> TransferType \<Rightarrow> string \<Rightarrow> u32 \<Rightarrow> u64 \<Rightarrow> ManifestEntry list \<Rightarrow> CodecError + CborMap" where
  "encode_transfer_request transfer_id transfer_type display_name total_files total_size manifest =
     (if length manifest > MAX_MANIFEST_ENTRIES then Inl (ManifestTooLarge (length manifest))
      else Inr (btree_of
        [(''display_name'', VText display_name),
         (''manifest'', VArray (map (encode_manifest_entry manifest) manifest)),
         (''total_files'', uint_to_value (ucast total_files)),
         (''total_size'', uint_to_value total_size),
         (''transfer_id'', VBytes (transfer_id_bytes transfer_id)),
         (''transfer_type'', VText (case transfer_type of Files \<Rightarrow> ''files'' | Directory \<Rightarrow> ''directory'')),
         (''type'', uint_to_value 0x10)]))"

definition encode_transfer_id :: "u64 \<Rightarrow> TransferId \<Rightarrow> CborMap" where
  "encode_transfer_id code transfer_id =
     btree_of [(''transfer_id'', VBytes (transfer_id_bytes transfer_id)), (''type'', uint_to_value code)]"

definition encode_transfer_reason :: "u64 \<Rightarrow> TransferId \<Rightarrow> string option \<Rightarrow> CborMap" where
  "encode_transfer_reason code transfer_id reason =
     btree_of (opt_field ''reason'' VText reason
       @ [(''transfer_id'', VBytes (transfer_id_bytes transfer_id)), (''type'', uint_to_value code)])"

definition encode_file_metadata :: "TransferId \<Rightarrow> u32 \<Rightarrow> u32 \<Rightarrow> string \<Rightarrow> u64 \<Rightarrow> bytes \<Rightarrow> string option \<Rightarrow> u64 option \<Rightarrow> CborMap" where
  "encode_file_metadata transfer_id file_id stream_id relative_path sz sha mime_type modified_time =
     btree_of
       ([(''file_id'', uint_to_value (ucast file_id))]
        @ opt_field ''mime_type'' VText mime_type
        @ opt_field ''modified_time'' uint_to_value modified_time
        @ [(''relative_path'', VText relative_path),
           (''sha256'', VBytes sha),
           (''size'', uint_to_value sz),
           (''stream_id'', uint_to_value (ucast stream_id)),
           (''transfer_id'', VBytes (transfer_id_bytes transfer_id)),
           (''type'', uint_to_value 0x13)])"

definition encode_file_metadata_ack :: "TransferId \<Rightarrow> u32 \<Rightarrow> u32 \<Rightarrow> bool \<Rightarrow> CborMap" where
  "encode_file_metadata_ack transfer_id file_id stream_id accepted =
     btree_of
       [(''accepted'', VBool accepted),
        (''file_id'', uint_to_value (ucast file_id)),
        (''stream_id'', uint_to_value (ucast stream_id)),
        (''transfer_id'', VBytes (transfer_id_bytes transfer_id)),
        (''type'', uint_to_value 0x14)]"

definition encode_chunk_ack :: "u32 \<Rightarrow> u64 \<Rightarrow> u64 \<Rightarrow> u64 \<Rightarrow> CborMap" where
  "encode_chunk_ack stream_id message_id offset len =
     btree_of
       [(''length'', uint_to_value len),
        (''message_id'', uint_to_value message_id),
        (''offset'', uint_to_value offset),
        (''stream_id'', uint_to_value (ucast stream_id)),
        (''type'', uint_to_value 0x15)]"

definition encode_ids :: "u32 list \<Rightarrow> Value" where
  "encode_ids ids = VArray (map (\<lambda>i. uint_to_value (ucast i)) ids)"

definition encode_transfer_ack :: "TransferId \<Rightarrow> TransferAckStatus \<Rightarrow> u32 list option \<Rightarrow> CborMap" where
  "encode_transfer_ack transfer_id status failed_files =
     btree_of
       (opt_field ''failed_files'' encode_ids failed_files
        @ [(''status'', VText (case status of Success \<Rightarrow> ''success'' | PartialFailure \<Rightarrow> ''partial_failure'')),
           (''transfer_id'', VBytes (transfer_id_bytes transfer_id)),
           (''type'', uint_to_value 0x1A)])"

definition encode_resume_query :: "TransferId \<Rightarrow> u32 list option \<Rightarrow> CborMap" where
  "encode_resume_query transfer_id file_ids =
     btree_of
       (opt_field ''file_ids'' encode_ids file_ids
        @ [(''transfer_id'', VBytes (transfer_id_bytes transfer_id)),
           (''type'', uint_to_value 0x20)])"

definition encode_resume_file :: "ResumeFileStatus \<Rightarrow> Value" where
  "encode_resume_file f =
     map_to_value (btree_of
       ([(''file_id'', uint_to_value (ucast (rfs_file_id f)))]
        @ opt_field ''partial_sha256'' VBytes (rfs_partial_sha256 f)
        @ [(''received_bytes'', uint_to_value (rfs_received_bytes f)),
           (''received_ranges'',
              VArray (map (\<lambda>(off, l). VArray [uint_to_value off, uint_to_value l]) (rfs_received_ranges f)))]))"

definition encode_resume_status :: "TransferId \<Rightarrow> bool \<Rightarrow> ResumeFileStatus list option \<Rightarrow> u64 option \<Rightarrow> CborMap" where
  "encode_resume_status transfer_id resumable files expiry =
     btree_of
       (opt_field ''expiry'' uint_to_value expiry
        @ opt_field ''files'' (\<lambda>fs. VArray (map encode_resume_file fs)) files
        @ [(''resumable'', VBool resumable),
           (''transfer_id'', VBytes (transfer_id_bytes transfer_id)),
           (''type'', uint_to_value 0x21)])"

fun encode_to_map :: "ControlMessage \<Rightarrow> CodecError + CborMap" where
  "encode_to_map (Hello pv d n p c i) = Inr (encode_hello pv d n p c i)"
| "encode_to_map (HelloAck pv d n p c i s) = Inr (encode_hello_ack pv d n p c i s)"
| "encode_to_map (PairRequest s) =
     Inr (btree_of [(''sas_method'', VText s), (''type'', uint_to_value 0x03)])"
| "encode_to_map PairAccept = Inr (btree_of [(''type'', uint_to_value 0x04)])"
| "encode_to_map (PairReject r) = Inr (encode_reason 0x05 r)"
| "encode_to_map (SessionClose r) = Inr (encode_reason 0x06 r)"
| "encode_to_map (Error c m f details) = Inr (encode_error c m f)"
| "encode_to_map (TransferRequest t tt d n s m) = encode_transfer_request t tt d n s m"
| "encode_to_map (TransferAccept t) = Inr (encode_transfer_id 0x11 t)"
| "encode_to_map (TransferReject t r) = Inr (encode_transfer_reason 0x12 t r)"
| "encode_to_map (FileMetadata t f s p sz h mt mtime) = Inr (encode_file_metadata t f s p sz h mt mtime)"
| "encode_to_map (FileMetadataAck t f s a) = Inr (encode_file_metadata_ack t f s a)"
| "encode_to_map (ChunkAck s m off l) = Inr (encode_chunk_ack s m off l)"
| "encode_to_map (TransferPause t) = Inr (encode_transfer_id 0x16 t)"
| "encode_to_map (TransferResume t) = Inr (encode_transfer_id 0x17 t)"
| "encode_to_map (TransferCancel t r) = Inr (encode_transfer_reason 0x18 t r)"
| "encode_to_map (TransferComplete t) = Inr (encode_transfer_id 0x19 t)"
| "encode_to_map (TransferAck t s ff) = Inr (encode_transfer_ack t s ff)"
| "encode_to_map (ResumeQuery t ids) = Inr (encode_resume_query t ids)"
| "encode_to_map (ResumeStatus t r fs e) = Inr (encode_resume_status t r fs e)"

definition encode_control :: "(Value \<Rightarrow> string + bytes) \<Rightarrow> ControlMessage \<Rightarrow> CodecError + bytes" where
  "encode_control into_writer msg =
     and_then (encode_to_map msg) (\<lambda>m.
     and_then (map_err CborEncode (into_writer (map_to_value m))) (\<lambda>buf.
       if length buf > unat CONTROL_PAYLOAD_MAX then Inl EncodedTooLarge else Inr buf))"

section \<open>Lemmas on the field access\<close>

lemma map_of_fold_btree_insert:
  "map_of (fold (\<lambda>(k, v). btree_insert k v) kvs m) = map_of m ++ map_of (rev kvs)"
  by (induction kvs arbitrary: m) (auto simp: map_add_def fun_eq_iff split: option.splits)

lemma map_of_btree_of [btree_simps]: "map_of (btree_of kvs) = map_of (rev kvs)"
  by (simp add: btree_of_def map_of_fold_btree_insert)

lemma btree_wf_fold: "btree_wf m \<Longrightarrow> btree_wf (fold (\<lambda>(k, v). btree_insert k v) kvs m)"
  by (induction kvs arbitrary: m) auto

lemma btree_wf_btree_of [simp]: "btree_wf (btree_of kvs)"
  by (simp add: btree_of_def btree_wf_fold)

lemma set_fold_btree_insert:
  "set (fold (\<lambda>(k, v). btree_insert k v) kvs m) \<subseteq> set kvs \<union> set m"
proof (induction kvs arbitrary: m)
  case Nil
  then show ?case by simp
next
  case (Cons kv kvs)
  show ?case
    using Cons [of "btree_insert (fst kv) (snd kv) m"]
      set_btree_insert_subset [of "fst kv" "snd kv" m]
    by (auto simp: case_prod_beta)
qed

lemma set_btree_of: "set (btree_of kvs) \<subseteq> set kvs"
  using set_fold_btree_insert [of kvs "[]"] by (simp add: btree_of_def)

lemma rev_opt_field [simp]: "rev (opt_field k f x) = opt_field k f x"
  by (simp add: opt_field_def split: option.splits)

lemma map_of_opt_field [btree_simps]:
  "map_of (opt_field k f x) k' = (if k' = k then map_option f x else None)"
  by (simp add: opt_field_def split: option.splits)

lemma set_opt_field: "set (opt_field k f x) = (\<lambda>y. (k, f y)) ` set_option x"
  by (cases x) (auto simp: opt_field_def)

text \<open>Reading back what the encoder stored.\<close>

lemma get_required_Some: "map_of m key = Some v \<Longrightarrow> get_required m key = Inr v"
  by (simp add: get_required_def)

lemma ucast_ucast_u32 [simp]: "(ucast (ucast (w :: u32) :: u64) :: u32) = w"
  by (rule ucast_up_ucast_id) (simp add: is_up)

lemma word_of_int_ucast_u32: "(word_of_int (uint (ucast (w :: u32) :: u64)) :: u32) = w"
  by (simp add: ucast_ucast_u32)

lemma get_uint_Some: "map_of m key = Some (uint_to_value w) \<Longrightarrow> get_uint m key = Inr w"
  by (simp add: get_uint_def get_required_Some uint_to_value_def)

lemma get_uint_opt_field:
  "map_of m key = map_option uint_to_value x \<Longrightarrow> get_uint_opt m key = Inr x"
  by (cases x) (simp_all add: get_uint_opt_def uint_to_value_def)

lemma get_text_Some: "map_of m key = Some (VText s) \<Longrightarrow> get_text m key = Inr s"
  by (simp add: get_text_def get_required_Some)

lemma get_text_opt_field: "map_of m key = map_option VText x \<Longrightarrow> get_text_opt m key = Inr x"
  by (cases x) (simp_all add: get_text_opt_def)

lemma get_bool_Some: "map_of m key = Some (VBool b) \<Longrightarrow> get_bool m key = Inr b"
  by (simp add: get_bool_def get_required_Some)

lemma get_bytes_Some:
  "map_of m key = Some (VBytes b) \<Longrightarrow> length b = n \<Longrightarrow> get_bytes m key n = Inr b"
  by (simp add: get_bytes_def get_required_Some)

lemma get_bytes_opt_field:
  "map_of m key = map_option VBytes x \<Longrightarrow> \<forall>b\<in>set_option x. length b = n
     \<Longrightarrow> get_bytes_opt m key n = Inr x"
  by (cases x) (simp_all add: get_bytes_opt_def)

lemma get_str_array_Some:
  "map_of m key = Some (VArray (map VText ss)) \<Longrightarrow> get_str_array m key = Inr ss"
  by (simp add: get_str_array_def try_map_map_inverse)

lemma get_uint_array_opt_field:
  "map_of m key = map_option encode_ids x \<Longrightarrow> get_uint_array_opt m key = Inr x"
proof (cases x)
  case (Some ids)
  let ?f = "\<lambda>v. case v of VInteger i \<Rightarrow> Inr (word_of_int i)
              | _ \<Rightarrow> Inl (WrongType key ''array of unsigned integers'')"
  have "try_map ?f (map (\<lambda>i. uint_to_value (ucast i)) ids) = Inr ids"
    by (intro try_map_map_inverse) (simp add: uint_to_value_def word_of_int_ucast_u32)
  moreover assume "map_of m key = map_option encode_ids x"
  ultimately show ?thesis using Some by (simp add: get_uint_array_opt_def encode_ids_def)
qed (simp add: get_uint_array_opt_def)

lemma parse_version_array_Some:
  "map_of m ''protocol_version'' = Some (make_version_array pv) \<Longrightarrow> parse_version_array m = Inr pv"
  by (simp add: parse_version_array_def get_required_Some make_version_array_def
      version_component_def)

lemmas getter_rules = get_required_Some get_uint_Some get_uint_opt_field get_text_Some
  get_text_opt_field get_bool_Some get_bytes_Some get_bytes_opt_field get_str_array_Some
  get_uint_array_opt_field parse_version_array_Some

lemmas bytes_to_defs = bytes_to_device_id_def bytes_to_transfer_id_def bytes_to_hash_def

text \<open>What a successful access says of the result.\<close>

lemma get_bytes_length: "get_bytes m key n = Inr b \<Longrightarrow> length b = n"
  by (cases "get_required m key"; cases "projr (get_required m key)")
    (auto simp: get_bytes_def split: if_splits)

lemma get_bytes_opt_length: "get_bytes_opt m key n = Inr (Some b) \<Longrightarrow> length b = n"
  by (cases "map_of m key"; cases "the (map_of m key)")
    (auto simp: get_bytes_opt_def split: if_splits)

text \<open>A well-formed map survives the conversion to a CBOR map and back.\<close>

lemma entries_to_map_text:
  "btree_wf (m @ m') \<Longrightarrow> entries_to_map (map (\<lambda>(k, v). (VText k, v)) m') m = Inr (m @ m')"
proof (induction m' arbitrary: m)
  case Nil
  then show ?case by simp
next
  case (Cons kv m')
  obtain k v where kv: "kv = (k, v)" by (cases kv)
  have "btree_insert k v m = m @ [(k, v)]"
    using Cons.prems kv by (intro btree_insert_last btree_wf_append_snoc) simp
  then show ?case using Cons.IH [of "m @ [(k, v)]"] Cons.prems kv by simp
qed

lemma to_cbor_map_map_to_value [simp]: "btree_wf m \<Longrightarrow> to_cbor_map (map_to_value m) = Inr m"
  using entries_to_map_text [of "[]" m] by (simp add: map_to_value_def)

section \<open>The nesting check\<close>

text \<open>
  \<open>nests_within n v\<close>: the value has no tag and at most \<open>n\<close> levels of arrays and maps under it
  that hold elements. The check accepts exactly the values that nest within the limit.
\<close>

fun nests_within :: "nat \<Rightarrow> Value \<Rightarrow> bool" where
  "nests_within n (VArray vs) = (\<forall>v\<in>set vs. 0 < n \<and> nests_within (n - 1) v)"
| "nests_within n (VMap es) = (\<forall>(k, v)\<in>set es. 0 < n \<and> nests_within (n - 1) k \<and> nests_within (n - 1) v)"
| "nests_within n (VTag t v) = False"
| "nests_within n v = True"

lemma check_nesting_iff:
  "check_nesting_depth v d = Inr () \<longleftrightarrow> d \<le> MAX_CBOR_NESTING \<and> nests_within (MAX_CBOR_NESTING - d) v"
  "d \<le> MAX_CBOR_NESTING \<Longrightarrow> check_nesting_entries es d = Inr () \<longleftrightarrow> nests_within (MAX_CBOR_NESTING - d) (VMap es)"
  "d \<le> MAX_CBOR_NESTING \<Longrightarrow> check_nesting_items vs d = Inr () \<longleftrightarrow> nests_within (MAX_CBOR_NESTING - d) (VArray vs)"
proof (induction v d and es d and vs d
    rule: check_nesting_depth_check_nesting_entries_check_nesting_items.induct)
  case (1 val depth)
  then show ?case by (cases val) (auto simp: check_nesting_depth.simps)
next
  case (3 k v entries depth)
  then show ?case by (auto simp: result_simps)
next
  case (5 item items depth)
  then show ?case by (auto simp: result_simps)
qed auto

lemma nests_within_mono: "nests_within n v \<Longrightarrow> n \<le> n' \<Longrightarrow> nests_within n' v"
proof (induction n v arbitrary: n' rule: nests_within.induct)
  case (1 n vs)
  then show ?case by (auto intro: diff_le_mono)
next
  case (2 n es)
  then show ?case by (fastforce intro: diff_le_mono)
qed auto

lemma nests_within_map_to_value:
  assumes "\<forall>kv\<in>set m. nests_within n (snd kv)"
  shows "nests_within (Suc n) (map_to_value m)"
  using assms by (auto simp: map_to_value_def)

lemma nests_within_btree_of:
  assumes "\<forall>kv\<in>set kvs. nests_within n (snd kv)"
  shows "nests_within (Suc n) (map_to_value (btree_of kvs))"
  using assms set_btree_of [of kvs] by (intro nests_within_map_to_value) blast

section \<open>Canonical messages\<close>

text \<open>
  The messages that the codec carries without loss: fixed arrays have their length, platforms and
  error codes are ones the decoder produces, a file entry of a manifest has its size and hash, the
  \<open>details\<close> of an error (dropped by the encoder) are absent, and a status that is not resumable
  lists no files.
\<close>

definition hash_opt_ok :: "bytes option \<Rightarrow> bool" where
  "hash_opt_ok h \<longleftrightarrow> (case h of None \<Rightarrow> True | Some b \<Rightarrow> length b = 32)"

definition canonical_entry :: "ManifestEntry \<Rightarrow> bool" where
  "canonical_entry e \<longleftrightarrow> hash_opt_ok (me_sha256 e) \<and>
     (me_entry_type e = File \<longrightarrow> me_size e \<noteq> None \<and> me_sha256 e \<noteq> None)"

fun canonical_msg :: "ControlMessage \<Rightarrow> bool" where
  "canonical_msg (Hello pv d n p c i) = (wf_device_id d \<and> canonical_platform p)"
| "canonical_msg (HelloAck pv d n p c i s) = (wf_device_id d \<and> canonical_platform p)"
| "canonical_msg (Error c m f details) = (canonical_error_code c \<and> details = None)"
| "canonical_msg (TransferRequest t tt d n s m) =
     (wf_transfer_id t \<and> length m \<le> MAX_MANIFEST_ENTRIES \<and> list_all canonical_entry m)"
| "canonical_msg (TransferAccept t) = wf_transfer_id t"
| "canonical_msg (TransferReject t r) = wf_transfer_id t"
| "canonical_msg (FileMetadata t f s p sz h mt mtime) = (wf_transfer_id t \<and> length h = 32)"
| "canonical_msg (FileMetadataAck t f s a) = wf_transfer_id t"
| "canonical_msg (TransferPause t) = wf_transfer_id t"
| "canonical_msg (TransferResume t) = wf_transfer_id t"
| "canonical_msg (TransferCancel t r) = wf_transfer_id t"
| "canonical_msg (TransferComplete t) = wf_transfer_id t"
| "canonical_msg (TransferAck t s ff) = wf_transfer_id t"
| "canonical_msg (ResumeQuery t ids) = wf_transfer_id t"
| "canonical_msg (ResumeStatus t r fs e) =
     (wf_transfer_id t \<and> (\<not> r \<longrightarrow> fs = None)
      \<and> (\<forall>f\<in>set (case fs of None \<Rightarrow> [] | Some l \<Rightarrow> l). hash_opt_ok (rfs_partial_sha256 f)))"
| "canonical_msg _ = True"

subsection \<open>Decoding an encoded message\<close>

lemma case_opt_Inr [simp]: "(case x of None \<Rightarrow> Inr None | Some y \<Rightarrow> Inr (Some y)) = Inr x"
  by (cases x) simp_all

lemma get_opt_field [simp]:
  "map_of m key = map_option VText x \<Longrightarrow> get_text_opt m key = Inr x"
  by (rule get_text_opt_field)

lemma map_add_apply [btree_simps]: "(m1 ++ m2) k = (case m2 k of None \<Rightarrow> m1 k | Some v \<Rightarrow> Some v)"
  by (simp add: map_add_def)

lemma case_option_None_Some [btree_simps]:
  "case_option None Some x = x" "case_option None (\<lambda>y. Some (f y)) z = map_option f z"
  "case_option None (Some \<circ> f) z = map_option f z"
  by (cases x; simp) (cases z; simp)+

lemmas lookup_defs = get_required_def get_uint_def get_text_def get_bool_def get_bytes_def
  uint_to_value_def


lemma decode_hello_encode:
  assumes "wf_device_id d" "canonical_platform p"
  shows "decode_control_map (encode_hello pv d n p c i) = Inr (Hello pv d n p c i)"
proof -
  have "platform_from_str_lossy (platform_as_str p) = p"
    using assms by (simp add: platform_roundtrip)
  moreover have "parse_version_array (encode_hello pv d n p c i) = Inr pv"
    by (rule parse_version_array_Some) (simp add: encode_hello_def btree_simps)
  moreover have "get_str_array (encode_hello pv d n p c i) ''capabilities'' = Inr c"
    by (rule get_str_array_Some) (simp add: encode_hello_def btree_simps)
  ultimately show ?thesis
    using assms
    by (simp add: decode_control_map_def decode_hello_def lookup_defs bytes_to_defs wf_device_id_def
      encode_hello_def btree_simps)
qed

lemma decode_hello_ack_encode:
  assumes "wf_device_id d" "canonical_platform p"
  shows "decode_control_map (encode_hello_ack pv d n p c i s) = Inr (HelloAck pv d n p c i s)"
proof -
  have "platform_from_str_lossy (platform_as_str p) = p"
    using assms by (simp add: platform_roundtrip)
  moreover have "parse_version_array (encode_hello_ack pv d n p c i s) = Inr pv"
    by (rule parse_version_array_Some) (simp add: encode_hello_ack_def btree_simps)
  moreover have "get_str_array (encode_hello_ack pv d n p c i s) ''capabilities'' = Inr c"
    by (rule get_str_array_Some) (simp add: encode_hello_ack_def btree_simps)
  ultimately show ?thesis
    using assms
    by (simp add: decode_control_map_def decode_hello_ack_def lookup_defs bytes_to_defs wf_device_id_def
      encode_hello_ack_def btree_simps)
qed

lemma decode_reason_encode:
  "decode_control_map (encode_reason 0x05 r) = Inr (PairReject r)"
  "decode_control_map (encode_reason 0x06 r) = Inr (SessionClose r)"
  by (simp_all add: decode_control_map_def lookup_defs encode_reason_def btree_simps)

lemma decode_error_encode:
  "canonical_error_code c \<Longrightarrow> decode_control_map (encode_error c m f) = Inr (Error c m f None)"
  using error_code_roundtrip [of c]
  by (cases m) (simp_all add: get_text_opt_def decode_control_map_def decode_error_def lookup_defs encode_error_def btree_simps)

lemma decode_transfer_id_encode:
  assumes "wf_transfer_id t"
  shows "decode_control_map (encode_transfer_id 0x11 t) = Inr (TransferAccept t)"
    "decode_control_map (encode_transfer_id 0x16 t) = Inr (TransferPause t)"
    "decode_control_map (encode_transfer_id 0x17 t) = Inr (TransferResume t)"
    "decode_control_map (encode_transfer_id 0x19 t) = Inr (TransferComplete t)"
  using assms
  by (simp_all add: decode_control_map_def decode_transfer_id_def lookup_defs bytes_to_defs
    wf_transfer_id_def encode_transfer_id_def btree_simps)

lemma decode_transfer_reason_encode:
  assumes "wf_transfer_id t"
  shows "decode_control_map (encode_transfer_reason 0x12 t r) = Inr (TransferReject t r)"
    "decode_control_map (encode_transfer_reason 0x18 t r) = Inr (TransferCancel t r)"
  using assms
  by (simp_all add: decode_control_map_def decode_transfer_id_def lookup_defs bytes_to_defs
    wf_transfer_id_def encode_transfer_reason_def btree_simps)

lemma decode_file_metadata_encode:
  assumes "wf_transfer_id t" "length h = 32"
  shows "decode_control_map (encode_file_metadata t f s p sz h mt mtime)
    = Inr (FileMetadata t f s p sz h mt mtime)"
proof -
  let ?m = "encode_file_metadata t f s p sz h mt mtime"
  have "get_text_opt ?m ''mime_type'' = Inr mt"
    by (rule get_text_opt_field, cases mt) (simp_all add: encode_file_metadata_def btree_simps)
  moreover have "get_uint_opt ?m ''modified_time'' = Inr mtime"
    by (rule get_uint_opt_field, cases mtime) (simp_all add: encode_file_metadata_def btree_simps)
  ultimately show ?thesis
    using assms
    by (simp add: decode_control_map_def decode_file_metadata_def lookup_defs bytes_to_defs
      wf_transfer_id_def encode_file_metadata_def btree_simps)
qed

lemma decode_file_metadata_ack_encode:
  "wf_transfer_id t \<Longrightarrow> decode_control_map (encode_file_metadata_ack t f s a)
    = Inr (FileMetadataAck t f s a)"
  by (simp add: decode_control_map_def decode_file_metadata_ack_def lookup_defs bytes_to_defs
    wf_transfer_id_def encode_file_metadata_ack_def btree_simps)

lemma decode_chunk_ack_encode:
  "decode_control_map (encode_chunk_ack s m off l) = Inr (ChunkAck s m off l)"
  by (simp add: decode_control_map_def decode_chunk_ack_def lookup_defs encode_chunk_ack_def
    btree_simps)

lemma decode_transfer_ack_encode:
  assumes "wf_transfer_id t"
  shows "decode_control_map (encode_transfer_ack t s ff) = Inr (TransferAck t s ff)"
proof -
  have "get_uint_array_opt (encode_transfer_ack t s ff) ''failed_files'' = Inr ff"
    by (rule get_uint_array_opt_field) (simp add: encode_transfer_ack_def btree_simps)
  then show ?thesis
    using assms
    by (cases s) (simp_all add: decode_control_map_def decode_transfer_ack_def lookup_defs
      bytes_to_defs wf_transfer_id_def decode_ack_status_def encode_transfer_ack_def btree_simps)
qed

lemma decode_resume_query_encode:
  assumes "wf_transfer_id t"
  shows "decode_control_map (encode_resume_query t ids) = Inr (ResumeQuery t ids)"
proof -
  have "get_uint_array_opt (encode_resume_query t ids) ''file_ids'' = Inr ids"
    by (rule get_uint_array_opt_field) (simp add: encode_resume_query_def btree_simps)
  then show ?thesis
    using assms
    by (simp add: decode_control_map_def decode_resume_query_def lookup_defs
      bytes_to_defs wf_transfer_id_def encode_resume_query_def btree_simps)
qed

lemma map_to_value_VMap: "\<exists>es. map_to_value m = VMap es \<and> entries_to_map es [] = to_cbor_map (map_to_value m)"
  by (simp add: map_to_value_def)

lemma entries_of_map_to_value [simp]:
  "btree_wf m \<Longrightarrow> entries_to_map (map (\<lambda>(k, v). (VText k, v)) m) [] = Inr m"
  using entries_to_map_text [of "[]" m] by simp

lemma decode_manifest_entry_encode:
  assumes "canonical_entry e"
  shows "decode_manifest_entry (encode_manifest_entry es e) = Inr e"
proof -
  obtain i p sz sha t where e: "e = \<lparr>me_file_id = i, me_relative_path = p, me_size = sz,
      me_sha256 = sha, me_entry_type = t\<rparr>" by (cases e)
  show ?thesis
    using assms unfolding e
    by (cases t; cases sz; cases sha)
      (simp_all add: canonical_entry_def hash_opt_ok_def encode_manifest_entry_def
        decode_manifest_entry_def map_to_value_def decode_entry_type_def decode_size_sha_def
        lookup_defs get_text_opt_def get_uint_opt_def get_bytes_opt_def bytes_to_defs btree_simps
        opt_field_def)
qed

lemma decode_transfer_request_encode:
  assumes "wf_transfer_id t" "length ms \<le> MAX_MANIFEST_ENTRIES" "list_all canonical_entry ms"
    and "encode_transfer_request t tt d n sz ms = Inr m"
  shows "decode_control_map m = Inr (TransferRequest t tt d n sz ms)"
proof -
  have "try_map decode_manifest_entry (map (encode_manifest_entry ms) ms) = Inr ms"
    using assms by (intro try_map_map_inverse decode_manifest_entry_encode) (simp add: list_all_iff)
  then show ?thesis
    using assms
    by (cases tt) (auto simp add: encode_transfer_request_def decode_control_map_def
      decode_transfer_request_def lookup_defs bytes_to_defs wf_transfer_id_def
      decode_transfer_type_def btree_simps)
qed

lemma decode_range_encode: "decode_range ((\<lambda>(off, l). VArray [uint_to_value off, uint_to_value l]) r) = Inr r"
  by (cases r) (simp add: decode_range_def range_component_def uint_to_value_def)

lemma decode_resume_file_encode:
  assumes "hash_opt_ok (rfs_partial_sha256 f)"
  shows "decode_resume_file (encode_resume_file f) = Inr f"
proof -
  obtain i b r h where f: "f = \<lparr>rfs_file_id = i, rfs_received_bytes = b, rfs_received_ranges = r,
      rfs_partial_sha256 = h\<rparr>" by (cases f)
  have r: "try_map decode_range (map (\<lambda>(off, l). VArray [uint_to_value off, uint_to_value l]) r) = Inr r"
    by (intro try_map_map_inverse decode_range_encode)
  show ?thesis
    using assms r unfolding f
    by (cases h) (simp_all add: hash_opt_ok_def encode_resume_file_def decode_resume_file_def
      map_to_value_def get_bytes_opt_def bytes_to_defs lookup_defs btree_simps opt_field_def)
qed

lemma decode_resume_status_encode:
  assumes "wf_transfer_id t" "\<not> r \<longrightarrow> fs = None"
    and "\<forall>f\<in>set (case fs of None \<Rightarrow> [] | Some l \<Rightarrow> l). hash_opt_ok (rfs_partial_sha256 f)"
  shows "decode_control_map (encode_resume_status t r fs e) = Inr (ResumeStatus t r fs e)"
proof -
  have e: "get_uint_opt (encode_resume_status t r fs e) ''expiry'' = Inr e"
    by (rule get_uint_opt_field) (simp add: encode_resume_status_def btree_simps)
  have "try_map decode_resume_file (map encode_resume_file l) = Inr l" if "fs = Some l" for l
    using assms(3) that by (intro try_map_map_inverse decode_resume_file_encode) simp
  then show ?thesis
    using assms e
    by (cases fs) (auto simp: decode_control_map_def decode_resume_status_def lookup_defs
      bytes_to_defs wf_transfer_id_def encode_resume_status_def btree_simps)
qed


lemma encode_to_map_canonical:
  "canonical_msg msg \<Longrightarrow> \<exists>m. encode_to_map msg = Inr m"
  by (cases msg) (auto simp: encode_transfer_request_def)

lemmas decode_encode_rules = decode_hello_encode decode_hello_ack_encode decode_reason_encode
  decode_error_encode decode_transfer_id_encode decode_transfer_reason_encode
  decode_file_metadata_encode decode_file_metadata_ack_encode decode_chunk_ack_encode
  decode_transfer_ack_encode decode_resume_query_encode decode_resume_status_encode

lemma decode_encode_map:
  assumes "canonical_msg msg" "encode_to_map msg = Inr m"
  shows "decode_control_map m = Inr msg"
proof (cases msg)
  case (TransferRequest t tt d n s ms)
  then show ?thesis using assms decode_transfer_request_encode by simp
next
  case (PairRequest s)
  then show ?thesis using assms
    by (auto simp: decode_control_map_def decode_pair_request_def lookup_defs btree_simps)
next
  case PairAccept
  then show ?thesis using assms by (auto simp: decode_control_map_def lookup_defs btree_simps)
qed (use assms decode_encode_rules in \<open>auto simp: decode_encode_rules\<close>)

lemma encode_to_map_wf: "encode_to_map msg = Inr m \<Longrightarrow> btree_wf m"
  by (cases msg) (auto simp: encode_hello_def encode_hello_ack_def encode_reason_def
    encode_error_def encode_transfer_request_def encode_transfer_id_def encode_transfer_reason_def
    encode_file_metadata_def encode_file_metadata_ack_def encode_chunk_ack_def
    encode_transfer_ack_def encode_resume_query_def encode_resume_status_def split: if_splits)

subsection \<open>The shape of encoded documents\<close>

text \<open>A plain value has no float and no tag; \<open>encodable n\<close> bounds its nesting as well.\<close>

fun plain_value :: "Value \<Rightarrow> bool" where
  "plain_value (VArray vs) = (\<forall>v\<in>set vs. plain_value v)"
| "plain_value (VMap es) = (\<forall>(k, v)\<in>set es. plain_value k \<and> plain_value v)"
| "plain_value (VTag t v) = False"
| "plain_value (VFloat f) = False"
| "plain_value v = True"

definition encodable :: "nat \<Rightarrow> Value \<Rightarrow> bool" where
  "encodable n v \<longleftrightarrow> nests_within n v \<and> plain_value v"

lemma encodable_simps [simp]:
  "encodable n (VInteger i)" "encodable n (VBytes b)" "encodable n (VText s)" "encodable n (VBool c)"
  "encodable n (uint_to_value w)"
  "encodable (Suc n) (VArray vs) \<longleftrightarrow> (\<forall>v\<in>set vs. encodable n v)"
  "encodable (Suc n) (VMap es) \<longleftrightarrow> (\<forall>(k, v)\<in>set es. encodable n k \<and> encodable n v)"
  by (auto simp: encodable_def uint_to_value_def)

lemma encodable_mono: "encodable n v \<Longrightarrow> n \<le> n' \<Longrightarrow> encodable n' v"
  by (auto simp: encodable_def nests_within_mono)

lemma encodable_btree_of:
  assumes "\<forall>kv\<in>set kvs. encodable n (snd kv)"
  shows "encodable (Suc n) (map_to_value (btree_of kvs))"
  using assms set_btree_of [of kvs] by (fastforce simp: map_to_value_def)

lemma encodable_opt_field:
  "kv \<in> set (opt_field k f x) \<Longrightarrow> (\<And>y. encodable n (f y)) \<Longrightarrow> encodable n (snd kv)"
  by (auto simp: set_opt_field)

lemma encodable_manifest_entry: "encodable 1 (encode_manifest_entry es e)"
  unfolding encode_manifest_entry_def One_nat_def
  by (rule encodable_btree_of)
    (auto intro: encodable_opt_field split: ManifestEntryType.splits)

lemma encodable_resume_file: "encodable 3 (encode_resume_file f)"
  unfolding encode_resume_file_def numeral_3_eq_3
  by (rule encodable_btree_of) (auto intro: encodable_opt_field)

lemma encode_to_map_encodable:
  assumes "encode_to_map msg = Inr m"
  shows "encodable 5 (map_to_value m)"
proof -
  have 1: "encodable 4 (encode_ids ids)" for ids
    by (simp add: encode_ids_def eval_nat_numeral)
  have 2: "encodable 4 (VArray (map (encode_manifest_entry es) es))" for es
    using encodable_mono [OF encodable_manifest_entry, of 3] by (simp add: eval_nat_numeral)
  have 3: "encodable 4 (VArray (map encode_resume_file fs))" for fs
    using encodable_resume_file by (simp add: eval_nat_numeral)
  have 4: "encodable 4 (make_version_array pv)" "encodable 4 (VArray (map VText ss))" for pv ss
    by (simp_all add: make_version_array_def eval_nat_numeral)
  have 5: "encodable 5 (map_to_value (btree_of kvs))" if "\<forall>kv\<in>set kvs. encodable 4 (snd kv)" for kvs
    using encodable_btree_of [OF that] by (simp add: eval_nat_numeral)
  show ?thesis
    using assms
    by (cases msg)
      (auto simp: encode_hello_def encode_hello_ack_def encode_reason_def
        encode_error_def encode_transfer_request_def encode_transfer_id_def encode_transfer_reason_def
        encode_file_metadata_def encode_file_metadata_ack_def encode_chunk_ack_def
        encode_transfer_ack_def encode_resume_query_def encode_resume_status_def 1 2 3 4
        set_opt_field intro!: 5 split: if_splits)
qed

subsection \<open>Decoded messages are canonical\<close>

lemma map_option_bytes_to_hash [simp]: "map_option bytes_to_hash x = x"
  by (cases x) (simp_all add: bytes_to_hash_def)

lemma decode_manifest_entry_canonical:
  assumes "decode_manifest_entry v = Inr e"
  shows "canonical_entry e"
proof -
  from assms obtain em where "decode_size_sha em (me_entry_type e) = Inr (me_size e, me_sha256 e)"
    by (auto simp: decode_manifest_entry_def result_simps)
  then show ?thesis
    by (cases "me_entry_type e"; cases "me_size e"; cases "me_sha256 e")
      (auto simp: decode_size_sha_def canonical_entry_def hash_opt_ok_def bytes_to_defs result_simps
        dest: get_bytes_length get_bytes_opt_length split: option.splits)
qed

lemma decode_resume_file_canonical:
  assumes "decode_resume_file v = Inr f"
  shows "hash_opt_ok (rfs_partial_sha256 f)"
proof -
  from assms obtain fm where "get_bytes_opt fm ''partial_sha256'' 32 = Inr (rfs_partial_sha256 f)"
    by (auto simp: decode_resume_file_def result_simps)
  then show ?thesis
    by (cases "rfs_partial_sha256 f") (auto simp: hash_opt_ok_def dest: get_bytes_opt_length)
qed

lemma decode_transfer_request_canonical:
  assumes "decode_transfer_request m = Inr msg"
  shows "canonical_msg msg"
proof -
  from assms obtain t tt d n s arr ms where
    t: "get_bytes m ''transfer_id'' 16 = Inr t" and arr: "length arr \<le> MAX_MANIFEST_ENTRIES"
    and ms: "try_map decode_manifest_entry arr = Inr ms"
    and msg: "msg = TransferRequest (TransferId t) tt d n s ms"
    by (auto simp: decode_transfer_request_def bytes_to_defs result_simps not_less split: if_splits)
  have "list_all canonical_entry ms"
    using try_map_Inr_set [OF ms] decode_manifest_entry_canonical by (fastforce simp: list_all_iff)
  then show ?thesis
    using get_bytes_length [OF t] arr try_map_Inr_length [OF ms] msg by (simp add: wf_transfer_id_def)
qed

lemma decode_resume_status_canonical:
  assumes "decode_resume_status m = Inr msg"
  shows "canonical_msg msg"
proof -
  from assms obtain t r fs e where
    t: "get_bytes m ''transfer_id'' 16 = Inr t"
    and fs: "(if r
               then (case map_of m ''files'' of
                       Some (VArray arr) \<Rightarrow>
                         and_then (try_map decode_resume_file arr) (\<lambda>result. Inr (Some result))
                     | _ \<Rightarrow> Inr None)
               else Inr None) = (Inr fs :: CodecError + ResumeFileStatus list option)"
    and msg: "msg = ResumeStatus (TransferId t) r fs e"
    by (simp only: decode_resume_status_def bytes_to_defs result_simps) blast
  have "hash_opt_ok (rfs_partial_sha256 f)" if "fs = Some l" "f \<in> set l" for f l
  proof -
    from fs that obtain arr where "try_map decode_resume_file arr = Inr l"
      by (auto simp: result_simps split: if_splits option.splits Value.splits)
    then show ?thesis using that try_map_Inr_set decode_resume_file_canonical by metis
  qed
  moreover have "\<not> r \<longrightarrow> fs = None" using fs by auto
  ultimately show ?thesis
    using get_bytes_length [OF t] msg by (auto simp: wf_transfer_id_def split: option.splits)
qed

lemma decode_transfer_id_wf: "decode_transfer_id m = Inr t \<Longrightarrow> wf_transfer_id t"
  by (auto simp: decode_transfer_id_def bytes_to_defs wf_transfer_id_def result_simps
    dest: get_bytes_length)

lemma decode_hello_canonical: "decode_hello m = Inr msg \<Longrightarrow> canonical_msg msg"
  "decode_hello_ack m = Inr msg \<Longrightarrow> canonical_msg msg"
  by (auto simp: decode_hello_def decode_hello_ack_def bytes_to_defs wf_device_id_def result_simps
    platform_from_str_canonical dest: get_bytes_length)

lemma decode_file_canonical: "decode_file_metadata m = Inr msg \<Longrightarrow> canonical_msg msg"
  "decode_file_metadata_ack m = Inr msg \<Longrightarrow> canonical_msg msg"
  "decode_transfer_ack m = Inr msg \<Longrightarrow> canonical_msg msg"
  "decode_resume_query m = Inr msg \<Longrightarrow> canonical_msg msg"
  by (auto simp: decode_file_metadata_def decode_file_metadata_ack_def decode_transfer_ack_def
    decode_resume_query_def bytes_to_defs wf_transfer_id_def result_simps dest: get_bytes_length)

lemma decode_error_canonical: "decode_error m = Inr msg \<Longrightarrow> canonical_msg msg"
  "decode_pair_request m = Inr msg \<Longrightarrow> canonical_msg msg"
  "decode_chunk_ack m = Inr msg \<Longrightarrow> canonical_msg msg"
  by (auto simp: decode_error_def decode_pair_request_def decode_chunk_ack_def result_simps
    error_code_from_wire_canonical)

lemmas decode_canonical_rules = decode_hello_canonical decode_file_canonical decode_error_canonical
  decode_transfer_request_canonical decode_resume_status_canonical

lemma decode_control_map_canonical:
  assumes "decode_control_map m = Inr msg"
  shows "canonical_msg msg"
proof -
  from assms obtain code where "get_uint m ''type'' = Inr code"
    by (auto simp: decode_control_map_def result_simps)
  with assms show ?thesis
    by (auto simp: decode_control_map_def and_then_Inr_iff dest: decode_transfer_id_wf
        split: if_split_asm elim: decode_canonical_rules)
qed

lemma entries_to_map_keys:
  "entries_to_map es m = Inr m' \<Longrightarrow> \<forall>(k, x)\<in>set es. \<exists>s. k = VText s"
  by (induction es m rule: entries_to_map.induct) (auto split: Value.splits)

section \<open>The CBOR library as an interface\<close>

text \<open>
  What the codec relies on: a plain document that the writer accepts is read back as it was.
  Inside the locale, the round trips of the codec on the wire.
\<close>

locale cbor_library =
  fixes from_reader :: "bytes \<Rightarrow> string + Value"
    and into_writer :: "Value \<Rightarrow> string + bytes"
  assumes read_written: "plain_value v \<Longrightarrow> into_writer v = Inr bs \<Longrightarrow> from_reader bs = Inr v"
begin

lemma decode_written_map:
  assumes "encode_to_map msg = Inr m" "into_writer (map_to_value m) = Inr bs"
  shows "decode_control from_reader bs = decode_control_map m"
proof -
  have enc: "encodable 5 (map_to_value m)" and wf: "btree_wf m"
    using assms encode_to_map_encodable encode_to_map_wf by blast+
  have "check_nesting_depth (map_to_value m) 0 = Inr ()"
    using enc nests_within_mono [of 5 "map_to_value m" 6]
    by (simp add: check_nesting_iff encodable_def MAX_CBOR_NESTING_def)
  moreover have "from_reader bs = Inr (map_to_value m)"
    using enc assms read_written by (simp add: encodable_def)
  ultimately show ?thesis using wf by (simp add: decode_control_def)
qed

lemma decode_encode_wire:
  assumes "canonical_msg msg" "encode_control into_writer msg = Inr bs"
  shows "decode_control from_reader bs = Inr msg"
proof -
  from assms obtain m where m: "encode_to_map msg = Inr m" "into_writer (map_to_value m) = Inr bs"
    by (auto simp: encode_control_def result_simps split: if_splits)
  then show ?thesis using decode_written_map decode_encode_map assms(1) by simp
qed

lemma decode_reencode_wire:
  assumes "decode_control from_reader p = Inr msg" "encode_control into_writer msg = Inr bs"
  shows "decode_control from_reader bs = Inr msg"
proof -
  from assms(1) obtain m where "decode_control_map m = Inr msg"
    by (auto simp: decode_control_def result_simps)
  then show ?thesis using assms(2) by (intro decode_encode_wire decode_control_map_canonical)
qed

lemma encode_injective:
  assumes "canonical_msg a" "canonical_msg b"
    and "encode_control into_writer a = Inr bs" "encode_control into_writer b = Inr bs"
  shows "a = b"
  using decode_encode_wire [OF assms(1,3)] decode_encode_wire [OF assms(2,4)] by simp

end

end
