(* ===== verification/Nxfr_Cbor_Ref.thy ===== *)
theory Nxfr_Cbor_Ref
  imports Nxfr_Codec
begin

text \<open>
  A concrete CBOR reader and writer (RFC 8949: definite lengths, shortest-form heads, 64-bit
  floats) that satisfies the interface \<open>cbor_library\<close>. It is not a model of ciborium, whose
  sources are not in the repository: it shows that the interface can be met and gives the codec
  something to run on. The wire-level properties of the control codec follow it.
\<close>

section \<open>Heads\<close>

definition cbor_head :: "nat \<Rightarrow> nat \<Rightarrow> bytes option" where
  "cbor_head mt n =
     (if n < 24 then Some [of_nat (mt * 32 + n)]
      else if n < 2 ^ 8 then Some (of_nat (mt * 32 + 24) # nat_to_be 1 n)
      else if n < 2 ^ 16 then Some (of_nat (mt * 32 + 25) # nat_to_be 2 n)
      else if n < 2 ^ 32 then Some (of_nat (mt * 32 + 26) # nat_to_be 4 n)
      else if n < 2 ^ 64 then Some (of_nat (mt * 32 + 27) # nat_to_be 8 n)
      else None)"

definition read_be :: "nat \<Rightarrow> bytes \<Rightarrow> (nat \<times> bytes) option" where
  "read_be k bs = (if length bs < k then None else Some (be_to_nat (take k bs), drop k bs))"

definition read_argument :: "nat \<Rightarrow> bytes \<Rightarrow> (nat \<times> bytes) option" where
  "read_argument info bs =
     (if info < 24 then Some (info, bs)
      else if info = 24 then read_be 1 bs
      else if info = 25 then read_be 2 bs
      else if info = 26 then read_be 4 bs
      else if info = 27 then read_be 8 bs
      else None)"

fun read_head :: "bytes \<Rightarrow> (nat \<times> nat \<times> nat \<times> bytes) option" where
  "read_head [] = None"
| "read_head (b # bs) =
     map_option (\<lambda>(n, rest). (unat b div 32, unat b mod 32, n, rest)) (read_argument (unat b mod 32) bs)"

section \<open>Values\<close>

definition text_bytes :: "string \<Rightarrow> bytes" where
  "text_bytes s = map (\<lambda>c. of_nat (of_char c)) s"

definition bytes_text :: "bytes \<Rightarrow> string" where
  "bytes_text bs = map (\<lambda>b. char_of (unat b)) bs"

text \<open>Concatenation of optional pieces: absent as soon as one piece is.\<close>

fun opt_append :: "bytes option \<Rightarrow> bytes option \<Rightarrow> bytes option" where
  "opt_append (Some a) (Some b) = Some (a @ b)"
| "opt_append _ _ = None"

function cbor_write :: "Value \<Rightarrow> bytes option"
  and cbor_write_all :: "Value list \<Rightarrow> bytes option"
  and cbor_write_entries :: "(Value \<times> Value) list \<Rightarrow> bytes option" where
  "cbor_write (VInteger i) = (if 0 \<le> i then cbor_head 0 (nat i) else cbor_head 1 (nat (-1 - i)))"
| "cbor_write (VBytes b) = opt_append (cbor_head 2 (length b)) (Some b)"
| "cbor_write (VText s) = opt_append (cbor_head 3 (length s)) (Some (text_bytes s))"
| "cbor_write (VArray vs) = opt_append (cbor_head 4 (length vs)) (cbor_write_all vs)"
| "cbor_write (VMap es) = opt_append (cbor_head 5 (length es)) (cbor_write_entries es)"
| "cbor_write (VTag t v) = opt_append (cbor_head 6 t) (cbor_write v)"
| "cbor_write (VBool b) = Some [if b then 0xF5 else 0xF4]"
| "cbor_write VNull = Some [0xF6]"
| "cbor_write (VFloat f) = Some (0xFB # u64_to_be_bytes f)"
| "cbor_write_all [] = Some []"
| "cbor_write_all (v # vs) = opt_append (cbor_write v) (cbor_write_all vs)"
| "cbor_write_entries [] = Some []"
| "cbor_write_entries ((k, v) # es) =
     opt_append (opt_append (cbor_write k) (cbor_write v)) (cbor_write_entries es)"
  by pat_completeness auto
termination
  by (relation "measure (\<lambda>x. case x of Inl v \<Rightarrow> size v
        | Inr (Inl vs) \<Rightarrow> size_list size vs
        | Inr (Inr es) \<Rightarrow> size_list (size_prod size size) es)") auto

fun repeat_read :: "nat \<Rightarrow> (bytes \<Rightarrow> ('a \<times> bytes) option) \<Rightarrow> bytes \<Rightarrow> ('a list \<times> bytes) option" where
  "repeat_read 0 p bs = Some ([], bs)"
| "repeat_read (Suc n) p bs =
     (case p bs of
        None \<Rightarrow> None
      | Some (x, rest) \<Rightarrow> map_option (\<lambda>(xs, rest'). (x # xs, rest')) (repeat_read n p rest))"

definition read_pair :: "(bytes \<Rightarrow> ('a \<times> bytes) option) \<Rightarrow> bytes \<Rightarrow> (('a \<times> 'a) \<times> bytes) option" where
  "read_pair p bs =
     (case p bs of
        None \<Rightarrow> None
      | Some (k, rest) \<Rightarrow> map_option (\<lambda>(v, rest'). ((k, v), rest')) (p rest))"

definition read_simple :: "nat \<Rightarrow> nat \<Rightarrow> bytes \<Rightarrow> (Value \<times> bytes) option" where
  "read_simple info n rest =
     (if info = 20 then Some (VBool False, rest)
      else if info = 21 then Some (VBool True, rest)
      else if info = 22 then Some (VNull, rest)
      else if info = 27 then Some (VFloat (of_nat n), rest)
      else None)"

text \<open>The first argument bounds the nesting of what is read.\<close>

fun cbor_read :: "nat \<Rightarrow> bytes \<Rightarrow> (Value \<times> bytes) option" where
  "cbor_read 0 bs = None"
| "cbor_read (Suc d) bs =
     (case read_head bs of
        None \<Rightarrow> None
      | Some (mt, info, n, rest) \<Rightarrow>
          if mt = 0 then Some (VInteger (int n), rest)
          else if mt = 1 then Some (VInteger (-1 - int n), rest)
          else if mt = 2 then
            (if length rest < n then None else Some (VBytes (take n rest), drop n rest))
          else if mt = 3 then
            (if length rest < n then None else Some (VText (bytes_text (take n rest)), drop n rest))
          else if mt = 4 then
            map_option (\<lambda>(vs, rest'). (VArray vs, rest')) (repeat_read n (cbor_read d) rest)
          else if mt = 5 then
            map_option (\<lambda>(es, rest'). (VMap es, rest')) (repeat_read n (read_pair (cbor_read d)) rest)
          else if mt = 6 then
            map_option (\<lambda>(v, rest'). (VTag n v, rest')) (cbor_read d rest)
          else read_simple info n rest)"

definition ref_into_writer :: "Value \<Rightarrow> string + bytes" where
  "ref_into_writer v = ok_or ''value out of range'' (cbor_write v)"

definition ref_from_reader :: "bytes \<Rightarrow> string + Value" where
  "ref_from_reader bs = ok_or ''malformed document'' (map_option fst (cbor_read (Suc (length bs)) bs))"

section \<open>Round trip\<close>

lemma bytes_text_text_bytes [simp]: "bytes_text (text_bytes s) = s"
proof -
  have "char_of (unat (of_nat (of_char c) :: u8)) = c" for c
    using unat_of_nat_u8 [of "of_char c"] by (simp del: of_nat_of_char)
  then show ?thesis by (simp add: bytes_text_def text_bytes_def comp_def del: of_nat_of_char)
qed

lemma length_text_bytes [simp]: "length (text_bytes s) = length s"
  by (simp add: text_bytes_def)

lemma opt_append_Some: "opt_append x y = Some w \<longleftrightarrow> (\<exists>a b. x = Some a \<and> y = Some b \<and> w = a @ b)"
  by (cases x; cases y) auto

lemma read_be_append: "read_be k (nat_to_be k n @ r) = Some (n mod 256 ^ k, r)"
  by (simp add: read_be_def be_to_nat_nat_to_be)

lemma read_head_info:
  assumes "mt < 8" "info < 32"
  shows "read_head (of_nat (mt * 32 + info) # bs) = map_option (\<lambda>(n, rest). (mt, info, n, rest)) (read_argument info bs)"
proof -
  have "unat (of_nat (mt * 32 + info) :: u8) = mt * 32 + info"
    using assms unat_of_nat_u8 [of "mt * 32 + info"] by simp
  then show ?thesis using assms by (simp del: of_nat_add of_nat_mult)
qed

lemma read_head_write:
  assumes "cbor_head mt n = Some h" "mt < 7"
  shows "\<exists>info. read_head (h @ r) = Some (mt, info, n, r)"
proof -
  have small: "read_argument n r = Some (n, r)" if "n < 24" using that by (simp add: read_argument_def)
  have "mt < 8" using assms by simp
  note hd = read_head_info [OF this]
  show ?thesis
    using assms(1)
    by (auto simp: cbor_head_def hd small read_argument_def read_be_append
        simp del: read_head.simps of_nat_add of_nat_mult nat_to_be.simps split: if_splits)
qed

lemma cbor_head_nonempty: "cbor_head mt n = Some h \<Longrightarrow> 0 < length h"
  by (auto simp: cbor_head_def split: if_splits)

lemma cbor_read_head:
  assumes "cbor_head mt n = Some h" "mt < 7"
  obtains info where "read_head (h @ r) = Some (mt, info, n, r)"
  using read_head_write [OF assms] by blast

lemma cbor_read_write:
  "cbor_write v = Some w \<Longrightarrow> length w \<le> d \<Longrightarrow> cbor_read d (w @ r) = Some (v, r)"
  "cbor_write_all vs = Some w \<Longrightarrow> length w \<le> d \<Longrightarrow>
     repeat_read (length vs) (cbor_read d) (w @ r) = Some (vs, r)"
  "cbor_write_entries es = Some w \<Longrightarrow> length w \<le> d \<Longrightarrow>
     repeat_read (length es) (read_pair (cbor_read d)) (w @ r) = Some (es, r)"
proof (induction v and vs and es arbitrary: w d r and w d r and w d r
    rule: cbor_write_cbor_write_all_cbor_write_entries.induct)
  case (1 i)
  then obtain d' where d: "d = Suc d'"
    by (cases d) (auto dest: cbor_head_nonempty split: if_splits)
  show ?case
  proof (cases "0 \<le> i")
    case True
    with 1 have "cbor_head 0 (nat i) = Some w" by simp
    then show ?thesis using True d by (auto elim: cbor_read_head [of _ _ _ r])
  next
    case False
    with 1 have "cbor_head 1 (nat (-1 - i)) = Some w" by simp
    then show ?thesis using False d by (auto elim: cbor_read_head [of _ _ _ r])
  qed
next
  case (2 b)
  then obtain h where h: "cbor_head 2 (length b) = Some h" "w = h @ b"
    by (auto simp: opt_append_Some)
  moreover obtain d' where "d = Suc d'"
    using h 2 cbor_head_nonempty [OF h(1)] by (cases d; cases h) auto
  ultimately show ?case by (auto elim: cbor_read_head [of _ _ _ "b @ r"])
next
  case (3 s)
  then obtain h where h: "cbor_head 3 (length s) = Some h" "w = h @ text_bytes s"
    by (auto simp: opt_append_Some)
  moreover obtain d' where "d = Suc d'"
    using h 3 cbor_head_nonempty [OF h(1)] by (cases d; cases h) auto
  ultimately show ?case by (auto elim: cbor_read_head [of _ _ _ "text_bytes s @ r"])
next
  case (4 vs)
  then obtain h b where h: "cbor_head 4 (length vs) = Some h" "w = h @ b" "cbor_write_all vs = Some b"
    by (auto simp: opt_append_Some)
  moreover obtain d' where "d = Suc d'" "length b \<le> d'"
    using h 4 cbor_head_nonempty [OF h(1)] by (cases d; cases h) auto
  ultimately show ?case using "4.IH" by (auto elim: cbor_read_head [of _ _ _ "b @ r"])
next
  case (5 es)
  then obtain h b where h: "cbor_head 5 (length es) = Some h" "w = h @ b" "cbor_write_entries es = Some b"
    by (auto simp: opt_append_Some)
  moreover obtain d' where "d = Suc d'" "length b \<le> d'"
    using h 5 cbor_head_nonempty [OF h(1)] by (cases d; cases h) auto
  ultimately show ?case using "5.IH" by (auto elim: cbor_read_head [of _ _ _ "b @ r"])
next
  case (6 t v)
  then obtain h b where h: "cbor_head 6 t = Some h" "w = h @ b" "cbor_write v = Some b"
    by (auto simp: opt_append_Some)
  moreover obtain d' where "d = Suc d'" "length b \<le> d'"
    using h 6 cbor_head_nonempty [OF h(1)] by (cases d; cases h) auto
  ultimately show ?case using "6.IH" by (auto elim: cbor_read_head [of _ _ _ "b @ r"])
next
  case (7 b)
  then show ?case by (cases d) (auto simp: read_argument_def read_simple_def)
next
  case 8
  then show ?case by (cases d) (auto simp: read_argument_def read_simple_def)
next
  case (9 f)
  have "of_nat (unat f mod 256 ^ 8) = f" using unsigned_less [of f, where ?'a = nat] by simp
  with 9 show ?case
    by (cases d) (auto simp: read_argument_def read_simple_def u64_to_be_bytes_def read_be_append
        simp del: nat_to_be.simps)
next
  case (11 v vs)
  then obtain a b where "cbor_write v = Some a" "cbor_write_all vs = Some b" "w = a @ b"
    by (auto simp: opt_append_Some)
  with 11 show ?case by simp
next
  case (13 k v es)
  then obtain a b c where "cbor_write k = Some a" "cbor_write v = Some b"
    "cbor_write_entries es = Some c" "w = a @ b @ c"
    by (auto simp: opt_append_Some)
  with 13 show ?case by (simp add: read_pair_def)
qed simp_all

interpretation ref_cbor: cbor_library ref_from_reader ref_into_writer
proof unfold_locales
  fix v bs
  assume "ref_into_writer v = Inr bs"
  then show "ref_from_reader bs = Inr v"
    using cbor_read_write(1) [of v bs "Suc (length bs)" "[]"]
    by (simp add: ref_into_writer_def ref_from_reader_def result_simps del: cbor_read.simps)
qed

text \<open>The reference writer has an encoding for every 64-bit integer and every acknowledgement.\<close>

lemma cbor_head_total: "n < 2 ^ 64 \<Longrightarrow> \<exists>h. cbor_head mt n = Some h \<and> length h \<le> 9"
  by (auto simp: cbor_head_def)

lemma cbor_write_uint: "\<exists>b. cbor_write (uint_to_value (w :: u64)) = Some b \<and> length b \<le> 9"
proof -
  have "nat (uint w) < 2 ^ 64" using unsigned_less [of w, where ?'a = nat] by simp
  then show ?thesis using cbor_head_total [of "nat (uint w)" 0] by (simp add: uint_to_value_def)
qed

lemma ref_ack_encodes: "\<exists>bs. encode_control ref_into_writer (ChunkAck s m off l) = Inr bs"
proof -
  obtain a b c d where
    w: "cbor_write (uint_to_value (ucast s :: u64)) = Some a" "cbor_write (uint_to_value m) = Some b"
      "cbor_write (uint_to_value off) = Some c" "cbor_write (uint_to_value l) = Some d"
    and len: "length a \<le> 9" "length b \<le> 9" "length c \<le> 9" "length d \<le> 9"
    using cbor_write_uint [of "ucast s"] cbor_write_uint [of m] cbor_write_uint [of off]
      cbor_write_uint [of l] by blast
  have t: "cbor_write (uint_to_value 0x15) = Some [0x15]"
    by (simp add: uint_to_value_def cbor_head_def)
  show ?thesis
    using w len t
    by (simp add: encode_control_def encode_chunk_ack_def btree_of_def map_to_value_def
        ref_into_writer_def cbor_head_def text_bytes_def limit_defs)
qed

section \<open>Properties of the control codec\<close>

text \<open>
  C4 Whatever CBOR library meets the interface: a canonical control message that the encoder
  accepts is decoded from its bytes to the same message, for all twenty message types.
\<close>

theorem control_message_roundtrip:
  assumes "cbor_library from_reader into_writer"
    and "canonical_msg msg" "encode_control into_writer msg = Inr bs"
  shows "decode_control from_reader bs = Inr msg"
  using cbor_library.decode_encode_wire [OF assms] .

lemmas write_eval = encode_control_def btree_of_def opt_field_def map_to_value_def
  ref_into_writer_def cbor_head_def uint_to_value_def text_bytes_def

theorem control_message_roundtrip_witness:
  "\<exists>bs. decode_control ref_from_reader bs = Inr
     (TransferRequest (TransferId (replicate 16 7)) Files ''a.txt'' 1 5
       [\<lparr>me_file_id = 0, me_relative_path = ''a.txt'', me_size = Some 5,
          me_sha256 = Some (replicate 32 9), me_entry_type = File\<rparr>])"
proof -
  let ?msg = "TransferRequest (TransferId (replicate 16 7)) Files ''a.txt'' 1 5
       [\<lparr>me_file_id = 0, me_relative_path = ''a.txt'', me_size = Some 5,
          me_sha256 = Some (replicate 32 9), me_entry_type = File\<rparr>]"
  have "\<exists>bs. encode_control ref_into_writer ?msg = Inr bs"
    by (simp add: write_eval encode_transfer_request_def encode_manifest_entry_def limit_defs)
  then obtain bs where "encode_control ref_into_writer ?msg = Inr bs" by blast
  moreover have "canonical_msg ?msg"
    by (simp add: wf_transfer_id_def canonical_entry_def hash_opt_ok_def limit_defs)
  ultimately show ?thesis
    using control_message_roundtrip [OF ref_cbor.cbor_library_axioms] by blast
qed

text \<open>
  Decoding is stable: a message that came out of the decoder, re-encoded, decodes to itself
  again. Whatever bytes a peer sent, the decoder normalises them once.
\<close>

theorem control_decode_stable:
  assumes "cbor_library from_reader into_writer"
    and "decode_control from_reader payload = Inr msg"
  shows "canonical_msg msg \<and>
    (encode_control into_writer msg = Inr bs \<longrightarrow> decode_control from_reader bs = Inr msg)"
  using assms cbor_library.decode_reencode_wire [OF assms] decode_control_map_canonical
  by (auto simp: decode_control_def result_simps)

theorem control_decode_stable_witness:
  "\<exists>bs. encode_control ref_into_writer PairAccept = Inr bs \<and>
     decode_control ref_from_reader bs = Inr PairAccept"
proof -
  have "\<exists>bs. encode_control ref_into_writer PairAccept = Inr bs"
    by (simp add: write_eval limit_defs)
  then obtain bs where bs: "encode_control ref_into_writer PairAccept = Inr bs" by blast
  then have "decode_control ref_from_reader bs = Inr PairAccept"
    by (intro ref_cbor.decode_encode_wire) simp_all
  then show ?thesis
    using control_decode_stable [OF ref_cbor.cbor_library_axioms] bs by blast
qed

text \<open>
  Distinct canonical messages have distinct encodings: no two messages can be confused on the
  wire.
\<close>

theorem control_encoding_injective:
  assumes "cbor_library from_reader into_writer" "canonical_msg a" "canonical_msg b"
    and "encode_control into_writer a = Inr bs" "encode_control into_writer b = Inr bs"
  shows "a = b"
  using cbor_library.encode_injective [OF assms] .

theorem control_encoding_injective_witness:
  "encode_control ref_into_writer PairAccept \<noteq> encode_control ref_into_writer (PairReject None)"
proof
  assume eq: "encode_control ref_into_writer PairAccept = encode_control ref_into_writer (PairReject None)"
  have "\<exists>bs. encode_control ref_into_writer PairAccept = Inr bs"
    by (simp add: write_eval limit_defs)
  then show False
    using control_encoding_injective [OF ref_cbor.cbor_library_axioms, of PairAccept "PairReject None"] eq
    by auto
qed

text \<open>
  Encoding fails for three reasons only: a manifest of more than 500 entries, an error of the
  CBOR writer, or a document of more than 65536 bytes; so an encoded message always fits a control
  frame.
\<close>

theorem encode_control_outcomes:
  "case encode_control into_writer msg of
     Inr bs \<Rightarrow> length bs \<le> 65536 \<and>
       (\<exists>m. encode_to_map msg = Inr m \<and> into_writer (map_to_value m) = Inr bs)
   | Inl e \<Rightarrow>
       (\<exists>t tt d n s ms. msg = TransferRequest t tt d n s ms \<and> 500 < length ms
          \<and> e = ManifestTooLarge (length ms))
     \<or> (\<exists>m err. encode_to_map msg = Inr m \<and> into_writer (map_to_value m) = Inl err
          \<and> e = CborEncode err)
     \<or> (\<exists>m bs. encode_to_map msg = Inr m \<and> into_writer (map_to_value m) = Inr bs
          \<and> 65536 < length bs \<and> e = EncodedTooLarge)"
proof (cases "encode_to_map msg")
  case (Inl e)
  then show ?thesis
    by (cases msg) (auto simp: encode_control_def encode_transfer_request_def limit_defs
        split: if_splits)
next
  case (Inr m)
  then show ?thesis
    by (cases "into_writer (map_to_value m)") (auto simp: encode_control_def limit_defs)
qed

text \<open>
  C7 The structural guard of the decoder: a document is refused before any field of it is read
  unless it has no CBOR tag and at most six levels of arrays and maps around a leaf; the outermost
  value must be a map with text keys.
\<close>

theorem decode_structural_guard:
  assumes "from_reader payload = Inr v" "decode_control from_reader payload = Inr msg"
  shows "nests_within 6 v \<and>
    (\<exists>entries. v = VMap entries \<and> (\<forall>(k, x)\<in>set entries. \<exists>s. k = VText s))"
proof
  obtain m where check: "check_nesting_depth v 0 = Inr ()" and m: "to_cbor_map v = Inr m"
    using assms by (auto simp: decode_control_def result_simps)
  show "nests_within 6 v" using check by (simp add: check_nesting_iff MAX_CBOR_NESTING_def)
  show "\<exists>entries. v = VMap entries \<and> (\<forall>(k, x)\<in>set entries. \<exists>s. k = VText s)"
    using m entries_to_map_keys by (cases v) auto
qed

theorem decode_structural_guard_witness:
  "nests_within 6 (VMap [(VText ''type'', VInteger 4)]) \<and>
   decode_control (\<lambda>_. Inr (VMap [(VText ''type'', VTag 1 (VInteger 4))])) [] \<noteq> Inr PairAccept"
proof -
  have "decode_control (\<lambda>_. Inr (VMap [(VText ''type'', VInteger 4)])) [] = Inr PairAccept"
    by (simp add: decode_control_def check_nesting_depth.simps limit_defs decode_control_map_def
        get_uint_def get_required_def)
  from decode_structural_guard [OF _ this, of "VMap [(VText ''type'', VInteger 4)]"]
  have "nests_within 6 (VMap [(VText ''type'', VInteger 4)])" by simp
  moreover have "\<not> nests_within 6 (VMap [(VText ''type'', VTag 1 (VInteger 4))])" by simp
  ultimately show ?thesis
    using decode_structural_guard [of "\<lambda>_. Inr (VMap [(VText ''type'', VTag 1 (VInteger 4))])" "[]"]
    by blast
qed

end
