(* ===== verification/Nxfr_Resume.thy ===== *)
theory Nxfr_Resume
  imports Nxfr_Files Nxfr_Cbor_Ref
begin

text \<open>
  The resume journal, \<open>nxfr-storage/src/resume.rs\<close>: one JSON file per transfer, replaced through a
  temporary file and a rename. Printing and parsing JSON (\<open>serde_json\<close>, with the UTF-8 check of
  \<open>read_to_string\<close>) are the parameters \<open>to_vec\<close> and \<open>from_str\<close>; the locale \<open>resume_json\<close> states that
  parsing inverts printing up to the order of the entries of the hash map. Transfer ids are single
  path components (hex strings).
\<close>

section \<open>Data\<close>

datatype ResumeError = ResumeIo string | ResumeJson string

record ResumeManifestEntry =
  rme_file_id :: u32
  rme_relative_path :: string
  rme_size :: u64
  rme_sha256 :: string

record ResumeFileState =
  fst_received_bytes :: u64
  fst_received_ranges :: "(u64 \<times> u64) list"
  fst_partial_sha256 :: "string option"
  fst_dest_path :: string

text \<open>The hash map of files is the list of its entries, in the order of its iterator.\<close>

record ResumeState =
  rs_transfer_id :: string
  rs_peer_device_id :: string
  rs_display_name :: string
  rs_manifest :: "ResumeManifestEntry list"
  rs_files :: "(u32 \<times> ResumeFileState) list"
  rs_created_at :: i64
  rs_expires_at :: i64
  rs_version :: u32

section \<open>Operations\<close>

definition journal_path :: "abspath \<Rightarrow> string \<Rightarrow> abspath" where
  "journal_path base_dir transfer_id = base_dir @ [transfer_id @ ''.json'']"

definition journal_tmp_path :: "abspath \<Rightarrow> string \<Rightarrow> abspath" where
  "journal_tmp_path base_dir transfer_id =
     base_dir @ [set_extension (transfer_id @ ''.json'') ''json.tmp'']"

text \<open>\<open>ResumeJournal::new\<close> creates the directory and ignores a failure.\<close>

definition journal_new :: "abspath \<Rightarrow> world \<Rightarrow> world" where
  "journal_new base_dir w =
     (case take_fault w of
        (Some _, w') \<Rightarrow> w'
      | (None, w') \<Rightarrow> w'\<lparr>dirs := dirs w' @ filter (\<lambda>d. d \<notin> set (dirs w')) (prefixes base_dir)\<rparr>)"

definition journal_save :: "(ResumeState \<Rightarrow> string + bytes) \<Rightarrow> abspath \<Rightarrow> ResumeState \<Rightarrow> world
    \<Rightarrow> (ResumeError + unit) \<times> world" where
  "journal_save to_vec base_dir state w =
     (let final_path = journal_path base_dir (rs_transfer_id state);
          tmp_path = journal_tmp_path base_dir (rs_transfer_id state)
      in io_then (io_map_err ResumeIo (fs_create tmp_path w)) (\<lambda>_ w.
           io_then (map_err ResumeJson (to_vec state), w) (\<lambda>json w.
           io_then (io_map_err ResumeIo (fs_write_all tmp_path json w)) (\<lambda>_ w.
           io_then (io_map_err ResumeIo (fs_sync_all tmp_path w)) (\<lambda>_ w.
             io_map_err ResumeIo (fs_rename tmp_path final_path w))))))"

definition journal_load :: "(bytes \<Rightarrow> ResumeError + ResumeState) \<Rightarrow> abspath \<Rightarrow> string \<Rightarrow> world
    \<Rightarrow> (ResumeError + ResumeState option) \<times> world" where
  "journal_load from_str base_dir transfer_id w =
     (let path = journal_path base_dir transfer_id
      in if \<not> fs_exists path w then (Inr None, w)
         else io_then (io_map_err ResumeIo (fs_read path w)) (\<lambda>content w.
              io_then (from_str content, w) (\<lambda>state w. (Inr (Some state), w))))"

definition journal_delete :: "abspath \<Rightarrow> string \<Rightarrow> world \<Rightarrow> (ResumeError + unit) \<times> world" where
  "journal_delete base_dir transfer_id w =
     (let path = journal_path base_dir transfer_id
      in if fs_exists path w then io_map_err ResumeIo (fs_remove_file path w) else (Inr (), w))"

fun collect_ids :: "abspath list \<Rightarrow> world \<Rightarrow> (ResumeError + string list) \<times> world" where
  "collect_ids [] w = (Inr [], w)"
| "collect_ids (path # entries) w =
     (case take_fault w of
        (Some (e, _), w') \<Rightarrow> (Inl (ResumeIo e), w')
      | (None, w') \<Rightarrow>
          io_then (collect_ids entries w') (\<lambda>ids w.
            if fs_lookup path w' \<noteq> None \<and> name_extension (last path) = Some ''json''
            then (Inr (name_stem (last path) # ids), w) else (Inr ids, w)))"

definition journal_list_active :: "abspath \<Rightarrow> world \<Rightarrow> (ResumeError + string list) \<times> world" where
  "journal_list_active base_dir w =
     (if \<not> fs_exists base_dir w then (Inr [], w)
      else io_then (io_map_err ResumeIo (fs_read_dir base_dir w)) collect_ids)"

fun gc_loop :: "(bytes \<Rightarrow> ResumeError + ResumeState) \<Rightarrow> i64 \<Rightarrow> abspath \<Rightarrow> string list \<Rightarrow> nat \<Rightarrow> world
    \<Rightarrow> (ResumeError + nat) \<times> world" where
  "gc_loop from_str now base_dir [] count w = (Inr count, w)"
| "gc_loop from_str now base_dir (transfer # ids) count w =
     (case journal_load from_str base_dir transfer w of
        (Inr (Some state), w') \<Rightarrow>
          if rs_expires_at state < now
          then io_then (journal_delete base_dir transfer w') (\<lambda>_ w.
                 gc_loop from_str now base_dir ids (count + 1) w)
          else gc_loop from_str now base_dir ids count w'
      | (_, w') \<Rightarrow> gc_loop from_str now base_dir ids count w')"

definition journal_gc_expired :: "(bytes \<Rightarrow> ResumeError + ResumeState) \<Rightarrow> i64 \<Rightarrow> abspath \<Rightarrow> world
    \<Rightarrow> (ResumeError + nat) \<times> world" where
  "journal_gc_expired from_str now base_dir w =
     io_then (journal_list_active base_dir w) (\<lambda>ids w. gc_loop from_str now base_dir ids 0 w)"

section \<open>Lemmas\<close>

lemma tmp_path_not_json: "journal_tmp_path base a \<noteq> journal_path base' b"
proof
  assume "journal_tmp_path base a = journal_path base' b"
  then have "last (journal_tmp_path base a) = last (journal_path base' b)" by simp
  then have "last (name_stem (a @ ''.json'') @ ''.json.tmp'') = last (b @ ''.json'')"
    by (simp add: journal_tmp_path_def journal_path_def set_extension_def)
  then show False by simp
qed

lemma journal_path_inject: "journal_path base a = journal_path base b \<longleftrightarrow> a = b"
  by (simp add: journal_path_def)

text \<open>
  The effect of a save under any faults: on success the journal file has the printed state; on
  failure it is as it was; no path but the temporary one changes otherwise.
\<close>

lemma journal_save_effect:
  assumes "journal_save to_vec base state w = (r, w')"
  defines "path \<equiv> journal_path base (rs_transfer_id state)"
  shows "case r of Inl _ \<Rightarrow> fs_lookup path w' = fs_lookup path w
      | Inr _ \<Rightarrow> \<exists>json. to_vec state = Inr json \<and> fs_lookup path w' = Some json"
    and "\<forall>q. q \<noteq> path \<and> q \<noteq> journal_tmp_path base (rs_transfer_id state) \<longrightarrow> fs_lookup q w' = fs_lookup q w"
    and "dirs w' = dirs w"
proof -
  let ?tmp = "journal_tmp_path base (rs_transfer_id state)"
  have ne: "path \<noteq> ?tmp" unfolding path_def by (rule not_sym) (rule tmp_path_not_json)
  obtain r1 w1 where c: "fs_create ?tmp w = (r1, w1)" by (cases "fs_create ?tmp w")
  note c' = fs_create_effect [OF c]
  have "(case r of Inl _ \<Rightarrow> fs_lookup path w' = fs_lookup path w
      | Inr _ \<Rightarrow> \<exists>json. to_vec state = Inr json \<and> fs_lookup path w' = Some json) \<and>
    (\<forall>q. q \<noteq> path \<and> q \<noteq> ?tmp \<longrightarrow> fs_lookup q w' = fs_lookup q w) \<and> dirs w' = dirs w"
  proof (cases "\<exists>u json. r1 = Inr u \<and> to_vec state = Inr json")
    case False
    then have "w' = w1 \<and> (\<exists>e. r = Inl e)"
      using assms(1) c unfolding journal_save_def Let_def
      by (cases r1; cases "to_vec state") (auto simp: io_map_err_def)
    then show ?thesis using c' ne by (cases r1) auto
  next
    case True
    then obtain u json where u: "r1 = Inr u" and json: "to_vec state = Inr json" by blast
    obtain r2 w2 where wr: "fs_write_all ?tmp json w1 = (r2, w2)" by (cases "fs_write_all ?tmp json w1")
    obtain r3 w3 where sy: "fs_sync_all ?tmp w2 = (r3, w3)" by (cases "fs_sync_all ?tmp w2")
    obtain r4 w4 where rn: "fs_rename ?tmp path w3 = (r4, w4)" by (cases "fs_rename ?tmp path w3")
    note effects = c' fs_write_all_effect [OF wr] fs_sync_all_effect [OF sy] fs_rename_effect [OF rn]
    have "(r, w') = (case r2 of Inl e \<Rightarrow> (Inl (ResumeIo e), w2)
        | Inr _ \<Rightarrow> (case r3 of Inl e \<Rightarrow> (Inl (ResumeIo e), w3) | Inr _ \<Rightarrow> (map_err ResumeIo r4, w4)))"
      using assms(1) c u json wr sy rn unfolding journal_save_def Let_def path_def
      by (cases r2; cases r3) (auto simp: io_map_err_def)
    then show ?thesis
      using effects ne u json by (cases r2; cases r3; cases r4) auto
  qed
  then show "case r of Inl _ \<Rightarrow> fs_lookup path w' = fs_lookup path w
      | Inr _ \<Rightarrow> \<exists>json. to_vec state = Inr json \<and> fs_lookup path w' = Some json"
    "\<forall>q. q \<noteq> path \<and> q \<noteq> ?tmp \<longrightarrow> fs_lookup q w' = fs_lookup q w" "dirs w' = dirs w"
    by blast+
qed

text \<open>What a load without faults returns: the view of the journal that the properties speak of.\<close>

definition journal_view :: "(bytes \<Rightarrow> ResumeError + ResumeState) \<Rightarrow> abspath \<Rightarrow> world \<Rightarrow> string
    \<Rightarrow> ResumeError + ResumeState option" where
  "journal_view from_str base w transfer = fst (journal_load from_str base transfer (w\<lparr>io_faults := []\<rparr>))"

lemma journal_load_no_faults:
  assumes "io_faults w = []"
  shows "journal_load from_str base transfer w =
    (case fs_lookup (journal_path base transfer) w of
       None \<Rightarrow> (if journal_path base transfer \<in> set (dirs w) then Inl (ResumeIo ''not found'') else Inr None, w)
     | Some b \<Rightarrow> (and_then (from_str b) (\<lambda>s. Inr (Some s)), w))"
  using assms
  by (cases "from_str (the (fs_lookup (journal_path base transfer) w))")
    (auto simp: journal_load_def Let_def fs_exists_def io_map_err_def fs_read_def split: option.splits)

lemma journal_view_eq:
  "journal_view from_str base w transfer =
    (case fs_lookup (journal_path base transfer) w of
       None \<Rightarrow> (if journal_path base transfer \<in> set (dirs w) then Inl (ResumeIo ''not found'') else Inr None)
     | Some b \<Rightarrow> and_then (from_str b) (\<lambda>s. Inr (Some s)))"
  by (simp add: journal_view_def journal_load_no_faults split: option.splits)

lemma journal_delete_no_faults:
  assumes "io_faults w = []" "fs_lookup (journal_path base transfer) w \<noteq> None"
  shows "journal_delete base transfer w = (Inr (), fs_erase (journal_path base transfer) w)"
  using assms by (auto simp: journal_delete_def fs_exists_def Let_def io_map_err_def fs_remove_file_def)

lemma journal_delete_effect:
  assumes "journal_delete base transfer w = (r, w')"
  shows "r = Inr () \<longrightarrow> fs_lookup (journal_path base transfer) w' = None"
    and "q \<noteq> journal_path base transfer \<or> r \<noteq> Inr () \<Longrightarrow> fs_lookup q w' = fs_lookup q w"
    and "dirs w' = dirs w"
proof -
  let ?p = "journal_path base transfer"
  obtain r0 w0 where rm: "fs_remove_file ?p w = (r0, w0)" by (cases "fs_remove_file ?p w")
  note rm' = fs_remove_file_effect [OF rm]
  have "(r, w') = (if fs_exists ?p w then (map_err ResumeIo r0, w0) else (Inr (), w))"
    using assms rm by (auto simp: journal_delete_def Let_def io_map_err_def split: if_splits)
  then show "r = Inr () \<longrightarrow> fs_lookup ?p w' = None"
    "q \<noteq> ?p \<or> r \<noteq> Inr () \<Longrightarrow> fs_lookup q w' = fs_lookup q w" "dirs w' = dirs w"
    using rm' by (cases r0; auto simp: fs_exists_def split: if_splits)+
qed

subsection \<open>Listing and garbage collection\<close>

lemma collect_ids_no_faults:
  "io_faults w = [] \<Longrightarrow> collect_ids ps w =
     (Inr (map (\<lambda>p. name_stem (last p))
       (filter (\<lambda>p. fs_lookup p w \<noteq> None \<and> name_extension (last p) = Some ''json'') ps)), w)"
  by (induction ps) (simp_all add: take_fault_def)

lemma journal_list_no_faults:
  assumes "io_faults w = []" "base \<in> set (dirs w)"
  obtains ids where "journal_list_active base w = (Inr ids, w)"
    "\<And>transfer. transfer \<noteq> [] \<Longrightarrow> fs_lookup (journal_path base transfer) w \<noteq> None \<Longrightarrow> transfer \<in> set ids"
proof
  let ?ps = "filter (\<lambda>p. p \<noteq> [] \<and> butlast p = base) (map fst (files w) @ dirs w)"
  let ?ids = "map (\<lambda>p. name_stem (last p))
       (filter (\<lambda>p. fs_lookup p w \<noteq> None \<and> name_extension (last p) = Some ''json'') ?ps)"
  show "journal_list_active base w = (Inr ?ids, w)"
    using assms
    by (simp add: journal_list_active_def fs_exists_def io_map_err_def fs_read_dir_def collect_ids_no_faults)
  fix transfer assume t: "transfer \<noteq> []" "fs_lookup (journal_path base transfer) w \<noteq> None"
  have "name_extension (last (journal_path base transfer)) = Some ''json''"
    "name_stem (last (journal_path base transfer)) = transfer"
    using name_extension_append [of "''json''" transfer] t(1) by (simp_all add: journal_path_def)
  moreover have "journal_path base transfer \<in> fst ` set (files w)"
    using t(2) by (simp add: fs_lookup_def map_of_eq_None_iff)
  ultimately show "transfer \<in> set ?ids"
    using t(2) by (force simp: journal_path_def image_iff)
qed

definition expired_entry :: "(bytes \<Rightarrow> ResumeError + ResumeState) \<Rightarrow> i64 \<Rightarrow> bytes \<Rightarrow> bool" where
  "expired_entry from_str now b \<longleftrightarrow> (case from_str b of Inr st \<Rightarrow> rs_expires_at st < now | Inl _ \<Rightarrow> False)"

definition keep_unexpired :: "(bytes \<Rightarrow> ResumeError + ResumeState) \<Rightarrow> i64 \<Rightarrow> bytes option \<Rightarrow> bytes option" where
  "keep_unexpired from_str now entry =
     (case entry of Some b \<Rightarrow> if expired_entry from_str now b then None else Some b | None \<Rightarrow> None)"

lemma gc_loop_step:
  assumes "io_faults w = []"
  shows "\<exists>c' w'. gc_loop from_str now base (t # ids) c w = gc_loop from_str now base ids c' w'
    \<and> io_faults w' = [] \<and> dirs w' = dirs w
    \<and> fs_lookup (journal_path base t) w' = keep_unexpired from_str now (fs_lookup (journal_path base t) w)
    \<and> (\<forall>q. q \<noteq> journal_path base t \<longrightarrow> fs_lookup q w' = fs_lookup q w)"
proof (cases "fs_lookup (journal_path base t) w")
  case None
  then show ?thesis
    using assms by (auto simp: journal_load_no_faults keep_unexpired_def)
next
  case (Some b)
  show ?thesis
  proof (cases "expired_entry from_str now b")
    case True
    then obtain st where st: "from_str b = Inr st" "rs_expires_at st < now"
      by (auto simp: expired_entry_def split: sum.splits)
    have "gc_loop from_str now base (t # ids) c w
        = gc_loop from_str now base ids (c + 1) (fs_erase (journal_path base t) w)"
      using assms Some st by (simp add: journal_load_no_faults journal_delete_no_faults)
    then show ?thesis using assms Some True
      by (intro exI [of _ "c + 1"] exI [of _ "fs_erase (journal_path base t) w"])
        (simp add: keep_unexpired_def)
  next
    case False
    then have "gc_loop from_str now base (t # ids) c w = gc_loop from_str now base ids c w"
      using assms Some
      by (cases "from_str b") (simp_all add: journal_load_no_faults expired_entry_def)
    then show ?thesis using assms Some False by (auto simp: keep_unexpired_def)
  qed
qed

lemma keep_unexpired_idem [simp]:
  "keep_unexpired from_str now (keep_unexpired from_str now e) = keep_unexpired from_str now e"
  by (auto simp: keep_unexpired_def split: option.splits)

lemma gc_loop_no_faults:
  "io_faults w = [] \<Longrightarrow>
    \<exists>n w'. gc_loop from_str now base ids c w = (Inr n, w') \<and> io_faults w' = [] \<and> dirs w' = dirs w
      \<and> (\<forall>t. fs_lookup (journal_path base t) w' =
           (if t \<in> set ids then keep_unexpired from_str now (fs_lookup (journal_path base t) w)
            else fs_lookup (journal_path base t) w))"
proof (induction ids arbitrary: c w)
  case (Cons t ids)
  obtain c1 w1 where w1: "gc_loop from_str now base (t # ids) c w = gc_loop from_str now base ids c1 w1"
    "io_faults w1 = []" "dirs w1 = dirs w"
    "fs_lookup (journal_path base t) w1 = keep_unexpired from_str now (fs_lookup (journal_path base t) w)"
    "\<forall>q. q \<noteq> journal_path base t \<longrightarrow> fs_lookup q w1 = fs_lookup q w"
    using gc_loop_step [OF Cons.prems] by blast
  obtain n w' where w': "gc_loop from_str now base ids c1 w1 = (Inr n, w')" "io_faults w' = []"
    "dirs w' = dirs w1"
    "\<forall>t. fs_lookup (journal_path base t) w' =
       (if t \<in> set ids then keep_unexpired from_str now (fs_lookup (journal_path base t) w1)
        else fs_lookup (journal_path base t) w1)"
    using Cons.IH [OF w1(2)] by blast
  have "fs_lookup (journal_path base s) w' =
       (if s \<in> set (t # ids) then keep_unexpired from_str now (fs_lookup (journal_path base s) w)
        else fs_lookup (journal_path base s) w)" for s
    using w'(4) w1(4,5) by (cases "s = t") (simp_all add: journal_path_inject)
  then show ?case using w1 w' by auto
qed simp

lemma find_append_snoc: "find P (xs @ [x]) = (case find P xs of None \<Rightarrow> if P x then Some x else None | Some y \<Rightarrow> Some y)"
  by (induction xs) auto

section \<open>The journal as a store\<close>

text \<open>
  The contract that the daemon relies on: a save either takes effect for its own key or changes
  nothing, and never touches another key. \<open>same\<close> is the equality of states up to the order of hash
  map entries.
\<close>

fun save_seq :: "('s \<Rightarrow> 'w \<Rightarrow> ('e + unit) \<times> 'w) \<Rightarrow> 's list \<Rightarrow> 'w \<Rightarrow> ('s \<times> bool) list \<times> 'w" where
  "save_seq save [] w = ([], w)"
| "save_seq save (s # ss) w =
     (case save s w of (r, w') \<Rightarrow>
       (case save_seq save ss w' of (log, w'') \<Rightarrow> ((s, r = Inr ()) # log, w'')))"

definition last_saved :: "('s \<Rightarrow> 'k) \<Rightarrow> ('s \<times> bool) list \<Rightarrow> 'k \<Rightarrow> 's option" where
  "last_saved key log k = map_option fst (find (\<lambda>(s, ok). ok \<and> key s = k) (rev log))"

locale keyed_store =
  fixes save :: "'s \<Rightarrow> 'w \<Rightarrow> ('e + unit) \<times> 'w"
    and view :: "'w \<Rightarrow> 'k \<Rightarrow> 'e + 's option"
    and key :: "'s \<Rightarrow> 'k"
    and same :: "'s \<Rightarrow> 's \<Rightarrow> bool"
  assumes save_takes_effect: "save s w = (Inr (), w') \<Longrightarrow> \<exists>t. view w' (key s) = Inr (Some t) \<and> same s t"
    and save_fails_cleanly: "save s w = (Inl e, w') \<Longrightarrow> view w' (key s) = view w (key s)"
    and save_other_key: "save s w = (r, w') \<Longrightarrow> k \<noteq> key s \<Longrightarrow> view w' k = view w k"
begin

lemma save_view:
  "save s w = (r, w') \<Longrightarrow> \<not> (r = Inr () \<and> key s = k) \<Longrightarrow> view w' k = view w k"
  using save_fails_cleanly save_other_key by (cases r) (auto, metis)

lemma save_seq_view:
  "save_seq save ss w = (log, w') \<Longrightarrow>
     (case last_saved key log k of
        None \<Rightarrow> view w' k = view w k
      | Some s \<Rightarrow> \<exists>t. view w' k = Inr (Some t) \<and> same s t)"
proof (induction ss arbitrary: w log)
  case Nil
  then show ?case by (simp add: last_saved_def)
next
  case (Cons s ss)
  obtain r w1 where r: "save s w = (r, w1)" by (cases "save s w")
  obtain log1 where log1: "save_seq save ss w1 = (log1, w')" "log = (s, r = Inr ()) # log1"
    using Cons.prems r by (auto split: prod.splits)
  have ls: "last_saved key log k = (case last_saved key log1 k of None \<Rightarrow>
      (if r = Inr () \<and> key s = k then Some s else None) | Some x \<Rightarrow> Some x)"
    unfolding log1(2) by (simp add: last_saved_def find_append_snoc split: option.splits)
  show ?case
  proof (cases "last_saved key log1 k")
    case None
    then show ?thesis
      using Cons.IH [OF log1(1)] ls r save_view [OF r] save_takes_effect [of s w w1] by auto
  next
    case (Some x)
    then show ?thesis using Cons.IH [OF log1(1)] ls by simp
  qed
qed

end

definition resume_equiv :: "ResumeState \<Rightarrow> ResumeState \<Rightarrow> bool" where
  "resume_equiv s t \<longleftrightarrow> s\<lparr>rs_files := []\<rparr> = t\<lparr>rs_files := []\<rparr> \<and> map_of (rs_files s) = map_of (rs_files t)"

locale resume_json =
  fixes to_vec :: "ResumeState \<Rightarrow> string + bytes"
    and from_str :: "bytes \<Rightarrow> ResumeError + ResumeState"
  assumes parse_printed: "to_vec s = Inr json \<Longrightarrow> \<exists>t. from_str json = Inr t \<and> resume_equiv s t"

locale resume_journal = resume_json +
  fixes base_dir :: abspath

sublocale resume_journal \<subseteq> store: keyed_store "journal_save to_vec base_dir"
  "journal_view from_str base_dir" rs_transfer_id resume_equiv
proof unfold_locales
  fix s w w'
  assume "journal_save to_vec base_dir s w = (Inr (), w')"
  from journal_save_effect [OF this] obtain json where "to_vec s = Inr json"
    "fs_lookup (journal_path base_dir (rs_transfer_id s)) w' = Some json" by auto
  then show "\<exists>t. journal_view from_str base_dir w' (rs_transfer_id s) = Inr (Some t) \<and> resume_equiv s t"
    using parse_printed by (force simp: journal_view_eq)
next
  fix s w e w'
  assume "journal_save to_vec base_dir s w = (Inl e, w')"
  from journal_save_effect [OF this]
  show "journal_view from_str base_dir w' (rs_transfer_id s) = journal_view from_str base_dir w (rs_transfer_id s)"
    by (simp add: journal_view_eq)
next
  fix s w r w' k
  assume save: "journal_save to_vec base_dir s w = (r, w')" and "k \<noteq> rs_transfer_id s"
  then have "journal_path base_dir k \<noteq> journal_path base_dir (rs_transfer_id s)"
    "journal_path base_dir k \<noteq> journal_tmp_path base_dir (rs_transfer_id s)"
    using tmp_path_not_json [of base_dir "rs_transfer_id s" base_dir k] by (auto simp: journal_path_inject)
  then show "journal_view from_str base_dir w' k = journal_view from_str base_dir w k"
    using journal_save_effect [OF save] by (simp add: journal_view_eq)
qed

context resume_journal
begin

lemmas journal_seq_view = store.save_seq_view

end

section \<open>A concrete printer and parser\<close>

text \<open>
  The serde data model of a resume state, printed with the CBOR writer: an instance of
  \<open>resume_json\<close> on which the journal runs.
\<close>

definition manifest_to_value :: "ResumeManifestEntry \<Rightarrow> Value" where
  "manifest_to_value e = VArray [VInteger (uint (rme_file_id e)), VText (rme_relative_path e),
     VInteger (uint (rme_size e)), VText (rme_sha256 e)]"

text \<open>Reading an array by position.\<close>

definition arg_text :: "nat \<Rightarrow> Value list \<Rightarrow> unit + string" where
  "arg_text i vs = (case drop i vs of VText s # _ \<Rightarrow> Inr s | _ \<Rightarrow> Inl ())"

definition arg_int :: "nat \<Rightarrow> Value list \<Rightarrow> unit + int" where
  "arg_int i vs = (case drop i vs of VInteger n # _ \<Rightarrow> Inr n | _ \<Rightarrow> Inl ())"

definition arg_array :: "nat \<Rightarrow> Value list \<Rightarrow> unit + Value list" where
  "arg_array i vs = (case drop i vs of VArray a # _ \<Rightarrow> Inr a | _ \<Rightarrow> Inl ())"

definition manifest_of_value :: "Value \<Rightarrow> unit + ResumeManifestEntry" where
  "manifest_of_value v =
     and_then (arg_array 0 [v]) (\<lambda>vs.
     and_then (arg_int 0 vs) (\<lambda>i.
     and_then (arg_text 1 vs) (\<lambda>p.
     and_then (arg_int 2 vs) (\<lambda>n.
     and_then (arg_text 3 vs) (\<lambda>h.
       Inr \<lparr>rme_file_id = word_of_int i, rme_relative_path = p, rme_size = word_of_int n, rme_sha256 = h\<rparr>)))))"

definition range_to_value :: "u64 \<times> u64 \<Rightarrow> Value" where
  "range_to_value r = VArray [VInteger (uint (fst r)), VInteger (uint (snd r))]"

definition range_of_value :: "Value \<Rightarrow> unit + (u64 \<times> u64)" where
  "range_of_value v =
     and_then (arg_array 0 [v]) (\<lambda>vs.
     and_then (arg_int 0 vs) (\<lambda>a.
     and_then (arg_int 1 vs) (\<lambda>b. Inr (word_of_int a, word_of_int b))))"

definition file_to_value :: "u32 \<times> ResumeFileState \<Rightarrow> Value" where
  "file_to_value f = VArray [VInteger (uint (fst f)), VInteger (uint (fst_received_bytes (snd f))),
     VArray (map range_to_value (fst_received_ranges (snd f))),
     VArray (case fst_partial_sha256 (snd f) of None \<Rightarrow> [] | Some h \<Rightarrow> [VText h]),
     VText (fst_dest_path (snd f))]"

definition opt_text_of_value :: "Value list \<Rightarrow> unit + string option" where
  "opt_text_of_value vs = (if vs = [] then Inr None else and_then (arg_text 0 vs) (\<lambda>s. Inr (Some s)))"

definition file_of_value :: "Value \<Rightarrow> unit + (u32 \<times> ResumeFileState)" where
  "file_of_value v =
     and_then (arg_array 0 [v]) (\<lambda>vs.
     and_then (arg_int 0 vs) (\<lambda>i.
     and_then (arg_int 1 vs) (\<lambda>n.
     and_then (arg_array 2 vs) (\<lambda>rs.
     and_then (try_map range_of_value rs) (\<lambda>ranges.
     and_then (arg_array 3 vs) (\<lambda>h.
     and_then (opt_text_of_value h) (\<lambda>sha.
     and_then (arg_text 4 vs) (\<lambda>d.
       Inr (word_of_int i, \<lparr>fst_received_bytes = word_of_int n, fst_received_ranges = ranges,
              fst_partial_sha256 = sha, fst_dest_path = d\<rparr>)))))))))"

definition state_to_value :: "ResumeState \<Rightarrow> Value" where
  "state_to_value s = VArray [VText (rs_transfer_id s), VText (rs_peer_device_id s),
     VText (rs_display_name s), VArray (map manifest_to_value (rs_manifest s)),
     VArray (map file_to_value (rs_files s)), VInteger (rs_created_at s), VInteger (rs_expires_at s),
     VInteger (uint (rs_version s))]"

definition state_of_value :: "Value \<Rightarrow> unit + ResumeState" where
  "state_of_value v =
     and_then (arg_array 0 [v]) (\<lambda>vs.
     and_then (arg_text 0 vs) (\<lambda>t.
     and_then (arg_text 1 vs) (\<lambda>p.
     and_then (arg_text 2 vs) (\<lambda>d.
     and_then (arg_array 3 vs) (\<lambda>ms.
     and_then (try_map manifest_of_value ms) (\<lambda>manifest.
     and_then (arg_array 4 vs) (\<lambda>fs.
     and_then (try_map file_of_value fs) (\<lambda>files.
     and_then (arg_int 5 vs) (\<lambda>c.
     and_then (arg_int 6 vs) (\<lambda>e.
     and_then (arg_int 7 vs) (\<lambda>v.
       Inr \<lparr>rs_transfer_id = t, rs_peer_device_id = p, rs_display_name = d, rs_manifest = manifest,
             rs_files = files, rs_created_at = c, rs_expires_at = e, rs_version = word_of_int v\<rparr>)))))))))))"

lemmas arg_defs = arg_text_def arg_int_def arg_array_def

definition ref_to_vec :: "ResumeState \<Rightarrow> string + bytes" where
  "ref_to_vec s = ref_into_writer (state_to_value s)"

definition ref_from_str :: "bytes \<Rightarrow> ResumeError + ResumeState" where
  "ref_from_str b =
     and_then (map_err ResumeJson (ref_from_reader b)) (\<lambda>v.
       map_err (\<lambda>_. ResumeJson ''invalid state'') (state_of_value v))"

lemma file_of_to_value: "file_of_value (file_to_value f) = Inr f"
proof -
  have "try_map range_of_value (map range_to_value rs) = Inr rs" for rs
    by (intro try_map_map_inverse) (simp add: range_to_value_def range_of_value_def arg_defs)
  moreover have "opt_text_of_value (case h of None \<Rightarrow> [] | Some h \<Rightarrow> [VText h]) = Inr h" for h
    by (cases h) (simp_all add: opt_text_of_value_def arg_defs)
  ultimately show ?thesis by (cases f) (simp add: file_to_value_def file_of_value_def arg_defs)
qed

lemma state_of_to_value: "state_of_value (state_to_value s) = Inr s"
proof -
  have "try_map manifest_of_value (map manifest_to_value ms) = Inr ms" for ms
    by (intro try_map_map_inverse) (simp add: manifest_to_value_def manifest_of_value_def arg_defs)
  moreover have "try_map file_of_value (map file_to_value fs) = Inr fs" for fs
    by (intro try_map_map_inverse file_of_to_value)
  ultimately show ?thesis by (simp add: state_to_value_def state_of_value_def arg_defs)
qed

lemma plain_state_value: "plain_value (state_to_value s)"
  by (auto simp: state_to_value_def manifest_to_value_def file_to_value_def range_to_value_def
      split: option.splits)

interpretation ref_json: resume_json ref_to_vec ref_from_str
proof unfold_locales
  fix s json
  assume "ref_to_vec s = Inr json"
  then have "ref_from_reader json = Inr (state_to_value s)"
    using ref_cbor.read_written plain_state_value by (simp add: ref_to_vec_def)
  then show "\<exists>t. ref_from_str json = Inr t \<and> resume_equiv s t"
    by (simp add: ref_from_str_def state_of_to_value resume_equiv_def)
qed

interpretation ref_journal: resume_journal ref_to_vec ref_from_str base_dir for base_dir
  by unfold_locales

section \<open>Properties\<close>

text \<open>
  C15 The journal is atomic under I/O failures: after any sequence of saves, each of which may fail at
  any of its steps (create, print, write, with a part of the bytes written, sync, rename), a load
  of a transfer returns the state of its last successful save, or what it returned before the
  sequence when none succeeded. No failure leaves a torn or lost journal entry.
\<close>

theorem journal_saves_atomic:
  assumes "resume_json to_vec from_str"
    and "save_seq (journal_save to_vec base_dir) states w = (log, w')"
  shows "case last_saved rs_transfer_id log transfer of
      None \<Rightarrow> journal_view from_str base_dir w' transfer = journal_view from_str base_dir w transfer
    | Some s \<Rightarrow> \<exists>t. journal_view from_str base_dir w' transfer = Inr (Some t) \<and> resume_equiv s t"
  using resume_journal.journal_seq_view [OF resume_journal.intro [OF assms(1)] assms(2)] .

theorem journal_saves_atomic_witness:
  "let w = \<lparr>files = [], dirs = [[''d'']], io_faults = [None, None, None, None, None, Some (''disk full'', 1)]\<rparr>;
       s = \<lparr>rs_transfer_id = ''ab'', rs_peer_device_id = ''p'', rs_display_name = ''x'', rs_manifest = [],
            rs_files = [], rs_created_at = 0, rs_expires_at = 10, rs_version = 1\<rparr>
   in \<exists>w' t. snd (save_seq (journal_save ref_to_vec [''d'']) [s, s\<lparr>rs_version := 2\<rparr>] w) = w' \<and>
        journal_view ref_from_str [''d''] w' ''ab'' = Inr (Some t) \<and> resume_equiv s t"
proof -
  let ?w = "\<lparr>files = [], dirs = [[''d'']], io_faults = [None, None, None, None, None, Some (''disk full'', 1)]\<rparr>"
  let ?s = "\<lparr>rs_transfer_id = ''ab'', rs_peer_device_id = ''p'', rs_display_name = ''x'', rs_manifest = [],
            rs_files = [], rs_created_at = 0, rs_expires_at = 10, rs_version = 1\<rparr>"
  let ?seq = "save_seq (journal_save ref_to_vec [''d'']) [?s, ?s\<lparr>rs_version := 2\<rparr>] ?w"
  obtain j1 where j1: "ref_to_vec ?s = Inr j1"
    by (simp add: ref_to_vec_def write_eval state_to_value_def)
  obtain j2 where j2: "ref_to_vec (?s\<lparr>rs_version := 2\<rparr>) = Inr j2"
    by (simp add: ref_to_vec_def write_eval state_to_value_def)
  have "fst ?seq = [(?s, True), (?s\<lparr>rs_version := 2\<rparr>, False)]"
    using j1 j2
    by (simp add: journal_save_def Let_def io_map_err_def fs_create_def fs_write_all_def
        fs_sync_all_def fs_rename_def faulty_def take_fault_def fs_creatable_def journal_path_def
        journal_tmp_path_def fs_put_def fs_erase_def fs_extend_def fs_lookup_def
        set_extension_def name_stem_def name_extension_def)
  then have "?seq = ([(?s, True), (?s\<lparr>rs_version := 2\<rparr>, False)], snd ?seq)"
    by (metis prod.collapse)
  from journal_saves_atomic [OF ref_json.resume_json_axioms this, of "''ab''"]
  show ?thesis by (simp add: last_saved_def)
qed

text \<open>
  Deleting: a deletion that succeeds leaves no entry for the transfer, one that fails leaves the
  entry as it was, and the entries of the other transfers are untouched in both cases.
\<close>

theorem journal_delete_exact:
  assumes "journal_delete base_dir transfer w = (r, w')"
    and "journal_path base_dir transfer \<notin> set (dirs w)"
  shows "journal_view from_str base_dir w' k =
    (if k = transfer \<and> r = Inr () then Inr None else journal_view from_str base_dir w k)"
  using journal_delete_effect(1,3) [OF assms(1)]
    journal_delete_effect(2) [OF assms(1), of "journal_path base_dir k"] assms(2)
  by (auto simp: journal_view_eq journal_path_inject)

theorem journal_delete_exact_witness:
  "journal_view ref_from_str [''d'']
     (snd (journal_delete [''d''] ''ab'' \<lparr>files = [([''d'', ''ab.json''], [1])], dirs = [[''d'']], io_faults = []\<rparr>))
     ''ab'' = Inr None"
proof -
  let ?w = "\<lparr>files = [([''d'', ''ab.json''], [1])], dirs = [[''d'']], io_faults = []\<rparr>"
  have "journal_delete [''d''] ''ab'' ?w = (Inr (), fs_erase [''d'', ''ab.json''] ?w)"
    using journal_delete_no_faults [of ?w "[''d'']" "''ab''"]
    by (simp add: fs_lookup_def journal_path_def)
  from journal_delete_exact [OF this, of ref_from_str "''ab''"] show ?thesis
    using \<open>journal_delete [''d''] ''ab'' ?w = (Inr (), fs_erase [''d'', ''ab.json''] ?w)\<close>
    by (simp add: journal_path_def)
qed

text \<open>
  Garbage collection: without I/O failures it returns a count, and afterwards an entry is gone
  exactly when it parsed and its expiry lies before the given time; every other entry, an unreadable
  one included, is as it was.
\<close>

theorem journal_gc_exact:
  assumes "io_faults w = []" "base_dir \<in> set (dirs w)" "transfer \<noteq> []"
    and "journal_path base_dir transfer \<notin> set (dirs w)"
  shows "\<exists>n w'. journal_gc_expired from_str now base_dir w = (Inr n, w') \<and>
    journal_view from_str base_dir w' transfer =
      (case journal_view from_str base_dir w transfer of
         Inr (Some st) \<Rightarrow> if rs_expires_at st < now then Inr None else Inr (Some st)
       | v \<Rightarrow> v)"
proof -
  obtain ids where ids: "journal_list_active base_dir w = (Inr ids, w)"
    and mem: "fs_lookup (journal_path base_dir transfer) w \<noteq> None \<Longrightarrow> transfer \<in> set ids"
    using journal_list_no_faults [OF assms(1,2)] assms(3) by metis
  obtain n w' where w': "gc_loop from_str now base_dir ids 0 w = (Inr n, w')" "dirs w' = dirs w"
    "fs_lookup (journal_path base_dir transfer) w' =
       (if transfer \<in> set ids then keep_unexpired from_str now (fs_lookup (journal_path base_dir transfer) w)
        else fs_lookup (journal_path base_dir transfer) w)"
    using gc_loop_no_faults [OF assms(1)] by metis
  have "journal_gc_expired from_str now base_dir w = (Inr n, w')"
    using ids w'(1) by (simp add: journal_gc_expired_def)
  moreover have "fs_lookup (journal_path base_dir transfer) w' =
      keep_unexpired from_str now (fs_lookup (journal_path base_dir transfer) w)"
    using w'(3) mem by (auto simp: keep_unexpired_def split: option.splits)
  ultimately show ?thesis
    using w'(2) assms(4)
    by (cases "fs_lookup (journal_path base_dir transfer) w";
        cases "from_str (the (fs_lookup (journal_path base_dir transfer) w))")
      (auto simp: journal_view_eq keep_unexpired_def expired_entry_def)
qed

theorem journal_gc_exact_witness:
  "\<exists>n w'. journal_gc_expired ref_from_str 5 [''d''] \<lparr>files = [], dirs = [[''d'']], io_faults = []\<rparr> = (Inr n, w')"
  using journal_gc_exact [of "\<lparr>files = [], dirs = [[''d'']], io_faults = []\<rparr>" "[''d'']" "''ab''" ref_from_str 5]
  by (auto simp: journal_path_def)

end
