(* ===== verification/Nxfr_Config.thy ===== *)
theory Nxfr_Config
  imports Nxfr_Resume
begin

text \<open>
  The configuration, \<open>nxfr-storage/src/config.rs\<close>: a TOML file that is written with the defaults when
  it is missing. The TOML library is a parameter; the locale \<open>config_toml\<close> states that parsing
  inverts printing. The host name and the download directory are outcomes of platform lookups.
\<close>

section \<open>Operations\<close>

datatype ConfigError = ConfigIo string | TomlDe string | TomlSer string

record NxfrConfig =
  cf_device_name :: string
  cf_receive_dir :: abspath
  cf_receiving_enabled :: bool

text \<open>\<open>str::trim\<close> on ASCII white space.\<close>

definition is_whitespace :: "char \<Rightarrow> bool" where
  "is_whitespace c \<longleftrightarrow> char_code c = 32 \<or> 9 \<le> char_code c \<and> char_code c \<le> 13"

definition trim :: "string \<Rightarrow> string" where
  "trim s = rev (dropWhile is_whitespace (rev (dropWhile is_whitespace s)))"

definition config_default :: "string + string \<Rightarrow> abspath option \<Rightarrow> NxfrConfig" where
  "config_default hostname download_dir =
     \<lparr>cf_device_name = (case hostname of Inl _ \<Rightarrow> ''NXFR-Device'' | Inr s \<Rightarrow> trim s),
      cf_receive_dir = (case download_dir of None \<Rightarrow> [''.''] | Some d \<Rightarrow> d) @ [''NXFR''],
      cf_receiving_enabled = False\<rparr>"

text \<open>\<open>fs::write\<close>: create or truncate, then write.\<close>

definition fs_write :: "abspath \<Rightarrow> bytes \<Rightarrow> world \<Rightarrow> (string + unit) \<times> world" where
  "fs_write p content w = io_then (fs_create p w) (\<lambda>_ w. fs_write_all p content w)"

definition config_save_to :: "(NxfrConfig \<Rightarrow> string + bytes) \<Rightarrow> NxfrConfig \<Rightarrow> abspath \<Rightarrow> world
    \<Rightarrow> (ConfigError + unit) \<times> world" where
  "config_save_to to_string cfg path w =
     io_then (case path_parent path of
                None \<Rightarrow> (Inr (), w)
              | Some parent \<Rightarrow> io_map_err ConfigIo (fs_create_dir_all parent w)) (\<lambda>_ w.
     io_then (map_err TomlSer (to_string cfg), w) (\<lambda>content w.
       io_map_err ConfigIo (fs_write path content w)))"

definition config_load_from :: "(NxfrConfig \<Rightarrow> string + bytes) \<Rightarrow> (bytes \<Rightarrow> string + NxfrConfig) \<Rightarrow> NxfrConfig
    \<Rightarrow> abspath \<Rightarrow> world \<Rightarrow> (ConfigError + NxfrConfig) \<times> world" where
  "config_load_from to_string from_str default_cfg path w =
     (if \<not> fs_exists path w
      then io_then (config_save_to to_string default_cfg path w) (\<lambda>_ w. (Inr default_cfg, w))
      else io_then (io_map_err ConfigIo (fs_read path w)) (\<lambda>content w.
             (map_err TomlDe (from_str content), w)))"

section \<open>Lemmas\<close>

locale config_toml =
  fixes to_string :: "NxfrConfig \<Rightarrow> string + bytes"
    and from_str :: "bytes \<Rightarrow> string + NxfrConfig"
  assumes parse_printed: "to_string cfg = Inr toml \<Longrightarrow> from_str toml = Inr cfg"
begin

lemma saved_text:
  assumes "config_save_to to_string cfg path w = (Inr (), w')"
  shows "\<exists>toml. to_string cfg = Inr toml \<and> fs_lookup path w' = Some toml"
proof -
  from assms obtain w1 toml where toml: "to_string cfg = Inr toml" and "fs_write path toml w1 = (Inr (), w')"
    by (auto simp: config_save_to_def io_then_Inr io_map_err_eq result_simps) (metis map_err_Inr_iff)
  then obtain w2 where "fs_create path w1 = (Inr (), w2)" "fs_write_all path toml w2 = (Inr (), w')"
    by (auto simp: fs_write_def io_then_Inr)
  with fs_create_effect(1) fs_write_all_effect(1) have "fs_lookup path w' = Some toml" by fastforce
  with toml show ?thesis by blast
qed

lemma load_saved:
  assumes "config_save_to to_string cfg path w = (Inr (), w')" "io_faults w' = []"
  shows "config_load_from to_string from_str d path w' = (Inr cfg, w')"
proof -
  obtain toml where "to_string cfg = Inr toml" "fs_lookup path w' = Some toml"
    using saved_text [OF assms(1)] by blast
  then show ?thesis
    using parse_printed assms(2)
    by (simp add: config_load_from_def fs_exists_def fs_read_def io_map_err_def)
qed

end

text \<open>The serde data model of a configuration, printed with the CBOR writer.\<close>

definition config_to_value :: "NxfrConfig \<Rightarrow> Value" where
  "config_to_value c = VArray [VText (cf_device_name c), VArray (map VText (cf_receive_dir c)),
     VInteger (if cf_receiving_enabled c then 1 else 0)]"

definition config_of_value :: "Value \<Rightarrow> unit + NxfrConfig" where
  "config_of_value v =
     and_then (arg_array 0 [v]) (\<lambda>vs.
     and_then (arg_text 0 vs) (\<lambda>n.
     and_then (arg_array 1 vs) (\<lambda>ds.
     and_then (try_map (\<lambda>d. arg_text 0 [d]) ds) (\<lambda>dir.
     and_then (arg_int 2 vs) (\<lambda>b.
       Inr \<lparr>cf_device_name = n, cf_receive_dir = dir, cf_receiving_enabled = (b = 1)\<rparr>)))))"

definition ref_config_to_string :: "NxfrConfig \<Rightarrow> string + bytes" where
  "ref_config_to_string c = ref_into_writer (config_to_value c)"

definition ref_config_from_str :: "bytes \<Rightarrow> string + NxfrConfig" where
  "ref_config_from_str b =
     and_then (ref_from_reader b) (\<lambda>v. map_err (\<lambda>_. ''invalid config'') (config_of_value v))"

interpretation ref_config: config_toml ref_config_to_string ref_config_from_str
proof unfold_locales
  fix cfg toml
  assume toml: "ref_config_to_string cfg = Inr toml"
  have "plain_value (config_to_value cfg)" by (auto simp: config_to_value_def)
  then have "ref_from_reader toml = Inr (config_to_value cfg)"
    using ref_cbor.read_written toml by (simp add: ref_config_to_string_def)
  moreover have "try_map (\<lambda>d. arg_text 0 [d]) (map VText ds) = Inr ds" for ds
    by (intro try_map_map_inverse) (simp add: arg_defs)
  ultimately show "ref_config_from_str toml = Inr cfg"
    by (simp add: ref_config_from_str_def config_of_value_def config_to_value_def arg_defs)
qed

section \<open>Properties\<close>

text \<open>
  C28 A saved configuration is the one that is loaded, and loading where there is none writes the
  defaults, which later loads return: after a successful save or first load, every load returns the
  same configuration.
\<close>

theorem config_persists:
  assumes "config_toml to_string from_str" "io_faults w' = []"
    and "config_save_to to_string cfg path w = (Inr (), w') \<or>
      \<not> fs_exists path w \<and> config_load_from to_string from_str cfg path w = (Inr cfg, w')"
  shows "config_load_from to_string from_str other path w' = (Inr cfg, w')"
proof -
  have "config_save_to to_string cfg path w = (Inr (), w')"
    using assms(3) by (auto simp: config_load_from_def io_then_Inr)
  then show ?thesis using config_toml.load_saved [OF assms(1)] assms(2) by blast
qed

theorem config_persists_witness:
  "let cfg = config_default (Inr ''host'') None;
       w = \<lparr>files = [], dirs = [[], [''c'']], io_faults = []\<rparr>
   in \<exists>w'. config_load_from ref_config_to_string ref_config_from_str cfg [''c'', ''config.toml''] w = (Inr cfg, w')
        \<and> config_load_from ref_config_to_string ref_config_from_str (cfg\<lparr>cf_device_name := ''x''\<rparr>)
            [''c'', ''config.toml''] w' = (Inr cfg, w')"
proof -
  let ?cfg = "config_default (Inr ''host'') None"
  let ?w = "\<lparr>files = [], dirs = [[], [''c'']], io_faults = []\<rparr> :: world"
  let ?p = "[''c'', ''config.toml'']"
  have "trim ''host'' = ''host''" by code_simp
  then have "\<exists>toml. ref_config_to_string ?cfg = Inr toml"
    by (simp add: ref_config_to_string_def config_to_value_def config_default_def write_eval)
  then obtain toml where toml: "ref_config_to_string ?cfg = Inr toml" by blast
  have "\<exists>w'. config_load_from ref_config_to_string ref_config_from_str ?cfg ?p ?w = (Inr ?cfg, w') \<and> io_faults w' = []"
    using toml by (simp add: config_load_from_def config_save_to_def fs_exists_def fs_lookup_def path_parent_def
        fs_create_dir_all_def fs_add_dirs_def fs_write_def fs_create_def fs_write_all_def fs_creatable_def io_map_err_def)
  then obtain w' where w': "config_load_from ref_config_to_string ref_config_from_str ?cfg ?p ?w = (Inr ?cfg, w')" "io_faults w' = []"
    by blast
  have "\<not> fs_exists ?p ?w" by (simp add: fs_exists_def fs_lookup_def)
  with config_persists [OF ref_config.config_toml_axioms w'(2) disjI2] w'(1)
  show ?thesis by (auto simp: Let_def)
qed

end
