(* ===== verification/Nxfr_Paired_Db.thy ===== *)
theory Nxfr_Paired_Db
  imports Nxfr_Sql
begin

text \<open>
  The database of paired devices, \<open>nxfr-storage/src/db.rs\<close>: the pinned key, the trust level and the
  auto-accept policy of every device. Each method is its SQL statement with what the code does with
  the result; \<open>nxfr_crypto::extract_spki\<close> (an X.509 parser) is a parameter, the clock an argument.
\<close>

unbundle bit_operations_syntax

section \<open>Data\<close>

record PairedDevice =
  pd_device_id :: string
  pd_name :: string
  pd_public_key_spki :: bytes
  pd_first_seen :: i64
  pd_last_seen :: i64
  pd_trust_level :: string
  pd_auto_accept :: string

datatype IdentityCheck = Matched | Changed | Unknown

type_synonym paired_db = "PairedDevice database"

section \<open>Operations\<close>

text \<open>
  \<open>init_schema\<close>: two \<open>CREATE TABLE IF NOT EXISTS\<close>, then the version row if the query for it fails
  (for whatever reason: a failed query counts like an empty table).
\<close>

definition create_version_table :: "paired_db \<Rightarrow> (string + unit) \<times> paired_db" where
  "create_version_table db =
     (Inr (), if db_version db = None then db\<lparr>db_version := Some []\<rparr> else db)"

definition select_version :: "paired_db \<Rightarrow> (string + int) \<times> paired_db" where
  "select_version db =
     (case db_version db of
        Some (v # _) \<Rightarrow> (Inr v, db)
      | Some [] \<Rightarrow> (Inl ''Query returned no rows'', db)
      | None \<Rightarrow> (Inl ''no such table'', db))"

definition insert_version :: "paired_db \<Rightarrow> (string + unit) \<times> paired_db" where
  "insert_version db =
     (case db_version db of
        Some vs \<Rightarrow> (Inr (), db\<lparr>db_version := Some (vs @ [1])\<rparr>)
      | None \<Rightarrow> (Inl ''no such table'', db))"

definition init_schema :: "paired_db \<Rightarrow> (StorageError + unit) \<times> paired_db" where
  "init_schema db =
     (case sql_run sql_create_table db of
        (Inl e, db) \<Rightarrow> (Inl e, db)
      | (Inr _, db) \<Rightarrow>
          (case sql_run create_version_table db of
             (Inl e, db) \<Rightarrow> (Inl e, db)
           | (Inr _, db) \<Rightarrow>
               (case sql_run select_version db of
                  (Inr _, db) \<Rightarrow> (Inr (), db)
                | (Inl _, db) \<Rightarrow> sql_run insert_version db)))"

text \<open>\<open>open\<close>: the outcomes of \<open>create_dir_all\<close> and of \<open>Connection::open\<close> are arguments.\<close>

definition paired_open :: "string + unit \<Rightarrow> string + unit \<Rightarrow> paired_db \<Rightarrow> (StorageError + unit) \<times> paired_db" where
  "paired_open mkdir connection db =
     (case mkdir of
        Inl e \<Rightarrow> (Inl (Io e), db)
      | Inr _ \<Rightarrow> (case connection of Inl e \<Rightarrow> (Inl (Db e), db) | Inr _ \<Rightarrow> init_schema db))"

text \<open>On a conflict every column but the key and \<open>first_seen\<close> is replaced.\<close>

definition paired_merge :: "PairedDevice \<Rightarrow> PairedDevice \<Rightarrow> PairedDevice" where
  "paired_merge old excluded =
     old\<lparr>pd_name := pd_name excluded, pd_public_key_spki := pd_public_key_spki excluded,
         pd_last_seen := pd_last_seen excluded, pd_trust_level := pd_trust_level excluded,
         pd_auto_accept := pd_auto_accept excluded\<rparr>"

definition insert_or_update :: "PairedDevice \<Rightarrow> paired_db \<Rightarrow> (StorageError + unit) \<times> paired_db" where
  "insert_or_update device =
     sql_run (sql_on_rows (\<lambda>rows. ((), rows_upsert pd_device_id paired_merge device rows)))"

definition paired_lookup :: "string \<Rightarrow> paired_db \<Rightarrow> (StorageError + PairedDevice option) \<times> paired_db" where
  "paired_lookup device_id =
     sql_run (sql_on_rows (\<lambda>rows.
       (case rows_with pd_device_id device_id rows of [] \<Rightarrow> None | row # _ \<Rightarrow> Some row, rows)))"

definition paired_remove :: "string \<Rightarrow> paired_db \<Rightarrow> (StorageError + unit) \<times> paired_db" where
  "paired_remove device_id =
     sql_run (sql_on_rows (\<lambda>rows. ((), rows_delete pd_device_id device_id rows)))"

definition paired_list_all :: "paired_db \<Rightarrow> (StorageError + PairedDevice list) \<times> paired_db" where
  "paired_list_all = sql_run (sql_on_rows (\<lambda>rows. (rows, rows)))"

definition is_paired :: "string \<Rightarrow> paired_db \<Rightarrow> bool \<times> paired_db" where
  "is_paired device_id db =
     (case paired_lookup device_id db of
        (Inr (Some _), db) \<Rightarrow> (True, db)
      | (_, db) \<Rightarrow> (False, db))"

definition should_auto_accept :: "string \<Rightarrow> paired_db \<Rightarrow> bool \<times> paired_db" where
  "should_auto_accept device_id db =
     (case paired_lookup device_id db of
        (Inr (Some dev), db) \<Rightarrow> (pd_trust_level dev = ''paired'' \<and> pd_auto_accept dev = ''always'', db)
      | (_, db) \<Rightarrow> (False, db))"

definition update_last_seen :: "i64 \<Rightarrow> string \<Rightarrow> paired_db \<Rightarrow> (StorageError + unit) \<times> paired_db" where
  "update_last_seen now device_id =
     sql_run (sql_on_rows (\<lambda>rows. ((), rows_update pd_device_id device_id (\<lambda>d. d\<lparr>pd_last_seen := now\<rparr>) rows)))"

text \<open>\<open>extract_spki(k).unwrap_or_else(|_| k)\<close>: a bare SPKI is left as it is.\<close>

definition normalize_key :: "(bytes \<Rightarrow> string + bytes) \<Rightarrow> bytes \<Rightarrow> bytes" where
  "normalize_key extract_spki k = (case extract_spki k of Inl _ \<Rightarrow> k | Inr spki \<Rightarrow> spki)"

text \<open>The constant-time comparison: the loop accumulates the differing bits.\<close>

definition constant_time_eq :: "bytes \<Rightarrow> bytes \<Rightarrow> bool" where
  "constant_time_eq a b =
     (if length a = length b
      then foldl (\<lambda>diff (x, y). diff OR (x XOR y)) 0 (zip a b) = 0
      else False)"

definition verify_identity :: "(bytes \<Rightarrow> string + bytes) \<Rightarrow> string \<Rightarrow> bytes \<Rightarrow> paired_db
    \<Rightarrow> (StorageError + IdentityCheck) \<times> paired_db" where
  "verify_identity extract_spki device_id incoming_key db =
     (case paired_lookup device_id db of
        (Inl e, db) \<Rightarrow> (Inl e, db)
      | (Inr None, db) \<Rightarrow> (Inr Unknown, db)
      | (Inr (Some dev), db) \<Rightarrow>
          let stored_spki = normalize_key extract_spki (pd_public_key_spki dev);
              incoming_spki = normalize_key extract_spki incoming_key
          in (Inr (if constant_time_eq stored_spki incoming_spki then Matched else Changed), db))"

text \<open>The statements that change the table, as the handlers issue them.\<close>

datatype paired_op = Pin PairedDevice | Unpair string | Seen i64 string

fun paired_perform :: "paired_op \<Rightarrow> paired_db \<Rightarrow> (StorageError + unit) \<times> paired_db" where
  "paired_perform (Pin d) db = insert_or_update d db"
| "paired_perform (Unpair k) db = paired_remove k db"
| "paired_perform (Seen now k) db = update_last_seen now k db"

text \<open>What each is meant to do to the entry of the device it names.\<close>

fun paired_op_key :: "paired_op \<Rightarrow> string" where
  "paired_op_key (Pin d) = pd_device_id d"
| "paired_op_key (Unpair k) = k"
| "paired_op_key (Seen now k) = k"

fun paired_effect :: "paired_op \<Rightarrow> PairedDevice option \<Rightarrow> PairedDevice option" where
  "paired_effect (Pin d) None = Some d"
| "paired_effect (Pin d) (Some old) = Some (d\<lparr>pd_first_seen := pd_first_seen old\<rparr>)"
| "paired_effect (Unpair k) e = None"
| "paired_effect (Seen now k) e = map_option (\<lambda>d. d\<lparr>pd_last_seen := now\<rparr>) e"

section \<open>Lemmas\<close>

lemma xor_zero_iff: "x XOR y = 0 \<longleftrightarrow> x = (y :: u8)"
  by (auto simp: bit_eq_iff bit_xor_iff)

lemma or_xor_fold_zero:
  "foldl (\<lambda>diff (x, y). diff OR (x XOR y)) d ps = (0 :: u8) \<longleftrightarrow> d = 0 \<and> (\<forall>(x, y)\<in>set ps. x = y)"
  by (induction ps arbitrary: d) (auto simp: or_eq_0_iff xor_zero_iff)

lemma constant_time_eq_iff: "constant_time_eq a b \<longleftrightarrow> a = b"
proof
  assume "constant_time_eq a b"
  then have "length a = length b" "\<forall>(x, y)\<in>set (zip a b). x = y"
    by (auto simp: constant_time_eq_def or_xor_fold_zero split: if_splits)
  then show "a = b" by (induction rule: list_induct2) auto
next
  assume "a = b"
  then show "constant_time_eq a b"
    by (auto simp: constant_time_eq_def or_xor_fold_zero in_set_zip)
qed

text \<open>Each statement on the table, run or failed.\<close>

lemma on_rows_cases:
  assumes "sql_run (sql_on_rows (\<lambda>rows. (g rows, f rows))) db = (r, db')" "table_ok key db"
  obtains (failed) e where "r = Inl e" "db_rows db' = db_rows db"
  | (ok) rows where "db_rows db = Some rows" "r = Inr (g rows)" "db_rows db' = Some (f rows)"
  using assms
  by (elim sql_run_cases) (auto simp: sql_on_rows_def table_ok_def split: option.splits)

lemma paired_merge_key [simp]: "pd_device_id (paired_merge old new) = pd_device_id old"
  by (simp add: paired_merge_def)

lemma paired_merge_effect:
  "pd_device_id old = pd_device_id new \<Longrightarrow> paired_merge old new = new\<lparr>pd_first_seen := pd_first_seen old\<rparr>"
  by (cases old; cases new) (simp add: paired_merge_def)

lemma find_key: "find (\<lambda>r. key r = k) rows = Some r \<Longrightarrow> key r = k"
  by (induction rows) (auto split: if_splits)

lemma find_upsert_effect:
  "find (\<lambda>r. pd_device_id r = k) (rows_upsert pd_device_id paired_merge d rows) =
    (if k = pd_device_id d then paired_effect (Pin d) (find (\<lambda>r. pd_device_id r = k) rows)
     else find (\<lambda>r. pd_device_id r = k) rows)"
proof (cases "find (\<lambda>r. pd_device_id r = k) rows")
  case None
  then show ?thesis by (cases "k = pd_device_id d") (simp_all add: find_rows_upsert)
next
  case (Some old)
  then have "pd_device_id old = k" by (rule find_key)
  then show ?thesis
    using Some by (cases "k = pd_device_id d") (simp_all add: find_rows_upsert paired_merge_effect)
qed

lemma paired_perform_step:
  assumes "table_ok pd_device_id db" "paired_perform x db = (r, db')"
  shows "table_ok pd_device_id db' \<and>
    table_view pd_device_id db' k =
      (if (\<exists>u. r = Inr u) \<and> paired_op_key x = k then paired_effect x (table_view pd_device_id db k)
       else table_view pd_device_id db k)"
proof (cases x)
  case (Pin d)
  then show ?thesis
    using assms distinct_rows_upsert [of pd_device_id d paired_merge]
    by (auto simp: insert_or_update_def table_view_def table_ok_def find_upsert_effect
        elim!: on_rows_cases [where key = pd_device_id])
next
  case (Unpair d)
  then show ?thesis
    using assms
    by (auto simp: paired_remove_def table_view_def table_ok_def find_rows_delete distinct_rows_delete
        elim!: on_rows_cases [where key = pd_device_id])
next
  case (Seen now d)
  then show ?thesis
    using assms
    by (auto simp: update_last_seen_def table_view_def table_ok_def find_rows_update distinct_rows_update
        elim!: on_rows_cases [where key = pd_device_id])
qed

interpretation paired: keyed_table paired_perform "table_view pd_device_id" "table_ok pd_device_id"
  paired_op_key paired_effect
  using paired_perform_step by unfold_locales fastforce+

lemma paired_lookup_view:
  assumes "table_ok pd_device_id db" "paired_lookup device_id db = (r, db')"
  shows "db_rows db' = db_rows db \<and> (\<forall>e. r = Inr e \<longrightarrow> e = table_view pd_device_id db device_id)"
  using assms
  by (auto simp: paired_lookup_def table_view_def rows_with_def find_filter_hd
      elim!: on_rows_cases [where key = pd_device_id])

lemma paired_lookup_no_faults:
  assumes "table_ok pd_device_id db" "db_faults db = []"
  shows "\<exists>db'. paired_lookup device_id db = (Inr (table_view pd_device_id db device_id), db')"
  using assms
  by (auto simp: paired_lookup_def table_ok_def table_view_def sql_on_rows_def rows_with_def find_filter_hd
      split: option.splits)

lemma sql_run_version:
  assumes "sql_run stmt db = (r, db')"
    and "\<And>d q d'. stmt d = (q, d') \<Longrightarrow> db_rows d' = db_rows d"
  shows "db_rows db' = db_rows db"
  using assms(1) by (elim sql_run_cases) (auto dest: assms(2))

lemma create_version_rows: "sql_run create_version_table d = (q, d') \<Longrightarrow> db_rows d' = db_rows d"
  by (erule sql_run_version) (auto simp: create_version_table_def)

lemma select_version_rows: "sql_run select_version d = (q, d') \<Longrightarrow> db_rows d' = db_rows d"
  by (erule sql_run_version) (auto simp: select_version_def split: option.splits list.splits)

lemma insert_version_rows: "sql_run insert_version d = (q, d') \<Longrightarrow> db_rows d' = db_rows d"
  by (erule sql_run_version) (auto simp: insert_version_def split: option.splits)

text \<open>Opening an existing database keeps its rows; a new one starts empty.\<close>

lemma init_schema_rows:
  assumes "init_schema db = (r, db')"
  shows "(db_rows db' = db_rows db \<or> db_rows db = None \<and> db_rows db' = Some []) \<and>
    (r = Inr () \<longrightarrow> db_rows db' \<noteq> None)"
proof -
  obtain r1 db1 where 1: "sql_run sql_create_table db = (r1, db1)" by (cases "sql_run sql_create_table db")
  obtain r2 db2 where 2: "sql_run create_version_table db1 = (r2, db2)" by (cases "sql_run create_version_table db1")
  obtain r3 db3 where 3: "sql_run select_version db2 = (r3, db3)" by (cases "sql_run select_version db2")
  obtain r4 db4 where 4: "sql_run insert_version db3 = (r4, db4)" by (cases "sql_run insert_version db3")
  have rows: "db_rows db2 = db_rows db1" "db_rows db3 = db_rows db1" "db_rows db4 = db_rows db1"
    using create_version_rows [OF 2] select_version_rows [OF 3] insert_version_rows [OF 4] by simp_all
  have db': "db_rows db' = db_rows db1" "r = Inr () \<longrightarrow> r1 = Inr ()"
    using assms 1 2 3 4 rows by (auto simp: init_schema_def split: sum.splits)
  have "(db_rows db1 = db_rows db \<or> db_rows db = None \<and> db_rows db1 = Some []) \<and>
      (r1 = Inr () \<longrightarrow> db_rows db1 \<noteq> None)"
    using 1 by (elim sql_run_cases) (auto simp: sql_create_table_def split: if_splits)
  then show ?thesis using db' by simp
qed

section \<open>Properties\<close>

text \<open>
  C25 The table implements a finite map from device ids to entries, whatever statements fail: after any
  sequence of pairings, removals and updates the entry of a device is the result of those of its
  operations that succeeded, in order; a re-pairing keeps the first-seen time. Ids stay unique, and a
  lookup that succeeds returns that entry.
\<close>

theorem paired_db_refines_map:
  assumes "table_ok pd_device_id db" "run_ops paired_perform ops db = (log, db')"
  shows "table_ok pd_device_id db' \<and>
    (\<forall>e db''. paired_lookup k db' = (Inr e, db'') \<longrightarrow>
       e = fold paired_effect (filter (\<lambda>x. paired_op_key x = k) log) (table_view pd_device_id db k))"
  using paired.run_view [OF assms, of k] paired_lookup_view by fastforce

theorem paired_db_refines_map_witness:
  "\<exists>db'. paired_lookup ''a'' (snd (run_ops paired_perform
       [Pin \<lparr>pd_device_id = ''a'', pd_name = ''x'', pd_public_key_spki = [1], pd_first_seen = 5, pd_last_seen = 5,
             pd_trust_level = ''paired'', pd_auto_accept = ''prompt''\<rparr>,
        Pin \<lparr>pd_device_id = ''a'', pd_name = ''y'', pd_public_key_spki = [2], pd_first_seen = 9, pd_last_seen = 9,
             pd_trust_level = ''paired'', pd_auto_accept = ''prompt''\<rparr>]
       \<lparr>db_rows = Some [], db_autoinc = 0, db_version = Some [1], db_faults = []\<rparr>)) =
     (Inr (Some \<lparr>pd_device_id = ''a'', pd_name = ''y'', pd_public_key_spki = [2], pd_first_seen = 5, pd_last_seen = 9,
             pd_trust_level = ''paired'', pd_auto_accept = ''prompt''\<rparr>), db')"
proof -
  let ?db = "\<lparr>db_rows = Some [], db_autoinc = 0, db_version = Some [1], db_faults = []\<rparr> :: paired_db"
  let ?x = "\<lparr>pd_device_id = ''a'', pd_name = ''x'', pd_public_key_spki = [1], pd_first_seen = 5, pd_last_seen = 5,
             pd_trust_level = ''paired'', pd_auto_accept = ''prompt''\<rparr>"
  let ?y = "\<lparr>pd_device_id = ''a'', pd_name = ''y'', pd_public_key_spki = [2], pd_first_seen = 9, pd_last_seen = 9,
             pd_trust_level = ''paired'', pd_auto_accept = ''prompt''\<rparr>"
  have run: "\<exists>db'. run_ops paired_perform [Pin ?x, Pin ?y] ?db = ([Pin ?x, Pin ?y], db') \<and> db_faults db' = []"
    by (simp add: insert_or_update_def sql_on_rows_def rows_upsert_def)
  then obtain db' where db': "run_ops paired_perform [Pin ?x, Pin ?y] ?db = ([Pin ?x, Pin ?y], db')" "db_faults db' = []"
    by blast
  have "table_ok pd_device_id ?db" by (simp add: table_ok_def)
  from paired_db_refines_map [OF this db'(1), of "''a''"] show ?thesis
    using paired_lookup_no_faults [of db' "''a''"] db'
    by (fastforce simp: table_view_def)
qed

text \<open>
  C24 Trust on first use: once a device is pinned with a key, and as long as no later successful
  operation pins or removes it again, a check of a presented key reports a match exactly when the two
  keys have the same public key (certificates are reduced to theirs), and a change otherwise; it never
  reports the device as unknown. The device is auto-accepted exactly when it was pinned as paired with
  the policy always.
\<close>

theorem pinned_identity_checked:
  assumes "table_ok pd_device_id db" "insert_or_update d db = (Inr (), db1)"
    and "run_ops paired_perform ops db1 = (log, db2)" "\<forall>x\<in>set log. paired_op_key x = pd_device_id d \<longrightarrow> (\<exists>t. x = Seen t (pd_device_id d))"
    and "db_faults db2 = []"
  shows "fst (verify_identity extract_spki (pd_device_id d) key db2) =
      Inr (if normalize_key extract_spki key = normalize_key extract_spki (pd_public_key_spki d) then Matched else Changed)
    \<and> (fst (should_auto_accept (pd_device_id d) db2) \<longleftrightarrow>
        pd_trust_level d = ''paired'' \<and> pd_auto_accept d = ''always'')"
proof -
  let ?view = "\<lambda>db. table_view pd_device_id db (pd_device_id d)"
  let ?pinned = "\<lambda>e. \<exists>f t. e = Some (d\<lparr>pd_first_seen := f, pd_last_seen := t\<rparr>)"
  have db1: "table_ok pd_device_id db1" "?pinned (?view db1)"
    using paired_perform_step [of db "Pin d" "Inr ()" db1 "pd_device_id d"] assms(1,2)
    by (cases "?view db"; cases d; auto)+
  have pinned_fold: "?pinned (fold paired_effect xs e)"
    if "?pinned e" "\<forall>x\<in>set xs. \<exists>t. x = Seen t (pd_device_id d)" for xs e
    using that
  proof (induction xs arbitrary: e)
    case (Cons x xs)
    then have "?pinned (paired_effect x e)" by force
    with Cons.IH Cons.prems(2) show ?case by (metis fold_simps(2) list.set_intros(2))
  qed simp
  have db2: "table_ok pd_device_id db2"
    "?view db2 = fold paired_effect (filter (\<lambda>x. paired_op_key x = pd_device_id d) log) (?view db1)"
    using paired.run_view [OF db1(1) assms(3)] by auto
  have "?pinned (?view db2)"
    unfolding db2(2) by (rule pinned_fold [OF db1(2)]) (use assms(4) in auto)
  then obtain f t where view: "?view db2 = Some (d\<lparr>pd_first_seen := f, pd_last_seen := t\<rparr>)" by blast
  obtain db' where "paired_lookup (pd_device_id d) db2 = (Inr (?view db2), db')"
    using paired_lookup_no_faults [OF db2(1) assms(5)] by blast
  then show ?thesis
    using view by (auto simp: verify_identity_def should_auto_accept_def constant_time_eq_iff Let_def)
qed

theorem pinned_identity_checked_witness:
  "let d = \<lparr>pd_device_id = ''a'', pd_name = ''x'', pd_public_key_spki = [1, 2], pd_first_seen = 5, pd_last_seen = 5,
            pd_trust_level = ''paired'', pd_auto_accept = ''always''\<rparr>;
       db2 = snd (run_ops paired_perform [Pin d, Seen 7 ''a'']
                \<lparr>db_rows = Some [], db_autoinc = 0, db_version = Some [1], db_faults = []\<rparr>)
   in fst (verify_identity (\<lambda>k. if k = [9, 1, 2] then Inr [1, 2] else Inl '''') ''a'' [9, 1, 2] db2) = Inr Matched
    \<and> fst (verify_identity (\<lambda>k. if k = [9, 1, 2] then Inr [1, 2] else Inl '''') ''a'' [1, 3] db2) = Inr Changed
    \<and> fst (should_auto_accept ''a'' db2)"
proof -
  let ?d = "\<lparr>pd_device_id = ''a'', pd_name = ''x'', pd_public_key_spki = [1, 2], pd_first_seen = 5, pd_last_seen = 5,
            pd_trust_level = ''paired'', pd_auto_accept = ''always''\<rparr>"
  let ?db = "\<lparr>db_rows = Some [], db_autoinc = 0, db_version = Some [1], db_faults = []\<rparr> :: paired_db"
  let ?x = "\<lambda>k :: bytes. if k = [9, 1, 2] then Inr [1, 2] else Inl '''' :: string + bytes"
  let ?db1 = "snd (insert_or_update ?d ?db)" and ?db2 = "snd (run_ops paired_perform [Pin ?d, Seen 7 ''a''] ?db)"
  have ok: "table_ok pd_device_id ?db" by (simp add: table_ok_def)
  have ins: "insert_or_update ?d ?db = (Inr (), ?db1)"
    by (simp add: insert_or_update_def sql_on_rows_def)
  have run: "run_ops paired_perform [Seen 7 ''a''] ?db1 = ([Seen 7 ''a''], ?db2)"
    by (simp add: insert_or_update_def sql_on_rows_def update_last_seen_def)
  have faults: "db_faults ?db2 = []"
    by (simp add: insert_or_update_def sql_on_rows_def update_last_seen_def)
  note checked = pinned_identity_checked [OF ok ins run, of ?x]
  have "fst (verify_identity ?x ''a'' [9, 1, 2] ?db2) = Inr Matched"
    using checked [of "[9, 1, 2]"] faults by (simp add: normalize_key_def)
  moreover have "fst (verify_identity ?x ''a'' [1, 3] ?db2) = Inr Changed \<and> fst (should_auto_accept ''a'' ?db2)"
    using checked [of "[1, 3]"] faults by (simp add: normalize_key_def)
  ultimately show ?thesis by (simp only: Let_def)
qed

end
