(* ===== verification/Nxfr_Discovery.thy ===== *)
theory Nxfr_Discovery
  imports Nxfr_Prelude Nxfr_Cbor_Ref
begin

text \<open>
  The crate \<open>nxfr-discovery\<close>: the advertised id of a device (\<open>privacy.rs\<close>) and the manager of the
  mDNS service (\<open>manager.rs\<close>). The mDNS library is a parameter: the outcome of registering the
  service and the events that wait in the browse channel are part of the manager's state. Addresses
  are their text.
\<close>

section \<open>Advertised ids\<close>

definition compute_advertised_id :: "(bytes \<Rightarrow> bytes) \<Rightarrow> bytes \<Rightarrow> string \<Rightarrow> string" where
  "compute_advertised_id sha256 device_id date_str =
     (let result = sha256 (device_id @ text_bytes date_str) in concat (map hex_byte (take 8 result)))"

section \<open>The manager\<close>

definition NXFR_SERVICE_TYPE :: string where
  "NXFR_SERVICE_TYPE = ''_nxfr._tcp.local.''"

definition NXFR_DEFAULT_PORT :: u16 where
  "NXFR_DEFAULT_PORT = 17394"

record DiscoveredPeer =
  dp_name :: string
  dp_device_id_hint :: string
  dp_addresses :: "string list"
  dp_port :: u16
  dp_platform :: string
  dp_version :: string

record service_info =
  si_properties :: "(string \<times> string) list"
  si_fullname :: string
  si_addresses :: "string list"
  si_port :: u16

datatype ServiceEvent = ServiceResolved service_info | OtherEvent

text \<open>
  The browse channel: the events that wait in it and whether its sending end is gone.
  \<open>dc_register\<close> holds the outcomes of the coming registrations (the full name, or an error).
\<close>

record DiscoveryManager =
  dc_device_id :: bytes
  dc_device_name :: string
  dc_platform :: string
  dc_port :: u16
  dc_registered_fullname :: "string option"
  dc_browse_receiver :: "(ServiceEvent list \<times> bool) option"
  dc_degraded :: "string option"
  dc_register :: "(string + string) list"

definition discovery_new :: "bytes \<Rightarrow> string \<Rightarrow> string \<Rightarrow> u16 \<Rightarrow> string + unit
    \<Rightarrow> (ServiceEvent list \<times> bool) option \<Rightarrow> (string + string) list \<Rightarrow> string + DiscoveryManager" where
  "discovery_new device_id device_name platform port daemon browse register =
     and_then daemon (\<lambda>_. Inr
       \<lparr>dc_device_id = device_id, dc_device_name = device_name, dc_platform = platform, dc_port = port,
        dc_registered_fullname = None, dc_browse_receiver = browse, dc_degraded = None, dc_register = register\<rparr>)"

definition advertised_properties :: "(bytes \<Rightarrow> bytes) \<Rightarrow> string \<Rightarrow> DiscoveryManager \<Rightarrow> (string \<times> string) list" where
  "advertised_properties sha256 date_str dm =
     [(''v'', ''1.0''), (''id'', compute_advertised_id sha256 (dc_device_id dm) date_str),
      (''name'', dc_device_name dm), (''plat'', dc_platform dm)]"

definition start_advertising :: "DiscoveryManager \<Rightarrow> (string + unit) \<times> DiscoveryManager" where
  "start_advertising dm =
     (if dc_registered_fullname dm \<noteq> None then (Inr (), dm)
      else case dc_register dm of
        Inl e # rest \<Rightarrow> (Inl e, dm\<lparr>dc_register := rest\<rparr>)
      | Inr fullname # rest \<Rightarrow> (Inr (), dm\<lparr>dc_register := rest, dc_registered_fullname := Some fullname\<rparr>)
      | [] \<Rightarrow> (Inr (), dm\<lparr>dc_registered_fullname := Some (dc_device_name dm @ CHR ''.'' # NXFR_SERVICE_TYPE)\<rparr>))"

definition stop_advertising :: "DiscoveryManager \<Rightarrow> (string + unit) \<times> DiscoveryManager" where
  "stop_advertising dm = (Inr (), dm\<lparr>dc_registered_fullname := None\<rparr>)"

definition peer_of_info :: "service_info \<Rightarrow> DiscoveredPeer" where
  "peer_of_info info =
     (let get = (\<lambda>k d. case map_of (si_properties info) k of None \<Rightarrow> d | Some v \<Rightarrow> v)
      in \<lparr>dp_name = get ''name'' (si_fullname info), dp_device_id_hint = get ''id'' '''',
          dp_addresses = si_addresses info, dp_port = si_port info,
          dp_platform = get ''plat'' '''', dp_version = get ''v'' ''''\<rparr>)"

fun drain_events :: "ServiceEvent list \<Rightarrow> DiscoveredPeer list" where
  "drain_events [] = []"
| "drain_events (ServiceResolved info # events) = peer_of_info info # drain_events events"
| "drain_events (OtherEvent # events) = drain_events events"

definition browse_snapshot :: "DiscoveryManager \<Rightarrow> DiscoveredPeer list \<times> DiscoveryManager" where
  "browse_snapshot dm =
     (if dc_degraded dm \<noteq> None then ([], dm)
      else case dc_browse_receiver dm of
        None \<Rightarrow> ([], dm)
      | Some (events, disconnected) \<Rightarrow>
          (drain_events events,
           dm\<lparr>dc_browse_receiver := Some ([], disconnected),
              dc_degraded := (if disconnected then Some ''mDNS backend channel closed'' else None)\<rparr>))"

definition is_degraded :: "DiscoveryManager \<Rightarrow> string option" where
  "is_degraded dm = dc_degraded dm"

section \<open>Lemmas\<close>

lemma length_advertised_id:
  "length (sha256 (device_id @ text_bytes d)) = 32 \<Longrightarrow> length (compute_advertised_id sha256 device_id d) = 16"
  using length_hex_encode [of "take 8 (sha256 (device_id @ text_bytes d))"]
  by (simp add: compute_advertised_id_def hex_encode_def Let_def)

lemma start_advertising_registered:
  "start_advertising dm = (Inr (), dm') \<Longrightarrow> dc_registered_fullname dm' \<noteq> None"
  by (auto simp: start_advertising_def split: if_splits list.splits sum.splits)

lemma start_advertising_fails:
  "start_advertising dm = (Inl e, dm') \<Longrightarrow> dc_registered_fullname dm' = None"
  by (auto simp: start_advertising_def split: if_splits list.splits sum.splits)

end
