(* ===== verification/Nxfr_Frame.thy ===== *)
theory Nxfr_Frame
  imports Nxfr_Common
begin

text \<open>
  The frame header of \<open>nxfr-core/src/frame.rs\<close> and the two binary payloads,
  \<open>chunk.rs\<close> and \<open>keepalive.rs\<close>. Every parser returns the error of the first failing check,
  in the order of the code. SHA-256 is the parameter \<open>sha256\<close>.
\<close>

section \<open>Frame headers\<close>

datatype FrameKind = Control | Chunk | Keepalive

definition from_u8 :: "u8 \<Rightarrow> FrameError + FrameKind" where
  "from_u8 v =
     (if v = 0x01 then Inr Control
      else if v = 0x02 then Inr Chunk
      else if v = 0x03 then Inr Keepalive
      else Inl (UnknownKind v))"

fun kind_as_u8 :: "FrameKind \<Rightarrow> u8" where
  "kind_as_u8 Control = 0x01"
| "kind_as_u8 Chunk = 0x02"
| "kind_as_u8 Keepalive = 0x03"

fun kind_as_str :: "FrameKind \<Rightarrow> string" where
  "kind_as_str Control = ''CONTROL''"
| "kind_as_str Chunk = ''CHUNK''"
| "kind_as_str Keepalive = ''KEEPALIVE''"

datatype FrameFlags = FrameFlags (flag_bits: u16)

definition is_last_chunk :: "FrameFlags \<Rightarrow> bool" where
  "is_last_chunk f \<longleftrightarrow> and (flag_bits f) 0x0001 \<noteq> 0"

definition is_pong :: "FrameFlags \<Rightarrow> bool" where
  "is_pong f \<longleftrightarrow> and (flag_bits f) 0x0001 \<noteq> 0"

definition flags_empty :: FrameFlags where
  "flags_empty = FrameFlags 0x0000"

definition flags_last_chunk :: FrameFlags where
  "flags_last_chunk = FrameFlags 0x0001"

definition flags_pong :: FrameFlags where
  "flags_pong = FrameFlags 0x0001"

record FrameHeader =
  kind :: FrameKind
  flags :: FrameFlags
  session_id :: SessionId
  stream_id :: StreamId
  message_id :: u64
  payload_len :: u32

definition validate_payload_len :: "FrameHeader \<Rightarrow> FrameError + unit" where
  "validate_payload_len h =
     (case kind h of
        Control \<Rightarrow>
          if payload_len h > CONTROL_PAYLOAD_MAX
          then Inl (PayloadTooLarge (kind_as_str (kind h)) (payload_len h) CONTROL_PAYLOAD_MAX)
          else Inr ()
      | Chunk \<Rightarrow>
          if payload_len h < CHUNK_PAYLOAD_MIN
          then Inl (ChunkPayloadTooSmall (payload_len h))
          else if payload_len h > CHUNK_PAYLOAD_MAX
          then Inl (PayloadTooLarge (kind_as_str (kind h)) (payload_len h) CHUNK_PAYLOAD_MAX)
          else Inr ()
      | Keepalive \<Rightarrow>
          if payload_len h \<noteq> 0 \<and> payload_len h \<noteq> KEEPALIVE_PAYLOAD_MAX
          then Inl (KeepalivePayloadInvalid (payload_len h))
          else Inr ())"

definition header_parse :: "bytes \<Rightarrow> FrameError + FrameHeader" where
  "header_parse buf =
     (if length buf < FRAME_HEADER_SIZE then Inl (IncompleteHeader (length buf))
      else if subslice 0 4 buf \<noteq> FRAME_MAGIC then Inl InvalidMagic
      else if buf ! 4 \<noteq> FRAME_VERSION then Inl (UnsupportedVersion (buf ! 4))
      else and_then (from_u8 (buf ! 5)) (\<lambda>k.
        let h = \<lparr>kind = k,
                 flags = FrameFlags (u16_from_be_bytes (subslice 6 8 buf)),
                 session_id = u32_from_be_bytes (subslice 8 12 buf),
                 stream_id = u32_from_be_bytes (subslice 12 16 buf),
                 message_id = u64_from_be_bytes (subslice 16 24 buf),
                 payload_len = u32_from_be_bytes (subslice 24 28 buf)\<rparr>
        in and_then (validate_payload_len h) (\<lambda>_. Inr h)))"

definition header_serialize :: "FrameHeader \<Rightarrow> bytes" where
  "header_serialize h =
     FRAME_MAGIC @ [FRAME_VERSION] @ [kind_as_u8 (kind h)]
     @ u16_to_be_bytes (flag_bits (flags h))
     @ u32_to_be_bytes (session_id h)
     @ u32_to_be_bytes (stream_id h)
     @ u64_to_be_bytes (message_id h)
     @ u32_to_be_bytes (payload_len h)"

section \<open>Chunk payloads\<close>

record ChunkPayload =
  offset :: u64
  chunk_hash :: bytes
  data :: bytes

definition chunk_parse :: "bytes \<Rightarrow> FrameError + ChunkPayload" where
  "chunk_parse payload =
     (if length payload < 41 then Inl (ChunkPayloadTooSmall (of_nat (length payload)))
      else Inr \<lparr>offset = u64_from_be_bytes (subslice 0 8 payload),
                chunk_hash = subslice 8 40 payload,
                data = drop 40 payload\<rparr>)"

definition chunk_serialize :: "ChunkPayload \<Rightarrow> bytes" where
  "chunk_serialize c = u64_to_be_bytes (offset c) @ chunk_hash c @ data c"

definition verify_hash :: "(bytes \<Rightarrow> bytes) \<Rightarrow> ChunkPayload \<Rightarrow> bool" where
  "verify_hash sha256 c \<longleftrightarrow> chunk_hash c = sha256 (data c)"

section \<open>Keepalive payloads\<close>

datatype KeepalivePayload = Empty | Timestamp u64

definition keepalive_parse :: "bytes \<Rightarrow> FrameError + KeepalivePayload" where
  "keepalive_parse payload =
     (if length payload = 0 then Inr Empty
      else if length payload = 8 then Inr (Timestamp (u64_from_be_bytes payload))
      else Inl (KeepalivePayloadInvalid (of_nat (length payload))))"

fun keepalive_serialize :: "KeepalivePayload \<Rightarrow> bytes" where
  "keepalive_serialize Empty = []"
| "keepalive_serialize (Timestamp ts) = u64_to_be_bytes ts"

section \<open>Lemmas\<close>

lemma length_FRAME_MAGIC [simp]: "length FRAME_MAGIC = 4"
  by (simp add: FRAME_MAGIC_def)

lemma length_header_serialize [simp, wire_simps]: "length (header_serialize h) = 28"
  by (simp add: header_serialize_def)

lemma from_u8_kind_as_u8 [simp]: "from_u8 (kind_as_u8 k) = Inr k"
  by (cases k) (simp_all add: from_u8_def)

lemma from_u8_Inr: "from_u8 v = Inr k \<Longrightarrow> v = kind_as_u8 k"
  by (auto simp: from_u8_def split: if_splits)

lemma from_u8_Inl: "from_u8 v = Inl e \<longleftrightarrow> v \<notin> {1, 2, 3} \<and> e = UnknownKind v"
  by (auto simp: from_u8_def)

text \<open>The positions of the fields in a serialized header.\<close>

lemma header_serialize_fields:
  fixes r :: bytes
  shows "subslice 0 4 (header_serialize h @ r) = FRAME_MAGIC"
    "(header_serialize h @ r) ! 4 = FRAME_VERSION"
    "(header_serialize h @ r) ! 5 = kind_as_u8 (kind h)"
    "subslice 6 8 (header_serialize h @ r) = u16_to_be_bytes (flag_bits (flags h))"
    "subslice 8 12 (header_serialize h @ r) = u32_to_be_bytes (session_id h)"
    "subslice 12 16 (header_serialize h @ r) = u32_to_be_bytes (stream_id h)"
    "subslice 16 24 (header_serialize h @ r) = u64_to_be_bytes (message_id h)"
    "subslice 24 28 (header_serialize h @ r) = u32_to_be_bytes (payload_len h)"
  by (simp_all add: header_serialize_def subslice_def nth_append)

text \<open>
  Parsing a serialized header, with any bytes after it, is exactly the payload-length check.
\<close>

lemma header_parse_serialize:
  "header_parse (header_serialize h @ r) = and_then (validate_payload_len h) (\<lambda>_. Inr h)"
  by (cases h) (simp add: header_parse_def FRAME_HEADER_SIZE_def header_serialize_fields Let_def)

lemma header_serialize_inject: "header_serialize a = header_serialize b \<longleftrightarrow> a = b"
proof
  assume *: "header_serialize a = header_serialize b"
  have "kind_as_u8 (kind a) = kind_as_u8 (kind b)"
    "u16_to_be_bytes (flag_bits (flags a)) = u16_to_be_bytes (flag_bits (flags b))"
    "u32_to_be_bytes (session_id a) = u32_to_be_bytes (session_id b)"
    "u32_to_be_bytes (stream_id a) = u32_to_be_bytes (stream_id b)"
    "u64_to_be_bytes (message_id a) = u64_to_be_bytes (message_id b)"
    "u32_to_be_bytes (payload_len a) = u32_to_be_bytes (payload_len b)"
    using * header_serialize_fields [of a "[]"] header_serialize_fields [of b "[]"] by simp_all
  then have "kind a = kind b" "flag_bits (flags a) = flag_bits (flags b)"
    "session_id a = session_id b" "stream_id a = stream_id b" "message_id a = message_id b"
    "payload_len a = payload_len b"
    by (metis from_u8_kind_as_u8 sum.inject(2) u16_be_roundtrip u32_be_roundtrip u64_be_roundtrip)+
  then show "a = b" by (simp add: FrameFlags.expand)
qed simp

text \<open>The fixed part of a header is the only thing that keeps 28 bytes from being a serialized header.\<close>

lemma header_serialize_surj:
  assumes len: "28 \<le> length buf" and magic: "take 4 buf = FRAME_MAGIC"
    and ver: "buf ! 4 = FRAME_VERSION" and k: "from_u8 (buf ! 5) = Inr k"
  shows "take 28 buf = header_serialize
    \<lparr>kind = k, flags = FrameFlags (u16_from_be_bytes (subslice 6 8 buf)),
     session_id = u32_from_be_bytes (subslice 8 12 buf),
     stream_id = u32_from_be_bytes (subslice 12 16 buf),
     message_id = u64_from_be_bytes (subslice 16 24 buf),
     payload_len = u32_from_be_bytes (subslice 24 28 buf)\<rparr>"
proof -
  have "subslice 4 6 buf = [buf ! 4] @ [buf ! 5]"
    using len by (simp add: subslice_def take_Suc_conv_app_nth numeral_2_eq_2)
  then have "subslice 4 6 buf = [FRAME_VERSION] @ [kind_as_u8 k]"
    using ver from_u8_Inr [OF k] by simp
  moreover have "subslice 0 4 buf = FRAME_MAGIC" using magic by (simp add: subslice_def)
  moreover have "take 28 buf = subslice 0 4 buf @ subslice 4 6 buf @ subslice 6 8 buf
      @ subslice 8 12 buf @ subslice 12 16 buf @ subslice 16 24 buf @ subslice 24 28 buf"
    by (simp add: subslice_join) (simp add: subslice_def)
  ultimately show ?thesis
    using len by (simp add: header_serialize_def u16_to_from_be u32_to_from_be u64_to_from_be)
qed

lemma header_parse_Inr:
  assumes "header_parse buf = Inr h"
  shows "28 \<le> length buf" "validate_payload_len h = Inr ()" "take 28 buf = header_serialize h"
proof -
  from assms obtain k where *: "28 \<le> length buf" "take 4 buf = FRAME_MAGIC" "buf ! 4 = FRAME_VERSION"
      "from_u8 (buf ! 5) = Inr k"
    by (auto simp: header_parse_def FRAME_HEADER_SIZE_def Let_def result_simps subslice_def
        split: if_splits)
  let ?h = "\<lparr>kind = k, flags = FrameFlags (u16_from_be_bytes (subslice 6 8 buf)),
     session_id = u32_from_be_bytes (subslice 8 12 buf),
     stream_id = u32_from_be_bytes (subslice 12 16 buf),
     message_id = u64_from_be_bytes (subslice 16 24 buf),
     payload_len = u32_from_be_bytes (subslice 24 28 buf)\<rparr>"
  have "h = ?h \<and> validate_payload_len h = Inr ()"
    using assms * by (auto simp: header_parse_def FRAME_HEADER_SIZE_def Let_def result_simps
        subslice_def)
  then have "h = ?h" "validate_payload_len h = Inr ()" by blast+
  then show "28 \<le> length buf" "validate_payload_len h = Inr ()" "take 28 buf = header_serialize h"
    using header_serialize_surj [OF *] *(1) by (simp_all only:)
qed

lemma chunk_parse_serialize:
  assumes "length (chunk_hash c) = 32" "data c \<noteq> []"
  shows "chunk_parse (chunk_serialize c) = Inr c"
proof -
  have "\<not> length (chunk_serialize c) < 41"
    using assms by (cases "data c") (simp_all add: chunk_serialize_def)
  then show ?thesis
    using assms by (simp add: chunk_parse_def chunk_serialize_def subslice_def)
qed

lemma chunk_parse_Inr:
  assumes "chunk_parse p = Inr c"
  shows "length (chunk_hash c) = 32" "data c \<noteq> []" "chunk_serialize c = p"
proof -
  from assms have len: "41 \<le> length p"
    and c: "c = \<lparr>offset = u64_from_be_bytes (subslice 0 8 p), chunk_hash = subslice 8 40 p,
                data = drop 40 p\<rparr>"
    by (auto simp: chunk_parse_def split: if_splits)
  show "length (chunk_hash c) = 32" "data c \<noteq> []" using len c by auto
  have "subslice 0 8 p @ subslice 8 40 p @ drop 40 p = subslice 0 40 p @ drop 40 p"
    by (simp flip: append_assoc add: subslice_join)
  then have "subslice 0 8 p @ subslice 8 40 p @ drop 40 p = p"
    by (simp add: subslice_def)
  then show "chunk_serialize c = p"
    using len c by (simp add: chunk_serialize_def u64_to_from_be)
qed

lemma keepalive_parse_serialize: "keepalive_parse (keepalive_serialize k) = Inr k"
  by (cases k) (simp_all add: keepalive_parse_def)

lemma keepalive_parse_Inr: "keepalive_parse p = Inr k \<Longrightarrow> keepalive_serialize k = p"
  by (auto simp: keepalive_parse_def u64_to_from_be split: if_splits)

section \<open>Properties\<close>

text \<open>
  C5 The header parser accepts exactly the serializations of the headers whose payload length is
  in range, whatever bytes follow them, and returns the header that was serialized: parsing and
  serializing are inverse to each other in both directions.
\<close>

theorem header_parse_exact:
  "header_parse buf = Inr h \<longleftrightarrow>
     (\<exists>r. buf = header_serialize h @ r) \<and> validate_payload_len h = Inr ()"
proof
  assume *: "header_parse buf = Inr h"
  have "buf = header_serialize h @ drop 28 buf"
    using header_parse_Inr(3) [OF *] append_take_drop_id [of 28 buf] by simp
  then show "(\<exists>r. buf = header_serialize h @ r) \<and> validate_payload_len h = Inr ()"
    using header_parse_Inr(2) [OF *] by blast
next
  assume "(\<exists>r. buf = header_serialize h @ r) \<and> validate_payload_len h = Inr ()"
  then show "header_parse buf = Inr h" by (auto simp: header_parse_serialize)
qed

text \<open>
  The payload length of an accepted header is within the limits of its frame kind: at most
  65536 for a control frame, 41 to 4194304 for a chunk, 0 or 8 for a keepalive. No later stage
  allocates more than 4 MiB for a payload.
\<close>

theorem header_payload_bounds:
  assumes "header_parse buf = Inr h"
  shows "case kind h of
           Control \<Rightarrow> unat (payload_len h) \<le> 65536
         | Chunk \<Rightarrow> 41 \<le> unat (payload_len h) \<and> unat (payload_len h) \<le> 4194304
         | Keepalive \<Rightarrow> unat (payload_len h) \<in> {0, 8}"
  using header_parse_Inr(2) [OF assms]
  by (auto simp: validate_payload_len_def limit_defs word_le_nat_alt word_less_nat_alt not_less
      unat_eq_zero split: FrameKind.splits if_splits)

theorem header_payload_bounds_witness:
  "unat (payload_len \<lparr>kind = Chunk, flags = FrameFlags 1, session_id = 7, stream_id = 0,
           message_id = 3, payload_len = 45\<rparr>) \<in> {41..4194304}"
proof -
  let ?h = "\<lparr>kind = Chunk, flags = FrameFlags 1, session_id = 7, stream_id = 0,
           message_id = 3, payload_len = 45\<rparr>"
  have "header_parse (header_serialize ?h @ []) = Inr ?h"
    by (simp only: header_parse_serialize) (simp add: validate_payload_len_def limit_defs)
  from header_payload_bounds [OF this] show ?thesis by simp
qed

text \<open>
  Which error the header parser reports, in the order of the checks: a short buffer, the magic,
  the version, the frame kind. A buffer that passes them is rejected only for a payload length
  that its kind does not allow.
\<close>

theorem header_parse_error_order:
  "header_parse buf = Inl e \<longleftrightarrow>
     (if length buf < 28 then e = IncompleteHeader (length buf)
      else if take 4 buf \<noteq> FRAME_MAGIC then e = InvalidMagic
      else if buf ! 4 \<noteq> 1 then e = UnsupportedVersion (buf ! 4)
      else if buf ! 5 \<notin> {1, 2, 3} then e = UnknownKind (buf ! 5)
      else (\<exists>h. take 28 buf = header_serialize h \<and> validate_payload_len h = Inl e))"
proof (cases "28 \<le> length buf \<and> take 4 buf = FRAME_MAGIC \<and> buf ! 4 = 1 \<and> buf ! 5 \<in> {1, 2, 3}")
  case True
  then obtain h where h: "take 28 buf = header_serialize h"
    using header_serialize_surj [of buf] by (auto simp: FRAME_VERSION_def from_u8_def)
  have "h' = h" if "take 28 buf = header_serialize h'" for h'
    using h that header_serialize_inject by simp
  moreover have "header_parse buf = and_then (validate_payload_len h) (\<lambda>_. Inr h)"
    using header_parse_serialize [of h "drop 28 buf"] h append_take_drop_id [of 28 buf] by simp
  ultimately show ?thesis using True h by (auto simp: and_then_Inl_iff)
next
  case False
  then show ?thesis
    by (auto simp: header_parse_def FRAME_HEADER_SIZE_def FRAME_VERSION_def subslice_def
        from_u8_def)
qed

text \<open>
  The chunk parser accepts exactly the serializations of the chunks with a 32-byte hash and a
  non-empty body, and returns the chunk that was serialized.
\<close>

theorem chunk_parse_exact:
  "chunk_parse p = Inr c \<longleftrightarrow> p = chunk_serialize c \<and> length (chunk_hash c) = 32 \<and> data c \<noteq> []"
  using chunk_parse_Inr chunk_parse_serialize by metis

text \<open>
  The keepalive parser accepts exactly the serialized keepalive payloads (the empty one and an
  eight-byte timestamp) and reports the length of every other payload.
\<close>

theorem keepalive_parse_exact:
  "(keepalive_parse p = Inr k \<longleftrightarrow> p = keepalive_serialize k) \<and>
   (keepalive_parse p = Inl e \<longleftrightarrow>
      length p \<notin> {0, 8} \<and> e = KeepalivePayloadInvalid (of_nat (length p)))"
  using keepalive_parse_Inr [of p k] keepalive_parse_serialize [of k]
  by (auto simp: keepalive_parse_def)

end
