(* ===== verification/Nxfr_Transport.thy ===== *)
theory Nxfr_Transport
  imports Nxfr_Frame Nxfr_Cbor_Ref
begin

text \<open>
  The crate \<open>nxfr-transport\<close>: the frame codec on a byte stream (\<open>framing.rs\<close>) and the connection
  (\<open>connection.rs\<close>). The stream adapter \<open>Framed\<close> is a library: a connection holds what the
  adapter will yield (\<open>rx\<close>: frames and errors, then end of stream), what was handed to it (\<open>tx\<close>) and
  the outcomes of the coming sends. The text of an I/O error is not modelled; the error that it
  wraps is.
\<close>

section \<open>The frame codec\<close>

type_synonym NxfrFrame = "FrameHeader \<times> bytes"

datatype io_error =
    IoFrameHeader FrameError
  | IoEncode CodecError
  | IoUnexpectedEof
  | IoOther string

text \<open>
  \<open>Decoder::decode\<close> returns the frame and the buffer without it; \<open>None\<close> asks for more bytes and
  leaves the buffer alone (reserving capacity does not change its contents).
\<close>

definition frame_decode :: "bytes \<Rightarrow> io_error + (NxfrFrame option \<times> bytes)" where
  "frame_decode src =
     (if length src < 28 then Inr (None, src)
      else and_then (map_err IoFrameHeader (header_parse (take 28 src))) (\<lambda>header.
        let total_len = 28 + unat (payload_len header)
        in if length src < total_len then Inr (None, src)
           else let src' = drop 28 src;
                    payload = take (unat (payload_len header)) src'
                in Inr (Some (header, payload), drop (unat (payload_len header)) src')))"

definition frame_encode :: "NxfrFrame \<Rightarrow> bytes \<Rightarrow> bytes" where
  "frame_encode item dst = (case item of (header, payload) \<Rightarrow> dst @ header_serialize header @ payload)"

section \<open>The connection\<close>

record NxfrConnection =
  rx :: "(io_error + NxfrFrame) list"
  tx :: "NxfrFrame list"
  send_outcomes :: "io_error option list"
  next_message_id :: u64

definition connection_new :: "(io_error + NxfrFrame) list \<Rightarrow> io_error option list \<Rightarrow> NxfrConnection" where
  "connection_new incoming outcomes =
     \<lparr>rx = incoming, tx = [], send_outcomes = outcomes, next_message_id = 1\<rparr>"

text \<open>
  \<open>framed.send\<close>: the next outcome decides; once the outcomes are used up every send succeeds.
\<close>

definition framed_send :: "NxfrFrame \<Rightarrow> NxfrConnection \<Rightarrow> (io_error + unit) \<times> NxfrConnection" where
  "framed_send frame conn =
     (case send_outcomes conn of
        Some e # rest \<Rightarrow> (Inl e, conn\<lparr>send_outcomes := rest\<rparr>)
      | None # rest \<Rightarrow> (Inr (), conn\<lparr>tx := tx conn @ [frame], send_outcomes := rest\<rparr>)
      | [] \<Rightarrow> (Inr (), conn\<lparr>tx := tx conn @ [frame]\<rparr>))"

definition send_frame :: "FrameKind \<Rightarrow> FrameFlags \<Rightarrow> u32 \<Rightarrow> u32 \<Rightarrow> bytes \<Rightarrow> NxfrConnection
    \<Rightarrow> (io_error + u64) \<times> NxfrConnection" where
  "send_frame k fl session stream payload conn =
     (let msg_id = next_message_id conn;
          header = \<lparr>kind = k, flags = fl, session_id = session, stream_id = stream,
                    message_id = msg_id, payload_len = of_nat (length payload)\<rparr>
      in case framed_send (header, payload) conn of
           (Inl e, conn') \<Rightarrow> (Inl e, conn')
         | (Inr _, conn') \<Rightarrow> (Inr msg_id, conn'\<lparr>next_message_id := next_message_id conn' + 1\<rparr>))"

definition send_control :: "(Value \<Rightarrow> string + bytes) \<Rightarrow> u32 \<Rightarrow> u32 \<Rightarrow> ControlMessage \<Rightarrow> NxfrConnection
    \<Rightarrow> (io_error + u64) \<times> NxfrConnection" where
  "send_control into_writer session stream msg conn =
     (case encode_control into_writer msg of
        Inl e \<Rightarrow> (Inl (IoEncode e), conn)
      | Inr payload \<Rightarrow> send_frame Control (FrameFlags 0) session stream payload conn)"

definition send_chunk :: "u32 \<Rightarrow> u32 \<Rightarrow> u16 \<Rightarrow> bytes \<Rightarrow> NxfrConnection \<Rightarrow> (io_error + u64) \<times> NxfrConnection" where
  "send_chunk session stream fl payload conn = send_frame Chunk (FrameFlags fl) session stream payload conn"

definition send_raw :: "NxfrFrame \<Rightarrow> NxfrConnection \<Rightarrow> (io_error + unit) \<times> NxfrConnection" where
  "send_raw frame conn = framed_send frame conn"

definition recv_frame :: "NxfrConnection \<Rightarrow> (io_error + NxfrFrame) \<times> NxfrConnection" where
  "recv_frame conn =
     (case rx conn of
        Inr frame # rest \<Rightarrow> (Inr frame, conn\<lparr>rx := rest\<rparr>)
      | Inl e # rest \<Rightarrow> (Inl e, conn\<lparr>rx := rest\<rparr>)
      | [] \<Rightarrow> (Inl IoUnexpectedEof, conn))"

section \<open>Lemmas on the codec\<close>

text \<open>A frame that a peer's parser accepts.\<close>

definition wf_frame :: "NxfrFrame \<Rightarrow> bool" where
  "wf_frame f \<longleftrightarrow> validate_payload_len (fst f) = Inr () \<and> unat (payload_len (fst f)) = length (snd f)"

definition frame_bytes :: "NxfrFrame \<Rightarrow> bytes" where
  "frame_bytes f = frame_encode f []"

lemma frame_encode_append: "frame_encode f dst = dst @ frame_bytes f"
  by (cases f) (simp add: frame_bytes_def frame_encode_def)

lemma length_frame_bytes: "length (frame_bytes f) = 28 + length (snd f)"
  by (cases f) (simp add: frame_bytes_def frame_encode_def)

lemma frame_decode_encode: "wf_frame f \<Longrightarrow> frame_decode (frame_bytes f @ r) = Inr (Some f, r)"
  using header_parse_serialize [of "fst f" "[]"]
  by (cases f) (simp add: frame_decode_def frame_bytes_def frame_encode_def wf_frame_def)

lemma frame_decode_Some:
  assumes "frame_decode src = Inr (Some f, r)"
  shows "wf_frame f \<and> src = frame_bytes f @ r"
proof -
  obtain h p where f: "f = (h, p)" by (cases f)
  from assms f have parse: "header_parse (take 28 src) = Inr h"
    and len: "28 + unat (payload_len h) \<le> length src"
    and p: "p = take (unat (payload_len h)) (drop 28 src)" "r = drop (unat (payload_len h)) (drop 28 src)"
    by (auto simp: frame_decode_def Let_def result_simps split: if_splits)
  from header_parse_Inr [OF parse] len have "take 28 src = header_serialize h"
    and "validate_payload_len h = Inr ()"
    by (simp_all add: min_def)
  moreover from p have "drop 28 src = p @ r" by (simp only: append_take_drop_id)
  ultimately show ?thesis
    using f p len append_take_drop_id [of 28 src]
    by (simp add: wf_frame_def frame_bytes_def frame_encode_def)
qed

lemma frame_decode_None: "frame_decode src = Inr (None, r) \<Longrightarrow> r = src"
  by (auto simp: frame_decode_def Let_def result_simps split: if_splits)

lemma frame_decode_more:
  "frame_decode src = Inr (Some f, r) \<Longrightarrow> frame_decode (src @ ext) = Inr (Some f, r @ ext)"
  using frame_decode_Some [of src f r] frame_decode_encode [of f "r @ ext"] by simp

lemma frame_decode_error_more: "frame_decode src = Inl e \<Longrightarrow> frame_decode (src @ ext) = Inl e"
  by (auto simp: frame_decode_def Let_def and_then_Inl_iff split: if_splits)

text \<open>
  A reader that decodes until more bytes are needed, and one that does so after each segment that
  arrives. Both return the frames, and the error or the bytes left over.
\<close>

function decode_all :: "bytes \<Rightarrow> NxfrFrame list \<times> (io_error + bytes)" where
  "decode_all src =
     (case frame_decode src of
        Inl e \<Rightarrow> ([], Inl e)
      | Inr (None, r) \<Rightarrow> ([], Inr r)
      | Inr (Some f, r) \<Rightarrow> (case decode_all r of (fs, res) \<Rightarrow> (f # fs, res)))"
  by pat_completeness auto
termination
  by (relation "measure length") (auto dest!: frame_decode_Some simp: length_frame_bytes)

declare decode_all.simps [simp del]

fun decode_segments :: "bytes \<Rightarrow> bytes list \<Rightarrow> NxfrFrame list \<times> (io_error + bytes)" where
  "decode_segments buf [] = ([], Inr buf)"
| "decode_segments buf (seg # segs) =
     (case decode_all (buf @ seg) of
        (fs, Inl e) \<Rightarrow> (fs, Inl e)
      | (fs, Inr rest) \<Rightarrow> (case decode_segments rest segs of (fs', res) \<Rightarrow> (fs @ fs', res)))"

lemma decode_all_frames:
  "\<forall>f\<in>set fs. wf_frame f \<Longrightarrow>
     decode_all (concat (map frame_bytes fs) @ r) = (case decode_all r of (fs', res) \<Rightarrow> (fs @ fs', res))"
proof (induction fs)
  case Nil
  then show ?case by (simp split: prod.splits)
next
  case (Cons f fs)
  then show ?case
    by (subst decode_all.simps) (simp add: frame_decode_encode split: prod.splits)
qed

lemma decode_all_more:
  "decode_all src = (fs, res) \<Longrightarrow> decode_all (src @ ext) =
     (case res of Inl e \<Rightarrow> (fs, Inl e)
      | Inr r \<Rightarrow> (case decode_all (r @ ext) of (fs', res') \<Rightarrow> (fs @ fs', res')))"
proof (induction src arbitrary: fs res rule: decode_all.induct)
  case (1 src)
  show ?case
  proof (cases "frame_decode src")
    case (Inl e)
    then show ?thesis
      using "1.prems" frame_decode_error_more [OF Inl, of ext] by (auto simp: decode_all.simps)
  next
    case (Inr q)
    show ?thesis
    proof (cases "fst q")
      case None
      then obtain r where q: "q = (None, r)" by (cases q) simp
      then have "res = Inr src \<and> fs = []"
        using "1.prems" Inr frame_decode_None [of src r] by (auto simp: decode_all.simps [of src])
      then show ?thesis by (simp split: prod.splits)
    next
      case (Some f)
      then obtain r where q: "q = (Some f, r)" by (cases q) simp
      obtain fs' res' where rec: "decode_all r = (fs', res')" by (cases "decode_all r")
      then have eq: "fs = f # fs'" "res = res'"
        using "1.prems" Inr q by (auto simp: decode_all.simps [of src])
      have "decode_all (r @ ext) = (case res' of Inl e \<Rightarrow> (fs', Inl e)
          | Inr r \<Rightarrow> (case decode_all (r @ ext) of (fs'', res'') \<Rightarrow> (fs' @ fs'', res'')))"
        using "1.IH" [OF Inr q [symmetric] refl rec] q by simp
      then show ?thesis
        using frame_decode_more [of src f r ext] Inr q eq
        by (subst decode_all.simps) (auto split: sum.splits prod.splits)
    qed
  qed
qed

lemma decode_all_rest: "decode_all src = (fs, Inr r) \<Longrightarrow> decode_all r = ([], Inr r)"
proof (induction src arbitrary: fs rule: decode_all.induct)
  case (1 src)
  show ?case
  proof (cases "frame_decode src")
    case (Inl e)
    then show ?thesis using "1.prems" by (simp add: decode_all.simps)
  next
    case (Inr q)
    then show ?thesis
      using "1.prems" "1.IH" [OF Inr] frame_decode_None [of src]
      by (cases q; cases "fst q")
        (auto simp: decode_all.simps [of src] decode_all.simps [of r] split: prod.splits)
  qed
qed

lemma decode_segments_concat:
  "decode_all buf = ([], Inr buf) \<Longrightarrow> decode_segments buf segs = decode_all (buf @ concat segs)"
proof (induction segs arbitrary: buf)
  case (Cons seg segs)
  obtain fs res where d: "decode_all (buf @ seg) = (fs, res)" by (cases "decode_all (buf @ seg)")
  show ?case
  proof (cases res)
    case (Inl e)
    then show ?thesis using d decode_all_more [OF d, of "concat segs"] by simp
  next
    case (Inr r)
    then show ?thesis
      using d decode_all_more [OF d, of "concat segs"] Cons.IH [OF decode_all_rest, of "buf @ seg" fs r]
      by simp
  qed
qed simp

section \<open>Lemmas on the connection\<close>

text \<open>The message ids on the wire count up from 1, and the counter is the next one.\<close>

definition ids_consecutive :: "NxfrConnection \<Rightarrow> bool" where
  "ids_consecutive c \<longleftrightarrow>
     map (message_id \<circ> fst) (tx c) = map (\<lambda>i. of_nat (Suc i)) [0..<length (tx c)]
     \<and> next_message_id c = of_nat (Suc (length (tx c)))"

lemma ids_consecutive_new: "ids_consecutive (connection_new incoming outcomes)"
  by (simp add: ids_consecutive_def connection_new_def)

lemma ids_consecutive_send_frame:
  "ids_consecutive c \<Longrightarrow> ids_consecutive (snd (send_frame k fl s t p c))"
  by (auto simp: ids_consecutive_def send_frame_def framed_send_def Let_def
      split: list.splits option.splits)

lemma ids_consecutive_recv: "ids_consecutive c \<Longrightarrow> ids_consecutive (snd (recv_frame c))"
  by (auto simp: ids_consecutive_def recv_frame_def split: list.splits sum.splits)

lemma send_control_tx:
  assumes "send_control into_writer session stream msg c = (Inr i, c')"
  obtains payload h where "encode_control into_writer msg = Inr payload"
    "tx c' = tx c @ [(h, payload)]" "kind h = Control" "payload_len h = of_nat (length payload)"
    "message_id h = i" "i = next_message_id c" "rx c' = rx c"
    "session_id h = session" "stream_id h = stream"
  using assms
  by (fastforce simp: send_control_def send_frame_def framed_send_def Let_def
      split: sum.splits list.splits option.splits)

lemma send_chunk_tx:
  assumes "send_chunk session stream fl payload c = (Inr i, c')"
  shows "tx c' = tx c @ [(\<lparr>kind = Chunk, flags = FrameFlags fl, session_id = session,
      stream_id = stream, message_id = next_message_id c, payload_len = of_nat (length payload)\<rparr>, payload)]"
    "i = next_message_id c" "next_message_id c' = next_message_id c + 1" "rx c' = rx c"
  using assms
  by (auto simp: send_chunk_def send_frame_def framed_send_def Let_def
      split: list.splits option.splits)

lemma control_frame_wf:
  assumes "encode_control into_writer msg = Inr payload" "kind h = Control"
    "payload_len h = of_nat (length payload)"
  shows "wf_frame (h, payload)"
proof -
  have len: "length payload \<le> 65536"
    using assms(1) by (auto simp: encode_control_def result_simps limit_defs split: if_splits)
  then have "unat (payload_len h) = length payload"
    using assms(3) unat_of_nat_u32 [of "length payload"] by simp
  then show ?thesis
    using len assms(2)
    by (simp add: wf_frame_def validate_payload_len_def limit_defs word_less_nat_alt)
qed

text \<open>The connections that a driver can reach with the counted operations.\<close>

inductive conn_reach :: "(Value \<Rightarrow> string + bytes) \<Rightarrow> NxfrConnection \<Rightarrow> bool"
  for into_writer :: "Value \<Rightarrow> string + bytes" where
  conn_new: "conn_reach into_writer (connection_new incoming outcomes)"
| conn_control: "conn_reach into_writer c \<Longrightarrow>
    conn_reach into_writer (snd (send_control into_writer session stream msg c))"
| conn_chunk: "conn_reach into_writer c \<Longrightarrow>
    conn_reach into_writer (snd (send_chunk session stream fl payload c))"
| conn_recv: "conn_reach into_writer c \<Longrightarrow> conn_reach into_writer (snd (recv_frame c))"

lemma conn_reach_ids: "conn_reach into_writer c \<Longrightarrow> ids_consecutive c"
proof (induction rule: conn_reach.induct)
  case (conn_control c session stream msg)
  then show ?case
    by (cases "encode_control into_writer msg")
      (simp_all add: send_control_def ids_consecutive_send_frame)
qed (simp_all add: ids_consecutive_new ids_consecutive_send_frame send_chunk_def ids_consecutive_recv)

section \<open>Chunk streams\<close>

text \<open>A chunk frame for the bytes \<open>d\<close> at an offset, and a sequence of them that carries a file.\<close>

definition carries_chunk :: "(bytes \<Rightarrow> bytes) \<Rightarrow> u32 \<Rightarrow> nat \<Rightarrow> bytes \<Rightarrow> bool \<Rightarrow> NxfrFrame \<Rightarrow> bool" where
  "carries_chunk sha stream off d is_last f \<longleftrightarrow>
     kind (fst f) = Chunk \<and> stream_id (fst f) = stream \<and> (is_last_chunk (flags (fst f)) \<longleftrightarrow> is_last)
     \<and> snd f = u64_to_be_bytes (of_nat off) @ sha d @ d"

fun frames_carry :: "(bytes \<Rightarrow> bytes) \<Rightarrow> u32 \<Rightarrow> nat \<Rightarrow> NxfrFrame list \<Rightarrow> bytes \<Rightarrow> bool" where
  "frames_carry sha stream off [] file = (file = [])"
| "frames_carry sha stream off (f # fs) file =
     (\<exists>d rest. file = d @ rest \<and> d \<noteq> [] \<and> carries_chunk sha stream off d (rest = []) f
        \<and> frames_carry sha stream (off + length d) fs rest)"

text \<open>A frame that carries an encoded chunk acknowledgement.\<close>

definition is_ack_frame :: "(Value \<Rightarrow> string + bytes) \<Rightarrow> NxfrFrame \<Rightarrow> bool" where
  "is_ack_frame into_writer f \<longleftrightarrow> kind (fst f) = Control \<and>
     (\<exists>s m off l. encode_control into_writer (ChunkAck s m off l) = Inr (snd f))"

section \<open>Properties\<close>

text \<open>
  C13 The frames that the decoder yields depend on the bytes received and not on how the transport
  cut them into segments: decoding after each segment gives the same frames, the same error and
  the same bytes left over as decoding the whole stream at once.
\<close>

theorem decode_segmentation_independent:
  "decode_segments [] segs = decode_all (concat segs)"
  using decode_segments_concat [of "[]" segs] by (simp add: decode_all.simps frame_decode_def)

text \<open>
  C14 Frames survive the stream: a sequence of well-formed frames, encoded one after the other and
  delivered in arbitrary segments, is decoded to the same sequence with no byte left over.
\<close>

theorem frame_stream_roundtrip:
  assumes "\<forall>f\<in>set fs. wf_frame f" and "concat segs = fold frame_encode fs []"
  shows "decode_segments [] segs = (fs, Inr [])"
proof -
  have "fold frame_encode fs dst = dst @ concat (map frame_bytes fs)" for dst
    by (induction fs arbitrary: dst) (simp_all add: frame_encode_append)
  then show ?thesis
    using decode_segments_concat [of "[]" segs] decode_all_frames [OF assms(1), of "[]"] assms(2)
    by (simp add: decode_all.simps [of "[]"] frame_decode_def)
qed

theorem frame_stream_roundtrip_witness:
  "decode_segments [] [take 10 (header_serialize \<lparr>kind = Keepalive, flags = FrameFlags 0, session_id = 1,
       stream_id = 0, message_id = 9, payload_len = 0\<rparr>),
     drop 10 (header_serialize \<lparr>kind = Keepalive, flags = FrameFlags 0, session_id = 1,
       stream_id = 0, message_id = 9, payload_len = 0\<rparr>)]
   = ([(\<lparr>kind = Keepalive, flags = FrameFlags 0, session_id = 1, stream_id = 0, message_id = 9,
         payload_len = 0\<rparr>, [])], Inr [])"
  by (rule frame_stream_roundtrip)
    (simp_all add: wf_frame_def validate_payload_len_def frame_encode_def)

text \<open>
  The message ids of a connection: whatever sequence of sends (successful or failed) and
  receives, the frames handed to the stream carry the ids 1, 2, 3 and so on, and the counter is
  the next one.
\<close>

theorem message_ids_consecutive:
  assumes "conn_reach into_writer c"
  shows "map (message_id \<circ> fst) (tx c) = map (\<lambda>i. of_nat (Suc i)) [0..<length (tx c)]
    \<and> next_message_id c = of_nat (Suc (length (tx c)))"
  using conn_reach_ids [OF assms] by (simp add: ids_consecutive_def)

theorem message_ids_consecutive_witness:
  "map (message_id \<circ> fst) (tx (snd (send_chunk 1 2 0 [7]
      (snd (send_chunk 1 2 0 [8] (connection_new [] [Some IoUnexpectedEof])))))) = [1]"
proof -
  let ?c = "snd (send_chunk 1 2 0 [7] (snd (send_chunk 1 2 0 [8]
      (connection_new [] [Some IoUnexpectedEof]))))"
  have "conn_reach ref_into_writer ?c" by (intro conn_reach.intros)
  moreover have "length (tx ?c) = 1"
    by (simp add: send_chunk_def send_frame_def framed_send_def connection_new_def)
  ultimately show ?thesis using message_ids_consecutive [of ref_into_writer ?c] by simp
qed

text \<open>
  A control message sent is the message the peer reads: the frame that a successful
  \<open>send_control\<close> puts on the wire is accepted by the peer's frame decoder, and its payload decodes to
  the message.
\<close>

theorem control_message_delivered:
  assumes "cbor_library from_reader into_writer" "canonical_msg msg"
    and "send_control into_writer session stream msg c = (Inr i, c')"
  shows "\<exists>frame. tx c' = tx c @ [frame] \<and> message_id (fst frame) = i \<and>
    frame_decode (frame_encode frame []) = Inr (Some frame, []) \<and>
    decode_control from_reader (snd frame) = Inr msg"
proof -
  obtain payload h where *: "encode_control into_writer msg = Inr payload"
    "tx c' = tx c @ [(h, payload)]" "kind h = Control" "payload_len h = of_nat (length payload)"
    "message_id h = i"
    using send_control_tx [OF assms(3)] by metis
  then have "frame_decode (frame_bytes (h, payload) @ []) = Inr (Some (h, payload), [])"
    by (intro frame_decode_encode control_frame_wf)
  moreover have "decode_control from_reader payload = Inr msg"
    using cbor_library.decode_encode_wire [OF assms(1,2)] * by blast
  ultimately show ?thesis using * by (auto simp: frame_bytes_def)
qed

theorem control_message_delivered_witness:
  "\<exists>frame (c' :: NxfrConnection). tx c' = [frame] \<and> decode_control ref_from_reader (snd frame) = Inr PairAccept"
proof -
  have "\<exists>bs. encode_control ref_into_writer PairAccept = Inr bs"
    by (simp add: write_eval limit_defs)
  then obtain i c' where "send_control ref_into_writer 0 0 PairAccept (connection_new [] []) = (Inr i, c')"
    by (auto simp: send_control_def send_frame_def framed_send_def connection_new_def)
  note sent = this
  have "canonical_msg PairAccept" by simp
  from control_message_delivered [OF ref_cbor.cbor_library_axioms this sent]
  obtain frame where f: "tx c' = tx (connection_new [] []) @ [frame]"
    "decode_control ref_from_reader (snd frame) = Inr PairAccept"
    by blast
  then have "tx c' = [frame]" by (simp add: connection_new_def)
  with f(2) show ?thesis by blast
qed

end
