(* ===== verification/Nxfr_Sender.thy ===== *)
theory Nxfr_Sender
  imports Nxfr_Transport
begin

text \<open>
  The file sender, \<open>nxfr-daemon/src/sender.rs\<close>: it streams a file as chunk frames with at most
  eight unacknowledged, then waits for the remaining acknowledgements. Offsets and sizes of the
  file in memory are naturals, written to the wire as \<open>u64\<close>; sums of peer-supplied lengths wrap at
  64 bits. Progress events are recorded in the order in which they are offered to the channel; log
  output is not modelled.
\<close>

section \<open>State\<close>

definition MAX_IN_FLIGHT :: nat where
  "MAX_IN_FLIGHT = 8"

definition CHUNK_DATA_SIZE :: nat where
  "CHUNK_DATA_SIZE = 1024 * 1024"

datatype send_error = SendConn io_error | SendCodec CodecError

record Progress =
  pg_transfer_id :: string
  pg_bytes_sent :: u64
  pg_total_bytes :: u64
  pg_file_name :: string
  pg_files_done :: nat
  pg_files_total :: nat

record send_args =
  sa_session_id :: u32
  sa_stream_id :: u32
  sa_progress :: bool
  sa_file_name :: string
  sa_total_file_size :: u64

record send_state =
  sd_conn :: NxfrConnection
  sd_in_flight :: nat
  sd_acked :: u64
  sd_events :: "Progress list"

section \<open>Waiting for acknowledgements\<close>

text \<open>
  One turn of a waiting loop: take a frame; a chunk acknowledgement frees a slot of the window.
  The last turn of the final loop reports the file as done.
\<close>

definition ack_turn :: "(bytes \<Rightarrow> string + Value) \<Rightarrow> send_args \<Rightarrow> bool \<Rightarrow> send_state
    \<Rightarrow> (send_error + unit) \<times> send_state" where
  "ack_turn from_reader a final s =
     (case recv_frame (sd_conn s) of
        (Inl e, c) \<Rightarrow> (Inl (SendConn e), s\<lparr>sd_conn := c\<rparr>)
      | (Inr (hdr, payload), c) \<Rightarrow>
          let s1 = s\<lparr>sd_conn := c\<rparr>
          in if kind hdr = Control then
               (case decode_control from_reader payload of
                  Inl e \<Rightarrow> (Inl (SendCodec e), s1)
                | Inr (ChunkAck _ _ _ len) \<Rightarrow>
                    let acked = sd_acked s1 + len;
                        in_flight = sd_in_flight s1 - 1;
                        event = \<lparr>pg_transfer_id = '''', pg_bytes_sent = acked,
                                 pg_total_bytes = sa_total_file_size a, pg_file_name = sa_file_name a,
                                 pg_files_done = (if final \<and> in_flight = 0 then 1 else 0), pg_files_total = 1\<rparr>
                    in (Inr (), s1\<lparr>sd_acked := acked, sd_in_flight := in_flight,
                          sd_events := sd_events s1 @ (if sa_progress a then [event] else [])\<rparr>)
                | Inr _ \<Rightarrow> (Inr (), s1))
             else (Inr (), s1))"

lemma ack_turn_shorter:
  "(Inr u, s') = ack_turn from_reader a final s \<Longrightarrow> length (rx (sd_conn s')) < length (rx (sd_conn s))"
  by (auto simp: ack_turn_def recv_frame_def Let_def
      split: list.splits sum.splits ControlMessage.splits if_splits)

text \<open>\<open>while in_flight >= limit\<close>: limit 8 in the window loop, 1 in the final loop.\<close>

function wait_acks :: "(bytes \<Rightarrow> string + Value) \<Rightarrow> send_args \<Rightarrow> bool \<Rightarrow> nat \<Rightarrow> send_state
    \<Rightarrow> (send_error + unit) \<times> send_state" where
  "wait_acks from_reader a final limit s =
     (if sd_in_flight s \<ge> limit then
        (case ack_turn from_reader a final s of
           (Inl e, s') \<Rightarrow> (Inl e, s')
         | (Inr _, s') \<Rightarrow> wait_acks from_reader a final limit s')
      else (Inr (), s))"
  by pat_completeness auto
termination
  by (relation "measure (\<lambda>(fr, a, final, limit, s). length (rx (sd_conn s)))")
    (auto intro: ack_turn_shorter)

declare wait_acks.simps [simp del]

definition wait_window :: "(bytes \<Rightarrow> string + Value) \<Rightarrow> send_args \<Rightarrow> send_state \<Rightarrow> (send_error + unit) \<times> send_state" where
  "wait_window from_reader a s = wait_acks from_reader a False MAX_IN_FLIGHT s"

definition drain_acks :: "(bytes \<Rightarrow> string + Value) \<Rightarrow> send_args \<Rightarrow> send_state \<Rightarrow> (send_error + unit) \<times> send_state" where
  "drain_acks from_reader a s = wait_acks from_reader a True 1 s"

section \<open>Sending\<close>

definition chunk_end :: "bytes \<Rightarrow> nat \<Rightarrow> nat" where
  "chunk_end file_data off = min (off + CHUNK_DATA_SIZE) (length file_data)"

definition send_one :: "(bytes \<Rightarrow> bytes) \<Rightarrow> send_args \<Rightarrow> bytes \<Rightarrow> nat \<Rightarrow> send_state
    \<Rightarrow> (send_error + unit) \<times> send_state" where
  "send_one sha256 a file_data off s =
     (let stop = chunk_end file_data off;
          chunk_data = subslice off stop file_data;
          is_last = (stop = length file_data);
          chunk_payload = u64_to_be_bytes (of_nat off) @ sha256 chunk_data @ chunk_data;
          fl = (if is_last then 0x0001 else 0x0000)
      in case send_chunk (sa_session_id a) (sa_stream_id a) fl chunk_payload (sd_conn s) of
           (Inl e, c) \<Rightarrow> (Inl (SendConn e), s\<lparr>sd_conn := c\<rparr>)
         | (Inr _, c) \<Rightarrow> (Inr (), s\<lparr>sd_conn := c, sd_in_flight := sd_in_flight s + 1\<rparr>))"

lemma chunk_end_greater: "off < length file_data \<Longrightarrow> off < chunk_end file_data off"
  by (simp add: chunk_end_def CHUNK_DATA_SIZE_def)

lemma chunk_end_decreases:
  "off < length file_data \<Longrightarrow> length file_data - chunk_end file_data off < length file_data - off"
  using chunk_end_greater by (intro diff_less_mono2)

function send_loop :: "(bytes \<Rightarrow> bytes) \<Rightarrow> (bytes \<Rightarrow> string + Value) \<Rightarrow> send_args \<Rightarrow> bytes \<Rightarrow> nat \<Rightarrow> send_state
    \<Rightarrow> (send_error + unit) \<times> send_state" where
  "send_loop sha256 from_reader a file_data off s =
     (if off < length file_data then
        (case wait_window from_reader a s of
           (Inl e, s') \<Rightarrow> (Inl e, s')
         | (Inr _, s') \<Rightarrow>
             (case send_one sha256 a file_data off s' of
                (Inl e, s'') \<Rightarrow> (Inl e, s'')
              | (Inr _, s'') \<Rightarrow>
                  send_loop sha256 from_reader a file_data (chunk_end file_data off) s''))
      else (Inr (), s))"
  by pat_completeness auto
termination
  by (relation "measure (\<lambda>(sha, fr, a, file_data, off, s). length file_data - off)")
    (auto intro: chunk_end_decreases)

declare send_loop.simps [simp del]

definition send_file :: "(bytes \<Rightarrow> bytes) \<Rightarrow> (bytes \<Rightarrow> string + Value) \<Rightarrow> send_args \<Rightarrow> bytes \<Rightarrow> NxfrConnection
    \<Rightarrow> (send_error + unit) \<times> send_state" where
  "send_file sha256 from_reader a file_data conn =
     (case send_loop sha256 from_reader a file_data 0
             \<lparr>sd_conn = conn, sd_in_flight = 0, sd_acked = 0, sd_events = []\<rparr> of
        (Inl e, s) \<Rightarrow> (Inl e, s)
      | (Inr _, s) \<Rightarrow> drain_acks from_reader a s)"

section \<open>Resuming\<close>

definition should_skip :: "(u64 \<times> u64) list \<Rightarrow> u64 \<Rightarrow> u64 \<Rightarrow> bool" where
  "should_skip skip_ranges off chunk_len \<longleftrightarrow>
     list_ex (\<lambda>(skip_off, skip_len). off \<ge> skip_off \<and> off + chunk_len \<le> skip_off + skip_len) skip_ranges"

function send_resume_loop :: "(bytes \<Rightarrow> bytes) \<Rightarrow> (bytes \<Rightarrow> string + Value) \<Rightarrow> send_args \<Rightarrow> (u64 \<times> u64) list
    \<Rightarrow> bytes \<Rightarrow> nat \<Rightarrow> send_state \<Rightarrow> (send_error + unit) \<times> send_state" where
  "send_resume_loop sha256 from_reader a skip_ranges file_data off s =
     (if off < length file_data then
        (if should_skip skip_ranges (of_nat off) (of_nat (chunk_end file_data off - off))
         then send_resume_loop sha256 from_reader a skip_ranges file_data (chunk_end file_data off) s
         else
           (case wait_window from_reader a s of
              (Inl e, s') \<Rightarrow> (Inl e, s')
            | (Inr _, s') \<Rightarrow>
                (case send_one sha256 a file_data off s' of
                   (Inl e, s'') \<Rightarrow> (Inl e, s'')
                 | (Inr _, s'') \<Rightarrow>
                     send_resume_loop sha256 from_reader a skip_ranges file_data (chunk_end file_data off) s'')))
      else (Inr (), s))"
  by pat_completeness auto
termination
  by (relation "measure (\<lambda>(sha, fr, a, skip, file_data, off, s). length file_data - off)")
    (auto intro: chunk_end_decreases)

declare send_resume_loop.simps [simp del]

definition send_file_resume :: "(bytes \<Rightarrow> bytes) \<Rightarrow> (bytes \<Rightarrow> string + Value) \<Rightarrow> send_args \<Rightarrow> bytes
    \<Rightarrow> (u64 \<times> u64) list \<Rightarrow> NxfrConnection \<Rightarrow> (send_error + unit) \<times> send_state" where
  "send_file_resume sha256 from_reader a file_data skip_ranges conn =
     (let pre_received = sum_list (map snd skip_ranges)
      in case send_resume_loop sha256 from_reader a skip_ranges file_data 0
                \<lparr>sd_conn = conn, sd_in_flight = 0, sd_acked = pre_received, sd_events = []\<rparr> of
           (Inl e, s) \<Rightarrow> (Inl e, s)
         | (Inr _, s) \<Rightarrow> drain_acks from_reader a s)"

section \<open>Lemmas on the window\<close>

definition is_chunk_ack :: "(bytes \<Rightarrow> string + Value) \<Rightarrow> io_error + NxfrFrame \<Rightarrow> bool" where
  "is_chunk_ack from_reader r =
     (case r of
        Inl _ \<Rightarrow> False
      | Inr (hdr, payload) \<Rightarrow> kind hdr = Control \<and>
          (case decode_control from_reader payload of Inr (ChunkAck _ _ _ _) \<Rightarrow> True | _ \<Rightarrow> False))"

definition acks_in :: "(bytes \<Rightarrow> string + Value) \<Rightarrow> (io_error + NxfrFrame) list \<Rightarrow> nat" where
  "acks_in from_reader rs = length (filter (is_chunk_ack from_reader) rs)"

text \<open>
  The window invariant: what was sent is what was acknowledged plus what is in flight, and at most
  eight chunks are in flight. \<open>T\<close> counts the frames sent before and \<open>A\<close> the acknowledgements to come.
\<close>

definition window_inv :: "(bytes \<Rightarrow> string + Value) \<Rightarrow> nat \<Rightarrow> nat \<Rightarrow> send_state \<Rightarrow> bool" where
  "window_inv from_reader T A s \<longleftrightarrow>
     length (tx (sd_conn s)) + acks_in from_reader (rx (sd_conn s)) = T + A + sd_in_flight s
     \<and> sd_in_flight s \<le> MAX_IN_FLIGHT"

lemma case_not_ChunkAck:
  "\<nexists>s m off l. msg = ChunkAck s m off l \<Longrightarrow> (case msg of ChunkAck s m off l \<Rightarrow> f s m off l | _ \<Rightarrow> g) = g"
  by (cases msg) simp_all

lemma ack_turn_effect:
  assumes "ack_turn fr a final s = (r, s')"
  shows "tx (sd_conn s') = tx (sd_conn s) \<and> send_outcomes (sd_conn s') = send_outcomes (sd_conn s)
    \<and> next_message_id (sd_conn s') = next_message_id (sd_conn s)
    \<and> (case rx (sd_conn s) of
         [] \<Rightarrow> rx (sd_conn s') = [] \<and> sd_in_flight s' = sd_in_flight s
       | x # rest \<Rightarrow> rx (sd_conn s') = rest
           \<and> sd_in_flight s' = (if is_chunk_ack fr x then sd_in_flight s - 1 else sd_in_flight s)
           \<and> (is_chunk_ack fr x \<longrightarrow> r = Inr ()))"
proof (cases "rx (sd_conn s)")
  case Nil
  then show ?thesis using assms by (auto simp: ack_turn_def recv_frame_def)
next
  case (Cons x rest)
  show ?thesis
  proof (cases x)
    case (Inl e)
    then show ?thesis using assms Cons by (auto simp: ack_turn_def recv_frame_def is_chunk_ack_def)
  next
    case (Inr f)
    obtain h p where f: "f = (h, p)" by (cases f)
    show ?thesis
    proof (cases "kind h = Control \<and> (\<exists>s m off l. decode_control fr p = Inr (ChunkAck s m off l))")
      case True
      then show ?thesis
        using assms Cons Inr f by (auto simp: ack_turn_def recv_frame_def is_chunk_ack_def Let_def)
    next
      case False
      then show ?thesis
        using assms Cons Inr f
        by (cases "decode_control fr p")
          (auto simp: ack_turn_def recv_frame_def is_chunk_ack_def Let_def case_not_ChunkAck split: if_splits)
    qed
  qed
qed

lemma ack_turn_window:
  assumes "ack_turn fr a final s = (r, s')" "window_inv fr T A s" "0 < sd_in_flight s"
  shows "window_inv fr T A s'"
  using ack_turn_effect [OF assms(1)] assms(2,3)
  by (cases "rx (sd_conn s)") (auto simp: window_inv_def acks_in_def split: if_splits)

lemma wait_acks_window:
  assumes "wait_acks fr a final limit s = (r, s')" "window_inv fr T A s" "0 < limit"
  shows "window_inv fr T A s' \<and> tx (sd_conn s') = tx (sd_conn s)
    \<and> send_outcomes (sd_conn s') = send_outcomes (sd_conn s)
    \<and> next_message_id (sd_conn s') = next_message_id (sd_conn s)
    \<and> (r = Inr () \<longrightarrow> sd_in_flight s' < limit)"
  using assms
proof (induction fr a final limit s rule: wait_acks.induct)
  case (1 fr a final limit s)
  show ?case
  proof (cases "limit \<le> sd_in_flight s")
    case True
    obtain r1 s1 where turn: "ack_turn fr a final s = (r1, s1)" by (cases "ack_turn fr a final s")
    have w: "window_inv fr T A s1" "tx (sd_conn s1) = tx (sd_conn s)"
      "send_outcomes (sd_conn s1) = send_outcomes (sd_conn s)"
      "next_message_id (sd_conn s1) = next_message_id (sd_conn s)"
      using ack_turn_window [OF turn "1.prems"(2)] ack_turn_effect [OF turn] True "1.prems"(3) by simp_all
    show ?thesis
    proof (cases r1)
      case (Inl e)
      then show ?thesis using "1.prems"(1) True turn w by (auto simp: wait_acks.simps [of fr a final limit s])
    next
      case (Inr u)
      then have "wait_acks fr a final limit s1 = (r, s')"
        using "1.prems"(1) True turn by (simp add: wait_acks.simps [of fr a final limit s])
      from "1.IH" [OF True turn [symmetric] Inr this w(1) "1.prems"(3)] show ?thesis using w by simp
    qed
  next
    case False
    then show ?thesis using "1.prems" by (auto simp: wait_acks.simps [of fr a final limit s])
  qed
qed

lemma send_one_window:
  assumes "send_one sha a file_data off s = (r, s')" "window_inv fr T A s" "sd_in_flight s < MAX_IN_FLIGHT"
  shows "window_inv fr T A s'"
  using assms
  by (auto simp: send_one_def send_chunk_def send_frame_def framed_send_def Let_def window_inv_def
      split: list.splits option.splits)

lemma send_loop_window:
  assumes "send_loop sha fr a file_data off s = (r, s')" "window_inv fr T A s"
  shows "window_inv fr T A s'"
  using assms
proof (induction sha fr a file_data off s rule: send_loop.induct)
  case (1 sha fr a file_data off s)
  show ?case
  proof (cases "off < length file_data")
    case True
    obtain r1 s1 where w: "wait_window fr a s = (r1, s1)" by (cases "wait_window fr a s")
    have w1: "window_inv fr T A s1" "r1 = Inr () \<longrightarrow> sd_in_flight s1 < MAX_IN_FLIGHT"
      using wait_acks_window [OF w [unfolded wait_window_def] "1.prems"(2)] by (simp_all add: MAX_IN_FLIGHT_def)
    obtain r2 s2 where o: "send_one sha a file_data off s1 = (r2, s2)" by (cases "send_one sha a file_data off s1")
    show ?thesis
    proof (cases "r1 = Inr () \<and> r2 = Inr ()")
      case both: True
      then have "window_inv fr T A s2" using send_one_window [OF o w1(1)] w1(2) by simp
      moreover have "send_loop sha fr a file_data (chunk_end file_data off) s2 = (r, s')"
        using "1.prems"(1) True w o both by (simp add: send_loop.simps [of sha fr a file_data off s])
      ultimately show ?thesis using "1.IH" True w o both by (metis (full_types))
    next
      case False
      then show ?thesis
        using "1.prems"(1) True w o w1 send_one_window [OF o w1(1)]
        by (auto simp: send_loop.simps [of sha fr a file_data off s] split: sum.splits)
    qed
  next
    case False
    then show ?thesis using "1.prems" by (simp add: send_loop.simps [of sha fr a file_data off s])
  qed
qed

lemma send_resume_loop_window:
  assumes "send_resume_loop sha fr a skip file_data off s = (r, s')" "window_inv fr T A s"
  shows "window_inv fr T A s'"
  using assms
proof (induction sha fr a skip file_data off s rule: send_resume_loop.induct)
  case (1 sha fr a skip file_data off s)
  note unfold = send_resume_loop.simps [of sha fr a skip file_data off s]
  let ?skip = "should_skip skip (of_nat off) (of_nat (chunk_end file_data off - off))"
  consider (stop) "\<not> off < length file_data" | (skip) "off < length file_data" ?skip
    | (chunk) "off < length file_data" "\<not> ?skip" by blast
  then show ?case
  proof cases
    case stop
    then show ?thesis using "1.prems" by (simp add: unfold)
  next
    case skip
    then show ?thesis using "1.prems" "1.IH"(1) by (simp add: unfold)
  next
    case chunk
    obtain r1 s1 where w: "wait_window fr a s = (r1, s1)" by (cases "wait_window fr a s")
    have w1: "window_inv fr T A s1" "r1 = Inr () \<longrightarrow> sd_in_flight s1 < MAX_IN_FLIGHT"
      using wait_acks_window [OF w [unfolded wait_window_def] "1.prems"(2)] by (simp_all add: MAX_IN_FLIGHT_def)
    obtain r2 s2 where o: "send_one sha a file_data off s1 = (r2, s2)" by (cases "send_one sha a file_data off s1")
    show ?thesis
    proof (cases "r1 = Inr () \<and> r2 = Inr ()")
      case both: True
      then have inv2: "window_inv fr T A s2" using send_one_window [OF o w1(1)] w1(2) by simp
      have rec: "send_resume_loop sha fr a skip file_data (chunk_end file_data off) s2 = (r, s')"
        using "1.prems"(1) chunk w o both by (simp add: unfold)
      show ?thesis
        using "1.IH"(2) [OF chunk w [symmetric] conjunct1 [OF both] o [symmetric] conjunct2 [OF both] rec inv2] .
    next
      case False
      then show ?thesis
        using "1.prems"(1) chunk w o w1 send_one_window [OF o w1(1)]
        by (auto simp: unfold split: sum.splits)
    qed
  qed
qed

lemma window_inv_start:
  "window_inv fr (length (tx conn)) (acks_in fr (rx conn))
     \<lparr>sd_conn = conn, sd_in_flight = 0, sd_acked = n, sd_events = []\<rparr>"
  by (simp add: window_inv_def)

lemma window_inv_bound: "window_inv fr T A s \<Longrightarrow> length (tx (sd_conn s)) \<le> T + A + 8"
  by (simp add: window_inv_def MAX_IN_FLIGHT_def)

lemma drain_window:
  "drain_acks fr a s = (r, s') \<Longrightarrow> window_inv fr T A s \<Longrightarrow>
     window_inv fr T A s' \<and> (r = Inr () \<longrightarrow> sd_in_flight s' = 0)"
  using wait_acks_window [of fr a True 1 s r s' T A] by (simp add: drain_acks_def)

lemma send_file_window_inv:
  assumes "send_file sha fr a file_data conn = (r, s')"
  shows "window_inv fr (length (tx conn)) (acks_in fr (rx conn)) s' \<and> (r = Inr () \<longrightarrow> sd_in_flight s' = 0)"
proof -
  let ?s0 = "\<lparr>sd_conn = conn, sd_in_flight = 0, sd_acked = 0, sd_events = []\<rparr>"
  obtain r1 s1 where l: "send_loop sha fr a file_data 0 ?s0 = (r1, s1)"
    by (cases "send_loop sha fr a file_data 0 ?s0")
  note inv = send_loop_window [OF l window_inv_start]
  show ?thesis
    using assms l inv drain_window [OF _ inv] by (cases r1) (auto simp: send_file_def)
qed

lemma send_file_resume_window_inv:
  assumes "send_file_resume sha fr a file_data skip conn = (r, s')"
  shows "window_inv fr (length (tx conn)) (acks_in fr (rx conn)) s' \<and> (r = Inr () \<longrightarrow> sd_in_flight s' = 0)"
proof -
  let ?s0 = "\<lparr>sd_conn = conn, sd_in_flight = 0, sd_acked = sum_list (map snd skip), sd_events = []\<rparr>"
  obtain r1 s1 where l: "send_resume_loop sha fr a skip file_data 0 ?s0 = (r1, s1)"
    by (cases "send_resume_loop sha fr a skip file_data 0 ?s0")
  note inv = send_resume_loop_window [OF l window_inv_start]
  show ?thesis
    using assms l inv drain_window [OF _ inv] by (cases r1) (auto simp: send_file_resume_def)
qed

section \<open>Lemmas on the frames sent\<close>

text \<open>The frames of a file from an offset on, with message ids from \<open>i\<close> on.\<close>

definition chunk_frame :: "(bytes \<Rightarrow> bytes) \<Rightarrow> send_args \<Rightarrow> bytes \<Rightarrow> nat \<Rightarrow> u64 \<Rightarrow> NxfrFrame" where
  "chunk_frame sha a file_data off i =
     (let d = subslice off (chunk_end file_data off) file_data;
          payload = u64_to_be_bytes (of_nat off) @ sha d @ d
      in (\<lparr>kind = Chunk,
           flags = FrameFlags (if chunk_end file_data off = length file_data then 0x0001 else 0x0000),
           session_id = sa_session_id a, stream_id = sa_stream_id a, message_id = i,
           payload_len = of_nat (length payload)\<rparr>, payload))"

function file_frames :: "(bytes \<Rightarrow> bytes) \<Rightarrow> send_args \<Rightarrow> bytes \<Rightarrow> nat \<Rightarrow> u64 \<Rightarrow> NxfrFrame list" where
  "file_frames sha a file_data off i =
     (if off < length file_data
      then chunk_frame sha a file_data off i # file_frames sha a file_data (chunk_end file_data off) (i + 1)
      else [])"
  by pat_completeness auto
termination
  by (relation "measure (\<lambda>(sha, a, file_data, off, i). length file_data - off)")
    (auto intro: chunk_end_decreases)

declare file_frames.simps [simp del]

lemma chunk_end_le: "chunk_end file_data off \<le> length file_data"
  by (simp add: chunk_end_def)

lemma last_chunk_flag: "is_last_chunk (FrameFlags (if b then 0x0001 else 0x0000)) \<longleftrightarrow> b"
  by (simp add: is_last_chunk_def)

lemma chunk_frame_carries:
  assumes "off < length file_data"
  shows "carries_chunk sha (sa_stream_id a) off (subslice off (chunk_end file_data off) file_data)
    (chunk_end file_data off = length file_data) (chunk_frame sha a file_data off i)"
  by (simp add: chunk_frame_def carries_chunk_def Let_def last_chunk_flag)

lemma chunk_frame_wf:
  assumes "off < length file_data" "\<And>d. length (sha d) = 32"
  shows "wf_frame (chunk_frame sha a file_data off i)"
proof -
  let ?d = "subslice off (chunk_end file_data off) file_data"
  have d: "0 < length ?d" "length ?d \<le> 1048576"
    using assms(1) chunk_end_greater [OF assms(1)] chunk_end_le [of file_data off]
    by (auto simp: chunk_end_def CHUNK_DATA_SIZE_def)
  let ?p = "u64_to_be_bytes (of_nat off) @ sha ?d @ ?d"
  have len: "length ?p = 40 + length ?d" using assms(2) by simp
  then have "unat (of_nat (length ?p) :: u32) = length ?p" using d by (intro unat_of_nat_u32) simp
  then show ?thesis
    using d len
    by (simp add: chunk_frame_def Let_def wf_frame_def validate_payload_len_def limit_defs
        word_less_nat_alt del: of_nat_add of_nat_numeral)
qed

lemma file_frames_carry:
  "off \<le> length file_data \<Longrightarrow> frames_carry sha (sa_stream_id a) off (file_frames sha a file_data off i) (drop off file_data)"
proof (induction sha a file_data off i rule: file_frames.induct)
  case (1 sha a file_data off i)
  show ?case
  proof (cases "off < length file_data")
    case True
    let ?e = "chunk_end file_data off"
    have e: "off < ?e" "?e \<le> length file_data" using True chunk_end_greater chunk_end_le by auto
    have "drop off file_data = subslice off ?e file_data @ drop ?e file_data"
      using append_take_drop_id [of "?e - off" "drop off file_data"] e by (simp add: subslice_def)
    moreover have "subslice off ?e file_data \<noteq> []"
      using e subslice_length [of ?e file_data off] by (metis list.size(3) zero_less_diff less_irrefl)
    moreover have "drop ?e file_data = [] \<longleftrightarrow> ?e = length file_data" using e by auto
    moreover have "off + length (subslice off ?e file_data) = ?e" using e by simp
    ultimately show ?thesis
      using True e "1.IH" chunk_frame_carries [OF True, of sha a i]
      by (subst file_frames.simps)
        (simp only: if_True frames_carry.simps,
          intro exI [of _ "subslice off ?e file_data"] exI [of _ "drop ?e file_data"] conjI; simp)
  next
    case False
    then show ?thesis using "1.prems" by (simp add: file_frames.simps)
  qed
qed

lemma file_frames_wf:
  "\<forall>d. length (sha d) = 32 \<Longrightarrow> \<forall>f\<in>set (file_frames sha a file_data off i). wf_frame f"
proof (induction sha a file_data off i rule: file_frames.induct)
  case (1 sha a file_data off i)
  show ?case
  proof (cases "off < length file_data")
    case True
    then show ?thesis
      using "1.IH" "1.prems" chunk_frame_wf [of off file_data sha a i]
      by (simp add: file_frames.simps [of sha a file_data off i])
  qed (simp add: file_frames.simps)
qed

lemma send_one_frame:
  assumes "send_one sha a file_data off s = (Inr (), s')"
  shows "tx (sd_conn s') = tx (sd_conn s) @ [chunk_frame sha a file_data off (next_message_id (sd_conn s))]
    \<and> next_message_id (sd_conn s') = next_message_id (sd_conn s) + 1 \<and> rx (sd_conn s') = rx (sd_conn s)
    \<and> sd_in_flight s' = sd_in_flight s + 1"
proof -
  obtain r c where c: "send_chunk (sa_session_id a) (sa_stream_id a)
      (if chunk_end file_data off = length file_data then 0x0001 else 0x0000)
      (u64_to_be_bytes (of_nat off) @ sha (subslice off (chunk_end file_data off) file_data)
        @ subslice off (chunk_end file_data off) file_data) (sd_conn s) = (r, c)"
    by fastforce
  then obtain i where r: "r = Inr i" using assms by (cases r) (simp_all add: send_one_def Let_def)
  then have "s' = s\<lparr>sd_conn := c, sd_in_flight := sd_in_flight s + 1\<rparr>"
    using assms c by (simp add: send_one_def Let_def)
  then show ?thesis
    using send_chunk_tx [OF c [unfolded r]] by (simp add: chunk_frame_def Let_def)
qed

text \<open>Waiting changes neither what was sent nor the message counter.\<close>

lemma wait_acks_conn:
  "wait_acks fr a final limit s = (r, s') \<Longrightarrow> tx (sd_conn s') = tx (sd_conn s)
    \<and> next_message_id (sd_conn s') = next_message_id (sd_conn s)
    \<and> send_outcomes (sd_conn s') = send_outcomes (sd_conn s)"
proof (induction fr a final limit s rule: wait_acks.induct)
  case (1 fr a final limit s)
  obtain r1 s1 where turn: "ack_turn fr a final s = (r1, s1)" by (cases "ack_turn fr a final s")
  note eff = ack_turn_effect [OF turn]
  show ?case
  proof (cases "limit \<le> sd_in_flight s \<and> r1 = Inr ()")
    case True
    then have "wait_acks fr a final limit s1 = (r, s')"
      using "1.prems" turn by (simp add: wait_acks.simps [of fr a final limit s])
    then show ?thesis using "1.IH" [OF _ turn [symmetric]] True eff by simp
  next
    case False
    then show ?thesis
      using "1.prems" turn eff by (auto simp: wait_acks.simps [of fr a final limit s] split: if_splits sum.splits)
  qed
qed

lemma send_loop_exact:
  "send_loop sha fr a file_data off s = (Inr (), s') \<Longrightarrow>
     tx (sd_conn s') = tx (sd_conn s) @ file_frames sha a file_data off (next_message_id (sd_conn s))"
proof (induction sha fr a file_data off s rule: send_loop.induct)
  case (1 sha fr a file_data off s)
  show ?case
  proof (cases "off < length file_data")
    case True
    obtain r1 s1 where w: "wait_window fr a s = (r1, s1)" by (cases "wait_window fr a s")
    obtain r2 s2 where o: "send_one sha a file_data off s1 = (r2, s2)" by (cases "send_one sha a file_data off s1")
    have r: "r1 = Inr ()" "r2 = Inr ()"
      and rec: "send_loop sha fr a file_data (chunk_end file_data off) s2 = (Inr (), s')"
      using "1.prems" True w o
      by (auto simp: send_loop.simps [of sha fr a file_data off s] split: sum.splits)
    have "tx (sd_conn s') = tx (sd_conn s2) @
        file_frames sha a file_data (chunk_end file_data off) (next_message_id (sd_conn s2))"
      using "1.IH" [OF True w [symmetric] r(1) o [symmetric] r(2) rec] .
    then show ?thesis
      using send_one_frame [OF o [unfolded r]] wait_acks_conn [OF w [unfolded wait_window_def]] True
      by (simp add: file_frames.simps [of sha a file_data off])
  next
    case False
    then show ?thesis
      using "1.prems" by (simp add: send_loop.simps [of sha fr a file_data off s] file_frames.simps)
  qed
qed

lemma send_file_exact:
  assumes "send_file sha fr a file_data conn = (Inr (), s')"
  shows "tx (sd_conn s') = tx conn @ file_frames sha a file_data 0 (next_message_id conn)"
proof -
  let ?s0 = "\<lparr>sd_conn = conn, sd_in_flight = 0, sd_acked = 0, sd_events = []\<rparr>"
  obtain r1 s1 where l: "send_loop sha fr a file_data 0 ?s0 = (r1, s1)"
    by (cases "send_loop sha fr a file_data 0 ?s0")
  then have "r1 = Inr ()" and d: "drain_acks fr a s1 = (Inr (), s')"
    using assms by (auto simp: send_file_def split: sum.splits)
  then show ?thesis
    using send_loop_exact [of sha fr a file_data 0 ?s0 s1] l wait_acks_conn [OF d [unfolded drain_acks_def]]
    by simp
qed

subsection \<open>Progress\<close>

text \<open>With enough acknowledgements to come and no failing send, the sender finishes.\<close>

definition fed :: "(bytes \<Rightarrow> string + Value) \<Rightarrow> send_state \<Rightarrow> bool" where
  "fed fr s \<longleftrightarrow> list_all (is_chunk_ack fr) (rx (sd_conn s)) \<and> send_outcomes (sd_conn s) = []"

lemma wait_acks_progress:
  "fed fr s \<Longrightarrow> sd_in_flight s < limit + length (rx (sd_conn s)) \<Longrightarrow> 0 < limit \<Longrightarrow>
    \<exists>s'. wait_acks fr a final limit s = (Inr (), s') \<and> fed fr s' \<and> sd_in_flight s' < limit
      \<and> sd_in_flight s' + length (rx (sd_conn s)) = sd_in_flight s + length (rx (sd_conn s'))"
proof (induction fr a final limit s rule: wait_acks.induct)
  case (1 fr a final limit s)
  show ?case
  proof (cases "limit \<le> sd_in_flight s")
    case True
    obtain r1 s1 where turn: "ack_turn fr a final s = (r1, s1)" by (cases "ack_turn fr a final s")
    obtain x rest where rx: "rx (sd_conn s) = x # rest"
      using True "1.prems"(2) by (cases "rx (sd_conn s)") simp_all
    have ack: "is_chunk_ack fr x" using "1.prems"(1) rx by (simp add: fed_def)
    have eff: "r1 = Inr ()" "rx (sd_conn s1) = rest" "sd_in_flight s1 = sd_in_flight s - 1" "fed fr s1"
      using ack_turn_effect [OF turn] rx ack "1.prems"(1) by (simp_all add: fed_def)
    have "wait_acks fr a final limit s = wait_acks fr a final limit s1"
      using True turn eff(1) by (simp add: wait_acks.simps [of fr a final limit s])
    moreover have "sd_in_flight s1 < limit + length (rx (sd_conn s1))"
      using eff "1.prems" rx True by simp
    then obtain s' where "wait_acks fr a final limit s1 = (Inr (), s')" "fed fr s'" "sd_in_flight s' < limit"
      "sd_in_flight s' + length (rx (sd_conn s1)) = sd_in_flight s1 + length (rx (sd_conn s'))"
      using "1.IH" [OF True turn [symmetric] eff(1) eff(4) _ "1.prems"(3)] by blast
    ultimately show ?thesis using eff rx True "1.prems"(3) by auto
  next
    case False
    then show ?thesis using "1.prems" by (simp add: wait_acks.simps [of fr a final limit s])
  qed
qed

lemma send_loop_progress:
  "fed fr s \<Longrightarrow> sd_in_flight s + length (file_frames sha a file_data off i) \<le> length (rx (sd_conn s)) \<Longrightarrow>
    \<exists>s'. send_loop sha fr a file_data off s = (Inr (), s') \<and> fed fr s' \<and> sd_in_flight s' \<le> length (rx (sd_conn s'))"
proof (induction sha fr a file_data off s arbitrary: i rule: send_loop.induct)
  case (1 sha fr a file_data off s)
  show ?case
  proof (cases "off < length file_data")
    case True
    then have n: "length (file_frames sha a file_data off i)
        = Suc (length (file_frames sha a file_data (chunk_end file_data off) (i + 1)))"
      by (simp add: file_frames.simps [of sha a file_data off i])
    obtain s1 where w: "wait_window fr a s = (Inr (), s1)" and s1: "fed fr s1"
      "sd_in_flight s1 + length (rx (sd_conn s)) = sd_in_flight s + length (rx (sd_conn s1))"
      using wait_acks_progress [OF "1.prems"(1), of MAX_IN_FLIGHT a False] "1.prems"(2) n
      by (auto simp: wait_window_def MAX_IN_FLIGHT_def)
    obtain s2 where o: "send_one sha a file_data off s1 = (Inr (), s2)" and s2: "fed fr s2"
      using s1(1) by (auto simp: send_one_def send_chunk_def send_frame_def framed_send_def Let_def fed_def)
    have "sd_in_flight s2 + length (file_frames sha a file_data (chunk_end file_data off) (i + 1))
        \<le> length (rx (sd_conn s2))"
      using send_one_frame [OF o] s1(2) "1.prems"(2) n by simp
    then have "\<exists>s'. send_loop sha fr a file_data (chunk_end file_data off) s2 = (Inr (), s') \<and> fed fr s'
        \<and> sd_in_flight s' \<le> length (rx (sd_conn s'))"
      using "1.IH" [OF True w [symmetric] refl o [symmetric] refl s2] by blast
    then show ?thesis using True w o by (simp add: send_loop.simps [of sha fr a file_data off s])
  next
    case False
    then show ?thesis
      using "1.prems" by (simp add: send_loop.simps [of sha fr a file_data off s] file_frames.simps)
  qed
qed

lemma send_file_progress:
  assumes "list_all (is_chunk_ack fr) (rx conn)" "send_outcomes conn = []"
    and "length (file_frames sha a file_data 0 i) \<le> length (rx conn)"
  shows "\<exists>s'. send_file sha fr a file_data conn = (Inr (), s') \<and> sd_in_flight s' = 0"
proof -
  let ?s0 = "\<lparr>sd_conn = conn, sd_in_flight = 0, sd_acked = 0, sd_events = []\<rparr>"
  have "fed fr ?s0" using assms by (simp add: fed_def)
  then obtain s1 where s1: "send_loop sha fr a file_data 0 ?s0 = (Inr (), s1)" "fed fr s1"
    "sd_in_flight s1 \<le> length (rx (sd_conn s1))"
    using send_loop_progress [of fr ?s0 sha a file_data 0 i] assms(3) by auto
  then obtain s' where "drain_acks fr a s1 = (Inr (), s')" "sd_in_flight s' < 1"
    using wait_acks_progress [OF s1(2), of 1 a True] by (auto simp: drain_acks_def)
  then show ?thesis using s1(1) by (simp add: send_file_def)
qed

section \<open>Properties\<close>

text \<open>
  C3 Flow control, for a fresh and for a resumed send, against any peer: the number of chunks put on
  the wire never exceeds the number of acknowledgements received by more than eight; a successful
  send has every chunk acknowledged.
\<close>

theorem send_window_respected:
  assumes "send_file sha from_reader a file_data conn = (r, s') \<or>
    send_file_resume sha from_reader a file_data skip_ranges conn = (r, s')"
  shows "length (tx (sd_conn s')) \<le> length (tx conn) + acks_in from_reader (rx conn) + 8 \<and>
    (r = Inr () \<longrightarrow> sd_in_flight s' = 0 \<and>
       length (tx (sd_conn s')) + acks_in from_reader (rx (sd_conn s'))
         = length (tx conn) + acks_in from_reader (rx conn))"
proof -
  have "window_inv from_reader (length (tx conn)) (acks_in from_reader (rx conn)) s' \<and> (r = Inr () \<longrightarrow> sd_in_flight s' = 0)"
    using assms send_file_window_inv send_file_resume_window_inv by metis
  then show ?thesis using window_inv_bound by (auto simp: window_inv_def)
qed

theorem send_window_respected_witness:
  "length (tx (sd_conn (snd (send_file (\<lambda>_. replicate 32 0) ref_from_reader
     \<lparr>sa_session_id = 1, sa_stream_id = 2, sa_progress = False, sa_file_name = ''f'', sa_total_file_size = 3\<rparr>
     [1, 2, 3] (connection_new [] []))))) \<le> 8"
proof -
  let ?run = "send_file (\<lambda>_. replicate 32 0) ref_from_reader
     \<lparr>sa_session_id = 1, sa_stream_id = 2, sa_progress = False, sa_file_name = ''f'', sa_total_file_size = 3\<rparr>
     [1, 2, 3] (connection_new [] [])"
  have "?run = (fst ?run, snd ?run)" by simp
  from send_window_respected [OF disjI1, OF this] show ?thesis
    by (simp add: connection_new_def acks_in_def)
qed

text \<open>
  What a successful send puts on the wire: chunk frames on the given stream whose bodies, each
  with its offset and its hash, are consecutive non-empty pieces of the file from its first to its
  last byte, the last-chunk flag on the last one only; every frame is within the limits that the
  receiving frame decoder checks.
\<close>

theorem send_file_content:
  assumes "send_file sha from_reader a file_data conn = (Inr (), s')" and "\<forall>d. length (sha d) = 32"
  shows "\<exists>frames. tx (sd_conn s') = tx conn @ frames \<and>
    frames_carry sha (sa_stream_id a) 0 frames file_data \<and> (\<forall>f\<in>set frames. wf_frame f)"
  using send_file_exact [OF assms(1)] file_frames_wf [OF assms(2)]
    file_frames_carry [of 0 file_data sha a "next_message_id conn"]
  by auto

theorem send_file_content_witness:
  "\<exists>frames. frames \<noteq> [] \<and> frames_carry (\<lambda>_. replicate 32 0) 2 0 frames [1, 2, 3] \<and> (\<forall>f\<in>set frames. wf_frame f)"
proof -
  let ?a = "\<lparr>sa_session_id = 1, sa_stream_id = 2, sa_progress = False, sa_file_name = ''f'', sa_total_file_size = 3\<rparr>"
  let ?sha = "\<lambda>_ :: bytes. replicate 32 (0 :: u8)"
  have "\<exists>bs. encode_control ref_into_writer (ChunkAck 2 1 0 3) = Inr bs"
    by (simp add: write_eval encode_chunk_ack_def limit_defs)
  then obtain bs where bs: "encode_control ref_into_writer (ChunkAck 2 1 0 3) = Inr bs" by blast
  have "decode_control ref_from_reader bs = Inr (ChunkAck 2 1 0 3)"
    by (rule ref_cbor.decode_encode_wire [OF _ bs]) simp
  then have ack: "is_chunk_ack ref_from_reader (Inr (\<lparr>kind = Control, flags = FrameFlags 0, session_id = 1,
      stream_id = 0, message_id = 1, payload_len = of_nat (length bs)\<rparr>, bs))"
    by (simp add: is_chunk_ack_def)
  let ?conn = "connection_new [Inr (\<lparr>kind = Control, flags = FrameFlags 0, session_id = 1,
      stream_id = 0, message_id = 1, payload_len = of_nat (length bs)\<rparr>, bs)] []"
  have "length (file_frames ?sha ?a [1, 2, 3] 0 1) = 1"
    by (simp add: file_frames.simps chunk_end_def CHUNK_DATA_SIZE_def)
  then obtain s' where s': "send_file ?sha ref_from_reader ?a [1, 2, 3] ?conn = (Inr (), s')"
    using send_file_progress [of ref_from_reader ?conn ?sha ?a "[1, 2, 3]" 1] ack
    by (auto simp: connection_new_def)
  have "frames = [] \<Longrightarrow> \<not> frames_carry ?sha 2 0 frames [1, 2, 3]" for frames by simp
  moreover obtain frames where "frames_carry ?sha 2 0 frames [1, 2, 3]" "\<forall>f\<in>set frames. wf_frame f"
    using send_file_content [OF s'] by auto
  ultimately show ?thesis by blast
qed

end
