(* ===== verification/Nxfr_Ipc.thy ===== *)
theory Nxfr_Ipc
  imports Nxfr_Config Nxfr_Paired_Db Nxfr_Discovery Nxfr_Sender
begin

text \<open>
  The shared state of the daemon (\<open>nxfr-daemon/src/lib.rs\<close>) and the commands of its IPC socket
  (\<open>ipc.rs\<close>) that answer at once, the expiry of pending offers and the browse cache (\<open>main.rs\<close>).

  A pending offer holds the sending end of a one-shot channel: channels are numbered, and the values
  sent are recorded in the order in which they were sent. A watcher is its channel, numbered as well,
  with its queue (64 events) and whether its receiver is gone. Hash maps are lists of their entries in the order of
  their iterators. Instants are nanoseconds. JSON texts are not modelled, their data are.
\<close>

section \<open>State\<close>

datatype json = JNull | JBool bool | JNum int | JStr string | JArr "json list" | JObj "(string \<times> json) list"

datatype IpcEvent =
    EvResponse bool "string option" json
  | EvProgress Progress
  | EvReceiveProgress Progress
  | EvTransferOffer string string string string string u32 u64
  | EvTransferResolved string bool "string option"
  | EvSasPrompt string string string
  | EvPairSuccess string string
  | EvPairFailed string
  | EvTransferComplete string u32 u64
  | EvError string string

record TransferStatus =
  ts_transfer_id :: string
  ts_direction :: string
  ts_display_name :: string
  ts_progress_bytes :: u64
  ts_total_bytes :: u64
  ts_peer_device_id :: string

record PendingOffer =
  po_offer_event :: IpcEvent
  po_respond_to :: "nat option"
  po_expires_at :: nat

record BrowseEntry =
  be_name :: string
  be_device_id_hint :: string
  be_addresses :: "string list"
  be_port :: u16
  be_last_seen :: nat

record watcher =
  wt_id :: nat
  wt_queue :: "IpcEvent list"
  wt_closed :: bool

record DaemonState =
  ds_config :: NxfrConfig
  ds_config_path :: abspath
  ds_db :: paired_db
  ds_world :: world
  ds_journal_dir :: abspath
  ds_device_id :: bytes
  ds_discovery :: "DiscoveryManager option"
  ds_active_transfers :: "TransferStatus list"
  ds_watchers :: "watcher list"
  ds_pending_offers :: "(string \<times> PendingOffer) list"
  ds_browse_cache :: "(string \<times> BrowseEntry) list"
  ds_next_channel :: nat
  ds_answers :: "(nat \<times> bool) list"

text \<open>The state at startup: no watchers, no offers, nothing discovered.\<close>

definition daemon_state_new :: "NxfrConfig \<Rightarrow> abspath \<Rightarrow> paired_db \<Rightarrow> world \<Rightarrow> abspath \<Rightarrow> bytes
    \<Rightarrow> DiscoveryManager option \<Rightarrow> DaemonState" where
  "daemon_state_new config config_path db w journal_dir device_id discovery =
     \<lparr>ds_config = config, ds_config_path = config_path, ds_db = db, ds_world = w, ds_journal_dir = journal_dir,
      ds_device_id = device_id, ds_discovery = discovery, ds_active_transfers = [], ds_watchers = [],
      ds_pending_offers = [], ds_browse_cache = [], ds_next_channel = 0, ds_answers = []\<rparr>"

text \<open>Discovery at startup: a manager that cannot advertise is kept, one that cannot start is not.\<close>

definition start_discovery :: "NxfrConfig \<Rightarrow> string + DiscoveryManager \<Rightarrow> DiscoveryManager option" where
  "start_discovery config created =
     (case created of
        Inl _ \<Rightarrow> None
      | Inr mgr \<Rightarrow> Some (if cf_receiving_enabled config then snd (start_advertising mgr) else mgr))"

record IpcRequest =
  rq_cmd :: string
  rq_path :: "string option"
  rq_target_device_id :: "string option"
  rq_target_addr :: "string option"
  rq_retry_transfer_id :: "string option"
  rq_enabled :: "bool option"
  rq_device_id :: "string option"
  rq_transfer_id :: "string option"
  rq_accepted :: "bool option"

section \<open>Events and watchers\<close>

definition ok_response :: "json \<Rightarrow> IpcEvent" where
  "ok_response payload = EvResponse True None payload"

definition err_response :: "string \<Rightarrow> IpcEvent" where
  "err_response msg = EvResponse False (Some msg) (JObj [])"

definition try_send :: "IpcEvent \<Rightarrow> watcher \<Rightarrow> watcher option" where
  "try_send event w =
     (if wt_closed w \<or> length (wt_queue w) \<ge> 64 then None else Some (w\<lparr>wt_queue := wt_queue w @ [event]\<rparr>))"

text \<open>A watcher that cannot take the event (its queue is full or its receiver gone) is dropped.\<close>

definition broadcast_to_watchers :: "IpcEvent \<Rightarrow> DaemonState \<Rightarrow> DaemonState" where
  "broadcast_to_watchers event dm = dm\<lparr>ds_watchers := List.map_filter (try_send event) (ds_watchers dm)\<rparr>"

text \<open>Register an offer with a fresh channel; an offer of the same key is replaced and its channel dropped.\<close>

definition register_offer :: "string \<Rightarrow> IpcEvent \<Rightarrow> nat \<Rightarrow> DaemonState \<Rightarrow> nat \<times> DaemonState" where
  "register_offer offer_key event expires dm =
     (let ch = ds_next_channel dm
      in (ch, dm\<lparr>ds_next_channel := ch + 1,
            ds_pending_offers := AList.update offer_key
              \<lparr>po_offer_event = event, po_respond_to = Some ch, po_expires_at = expires\<rparr> (ds_pending_offers dm)\<rparr>))"

definition remove_offer :: "string \<Rightarrow> DaemonState \<Rightarrow> DaemonState" where
  "remove_offer offer_key dm = dm\<lparr>ds_pending_offers := AList.delete offer_key (ds_pending_offers dm)\<rparr>"

text \<open>What the receiving end of a channel yields when its wait is over.\<close>

datatype consent = Answered bool | ChannelLost | TimedOut

definition consent_result :: "nat \<Rightarrow> DaemonState \<Rightarrow> consent" where
  "consent_result ch dm =
     (case map_of (ds_answers dm) ch of
        Some b \<Rightarrow> Answered b
      | None \<Rightarrow> if list_ex (\<lambda>(k, offer). po_respond_to offer = Some ch) (ds_pending_offers dm)
                then TimedOut else ChannelLost)"

section \<open>Commands\<close>

definition json_transfer :: "TransferStatus \<Rightarrow> json" where
  "json_transfer t = JObj [(''transfer_id'', JStr (ts_transfer_id t)), (''direction'', JStr (ts_direction t)),
     (''display_name'', JStr (ts_display_name t)), (''progress_bytes'', JNum (uint (ts_progress_bytes t))),
     (''total_bytes'', JNum (uint (ts_total_bytes t))), (''peer_device_id'', JStr (ts_peer_device_id t))]"

definition cmd_status :: "DaemonState \<Rightarrow> IpcEvent \<times> DaemonState" where
  "cmd_status dm =
     (case paired_list_all (ds_db dm) of (r, db) \<Rightarrow>
        let paired_count = (case r of Inl _ \<Rightarrow> 0 | Inr v \<Rightarrow> length v);
            discovery_status = (case ds_discovery dm of
                Some mgr \<Rightarrow> (case is_degraded mgr of
                    Some reason \<Rightarrow> ''degraded('' @ reason @ '')'' | None \<Rightarrow> ''ok'')
              | None \<Rightarrow> ''unavailable'')
        in (ok_response (JObj
              [(''state'', JStr ''running''),
               (''device_name'', JStr (cf_device_name (ds_config dm))),
               (''receiving_enabled'', JBool (cf_receiving_enabled (ds_config dm))),
               (''receive_dir'', JStr (path_display (cf_receive_dir (ds_config dm)))),
               (''discovery'', JStr discovery_status),
               (''active_transfers'', JArr (map json_transfer (ds_active_transfers dm))),
               (''paired_devices'', JNum (int paired_count)),
               (''pending_offers'', JNum (int (length (ds_pending_offers dm)))),
               (''device_id'', JStr (hex_encode (ds_device_id dm)))]),
            dm\<lparr>ds_db := db\<rparr>))"

definition fresh_entry :: "nat \<Rightarrow> BrowseEntry \<Rightarrow> bool" where
  "fresh_entry now e \<longleftrightarrow> (now - be_last_seen e) div 1000000000 < 60"

definition cmd_devices :: "nat \<Rightarrow> DaemonState \<Rightarrow> IpcEvent \<times> DaemonState" where
  "cmd_devices now dm =
     (case paired_list_all (ds_db dm) of (r, db) \<Rightarrow>
        let paired = (case r of Inl _ \<Rightarrow> [] | Inr devices \<Rightarrow> map (\<lambda>d. JObj
              [(''device_id'', JStr (pd_device_id d)), (''name'', JStr (pd_name d)),
               (''trust_level'', JStr (pd_trust_level d)), (''auto_accept'', JStr (pd_auto_accept d))]) devices);
            discovered = map (\<lambda>e. JObj
              [(''name'', JStr (be_name e)), (''device_id_hint'', JStr (be_device_id_hint e)),
               (''addresses'', JArr (map JStr (be_addresses e))), (''port'', JNum (uint (be_port e)))])
              (filter (fresh_entry now) (map snd (ds_browse_cache dm)))
        in (ok_response (JObj [(''paired'', JArr paired), (''discovered'', JArr discovered)]), dm\<lparr>ds_db := db\<rparr>))"

definition set_receiving_response :: "bool \<Rightarrow> IpcEvent" where
  "set_receiving_response enabled = ok_response (JObj [(''receiving_enabled'', JBool enabled)])"

text \<open>The switch takes effect in memory even when the file cannot be written.\<close>

definition set_receiving_commit :: "(NxfrConfig \<Rightarrow> string + bytes) \<Rightarrow> bool \<Rightarrow> DaemonState \<Rightarrow> IpcEvent \<times> DaemonState" where
  "set_receiving_commit to_toml enabled dm =
     (let cfg = (ds_config dm)\<lparr>cf_receiving_enabled := enabled\<rparr>;
          w = snd (config_save_to to_toml cfg (ds_config_path dm) (ds_world dm))
      in (set_receiving_response enabled, dm\<lparr>ds_config := cfg, ds_world := w\<rparr>))"

definition cmd_set_receiving :: "(NxfrConfig \<Rightarrow> string + bytes) \<Rightarrow> IpcRequest \<Rightarrow> DaemonState \<Rightarrow> IpcEvent \<times> DaemonState" where
  "cmd_set_receiving to_toml req dm =
     (case rq_enabled req of
        None \<Rightarrow> (err_response ''missing 'enabled' field'', dm)
      | Some enabled \<Rightarrow>
          let was_enabled = cf_receiving_enabled (ds_config dm)
          in if enabled = was_enabled then (set_receiving_response enabled, dm)
             else if enabled then
               (case ds_discovery dm of
                  None \<Rightarrow> (err_response ''mDNS unavailable: discovery failed to initialize at startup'', dm)
                | Some mgr \<Rightarrow>
                    (case start_advertising mgr of
                       (Inl e, mgr') \<Rightarrow> (err_response (''mDNS advertising failed: '' @ e), dm\<lparr>ds_discovery := Some mgr'\<rparr>)
                     | (Inr _, mgr') \<Rightarrow> set_receiving_commit to_toml enabled (dm\<lparr>ds_discovery := Some mgr'\<rparr>)))
             else
               set_receiving_commit to_toml enabled
                 (dm\<lparr>ds_discovery := map_option (\<lambda>mgr. snd (stop_advertising mgr)) (ds_discovery dm)\<rparr>))"

definition take_respond_to :: "string \<Rightarrow> DaemonState \<Rightarrow> nat option \<times> DaemonState" where
  "take_respond_to offer_key dm =
     (case map_of (ds_pending_offers dm) offer_key of
        None \<Rightarrow> (None, dm)
      | Some offer \<Rightarrow> (po_respond_to offer,
          dm\<lparr>ds_pending_offers := AList.update offer_key (offer\<lparr>po_respond_to := None\<rparr>) (ds_pending_offers dm)\<rparr>))"

definition cmd_transfer_confirm :: "IpcRequest \<Rightarrow> DaemonState \<Rightarrow> IpcEvent \<times> DaemonState" where
  "cmd_transfer_confirm req dm =
     (case rq_transfer_id req of
        None \<Rightarrow> (err_response ''missing 'transfer_id' field'', dm)
      | Some tid \<Rightarrow>
          (case rq_accepted req of
             None \<Rightarrow> (err_response ''missing 'accepted' field'', dm)
           | Some accepted \<Rightarrow>
               (case take_respond_to tid dm of
                  (Some ch, dm1) \<Rightarrow>
                    (ok_response (JObj [(''transfer_id'', JStr tid), (''accepted'', JBool accepted)]),
                     remove_offer tid (dm1\<lparr>ds_answers := ds_answers dm1 @ [(ch, accepted)]\<rparr>))
                | (None, dm1) \<Rightarrow> (err_response ''offer already resolved or not found'', dm1))))"

definition storage_error_text :: "StorageError \<Rightarrow> string" where
  "storage_error_text e = (case e of
     Db m \<Rightarrow> ''Database error: '' @ m | Io m \<Rightarrow> ''IO error: '' @ m | MissingHomeDir \<Rightarrow> ''Missing home directory'')"

definition cmd_unpair :: "IpcRequest \<Rightarrow> DaemonState \<Rightarrow> IpcEvent \<times> DaemonState" where
  "cmd_unpair req dm =
     (case (case rq_device_id req of Some i \<Rightarrow> Some i | None \<Rightarrow> rq_target_device_id req) of
        None \<Rightarrow> (err_response ''missing 'device_id' field'', dm)
      | Some i \<Rightarrow>
          (case paired_remove i (ds_db dm) of
             (Inr _, db) \<Rightarrow> (ok_response (JObj [(''unpaired'', JStr i)]), dm\<lparr>ds_db := db\<rparr>)
           | (Inl e, db) \<Rightarrow> (err_response (''failed to unpair: '' @ storage_error_text e), dm\<lparr>ds_db := db\<rparr>)))"

text \<open>
  The dispatch of \<open>handle_ipc_client\<close> for a parsed request: the commands that answer with one event.
  \<open>send\<close>, \<open>pair\<close> and \<open>watch\<close> stream their events.
\<close>

definition ipc_dispatch :: "(NxfrConfig \<Rightarrow> string + bytes) \<Rightarrow> nat \<Rightarrow> IpcRequest \<Rightarrow> DaemonState \<Rightarrow> IpcEvent option \<times> DaemonState" where
  "ipc_dispatch to_toml now req dm =
     (let one = (\<lambda>(e, dm). (Some e, dm))
      in if rq_cmd req = ''status'' then one (cmd_status dm)
         else if rq_cmd req = ''devices'' then one (cmd_devices now dm)
         else if rq_cmd req = ''set_receiving'' then one (cmd_set_receiving to_toml req dm)
         else if rq_cmd req \<in> {''send'', ''pair'', ''watch''} then (None, dm)
         else if rq_cmd req = ''transfer_confirm'' then one (cmd_transfer_confirm req dm)
         else if rq_cmd req = ''unpair'' then one (cmd_unpair req dm)
         else (Some (err_response (''unknown command: '' @ rq_cmd req)), dm))"

section \<open>Watching\<close>

text \<open>The registration of a watcher: the unresolved offers are replayed to it, then the acknowledgement.\<close>

definition watch_register :: "DaemonState \<Rightarrow> IpcEvent list \<times> DaemonState" where
  "watch_register dm =
     (map po_offer_event (filter (\<lambda>offer. po_respond_to offer \<noteq> None) (map snd (ds_pending_offers dm)))
        @ [ok_response (JObj [(''status'', JStr ''watching''), (''message'', JStr ''Subscribed to transfer events'')])],
      dm\<lparr>ds_next_channel := ds_next_channel dm + 1,
         ds_watchers := ds_watchers dm @ [\<lparr>wt_id = ds_next_channel dm, wt_queue = [], wt_closed = False\<rparr>]\<rparr>)"

text \<open>A command on a watch connection: only confirmations are served.\<close>

definition watch_command :: "IpcRequest \<Rightarrow> DaemonState \<Rightarrow> IpcEvent \<times> DaemonState" where
  "watch_command req dm =
     (if rq_cmd req = ''transfer_confirm'' then cmd_transfer_confirm req dm
      else (err_response (''command '' @ CHR 0x27 # rq_cmd req @ CHR 0x27 # '' not supported on watch connection; use a separate nxfr command''), dm))"

section \<open>Background tasks\<close>

text \<open>Every ten seconds: offers past their expiry are answered with a refusal and removed.\<close>

fun expire_one :: "string \<Rightarrow> DaemonState \<Rightarrow> DaemonState" where
  "expire_one tid dm =
     (case map_of (ds_pending_offers dm) tid of
        None \<Rightarrow> dm
      | Some offer \<Rightarrow>
          let dm1 = remove_offer tid dm
          in case po_respond_to offer of
               None \<Rightarrow> dm1
             | Some ch \<Rightarrow> dm1\<lparr>ds_answers := ds_answers dm1 @ [(ch, False)]\<rparr>)"

definition expire_offers :: "nat \<Rightarrow> DaemonState \<Rightarrow> DaemonState" where
  "expire_offers now dm =
     (let expired = map fst (filter (\<lambda>(_, offer). now \<ge> po_expires_at offer) (ds_pending_offers dm))
      in fold expire_one expired dm)"

text \<open>One round of the browse cache: prune, then insert what was discovered.\<close>

definition browse_insert :: "nat \<Rightarrow> DiscoveredPeer \<Rightarrow> (string \<times> BrowseEntry) list \<Rightarrow> (string \<times> BrowseEntry) list" where
  "browse_insert now p cache = AList.update (dp_device_id_hint p)
     \<lparr>be_name = dp_name p, be_device_id_hint = dp_device_id_hint p, be_addresses = dp_addresses p,
      be_port = dp_port p, be_last_seen = now\<rparr> cache"

definition browse_cache_round :: "nat \<Rightarrow> DaemonState \<Rightarrow> bool \<times> DaemonState" where
  "browse_cache_round now dm =
     (case ds_discovery dm of
        None \<Rightarrow> (True, dm)
      | Some mgr \<Rightarrow>
          if is_degraded mgr \<noteq> None then (False, dm)
          else case browse_snapshot mgr of (discovered, mgr') \<Rightarrow>
            (True, dm\<lparr>ds_discovery := Some mgr',
               ds_browse_cache := fold (browse_insert now) discovered
                 (filter (\<lambda>(_, e). fresh_entry now e) (ds_browse_cache dm))\<rparr>))"

section \<open>Interleaving\<close>

text \<open>
  What other tasks do to the shared state while a connection waits for consent: IPC commands, the
  expiry task, watchers that come, read and go, and other connections that register and remove
  their own offers.
\<close>

datatype task_action =
    IpcCommand IpcRequest
  | WatchCommand IpcRequest
  | OfferExpiry nat
  | WatcherJoins
  | WatcherReads nat
  | WatcherLeaves nat
  | OtherOffer string IpcEvent nat
  | OtherCleanup string
  | BrowseRound nat

fun task_step :: "(NxfrConfig \<Rightarrow> string + bytes) \<Rightarrow> nat \<Rightarrow> task_action \<Rightarrow> DaemonState \<Rightarrow> DaemonState" where
  "task_step to_toml now (IpcCommand req) dm = snd (ipc_dispatch to_toml now req dm)"
| "task_step to_toml now (WatchCommand req) dm = snd (watch_command req dm)"
| "task_step to_toml now (OfferExpiry t) dm = expire_offers t dm"
| "task_step to_toml now WatcherJoins dm = snd (watch_register dm)"
| "task_step to_toml now (WatcherReads i) dm =
     dm\<lparr>ds_watchers := (if i < length (ds_watchers dm)
        then (ds_watchers dm)[i := (ds_watchers dm ! i)\<lparr>wt_queue := tl (wt_queue (ds_watchers dm ! i))\<rparr>] else ds_watchers dm)\<rparr>"
| "task_step to_toml now (WatcherLeaves i) dm =
     dm\<lparr>ds_watchers := (if i < length (ds_watchers dm)
        then (ds_watchers dm)[i := (ds_watchers dm ! i)\<lparr>wt_closed := True\<rparr>] else ds_watchers dm)\<rparr>"
| "task_step to_toml now (OtherOffer k event expires) dm = snd (register_offer k event expires dm)"
| "task_step to_toml now (OtherCleanup k) dm = remove_offer k dm"
| "task_step to_toml now (BrowseRound t) dm = snd (browse_cache_round t dm)"

definition run_tasks :: "(NxfrConfig \<Rightarrow> string + bytes) \<Rightarrow> nat \<Rightarrow> task_action list \<Rightarrow> DaemonState \<Rightarrow> DaemonState" where
  "run_tasks to_toml now actions dm = fold (task_step to_toml now) actions dm"

text \<open>The action is a complete confirmation of the offer \<open>k\<close> with the answer \<open>b\<close>.\<close>

definition confirms :: "string \<Rightarrow> bool \<Rightarrow> task_action \<Rightarrow> bool" where
  "confirms k b act \<longleftrightarrow> (\<exists>req. (act = IpcCommand req \<or> act = WatchCommand req) \<and>
     rq_cmd req = ''transfer_confirm'' \<and> rq_transfer_id req = Some k \<and> rq_accepted req = Some b)"

section \<open>Lemmas\<close>

text \<open>The offers and answers after each action, for those that leave them alone and the others.\<close>

lemma set_receiving_offers [simp]:
  "ds_pending_offers (snd (cmd_set_receiving tt req dm)) = ds_pending_offers dm"
  "ds_answers (snd (cmd_set_receiving tt req dm)) = ds_answers dm"
  "ds_next_channel (snd (cmd_set_receiving tt req dm)) = ds_next_channel dm"
  by (auto simp: cmd_set_receiving_def set_receiving_commit_def Let_def split: option.splits prod.splits sum.splits)

lemma other_commands_offers [simp]:
  "ds_pending_offers (snd (cmd_status dm)) = ds_pending_offers dm" "ds_answers (snd (cmd_status dm)) = ds_answers dm"
  "ds_next_channel (snd (cmd_status dm)) = ds_next_channel dm"
  "ds_pending_offers (snd (cmd_devices now dm)) = ds_pending_offers dm" "ds_answers (snd (cmd_devices now dm)) = ds_answers dm"
  "ds_next_channel (snd (cmd_devices now dm)) = ds_next_channel dm"
  "ds_pending_offers (snd (cmd_unpair req dm)) = ds_pending_offers dm" "ds_answers (snd (cmd_unpair req dm)) = ds_answers dm"
  "ds_next_channel (snd (cmd_unpair req dm)) = ds_next_channel dm"
  "ds_pending_offers (snd (browse_cache_round now dm)) = ds_pending_offers dm" "ds_answers (snd (browse_cache_round now dm)) = ds_answers dm"
  "ds_next_channel (snd (browse_cache_round now dm)) = ds_next_channel dm"
  by (auto simp: cmd_status_def cmd_devices_def cmd_unpair_def browse_cache_round_def Let_def
      split: option.splits prod.splits sum.splits)

text \<open>Every command is a confirmation or leaves the offers alone.\<close>

lemma dispatch_cases:
  obtains (confirm) "rq_cmd req = ''transfer_confirm''" "snd (ipc_dispatch tt now req dm) = snd (cmd_transfer_confirm req dm)"
  | (other) "rq_cmd req \<noteq> ''transfer_confirm''"
      "ds_pending_offers (snd (ipc_dispatch tt now req dm)) = ds_pending_offers dm"
      "ds_answers (snd (ipc_dispatch tt now req dm)) = ds_answers dm"
      "ds_next_channel (snd (ipc_dispatch tt now req dm)) = ds_next_channel dm"
proof (cases "rq_cmd req = ''transfer_confirm''")
  case True
  then show thesis using that(1) by (simp add: ipc_dispatch_def Let_def case_prod_beta)
next
  case False
  then show thesis using that(2) by (simp add: ipc_dispatch_def Let_def case_prod_beta)
qed

text \<open>\<open>ch\<close> is the channel of the offer \<open>k\<close> only, and unanswered.\<close>

definition open_channel :: "nat \<Rightarrow> string \<Rightarrow> DaemonState \<Rightarrow> bool" where
  "open_channel ch k dm \<longleftrightarrow> ch < ds_next_channel dm \<and> ch \<notin> fst ` set (ds_answers dm) \<and>
     (\<forall>(k', offer)\<in>set (ds_pending_offers dm). po_respond_to offer = Some ch \<longrightarrow> k' = k)"

definition answered :: "nat \<Rightarrow> bool \<Rightarrow> DaemonState \<Rightarrow> bool" where
  "answered ch b dm \<longleftrightarrow> map_of (ds_answers dm) ch = Some b"

lemma set_update_subset: "set (AList.update k v al) \<subseteq> insert (k, v) (set al)"
  by (induction al) auto

lemma set_delete_subset: "set (AList.delete k al) \<subseteq> set al"
  by (auto simp: AList.delete_eq)

text \<open>The state after a confirmation, by what it finds.\<close>

definition take_offer :: "string \<Rightarrow> bool \<Rightarrow> PendingOffer \<Rightarrow> DaemonState \<Rightarrow> DaemonState" where
  "take_offer tid b offer dm =
     (let al = AList.update tid (offer\<lparr>po_respond_to := None\<rparr>) (ds_pending_offers dm)
      in case po_respond_to offer of
           None \<Rightarrow> dm\<lparr>ds_pending_offers := al\<rparr>
         | Some c \<Rightarrow> dm\<lparr>ds_pending_offers := AList.delete tid al, ds_answers := ds_answers dm @ [(c, b)]\<rparr>)"

lemma confirm_state:
  "snd (cmd_transfer_confirm req dm) =
     (case rq_transfer_id req of None \<Rightarrow> dm | Some tid \<Rightarrow>
       (case rq_accepted req of None \<Rightarrow> dm | Some b \<Rightarrow>
         (case map_of (ds_pending_offers dm) tid of None \<Rightarrow> dm | Some offer \<Rightarrow> take_offer tid b offer dm)))"
  by (simp add: cmd_transfer_confirm_def take_respond_to_def remove_offer_def take_offer_def Let_def split: option.splits)

lemma take_offer_effect:
  assumes "open_channel ch k dm" "map_of (ds_pending_offers dm) tid = Some offer"
  shows "open_channel ch k (take_offer tid b offer dm) \<or> tid = k \<and> answered ch b (take_offer tid b offer dm)"
proof -
  let ?al = "AList.update tid (offer\<lparr>po_respond_to := None\<rparr>) (ds_pending_offers dm)"
  have al: "(k', o') \<in> set ?al \<Longrightarrow> po_respond_to o' = Some ch \<Longrightarrow> k' = k" for k' o'
    using set_update_subset [of tid "offer\<lparr>po_respond_to := None\<rparr>" "ds_pending_offers dm"] assms(1)
    by (auto simp: open_channel_def)
  have del: "(k', o') \<in> set (AList.delete tid ?al) \<Longrightarrow> po_respond_to o' = Some ch \<Longrightarrow> k' = k" for k' o'
    using set_delete_subset [of tid ?al] al by blast
  show ?thesis
  proof (cases "po_respond_to offer = Some ch")
    case True
    have "tid = k" using assms(1) True map_of_SomeD [OF assms(2)] by (auto simp: open_channel_def)
    moreover have "map_of (ds_answers dm) ch = None"
      using assms(1) by (simp add: open_channel_def map_of_eq_None_iff)
    ultimately show ?thesis using True by (simp add: answered_def take_offer_def Let_def map_add_def)
  next
    case False
    have "ds_next_channel (take_offer tid b offer dm) = ds_next_channel dm"
      "ch \<notin> fst ` set (ds_answers (take_offer tid b offer dm))"
      using False assms(1) by (auto simp: take_offer_def Let_def open_channel_def split: option.splits)
    moreover have "set (ds_pending_offers (take_offer tid b offer dm)) \<subseteq> set ?al"
      using set_delete_subset [of tid ?al] by (simp add: take_offer_def Let_def split: option.splits)
    ultimately show ?thesis using al assms(1) by (fastforce simp: open_channel_def)
  qed
qed

lemma confirm_effect:
  assumes "open_channel ch k dm" "dm' = snd (cmd_transfer_confirm req dm)"
  shows "open_channel ch k dm' \<or>
    (\<exists>b. rq_transfer_id req = Some k \<and> rq_accepted req = Some b \<and> answered ch b dm')"
  using assms(2) take_offer_effect [OF assms(1)] assms(1)
  unfolding confirm_state by (auto split: option.splits)

lemma expire_one_effect:
  assumes "open_channel ch k dm \<or> answered ch False dm"
  shows "open_channel ch k (expire_one tid dm) \<or> answered ch False (expire_one tid dm)"
proof (cases "answered ch False dm")
  case True
  then show ?thesis by (auto simp: answered_def remove_offer_def Let_def map_add_def split: option.splits)
next
  case False
  then have open_dm: "open_channel ch k dm" using assms by blast
  show ?thesis
  proof (cases "map_of (ds_pending_offers dm) tid")
    case None
    then show ?thesis using open_dm by simp
  next
    case (Some offer)
    have del: "(k', o') \<in> set (AList.delete tid (ds_pending_offers dm)) \<Longrightarrow> po_respond_to o' = Some ch \<Longrightarrow> k' = k" for k' o'
      using set_delete_subset [of tid "ds_pending_offers dm"] open_dm by (auto simp: open_channel_def)
    moreover have "map_of (ds_answers dm) ch = None"
      using open_dm by (simp add: open_channel_def map_of_eq_None_iff)
    ultimately show ?thesis
      using Some open_dm
      by (cases "po_respond_to offer = Some ch")
        (auto simp: open_channel_def answered_def remove_offer_def Let_def map_add_def split: option.splits)
  qed
qed

lemma expire_offers_effect:
  assumes "open_channel ch k dm"
  shows "open_channel ch k (expire_offers now dm) \<or> answered ch False (expire_offers now dm)"
proof -
  have "open_channel ch k (fold expire_one tids dm) \<or> answered ch False (fold expire_one tids dm)"
    if "open_channel ch k dm \<or> answered ch False dm" for tids dm
    using that
  proof (induction tids arbitrary: dm)
    case (Cons t tids)
    show ?case unfolding fold_simps using expire_one_effect [OF Cons.prems] by (rule Cons.IH)
  qed simp
  then show ?thesis using assms by (simp only: expire_offers_def Let_def) blast
qed

lemma task_step_effect:
  assumes "open_channel ch k dm"
  shows "open_channel ch k (task_step tt now act dm) \<or>
    (\<exists>b. answered ch b (task_step tt now act dm) \<and> (confirms k b act \<or> b = False))"
proof (cases act)
  case (IpcCommand req)
  show ?thesis
  proof (cases rule: dispatch_cases [of req tt now dm])
    case confirm
    then show ?thesis using confirm_effect [OF assms refl, of req] IpcCommand by (auto simp: confirms_def)
  next
    case other
    then show ?thesis using assms IpcCommand by (simp add: open_channel_def)
  qed
next
  case (WatchCommand req)
  then show ?thesis
    using confirm_effect [OF assms refl, of req] assms by (auto simp: watch_command_def confirms_def)
next
  case (OfferExpiry t)
  then show ?thesis using expire_offers_effect [OF assms, of t] by auto
next
  case (OtherOffer k' ev t)
  let ?o = "\<lparr>po_offer_event = ev, po_respond_to = Some (ds_next_channel dm), po_expires_at = t\<rparr>"
  show ?thesis
    using assms set_update_subset [of k' ?o "ds_pending_offers dm"] OtherOffer
    by (fastforce simp: open_channel_def register_offer_def Let_def)
next
  case (OtherCleanup k')
  then show ?thesis
    using assms set_delete_subset [of k' "ds_pending_offers dm"] by (fastforce simp: open_channel_def remove_offer_def)
qed (use assms in \<open>simp_all add: open_channel_def watch_register_def\<close>)

text \<open>Answers are only ever added, so the first one for a channel stays.\<close>

lemma answered_append: "answered ch b dm \<Longrightarrow> ds_answers dm' = ds_answers dm @ xs \<Longrightarrow> answered ch b dm'"
  by (simp add: answered_def map_add_def split: option.splits)

lemma expire_offers_appends: "\<exists>xs. ds_answers (expire_offers t dm) = ds_answers dm @ xs"
proof -
  have "\<exists>xs. ds_answers (fold expire_one tids dm) = ds_answers dm @ xs" for tids dm
  proof (induction tids arbitrary: dm)
    case (Cons tid tids)
    have "\<exists>xs. ds_answers (expire_one tid dm) = ds_answers dm @ xs"
      by (auto simp: remove_offer_def Let_def split: option.splits)
    then show ?case using Cons [of "expire_one tid dm"] unfolding fold_simps by (metis append.assoc)
  qed simp
  then show ?thesis by (simp only: expire_offers_def Let_def)
qed

lemma confirm_appends: "\<exists>xs. ds_answers (snd (cmd_transfer_confirm req dm)) = ds_answers dm @ xs"
  unfolding confirm_state by (auto simp: take_offer_def Let_def split: option.splits)

lemma task_step_appends: "\<exists>xs. ds_answers (task_step tt now act dm) = ds_answers dm @ xs"
proof (cases act)
  case (IpcCommand req)
  show ?thesis
    by (cases rule: dispatch_cases [of req tt now dm]) (use confirm_appends IpcCommand in auto)
qed (use confirm_appends expire_offers_appends in \<open>auto simp: watch_command_def register_offer_def remove_offer_def watch_register_def Let_def\<close>)

lemma answered_run: "answered ch b dm \<Longrightarrow> answered ch b (run_tasks tt now acts dm)"
proof (induction acts arbitrary: dm)
  case (Cons act acts)
  then have "answered ch b (task_step tt now act dm)"
    using task_step_appends answered_append by metis
  then show ?case using Cons.IH by (simp add: run_tasks_def)
qed (simp add: run_tasks_def)

lemma answered_unique: "answered ch b dm \<Longrightarrow> answered ch c dm \<Longrightarrow> b = c"
  by (simp add: answered_def)

lemma open_channel_run:
  "open_channel ch k dm \<Longrightarrow> open_channel ch k (run_tasks tt now acts dm) \<or>
     (\<exists>b. answered ch b (run_tasks tt now acts dm) \<and> ((\<exists>act\<in>set acts. confirms k b act) \<or> b = False))"
proof (induction acts arbitrary: dm)
  case (Cons act acts)
  from task_step_effect [OF Cons.prems, of tt now act] show ?case
  proof (elim disjE exE conjE)
    assume "open_channel ch k (task_step tt now act dm)"
    from Cons.IH [OF this] show ?case by (auto simp: run_tasks_def)
  qed (use answered_run in \<open>fastforce simp: run_tasks_def\<close>)+
qed (simp add: run_tasks_def)

text \<open>Channels in use were handed out, and the offers have distinct keys.\<close>

definition channels_ok :: "DaemonState \<Rightarrow> bool" where
  "channels_ok dm \<longleftrightarrow> distinct (map fst (ds_pending_offers dm)) \<and>
     (\<forall>c\<in>fst ` set (ds_answers dm). c < ds_next_channel dm) \<and>
     (\<forall>(k, offer)\<in>set (ds_pending_offers dm). \<forall>c. po_respond_to offer = Some c \<longrightarrow> c < ds_next_channel dm)"

lemma register_offer_opens:
  assumes "channels_ok dm" "register_offer k ev t dm = (ch, dm1)"
  shows "open_channel ch k dm1"
proof -
  let ?o = "\<lparr>po_offer_event = ev, po_respond_to = Some (ds_next_channel dm), po_expires_at = t\<rparr>"
  show ?thesis
    using assms set_update_subset [of k ?o "ds_pending_offers dm"]
    by (fastforce simp: register_offer_def open_channel_def channels_ok_def Let_def)
qed

lemma channels_ok_update:
  assumes "channels_ok dm" "ds_answers dm' = ds_answers dm" "ds_next_channel dm \<le> ds_next_channel dm'"
    "ds_pending_offers dm' = AList.update k offer (ds_pending_offers dm)" "\<forall>c. po_respond_to offer = Some c \<longrightarrow> c < ds_next_channel dm'"
  shows "channels_ok dm'"
proof -
  have "distinct (map fst (ds_pending_offers dm'))" using assms(1,4) by (simp add: channels_ok_def distinct_update)
  moreover have "\<forall>(k, offer)\<in>set (ds_pending_offers dm'). \<forall>c. po_respond_to offer = Some c \<longrightarrow> c < ds_next_channel dm'"
    using set_update_subset [of k offer "ds_pending_offers dm"] assms by (fastforce simp: channels_ok_def)
  ultimately show ?thesis using assms(1-3) by (fastforce simp: channels_ok_def)
qed

lemma channels_ok_delete:
  assumes "channels_ok dm" "ds_next_channel dm' = ds_next_channel dm"
    "ds_pending_offers dm' = AList.delete k (ds_pending_offers dm)" "\<forall>c\<in>fst ` set (ds_answers dm'). c < ds_next_channel dm"
  shows "channels_ok dm'"
  using assms set_delete_subset [of k "ds_pending_offers dm"] by (fastforce simp: channels_ok_def distinct_delete)

section \<open>Consent\<close>

text \<open>The actions that can decide, replace or drop the offer \<open>k\<close> that expires at \<open>t\<close>.\<close>

fun touches :: "string \<Rightarrow> nat \<Rightarrow> task_action \<Rightarrow> bool" where
  "touches k t (IpcCommand req) = (rq_cmd req = ''transfer_confirm'' \<and> rq_transfer_id req = Some k \<and> rq_accepted req \<noteq> None)"
| "touches k t (WatchCommand req) = (rq_cmd req = ''transfer_confirm'' \<and> rq_transfer_id req = Some k \<and> rq_accepted req \<noteq> None)"
| "touches k t (OfferExpiry now) = (t \<le> now)"
| "touches k t (OtherOffer k' _ _) = (k' = k)"
| "touches k t (OtherCleanup k') = (k' = k)"
| "touches _ _ _ = False"

text \<open>The offer \<open>k\<close> waits for its answer on \<open>ch\<close>.\<close>

definition waiting :: "nat \<Rightarrow> string \<Rightarrow> nat \<Rightarrow> DaemonState \<Rightarrow> bool" where
  "waiting ch k t dm \<longleftrightarrow> ch \<notin> fst ` set (ds_answers dm) \<and> distinct (map fst (ds_pending_offers dm)) \<and>
     (\<forall>(k', offer)\<in>set (ds_pending_offers dm). po_respond_to offer = Some ch \<longrightarrow> k' = k) \<and>
     (\<exists>offer. map_of (ds_pending_offers dm) k = Some offer \<and> po_respond_to offer = Some ch \<and> po_expires_at offer = t) \<and>
     ch < ds_next_channel dm"

lemma waiting_only_offers:
  assumes "waiting ch k t dm" "ds_pending_offers dm' = ds_pending_offers dm" "ds_answers dm' = ds_answers dm"
    "ds_next_channel dm \<le> ds_next_channel dm'"
  shows "waiting ch k t dm'"
  using assms unfolding waiting_def by (metis order_less_le_trans)

lemma waiting_answer:
  assumes "waiting ch k t dm" "rq_cmd req = ''transfer_confirm''" "rq_transfer_id req = Some k" "rq_accepted req = Some b"
  shows "answered ch b (snd (cmd_transfer_confirm req dm))"
proof -
  have "map_of (ds_answers dm) ch = None" using assms(1) by (simp add: waiting_def map_of_eq_None_iff)
  with assms show ?thesis
    by (auto simp: confirm_state take_offer_def Let_def answered_def waiting_def map_add_def split: option.splits)
qed

text \<open>Changes under other keys leave the wait as it is.\<close>

lemma waiting_update:
  assumes "waiting ch k t dm" "k' \<noteq> k" "po_respond_to offer \<noteq> Some ch"
    "ds_pending_offers dm' = AList.update k' offer (ds_pending_offers dm)" "ds_answers dm' = ds_answers dm"
    "ds_next_channel dm \<le> ds_next_channel dm'"
  shows "waiting ch k t dm'"
proof -
  have "\<forall>(k', offer)\<in>set (ds_pending_offers dm'). po_respond_to offer = Some ch \<longrightarrow> k' = k"
    using set_update_subset [of k' offer "ds_pending_offers dm"] assms by (fastforce simp: waiting_def)
  then show ?thesis using assms by (auto simp: waiting_def distinct_update update_conv)
qed

lemma waiting_delete:
  assumes "waiting ch k t dm" "k' \<noteq> k" "ds_pending_offers dm' = AList.delete k' (ds_pending_offers dm)"
    "ch \<notin> fst ` set (ds_answers dm')" "ds_next_channel dm' = ds_next_channel dm"
  shows "waiting ch k t dm'"
proof -
  have "\<forall>(k', offer)\<in>set (ds_pending_offers dm'). po_respond_to offer = Some ch \<longrightarrow> k' = k"
    using set_delete_subset [of k' "ds_pending_offers dm"] assms by (fastforce simp: waiting_def)
  then show ?thesis using assms by (auto simp: waiting_def distinct_delete delete_conv')
qed

lemma waiting_other_channel:
  assumes "waiting ch k t dm" "map_of (ds_pending_offers dm) k' = Some offer" "k' \<noteq> k"
  shows "po_respond_to offer \<noteq> Some ch"
  using assms map_of_SomeD [OF assms(2)] by (auto simp: waiting_def)

lemma waiting_take_offer:
  assumes "waiting ch k t dm" "map_of (ds_pending_offers dm) k' = Some offer" "k' \<noteq> k"
  shows "waiting ch k t (take_offer k' b offer dm)"
proof -
  let ?dm = "dm\<lparr>ds_pending_offers := AList.update k' (offer\<lparr>po_respond_to := None\<rparr>) (ds_pending_offers dm)\<rparr>"
  have upd: "waiting ch k t ?dm" by (rule waiting_update [OF assms(1,3)]) simp_all
  show ?thesis
  proof (cases "po_respond_to offer")
    case None
    then show ?thesis using upd by (simp add: take_offer_def)
  next
    case (Some c)
    show ?thesis
      by (rule waiting_delete [OF upd assms(3)])
        (use Some assms(1) waiting_other_channel [OF assms] in \<open>auto simp: take_offer_def waiting_def\<close>)
  qed
qed

lemma waiting_confirm:
  assumes "waiting ch k t dm" "\<not> (rq_transfer_id req = Some k \<and> rq_accepted req \<noteq> None)"
  shows "waiting ch k t (snd (cmd_transfer_confirm req dm))"
  unfolding confirm_state using assms waiting_take_offer [OF assms(1)] by (auto split: option.splits)

lemma waiting_expire_one:
  assumes "waiting ch k t dm" "k' \<noteq> k"
  shows "waiting ch k t (expire_one k' dm)"
proof (cases "map_of (ds_pending_offers dm) k'")
  case None
  then show ?thesis using assms by simp
next
  case (Some offer)
  show ?thesis
    by (rule waiting_delete [OF assms])
      (use Some assms(1) waiting_other_channel [OF assms(1) Some assms(2)] in
        \<open>auto simp: remove_offer_def Let_def waiting_def split: option.splits\<close>)
qed

lemma waiting_expire:
  assumes "waiting ch k t dm" "now < t"
  shows "waiting ch k t (expire_offers now dm)"
proof -
  have "waiting ch k t (fold expire_one tids dm)" if "waiting ch k t dm" "k \<notin> set tids" for tids dm
    using that
  proof (induction tids arbitrary: dm)
    case (Cons tid tids)
    have "waiting ch k t (expire_one tid dm)"
      by (rule waiting_expire_one) (use Cons.prems in auto)
    then show ?case unfolding fold_simps by (rule Cons.IH) (use Cons.prems in simp)
  qed simp
  moreover have "k \<notin> set (map fst (filter (\<lambda>(_, offer). now \<ge> po_expires_at offer) (ds_pending_offers dm)))"
    using assms by (auto simp: waiting_def dest!: map_of_is_SomeI [rotated])
  ultimately show ?thesis using assms(1) by (simp only: expire_offers_def Let_def)
qed

lemma waiting_step:
  assumes "waiting ch k t dm" "\<not> touches k t act"
  shows "waiting ch k t (task_step tt now act dm)"
proof (cases act)
  case (IpcCommand req)
  show ?thesis
  proof (cases rule: dispatch_cases [of req tt now dm])
    case confirm
    then show ?thesis using waiting_confirm [OF assms(1), of req] assms(2) IpcCommand by auto
  next
    case other
    then show ?thesis using waiting_only_offers [OF assms(1)] IpcCommand by simp
  qed
next
  case (WatchCommand req)
  then show ?thesis using waiting_confirm [OF assms(1), of req] assms by (auto simp: watch_command_def)
next
  case (OfferExpiry n)
  then show ?thesis using waiting_expire assms by simp
next
  case (OtherOffer k' ev n)
  show ?thesis
    by (rule waiting_update [OF assms(1), where k' = k']) (use OtherOffer assms in \<open>auto simp: register_offer_def Let_def waiting_def\<close>)
next
  case (OtherCleanup k')
  show ?thesis
    by (rule waiting_delete [OF assms(1), where k' = k']) (use OtherCleanup assms in \<open>auto simp: remove_offer_def waiting_def\<close>)
qed (use assms in \<open>auto simp: watch_register_def intro: waiting_only_offers\<close>)

lemma waiting_run:
  "waiting ch k t dm \<Longrightarrow> list_all (\<lambda>act. \<not> touches k t act) acts \<Longrightarrow> waiting ch k t (run_tasks tt now acts dm)"
  by (induction acts arbitrary: dm) (auto simp: run_tasks_def waiting_step)

lemma register_offer_waits:
  assumes "channels_ok dm" "register_offer k ev t dm = (ch, dm1)"
  shows "waiting ch k t dm1"
proof -
  have "open_channel ch k dm1" by (rule register_offer_opens [OF assms])
  then show ?thesis
    using assms by (auto simp: register_offer_def Let_def waiting_def open_channel_def channels_ok_def distinct_update update_conv)
qed

lemma waiting_confirmed_step:
  assumes "waiting ch k t dm" "confirms k b act"
  shows "answered ch b (task_step tt now act dm)"
  using assms waiting_answer [OF assms(1)]
  by (auto simp: confirms_def ipc_dispatch_def watch_command_def Let_def case_prod_beta)

lemma answered_result: "answered ch b dm \<Longrightarrow> consent_result ch dm = Answered b"
  by (simp add: answered_def consent_result_def)

lemma waiting_result: "waiting ch k t dm \<Longrightarrow> consent_result ch dm = TimedOut"
  by (force simp: waiting_def consent_result_def map_of_eq_None_iff list_ex_iff dest: map_of_SomeD split: option.splits)

lemma open_channel_yes:
  assumes "open_channel ch k dm" "consent_result ch (run_tasks tt now acts dm) = Answered True"
  shows "\<exists>act\<in>set acts. confirms k True act"
proof -
  let ?r = "run_tasks tt now acts dm"
  from assms(2) have yes: "answered ch True ?r" by (auto simp: consent_result_def answered_def split: option.splits if_splits)
  then have "\<not> open_channel ch k ?r" by (force simp: open_channel_def answered_def dest: map_of_SomeD)
  then show ?thesis using open_channel_run [OF assms(1), of tt now acts] answered_unique [OF yes] by blast
qed

text \<open>Every action keeps the channels in order.\<close>

lemma channels_ok_same:
  assumes "channels_ok dm" "ds_pending_offers dm' = ds_pending_offers dm" "ds_answers dm' = ds_answers dm"
    "ds_next_channel dm \<le> ds_next_channel dm'"
  shows "channels_ok dm'"
  using assms(1,4) unfolding channels_ok_def assms(2,3) by fastforce

lemma channels_ok_pending:
  "channels_ok dm \<Longrightarrow> map_of (ds_pending_offers dm) k = Some offer \<Longrightarrow> po_respond_to offer = Some c \<Longrightarrow> c < ds_next_channel dm"
  by (force simp: channels_ok_def dest: map_of_SomeD)

lemma channels_ok_answers: "channels_ok dm \<Longrightarrow> \<forall>c\<in>fst ` set (ds_answers dm). c < ds_next_channel dm"
  by (simp add: channels_ok_def)

lemma channels_ok_confirm:
  assumes "channels_ok dm"
  shows "channels_ok (snd (cmd_transfer_confirm req dm))"
proof -
  have "channels_ok (take_offer k b offer dm)" if offer: "map_of (ds_pending_offers dm) k = Some offer" for k b offer
  proof -
    let ?dm = "dm\<lparr>ds_pending_offers := AList.update k (offer\<lparr>po_respond_to := None\<rparr>) (ds_pending_offers dm)\<rparr>"
    have upd: "channels_ok ?dm"
      by (rule channels_ok_update [OF assms, where k = k and offer = "offer\<lparr>po_respond_to := None\<rparr>"]) simp_all
    show ?thesis
    proof (cases "po_respond_to offer")
      case None
      then show ?thesis using upd by (simp add: take_offer_def)
    next
      case (Some c)
      show ?thesis
        by (rule channels_ok_delete [OF upd])
          (use Some channels_ok_pending [OF assms offer Some] channels_ok_answers [OF assms] in \<open>auto simp: take_offer_def\<close>)
    qed
  qed
  then show ?thesis unfolding confirm_state using assms by (auto split: option.splits)
qed

lemma channels_ok_register: "channels_ok dm \<Longrightarrow> channels_ok (snd (register_offer k ev t dm))"
  by (rule channels_ok_update [of dm _ k]) (auto simp: register_offer_def Let_def)

lemma channels_ok_remove: "channels_ok dm \<Longrightarrow> channels_ok (remove_offer k dm)"
  by (rule channels_ok_delete [of dm _ k]) (auto simp: remove_offer_def channels_ok_def)

lemma channels_ok_expire_one:
  assumes "channels_ok dm"
  shows "channels_ok (expire_one k dm)"
proof (cases "map_of (ds_pending_offers dm) k")
  case (Some offer)
  show ?thesis
    by (rule channels_ok_delete [OF assms, where k = k])
      (use Some channels_ok_pending [OF assms Some] channels_ok_answers [OF assms] in
        \<open>auto simp: remove_offer_def Let_def split: option.splits\<close>)
qed (use assms in simp)

lemma channels_ok_expire: "channels_ok dm \<Longrightarrow> channels_ok (expire_offers now dm)"
proof -
  have "channels_ok (fold expire_one tids dm)" if "channels_ok dm" for tids dm
    using that
  proof (induction tids arbitrary: dm)
    case (Cons tid tids)
    show ?case unfolding fold_simps by (rule Cons.IH [OF channels_ok_expire_one [OF Cons.prems]])
  qed simp
  then show "channels_ok dm \<Longrightarrow> ?thesis" by (simp only: expire_offers_def Let_def)
qed

lemma channels_ok_step:
  assumes "channels_ok dm"
  shows "channels_ok (task_step tt now act dm)"
proof (cases act)
  case (IpcCommand req)
  show ?thesis
    by (cases rule: dispatch_cases [of req tt now dm])
      (use IpcCommand assms channels_ok_confirm channels_ok_same [OF assms] in auto)
qed (use assms channels_ok_confirm channels_ok_expire channels_ok_register channels_ok_remove in
    \<open>auto simp: watch_command_def watch_register_def intro: channels_ok_same\<close>)

lemma channels_ok_run: "channels_ok dm \<Longrightarrow> channels_ok (run_tasks tt now acts dm)"
  by (induction acts arbitrary: dm) (auto simp: run_tasks_def channels_ok_step)

lemma channels_ok_start: "channels_ok (daemon_state_new cfg cp db w jd i mgr)"
  by (simp add: daemon_state_new_def channels_ok_def)

text \<open>
  C18 A connection that registered an offer in any state the daemon can reach learns exactly the first
  decision taken on it, whatever the other tasks do in between (IPC commands, other connections'
  offers, expiry, browsing, watchers coming and going): it is told to accept only if one of them was a
  complete confirmation of that very offer with the answer yes; the first confirmation, when nothing
  replaced, removed or expired the offer before it, decides for good, whatever is sent later; and if
  nothing touches the offer, the wait ends by its own timeout.
\<close>

theorem consent_first_answer:
  assumes "register_offer k ev t (run_tasks tt now0 earlier (daemon_state_new cfg cp db w jd i mgr)) = (ch, dm1)"
  shows "(consent_result ch (run_tasks tt now acts dm1) = Answered True \<longrightarrow> (\<exists>act\<in>set acts. confirms k True act))
    \<and> (list_all (\<lambda>a. \<not> touches k t a) before \<and> confirms k b act \<longrightarrow>
         consent_result ch (run_tasks tt now (before @ act # later) dm1) = Answered b)
    \<and> (list_all (\<lambda>a. \<not> touches k t a) acts \<longrightarrow> consent_result ch (run_tasks tt now acts dm1) = TimedOut)"
proof (intro conjI impI)
  let ?r = "run_tasks tt now acts dm1"
  note ok = channels_ok_run [OF channels_ok_start]
  note waits = waiting_run [OF register_offer_waits [OF ok assms]]
  show "\<exists>act\<in>set acts. confirms k True act" if "consent_result ch ?r = Answered True"
    by (rule open_channel_yes [OF register_offer_opens [OF ok assms] that])
  show "consent_result ch (run_tasks tt now (before @ act # later) dm1) = Answered b"
    if "list_all (\<lambda>a. \<not> touches k t a) before \<and> confirms k b act"
  proof -
    from that have "answered ch b (task_step tt now act (run_tasks tt now before dm1))"
      using waiting_confirmed_step [OF waits] by blast
    then have "answered ch b (run_tasks tt now (before @ act # later) dm1)"
      using answered_run [of ch b _ tt now later] by (simp add: run_tasks_def)
    then show ?thesis by (rule answered_result)
  qed
  show "consent_result ch ?r = TimedOut" if "list_all (\<lambda>a. \<not> touches k t a) acts"
    by (rule waiting_result [OF waits [OF that]])
qed

theorem consent_first_answer_witness:
  "let confirm = (\<lambda>b. \<lparr>rq_cmd = ''transfer_confirm'', rq_path = None, rq_target_device_id = None, rq_target_addr = None,
         rq_retry_transfer_id = None, rq_enabled = None, rq_device_id = None, rq_transfer_id = Some ''k'', rq_accepted = Some b\<rparr>);
       dm = daemon_state_new \<lparr>cf_device_name = ''n'', cf_receive_dir = [''d''], cf_receiving_enabled = True\<rparr> [''c'']
         \<lparr>db_rows = Some [], db_autoinc = 0, db_version = Some [1], db_faults = []\<rparr>
         \<lparr>files = [], dirs = [], io_faults = []\<rparr> [''j''] [7] None;
       (ch, dm1) = register_offer ''k'' (EvPairFailed '''') 120 (run_tasks ref_config_to_string 0 [WatcherJoins] dm)
   in consent_result ch (run_tasks ref_config_to_string 5
        [OtherOffer ''z'' (EvPairFailed '''') 9, OfferExpiry 10, WatchCommand (confirm False), IpcCommand (confirm True)] dm1)
      = Answered False"
proof -
  let ?c = "\<lambda>b. \<lparr>rq_cmd = ''transfer_confirm'', rq_path = None, rq_target_device_id = None, rq_target_addr = None,
         rq_retry_transfer_id = None, rq_enabled = None, rq_device_id = None, rq_transfer_id = Some ''k'', rq_accepted = Some b\<rparr>"
  let ?dm = "daemon_state_new \<lparr>cf_device_name = ''n'', cf_receive_dir = [''d''], cf_receiving_enabled = True\<rparr> [''c'']
         \<lparr>db_rows = Some [], db_autoinc = 0, db_version = Some [1], db_faults = []\<rparr>
         \<lparr>files = [], dirs = [], io_faults = []\<rparr> [''j''] [7] None"
  obtain ch dm1 where reg: "register_offer ''k'' (EvPairFailed '''') 120 (run_tasks ref_config_to_string 0 [WatcherJoins] ?dm) = (ch, dm1)"
    by (rule prod.exhaust)
  show ?thesis
    using consent_first_answer [OF reg, where before = "[OtherOffer ''z'' (EvPairFailed '''') 9, OfferExpiry 10]"
        and act = "WatchCommand (?c False)" and b = False and later = "[IpcCommand (?c True)]" and now = 5]
    by (simp add: reg confirms_def)
qed

end
