(* ===== verification/Nxfr_Receiver.thy ===== *)
theory Nxfr_Receiver
  imports Nxfr_Transport Nxfr_Resume
begin

text \<open>
  The file receiver, \<open>nxfr-daemon/src/receiver.rs\<close>: one loop that takes frames from the
  connection, appends verified chunks to the \<open>.part\<close> file, keeps the resume journal and
  acknowledges, then verifies the whole file and renames it. The state threads the connection, the
  file system, the resume state and the loop variables; the running hash is the list of the bytes
  it was given. Log output is not modelled. SHA-256, the CBOR library and the JSON printer are
  parameters.
\<close>

section \<open>State\<close>

datatype recv_error =
    RecvFile string
  | RecvConn io_error
  | RecvCodec CodecError
  | RecvJournal ResumeError
  | RecvFailed string

record recv_state =
  rv_conn :: NxfrConnection
  rv_world :: world
  rv_resume :: ResumeState
  rv_received :: u64
  rv_hashed :: bytes

text \<open>The arguments of \<open>receive_file\<close>, and the library code it uses.\<close>

record recv_args =
  ra_session_id :: u32
  ra_file_id :: u32
  ra_stream_id :: u32
  ra_expected_size :: u64
  ra_expected_hash :: bytes
  ra_part_path :: abspath
  ra_final_path :: abspath
  ra_journal_dir :: abspath
  ra_now :: nat

record recv_lib =
  lib_sha256 :: "bytes \<Rightarrow> bytes"
  lib_from_reader :: "bytes \<Rightarrow> string + Value"
  lib_into_writer :: "Value \<Rightarrow> string + bytes"
  lib_to_vec :: "ResumeState \<Rightarrow> string + bytes"

text \<open>A frame makes the loop go on, leave the loop, or return with an error.\<close>

datatype step_result =
    Continue (step_state: recv_state)
  | Break (step_state: recv_state)
  | Return recv_error (step_state: recv_state)

section \<open>Collisions\<close>

definition collision_candidate :: "abspath \<Rightarrow> nat \<Rightarrow> abspath" where
  "collision_candidate path i =
     (let name = (if path = [] then '''' else last path);
          stem = (if path = [] \<or> name = ''..'' then ''file'' else name_stem name);
          ext = (case name_extension name of None \<Rightarrow> '''' | Some e \<Rightarrow> CHR ''.'' # e)
      in butlast path @ [stem @ '' ('' @ dec_string i @ '')'' @ ext])"

definition collision_fallback :: "abspath \<Rightarrow> nat \<Rightarrow> abspath" where
  "collision_fallback path now =
     (let name = (if path = [] then '''' else last path);
          stem = (if path = [] \<or> name = ''..'' then ''file'' else name_stem name);
          ext = (case name_extension name of None \<Rightarrow> '''' | Some e \<Rightarrow> CHR ''.'' # e)
      in butlast path @ [stem @ ''_'' @ dec_string now @ ext])"

definition resolve_collision :: "nat \<Rightarrow> abspath \<Rightarrow> world \<Rightarrow> abspath" where
  "resolve_collision now path w =
     (if \<not> fs_exists path w then path
      else case find (\<lambda>c. \<not> fs_exists c w) (map (collision_candidate path) [1..<1000]) of
        Some candidate \<Rightarrow> candidate
      | None \<Rightarrow> collision_fallback path now)"

section \<open>Opening the .part file\<close>

datatype open_result = AlreadyComplete | Ready u64 bytes

definition has_partial :: "ResumeState \<Rightarrow> u32 \<Rightarrow> bool" where
  "has_partial st file_id =
     (case map_of (rs_files st) file_id of None \<Rightarrow> False | Some fs \<Rightarrow> fst_received_bytes fs > 0)"

definition receive_open :: "recv_lib \<Rightarrow> recv_args \<Rightarrow> ResumeState \<Rightarrow> world \<Rightarrow> (recv_error + open_result) \<times> world" where
  "receive_open lib a st w =
     (if has_partial st (ra_file_id a) \<and> fs_exists (ra_part_path a) w then
        io_then (io_map_err RecvFile (fs_read (ra_part_path a) w)) (\<lambda>existing_data w.
          let existing_len = (of_nat (length existing_data) :: u64)
          in if existing_len = ra_expected_size a \<and> lib_sha256 lib existing_data = ra_expected_hash a
             then let final_dest = resolve_collision (ra_now a) (ra_final_path a) w
                  in io_then (io_map_err RecvFile (fs_rename (ra_part_path a) final_dest w))
                       (\<lambda>_ w. (Inr AlreadyComplete, w))
             else io_then (io_map_err RecvFile (fs_open_append (ra_part_path a) w))
                    (\<lambda>_ w. (Inr (Ready existing_len existing_data), w)))
      else io_then (io_map_err RecvFile (fs_create (ra_part_path a) w))
             (\<lambda>_ w. (Inr (Ready 0 []), w)))"

section \<open>Frames\<close>

definition rv_send :: "recv_lib \<Rightarrow> recv_args \<Rightarrow> ControlMessage \<Rightarrow> recv_state \<Rightarrow> (recv_error + unit) \<times> recv_state" where
  "rv_send lib a msg s =
     (case send_control (lib_into_writer lib) (ra_session_id a) 0 msg (rv_conn s) of
        (Inl e, c) \<Rightarrow> (Inl (RecvConn e), s\<lparr>rv_conn := c\<rparr>)
      | (Inr _, c) \<Rightarrow> (Inr (), s\<lparr>rv_conn := c\<rparr>))"

definition rv_remove_part :: "recv_args \<Rightarrow> recv_state \<Rightarrow> recv_state" where
  "rv_remove_part a s = s\<lparr>rv_world := snd (fs_remove_file (ra_part_path a) (rv_world s))\<rparr>"

text \<open>Report a fatal error to the peer, remove the \<open>.part\<close> file or keep it, and return.\<close>

definition rv_abort :: "recv_lib \<Rightarrow> recv_args \<Rightarrow> ErrorCode \<Rightarrow> string \<Rightarrow> bool \<Rightarrow> string \<Rightarrow> recv_state \<Rightarrow> step_result" where
  "rv_abort lib a code message remove reason s =
     (case rv_send lib a (Error code (Some message) True None) s of
        (Inl e, s') \<Rightarrow> Return e s'
      | (Inr _, s') \<Rightarrow> Return (RecvFailed reason) (if remove then rv_remove_part a s' else s'))"

definition update_resume :: "u32 \<Rightarrow> u64 \<Rightarrow> ResumeState \<Rightarrow> ResumeState" where
  "update_resume file_id received st =
     st\<lparr>rs_files := map (\<lambda>(i, fs). if i = file_id
          then (i, fs\<lparr>fst_received_bytes := received, fst_received_ranges := [(0, received)]\<rparr>)
          else (i, fs)) (rs_files st)\<rparr>"

text \<open>Append a chunk at the expected offset: write, hash, update, sync, save the journal.\<close>

definition receive_append :: "recv_lib \<Rightarrow> recv_args \<Rightarrow> bytes \<Rightarrow> recv_state \<Rightarrow> (recv_error + unit) \<times> recv_state" where
  "receive_append lib a chunk s =
     (case fs_write_all (ra_part_path a) chunk (rv_world s) of
        (Inl e, w) \<Rightarrow> (Inl (RecvFile e), s\<lparr>rv_world := w\<rparr>)
      | (Inr _, w) \<Rightarrow>
          let new_total = rv_received s + of_nat (length chunk);
              s1 = s\<lparr>rv_world := w, rv_hashed := rv_hashed s @ chunk, rv_received := new_total,
                     rv_resume := update_resume (ra_file_id a) new_total (rv_resume s)\<rparr>
          in case fs_sync_all (ra_part_path a) (rv_world s1) of
               (Inl e, w) \<Rightarrow> (Inl (RecvFile e), s1\<lparr>rv_world := w\<rparr>)
             | (Inr _, w) \<Rightarrow>
                 (case journal_save (lib_to_vec lib) (ra_journal_dir a) (rv_resume s1) w of
                    (Inl e, w) \<Rightarrow> (Inl (RecvJournal e), s1\<lparr>rv_world := w\<rparr>)
                  | (Inr _, w) \<Rightarrow> (Inr (), s1\<lparr>rv_world := w\<rparr>)))"

definition receive_ack :: "recv_lib \<Rightarrow> recv_args \<Rightarrow> FrameHeader \<Rightarrow> u64 \<Rightarrow> bytes \<Rightarrow> recv_state \<Rightarrow> step_result" where
  "receive_ack lib a hdr off chunk s =
     (case rv_send lib a (ChunkAck (ra_stream_id a) (message_id hdr) off (of_nat (length chunk))) s of
        (Inl e, s') \<Rightarrow> Return e s'
      | (Inr _, s') \<Rightarrow>
          if is_last_chunk (flags hdr) \<or> rv_received s' = ra_expected_size a then Break s' else Continue s')"

definition receive_chunk :: "recv_lib \<Rightarrow> recv_args \<Rightarrow> FrameHeader \<Rightarrow> bytes \<Rightarrow> recv_state \<Rightarrow> step_result" where
  "receive_chunk lib a hdr payload s =
     (if stream_id hdr \<noteq> ra_stream_id a then Continue s
      else if length payload < 41 then Continue s
      else
        let off = u64_from_be_bytes (subslice 0 8 payload);
            hash = subslice 8 40 payload;
            chunk = drop 40 payload
        in if hash \<noteq> lib_sha256 lib chunk then
             rv_abort lib a EcChecksumMismatch (''chunk hash mismatch at offset '' @ dec_string (unat off))
               True ''chunk hash mismatch'' s
           else if off = rv_received s then
             (if rv_received s + of_nat (length chunk) > ra_expected_size a then
                rv_abort lib a EcInvalidFrame ''chunk exceeds expected file size''
                  True ''chunk exceeds expected file size'' s
              else case receive_append lib a chunk s of
                (Inl e, s') \<Rightarrow> Return e s'
              | (Inr _, s') \<Rightarrow> receive_ack lib a hdr off chunk s')
           else if off < rv_received s then
             (if off + of_nat (length chunk) \<le> rv_received s then receive_ack lib a hdr off chunk s
              else rv_abort lib a EcInvalidFrame ''overlapping chunk offset''
                     False ''overlapping chunk offset'' s)
           else
             rv_abort lib a EcInvalidFrame
               (''gap in chunk stream: expected '' @ dec_string (unat (rv_received s)) @ '', got '' @ dec_string (unat off))
               False ''out-of-order chunk received'' s)"

definition receive_control :: "recv_lib \<Rightarrow> recv_args \<Rightarrow> bytes \<Rightarrow> recv_state \<Rightarrow> step_result" where
  "receive_control lib a payload s =
     (case decode_control (lib_from_reader lib) payload of
        Inl e \<Rightarrow> Return (RecvCodec e) s
      | Inr (TransferCancel _ _) \<Rightarrow> Return (RecvFailed ''transfer cancelled'') (rv_remove_part a s)
      | Inr (SessionClose _) \<Rightarrow> Return (RecvFailed ''session closed during receive'') s
      | Inr _ \<Rightarrow> Continue s)"

definition receive_frame :: "recv_lib \<Rightarrow> recv_args \<Rightarrow> NxfrFrame \<Rightarrow> recv_state \<Rightarrow> step_result" where
  "receive_frame lib a frame s =
     (case frame of (hdr, payload) \<Rightarrow>
        (case kind hdr of
           Chunk \<Rightarrow> receive_chunk lib a hdr payload s
         | Control \<Rightarrow> receive_control lib a payload s
         | Keepalive \<Rightarrow> Continue s))"

text \<open>Sending does not consume what is to be received.\<close>

lemma rx_send_control [simp]: "rx (snd (send_control iw a b m c)) = rx c"
  by (auto simp: send_control_def send_frame_def framed_send_def Let_def
      split: sum.splits list.splits option.splits)

lemma rx_rv_send [simp]: "rx (rv_conn (snd (rv_send lib a m s))) = rx (rv_conn s)"
  using rx_send_control [of "lib_into_writer lib" "ra_session_id a" 0 m "rv_conn s"]
  by (auto simp: rv_send_def simp del: rx_send_control split: prod.splits sum.splits)

lemma conn_receive_append [simp]: "rv_conn (snd (receive_append lib a d s)) = rv_conn s"
  by (auto simp: receive_append_def Let_def split: prod.splits sum.splits)

lemma rx_rv_abort [simp]: "rx (rv_conn (step_state (rv_abort lib a c m r e s))) = rx (rv_conn s)"
  using rx_rv_send [of lib a "Error c (Some m) True None" s]
  by (auto simp: rv_abort_def rv_remove_part_def simp del: rx_rv_send split: prod.splits sum.splits)

lemma rx_receive_ack [simp]: "rx (rv_conn (step_state (receive_ack lib a h off d s))) = rx (rv_conn s)"
  using rx_rv_send [of lib a "ChunkAck (ra_stream_id a) (message_id h) off (of_nat (length d))" s]
  by (auto simp: receive_ack_def simp del: rx_rv_send split: prod.splits sum.splits)

lemma rx_receive_frame [simp]: "rx (rv_conn (step_state (receive_frame lib a f s))) = rx (rv_conn s)"
proof (cases f)
  case (Pair h p)
  have "rx (rv_conn (step_state (receive_chunk lib a h p s))) = rx (rv_conn s)"
    using conn_receive_append [of lib a "drop 40 p" s]
    by (auto simp: receive_chunk_def Let_def simp del: conn_receive_append split: prod.splits sum.splits)
  moreover have "rx (rv_conn (step_state (receive_control lib a p s))) = rx (rv_conn s)"
    by (simp add: receive_control_def rv_remove_part_def split: sum.splits ControlMessage.splits)
  ultimately show ?thesis using Pair by (simp add: receive_frame_def split: FrameKind.splits)
qed

lemma receive_turn_shorter:
  assumes "(Inr frame, c) = recv_frame (rv_conn s)"
    and "receive_frame lib a frame (s\<lparr>rv_conn := c\<rparr>) = Continue s'"
  shows "length (rx (rv_conn s')) < length (rx (rv_conn s))"
proof -
  have "rx (rv_conn s') = rx c"
    using rx_receive_frame [of lib a frame "s\<lparr>rv_conn := c\<rparr>"] assms(2) by simp
  moreover have "length (rx c) < length (rx (rv_conn s))"
    using assms(1) by (auto simp: recv_frame_def split: list.splits sum.splits)
  ultimately show ?thesis by simp
qed

text \<open>The receive loop: it ends because every turn takes a frame from the connection.\<close>

function receive_loop :: "recv_lib \<Rightarrow> recv_args \<Rightarrow> recv_state \<Rightarrow> (recv_error + unit) \<times> recv_state" where
  "receive_loop lib a s =
     (case recv_frame (rv_conn s) of
        (Inl e, c) \<Rightarrow> (Inl (RecvConn e), s\<lparr>rv_conn := c\<rparr>)
      | (Inr frame, c) \<Rightarrow>
          (case receive_frame lib a frame (s\<lparr>rv_conn := c\<rparr>) of
             Continue s' \<Rightarrow> receive_loop lib a s'
           | Break s' \<Rightarrow> (Inr (), s')
           | Return e s' \<Rightarrow> (Inl e, s')))"
  by pat_completeness auto
termination
  by (relation "measure (\<lambda>(lib, a, s). length (rx (rv_conn s)))") (auto intro: receive_turn_shorter)

declare receive_loop.simps [simp del]

section \<open>The whole receive\<close>

definition receive_finish :: "recv_lib \<Rightarrow> recv_args \<Rightarrow> recv_state \<Rightarrow> (recv_error + unit) \<times> recv_state" where
  "receive_finish lib a s =
     (if lib_sha256 lib (rv_hashed s) \<noteq> ra_expected_hash a
      then (Inl (RecvFailed ''whole-file hash mismatch''), rv_remove_part a s)
      else if rv_received s \<noteq> ra_expected_size a
      then (Inl (RecvFailed ''file size mismatch''), rv_remove_part a s)
      else
        let final_dest = resolve_collision (ra_now a) (ra_final_path a) (rv_world s)
        in case fs_rename (ra_part_path a) final_dest (rv_world s) of
             (Inl e, w) \<Rightarrow> (Inl (RecvFile e), s\<lparr>rv_world := w\<rparr>)
           | (Inr _, w) \<Rightarrow> (Inr (), s\<lparr>rv_world := w\<rparr>))"

definition receive_file :: "recv_lib \<Rightarrow> recv_args \<Rightarrow> NxfrConnection \<Rightarrow> ResumeState \<Rightarrow> world
    \<Rightarrow> (recv_error + unit) \<times> recv_state" where
  "receive_file lib a conn st w =
     (case receive_open lib a st w of
        (Inl e, w') \<Rightarrow> (Inl e, \<lparr>rv_conn = conn, rv_world = w', rv_resume = st, rv_received = 0, rv_hashed = []\<rparr>)
      | (Inr AlreadyComplete, w') \<Rightarrow>
          (Inr (), \<lparr>rv_conn = conn, rv_world = w', rv_resume = st, rv_received = 0, rv_hashed = []\<rparr>)
      | (Inr (Ready received hashed), w') \<Rightarrow>
          io_then (receive_loop lib a
              \<lparr>rv_conn = conn, rv_world = w', rv_resume = st, rv_received = received, rv_hashed = hashed\<rparr>)
            (\<lambda>_ s. receive_finish lib a s))"

section \<open>Lemmas\<close>

text \<open>
  The paths a receive works on: the \<open>.part\<close> file and the two journal files of the transfer. The
  \<open>.part\<close> file is not one of the journal's.
\<close>

definition scratch_paths :: "recv_args \<Rightarrow> string \<Rightarrow> abspath set" where
  "scratch_paths a tid =
     {ra_part_path a, journal_path (ra_journal_dir a) tid, journal_tmp_path (ra_journal_dir a) tid}"

definition part_separate :: "recv_args \<Rightarrow> string \<Rightarrow> bool" where
  "part_separate a tid \<longleftrightarrow> ra_part_path a \<noteq> journal_path (ra_journal_dir a) tid
     \<and> ra_part_path a \<noteq> journal_tmp_path (ra_journal_dir a) tid"

definition unchanged_outside :: "abspath set \<Rightarrow> world \<Rightarrow> world \<Rightarrow> bool" where
  "unchanged_outside S w w' \<longleftrightarrow> (\<forall>q. q \<notin> S \<longrightarrow> fs_lookup q w' = fs_lookup q w)"

lemma unchanged_refl [simp]: "unchanged_outside S w w"
  by (simp add: unchanged_outside_def)

lemma unchanged_trans: "unchanged_outside S w w' \<Longrightarrow> unchanged_outside S w' w'' \<Longrightarrow> unchanged_outside S w w''"
  by (simp add: unchanged_outside_def)

text \<open>
  The loop invariant: the \<open>.part\<close> file holds exactly the bytes that were hashed, and the counter
  is their number.
\<close>

definition recv_inv :: "recv_args \<Rightarrow> string \<Rightarrow> recv_state \<Rightarrow> bool" where
  "recv_inv a tid s \<longleftrightarrow> fs_lookup (ra_part_path a) (rv_world s) = Some (rv_hashed s)
     \<and> rv_received s = of_nat (length (rv_hashed s)) \<and> rs_transfer_id (rv_resume s) = tid"

lemma update_resume_tid [simp]: "rs_transfer_id (update_resume i n st) = rs_transfer_id st"
  by (simp add: update_resume_def)

lemma rv_send_state:
  assumes "rv_send lib a m s = (r, s')"
  shows "s' = s\<lparr>rv_conn := rv_conn s'\<rparr>" and "rv_world s' = rv_world s"
  using assms by (auto simp: rv_send_def split: prod.splits sum.splits)

lemma recv_inv_conn [simp]: "recv_inv a tid (s\<lparr>rv_conn := c\<rparr>) \<longleftrightarrow> recv_inv a tid s"
  by (simp add: recv_inv_def)

lemma rv_remove_part_effect:
  "unchanged_outside (scratch_paths a tid) (rv_world s) (rv_world (rv_remove_part a s))"
proof -
  obtain r w where rm: "fs_remove_file (ra_part_path a) (rv_world s) = (r, w)"
    by (cases "fs_remove_file (ra_part_path a) (rv_world s)")
  show ?thesis
    using fs_remove_file_effect [OF rm] rm
    by (cases r) (auto simp: rv_remove_part_def unchanged_outside_def scratch_paths_def)
qed

lemma rv_abort_effect:
  assumes "rv_abort lib a c m rem e s = res"
  shows "\<exists>err s'. res = Return err s' \<and> unchanged_outside (scratch_paths a tid) (rv_world s) (rv_world s')"
proof -
  obtain r s1 where snd: "rv_send lib a (Error c (Some m) True None) s = (r, s1)"
    by (cases "rv_send lib a (Error c (Some m) True None) s")
  then have "rv_world s1 = rv_world s" by (rule rv_send_state)
  then show ?thesis
    using assms snd rv_remove_part_effect [of a tid s1] by (cases r) (auto simp: rv_abort_def)
qed

lemma receive_append_effect:
  assumes app: "receive_append lib a d s = (r, s')" and inv: "recv_inv a tid s" and sep: "part_separate a tid"
  shows "unchanged_outside (scratch_paths a tid) (rv_world s) (rv_world s')"
    and "r = Inr () \<longrightarrow> recv_inv a tid s' \<and> rv_hashed s' = rv_hashed s @ d"
proof -
  let ?p = "ra_part_path a"
  obtain r1 w1 where wr: "fs_write_all ?p d (rv_world s) = (r1, w1)"
    by (cases "fs_write_all ?p d (rv_world s)")
  note wr' = fs_write_all_effect [OF wr]
  let ?n = "rv_received s + of_nat (length d)"
  let ?s1 = "s\<lparr>rv_world := w1, rv_hashed := rv_hashed s @ d, rv_received := ?n,
      rv_resume := update_resume (ra_file_id a) ?n (rv_resume s)\<rparr>"
  have u1: "unchanged_outside (scratch_paths a tid) (rv_world s) w1"
    using wr'(2) by (auto simp: unchanged_outside_def scratch_paths_def)
  show "unchanged_outside (scratch_paths a tid) (rv_world s) (rv_world s')"
    "r = Inr () \<longrightarrow> recv_inv a tid s' \<and> rv_hashed s' = rv_hashed s @ d"
  proof (atomize (full), cases r1)
    case (Inl e)
    then show "unchanged_outside (scratch_paths a tid) (rv_world s) (rv_world s') \<and>
      (r = Inr () \<longrightarrow> recv_inv a tid s' \<and> rv_hashed s' = rv_hashed s @ d)"
      using app wr u1 by (auto simp: receive_append_def)
  next
    case (Inr u)
    obtain r2 w2 where sy: "fs_sync_all ?p w1 = (r2, w2)" by (cases "fs_sync_all ?p w1")
    obtain r3 w3 where sv: "journal_save (lib_to_vec lib) (ra_journal_dir a) (rv_resume ?s1) w2 = (r3, w3)"
      by (cases "journal_save (lib_to_vec lib) (ra_journal_dir a) (rv_resume ?s1) w2")
    have tid: "rs_transfer_id (rv_resume ?s1) = tid" using inv by (simp add: recv_inv_def)
    note sv' = journal_save_effect [OF sv, unfolded tid]
    have u2: "unchanged_outside (scratch_paths a tid) (rv_world s) w2"
      using u1 fs_sync_all_effect(1) [OF sy] by (simp add: unchanged_outside_def)
    then have u3: "unchanged_outside (scratch_paths a tid) (rv_world s) w3"
      using sv'(2) by (simp add: unchanged_outside_def scratch_paths_def)
    have p3: "fs_lookup ?p w3 = Some (rv_hashed s @ d)"
      using sv'(2) sep fs_sync_all_effect(1) [OF sy] wr'(1) Inr inv
      by (simp add: part_separate_def recv_inv_def)
    have "(r, s') = (case r2 of Inl e \<Rightarrow> (Inl (RecvFile e), ?s1\<lparr>rv_world := w2\<rparr>)
        | Inr _ \<Rightarrow> (map_err RecvJournal r3, ?s1\<lparr>rv_world := w3\<rparr>))"
      using app wr Inr sy sv by (cases r2; cases r3) (simp_all add: receive_append_def Let_def)
    then show "unchanged_outside (scratch_paths a tid) (rv_world s) (rv_world s') \<and>
      (r = Inr () \<longrightarrow> recv_inv a tid s' \<and> rv_hashed s' = rv_hashed s @ d)"
      using u2 u3 p3 tid inv by (cases r2; cases r3) (auto simp: recv_inv_def)
  qed
qed

text \<open>One frame: nothing outside the scratch paths changes, and the invariant holds unless the
  frame makes the receiver return.\<close>

definition step_ok :: "recv_args \<Rightarrow> string \<Rightarrow> recv_state \<Rightarrow> step_result \<Rightarrow> bool" where
  "step_ok a tid s res \<longleftrightarrow> unchanged_outside (scratch_paths a tid) (rv_world s) (rv_world (step_state res))
     \<and> (case res of Return _ _ \<Rightarrow> True | _ \<Rightarrow> recv_inv a tid (step_state res))"

lemma step_ok_abort: "step_ok a tid s (rv_abort lib a c m rem e s)"
  using rv_abort_effect [OF refl, of lib a c m rem e s tid] by (auto simp: step_ok_def)

lemma step_ok_ack: "recv_inv a tid s \<Longrightarrow> step_ok a tid s (receive_ack lib a hdr off d s)"
proof -
  assume inv: "recv_inv a tid s"
  let ?m = "ChunkAck (ra_stream_id a) (message_id hdr) off (of_nat (length d))"
  obtain r s1 where snd: "rv_send lib a ?m s = (r, s1)" by (cases "rv_send lib a ?m s")
  have "recv_inv a tid s1"
    using inv rv_send_state(1) [OF snd] recv_inv_conn by metis
  then show ?thesis
    using snd rv_send_state(2) [OF snd] by (cases r) (auto simp: receive_ack_def step_ok_def)
qed

lemma step_ok_trans:
  "unchanged_outside (scratch_paths a tid) (rv_world s) (rv_world s') \<Longrightarrow> step_ok a tid s' res \<Longrightarrow> step_ok a tid s res"
  by (auto simp: step_ok_def intro: unchanged_trans)

lemma step_ok_chunk:
  assumes "recv_inv a tid s" "part_separate a tid"
  shows "step_ok a tid s (receive_chunk lib a hdr payload s)"
proof -
  have here: "step_ok a tid s (Continue s)" using assms by (simp add: step_ok_def)
  obtain r s1 where app: "receive_append lib a (drop 40 payload) s = (r, s1)"
    by (cases "receive_append lib a (drop 40 payload) s")
  note app' = receive_append_effect [OF app assms]
  have "step_ok a tid s (case (r, s1) of (Inl e, s') \<Rightarrow> Return e s'
      | (Inr _, s') \<Rightarrow> receive_ack lib a hdr off (drop 40 payload) s')" for off
    using app' step_ok_trans [OF app'(1) step_ok_ack] by (cases r) (simp_all add: step_ok_def)
  then show ?thesis
    using here step_ok_ack [OF assms(1)] step_ok_abort
    by (simp only: receive_chunk_def Let_def app simp_thms split: if_split)
qed

lemma step_ok_frame:
  assumes "recv_inv a tid s" "part_separate a tid"
  shows "step_ok a tid s (receive_frame lib a f s)"
proof -
  have "step_ok a tid s (receive_control lib a p s)" for p
    using assms rv_remove_part_effect [of a tid s]
    by (auto simp: receive_control_def step_ok_def split: sum.splits ControlMessage.splits)
  then show ?thesis
    using step_ok_chunk [OF assms] assms
    by (cases f) (simp add: receive_frame_def step_ok_def split: FrameKind.splits)
qed

lemma receive_loop_effect:
  assumes "receive_loop lib a s = (r, s')" "recv_inv a tid s" "part_separate a tid"
  shows "unchanged_outside (scratch_paths a tid) (rv_world s) (rv_world s')
    \<and> (r = Inr () \<longrightarrow> recv_inv a tid s')"
  using assms
proof (induction lib a s arbitrary: r s' rule: receive_loop.induct)
  case (1 lib a s)
  obtain fr c where rf: "recv_frame (rv_conn s) = (fr, c)" by (cases "recv_frame (rv_conn s)")
  show ?case
  proof (cases fr)
    case (Inl e)
    then show ?thesis using "1.prems" rf by (auto simp: receive_loop.simps)
  next
    case (Inr frame)
    let ?s = "s\<lparr>rv_conn := c\<rparr>"
    have ok: "step_ok a tid ?s (receive_frame lib a frame ?s)"
      using "1.prems" by (intro step_ok_frame) simp_all
    show ?thesis
    proof (cases "receive_frame lib a frame ?s")
      case (Continue t)
      have loop: "receive_loop lib a t = (r, s')"
        using "1.prems"(1) rf Inr Continue by (simp add: receive_loop.simps)
      have "recv_inv a tid t" "unchanged_outside (scratch_paths a tid) (rv_world s) (rv_world t)"
        using ok Continue by (simp_all add: step_ok_def)
      then show ?thesis
        using "1.IH" [OF rf [symmetric] Inr Continue loop _ "1.prems"(3)] by (auto intro: unchanged_trans)
    next
      case (Break t)
      then show ?thesis using "1.prems" rf Inr ok by (auto simp: receive_loop.simps step_ok_def)
    next
      case (Return e t)
      then show ?thesis using "1.prems" rf Inr ok by (auto simp: receive_loop.simps step_ok_def)
    qed
  qed
qed

subsection \<open>Opening and finishing\<close>

definition destinations :: "recv_args \<Rightarrow> abspath set" where
  "destinations a = insert (ra_final_path a) (insert (collision_fallback (ra_final_path a) (ra_now a))
     (collision_candidate (ra_final_path a) ` {1..<1000}))"

lemma resolve_collision_spec:
  assumes "resolve_collision (ra_now a) (ra_final_path a) w = dest"
  shows "dest \<in> destinations a \<and>
    (\<not> fs_exists dest w \<or> dest = collision_fallback (ra_final_path a) (ra_now a))"
proof (cases "find (\<lambda>c. \<not> fs_exists c w) (map (collision_candidate (ra_final_path a)) [1..<1000])")
  case None
  then show ?thesis using assms by (auto simp: resolve_collision_def destinations_def)
next
  case (Some c)
  then have "\<not> fs_exists c w" "c \<in> set (map (collision_candidate (ra_final_path a)) [1..<1000])"
    by (auto simp: find_Some_iff)
  then show ?thesis using assms Some by (auto simp: resolve_collision_def destinations_def)
qed

text \<open>A verified file is in place: complete, with the announced hash and size, at a fresh name.\<close>

definition delivered :: "recv_lib \<Rightarrow> recv_args \<Rightarrow> world \<Rightarrow> world \<Rightarrow> abspath \<Rightarrow> bytes \<Rightarrow> bool" where
  "delivered lib a w w' dest b \<longleftrightarrow> fs_lookup dest w' = Some b
     \<and> lib_sha256 lib b = ra_expected_hash a \<and> of_nat (length b) = ra_expected_size a
     \<and> dest \<in> destinations a
     \<and> (fs_lookup dest w = None \<or> dest = collision_fallback (ra_final_path a) (ra_now a))
     \<and> (\<forall>q. q \<noteq> dest \<and> q \<noteq> ra_part_path a \<longrightarrow> fs_lookup q w' = fs_lookup q w)"

lemma delivered_start:
  "\<forall>q. fs_lookup q w0 = fs_lookup q w \<Longrightarrow> delivered lib a w0 w' dest b \<Longrightarrow> delivered lib a w w' dest b"
  by (simp add: delivered_def)

lemma rename_delivers:
  assumes "fs_rename (ra_part_path a) (resolve_collision (ra_now a) (ra_final_path a) w) w = (r, w')"
    and "fs_lookup (ra_part_path a) w = Some b"
    and "lib_sha256 lib b = ra_expected_hash a" "of_nat (length b) = ra_expected_size a"
  shows "case r of Inl _ \<Rightarrow> \<forall>q. fs_lookup q w' = fs_lookup q w
    | Inr _ \<Rightarrow> delivered lib a w w' (resolve_collision (ra_now a) (ra_final_path a) w) b"
  using fs_rename_effect(1) [OF assms(1)] assms(2-4) resolve_collision_spec [OF refl, of a w]
  by (cases r) (auto simp: delivered_def fs_exists_def)

lemma receive_open_effect:
  assumes "receive_open lib a st w = (r, w')"
  shows "case r of
      Inl _ \<Rightarrow> unchanged_outside (scratch_paths a tid) w w'
    | Inr AlreadyComplete \<Rightarrow> \<exists>dest b. delivered lib a w w' dest b
    | Inr (Ready n b) \<Rightarrow> unchanged_outside (scratch_paths a tid) w w'
        \<and> fs_lookup (ra_part_path a) w' = Some b \<and> n = of_nat (length b)"
proof (cases "has_partial st (ra_file_id a) \<and> fs_exists (ra_part_path a) w")
  case False
  obtain r0 w0 where c: "fs_create (ra_part_path a) w = (r0, w0)" by (cases "fs_create (ra_part_path a) w")
  then have "(r, w') = (case r0 of Inl e \<Rightarrow> (Inl (RecvFile e), w0) | Inr _ \<Rightarrow> (Inr (Ready 0 []), w0))"
    using assms False by (cases r0) (auto simp: receive_open_def io_map_err_def)
  then show ?thesis
    using fs_create_effect(1) [OF c] by (cases r0) (auto simp: unchanged_outside_def scratch_paths_def)
next
  case True
  obtain r0 w0 where rd: "fs_read (ra_part_path a) w = (r0, w0)" by (cases "fs_read (ra_part_path a) w")
  have same0: "\<forall>q. fs_lookup q w0 = fs_lookup q w" by (rule fs_read_effect(1) [OF rd])
  show ?thesis
  proof (cases r0)
    case (Inl e)
    then have "r = Inl (RecvFile e)" "w' = w0"
      using assms True rd by (auto simp: receive_open_def io_map_err_def)
    then show ?thesis using same0 by (simp add: unchanged_outside_def)
  next
    case (Inr b)
    have b: "fs_lookup (ra_part_path a) w0 = Some b"
      using fs_read_effect(3) [OF rd Inr] same0 by simp
    show ?thesis
    proof (cases "of_nat (length b) = ra_expected_size a \<and> lib_sha256 lib b = ra_expected_hash a")
      case complete: True
      let ?dest = "resolve_collision (ra_now a) (ra_final_path a) w0"
      obtain r1 w1 where rn: "fs_rename (ra_part_path a) ?dest w0 = (r1, w1)"
        by (cases "fs_rename (ra_part_path a) ?dest w0")
      have "(r, w') = (case r1 of Inl e \<Rightarrow> (Inl (RecvFile e), w1) | Inr _ \<Rightarrow> (Inr AlreadyComplete, w1))"
        using assms True rd Inr complete rn by (cases r1) (auto simp: receive_open_def io_map_err_def Let_def)
      moreover have "case r1 of Inl _ \<Rightarrow> \<forall>q. fs_lookup q w1 = fs_lookup q w0
          | Inr _ \<Rightarrow> delivered lib a w0 w1 ?dest b"
        using rename_delivers [OF rn b] complete by blast
      ultimately show ?thesis
        using same0 delivered_start [OF same0]
        by (cases r1) (simp_all add: unchanged_outside_def, blast)
    next
      case False
      obtain r1 w1 where op: "fs_open_append (ra_part_path a) w0 = (r1, w1)"
        by (cases "fs_open_append (ra_part_path a) w0")
      have "(r, w') = (case r1 of Inl e \<Rightarrow> (Inl (RecvFile e), w1)
          | Inr _ \<Rightarrow> (Inr (Ready (of_nat (length b)) b), w1))"
        using assms True rd Inr False op by (cases r1) (auto simp: receive_open_def io_map_err_def Let_def)
      then show ?thesis
        using fs_open_append_effect(1) [OF op] same0 b by (cases r1) (auto simp: unchanged_outside_def)
    qed
  qed
qed

lemma receive_finish_effect:
  assumes "receive_finish lib a s = (r, s')" "recv_inv a tid s"
  shows "case r of Inl _ \<Rightarrow> unchanged_outside (scratch_paths a tid) (rv_world s) (rv_world s')
    | Inr _ \<Rightarrow> \<exists>dest b. delivered lib a (rv_world s) (rv_world s') dest b"
proof (cases "lib_sha256 lib (rv_hashed s) = ra_expected_hash a \<and> rv_received s = ra_expected_size a")
  case False
  then have "r = Inl (RecvFailed ''whole-file hash mismatch'') \<or> r = Inl (RecvFailed ''file size mismatch'')"
    "s' = rv_remove_part a s"
    using assms(1) by (auto simp: receive_finish_def split: if_splits)
  then show ?thesis using rv_remove_part_effect by auto
next
  case True
  let ?dest = "resolve_collision (ra_now a) (ra_final_path a) (rv_world s)"
  obtain r1 w1 where rn: "fs_rename (ra_part_path a) ?dest (rv_world s) = (r1, w1)"
    by (cases "fs_rename (ra_part_path a) ?dest (rv_world s)")
  then have "rv_world s' = w1" "r = map_err RecvFile r1"
    using assms(1) True by (cases r1; auto simp: receive_finish_def Let_def)+
  moreover have "case r1 of Inl _ \<Rightarrow> \<forall>q. fs_lookup q w1 = fs_lookup q (rv_world s)
      | Inr _ \<Rightarrow> delivered lib a (rv_world s) w1 ?dest (rv_hashed s)"
    using assms(2) True by (intro rename_delivers [OF rn]) (auto simp: recv_inv_def)
  ultimately show ?thesis by (cases r1) (auto simp: unchanged_outside_def)
qed

text \<open>The whole receive, from the effects of its three parts.\<close>

lemma receive_file_effect:
  assumes "receive_file lib a conn st w = (r, s')" and "part_separate a (rs_transfer_id st)"
  shows "case r of
      Inl _ \<Rightarrow> unchanged_outside (scratch_paths a (rs_transfer_id st)) w (rv_world s')
    | Inr _ \<Rightarrow> \<exists>w1 dest b. unchanged_outside (scratch_paths a (rs_transfer_id st)) w w1
        \<and> delivered lib a w1 (rv_world s') dest b"
proof -
  let ?S = "scratch_paths a (rs_transfer_id st)"
  obtain ro w0 where op: "receive_open lib a st w = (ro, w0)" by (cases "receive_open lib a st w")
  note op' = receive_open_effect [OF op, of "rs_transfer_id st"]
  consider (err) e where "ro = Inl e" | (complete) "ro = Inr AlreadyComplete" | (ready) n b where "ro = Inr (Ready n b)"
    by (cases ro; cases "projr ro") auto
  then show ?thesis
  proof cases
    case err
    then show ?thesis using assms(1) op op' by (auto simp: receive_file_def)
  next
    case complete
    then have "r = Inr ()" "rv_world s' = w0" using assms(1) op by (auto simp: receive_file_def)
    then show ?thesis using op' complete by (auto intro!: exI [of _ w])
  next
    case ready
    let ?s = "\<lparr>rv_conn = conn, rv_world = w0, rv_resume = st, rv_received = n, rv_hashed = b\<rparr>"
    obtain rl s1 where loop: "receive_loop lib a ?s = (rl, s1)" by (cases "receive_loop lib a ?s")
    have inv: "recv_inv a (rs_transfer_id st) ?s" and u0: "unchanged_outside ?S w w0"
      using op' ready by (simp_all add: recv_inv_def)
    from receive_loop_effect [OF loop inv assms(2)] u0
    have u1: "unchanged_outside ?S w (rv_world s1)"
      and inv1: "rl = Inr () \<longrightarrow> recv_inv a (rs_transfer_id st) s1"
      by (auto intro: unchanged_trans)
    show ?thesis
    proof (cases rl)
      case (Inl e)
      then have "r = Inl e" "s' = s1" using assms(1) op ready loop by (auto simp: receive_file_def)
      then show ?thesis using u1 by simp
    next
      case (Inr u)
      then have fin: "receive_finish lib a s1 = (r, s')"
        using assms(1) op ready loop by (simp add: receive_file_def)
      have "recv_inv a (rs_transfer_id st) s1" using inv1 Inr by simp
      from receive_finish_effect [OF fin this] u1 show ?thesis
        by (cases r) (auto intro: unchanged_trans)
    qed
  qed
qed

subsection \<open>Progress\<close>

text \<open>
  An environment without failures: no pending I/O fault, no failing send, a JSON printer that
  prints, a CBOR writer that writes acknowledgements, and directories for the three files.
\<close>

definition quiet :: "recv_lib \<Rightarrow> recv_args \<Rightarrow> recv_state \<Rightarrow> bool" where
  "quiet lib a s \<longleftrightarrow> io_faults (rv_world s) = [] \<and> send_outcomes (rv_conn s) = []
     \<and> fs_creatable (journal_path (ra_journal_dir a) (rs_transfer_id (rv_resume s))) (rv_world s)
     \<and> fs_creatable (journal_tmp_path (ra_journal_dir a) (rs_transfer_id (rv_resume s))) (rv_world s)
     \<and> (\<forall>n. \<exists>json. lib_to_vec lib (update_resume (ra_file_id a) n (rv_resume s)) = Inr json)"

lemma update_resume_twice [simp]: "update_resume i n (update_resume i m st) = update_resume i n st"
  by (simp add: update_resume_def case_prod_beta cong: map_cong)

definition lib_works :: "recv_lib \<Rightarrow> bool" where
  "lib_works lib \<longleftrightarrow> (\<forall>d. length (lib_sha256 lib d) = 32)
     \<and> (\<forall>s m off l. \<exists>bs. encode_control (lib_into_writer lib) (ChunkAck s m off l) = Inr bs)"

lemma journal_save_no_faults:
  assumes "io_faults w = []" "to_vec st = Inr json"
    and "fs_creatable (journal_path dir (rs_transfer_id st)) w"
    and "fs_creatable (journal_tmp_path dir (rs_transfer_id st)) w"
  shows "\<exists>w'. journal_save to_vec dir st w = (Inr (), w') \<and> io_faults w' = [] \<and> dirs w' = dirs w"
  using assms
  by (simp add: journal_save_def Let_def io_map_err_def fs_create_def fs_write_all_def fs_sync_all_def
      fs_rename_def fs_creatable_def)

lemma receive_append_progress:
  assumes "quiet lib a s"
  shows "\<exists>s'. receive_append lib a d s = (Inr (), s') \<and> quiet lib a s' \<and> dirs (rv_world s') = dirs (rv_world s)
    \<and> rv_received s' = rv_received s + of_nat (length d)"
proof -
  let ?n = "rv_received s + of_nat (length d)"
  let ?w = "fs_extend (ra_part_path a) d (rv_world s)"
  let ?st = "update_resume (ra_file_id a) ?n (rv_resume s)"
  have "\<exists>json. lib_to_vec lib ?st = Inr json" using assms(1) by (simp add: quiet_def)
  then obtain json where "lib_to_vec lib ?st = Inr json" by blast
  then obtain w' where w': "journal_save (lib_to_vec lib) (ra_journal_dir a) ?st ?w = (Inr (), w')"
    "io_faults w' = []" "dirs w' = dirs ?w"
    using journal_save_no_faults [of ?w "lib_to_vec lib" ?st json "ra_journal_dir a"] assms(1)
    by (auto simp: quiet_def fs_creatable_def)
  then show ?thesis
    using assms(1)
    by (simp add: receive_append_def fs_write_all_def fs_sync_all_def quiet_def Let_def fs_creatable_def)
qed

lemma rv_send_progress:
  assumes "quiet lib a s" "\<exists>bs. encode_control (lib_into_writer lib) msg = Inr bs"
  shows "\<exists>c h bs. rv_send lib a msg s = (Inr (), s\<lparr>rv_conn := c\<rparr>) \<and> send_outcomes c = [] \<and> rx c = rx (rv_conn s)
    \<and> tx c = tx (rv_conn s) @ [(h, bs)] \<and> kind h = Control \<and> encode_control (lib_into_writer lib) msg = Inr bs"
  using assms
  by (auto simp: rv_send_def send_control_def send_frame_def framed_send_def Let_def quiet_def)

lemma receive_chunk_progress:
  assumes inv: "recv_inv a tid s" and q: "quiet lib a s" and lib: "lib_works lib" and sep: "part_separate a tid"
    and f: "carries_chunk (lib_sha256 lib) (ra_stream_id a) (length (rv_hashed s)) d is_last f" "d \<noteq> []"
    and size: "length (rv_hashed s) + length d \<le> unat (ra_expected_size a)"
  obtains s' where "receive_frame lib a f s =
      (if is_last \<or> length (rv_hashed s) + length d = unat (ra_expected_size a) then Break s' else Continue s')"
    "recv_inv a tid s'" "quiet lib a s'" "rv_hashed s' = rv_hashed s @ d" "rx (rv_conn s') = rx (rv_conn s)"
    "dirs (rv_world s') = dirs (rv_world s)"
    "\<exists>ack. tx (rv_conn s') = tx (rv_conn s) @ [ack] \<and> is_ack_frame (lib_into_writer lib) ack"
proof -
  obtain h p where hp: "f = (h, p)" by (cases f)
  let ?k = "length (rv_hashed s)"
  have bound: "?k + length d < 2 ^ 64"
    using size unsigned_less [of "ra_expected_size a", where ?'a = nat] by simp
  have sha: "length (lib_sha256 lib d) = 32" using lib by (simp add: lib_works_def)
  have payload: "\<not> length p < 41" "u64_from_be_bytes (subslice 0 8 p) = of_nat ?k"
    "subslice 8 40 p = lib_sha256 lib d" "drop 40 p = d"
    using f hp sha by (cases d; auto simp: carries_chunk_def subslice_def)+
  have recv: "rv_received s = of_nat ?k" using inv by (simp add: recv_inv_def)
  have total: "rv_received s + of_nat (length d) = of_nat (?k + length d)" using recv by simp
  have unat_total: "unat (of_nat (?k + length d) :: u64) = ?k + length d"
    using bound by (rule unat_of_nat_u64)
  have fits: "\<not> rv_received s + of_nat (length d) > ra_expected_size a"
    unfolding total using size unat_total by (simp only: word_less_nat_alt not_less)
  obtain s1 where app: "receive_append lib a d s = (Inr (), s1)" and q1: "quiet lib a s1"
    and r1: "rv_received s1 = rv_received s + of_nat (length d)"
    and d1: "dirs (rv_world s1) = dirs (rv_world s)"
    using receive_append_progress [OF q] by blast
  have inv1: "recv_inv a tid s1" "rv_hashed s1 = rv_hashed s @ d"
    using receive_append_effect(2) [OF app inv sep] by simp_all
  let ?ack = "ChunkAck (ra_stream_id a) (message_id h) (of_nat ?k) (of_nat (length d))"
  obtain c ha bs where snd: "rv_send lib a ?ack s1 = (Inr (), s1\<lparr>rv_conn := c\<rparr>)"
    and c: "send_outcomes c = []" "rx c = rx (rv_conn s1)"
    and ack: "tx c = tx (rv_conn s1) @ [(ha, bs)]" "kind ha = Control"
      "encode_control (lib_into_writer lib) ?ack = Inr bs"
    using rv_send_progress [OF q1, of ?ack] lib unfolding lib_works_def by blast
  have full: "rv_received s1 = ra_expected_size a \<longleftrightarrow> ?k + length d = unat (ra_expected_size a)"
    unfolding r1 total using unat_total by (metis word_unat_eq_iff)
  have "receive_frame lib a f s =
      (if is_last \<or> ?k + length d = unat (ra_expected_size a)
       then Break (s1\<lparr>rv_conn := c\<rparr>) else Continue (s1\<lparr>rv_conn := c\<rparr>))"
    using f hp payload fits app snd full recv
    by (simp add: receive_frame_def receive_chunk_def receive_ack_def carries_chunk_def)
  moreover have "rv_conn s1 = rv_conn s"
    using conn_receive_append [of lib a d s] app by simp
  moreover have "is_ack_frame (lib_into_writer lib) (ha, bs)"
    using ack by (auto simp: is_ack_frame_def)
  moreover have "quiet lib a (s1\<lparr>rv_conn := c\<rparr>)" using q1 c by (simp add: quiet_def)
  ultimately show thesis using that [of "s1\<lparr>rv_conn := c\<rparr>"] inv1 c ack d1 by simp
qed

lemma receive_loop_progress:
  assumes "frames_carry (lib_sha256 lib) (ra_stream_id a) (length (rv_hashed s)) fs rest" "rest \<noteq> []"
    and "rx (rv_conn s) = map Inr fs"
    and "recv_inv a tid s" "quiet lib a s" "lib_works lib" "part_separate a tid"
    and "length (rv_hashed s) + length rest = unat (ra_expected_size a)"
  shows "\<exists>s'. receive_loop lib a s = (Inr (), s') \<and> recv_inv a tid s' \<and> quiet lib a s'
    \<and> rv_hashed s' = rv_hashed s @ rest \<and> dirs (rv_world s') = dirs (rv_world s)
    \<and> (\<exists>acks. tx (rv_conn s') = tx (rv_conn s) @ acks \<and> length acks = length fs
         \<and> list_all (is_ack_frame (lib_into_writer lib)) acks)"
  using assms
proof (induction fs arbitrary: s rest)
  case (Cons f fs)
  from Cons.prems(1) obtain d rest' where split: "rest = d @ rest'" "d \<noteq> []"
    and f: "carries_chunk (lib_sha256 lib) (ra_stream_id a) (length (rv_hashed s)) d (rest' = []) f"
    and fs: "frames_carry (lib_sha256 lib) (ra_stream_id a) (length (rv_hashed s) + length d) fs rest'"
    by auto
  let ?s = "s\<lparr>rv_conn := (rv_conn s)\<lparr>rx := map Inr fs\<rparr>\<rparr>"
  have recv: "recv_frame (rv_conn s) = (Inr f, (rv_conn s)\<lparr>rx := map Inr fs\<rparr>)"
    using Cons.prems(3) by (simp add: recv_frame_def)
  have "recv_inv a tid ?s" "quiet lib a ?s" using Cons.prems by (simp_all add: quiet_def)
  then obtain s' where step: "receive_frame lib a f ?s =
      (if rest' = [] \<or> length (rv_hashed s) + length d = unat (ra_expected_size a) then Break s' else Continue s')"
    and s': "recv_inv a tid s'" "quiet lib a s'" "rv_hashed s' = rv_hashed s @ d" "rx (rv_conn s') = map Inr fs"
      "dirs (rv_world s') = dirs (rv_world s)"
    and ack: "\<exists>ack. tx (rv_conn s') = tx (rv_conn s) @ [ack] \<and> is_ack_frame (lib_into_writer lib) ack"
    using receive_chunk_progress [of a tid ?s lib d "rest' = []" f] Cons.prems f split by auto
  from ack obtain k where k: "tx (rv_conn s') = tx (rv_conn s) @ [k]" "is_ack_frame (lib_into_writer lib) k"
    by blast
  show ?case
  proof (cases "rest' = []")
    case True
    then have "fs = []" using fs by (cases fs) auto
    then show ?thesis using recv step s' split True k by (simp add: receive_loop.simps)
  next
    case False
    then have "length (rv_hashed s) + length d \<noteq> unat (ra_expected_size a)"
      using Cons.prems(8) split by (cases rest') simp_all
    then have "receive_loop lib a s = receive_loop lib a s'"
      using recv step False by (simp add: receive_loop.simps [of lib a s])
    moreover have "\<exists>s''. receive_loop lib a s' = (Inr (), s'') \<and> recv_inv a tid s'' \<and> quiet lib a s''
        \<and> rv_hashed s'' = rv_hashed s' @ rest' \<and> dirs (rv_world s'') = dirs (rv_world s')
        \<and> (\<exists>acks. tx (rv_conn s'') = tx (rv_conn s') @ acks \<and> length acks = length fs
             \<and> list_all (is_ack_frame (lib_into_writer lib)) acks)"
      using Cons.IH [of s' rest'] fs False s' Cons.prems split by simp
    ultimately show ?thesis
      using s' split k by (auto intro!: exI [of _ "k # acks" for acks])
  qed
qed simp

text \<open>What a receive finds on disk: a partial file that the resume state knows of, or none.\<close>

definition starts_with :: "recv_args \<Rightarrow> ResumeState \<Rightarrow> world \<Rightarrow> bytes \<Rightarrow> bool" where
  "starts_with a st w p \<longleftrightarrow>
     (if has_partial st (ra_file_id a) \<and> fs_exists (ra_part_path a) w
      then fs_lookup (ra_part_path a) w = Some p
      else p = [] \<and> fs_creatable (ra_part_path a) w)"

definition recv_start :: "NxfrConnection \<Rightarrow> ResumeState \<Rightarrow> world \<Rightarrow> recv_state" where
  "recv_start conn st w = \<lparr>rv_conn = conn, rv_world = w, rv_resume = st, rv_received = 0, rv_hashed = []\<rparr>"

lemma receive_open_progress:
  assumes "starts_with a st w p" "io_faults w = []" "length p < unat (ra_expected_size a)"
  shows "\<exists>w'. receive_open lib a st w = (Inr (Ready (of_nat (length p)) p), w') \<and> io_faults w' = []
    \<and> dirs w' = dirs w \<and> unchanged_outside {ra_part_path a} w w' \<and> fs_lookup (ra_part_path a) w' = Some p"
proof (cases "has_partial st (ra_file_id a) \<and> fs_exists (ra_part_path a) w")
  case True
  then have look: "fs_lookup (ra_part_path a) w = Some p" using assms(1) by (simp add: starts_with_def)
  have "unat (of_nat (length p) :: u64) = length p"
    using assms(3) unsigned_less [of "ra_expected_size a", where ?'a = nat]
    by (intro unat_of_nat_u64) simp
  then have "(of_nat (length p) :: u64) \<noteq> ra_expected_size a" using assms(3) by auto
  then show ?thesis
    using True look assms(2)
    by (simp add: receive_open_def fs_read_def io_map_err_def fs_open_append_def Let_def)
next
  case False
  then show ?thesis
    using assms(1,2) False
    by (auto simp: starts_with_def receive_open_def fs_create_def io_map_err_def unchanged_outside_def
        split: if_splits)
qed

lemma receive_file_progress:
  assumes start: "starts_with a st w p" and whole: "file = p @ rest" "rest \<noteq> []"
    and carry: "frames_carry (lib_sha256 lib) (ra_stream_id a) (length p) fs rest" "rx conn = map Inr fs"
    and q: "quiet lib a (recv_start conn st w)" and lib: "lib_works lib"
    and sep: "part_separate a (rs_transfer_id st)"
    and final: "ra_final_path a \<notin> scratch_paths a (rs_transfer_id st)"
      "\<not> fs_exists (ra_final_path a) w" "fs_creatable (ra_final_path a) w"
    and hash: "lib_sha256 lib file = ra_expected_hash a" and size: "length file = unat (ra_expected_size a)"
  shows "\<exists>s'. receive_file lib a conn st w = (Inr (), s')
    \<and> fs_lookup (ra_final_path a) (rv_world s') = Some file
    \<and> (\<exists>acks. tx (rv_conn s') = tx conn @ acks \<and> length acks = length fs
         \<and> list_all (is_ack_frame (lib_into_writer lib)) acks)"
proof -
  let ?tid = "rs_transfer_id st"
  have "length p < unat (ra_expected_size a)" using whole size by (cases rest) simp_all
  then obtain w0 where op: "receive_open lib a st w = (Inr (Ready (of_nat (length p)) p), w0)"
    and w0: "io_faults w0 = []" "dirs w0 = dirs w" "unchanged_outside {ra_part_path a} w w0"
      "fs_lookup (ra_part_path a) w0 = Some p"
    using receive_open_progress [OF start] q by (auto simp: quiet_def recv_start_def)
  let ?s = "\<lparr>rv_conn = conn, rv_world = w0, rv_resume = st, rv_received = of_nat (length p), rv_hashed = p\<rparr>"
  have inv: "recv_inv a ?tid ?s" using w0 by (simp add: recv_inv_def)
  have "quiet lib a ?s" using q w0 by (simp add: quiet_def recv_start_def fs_creatable_def)
  then obtain s1 where loop: "receive_loop lib a ?s = (Inr (), s1)" and s1: "recv_inv a ?tid s1"
      "quiet lib a s1" "rv_hashed s1 = file" "dirs (rv_world s1) = dirs w"
    and acks: "\<exists>acks. tx (rv_conn s1) = tx conn @ acks \<and> length acks = length fs
         \<and> list_all (is_ack_frame (lib_into_writer lib)) acks"
    using receive_loop_progress [of lib a ?s fs rest ?tid] carry whole inv lib sep size w0 by auto
  have u: "unchanged_outside (scratch_paths a ?tid) w (rv_world s1)"
    using receive_loop_effect [OF loop inv sep] w0(3)
    by (auto simp: unchanged_outside_def scratch_paths_def)
  have ex: "\<not> fs_exists (ra_final_path a) (rv_world s1)" "fs_creatable (ra_final_path a) (rv_world s1)"
    using u final s1 by (simp_all add: fs_exists_def unchanged_outside_def fs_creatable_def)
  have "rv_received s1 = ra_expected_size a"
    using s1(1,3) size by (simp add: recv_inv_def word_unat_eq_iff unat_of_nat_u64)
  then have "receive_finish lib a s1 = (Inr (), s1\<lparr>rv_world :=
      fs_put (ra_final_path a) file (fs_erase (ra_part_path a) (rv_world s1))\<rparr>)"
    using s1 hash ex
    by (simp add: receive_finish_def Let_def resolve_collision_def fs_rename_def quiet_def recv_inv_def)
  then show ?thesis using op loop acks by (simp add: receive_file_def)
qed

section \<open>Properties\<close>

text \<open>
  C2 Verified or nothing, against any peer and any I/O failure: when \<open>receive_file\<close> succeeds, there
  is a file at the final path, or at one of its numbered variants, whose bytes have the announced
  SHA-256 and size; it replaced no other file (only the time-stamped fallback name, used when all
  thousand names are taken, may). When it fails, no file other than the \<open>.part\<close> file and the journal
  has changed. In both cases all other files keep their contents.
\<close>

theorem receive_file_verified_or_nothing:
  assumes "receive_file lib a conn st w = (r, s')"
    and "ra_part_path a \<noteq> journal_path (ra_journal_dir a) (rs_transfer_id st)"
    and "ra_part_path a \<noteq> journal_tmp_path (ra_journal_dir a) (rs_transfer_id st)"
  shows "case r of
      Inl _ \<Rightarrow> \<forall>q. q \<notin> scratch_paths a (rs_transfer_id st) \<longrightarrow> fs_lookup q (rv_world s') = fs_lookup q w
    | Inr _ \<Rightarrow> \<exists>dest b. fs_lookup dest (rv_world s') = Some b
        \<and> lib_sha256 lib b = ra_expected_hash a \<and> of_nat (length b) = ra_expected_size a
        \<and> dest \<in> destinations a
        \<and> (fs_lookup dest w = None \<or> dest \<in> scratch_paths a (rs_transfer_id st)
           \<or> dest = collision_fallback (ra_final_path a) (ra_now a))
        \<and> (\<forall>q. q \<noteq> dest \<and> q \<notin> scratch_paths a (rs_transfer_id st) \<longrightarrow>
             fs_lookup q (rv_world s') = fs_lookup q w)"
proof -
  have "part_separate a (rs_transfer_id st)" using assms(2,3) by (simp add: part_separate_def)
  note eff = receive_file_effect [OF assms(1) this]
  show ?thesis
  proof (cases r)
    case (Inl e)
    then show ?thesis using eff by (simp add: unchanged_outside_def)
  next
    case (Inr u)
    with eff obtain w1 dest b where u: "unchanged_outside (scratch_paths a (rs_transfer_id st)) w w1"
      and d: "delivered lib a w1 (rv_world s') dest b" by auto
    have "ra_part_path a \<in> scratch_paths a (rs_transfer_id st)" by (simp add: scratch_paths_def)
    then show ?thesis
      using u d Inr unfolding unchanged_outside_def delivered_def
      by (auto intro!: exI [of _ dest] exI [of _ b])
  qed
qed

theorem receive_file_verified_or_nothing_witness:
  "\<exists>conn rs dest b. receive_file
      \<lparr>lib_sha256 = (\<lambda>_. replicate 32 0), lib_from_reader = ref_from_reader, lib_into_writer = ref_into_writer,
       lib_to_vec = ref_to_vec\<rparr>
      \<lparr>ra_session_id = 1, ra_file_id = 0, ra_stream_id = 2, ra_expected_size = 3,
       ra_expected_hash = replicate 32 0, ra_part_path = [''d'', ''f.part''], ra_final_path = [''d'', ''f''],
       ra_journal_dir = [''j''], ra_now = 0\<rparr>
      conn
      \<lparr>rs_transfer_id = ''ab'', rs_peer_device_id = ''p'', rs_display_name = ''f'', rs_manifest = [],
       rs_files = [], rs_created_at = 0, rs_expires_at = 10, rs_version = 1\<rparr>
      \<lparr>files = [], dirs = [[''d''], [''j'']], io_faults = []\<rparr> = (Inr (), rs)
    \<and> fs_lookup dest (rv_world rs) = Some b \<and> (of_nat (length b) :: u64) = 3"
proof -
  let ?lib = "\<lparr>lib_sha256 = (\<lambda>_. replicate 32 0), lib_from_reader = ref_from_reader,
    lib_into_writer = ref_into_writer, lib_to_vec = ref_to_vec\<rparr> :: recv_lib"
  let ?a = "\<lparr>ra_session_id = 1, ra_file_id = 0, ra_stream_id = 2, ra_expected_size = 3,
       ra_expected_hash = replicate 32 0, ra_part_path = [''d'', ''f.part''], ra_final_path = [''d'', ''f''],
       ra_journal_dir = [''j''], ra_now = 0\<rparr> :: recv_args"
  let ?st = "\<lparr>rs_transfer_id = ''ab'', rs_peer_device_id = ''p'', rs_display_name = ''f'', rs_manifest = [],
       rs_files = [], rs_created_at = 0, rs_expires_at = 10, rs_version = 1\<rparr> :: ResumeState"
  let ?w = "\<lparr>files = [], dirs = [[''d''], [''j'']], io_faults = []\<rparr> :: world"
  let ?f = "(\<lparr>kind = Chunk, flags = FrameFlags 1, session_id = 1, stream_id = 2, message_id = 1,
      payload_len = 43\<rparr>, u64_to_be_bytes (of_nat 0) @ replicate 32 0 @ [1, 2, 3]) :: NxfrFrame"
  let ?conn = "connection_new [Inr ?f] []"
  have tmp: "journal_tmp_path [''j''] ''ab'' = [''j'', ''ab.json.tmp'']" by code_simp
  have carry: "frames_carry (lib_sha256 ?lib) 2 0 [?f] [1, 2, 3]"
    by (simp add: carries_chunk_def is_last_chunk_def)
  have "\<forall>n. \<exists>json. lib_to_vec ?lib (update_resume (ra_file_id ?a) n ?st) = Inr json"
    by (simp add: update_resume_def ref_to_vec_def write_eval state_to_value_def)
  then have q: "quiet ?lib ?a (recv_start ?conn ?st ?w)"
    by (simp add: quiet_def recv_start_def connection_new_def journal_path_def tmp fs_creatable_def)
  have sep: "part_separate ?a (rs_transfer_id ?st)"
    by (simp add: part_separate_def journal_path_def tmp)
  have "\<exists>rs. receive_file ?lib ?a ?conn ?st ?w = (Inr (), rs)"
    using receive_file_progress [of ?a ?st ?w "[]" "[1, 2, 3]" "[1, 2, 3]" ?lib "[?f]" ?conn] carry q sep
    by (auto simp: starts_with_def has_partial_def fs_creatable_def fs_exists_def fs_lookup_def
        lib_works_def ref_ack_encodes scratch_paths_def journal_path_def tmp connection_new_def)
  then obtain rs where rs: "receive_file ?lib ?a ?conn ?st ?w = (Inr (), rs)" by blast
  obtain dest b where "fs_lookup dest (rv_world rs) = Some b" "(of_nat (length b) :: u64) = 3"
    using receive_file_verified_or_nothing [OF rs] sep by (auto simp: part_separate_def)
  then show ?thesis using rs by blast
qed

end
