(* ===== verification/Nxfr_Incoming.thy ===== *)
theory Nxfr_Incoming
  imports Nxfr_Receiver
begin

text \<open>
  An accepted incoming transfer, \<open>handle_incoming_transfer\<close> of \<open>nxfr-daemon/src/handler.rs\<close>: it
  creates the directories of the manifest, loads or starts the resume state, and then serves the
  sender's messages: every announced file is sanitized, jailed below the download root, received
  and verified by \<open>receive_file\<close>; the loop ends with the transfer's completion, its cancellation or
  the close of the session. The clock reads the same time throughout; \<open>canonicalize\<close> and the text of
  a path error are parameters.
\<close>

section \<open>State\<close>

record daemon_lib = recv_lib +
  lib_from_str :: "bytes \<Rightarrow> ResumeError + ResumeState"
  lib_canonicalize :: "world \<Rightarrow> abspath \<Rightarrow> string + abspath"
  lib_path_error :: "PathError \<Rightarrow> string"

record inc_args =
  ia_session_id :: u32
  ia_transfer_id :: TransferId
  ia_peer_id_hex :: string
  ia_display_name :: string
  ia_manifest :: "ManifestEntry list"
  ia_receive_dir :: abspath
  ia_journal_dir :: abspath
  ia_now :: nat

record inc_state =
  ic_conn :: NxfrConnection
  ic_world :: world
  ic_resume :: ResumeState

definition transfer_id_hex :: "TransferId \<Rightarrow> string" where
  "transfer_id_hex t = hex_encode (transfer_id_bytes t)"

section \<open>Steps\<close>

fun create_manifest_dirs :: "abspath \<Rightarrow> ManifestEntry list \<Rightarrow> world \<Rightarrow> world" where
  "create_manifest_dirs receive_dir [] w = w"
| "create_manifest_dirs receive_dir (entry # manifest) w =
     create_manifest_dirs receive_dir manifest
       (if me_entry_type entry = Dir
        then (case sanitize_path (me_relative_path entry) of
                Inl _ \<Rightarrow> w
              | Inr sanitized \<Rightarrow> snd (fs_create_dir_all (path_join receive_dir sanitized) w))
        else w)"

definition fresh_resume_state :: "inc_args \<Rightarrow> ResumeState" where
  "fresh_resume_state a =
     \<lparr>rs_transfer_id = transfer_id_hex (ia_transfer_id a),
      rs_peer_device_id = ia_peer_id_hex a,
      rs_display_name = ia_display_name a,
      rs_manifest = map (\<lambda>e. \<lparr>rme_file_id = me_file_id e, rme_relative_path = me_relative_path e,
          rme_size = (case me_size e of None \<Rightarrow> 0 | Some n \<Rightarrow> n),
          rme_sha256 = (case me_sha256 e of None \<Rightarrow> '''' | Some h \<Rightarrow> hex_encode h)\<rparr>) (ia_manifest a),
      rs_files = [],
      rs_created_at = int (ia_now a),
      rs_expires_at = int (ia_now a) + 86400,
      rs_version = 1\<rparr>"

definition load_resume_state :: "daemon_lib \<Rightarrow> inc_args \<Rightarrow> world \<Rightarrow> ResumeState \<times> world" where
  "load_resume_state lib a w =
     (case journal_load (lib_from_str lib) (ia_journal_dir a) (transfer_id_hex (ia_transfer_id a)) w of
        (Inr (Some existing), w') \<Rightarrow> (if rs_files existing \<noteq> [] then existing else fresh_resume_state a, w')
      | (_, w') \<Rightarrow> (fresh_resume_state a, w'))"

text \<open>\<open>dest.with_extension(..)\<close>: the extension gets \<open>.part\<close> appended.\<close>

definition part_path_of :: "abspath \<Rightarrow> abspath" where
  "part_path_of dest =
     (case path_file_name dest of
        None \<Rightarrow> dest
      | Some name \<Rightarrow> butlast dest @ [set_extension name
          (case name_extension name of None \<Rightarrow> ''part'' | Some e \<Rightarrow> e @ ''.part'')])"

definition inc_send :: "daemon_lib \<Rightarrow> inc_args \<Rightarrow> ControlMessage \<Rightarrow> inc_state \<Rightarrow> (recv_error + unit) \<times> inc_state" where
  "inc_send lib a msg s =
     (case send_control (lib_into_writer lib) (ia_session_id a) 0 msg (ic_conn s) of
        (Inl e, c) \<Rightarrow> (Inl (RecvConn e), s\<lparr>ic_conn := c\<rparr>)
      | (Inr _, c) \<Rightarrow> (Inr (), s\<lparr>ic_conn := c\<rparr>))"

definition resume_mismatch :: "ResumeState \<Rightarrow> u32 \<Rightarrow> bytes \<Rightarrow> bool" where
  "resume_mismatch st file_id sha256 \<longleftrightarrow>
     has_partial st file_id \<and>
     (let manifest_sha = (case find (\<lambda>m. rme_file_id m = file_id) (rs_manifest st) of
          None \<Rightarrow> '''' | Some m \<Rightarrow> rme_sha256 m)
      in manifest_sha \<noteq> '''' \<and> manifest_sha \<noteq> hex_encode sha256)"

text \<open>
  A rejected path: tell the peer and refuse the file. A failed jail check tells the peer only; its
  acknowledgement has been sent before.
\<close>

definition inc_reject_path :: "daemon_lib \<Rightarrow> inc_args \<Rightarrow> string \<Rightarrow> inc_state \<Rightarrow> (recv_error + unit) \<times> inc_state" where
  "inc_reject_path lib a text s = inc_send lib a (Error EcPathRejected (Some text) False None) s"

definition inc_metadata_ack :: "daemon_lib \<Rightarrow> inc_args \<Rightarrow> u32 \<Rightarrow> u32 \<Rightarrow> bool \<Rightarrow> inc_state \<Rightarrow> (recv_error + unit) \<times> inc_state" where
  "inc_metadata_ack lib a file_id stream accepted s =
     inc_send lib a (FileMetadataAck (ia_transfer_id a) file_id stream accepted) s"

text \<open>The file changed since the interrupted transfer: drop what was received of it.\<close>

definition inc_drop_partial :: "daemon_lib \<Rightarrow> inc_args \<Rightarrow> u32 \<Rightarrow> string \<Rightarrow> inc_state \<Rightarrow> inc_state" where
  "inc_drop_partial lib a file_id sanitized s =
     (let part_path = part_path_of (path_join (ia_receive_dir a) sanitized);
          w1 = snd (fs_remove_file part_path (ic_world s));
          st = (ic_resume s)\<lparr>rs_files := AList.delete file_id (rs_files (ic_resume s))\<rparr>;
          w2 = snd (journal_save (lib_to_vec lib) (ia_journal_dir a) st w1)
      in s\<lparr>ic_world := w2, ic_resume := st\<rparr>)"

definition inc_recv_args :: "inc_args \<Rightarrow> u32 \<Rightarrow> u32 \<Rightarrow> u64 \<Rightarrow> bytes \<Rightarrow> abspath \<Rightarrow> recv_args" where
  "inc_recv_args a file_id stream file_size sha256 dest =
     \<lparr>ra_session_id = ia_session_id a, ra_file_id = file_id, ra_stream_id = stream,
      ra_expected_size = file_size, ra_expected_hash = sha256, ra_part_path = part_path_of dest,
      ra_final_path = dest, ra_journal_dir = ia_journal_dir a, ra_now = ia_now a\<rparr>"

definition inc_init_file :: "u32 \<Rightarrow> abspath \<Rightarrow> ResumeState \<Rightarrow> ResumeState" where
  "inc_init_file file_id part_path st =
     (if has_partial st file_id then st
      else st\<lparr>rs_files := AList.update file_id
        \<lparr>fst_received_bytes = 0, fst_received_ranges = [], fst_partial_sha256 = None,
         fst_dest_path = path_display part_path\<rparr> (rs_files st)\<rparr>)"

text \<open>Receive one file at its jailed destination.\<close>

definition inc_receive :: "daemon_lib \<Rightarrow> inc_args \<Rightarrow> u32 \<Rightarrow> u32 \<Rightarrow> u64 \<Rightarrow> bytes \<Rightarrow> abspath \<Rightarrow> inc_state
    \<Rightarrow> (recv_error + unit) \<times> inc_state" where
  "inc_receive lib a file_id stream file_size sha256 dest s =
     (case (case path_parent dest of
              None \<Rightarrow> (Inr (), ic_world s)
            | Some parent \<Rightarrow> fs_create_dir_all parent (ic_world s)) of
        (Inl e, w) \<Rightarrow> (Inl (RecvFile e), s\<lparr>ic_world := w\<rparr>)
      | (Inr _, w) \<Rightarrow>
          let st = inc_init_file file_id (part_path_of dest) (ic_resume s)
          in (case journal_save (lib_to_vec lib) (ia_journal_dir a) st w of
                (Inl e, w) \<Rightarrow> (Inl (RecvJournal e), s\<lparr>ic_world := w, ic_resume := st\<rparr>)
              | (Inr _, w) \<Rightarrow>
                  (case receive_file (recv_lib.truncate lib) (inc_recv_args a file_id stream file_size sha256 dest)
                          (ic_conn s) st w of
                     (r, rs) \<Rightarrow> (r, \<lparr>ic_conn = rv_conn rs, ic_world = rv_world rs, ic_resume = rv_resume rs\<rparr>))))"

definition inc_file_metadata :: "daemon_lib \<Rightarrow> inc_args \<Rightarrow> u32 \<Rightarrow> u32 \<Rightarrow> string \<Rightarrow> u64 \<Rightarrow> bytes \<Rightarrow> inc_state
    \<Rightarrow> (recv_error + unit) \<times> inc_state" where
  "inc_file_metadata lib a file_id stream relative_path file_size sha256 s =
     (case sanitize_path relative_path of
        Inl e \<Rightarrow>
          io_then (inc_reject_path lib a (''path rejected: '' @ lib_path_error lib e) s)
            (\<lambda>_ s. inc_metadata_ack lib a file_id stream False s)
      | Inr sanitized \<Rightarrow>
          if resume_mismatch (ic_resume s) file_id sha256
          then inc_metadata_ack lib a file_id stream False (inc_drop_partial lib a file_id sanitized s)
          else io_then (inc_metadata_ack lib a file_id stream True s) (\<lambda>_ s.
            case resolve_safe_path (lib_canonicalize lib (ic_world s)) (\<lambda>p. fs_exists p (ic_world s))
                   (ia_receive_dir a) sanitized of
              Inl e \<Rightarrow> inc_reject_path lib a (''PathTraversalAttempt: '' @ lib_path_error lib e) s
            | Inr dest \<Rightarrow> inc_receive lib a file_id stream file_size sha256 dest s))"

definition inc_complete :: "daemon_lib \<Rightarrow> inc_args \<Rightarrow> inc_state \<Rightarrow> (recv_error + unit) \<times> inc_state" where
  "inc_complete lib a s =
     io_then (inc_send lib a (TransferAck (ia_transfer_id a) Success None) s) (\<lambda>_ s.
       (Inr (), s\<lparr>ic_world := snd (journal_delete (ia_journal_dir a) (transfer_id_hex (ia_transfer_id a)) (ic_world s))\<rparr>))"

text \<open>One message of the loop: go on, or return.\<close>

datatype inc_step =
    IncNext (inc_step_state: inc_state)
  | IncReturn "recv_error + unit" (inc_step_state: inc_state)

definition inc_next :: "(recv_error + unit) \<times> inc_state \<Rightarrow> inc_step" where
  "inc_next r = (case r of (Inl e, s) \<Rightarrow> IncReturn (Inl e) s | (Inr _, s) \<Rightarrow> IncNext s)"

definition inc_control :: "daemon_lib \<Rightarrow> inc_args \<Rightarrow> bytes \<Rightarrow> inc_state \<Rightarrow> inc_step" where
  "inc_control lib a payload s =
     (case decode_control (lib_from_reader lib) payload of
        Inl e \<Rightarrow> IncReturn (Inl (RecvCodec e)) s
      | Inr (FileMetadata _ file_id stream relative_path file_size sha256 _ _) \<Rightarrow>
          inc_next (inc_file_metadata lib a file_id stream relative_path file_size sha256 s)
      | Inr (TransferComplete _) \<Rightarrow> (case inc_complete lib a s of (r, s') \<Rightarrow> IncReturn r s')
      | Inr (TransferCancel _ _) \<Rightarrow> IncReturn (Inr ()) s
      | Inr (SessionClose _) \<Rightarrow>
          (case inc_send lib a (SessionClose (Some ''normal'')) s of (r, s') \<Rightarrow> IncReturn r s')
      | Inr _ \<Rightarrow> IncNext s)"

definition inc_frame :: "daemon_lib \<Rightarrow> inc_args \<Rightarrow> NxfrFrame \<Rightarrow> inc_state \<Rightarrow> inc_step" where
  "inc_frame lib a frame s =
     (case frame of (hdr, payload) \<Rightarrow> if kind hdr = Control then inc_control lib a payload s else IncNext s)"

text \<open>What a step has left to receive: no step adds frames.\<close>

lemma rx_recv_frame: "recv_frame c = (q, c') \<Longrightarrow> suffix (rx c') (rx c)"
  by (auto simp: recv_frame_def suffix_def split: list.splits sum.splits)

lemma rx_receive_loop: "receive_loop lib a s = (r, s') \<Longrightarrow> suffix (rx (rv_conn s')) (rx (rv_conn s))"
proof (induction lib a s rule: receive_loop.induct)
  case (1 lib a s)
  obtain q c where q: "recv_frame (rv_conn s) = (q, c)" by (cases "recv_frame (rv_conn s)")
  have c: "suffix (rx c) (rx (rv_conn s))" by (rule rx_recv_frame [OF q])
  show ?case
  proof (cases q)
    case (Inl e)
    then show ?thesis using "1.prems" q c by (auto simp: receive_loop.simps)
  next
    case (Inr frame)
    let ?r = "receive_frame lib a frame (s\<lparr>rv_conn := c\<rparr>)"
    have "rx (rv_conn (step_state ?r)) = rx c" by simp
    then show ?thesis
      using "1.prems" "1.IH" q Inr c
      by (cases ?r) (fastforce simp: receive_loop.simps [of lib a s] intro: suffix_order.trans)+
  qed
qed

lemma conn_receive_finish [simp]: "rv_conn (snd (receive_finish lib a s)) = rv_conn s"
  by (auto simp: receive_finish_def rv_remove_part_def Let_def split: prod.splits sum.splits)

lemma rx_receive_file:
  assumes "receive_file lib a conn st w = (r, s')"
  shows "suffix (rx (rv_conn s')) (rx conn)"
proof -
  obtain ro w' where ro: "receive_open lib a st w = (ro, w')" by (cases "receive_open lib a st w")
  show ?thesis
  proof (cases "\<exists>n b. ro = Inr (Ready n b)")
    case True
    then obtain n b where nb: "ro = Inr (Ready n b)" by blast
    let ?s = "\<lparr>rv_conn = conn, rv_world = w', rv_resume = st, rv_received = n, rv_hashed = b\<rparr>"
    obtain rl s1 where loop: "receive_loop lib a ?s = (rl, s1)" by (cases "receive_loop lib a ?s")
    have "rv_conn s' = rv_conn s1"
      using assms ro nb loop conn_receive_finish [of lib a s1]
      by (cases rl) (auto simp: receive_file_def simp del: conn_receive_finish)
    then show ?thesis using rx_receive_loop [OF loop] by simp
  next
    case False
    then have "rv_conn s' = conn"
      using assms ro by (auto simp: receive_file_def split: sum.splits open_result.splits)
    then show ?thesis by simp
  qed
qed

lemma rx_inc_send [simp]: "rx (ic_conn (snd (inc_send lib a m s))) = rx (ic_conn s)"
  using rx_send_control [of "lib_into_writer lib" "ia_session_id a" 0 m "ic_conn s"]
  by (auto simp: inc_send_def simp del: rx_send_control split: prod.splits sum.splits)

lemma conn_inc_drop_partial [simp]: "ic_conn (inc_drop_partial lib a i p s) = ic_conn s"
  by (simp add: inc_drop_partial_def Let_def)

lemma rx_inc_receive: "suffix (rx (ic_conn (snd (inc_receive lib a i st n h dest s)))) (rx (ic_conn s))"
  by (auto simp: inc_receive_def Let_def dest: rx_receive_file split: prod.splits sum.splits option.splits)

lemma rx_inc_file_metadata:
  "suffix (rx (ic_conn (snd (inc_file_metadata lib a i st p n h s)))) (rx (ic_conn s))"
  by (auto simp: inc_file_metadata_def inc_metadata_ack_def inc_reject_path_def
      intro!: io_then_inv [where P = "\<lambda>t. suffix (rx (ic_conn t)) (rx (ic_conn s))"] intro: suffix_order.trans [OF rx_inc_receive] split: sum.splits)

lemma rx_inc_frame: "suffix (rx (ic_conn (inc_step_state (inc_frame lib a f s)))) (rx (ic_conn s))"
proof (cases "decode_control (lib_from_reader lib) (snd f)")
  case (Inr msg)
  have nxt: "inc_step_state (inc_next m) = snd m" for m by (auto simp: inc_next_def split: prod.splits sum.splits)
  have complete: "rx (ic_conn (snd (inc_complete lib a s))) = rx (ic_conn s)"
    using rx_inc_send [of lib a "TransferAck (ia_transfer_id a) Success None" s]
    by (cases "inc_send lib a (TransferAck (ia_transfer_id a) Success None) s"; cases "fst (inc_send lib a (TransferAck (ia_transfer_id a) Success None) s)")
      (auto simp: inc_complete_def simp del: rx_inc_send)
  show ?thesis
    using Inr rx_inc_file_metadata rx_inc_send [of lib a "SessionClose (Some ''normal'')" s] complete
    by (auto simp: inc_frame_def inc_control_def nxt simp del: rx_inc_send split: prod.splits ControlMessage.splits)
qed (auto simp: inc_frame_def inc_control_def split: prod.splits)

lemma inc_turn_shorter:
  assumes "(Inr frame, c) = recv_frame (ic_conn s)" "inc_frame lib a frame (s\<lparr>ic_conn := c\<rparr>) = IncNext s'"
  shows "length (rx (ic_conn s')) < length (rx (ic_conn s))"
proof -
  have "length (rx (ic_conn s')) \<le> length (rx c)"
    using rx_inc_frame [of lib a frame "s\<lparr>ic_conn := c\<rparr>"] assms(2) by (auto dest: suffix_length_le)
  moreover have "length (rx c) < length (rx (ic_conn s))"
    using assms(1) by (auto simp: recv_frame_def split: list.splits sum.splits)
  ultimately show ?thesis by simp
qed

text \<open>The loop ends because every turn takes a frame from the connection.\<close>

function inc_loop :: "daemon_lib \<Rightarrow> inc_args \<Rightarrow> inc_state \<Rightarrow> (recv_error + unit) \<times> inc_state" where
  "inc_loop lib a s =
     (case recv_frame (ic_conn s) of
        (Inl e, c) \<Rightarrow> (Inl (RecvConn e), s\<lparr>ic_conn := c\<rparr>)
      | (Inr frame, c) \<Rightarrow>
          (case inc_frame lib a frame (s\<lparr>ic_conn := c\<rparr>) of
             IncNext s' \<Rightarrow> inc_loop lib a s'
           | IncReturn r s' \<Rightarrow> (r, s')))"
  by pat_completeness auto
termination
  by (relation "measure (\<lambda>(lib, a, s). length (rx (ic_conn s)))") (auto intro: inc_turn_shorter)

declare inc_loop.simps [simp del]

definition handle_incoming_transfer :: "daemon_lib \<Rightarrow> inc_args \<Rightarrow> NxfrConnection \<Rightarrow> world \<Rightarrow> (recv_error + unit) \<times> inc_state" where
  "handle_incoming_transfer lib a conn w =
     (let w1 = create_manifest_dirs (ia_receive_dir a) (ia_manifest a) w
      in case load_resume_state lib a w1 of (st, w2) \<Rightarrow>
           inc_loop lib a \<lparr>ic_conn = conn, ic_world = w2, ic_resume = st\<rparr>)"

section \<open>Lemmas\<close>

text \<open>A component with \<open>.part\<close> appended, and the paths where parts and files of a transfer live.\<close>

lemma part_path_append:
  assumes "dest \<noteq> []" "last dest \<noteq> ''..''"
  shows "part_path_of dest = butlast dest @ [last dest @ ''.part'']"
proof (cases "name_extension (last dest)")
  case None
  then show ?thesis using assms by (simp add: part_path_of_def path_file_name_def set_extension_def name_stem_def)
next
  case (Some e)
  then show ?thesis
    using assms arg_cong [OF name_split [OF Some], of "\<lambda>n. n @ ''.part''"]
    by (simp add: part_path_of_def path_file_name_def set_extension_def)
qed

lemma resolve_safe_path_Inr:
  assumes "resolve_safe_path canonicalize path_exists root rel = Inr p"
  obtains cr cs where "canonicalize root = Inr cr" "p = cr @ cs" "cs \<noteq> []" "list_all safe_component cs"
proof -
  from assms obtain cr sp where cr: "canonicalize root = Inr cr" and sp: "sanitize_path rel = Inr sp"
    and p: "p = path_join cr sp"
    by (auto simp: resolve_safe_path_def Let_def result_simps split: if_splits)
  have safe: "safe_relative_path sp" by (rule sanitize_path_Inr(1) [OF sp])
  then show thesis
    using that [OF cr] p path_join_safe [OF safe] by (simp add: safe_relative_path_def)
qed

text \<open>
  What a transfer may change: files of the journal directory; below the download directory or its
  canonical form, \<open>.part\<close> files, and files whose new content has the size and hash of a file that the
  peer announced.
\<close>

definition announced :: "daemon_lib \<Rightarrow> (io_error + NxfrFrame) list \<Rightarrow> u64 \<Rightarrow> bytes \<Rightarrow> bool" where
  "announced lib frames n h \<longleftrightarrow> (\<exists>hdr payload t i st p m mt. Inr (hdr, payload) \<in> set frames \<and>
     decode_control (lib_from_reader lib) payload = Inr (FileMetadata t i st p n h m mt))"

definition below_root :: "daemon_lib \<Rightarrow> inc_args \<Rightarrow> abspath \<Rightarrow> bool" where
  "below_root lib a q \<longleftrightarrow> q \<noteq> [] \<and> (prefix (ia_receive_dir a) (butlast q) \<or>
     (\<exists>w cr. lib_canonicalize lib w (ia_receive_dir a) = Inr cr \<and> prefix cr (butlast q)))"

definition journal_file :: "inc_args \<Rightarrow> abspath \<Rightarrow> bool" where
  "journal_file a q \<longleftrightarrow> q \<noteq> [] \<and> butlast q = ia_journal_dir a"

definition part_file :: "abspath \<Rightarrow> bool" where
  "part_file q \<longleftrightarrow> (\<exists>n. last q = n @ ''.part'')"

definition confined :: "daemon_lib \<Rightarrow> inc_args \<Rightarrow> (io_error + NxfrFrame) list \<Rightarrow> world \<Rightarrow> world \<Rightarrow> bool" where
  "confined lib a frames w w' \<longleftrightarrow> (\<forall>q. fs_lookup q w' = fs_lookup q w \<or> journal_file a q \<or>
     below_root lib a q \<and> (part_file q \<or>
       (\<exists>b. fs_lookup q w' = Some b \<and> announced lib frames (of_nat (length b)) (lib_sha256 lib b))))"

definition journal_apart :: "daemon_lib \<Rightarrow> inc_args \<Rightarrow> bool" where
  "journal_apart lib a \<longleftrightarrow>
     (\<forall>w cr. lib_canonicalize lib w (ia_receive_dir a) = Inr cr \<longrightarrow> \<not> prefix cr (ia_journal_dir a))"

lemma confined_same: "\<forall>q. fs_lookup q w' = fs_lookup q w \<Longrightarrow> confined lib a frames w w'"
  by (simp add: confined_def)

lemma confined_trans: "confined lib a fs w w' \<Longrightarrow> confined lib a fs w' w'' \<Longrightarrow> confined lib a fs w w''"
  unfolding confined_def by metis

lemma confined_at:
  assumes "below_root lib a p" "part_file p" "\<forall>q. q \<noteq> p \<longrightarrow> fs_lookup q w' = fs_lookup q w"
  shows "confined lib a fs w w'"
  unfolding confined_def using assms by metis

lemma journal_paths_are_files [simp]:
  "journal_file a (journal_path (ia_journal_dir a) tid)" "journal_file a (journal_tmp_path (ia_journal_dir a) tid)"
  by (simp_all add: journal_file_def journal_path_def journal_tmp_path_def)

lemma confined_journal_save:
  assumes "journal_save tv (ia_journal_dir a) st w = (r, w')"
  shows "confined lib a fs w w'"
  using journal_save_effect(2) [OF assms] unfolding confined_def
  by (metis journal_paths_are_files)

lemma confined_create_dir_all: "confined lib a fs w (snd (fs_create_dir_all p w))"
  using fs_create_dir_all_effect [of p w] by (intro confined_same) (metis prod.collapse)

text \<open>The destinations of a jailed file and its part are below the root, and apart from the journal.\<close>

lemma jailed_paths:
  assumes "lib_canonicalize lib w (ia_receive_dir a) = Inr cr" "dest = cr @ cs" "cs \<noteq> []" "list_all safe_component cs"
  shows "below_root lib a (part_path_of dest)" "part_file (part_path_of dest)"
    and "q \<in> destinations (inc_recv_args a i st n h dest) \<Longrightarrow> below_root lib a q"
    and "journal_apart lib a \<Longrightarrow> \<not> journal_file a (part_path_of dest)"
proof -
  have last: "dest \<noteq> []" "last dest \<noteq> ''..''" and pre: "prefix cr (butlast dest)"
    using assms(2-4) last_in_set [of cs] by (auto simp: list_all_iff safe_component_def butlast_append simp del: last_in_set)
  note part = part_path_append [OF last]
  have butl: "q \<in> destinations (inc_recv_args a i st n h dest) \<Longrightarrow> q \<noteq> [] \<and> butlast q = butlast dest"
    using last(1) by (auto simp: destinations_def inc_recv_args_def collision_fallback_def collision_candidate_def Let_def)
  show "below_root lib a (part_path_of dest)" "part_file (part_path_of dest)"
    using part pre assms(1) by (auto simp: below_root_def part_file_def)
  show "q \<in> destinations (inc_recv_args a i st n h dest) \<Longrightarrow> below_root lib a q"
    using butl pre assms(1) by (auto simp: below_root_def)
  show "journal_apart lib a \<Longrightarrow> \<not> journal_file a (part_path_of dest)"
    using part pre assms(1) by (auto simp: journal_file_def journal_apart_def)
qed

lemma confined_receive_file:
  assumes "receive_file (recv_lib.truncate lib) (inc_recv_args a i st n h dest) conn rs w = (r, s')"
    and dest: "lib_canonicalize lib w0 (ia_receive_dir a) = Inr cr" "dest = cr @ cs" "cs \<noteq> []" "list_all safe_component cs"
    and "journal_apart lib a" "announced lib fs n h"
  shows "confined lib a fs w (rv_world s')"
proof -
  let ?ra = "inc_recv_args a i st n h dest"
  note paths = jailed_paths [OF dest]
  have part: "ra_part_path ?ra = part_path_of dest" "ra_journal_dir ?ra = ia_journal_dir a"
    by (simp_all add: inc_recv_args_def)
  have sep: "part_separate ?ra (rs_transfer_id rs)"
    using paths(4) [OF assms(6)] journal_paths_are_files part by (metis part_separate_def)
  have scratch: "q \<in> scratch_paths ?ra (rs_transfer_id rs) \<Longrightarrow> journal_file a q \<or> below_root lib a q \<and> part_file q" for q
    using paths(1,2) part by (auto simp: scratch_paths_def)
  have outside: "unchanged_outside (scratch_paths ?ra (rs_transfer_id rs)) w w1 \<Longrightarrow> confined lib a fs w w1" for w1
    using scratch unfolding unchanged_outside_def confined_def by metis
  show ?thesis
  proof (cases r)
    case (Inl e)
    then show ?thesis using receive_file_effect [OF assms(1) sep] outside by simp
  next
    case (Inr u)
    then obtain w1 d b where w1: "unchanged_outside (scratch_paths ?ra (rs_transfer_id rs)) w w1"
      and d: "delivered (recv_lib.truncate lib) ?ra w1 (rv_world s') d b"
      using receive_file_effect [OF assms(1) sep] by auto
    have b: "fs_lookup d (rv_world s') = Some b" "lib_sha256 lib b = h" "of_nat (length b) = n" "below_root lib a d"
      "\<forall>q. q \<noteq> d \<and> q \<noteq> part_path_of dest \<longrightarrow> fs_lookup q (rv_world s') = fs_lookup q w1"
      using d paths(3) by (auto simp: delivered_def inc_recv_args_def recv_lib.truncate_def)
    then have "confined lib a fs w1 (rv_world s')"
      unfolding confined_def using assms(7) paths(1,2) by metis
    then show ?thesis using outside [OF w1] confined_trans by blast
  qed
qed

lemma world_inc_send: "inc_send lib a m s = (r, s') \<Longrightarrow> ic_world s' = ic_world s"
  by (auto simp: inc_send_def split: prod.splits sum.splits)

lemma world_io_then_ack:
  "ic_world (snd (io_then (inc_reject_path lib a text s) (\<lambda>_ s. inc_metadata_ack lib a i st b s))) = ic_world s"
  using world_inc_send [of lib a "Error EcPathRejected (Some text) False None" s]
    world_inc_send [of lib a "FileMetadataAck (ia_transfer_id a) i st b", OF surjective_pairing]
  unfolding inc_reject_path_def inc_metadata_ack_def
  by (cases "inc_send lib a (Error EcPathRejected (Some text) False None) s";
      cases "fst (inc_send lib a (Error EcPathRejected (Some text) False None) s)") auto

lemmas inc_send_defs = inc_reject_path_def inc_metadata_ack_def

lemma confined_drop_partial:
  assumes "sanitize_path p = Inr sanitized"
  shows "confined lib a fs (ic_world s) (ic_world (inc_drop_partial lib a i sanitized s))"
proof -
  let ?dest = "path_join (ia_receive_dir a) sanitized"
  have safe: "safe_relative_path sanitized" by (rule sanitize_path_Inr(1) [OF assms])
  define cs where "cs = split_on CHR ''/'' sanitized"
  have cs: "?dest = ia_receive_dir a @ cs" "cs \<noteq> []" "list_all safe_component cs"
    using path_join_safe [OF safe] safe by (simp_all add: safe_relative_path_def cs_def)
  then have "?dest \<noteq> []" "last ?dest \<noteq> ''..''" "prefix (ia_receive_dir a) (butlast ?dest)"
    using last_in_set [of cs] by (auto simp: list_all_iff safe_component_def butlast_append simp del: last_in_set)
  note part = part_path_append [OF this(1,2)] this(3)
  then have q: "below_root lib a (part_path_of ?dest)" "part_file (part_path_of ?dest)"
    by (auto simp: below_root_def part_file_def)
  obtain r w1 where w1: "fs_remove_file (part_path_of ?dest) (ic_world s) = (r, w1)"
    by (cases "fs_remove_file (part_path_of ?dest) (ic_world s)")
  have "confined lib a fs (ic_world s) w1"
    by (rule confined_at [OF q]) (use fs_remove_file_effect(1) [OF w1] in \<open>simp split: sum.splits\<close>)
  moreover define j where "j = journal_save (lib_to_vec lib) (ia_journal_dir a)
    ((ic_resume s)\<lparr>rs_files := AList.delete i (rs_files (ic_resume s))\<rparr>) w1"
  have "confined lib a fs w1 (snd j)"
    by (rule confined_journal_save [of "lib_to_vec lib" a _ w1 "fst j"]) (simp add: j_def)
  moreover have "ic_world (inc_drop_partial lib a i sanitized s) = snd j"
    unfolding inc_drop_partial_def Let_def w1 j_def by simp
  ultimately show ?thesis using confined_trans by metis
qed

lemma confined_inc_receive:
  assumes "resolve_safe_path (lib_canonicalize lib w0) ex (ia_receive_dir a) p = Inr dest"
    and "journal_apart lib a" "announced lib fs n h"
  shows "confined lib a fs (ic_world s) (ic_world (snd (inc_receive lib a i st n h dest s)))"
proof -
  obtain cr cs where dest: "lib_canonicalize lib w0 (ia_receive_dir a) = Inr cr" "dest = cr @ cs" "cs \<noteq> []" "list_all safe_component cs"
    using assms(1) by (rule resolve_safe_path_Inr)
  let ?m = "case path_parent dest of None \<Rightarrow> (Inr (), ic_world s) | Some parent \<Rightarrow> fs_create_dir_all parent (ic_world s)"
  let ?st = "inc_init_file i (part_path_of dest) (ic_resume s)"
  obtain r1 w1 where m: "?m = (r1, w1)" by (cases ?m)
  have c1: "confined lib a fs (ic_world s) w1"
    using m confined_create_dir_all [of lib a fs "ic_world s" "butlast dest"]
    by (auto simp: path_parent_def confined_same split: if_splits)
  obtain r2 w2 where j: "journal_save (lib_to_vec lib) (ia_journal_dir a) ?st w1 = (r2, w2)"
    by (cases "journal_save (lib_to_vec lib) (ia_journal_dir a) ?st w1")
  have c2: "confined lib a fs (ic_world s) w2"
    using c1 confined_journal_save [OF j] confined_trans by blast
  obtain r3 rs where f: "receive_file (recv_lib.truncate lib) (inc_recv_args a i st n h dest) (ic_conn s) ?st w2 = (r3, rs)"
    by (cases "receive_file (recv_lib.truncate lib) (inc_recv_args a i st n h dest) (ic_conn s) ?st w2")
  have c3: "confined lib a fs (ic_world s) (rv_world rs)"
    using c2 confined_receive_file [OF f dest assms(2,3)] confined_trans by blast
  show ?thesis
    unfolding inc_receive_def m using c1 c2 c3 j f by (auto simp: Let_def split: sum.splits)
qed

lemma confined_file_metadata:
  assumes "journal_apart lib a" "announced lib fs n h"
  shows "confined lib a fs (ic_world s) (ic_world (snd (inc_file_metadata lib a i st p n h s)))"
proof (cases "sanitize_path p")
  case (Inl e)
  then show ?thesis
    using world_io_then_ack by (simp add: inc_file_metadata_def confined_same)
next
  case (Inr sanitized)
  show ?thesis
  proof (cases "resume_mismatch (ic_resume s) i h")
    case True
    then show ?thesis
      using Inr confined_drop_partial [OF Inr] world_inc_send [OF surjective_pairing]
      by (simp add: inc_file_metadata_def inc_metadata_ack_def)
  next
    case False
    obtain r1 s1 where s1: "inc_metadata_ack lib a i st True s = (r1, s1)" by (cases "inc_metadata_ack lib a i st True s")
    then have w1: "ic_world s1 = ic_world s" by (simp add: inc_metadata_ack_def world_inc_send)
    show ?thesis
    proof (cases "resolve_safe_path (lib_canonicalize lib (ic_world s1)) (\<lambda>p. fs_exists p (ic_world s1)) (ia_receive_dir a) sanitized")
      case (Inl e)
      then show ?thesis
        using Inr False s1 w1 world_inc_send [OF surjective_pairing]
        by (cases r1) (auto simp: inc_file_metadata_def inc_reject_path_def intro!: confined_same)
    next
      case dest: (Inr dest)
      then show ?thesis
        using Inr False s1 w1 confined_inc_receive [OF dest assms, of s1 i st]
        by (cases r1) (auto simp: inc_file_metadata_def intro!: confined_same)
    qed
  qed
qed

lemma confined_journal_delete:
  assumes "journal_delete (ia_journal_dir a) tid w = (r, w')"
  shows "confined lib a fs w w'"
  using journal_delete_effect(2) [OF assms] unfolding confined_def by (metis journal_paths_are_files(1))

lemma confined_inc_complete: "confined lib a fs (ic_world s) (ic_world (snd (inc_complete lib a s)))"
proof -
  let ?m = "inc_send lib a (TransferAck (ia_transfer_id a) Success None) s"
  obtain r s1 where m: "?m = (r, s1)" by (cases ?m)
  then have w: "ic_world s1 = ic_world s" by (rule world_inc_send)
  show ?thesis
    using m w confined_journal_delete [OF prod.collapse [symmetric]]
    by (cases r) (simp_all add: inc_complete_def confined_same)
qed

lemma confined_inc_frame:
  assumes "journal_apart lib a" "Inr f \<in> set fs"
  shows "confined lib a fs (ic_world s) (ic_world (inc_step_state (inc_frame lib a f s)))"
proof -
  obtain hdr payload where f: "f = (hdr, payload)" by (cases f)
  have nxt: "inc_step_state (inc_next m) = snd m" for m by (auto simp: inc_next_def split: prod.splits sum.splits)
  have ret: "inc_step_state (case m of (r, s') \<Rightarrow> IncReturn r s') = snd m" for m by (simp split: prod.splits)
  have send: "ic_world (snd (inc_send lib a m s)) = ic_world s" for m
    by (rule world_inc_send [OF prod.collapse [symmetric]])
  show ?thesis
  proof (cases "kind hdr = Control")
    case True
    show ?thesis
    proof (cases "decode_control (lib_from_reader lib) payload")
      case (Inl e)
      then show ?thesis using f True by (simp add: inc_frame_def inc_control_def confined_same)
    next
      case (Inr msg)
      have meta: "confined lib a fs (ic_world s) (ic_world (snd (inc_file_metadata lib a i st p n h s)))"
        if "msg = FileMetadata t i st p n h m mt" for t i st p n h m mt
      proof (rule confined_file_metadata [OF assms(1)])
        show "announced lib fs n h" using that Inr f assms(2) unfolding announced_def by blast
      qed
      show ?thesis
        using f True Inr meta confined_inc_complete send
        by (cases msg) (simp_all add: inc_frame_def inc_control_def nxt ret confined_same)
    qed
  qed (use f in \<open>simp add: inc_frame_def confined_same\<close>)
qed

lemma confined_inc_loop:
  "inc_loop lib a s = (r, s') \<Longrightarrow> journal_apart lib a \<Longrightarrow> set (rx (ic_conn s)) \<subseteq> set fs \<Longrightarrow>
     confined lib a fs (ic_world s) (ic_world s')"
proof (induction lib a s rule: inc_loop.induct)
  case (1 lib a s)
  obtain q c where q: "recv_frame (ic_conn s) = (q, c)" by (cases "recv_frame (ic_conn s)")
  show ?case
  proof (cases q)
    case (Inl e)
    then have "ic_world s' = ic_world s" using "1.prems"(1) q by (auto simp: inc_loop.simps [of lib a s])
    then show ?thesis by (simp add: confined_same)
  next
    case (Inr f)
    let ?s = "s\<lparr>ic_conn := c\<rparr>"
    have "Inr f \<in> set (rx (ic_conn s))" "set (rx c) \<subseteq> set (rx (ic_conn s))"
      using q Inr by (auto simp: recv_frame_def split: list.splits sum.splits)
    then have f: "Inr f \<in> set fs" and c: "set (rx c) \<subseteq> set fs" using "1.prems"(3) by auto
    note step = confined_inc_frame [OF "1.prems"(2) f, of ?s]
    show ?thesis
    proof (cases "inc_frame lib a f ?s")
      case (IncNext s1)
      have "set (rx (ic_conn s1)) \<subseteq> set fs"
        using rx_inc_frame [of lib a f ?s] IncNext c by (auto simp: suffix_def)
      moreover have "inc_loop lib a s1 = (r, s')" using "1.prems"(1) q Inr IncNext by (simp add: inc_loop.simps [of lib a s])
      ultimately have "confined lib a fs (ic_world s1) (ic_world s')"
        using "1.IH" [OF q [symmetric] Inr IncNext] "1.prems"(2) by blast
      then show ?thesis using step IncNext confined_trans by fastforce
    next
      case (IncReturn r1 s1)
      then show ?thesis using step "1.prems"(1) q Inr by (simp add: inc_loop.simps [of lib a s])
    qed
  qed
qed

lemma manifest_dirs_world: "fs_lookup q (create_manifest_dirs d m w) = fs_lookup q w"
proof (induction m arbitrary: w)
  case (Cons e m)
  have "fs_lookup q (snd (fs_create_dir_all p w)) = fs_lookup q w" for p
    by (rule fs_create_dir_all_effect [OF prod.collapse [symmetric]])
  then show ?case using Cons by (simp split: sum.splits)
qed simp

lemma journal_load_world: "journal_load fr dir tid w = (r, w') \<Longrightarrow> fs_lookup q w' = fs_lookup q w"
proof -
  assume load: "journal_load fr dir tid w = (r, w')"
  obtain r1 w1 where r1: "fs_read (journal_path dir tid) w = (r1, w1)" by (cases "fs_read (journal_path dir tid) w")
  have "w' = w \<or> w' = w1"
    using load r1 by (cases r1; cases "fr (projr r1)") (auto simp: journal_load_def Let_def io_map_err_def split: if_splits)
  then show ?thesis using fs_read_effect(1) [OF r1] by auto
qed

lemma load_resume_state_world: "load_resume_state lib a w = (st, w') \<Longrightarrow> fs_lookup q w' = fs_lookup q w"
  by (auto simp: load_resume_state_def dest: journal_load_world split: prod.splits sum.splits option.splits)

lemma handle_incoming_transfer_kept:
  assumes "handle_incoming_transfer lib a conn w = (r, s')" "journal_apart lib a"
  shows "confined lib a (rx conn) w (ic_world s')"
proof -
  let ?w1 = "create_manifest_dirs (ia_receive_dir a) (ia_manifest a) w"
  obtain st w2 where w2: "load_resume_state lib a ?w1 = (st, w2)" by (cases "load_resume_state lib a ?w1")
  have "confined lib a (rx conn) w w2"
    using manifest_dirs_world load_resume_state_world [OF w2] by (intro confined_same) simp
  moreover have "confined lib a (rx conn) w2 (ic_world s')"
    using confined_inc_loop [of lib a "\<lparr>ic_conn = conn, ic_world = w2, ic_resume = st\<rparr>" r s' "rx conn"] assms w2
    by (simp add: handle_incoming_transfer_def)
  ultimately show ?thesis by (rule confined_trans)
qed

section \<open>Properties\<close>

text \<open>
  C23 What an accepted transfer can do to the file system, whatever the peer sends and whichever
  operations fail: outside the journal directory, every file it changes is below the download
  directory (or its canonical form), and is either a \<open>.part\<close> file or has, as a whole, the size and
  the SHA-256 of a file that the peer announced. The journal directory must not lie below the
  canonical download root.
\<close>

theorem incoming_transfer_confined:
  assumes "handle_incoming_transfer lib a conn w = (r, s')"
    and "\<forall>w cr. lib_canonicalize lib w (ia_receive_dir a) = Inr cr \<longrightarrow> \<not> prefix cr (ia_journal_dir a)"
  shows "fs_lookup q (ic_world s') = fs_lookup q w \<or> journal_file a q \<or>
    below_root lib a q \<and> (part_file q \<or>
      (\<exists>b. fs_lookup q (ic_world s') = Some b \<and> announced lib (rx conn) (of_nat (length b)) (lib_sha256 lib b)))"
  using handle_incoming_transfer_kept [OF assms(1)] assms(2) by (simp add: confined_def journal_apart_def)

theorem incoming_transfer_confined_witness:
  "\<exists>lib a conn w s'. handle_incoming_transfer lib a conn w = (Inr (), s')
    \<and> tx (ic_conn s') \<noteq> [] \<and> fs_lookup [''etc'', ''passwd''] (ic_world s') = Some [1]"
proof -
  let ?lib = "\<lparr>lib_sha256 = (\<lambda>_. replicate 32 0), lib_from_reader = ref_from_reader, lib_into_writer = ref_into_writer,
    lib_to_vec = ref_to_vec, lib_from_str = ref_from_str, lib_canonicalize = (\<lambda>_ p. Inr p), lib_path_error = (\<lambda>_. ''bad'')\<rparr> :: daemon_lib"
  let ?a = "\<lparr>ia_session_id = 1, ia_transfer_id = TransferId (replicate 16 0), ia_peer_id_hex = ''p'', ia_display_name = ''x'',
    ia_manifest = [], ia_receive_dir = [''d''], ia_journal_dir = [''j''], ia_now = 0\<rparr> :: inc_args"
  let ?w = "\<lparr>files = [([''etc'', ''passwd''], [1])], dirs = [[''d''], [''j'']], io_faults = []\<rparr> :: world"
  have "\<exists>bs. encode_control ref_into_writer (SessionClose None) = Inr bs"
    by (simp add: write_eval encode_reason_def limit_defs)
  then obtain bs where bs: "encode_control ref_into_writer (SessionClose None) = Inr bs" by blast
  have dec: "decode_control ref_from_reader bs = Inr (SessionClose None)"
    by (rule ref_cbor.decode_encode_wire [OF _ bs]) simp
  let ?f = "(\<lparr>kind = Control, flags = FrameFlags 0, session_id = 1, stream_id = 0, message_id = 1,
      payload_len = of_nat (length bs)\<rparr>, bs) :: NxfrFrame"
  have "\<exists>ps. encode_control ref_into_writer (SessionClose (Some ''normal'')) = Inr ps"
    by (simp add: write_eval encode_reason_def limit_defs)
  then obtain ps where ps: "encode_control ref_into_writer (SessionClose (Some ''normal'')) = Inr ps" by blast
  have st: "load_resume_state ?lib ?a ?w = (fresh_resume_state ?a, ?w)"
    by (simp add: load_resume_state_def journal_load_def fs_exists_def fs_lookup_def journal_path_def)
  have "\<exists>s'. handle_incoming_transfer ?lib ?a (connection_new [Inr ?f] []) ?w = (Inr (), s') \<and> tx (ic_conn s') \<noteq> []"
    using dec ps st
    by (simp add: handle_incoming_transfer_def inc_loop.simps recv_frame_def connection_new_def inc_frame_def inc_control_def
        inc_send_def send_control_def send_frame_def framed_send_def)
  then obtain s' where s': "handle_incoming_transfer ?lib ?a (connection_new [Inr ?f] []) ?w = (Inr (), s')" "tx (ic_conn s') \<noteq> []"
    by blast
  have "fs_lookup [''etc'', ''passwd''] (ic_world s') = Some [1]"
    using incoming_transfer_confined [OF s'(1), of "[''etc'', ''passwd'']"]
    by (simp add: journal_file_def below_root_def fs_lookup_def)
  then show ?thesis using s' by blast
qed

end
