(* ===== verification/Nxfr_Identity.thy ===== *)
theory Nxfr_Identity
  imports Nxfr_Config
begin

text \<open>
  Device identities: \<open>nxfr-crypto/src/identity.rs\<close> (the device id is the SHA-256 of the public key
  info of the certificate) and the identity files of the daemon (\<open>nxfr-daemon/src/identity.rs\<close>).
  The X.509 parser, SHA-256 and the key generation are libraries: parameters and an argument. File
  permissions are not modelled.
\<close>

section \<open>Device ids\<close>

definition extract_spki :: "(bytes \<Rightarrow> string + bytes) \<Rightarrow> bytes \<Rightarrow> string + bytes" where
  "extract_spki x509 cert_der = map_err (\<lambda>e. ''X.509 parse failed: '' @ e) (x509 cert_der)"

definition device_id_from_cert :: "(bytes \<Rightarrow> string + bytes) \<Rightarrow> (bytes \<Rightarrow> bytes) \<Rightarrow> bytes \<Rightarrow> string + bytes" where
  "device_id_from_cert x509 sha256 cert_der =
     and_then (extract_spki x509 cert_der) (\<lambda>spki. Inr (sha256 spki))"

record NxfrIdentity =
  ni_private_key_der :: bytes
  ni_cert_der :: bytes
  ni_device_id :: bytes

text \<open>\<open>generate_keypair\<close> is the library's outcome: an error, or a key and its self-signed certificate.\<close>

definition generate_identity :: "(bytes \<Rightarrow> string + bytes) \<Rightarrow> (bytes \<Rightarrow> bytes) \<Rightarrow> string + (bytes \<times> bytes) \<Rightarrow> string + NxfrIdentity" where
  "generate_identity x509 sha256 generate_keypair =
     and_then generate_keypair (\<lambda>(key_pair, cert_der).
     and_then (device_id_from_cert x509 sha256 cert_der) (\<lambda>device_id.
       Inr \<lparr>ni_private_key_der = key_pair, ni_cert_der = cert_der, ni_device_id = device_id\<rparr>))"

section \<open>The identity files\<close>

record PersistentIdentity =
  pi_device_id :: bytes
  pi_key_der :: bytes
  pi_cert_der :: bytes

definition KEY_FILENAME :: string where "KEY_FILENAME = ''identity.der''"
definition CERT_FILENAME :: string where "CERT_FILENAME = ''identity.crt''"

text \<open>\<open>fs::metadata\<close>, of which only the permissions would be used.\<close>

definition fs_metadata :: "abspath \<Rightarrow> world \<Rightarrow> (string + unit) \<times> world" where
  "fs_metadata p = faulty (\<lambda>w. (if fs_exists p w then Inr () else Inl ''not found'', w)) (\<lambda>_ w. w)"

definition identity_load :: "(bytes \<Rightarrow> string + bytes) \<Rightarrow> (bytes \<Rightarrow> bytes) \<Rightarrow> abspath \<Rightarrow> abspath \<Rightarrow> world
    \<Rightarrow> (string + PersistentIdentity) \<times> world" where
  "identity_load x509 sha256 key_path cert_path w =
     io_then (fs_metadata key_path w) (\<lambda>_ w.
     io_then (fs_read key_path w) (\<lambda>key_der w.
     io_then (fs_read cert_path w) (\<lambda>cert_der w.
     io_then (map_err (\<lambda>e. ''bad cert: '' @ e) (device_id_from_cert x509 sha256 cert_der), w) (\<lambda>device_id w.
       (Inr \<lparr>pi_device_id = device_id, pi_key_der = key_der, pi_cert_der = cert_der\<rparr>, w)))))"

definition identity_generate :: "(bytes \<Rightarrow> string + bytes) \<Rightarrow> (bytes \<Rightarrow> bytes) \<Rightarrow> string + (bytes \<times> bytes) \<Rightarrow> abspath \<Rightarrow> abspath
    \<Rightarrow> world \<Rightarrow> (string + PersistentIdentity) \<times> world" where
  "identity_generate x509 sha256 generate_keypair key_path cert_path w =
     io_then (map_err (\<lambda>e. ''keygen: '' @ e) (generate_identity x509 sha256 generate_keypair), w) (\<lambda>ident w.
     io_then (fs_write key_path (ni_private_key_der ident) w) (\<lambda>_ w.
     io_then (fs_write cert_path (ni_cert_der ident) w) (\<lambda>_ w.
       (Inr \<lparr>pi_device_id = ni_device_id ident, pi_key_der = ni_private_key_der ident,
             pi_cert_der = ni_cert_der ident\<rparr>, w))))"

definition load_or_generate :: "(bytes \<Rightarrow> string + bytes) \<Rightarrow> (bytes \<Rightarrow> bytes) \<Rightarrow> string + (bytes \<times> bytes) \<Rightarrow> abspath
    \<Rightarrow> world \<Rightarrow> (string + PersistentIdentity) \<times> world" where
  "load_or_generate x509 sha256 generate_keypair data_dir w =
     (let key_path = data_dir @ [KEY_FILENAME]; cert_path = data_dir @ [CERT_FILENAME]
      in if fs_exists key_path w \<and> fs_exists cert_path w
         then identity_load x509 sha256 key_path cert_path w
         else identity_generate x509 sha256 generate_keypair key_path cert_path w)"

section \<open>Lemmas\<close>

lemma fs_write_Inr:
  assumes "fs_write p b w = (Inr (), w')"
  shows "fs_lookup q w' = (if q = p then Some b else fs_lookup q w)"
proof -
  from assms obtain w1 where "fs_create p w = (Inr (), w1)" "fs_write_all p b w1 = (Inr (), w')"
    by (auto simp: fs_write_def io_then_Inr)
  with fs_create_effect(1) fs_write_all_effect show ?thesis by fastforce
qed

text \<open>What is on disk when an identity was returned: the files, and the id of the certificate.\<close>

definition identity_on_disk :: "(bytes \<Rightarrow> string + bytes) \<Rightarrow> (bytes \<Rightarrow> bytes) \<Rightarrow> abspath \<Rightarrow> PersistentIdentity \<Rightarrow> world \<Rightarrow> bool" where
  "identity_on_disk x509 sha256 d i w \<longleftrightarrow>
     fs_lookup (d @ [KEY_FILENAME]) w = Some (pi_key_der i) \<and> fs_lookup (d @ [CERT_FILENAME]) w = Some (pi_cert_der i) \<and>
     device_id_from_cert x509 sha256 (pi_cert_der i) = Inr (pi_device_id i)"

lemma filenames_differ [simp]: "KEY_FILENAME \<noteq> CERT_FILENAME" "CERT_FILENAME \<noteq> KEY_FILENAME"
  by (simp_all add: KEY_FILENAME_def CERT_FILENAME_def)

lemma fs_metadata_effect: "fs_metadata p w = (r, w') \<Longrightarrow> fs_lookup q w' = fs_lookup q w"
  by (auto simp: fs_metadata_def fault_cases split: fault_splits if_splits)

lemma identity_load_on_disk:
  assumes "identity_load x509 sha256 (d @ [KEY_FILENAME]) (d @ [CERT_FILENAME]) w = (Inr i, w')"
  shows "identity_on_disk x509 sha256 d i w'"
proof -
  from assms obtain w1 w2 k c where w1: "fs_metadata (d @ [KEY_FILENAME]) w = (Inr (), w1)"
    and k: "fs_read (d @ [KEY_FILENAME]) w1 = (Inr k, w2)" and c: "fs_read (d @ [CERT_FILENAME]) w2 = (Inr c, w')"
    and i: "device_id_from_cert x509 sha256 c = Inr (pi_device_id i)" "pi_key_der i = k" "pi_cert_der i = c"
    by (auto simp: identity_load_def io_then_Inr result_simps)
  then show ?thesis
    using fs_read_effect [OF k] fs_read_effect [OF c] by (simp add: identity_on_disk_def)
qed

lemma identity_generate_on_disk:
  assumes "identity_generate x509 sha256 kp (d @ [KEY_FILENAME]) (d @ [CERT_FILENAME]) w = (Inr i, w')"
  shows "identity_on_disk x509 sha256 d i w'"
proof -
  from assms obtain ident w1 where gen: "generate_identity x509 sha256 kp = Inr ident"
    and w1: "fs_write (d @ [KEY_FILENAME]) (ni_private_key_der ident) w = (Inr (), w1)"
    and w2: "fs_write (d @ [CERT_FILENAME]) (ni_cert_der ident) w1 = (Inr (), w')"
    and i: "i = \<lparr>pi_device_id = ni_device_id ident, pi_key_der = ni_private_key_der ident, pi_cert_der = ni_cert_der ident\<rparr>"
    by (auto simp: identity_generate_def io_then_Inr result_simps)
  from gen have "device_id_from_cert x509 sha256 (ni_cert_der ident) = Inr (ni_device_id ident)"
    by (auto simp: generate_identity_def result_simps)
  then show ?thesis using fs_write_Inr [OF w1] fs_write_Inr [OF w2] i by (simp add: identity_on_disk_def)
qed

section \<open>Properties\<close>

text \<open>
  C27 The identity of a device is stable: once an identity was loaded or generated, every later start
  returns the same key, certificate and device id, whatever key the generator would make, and the device
  id is the one a peer derives from the certificate.
\<close>

theorem identity_stable:
  assumes "load_or_generate x509 sha256 kp d w = (Inr i, w')" "io_faults w' = []"
  shows "load_or_generate x509 sha256 kp' d w' = (Inr i, w') \<and>
    device_id_from_cert x509 sha256 (pi_cert_der i) = Inr (pi_device_id i)"
proof -
  have disk: "identity_on_disk x509 sha256 d i w'"
    using assms(1) identity_load_on_disk identity_generate_on_disk
    by (auto simp: load_or_generate_def Let_def split: if_splits)
  then show ?thesis
    using assms(2)
    by (simp add: identity_on_disk_def load_or_generate_def identity_load_def fs_exists_def fs_metadata_def fs_read_def)
qed

theorem identity_stable_witness:
  "\<exists>i w'. load_or_generate Inr (\<lambda>k. k @ k) (Inr ([1], [2])) [''d''] \<lparr>files = [], dirs = [[''d'']], io_faults = []\<rparr> = (Inr i, w')
     \<and> load_or_generate Inr (\<lambda>k. k @ k) (Inr ([3], [4])) [''d''] w' = (Inr i, w') \<and> pi_device_id i = [2, 2]"
proof -
  let ?w = "\<lparr>files = [], dirs = [[''d'']], io_faults = []\<rparr> :: world"
  obtain i w' where run: "load_or_generate Inr (\<lambda>k. k @ k) (Inr ([1], [2])) [''d''] ?w = (Inr i, w')"
    and i: "pi_device_id i = [2, 2]" and f: "io_faults w' = []"
    by (simp add: load_or_generate_def identity_generate_def generate_identity_def device_id_from_cert_def extract_spki_def
        fs_exists_def fs_lookup_def fs_write_def fs_create_def fs_write_all_def fs_creatable_def KEY_FILENAME_def CERT_FILENAME_def Let_def)
  then show ?thesis using identity_stable [OF run f] by blast
qed

end
