(* ===== verification/Nxfr_Outbound.thy ===== *)
theory Nxfr_Outbound
  imports Nxfr_Ipc Nxfr_Incoming Nxfr_Identity
begin

text \<open>
  The initiator side of \<open>nxfr-daemon/src/handler.rs\<close>: \<open>connect_to_peer\<close>, \<open>handle_outbound_send\<close> and
  \<open>handle_outbound_resume\<close>.

  The state holds the streams that were dialled, latest first (a resumption that falls back to a fresh
  transfer dials again), the outcomes of the coming dials (TCP and TLS together), whether the coming
  waits with a deadline are met, the readings of the clock and the progress events. The other tasks are
  not interleaved: this side only reads the configuration and the device table and writes its own
  journal entry.
\<close>

section \<open>State\<close>

record peer_stream =
  ps_certs :: "(bytes list) option"
  ps_conn :: NxfrConnection

record out_lib = daemon_lib +
  ol_x509 :: "bytes \<Rightarrow> string + bytes"
  ol_export :: "string \<Rightarrow> bytes \<Rightarrow> string + bytes"
  ol_hex_decode :: "string \<Rightarrow> string + bytes"

datatype out_error =
    OeText string
  | OeConn io_error
  | OeCodec CodecError
  | OeSend send_error
  | OeUnexpected string ControlMessage

record out_state =
  os_streams :: "peer_stream list"
  os_dials :: "(string + peer_stream) list"
  os_timely :: "bool list"
  os_clock :: "nat list"
  os_daemon :: DaemonState
  os_events :: "Progress list"

text \<open>Work on the connection of the latest stream.\<close>

definition on_conn :: "(NxfrConnection \<Rightarrow> ('e + 'a) \<times> NxfrConnection) \<Rightarrow> out_state \<Rightarrow> ('e + 'a) \<times> out_state" where
  "on_conn f s =
     (case os_streams s of
        [] \<Rightarrow> (case f (connection_new [] []) of (r, _) \<Rightarrow> (r, s))
      | p # ps \<Rightarrow> (case f (ps_conn p) of (r, c) \<Rightarrow> (r, s\<lparr>os_streams := p\<lparr>ps_conn := c\<rparr> # ps\<rparr>)))"

definition ob_send :: "out_lib \<Rightarrow> u32 \<Rightarrow> ControlMessage \<Rightarrow> out_state \<Rightarrow> (out_error + unit) \<times> out_state" where
  "ob_send lib session msg s =
     (case on_conn (send_control (lib_into_writer lib) session 0 msg) s of (r, s') \<Rightarrow>
        (case r of Inl e \<Rightarrow> Inl (OeConn e) | Inr _ \<Rightarrow> Inr (), s'))"

text \<open>Receive a frame and decode it as a control message, whatever its kind.\<close>

definition ob_recv :: "out_lib \<Rightarrow> out_state \<Rightarrow> (out_error + ControlMessage) \<times> out_state" where
  "ob_recv lib s =
     (case on_conn recv_frame s of
        (Inl e, s') \<Rightarrow> (Inl (OeConn e), s')
      | (Inr (_, payload), s') \<Rightarrow> (map_err OeCodec (decode_control (lib_from_reader lib) payload), s'))"

text \<open>\<open>tokio::time::timeout\<close> around a receive.\<close>

definition ob_recv_within :: "out_lib \<Rightarrow> string \<Rightarrow> out_state \<Rightarrow> (out_error + ControlMessage) \<times> out_state" where
  "ob_recv_within lib late s =
     (case os_timely s of
        False # ts \<Rightarrow> (Inl (OeText late), s\<lparr>os_timely := ts\<rparr>)
      | True # ts \<Rightarrow> ob_recv lib (s\<lparr>os_timely := ts\<rparr>)
      | [] \<Rightarrow> ob_recv lib s)"

definition ob_clock :: "out_state \<Rightarrow> nat \<times> out_state" where
  "ob_clock s = (case os_clock s of [] \<Rightarrow> (0, s) | t # ts \<Rightarrow> (t, s\<lparr>os_clock := ts\<rparr>))"

section \<open>Connecting\<close>

definition ob_dial :: "out_state \<Rightarrow> (out_error + (bytes list) option) \<times> out_state" where
  "ob_dial s =
     (case os_dials s of
        [] \<Rightarrow> (Inl (OeText ''connect failed''), s)
      | Inl e # ds \<Rightarrow> (Inl (OeText e), s\<lparr>os_dials := ds\<rparr>)
      | Inr p # ds \<Rightarrow> (Inr (ps_certs p), s\<lparr>os_dials := ds, os_streams := p # os_streams s\<rparr>))"

text \<open>The identity of the other end, from its certificate; it must be the requested one.\<close>

definition check_target :: "out_lib \<Rightarrow> string \<Rightarrow> (bytes list) option \<Rightarrow> out_error + bytes" where
  "check_target lib target certs =
     and_then (ok_or (OeText ''no peer certs'') certs) (\<lambda>peer_certs.
     and_then (case peer_certs of [] \<Rightarrow> Inl (OeText ''empty peer cert chain'') | cert # _ \<Rightarrow> Inr cert) (\<lambda>peer_cert.
     and_then (map_err OeText (device_id_from_cert (ol_x509 lib) (lib_sha256 lib) peer_cert)) (\<lambda>peer_id.
       if hex_encode peer_id \<noteq> target
       then Inl (OeText (''connected device's identity does not match the requested target (expected '' @ target @ '', got ''
              @ hex_encode peer_id @ ''; wrong address or possible MITM)''))
       else Inr peer_id)))"

definition sas_exporter :: "out_lib \<Rightarrow> bytes \<Rightarrow> bytes \<Rightarrow> out_error + bytes" where
  "sas_exporter lib device_id peer_id =
     map_err (\<lambda>e. OeText (''TLS exporter failed: '' @ e))
       (ol_export lib ''NXFR-SAS-v0'' (snd (derive_sas device_id peer_id (replicate 4 0))))"

definition ob_hello :: "string \<Rightarrow> out_state \<Rightarrow> ControlMessage \<times> out_state" where
  "ob_hello target s =
     (let dm = os_daemon s
      in case is_paired target (ds_db dm) of (paired, db) \<Rightarrow>
           (Hello V1_0 (DeviceId (ds_device_id dm)) (cf_device_name (ds_config dm)) Linux [] paired,
            s\<lparr>os_daemon := dm\<lparr>ds_db := db\<rparr>\<rparr>))"

definition hello_answer :: "ControlMessage \<Rightarrow> out_error + (u32 \<times> string)" where
  "hello_answer msg =
     (case msg of
        HelloAck version _ device_name _ _ _ session \<Rightarrow>
          if is_supported version then Inr (session, device_name)
          else Inl (OeText (''peer returned unsupported protocol version '' @ dec_string (unat (major version)) @ ''.''
                 @ dec_string (unat (minor version))))
      | _ \<Rightarrow> Inl (OeUnexpected ''expected HELLO_ACK, got '' msg))"

definition connect_to_peer :: "out_lib \<Rightarrow> string \<Rightarrow> out_state \<Rightarrow> (out_error + (u32 \<times> string \<times> bytes)) \<times> out_state" where
  "connect_to_peer lib target s =
     io_then (ob_dial s) (\<lambda>certs s.
     io_then (check_target lib target certs, s) (\<lambda>peer_id s.
     io_then (sas_exporter lib (ds_device_id (os_daemon s)) peer_id, s) (\<lambda>exporter_bytes s.
     case ob_hello target s of (hello, s) \<Rightarrow>
     io_then (ob_send lib 0 hello s) (\<lambda>_ s.
     io_then (ob_recv_within lib ''HELLO_ACK exchange timed out (10s)'' s) (\<lambda>msg s.
     io_then (hello_answer msg, s) (\<lambda>(session, peer_name) s.
       (Inr (session, peer_name, exporter_bytes), s)))))))"

section \<open>Sending\<close>

text \<open>\<open>fs::metadata\<close> and \<open>len\<close>; the length of a directory is unspecified, and reading one fails.\<close>

definition fs_file_size :: "abspath \<Rightarrow> world \<Rightarrow> (string + u64) \<times> world" where
  "fs_file_size p =
     faulty (\<lambda>w. (case fs_lookup p w of
         Some b \<Rightarrow> Inr (of_nat (length b))
       | None \<Rightarrow> if p \<in> set (dirs w) then Inr 0 else Inl ''not found'', w)) (\<lambda>_ w. w)"

definition ob_world :: "(world \<Rightarrow> (string + 'a) \<times> world) \<Rightarrow> out_state \<Rightarrow> (out_error + 'a) \<times> out_state" where
  "ob_world call s =
     (case call (ds_world (os_daemon s)) of (r, w) \<Rightarrow> (map_err OeText r, s\<lparr>os_daemon := (os_daemon s)\<lparr>ds_world := w\<rparr>\<rparr>))"

definition send_name :: "abspath \<Rightarrow> string" where
  "send_name path = (case path_file_name path of None \<Rightarrow> ''file'' | Some n \<Rightarrow> n)"

definition ascii_bytes :: "string \<Rightarrow> bytes" where
  "ascii_bytes s = map of_char s"

definition new_transfer_id :: "(bytes \<Rightarrow> bytes) \<Rightarrow> bytes \<Rightarrow> nat \<Rightarrow> TransferId" where
  "new_transfer_id sha256 file_hash nanos =
     TransferId (take 16 (sha256 (ascii_bytes (hex_encode file_hash @ dec_string nanos))))"

definition send_request :: "TransferId \<Rightarrow> string \<Rightarrow> u64 \<Rightarrow> bytes \<Rightarrow> ControlMessage" where
  "send_request tid file_name file_size file_hash =
     TransferRequest tid Files file_name 1 file_size
       [\<lparr>me_file_id = 1, me_relative_path = file_name, me_size = Some file_size, me_sha256 = Some file_hash,
         me_entry_type = File\<rparr>]"

definition outbound_id :: "TransferId \<Rightarrow> string" where
  "outbound_id tid = ''outbound-'' @ transfer_id_hex tid"

definition outbound_journal :: "TransferId \<Rightarrow> string \<Rightarrow> string \<Rightarrow> u64 \<Rightarrow> bytes \<Rightarrow> nat \<Rightarrow> nat \<Rightarrow> ResumeState" where
  "outbound_journal tid target file_name file_size file_hash created now =
     \<lparr>rs_transfer_id = outbound_id tid, rs_peer_device_id = target, rs_display_name = file_name,
      rs_manifest = [\<lparr>rme_file_id = 1, rme_relative_path = file_name, rme_size = file_size, rme_sha256 = hex_encode file_hash\<rparr>],
      rs_files = [], rs_created_at = int created, rs_expires_at = int now + 86400, rs_version = 1\<rparr>"

text \<open>The answer to the request: the journal entry is best effort.\<close>

definition transfer_answer :: "out_lib \<Rightarrow> u32 \<Rightarrow> TransferId \<Rightarrow> string \<Rightarrow> string \<Rightarrow> u64 \<Rightarrow> bytes \<Rightarrow> ControlMessage \<Rightarrow> out_state
    \<Rightarrow> (out_error + unit) \<times> out_state" where
  "transfer_answer lib session tid target file_name file_size file_hash msg s =
     (case msg of
        TransferAccept _ \<Rightarrow>
          (case ob_clock s of (t1, s) \<Rightarrow>
           case ob_clock s of (t2, s) \<Rightarrow>
             let w = snd (journal_save (lib_to_vec lib) (ds_journal_dir (os_daemon s))
                       (outbound_journal tid target file_name file_size file_hash t1 t2) (ds_world (os_daemon s)))
             in (Inr (), s\<lparr>os_daemon := (os_daemon s)\<lparr>ds_world := w\<rparr>\<rparr>))
      | TransferReject _ reason \<Rightarrow>
          io_then (ob_send lib session (SessionClose (Some ''transfer_rejected'')) s) (\<lambda>_ s.
            (Inl (OeText (''transfer rejected: '' @ (case reason of None \<Rightarrow> ''unknown'' | Some r \<Rightarrow> r))), s))
      | _ \<Rightarrow> (Inl (OeUnexpected ''unexpected response to TRANSFER_REQUEST: '' msg), s))"

definition send_metadata :: "TransferId \<Rightarrow> string \<Rightarrow> u64 \<Rightarrow> bytes \<Rightarrow> ControlMessage" where
  "send_metadata tid file_name file_size file_hash = FileMetadata tid 1 1 file_name file_size file_hash None None"

definition metadata_accepted :: "ControlMessage \<Rightarrow> out_error + unit" where
  "metadata_accepted msg =
     (case msg of
        FileMetadataAck _ _ _ accepted \<Rightarrow>
          if accepted then Inr () else Inl (OeText ''FILE_METADATA_ACK accepted=false'')
      | _ \<Rightarrow> Inl (OeText ''expected FILE_METADATA_ACK''))"

definition ob_send_args :: "u32 \<Rightarrow> bool \<Rightarrow> string \<Rightarrow> u64 \<Rightarrow> send_args" where
  "ob_send_args session progress file_name file_size =
     \<lparr>sa_session_id = session, sa_stream_id = 1, sa_progress = progress, sa_file_name = file_name,
      sa_total_file_size = file_size\<rparr>"

text \<open>Run the sender on the latest stream and collect its progress events.\<close>

definition ob_transmit :: "(NxfrConnection \<Rightarrow> (send_error + unit) \<times> send_state) \<Rightarrow> out_state \<Rightarrow> (out_error + unit) \<times> out_state" where
  "ob_transmit run s =
     (case os_streams s of
        [] \<Rightarrow> (Inl (OeText ''no connection''), s)
      | p # ps \<Rightarrow> (case run (ps_conn p) of (r, sd) \<Rightarrow>
          (map_err OeSend r, s\<lparr>os_streams := p\<lparr>ps_conn := sd_conn sd\<rparr> # ps, os_events := os_events s @ sd_events sd\<rparr>)))"

text \<open>After the chunks: completion, acknowledgement (any message will do), cleanup, close.\<close>

definition ob_finish :: "out_lib \<Rightarrow> u32 \<Rightarrow> TransferId \<Rightarrow> out_state \<Rightarrow> (out_error + string) \<times> out_state" where
  "ob_finish lib session tid s =
     io_then (ob_send lib session (TransferComplete tid) s) (\<lambda>_ s.
     io_then (ob_recv lib s) (\<lambda>_ s.
       let w = snd (journal_delete (ds_journal_dir (os_daemon s)) (outbound_id tid) (ds_world (os_daemon s)));
           s = s\<lparr>os_daemon := (os_daemon s)\<lparr>ds_world := w\<rparr>\<rparr>
       in io_then (ob_send lib session (SessionClose (Some ''normal'')) s) (\<lambda>_ s.
            (Inr (transfer_id_hex tid), snd (on_conn recv_frame s)))))"

definition ob_transfer :: "out_lib \<Rightarrow> u32 \<Rightarrow> string \<Rightarrow> bool \<Rightarrow> TransferId \<Rightarrow> string \<Rightarrow> u64 \<Rightarrow> bytes \<Rightarrow> bytes \<Rightarrow> out_state
    \<Rightarrow> (out_error + string) \<times> out_state" where
  "ob_transfer lib session target progress tid file_name file_size file_data file_hash s =
     io_then (ob_send lib session (send_request tid file_name file_size file_hash) s) (\<lambda>_ s.
     io_then (ob_recv_within lib ''timeout waiting for TransferAccept'' s) (\<lambda>msg s.
     io_then (transfer_answer lib session tid target file_name file_size file_hash msg s) (\<lambda>_ s.
     io_then (ob_send lib session (send_metadata tid file_name file_size file_hash) s) (\<lambda>_ s.
     io_then (ob_recv lib s) (\<lambda>msg s.
     io_then (metadata_accepted msg, s) (\<lambda>_ s.
     io_then (ob_transmit (send_file (lib_sha256 lib) (lib_from_reader lib)
                (ob_send_args session progress file_name file_size) file_data) s) (\<lambda>_ s.
       ob_finish lib session tid s)))))))"

definition handle_outbound_send :: "out_lib \<Rightarrow> string \<Rightarrow> abspath \<Rightarrow> bool \<Rightarrow> out_state \<Rightarrow> (out_error + string) \<times> out_state" where
  "handle_outbound_send lib target file_path progress s =
     io_then (connect_to_peer lib target s) (\<lambda>(session, _, _) s.
     io_then (ob_world (fs_file_size file_path) s) (\<lambda>file_size s.
     io_then (ob_world (fs_read file_path) s) (\<lambda>file_data s.
     case ob_clock s of (nanos, s) \<Rightarrow>
       let file_hash = lib_sha256 lib file_data
       in ob_transfer lib session target progress (new_transfer_id (lib_sha256 lib) file_hash nanos)
            (send_name file_path) file_size file_data file_hash s)))"

section \<open>Resuming\<close>

definition parse_transfer_id :: "(string \<Rightarrow> string + bytes) \<Rightarrow> string \<Rightarrow> out_error + TransferId" where
  "parse_transfer_id hex_decode s =
     (case hex_decode s of
        Inl _ \<Rightarrow> Inl (OeText ''invalid transfer_id hex'')
      | Inr decoded \<Rightarrow> if length decoded \<noteq> 16 then Inl (OeText ''transfer_id must be 16 bytes'') else Inr (TransferId decoded))"

text \<open>The ranges to skip, those of the first file; \<open>None\<close> to start afresh.\<close>

definition resume_answer :: "ControlMessage \<Rightarrow> out_error + ((u64 \<times> u64) list) option" where
  "resume_answer msg =
     (case msg of
        ResumeStatus _ True (Some fs) _ \<Rightarrow> Inr (Some (case fs of [] \<Rightarrow> [] | f # _ \<Rightarrow> rfs_received_ranges f))
      | ResumeStatus _ False _ _ \<Rightarrow> Inr None
      | _ \<Rightarrow> Inl (OeUnexpected ''expected RESUME_STATUS, got '' msg))"

definition ob_resume_file :: "out_lib \<Rightarrow> u32 \<Rightarrow> string \<Rightarrow> abspath \<Rightarrow> bool \<Rightarrow> TransferId \<Rightarrow> (u64 \<times> u64) list \<Rightarrow> out_state
    \<Rightarrow> (out_error + string) \<times> out_state" where
  "ob_resume_file lib session target file_path progress tid skip_ranges s =
     io_then (ob_world (fs_read file_path) s) (\<lambda>file_data s.
       let file_size = of_nat (length file_data);
           file_hash = lib_sha256 lib file_data;
           file_name = send_name file_path
       in io_then (ob_send lib session (send_metadata tid file_name file_size file_hash) s) (\<lambda>_ s.
          io_then (ob_recv lib s) (\<lambda>msg s.
          case msg of
            FileMetadataAck _ _ _ False \<Rightarrow>
              io_then (ob_send lib session (SessionClose (Some ''resume_metadata_rejected'')) s) (\<lambda>_ s.
                handle_outbound_send lib target file_path progress s)
          | FileMetadataAck _ _ _ True \<Rightarrow>
              io_then (ob_transmit (\<lambda>c. send_file_resume (lib_sha256 lib) (lib_from_reader lib)
                         (ob_send_args session progress file_name file_size) file_data skip_ranges c) s) (\<lambda>_ s.
                ob_finish lib session tid s)
          | _ \<Rightarrow> (Inl (OeText ''expected FILE_METADATA_ACK''), s))))"

definition handle_outbound_resume :: "out_lib \<Rightarrow> string \<Rightarrow> abspath \<Rightarrow> string \<Rightarrow> bool \<Rightarrow> out_state
    \<Rightarrow> (out_error + string) \<times> out_state" where
  "handle_outbound_resume lib target file_path retry_transfer_id progress s =
     io_then (connect_to_peer lib target s) (\<lambda>(session, _, _) s.
     io_then (parse_transfer_id (ol_hex_decode lib) retry_transfer_id, s) (\<lambda>tid s.
     io_then (ob_send lib session (ResumeQuery tid None) s) (\<lambda>_ s.
     io_then (ob_recv lib s) (\<lambda>msg s.
     io_then (resume_answer msg, s) (\<lambda>skip s.
       case skip of
         None \<Rightarrow> handle_outbound_send lib target file_path progress s
       | Some skip_ranges \<Rightarrow> ob_resume_file lib session target file_path progress tid skip_ranges s)))))"

section \<open>Lemmas\<close>

text \<open>A stream to the requested device; every stream is one, or nothing was sent on it.\<close>

definition to_target :: "out_lib \<Rightarrow> string \<Rightarrow> peer_stream \<Rightarrow> bool" where
  "to_target lib target p \<longleftrightarrow> (\<exists>cert rest spki. ps_certs p = Some (cert # rest) \<and>
     extract_spki (ol_x509 lib) cert = Inr spki \<and> hex_encode (lib_sha256 lib spki) = target)"

definition silent_elsewhere :: "out_lib \<Rightarrow> string \<Rightarrow> out_state \<Rightarrow> bool" where
  "silent_elsewhere lib target s \<longleftrightarrow> (\<forall>p\<in>set (os_streams s). to_target lib target p \<or> tx (ps_conn p) = []) \<and>
     (\<forall>p. Inr p \<in> set (os_dials s) \<longrightarrow> tx (ps_conn p) = [])"

definition connected :: "out_lib \<Rightarrow> string \<Rightarrow> out_state \<Rightarrow> bool" where
  "connected lib target s \<longleftrightarrow> silent_elsewhere lib target s \<and> os_streams s \<noteq> [] \<and> to_target lib target (hd (os_streams s))"

lemma check_target_Inr: "check_target lib target certs = Inr i \<Longrightarrow> ps_certs p = certs \<Longrightarrow> to_target lib target p"
  by (cases certs; cases "the certs")
    (auto simp: check_target_def to_target_def device_id_from_cert_def result_simps split: if_splits)

lemma connected_state:
  "connected lib target s \<Longrightarrow> os_streams s' = os_streams s \<Longrightarrow> os_dials s' = os_dials s \<Longrightarrow> connected lib target s'"
  by (simp add: connected_def silent_elsewhere_def)

lemma connected_silent: "connected lib target s \<Longrightarrow> silent_elsewhere lib target s"
  by (simp add: connected_def)

lemma on_conn_connected: "connected lib target s \<Longrightarrow> connected lib target (snd (on_conn f s))"
  by (cases "os_streams s") (auto simp: connected_def silent_elsewhere_def to_target_def on_conn_def split: prod.splits)

lemma ob_send_connected: "connected lib target s \<Longrightarrow> connected lib target (snd (ob_send lib i m s))"
  using on_conn_connected [of lib target s] by (simp add: ob_send_def case_prod_beta)

lemma ob_recv_connected: "connected lib target s \<Longrightarrow> connected lib target (snd (ob_recv lib s))"
  using on_conn_connected [of lib target s recv_frame] by (simp add: ob_recv_def case_prod_beta split: sum.splits)

lemma ob_recv_within_connected:
  assumes "connected lib target s"
  shows "connected lib target (snd (ob_recv_within lib e s))"
proof -
  have "connected lib target (s\<lparr>os_timely := ts\<rparr>)" for ts by (rule connected_state [OF assms]) simp_all
  then show ?thesis
    using assms by (auto simp: ob_recv_within_def ob_recv_connected connected_state split: list.splits bool.splits)
qed

lemma ob_transmit_connected: "connected lib target s \<Longrightarrow> connected lib target (snd (ob_transmit run s))"
  by (cases "os_streams s") (auto simp: connected_def silent_elsewhere_def to_target_def ob_transmit_def split: prod.splits)

lemma ob_world_connected: "connected lib target s \<Longrightarrow> connected lib target (snd (ob_world call s))"
  by (erule connected_state) (simp_all add: ob_world_def case_prod_beta)

lemma ob_clock_connected: "connected lib target s \<Longrightarrow> connected lib target (snd (ob_clock s))"
  by (erule connected_state) (simp_all add: ob_clock_def split: list.splits)

lemma ob_daemon_connected: "connected lib target s \<Longrightarrow> connected lib target (s\<lparr>os_daemon := dm\<rparr>)"
  by (erule connected_state) simp_all

named_theorems connected_intros \<open>steps that stay on the stream to the target\<close>

lemmas [connected_intros] = ob_send_connected ob_recv_connected ob_recv_within_connected ob_transmit_connected
  ob_world_connected ob_clock_connected ob_daemon_connected on_conn_connected
  io_then_inv [where P = "connected lib target" for lib target]

lemma transfer_answer_connected [connected_intros]:
  assumes "connected lib target s"
  shows "connected lib target (snd (transfer_answer lib i tid tg nm sz h msg s))"
proof -
  obtain t1 s1 where s1: "ob_clock s = (t1, s1)" by fastforce
  obtain t2 s2 where s2: "ob_clock s1 = (t2, s2)" by fastforce
  have "connected lib target s1" using ob_clock_connected [OF assms] s1 by simp
  then have "connected lib target s2" using ob_clock_connected [of lib target s1] s2 by simp
  then show ?thesis
    using s1 s2 assms
    by (cases msg) (auto simp: transfer_answer_def Let_def intro!: connected_intros)
qed

lemma ob_finish_connected [connected_intros]:
  "connected lib target s \<Longrightarrow> connected lib target (snd (ob_finish lib i tid s))"
  unfolding ob_finish_def Let_def by (intro connected_intros) (auto intro!: connected_intros)

lemma ob_transfer_connected [connected_intros]:
  "connected lib target s \<Longrightarrow> connected lib target (snd (ob_transfer lib i tg pr tid nm sz d h s))"
  unfolding ob_transfer_def by (intro connected_intros) (auto intro!: connected_intros)

lemma connect_connected:
  assumes "silent_elsewhere lib target s" "connect_to_peer lib target s = (r, s')"
  shows "silent_elsewhere lib target s' \<and> (\<forall>x. r = Inr x \<longrightarrow> connected lib target s')"
proof -
  obtain q s1 where dial: "ob_dial s = (q, s1)" by fastforce
  have s1: "silent_elsewhere lib target s1"
    using dial assms(1) by (auto simp: ob_dial_def silent_elsewhere_def split: list.splits sum.splits)
  show ?thesis
  proof (cases q)
    case (Inl e)
    then show ?thesis using assms(2) dial s1 by (auto simp: connect_to_peer_def)
  next
    case (Inr certs)
    show ?thesis
    proof (cases "check_target lib target certs")
      case (Inl e)
      then show ?thesis using assms(2) dial s1 Inr by (auto simp: connect_to_peer_def)
    next
      case (Inr peer_id)
      have "os_streams s1 \<noteq> [] \<and> ps_certs (hd (os_streams s1)) = certs"
        using dial \<open>q = Inr certs\<close> by (auto simp: ob_dial_def split: list.splits sum.splits)
      then have c1: "connected lib target s1" using s1 check_target_Inr [OF Inr] by (simp add: connected_def)
      have hello: "connected lib target (snd (ob_hello target t))" if "connected lib target t" for t
        using connected_state [OF that] by (simp add: ob_hello_def Let_def case_prod_beta)
      let ?rest = "\<lambda>exporter_bytes s. case ob_hello target s of (hello, s) \<Rightarrow>
         io_then (ob_send lib 0 hello s) (\<lambda>_ s.
         io_then (ob_recv_within lib ''HELLO_ACK exchange timed out (10s)'' s) (\<lambda>msg s.
         io_then (hello_answer msg, s) (\<lambda>(session, peer_name) s. (Inr (session, peer_name, exporter_bytes), s))))"
      have "connected lib target (snd (io_then (sas_exporter lib (ds_device_id (os_daemon s1)) peer_id, s1) ?rest))"
        unfolding case_prod_beta
        by (intro io_then_inv [where P = "connected lib target"])
          (auto intro: c1 hello ob_send_connected ob_recv_within_connected)
      then have "connected lib target s'" using assms(2) dial \<open>q = Inr certs\<close> Inr by (simp add: connect_to_peer_def)
      then show ?thesis by (simp add: connected_silent)
    qed
  qed
qed

lemma after_connect:
  assumes "silent_elsewhere lib target s" "\<And>x t. connected lib target t \<Longrightarrow> silent_elsewhere lib target (snd (f x t))"
  shows "silent_elsewhere lib target (snd (io_then (connect_to_peer lib target s) f))"
proof (cases "connect_to_peer lib target s")
  case (Pair r s1)
  then show ?thesis using connect_connected [OF assms(1) Pair] assms(2) by (cases r) auto
qed

lemma send_silent:
  assumes "silent_elsewhere lib target s"
  shows "silent_elsewhere lib target (snd (handle_outbound_send lib target p b s))"
  unfolding handle_outbound_send_def
  by (rule after_connect [OF assms], rule connected_silent)
    (auto simp: Let_def case_prod_beta intro!: connected_intros)

lemma connected_then_silent:
  assumes "connected lib target (snd m)" "\<And>x t. connected lib target t \<Longrightarrow> silent_elsewhere lib target (snd (f x t))"
  shows "silent_elsewhere lib target (snd (io_then m f))"
  using assms by (cases m; cases "fst m") (auto simp: connected_silent)

lemma resume_file_silent:
  assumes "connected lib target s"
  shows "silent_elsewhere lib target (snd (ob_resume_file lib i target p b tid skip s))"
proof -
  have answer: "silent_elsewhere lib target (snd (case msg of
            FileMetadataAck _ _ _ False \<Rightarrow>
              io_then (ob_send lib i (SessionClose (Some ''resume_metadata_rejected'')) t) (\<lambda>_ s.
                handle_outbound_send lib target p b s)
          | FileMetadataAck _ _ _ True \<Rightarrow>
              io_then (ob_transmit run t) (\<lambda>_ s. ob_finish lib i tid s)
          | _ \<Rightarrow> (Inl (OeText e), t)))" if "connected lib target t" for msg t run e
    using that
    by (cases msg) (auto intro!: connected_then_silent send_silent ob_send_connected ob_transmit_connected
        intro: connected_silent ob_finish_connected split: bool.splits)
  show ?thesis
    unfolding ob_resume_file_def Let_def
    by (intro connected_then_silent answer) (auto intro: assms ob_world_connected ob_send_connected ob_recv_connected)
qed

lemma resume_silent:
  assumes "silent_elsewhere lib target s"
  shows "silent_elsewhere lib target (snd (handle_outbound_resume lib target p tid b s))"
proof -
  have "silent_elsewhere lib target (snd (
     io_then (parse_transfer_id (ol_hex_decode lib) tid, t) (\<lambda>tid s.
     io_then (ob_send lib session (ResumeQuery tid None) s) (\<lambda>_ s.
     io_then (ob_recv lib s) (\<lambda>msg s.
     io_then (resume_answer msg, s) (\<lambda>skip s.
       case skip of
         None \<Rightarrow> handle_outbound_send lib target p b s
       | Some skip_ranges \<Rightarrow> ob_resume_file lib session target p b tid skip_ranges s))))))"
    if "connected lib target t" for session t
    by (intro connected_then_silent)
      (auto intro: that ob_send_connected ob_recv_connected send_silent resume_file_silent connected_silent split: option.splits)
  then show ?thesis
    unfolding handle_outbound_resume_def case_prod_beta by (intro after_connect [OF assms])
qed

text \<open>What a run wrote to its stream.\<close>

definition sent :: "out_state \<Rightarrow> NxfrFrame list" where
  "sent s = tx (ps_conn (hd (os_streams s)))"

definition wrote :: "out_state \<Rightarrow> NxfrFrame list \<Rightarrow> out_state \<Rightarrow> bool" where
  "wrote s fs s' \<longleftrightarrow> os_streams s \<noteq> [] \<and> os_streams s' \<noteq> [] \<and> sent s' = sent s @ fs"

definition carries_msg :: "out_lib \<Rightarrow> u32 \<Rightarrow> ControlMessage \<Rightarrow> NxfrFrame \<Rightarrow> bool" where
  "carries_msg lib i msg f \<longleftrightarrow> kind (fst f) = Control \<and> session_id (fst f) = i \<and>
     encode_control (lib_into_writer lib) msg = Inr (snd f)"

lemma wrote_trans: "wrote s fs s1 \<Longrightarrow> wrote s1 gs s2 \<Longrightarrow> wrote s (fs @ gs) s2"
  by (simp add: wrote_def)

lemma wrote_none: "os_streams s \<noteq> [] \<Longrightarrow> os_streams s' = os_streams s \<Longrightarrow> wrote s [] s'"
  by (simp add: wrote_def sent_def)

lemma ob_send_wrote:
  assumes "ob_send lib i msg s = (Inr u, s')" "os_streams s \<noteq> []"
  shows "\<exists>f. carries_msg lib i msg f \<and> wrote s [f] s'" "os_daemon s' = os_daemon s"
proof -
  obtain p ps where p: "os_streams s = p # ps" using assms(2) by (cases "os_streams s") auto
  then show "\<exists>f. carries_msg lib i msg f \<and> wrote s [f] s'" "os_daemon s' = os_daemon s"
    using assms(1)
    by (auto simp: ob_send_def on_conn_def send_control_def send_frame_def framed_send_def carries_msg_def wrote_def sent_def Let_def
        split: prod.splits sum.splits list.splits option.splits)
qed

lemma on_conn_recv_wrote: "os_streams s \<noteq> [] \<Longrightarrow> wrote s [] (snd (on_conn recv_frame s))"
  by (cases "os_streams s") (auto simp: on_conn_def recv_frame_def wrote_def sent_def split: prod.splits sum.splits list.splits)

lemma ob_recv_wrote:
  assumes "ob_recv lib s = (r, s')" "os_streams s \<noteq> []"
  shows "wrote s [] s'" "os_daemon s' = os_daemon s"
proof -
  have "s' = snd (on_conn recv_frame s)" using assms(1) by (auto simp: ob_recv_def split: prod.splits sum.splits)
  then show "wrote s [] s'" "os_daemon s' = os_daemon s"
    using on_conn_recv_wrote [OF assms(2)] assms(2) by (auto simp: on_conn_def split: list.splits prod.splits)
qed

lemma ob_recv_within_wrote:
  assumes "ob_recv_within lib e s = (Inr m, s')" "os_streams s \<noteq> []"
  shows "wrote s [] s'" "os_daemon s' = os_daemon s"
proof -
  obtain ts where "ob_recv lib (s\<lparr>os_timely := ts\<rparr>) = (Inr m, s')"
    using assms(1) by (cases "os_timely s") (auto simp: ob_recv_within_def split: bool.splits, metis out_state.unfold_congs(3) out_state.surjective out_state.update_convs(3))
  from ob_recv_wrote [OF this] show "wrote s [] s'" "os_daemon s' = os_daemon s"
    using assms(2) by (simp_all add: wrote_def sent_def)
qed

lemma transfer_answer_wrote:
  assumes "transfer_answer lib i tid tg nm sz h msg s = (Inr u, s')" "os_streams s \<noteq> []"
  shows "wrote s [] s'"
proof -
  have "os_streams (snd (ob_clock t)) = os_streams t" for t by (simp add: ob_clock_def split: list.splits)
  then have "os_streams s' = os_streams s"
    using assms(1) by (cases msg) (auto simp: transfer_answer_def Let_def case_prod_beta io_then_Inr)
  then show ?thesis by (rule wrote_none [OF assms(2)])
qed

lemma ob_transmit_wrote:
  assumes "ob_transmit (send_file sha fr a d) s = (Inr u, s')" "os_streams s \<noteq> []" "\<forall>d. length (sha d) = 32"
  shows "\<exists>chunks. wrote s chunks s' \<and> frames_carry sha (sa_stream_id a) 0 chunks d"
proof -
  obtain p ps where p: "os_streams s = p # ps" using assms(2) by (cases "os_streams s") auto
  obtain r sd where sd: "send_file sha fr a d (ps_conn p) = (r, sd)" by fastforce
  then have "r = Inr ()" "os_streams s' = p\<lparr>ps_conn := sd_conn sd\<rparr> # ps"
    using assms(1) p by (auto simp: ob_transmit_def result_simps)
  then show ?thesis
    using send_file_exact sd p file_frames_carry [of 0 d sha a] by (fastforce simp: wrote_def sent_def)
qed

lemma ob_finish_wrote:
  assumes "ob_finish lib i tid s = (Inr x, s')" "os_streams s \<noteq> []"
  shows "x = transfer_id_hex tid \<and> (\<exists>f g. carries_msg lib i (TransferComplete tid) f \<and>
    carries_msg lib i (SessionClose (Some ''normal'')) g \<and> wrote s [f, g] s')"
proof -
  from assms(1) obtain s1 s2 m u where s1: "ob_send lib i (TransferComplete tid) s = (Inr u, s1)" and s2: "ob_recv lib s1 = (Inr m, s2)"
    by (auto simp: ob_finish_def io_then_Inr)
  define t where "t = s2\<lparr>os_daemon := (os_daemon s2)\<lparr>ds_world :=
    snd (journal_delete (ds_journal_dir (os_daemon s2)) (outbound_id tid) (ds_world (os_daemon s2)))\<rparr>\<rparr>"
  from assms(1) s1 s2 obtain s3 v where s3: "ob_send lib i (SessionClose (Some ''normal'')) t = (Inr v, s3)"
    and x: "x = transfer_id_hex tid" "s' = snd (on_conn recv_frame s3)"
    by (auto simp: ob_finish_def io_then_Inr Let_def t_def)
  obtain f where f: "carries_msg lib i (TransferComplete tid) f" "wrote s [f] s1"
    using ob_send_wrote(1) [OF s1 assms(2)] by blast
  have w2: "wrote s1 [] s2" using ob_recv_wrote(1) [OF s2] f(2) by (simp add: wrote_def)
  have w3: "wrote s2 [] t" by (rule wrote_none) (use w2 in \<open>simp_all add: wrote_def t_def\<close>)
  obtain g where g: "carries_msg lib i (SessionClose (Some ''normal'')) g" "wrote t [g] s3"
    using ob_send_wrote(1) [OF s3] w3 by (auto simp: wrote_def)
  have w4: "wrote s3 [] s'" using on_conn_recv_wrote [of s3] g(2) x(2) by (simp add: wrote_def)
  have "wrote s ([f] @ [] @ [] @ [g] @ []) s'"
    by (intro wrote_trans) (use f g w2 w3 w4 in blast)+
  then have "wrote s [f, g] s'" by simp
  then show ?thesis using f(1) g(1) x(1) by blast
qed

lemma ob_transfer_wrote:
  assumes "ob_transfer lib i tg pr tid nm sz d h s = (Inr x, s')" "os_streams s \<noteq> []" "\<forall>d. length (lib_sha256 lib d) = 32"
  shows "x = transfer_id_hex tid \<and> (\<exists>f1 f2 chunks f3 f4. carries_msg lib i (send_request tid nm sz h) f1 \<and>
    carries_msg lib i (send_metadata tid nm sz h) f2 \<and> frames_carry (lib_sha256 lib) 1 0 chunks d \<and>
    carries_msg lib i (TransferComplete tid) f3 \<and> carries_msg lib i (SessionClose (Some ''normal'')) f4 \<and>
    wrote s (f1 # f2 # chunks @ [f3, f4]) s')"
proof -
  let ?run = "send_file (lib_sha256 lib) (lib_from_reader lib) (ob_send_args i pr nm sz) d"
  from assms(1) obtain u1 s1 m1 s2 u3 s3 u4 s4 m5 s5 u6 s6 where
    s1: "ob_send lib i (send_request tid nm sz h) s = (Inr u1, s1)"
    and s2: "ob_recv_within lib ''timeout waiting for TransferAccept'' s1 = (Inr m1, s2)"
    and s3: "transfer_answer lib i tid tg nm sz h m1 s2 = (Inr u3, s3)"
    and s4: "ob_send lib i (send_metadata tid nm sz h) s3 = (Inr u4, s4)"
    and s5: "ob_recv lib s4 = (Inr m5, s5)"
    and s6: "ob_transmit ?run s5 = (Inr u6, s6)" and s7: "ob_finish lib i tid s6 = (Inr x, s')"
    by (auto simp: ob_transfer_def io_then_Inr)
  obtain f1 where f1: "carries_msg lib i (send_request tid nm sz h) f1" "wrote s [f1] s1"
    using ob_send_wrote(1) [OF s1 assms(2)] by blast
  have w2: "wrote s1 [] s2" using ob_recv_within_wrote(1) [OF s2] f1(2) by (simp add: wrote_def)
  have w3: "wrote s2 [] s3" using transfer_answer_wrote [OF s3] w2 by (simp add: wrote_def)
  obtain f2 where f2: "carries_msg lib i (send_metadata tid nm sz h) f2" "wrote s3 [f2] s4"
    using ob_send_wrote(1) [OF s4] w3 unfolding wrote_def by blast
  have w5: "wrote s4 [] s5" using ob_recv_wrote(1) [OF s5] f2(2) by (simp add: wrote_def)
  obtain chunks where ch: "wrote s5 chunks s6" "frames_carry (lib_sha256 lib) 1 0 chunks d"
    using ob_transmit_wrote [OF s6 _ assms(3)] w5 by (auto simp: wrote_def ob_send_args_def)
  have "os_streams s6 \<noteq> []" using ch(1) by (simp add: wrote_def)
  from ob_finish_wrote [OF s7 this] obtain f3 f4 where x: "x = transfer_id_hex tid"
    and f3: "carries_msg lib i (TransferComplete tid) f3" and f4: "carries_msg lib i (SessionClose (Some ''normal'')) f4"
    and w7: "wrote s6 [f3, f4] s'" by blast
  have "wrote s ([f1] @ [] @ [] @ [f2] @ [] @ chunks @ [f3, f4]) s'"
    by (intro wrote_trans) (use f1 w2 w3 f2 w5 ch w7 in blast)+
  then have "wrote s (f1 # f2 # chunks @ [f3, f4]) s'" by simp
  then show ?thesis using x f1(1) f2(1) ch(2) f3 f4 by blast
qed

text \<open>A successful connect wrote the greeting.\<close>

lemma connect_wrote:
  assumes "connect_to_peer lib target s = (Inr (i, nm, ex), s')" "os_dials s = Inr p # ds" "tx (ps_conn p) = []"
  shows "\<exists>f b. carries_msg lib 0 (Hello V1_0 (DeviceId (ds_device_id (os_daemon s))) (cf_device_name (ds_config (os_daemon s))) Linux [] b) f \<and>
    os_streams s' \<noteq> [] \<and> sent s' = [f] \<and> ds_world (os_daemon s') = ds_world (os_daemon s)"
proof -
  let ?s = "s\<lparr>os_dials := ds, os_streams := p # os_streams s\<rparr>"
  have dial: "ob_dial s = (Inr (ps_certs p), ?s)" using assms(2) by (simp add: ob_dial_def)
  obtain hello t where hello: "ob_hello target ?s = (hello, t)" by fastforce
  have t: "\<exists>b. hello = Hello V1_0 (DeviceId (ds_device_id (os_daemon s))) (cf_device_name (ds_config (os_daemon s))) Linux [] b"
    "os_streams t = p # os_streams s" "ds_world (os_daemon t) = ds_world (os_daemon s)"
    using hello by (auto simp: ob_hello_def Let_def split: prod.splits)
  from assms(1) dial hello obtain u t1 m where t1: "ob_send lib 0 hello t = (Inr u, t1)"
    and t2: "ob_recv_within lib ''HELLO_ACK exchange timed out (10s)'' t1 = (Inr m, s')"
    by (auto simp: connect_to_peer_def io_then_Inr)
  have ne: "os_streams t \<noteq> []" "sent t = []" using t(2) assms(3) by (simp_all add: sent_def)
  from ob_send_wrote(1) [OF t1 ne(1)] obtain f where f: "carries_msg lib 0 hello f" "wrote t [f] t1" by blast
  note d1 = ob_send_wrote(2) [OF t1 ne(1)]
  have "os_streams t1 \<noteq> []" using f(2) by (simp add: wrote_def)
  from ob_recv_within_wrote [OF t2 this] have w: "wrote t1 [] s'" "os_daemon s' = os_daemon t1" by auto
  have "sent s' = [f]" "os_streams s' \<noteq> []" using f(2) w(1) ne(2) by (auto simp: wrote_def)
  moreover obtain b where "hello = Hello V1_0 (DeviceId (ds_device_id (os_daemon s))) (cf_device_name (ds_config (os_daemon s))) Linux [] b"
    using t(1) by blast
  ultimately show ?thesis using f(1) t(3) d1 w(2) by metis
qed

section \<open>Properties\<close>

text \<open>
  C21 Nothing is sent to a device other than the requested one. Over a whole transfer or resumption,
  including the streams that a fallback dials, frames are sent only on streams whose peer presented a
  certificate with the requested device id, the SHA-256 of its public key; on any other stream not
  even a greeting is sent.
\<close>

theorem outbound_only_to_target:
  assumes "handle_outbound_send lib target path progress s = (r, s') \<or>
      handle_outbound_resume lib target path retry progress s = (r, s')"
    and "os_streams s = []" "\<forall>p. Inr p \<in> set (os_dials s) \<longrightarrow> tx (ps_conn p) = []"
    and "p \<in> set (os_streams s')" "tx (ps_conn p) \<noteq> []"
  shows "\<exists>cert rest spki. ps_certs p = Some (cert # rest) \<and> extract_spki (ol_x509 lib) cert = Inr spki \<and>
    hex_encode (lib_sha256 lib spki) = target"
proof -
  have "silent_elsewhere lib target s" using assms(2,3) by (simp add: silent_elsewhere_def)
  then have "silent_elsewhere lib target s'" using assms(1) send_silent resume_silent by (metis snd_conv)
  then show ?thesis using assms(4,5) by (auto simp: silent_elsewhere_def to_target_def)
qed

theorem outbound_only_to_target_witness:
  "\<exists>lib s r s' p. handle_outbound_send lib (hex_encode [2]) [''f''] False s = (r, s') \<and> p \<in> set (os_streams s') \<and>
     tx (ps_conn p) \<noteq> [] \<and> (\<exists>cert rest. ps_certs p = Some (cert # rest) \<and> extract_spki (ol_x509 lib) cert = Inr [2])"
proof -
  let ?lib = "\<lparr>lib_sha256 = (\<lambda>k. k), lib_from_reader = ref_from_reader, lib_into_writer = (\<lambda>_. Inr []),
    lib_to_vec = ref_to_vec, lib_from_str = (\<lambda>_. Inl (ResumeJson '''')), lib_canonicalize = (\<lambda>_ p. Inr p), lib_path_error = (\<lambda>_. ''bad''),
    ol_x509 = (\<lambda>_. Inr [2]), ol_export = (\<lambda>_ _. Inr []), ol_hex_decode = (\<lambda>_. Inl '''')\<rparr> :: out_lib"
  let ?dm = "daemon_state_new \<lparr>cf_device_name = ''n'', cf_receive_dir = [''d''], cf_receiving_enabled = True\<rparr> [''c'']
      \<lparr>db_rows = Some [], db_autoinc = 0, db_version = Some [1], db_faults = []\<rparr>
      \<lparr>files = [], dirs = [], io_faults = []\<rparr> [''j''] (replicate 32 3) None"
  let ?s = "\<lparr>os_streams = [], os_dials = [Inr \<lparr>ps_certs = Some [[1]], ps_conn = connection_new [] []\<rparr>],
    os_timely = [], os_clock = [], os_daemon = ?dm, os_events = []\<rparr>"
  obtain r s' p where run: "handle_outbound_send ?lib (hex_encode [2]) [''f''] False ?s = (r, s')"
    and p: "p \<in> set (os_streams s')" "tx (ps_conn p) \<noteq> []"
    by (simp add: handle_outbound_send_def connect_to_peer_def ob_dial_def check_target_def extract_spki_def device_id_from_cert_def
        sas_exporter_def ob_hello_def is_paired_def paired_lookup_def sql_on_rows_def rows_with_def daemon_state_new_def ob_send_def
        on_conn_def send_control_def encode_control_def send_frame_def framed_send_def connection_new_def ob_recv_within_def
        ob_recv_def recv_frame_def limit_defs Let_def)
  have "\<exists>cert rest spki. ps_certs p = Some (cert # rest) \<and> extract_spki (ol_x509 ?lib) cert = Inr spki \<and>
      hex_encode (lib_sha256 ?lib spki) = hex_encode [2]"
    by (rule outbound_only_to_target [OF disjI1 [OF run] _ _ p]) (simp_all add: connection_new_def)
  then obtain cert rest where "ps_certs p = Some (cert # rest)" "extract_spki (ol_x509 ?lib) cert = Inr [2]"
    by (auto simp: extract_spki_def)
  then show ?thesis using run p by blast
qed

text \<open>
  C22 A send that reports success said exactly what it should on the stream: the greeting with the
  device's own id and name, the request and the metadata that announce the name, size and SHA-256 of
  the file as it was on disk, chunks that carry exactly the bytes of the file, in order, each with
  its own hash, then completion and close; and it returns the id of the transfer it announced.
\<close>

theorem outbound_send_transmits:
  assumes "handle_outbound_send lib target path progress s = (Inr x, s')"
    and "os_dials s = Inr p # ds" "tx (ps_conn p) = []" "\<forall>d. length (lib_sha256 lib d) = 32"
  shows "\<exists>i tid file_data f0 f1 f2 chunks f3 f4 known.
    fs_lookup path (ds_world (os_daemon s)) = Some file_data \<and> x = transfer_id_hex tid \<and>
    tx (ps_conn (hd (os_streams s'))) = f0 # f1 # f2 # chunks @ [f3, f4] \<and>
    carries_msg lib 0 (Hello V1_0 (DeviceId (ds_device_id (os_daemon s))) (cf_device_name (ds_config (os_daemon s))) Linux [] known) f0 \<and>
    carries_msg lib i (send_request tid (send_name path) (of_nat (length file_data)) (lib_sha256 lib file_data)) f1 \<and>
    carries_msg lib i (send_metadata tid (send_name path) (of_nat (length file_data)) (lib_sha256 lib file_data)) f2 \<and>
    frames_carry (lib_sha256 lib) 1 0 chunks file_data \<and>
    carries_msg lib i (TransferComplete tid) f3 \<and> carries_msg lib i (SessionClose (Some ''normal'')) f4"
proof -
  from assms(1) obtain i nm ex s1 where s1: "connect_to_peer lib target s = (Inr (i, nm, ex), s1)"
    by (auto simp: handle_outbound_send_def io_then_Inr)
  with assms(1) obtain sz s2 where s2: "ob_world (fs_file_size path) s1 = (Inr sz, s2)"
    by (auto simp: handle_outbound_send_def io_then_Inr)
  with assms(1) s1 obtain d s3 where s3: "ob_world (fs_read path) s2 = (Inr d, s3)"
    by (auto simp: handle_outbound_send_def io_then_Inr)
  obtain nanos s4 where s4: "ob_clock s3 = (nanos, s4)" by fastforce
  let ?tid = "new_transfer_id (lib_sha256 lib) (lib_sha256 lib d) nanos"
  have run: "ob_transfer lib i target progress ?tid (send_name path) sz d (lib_sha256 lib d) s4 = (Inr x, s')"
    using assms(1) s1 s2 s3 s4 by (simp add: handle_outbound_send_def Let_def)
  from connect_wrote [OF s1 assms(2,3)] obtain f0 known where
    f0: "carries_msg lib 0 (Hello V1_0 (DeviceId (ds_device_id (os_daemon s))) (cf_device_name (ds_config (os_daemon s))) Linux [] known) f0"
    and w1: "os_streams s1 \<noteq> []" "sent s1 = [f0]" "ds_world (os_daemon s1) = ds_world (os_daemon s)" by blast
  have "os_streams s2 = os_streams s1" "os_streams s3 = os_streams s2" "os_streams s4 = os_streams s3"
    using s2 s3 s4 by (auto simp: ob_world_def ob_clock_def split: prod.splits list.splits)
  then have st: "os_streams s4 = os_streams s1" by simp
  have "fs_lookup path (ds_world (os_daemon s2)) = Some d"
    using s3 by (auto simp: ob_world_def result_simps dest!: fs_read_effect(3) split: prod.splits)
  then have "fs_lookup path (ds_world (os_daemon s1)) = Some d \<and> sz = of_nat (length d)"
    using s2 by (auto simp: ob_world_def fs_file_size_def fault_cases result_simps split: prod.splits fault_splits if_splits)
  then have file_data: "fs_lookup path (ds_world (os_daemon s)) = Some d" "sz = of_nat (length d)" using w1(3) by simp_all
  have "os_streams s4 \<noteq> []" using st w1(1) by simp
  from ob_transfer_wrote [OF run this assms(4)] obtain f1 f2 chunks f3 f4 where x: "x = transfer_id_hex ?tid"
    and msgs: "carries_msg lib i (send_request ?tid (send_name path) sz (lib_sha256 lib d)) f1"
      "carries_msg lib i (send_metadata ?tid (send_name path) sz (lib_sha256 lib d)) f2"
      "frames_carry (lib_sha256 lib) 1 0 chunks d" "carries_msg lib i (TransferComplete ?tid) f3"
      "carries_msg lib i (SessionClose (Some ''normal'')) f4"
    and w: "wrote s4 (f1 # f2 # chunks @ [f3, f4]) s'" by blast
  have "tx (ps_conn (hd (os_streams s'))) = f0 # f1 # f2 # chunks @ [f3, f4]"
    using w st w1(2) by (simp add: wrote_def sent_def)
  then show ?thesis using file_data x f0 msgs by blast
qed

theorem outbound_send_transmits_witness:
  "\<exists>lib s x s' i tid f0 f1 f2 chunks f3 f4.
     handle_outbound_send lib (hex_encode (replicate 32 0)) [''d'', ''f''] False s = (Inr x, s') \<and>
     tx (ps_conn (hd (os_streams s'))) = f0 # f1 # f2 # chunks @ [f3, f4] \<and>
     carries_msg lib i (send_request tid ''f'' 1 (replicate 32 0)) f1 \<and> frames_carry (lib_sha256 lib) 1 0 chunks [5]"
proof -
  let ?tid = "TransferId (replicate 16 0)" and ?me = "DeviceId (replicate 32 1)"
  let ?lib = "\<lparr>lib_sha256 = (\<lambda>k. replicate 32 0), lib_from_reader = ref_from_reader, lib_into_writer = (\<lambda>_. Inr []),
    lib_to_vec = ref_to_vec, lib_from_str = (\<lambda>_. Inl (ResumeJson '''')), lib_canonicalize = (\<lambda>_ p. Inr p), lib_path_error = (\<lambda>_. ''bad''),
    ol_x509 = (\<lambda>_. Inr [2]), ol_export = (\<lambda>_ _. Inr []), ol_hex_decode = (\<lambda>_. Inl '''')\<rparr> :: out_lib"
  let ?dm = "daemon_state_new \<lparr>cf_device_name = ''n'', cf_receive_dir = [''d''], cf_receiving_enabled = True\<rparr> [''c'']
      \<lparr>db_rows = Some [], db_autoinc = 0, db_version = Some [1], db_faults = []\<rparr>
      \<lparr>files = [([''d'', ''f''], [5])], dirs = [], io_faults = []\<rparr> [''j''] (replicate 32 3) None"
  let ?h = "\<lparr>kind = Control, flags = FrameFlags 0, session_id = 7, stream_id = 0, message_id = 1, payload_len = 0\<rparr> :: FrameHeader"
  obtain b1 b2 b3 b4 b5 where enc:
    "encode_control ref_into_writer (HelloAck V1_0 ?me ''p'' Linux [] False 7) = Inr b1"
    "encode_control ref_into_writer (TransferAccept ?tid) = Inr b2"
    "encode_control ref_into_writer (FileMetadataAck ?tid 1 1 True) = Inr b3"
    "encode_control ref_into_writer (ChunkAck 1 1 0 1) = Inr b4"
    "encode_control ref_into_writer (TransferAck ?tid Success None) = Inr b5"
    by (simp add: write_eval encode_hello_ack_def encode_transfer_id_def encode_file_metadata_ack_def encode_chunk_ack_def
        encode_transfer_ack_def make_version_array_def limit_defs V1_0_def)
  have dec: "decode_control ref_from_reader b1 = Inr (HelloAck V1_0 ?me ''p'' Linux [] False 7)"
    "decode_control ref_from_reader b2 = Inr (TransferAccept ?tid)" "decode_control ref_from_reader b3 = Inr (FileMetadataAck ?tid 1 1 True)"
    "decode_control ref_from_reader b4 = Inr (ChunkAck 1 1 0 1)" "decode_control ref_from_reader b5 = Inr (TransferAck ?tid Success None)"
    using enc by (auto intro!: ref_cbor.decode_encode_wire simp: V1_0_def wf_device_id_def wf_transfer_id_def canonical_platform_def)
  let ?p = "\<lparr>ps_certs = Some [[1]], ps_conn = connection_new [Inr (?h, b1), Inr (?h, b2), Inr (?h, b3), Inr (?h, b4), Inr (?h, b5)] []\<rparr>"
  let ?s = "\<lparr>os_streams = [], os_dials = [Inr ?p], os_timely = [], os_clock = [], os_daemon = ?dm, os_events = []\<rparr>"
  have "\<exists>x s'. handle_outbound_send ?lib (hex_encode (replicate 32 0)) [''d'', ''f''] False ?s = (Inr x, s')"
    using dec
    by (simp add: handle_outbound_send_def connect_to_peer_def ob_dial_def check_target_def extract_spki_def device_id_from_cert_def
        sas_exporter_def ob_hello_def is_paired_def paired_lookup_def sql_on_rows_def rows_with_def daemon_state_new_def ob_send_def
        on_conn_def send_control_def encode_control_def send_frame_def framed_send_def connection_new_def ob_recv_within_def
        ob_recv_def recv_frame_def hello_answer_def is_supported_def V1_0_def ob_world_def fs_file_size_def fs_lookup_def fs_read_def
        ob_clock_def ob_transfer_def transfer_answer_def metadata_accepted_def ob_transmit_def send_file_def send_loop.simps
        wait_window_def drain_acks_def wait_acks.simps ack_turn_def send_one_def chunk_end_def CHUNK_DATA_SIZE_def MAX_IN_FLIGHT_def
        ob_send_args_def send_chunk_def ob_finish_def send_request_def send_metadata_def encode_transfer_request_def
        encode_manifest_entry_def limit_defs Let_def case_prod_beta)
  then obtain x s' where run: "handle_outbound_send ?lib (hex_encode (replicate 32 0)) [''d'', ''f''] False ?s = (Inr x, s')" by blast
  have name: "send_name [''d'', ''f''] = ''f''" by code_simp
  have look: "fs_lookup [''d'', ''f''] (ds_world (os_daemon ?s)) = Some [5]" by (simp add: daemon_state_new_def fs_lookup_def)
  from outbound_send_transmits [OF run, of ?p "[]"] obtain i tid f0 f1 f2 chunks f3 f4 where
    "tx (ps_conn (hd (os_streams s'))) = f0 # f1 # f2 # chunks @ [f3, f4]"
    "carries_msg ?lib i (send_request tid ''f'' 1 (replicate 32 0)) f1" "frames_carry (lib_sha256 ?lib) 1 0 chunks [5]"
    using name look by (simp add: connection_new_def) blast
  then show ?thesis using run by blast
qed

end
