(* ===== verification/Nxfr_Handler.thy ===== *)
theory Nxfr_Handler
  imports Nxfr_Ipc Nxfr_Incoming Nxfr_Identity
begin

text \<open>
  The responder side of a connection, \<open>handle_incoming\<close> of \<open>nxfr-daemon/src/handler.rs\<close>: identity
  check, HELLO exchange and the session loop with transfer requests, resume queries and pairing.

  The state threads the connection, the shared daemon state, the coming readings of the clocks and
  what the other tasks do at the points where this one waits: before each frame of the session loop
  and while it waits for consent. A transfer in progress is not interleaved. Parameters: the
  libraries of the receiver, the X.509 parser, the TLS key exporter, \<open>statvfs\<close>, \<open>hex::decode\<close>, the
  printer of the configuration.
\<close>

section \<open>State\<close>

record handler_lib = daemon_lib +
  hl_x509 :: "bytes \<Rightarrow> string + bytes"
  hl_export :: "string \<Rightarrow> bytes \<Rightarrow> string + bytes"
  hl_statvfs :: "world \<Rightarrow> abspath \<Rightarrow> string + (u64 \<times> u64)"
  hl_hex_decode :: "string \<Rightarrow> string + bytes"
  hl_to_toml :: "NxfrConfig \<Rightarrow> string + bytes"

datatype handler_error =
    HeText string
  | HeConn io_error
  | HeCodec CodecError
  | HeTransfer recv_error
  | HeUnexpected string ControlMessage

record handler_state =
  hs_conn :: NxfrConnection
  hs_daemon :: DaemonState
  hs_clock :: "nat list"
  hs_others :: "task_action list list"

text \<open>What the loop knows of the peer.\<close>

record session_ctx =
  sc_session_id :: u32
  sc_is_paired :: bool
  sc_peer_id_hex :: string
  sc_peer_name :: string
  sc_peer_certs :: "bytes list"

text \<open>The next reading of a clock (seconds or nanoseconds, as the caller reads it).\<close>

definition read_clock :: "handler_state \<Rightarrow> nat \<times> handler_state" where
  "read_clock s = (case hs_clock s of [] \<Rightarrow> (0, s) | t # ts \<Rightarrow> (t, s\<lparr>hs_clock := ts\<rparr>))"

text \<open>A point where this task waits: the others run.\<close>

definition let_others :: "(NxfrConfig \<Rightarrow> string + bytes) \<Rightarrow> nat \<Rightarrow> handler_state \<Rightarrow> handler_state" where
  "let_others to_toml now s =
     (case hs_others s of
        [] \<Rightarrow> s
      | acts # rest \<Rightarrow> s\<lparr>hs_daemon := run_tasks to_toml now acts (hs_daemon s), hs_others := rest\<rparr>)"

definition hd_send :: "handler_lib \<Rightarrow> u32 \<Rightarrow> ControlMessage \<Rightarrow> handler_state \<Rightarrow> (handler_error + unit) \<times> handler_state" where
  "hd_send lib session msg s =
     (case send_control (lib_into_writer lib) session 0 msg (hs_conn s) of
        (Inl e, c) \<Rightarrow> (Inl (HeConn e), s\<lparr>hs_conn := c\<rparr>)
      | (Inr _, c) \<Rightarrow> (Inr (), s\<lparr>hs_conn := c\<rparr>))"

definition hd_broadcast :: "IpcEvent \<Rightarrow> handler_state \<Rightarrow> handler_state" where
  "hd_broadcast event s = s\<lparr>hs_daemon := broadcast_to_watchers event (hs_daemon s)\<rparr>"

definition has_watchers :: "handler_state \<Rightarrow> bool" where
  "has_watchers s \<longleftrightarrow> ds_watchers (hs_daemon s) \<noteq> []"

text \<open>One message of the session loop: go on (also after \<open>continue\<close>), or leave it.\<close>

datatype hd_step =
    HdNext (hd_step_state: handler_state)
  | HdReturn "handler_error + unit" (hd_step_state: handler_state)

definition hd_next :: "(handler_error + unit) \<times> handler_state \<Rightarrow> hd_step" where
  "hd_next r = (case r of (Inl e, s) \<Rightarrow> HdReturn (Inl e) s | (Inr _, s) \<Rightarrow> HdNext s)"

section \<open>Consent\<close>

text \<open>Register an offer, tell the watchers, wait, remove the offer.\<close>

definition ask_consent :: "(NxfrConfig \<Rightarrow> string + bytes) \<Rightarrow> string \<Rightarrow> IpcEvent \<Rightarrow> nat \<Rightarrow> handler_state \<Rightarrow> consent \<times> handler_state" where
  "ask_consent to_toml offer_key event secs s =
     (case read_clock s of (now, s1) \<Rightarrow>
      case register_offer offer_key event (now + secs * 1000000000) (hs_daemon s1) of (ch, dm) \<Rightarrow>
        let s2 = let_others to_toml now (hd_broadcast event (s1\<lparr>hs_daemon := dm\<rparr>))
        in (consent_result ch (hs_daemon s2), s2\<lparr>hs_daemon := remove_offer offer_key (hs_daemon s2)\<rparr>))"

definition get_free_space :: "(world \<Rightarrow> abspath \<Rightarrow> string + (u64 \<times> u64)) \<Rightarrow> world \<Rightarrow> abspath \<Rightarrow> u64" where
  "get_free_space statvfs w path =
     (case statvfs w path of Inr (blocks_available, fragment_size) \<Rightarrow> blocks_available * fragment_size | Inl _ \<Rightarrow> - 1)"

definition transfer_type_name :: "TransferType \<Rightarrow> string" where
  "transfer_type_name t = (case t of Files \<Rightarrow> ''files'' | Directory \<Rightarrow> ''directory'')"

fun rejection_reason :: "consent \<Rightarrow> string option" where
  "rejection_reason (Answered True) = None"
| "rejection_reason (Answered False) = Some ''user_declined''"
| "rejection_reason ChannelLost = Some ''connection_lost''"
| "rejection_reason TimedOut = Some ''consent_timeout''"

text \<open>The policy for a transfer request: \<open>None\<close> to accept, or the reason to reject.\<close>

definition decide_transfer :: "handler_lib \<Rightarrow> session_ctx \<Rightarrow> TransferId \<Rightarrow> TransferType \<Rightarrow> string \<Rightarrow> u32 \<Rightarrow> u64 \<Rightarrow> handler_state
    \<Rightarrow> string option \<times> handler_state" where
  "decide_transfer lib c tid transfer_type display_name total_files total_size s =
     (case (if sc_is_paired c then should_auto_accept (sc_peer_id_hex c) (ds_db (hs_daemon s))
            else (False, ds_db (hs_daemon s))) of
        (auto_accept, db) \<Rightarrow>
          let s1 = s\<lparr>hs_daemon := (hs_daemon s)\<lparr>ds_db := db\<rparr>\<rparr>;
              rdir = cf_receive_dir (ds_config (hs_daemon s1))
          in if auto_accept then (None, s1)
             else if get_free_space (hl_statvfs lib) (ds_world (hs_daemon s1)) rdir < total_size then (Some ''disk_full'', s1)
             else if \<not> has_watchers s1 then (Some ''consent_required'', s1)
             else
               let tid_hex = transfer_id_hex tid;
                   offer_event = EvTransferOffer tid_hex (sc_peer_name c) (sc_peer_id_hex c) display_name
                     (transfer_type_name transfer_type) total_files total_size
               in case ask_consent (hl_to_toml lib) tid_hex offer_event 120 s1 of (consent, s2) \<Rightarrow>
                    let reason = rejection_reason consent
                    in (reason, hd_broadcast (EvTransferResolved tid_hex (reason = None) reason) s2))"

section \<open>Transfers\<close>

definition hd_inc_args :: "session_ctx \<Rightarrow> TransferId \<Rightarrow> string \<Rightarrow> ManifestEntry list \<Rightarrow> nat \<Rightarrow> DaemonState \<Rightarrow> inc_args" where
  "hd_inc_args c tid display_name manifest now dm =
     \<lparr>ia_session_id = sc_session_id c, ia_transfer_id = tid, ia_peer_id_hex = sc_peer_id_hex c,
      ia_display_name = display_name, ia_manifest = manifest,
      ia_receive_dir = cf_receive_dir (ds_config dm), ia_journal_dir = ds_journal_dir dm, ia_now = now\<rparr>"

definition hd_receive :: "handler_lib \<Rightarrow> session_ctx \<Rightarrow> TransferId \<Rightarrow> string \<Rightarrow> ManifestEntry list \<Rightarrow> handler_state
    \<Rightarrow> (handler_error + unit) \<times> handler_state" where
  "hd_receive lib c tid display_name manifest s =
     (case read_clock s of (now, s1) \<Rightarrow>
      case handle_incoming_transfer (daemon_lib.truncate lib) (hd_inc_args c tid display_name manifest now (hs_daemon s1))
             (hs_conn s1) (ds_world (hs_daemon s1)) of
        (r, ic) \<Rightarrow>
          (map_err HeTransfer r, s1\<lparr>hs_conn := ic_conn ic, hs_daemon := (hs_daemon s1)\<lparr>ds_world := ic_world ic\<rparr>\<rparr>))"

definition hd_transfer_request :: "handler_lib \<Rightarrow> session_ctx \<Rightarrow> TransferId \<Rightarrow> TransferType \<Rightarrow> string \<Rightarrow> u32 \<Rightarrow> u64
    \<Rightarrow> ManifestEntry list \<Rightarrow> handler_state \<Rightarrow> hd_step" where
  "hd_transfer_request lib c tid transfer_type display_name total_files total_size manifest s =
     (case decide_transfer lib c tid transfer_type display_name total_files total_size s of
        (Some reason, s1) \<Rightarrow> hd_next (hd_send lib (sc_session_id c) (TransferReject tid (Some reason)) s1)
      | (None, s1) \<Rightarrow>
          (case hd_send lib (sc_session_id c) (TransferAccept tid) s1 of
             (Inl _, s2) \<Rightarrow> HdNext s2
           | (Inr _, s2) \<Rightarrow> hd_next (hd_receive lib c tid display_name manifest s2)))"

section \<open>Resumption\<close>

definition not_resumable :: "TransferId \<Rightarrow> ControlMessage" where
  "not_resumable tid = ResumeStatus tid False None None"

definition resume_files :: "(u32 list) option \<Rightarrow> ResumeState \<Rightarrow> ResumeFileStatus list" where
  "resume_files file_ids rs =
     map (\<lambda>(fid, fs). \<lparr>rfs_file_id = fid, rfs_received_bytes = fst_received_bytes fs,
            rfs_received_ranges = fst_received_ranges fs, rfs_partial_sha256 = None\<rparr>)
       (filter (\<lambda>(fid, _). case file_ids of None \<Rightarrow> True | Some ids \<Rightarrow> fid \<in> set ids) (rs_files rs))"

definition hd_load_journal :: "handler_lib \<Rightarrow> TransferId \<Rightarrow> handler_state \<Rightarrow> (ResumeError + ResumeState option) \<times> handler_state" where
  "hd_load_journal lib tid s =
     (case journal_load (lib_from_str lib) (ds_journal_dir (hs_daemon s)) (transfer_id_hex tid) (ds_world (hs_daemon s)) of
        (r, w) \<Rightarrow> (r, s\<lparr>hs_daemon := (hs_daemon s)\<lparr>ds_world := w\<rparr>\<rparr>))"

definition resume_status :: "handler_lib \<Rightarrow> session_ctx \<Rightarrow> TransferId \<Rightarrow> (u32 list) option \<Rightarrow> handler_state
    \<Rightarrow> ControlMessage \<times> handler_state" where
  "resume_status lib c tid file_ids s =
     (case hd_load_journal lib tid s of
        (Inr (Some rs), s1) \<Rightarrow>
          if rs_peer_device_id rs \<noteq> sc_peer_id_hex c then (not_resumable tid, s1)
          else (case read_clock s1 of (now, s2) \<Rightarrow>
            if rs_expires_at rs < int now then (not_resumable tid, s2)
            else (ResumeStatus tid True (Some (resume_files file_ids rs)) (Some (word_of_int (rs_expires_at rs))), s2))
      | (_, s1) \<Rightarrow> (not_resumable tid, s1))"

definition resume_manifest :: "(string \<Rightarrow> string + bytes) \<Rightarrow> ResumeState \<Rightarrow> ManifestEntry list" where
  "resume_manifest hex_decode rs =
     map (\<lambda>m. \<lparr>me_file_id = rme_file_id m, me_relative_path = rme_relative_path m, me_size = Some (rme_size m),
         me_sha256 = (case hex_decode (rme_sha256 m) of Inr b \<Rightarrow> if length b = 32 then Some b else None | Inl _ \<Rightarrow> None),
         me_entry_type = File\<rparr>) (rs_manifest rs)"

definition hd_resume_query :: "handler_lib \<Rightarrow> session_ctx \<Rightarrow> TransferId \<Rightarrow> (u32 list) option \<Rightarrow> handler_state \<Rightarrow> hd_step" where
  "hd_resume_query lib c tid file_ids s =
     (case resume_status lib c tid file_ids s of (status, s1) \<Rightarrow>
      case hd_send lib (sc_session_id c) status s1 of
        (Inl e, s2) \<Rightarrow> HdReturn (Inl e) s2
      | (Inr _, s2) \<Rightarrow>
          (case status of
             ResumeStatus _ True _ _ \<Rightarrow>
               (case hd_load_journal lib tid s2 of
                  (Inr (Some rs), s3) \<Rightarrow>
                    hd_next (hd_receive lib c tid (rs_display_name rs) (resume_manifest (hl_hex_decode lib) rs) s3)
                | (_, s3) \<Rightarrow> HdNext s3)
           | _ \<Rightarrow> HdNext s2))"

section \<open>Pairing\<close>

text \<open>The authentication code, from the key exporter and both device ids; \<open>unwrap_or\<close> as in the code.\<close>

definition peer_cert_der :: "session_ctx \<Rightarrow> bytes" where
  "peer_cert_der c = (case sc_peer_certs c of [] \<Rightarrow> [] | cert # _ \<Rightarrow> cert)"

definition pairing_sas :: "handler_lib \<Rightarrow> session_ctx \<Rightarrow> bytes \<Rightarrow> handler_error + string" where
  "pairing_sas lib c device_id =
     (let peer_id = (case device_id_from_cert (hl_x509 lib) (lib_sha256 lib) (peer_cert_der c) of
              Inr i \<Rightarrow> i | Inl _ \<Rightarrow> replicate 32 0);
          sas_context = snd (derive_sas device_id peer_id (replicate 4 0))
      in and_then (map_err (\<lambda>e. HeText (''export_keying_material failed: '' @ e)) (hl_export lib ''NXFR-SAS-v0'' sas_context))
           (\<lambda>exporter_bytes. Inr (fst (derive_sas device_id peer_id exporter_bytes))))"

definition paired_record :: "handler_lib \<Rightarrow> session_ctx \<Rightarrow> nat \<Rightarrow> nat \<Rightarrow> PairedDevice" where
  "paired_record lib c first_seen last_seen =
     \<lparr>pd_device_id = sc_peer_id_hex c, pd_name = sc_peer_name c,
      pd_public_key_spki = (case extract_spki (hl_x509 lib) (peer_cert_der c) of Inr k \<Rightarrow> k | Inl _ \<Rightarrow> []),
      pd_first_seen = int first_seen, pd_last_seen = int last_seen,
      pd_trust_level = ''paired'', pd_auto_accept = ''prompt''\<rparr>"

text \<open>The peer's answer to our acceptance.\<close>

definition hd_pair_answer :: "handler_lib \<Rightarrow> session_ctx \<Rightarrow> ControlMessage \<Rightarrow> handler_state \<Rightarrow> handler_state" where
  "hd_pair_answer lib c msg s =
     (case msg of
        PairAccept \<Rightarrow>
          (case read_clock s of (t1, s1) \<Rightarrow>
           case read_clock s1 of (t2, s2) \<Rightarrow>
             let db = snd (insert_or_update (paired_record lib c t1 t2) (ds_db (hs_daemon s2)))
             in hd_broadcast (EvPairSuccess (sc_peer_id_hex c) (sc_peer_name c))
                  (s2\<lparr>hs_daemon := (hs_daemon s2)\<lparr>ds_db := db\<rparr>\<rparr>))
      | PairReject reason \<Rightarrow>
          hd_broadcast (EvPairFailed (case reason of Some r \<Rightarrow> r | None \<Rightarrow> ''peer_rejected'')) s
      | _ \<Rightarrow> s)"

definition hd_recv :: "handler_state \<Rightarrow> (handler_error + NxfrFrame) \<times> handler_state" where
  "hd_recv s = (case recv_frame (hs_conn s) of (r, c) \<Rightarrow> (map_err HeConn r, s\<lparr>hs_conn := c\<rparr>))"

definition hd_decode :: "handler_lib \<Rightarrow> bytes \<Rightarrow> handler_error + ControlMessage" where
  "hd_decode lib payload = map_err HeCodec (decode_control (lib_from_reader lib) payload)"

definition hd_pair_accept :: "handler_lib \<Rightarrow> session_ctx \<Rightarrow> handler_state \<Rightarrow> (handler_error + unit) \<times> handler_state" where
  "hd_pair_accept lib c s =
     io_then (hd_send lib (sc_session_id c) PairAccept s) (\<lambda>_ s.
     io_then (hd_recv s) (\<lambda>(_, payload) s.
     io_then (hd_decode lib payload, s) (\<lambda>msg s. (Inr (), hd_pair_answer lib c msg s))))"

definition hd_pair_decline :: "handler_lib \<Rightarrow> session_ctx \<Rightarrow> handler_state \<Rightarrow> (handler_error + unit) \<times> handler_state" where
  "hd_pair_decline lib c s =
     io_then (hd_send lib (sc_session_id c) (PairReject (Some ''user_declined'')) s) (\<lambda>_ s.
       (Inr (), hd_broadcast (EvPairFailed ''user_declined'') s))"

text \<open>With no watcher attached the request is accepted without asking.\<close>

definition hd_pair_request :: "handler_lib \<Rightarrow> session_ctx \<Rightarrow> string \<Rightarrow> handler_state \<Rightarrow> (handler_error + unit) \<times> handler_state" where
  "hd_pair_request lib c sas_method s =
     (if sas_method \<noteq> ''numeric-6'' \<and> sas_method \<noteq> ''sas-v0''
      then hd_send lib (sc_session_id c) (PairReject (Some ''unsupported_sas_method'')) s
      else io_then (pairing_sas lib c (ds_device_id (hs_daemon s)), s) (\<lambda>sas_code s.
        let sas_event = EvSasPrompt (sc_peer_name c) (sc_peer_id_hex c) sas_code;
            (accepted, s1) =
              (if has_watchers s
               then (case ask_consent (hl_to_toml lib) (''pair-'' @ sc_peer_id_hex c) sas_event 60 s of
                       (consent, s1) \<Rightarrow> (consent = Answered True, s1))
               else (True, s))
        in if accepted then hd_pair_accept lib c s1 else hd_pair_decline lib c s1))"

section \<open>The session loop\<close>

definition hd_message :: "handler_lib \<Rightarrow> session_ctx \<Rightarrow> ControlMessage \<Rightarrow> handler_state \<Rightarrow> hd_step" where
  "hd_message lib c msg s =
     (case msg of
        TransferRequest tid transfer_type display_name total_files total_size manifest \<Rightarrow>
          hd_transfer_request lib c tid transfer_type display_name total_files total_size manifest s
      | ResumeQuery tid file_ids \<Rightarrow> hd_resume_query lib c tid file_ids s
      | PairRequest sas_method \<Rightarrow> hd_next (hd_pair_request lib c sas_method s)
      | SessionClose _ \<Rightarrow>
          (case hd_send lib (sc_session_id c) (SessionClose (Some ''normal'')) s of (r, s') \<Rightarrow> HdReturn r s')
      | _ \<Rightarrow> HdNext s)"

definition pong_frame :: "session_ctx \<Rightarrow> bytes \<Rightarrow> NxfrFrame" where
  "pong_frame c payload =
     (\<lparr>kind = Keepalive, flags = flags_pong, session_id = sc_session_id c, stream_id = 0, message_id = 0,
       payload_len = of_nat (length payload)\<rparr>, payload)"

definition hd_keepalive :: "session_ctx \<Rightarrow> FrameHeader \<Rightarrow> bytes \<Rightarrow> handler_state \<Rightarrow> (handler_error + unit) \<times> handler_state" where
  "hd_keepalive c hdr payload s =
     (if is_pong (flags hdr) then (Inr (), s)
      else case send_raw (pong_frame c payload) (hs_conn s) of (r, cn) \<Rightarrow> (map_err HeConn r, s\<lparr>hs_conn := cn\<rparr>))"

definition hd_frame :: "handler_lib \<Rightarrow> session_ctx \<Rightarrow> NxfrFrame \<Rightarrow> handler_state \<Rightarrow> hd_step" where
  "hd_frame lib c frame s =
     (case frame of (hdr, payload) \<Rightarrow>
       (case kind hdr of
          Control \<Rightarrow>
            (case hd_decode lib payload of
               Inl e \<Rightarrow> HdReturn (Inl e) s
             | Inr msg \<Rightarrow> hd_message lib c msg s)
        | Keepalive \<Rightarrow> hd_next (hd_keepalive c hdr payload s)
        | Chunk \<Rightarrow> HdNext s))"

text \<open>No step adds frames to receive.\<close>

lemma rx_inc_loop: "inc_loop lib a s = (r, s') \<Longrightarrow> suffix (rx (ic_conn s')) (rx (ic_conn s))"
proof (induction lib a s rule: inc_loop.induct)
  case (1 lib a s)
  obtain q c where q: "recv_frame (ic_conn s) = (q, c)" by (cases "recv_frame (ic_conn s)")
  have c: "suffix (rx c) (rx (ic_conn s))" by (rule rx_recv_frame [OF q])
  show ?case
  proof (cases q)
    case (Inl e)
    then show ?thesis using "1.prems" q c by (auto simp: inc_loop.simps [of lib a s])
  next
    case (Inr frame)
    let ?r = "inc_frame lib a frame (s\<lparr>ic_conn := c\<rparr>)"
    have "suffix (rx (ic_conn (inc_step_state ?r))) (rx (ic_conn s))"
      using rx_inc_frame [of lib a frame "s\<lparr>ic_conn := c\<rparr>"] c by (auto intro: suffix_order.trans)
    then show ?thesis
      using "1.prems" "1.IH" q Inr
      by (cases ?r) (fastforce simp: inc_loop.simps [of lib a s] intro: suffix_order.trans)+
  qed
qed

lemma rx_incoming_transfer:
  "handle_incoming_transfer lib a conn w = (r, s') \<Longrightarrow> suffix (rx (ic_conn s')) (rx conn)"
  by (auto simp: handle_incoming_transfer_def Let_def dest: rx_inc_loop split: prod.splits)

definition rx_keeps :: "handler_state \<Rightarrow> handler_state \<Rightarrow> bool" where
  "rx_keeps s s' \<longleftrightarrow> suffix (rx (hs_conn s')) (rx (hs_conn s))"

lemma rx_keeps_refl [simp]: "rx_keeps s s" by (simp add: rx_keeps_def)

lemma rx_keeps_trans: "rx_keeps s t \<Longrightarrow> rx_keeps t u \<Longrightarrow> rx_keeps s u"
  unfolding rx_keeps_def by (rule suffix_order.trans)

lemma rx_keeps_conn: "hs_conn t = hs_conn s \<Longrightarrow> rx_keeps s t" by (simp add: rx_keeps_def)

lemma conn_read_clock [simp]: "hs_conn (snd (read_clock s)) = hs_conn s" "hs_daemon (snd (read_clock s)) = hs_daemon s"
  "hs_others (snd (read_clock s)) = hs_others s"
  by (simp_all add: read_clock_def split: list.splits)

lemma conn_let_others [simp]: "hs_conn (let_others tt now s) = hs_conn s"
  by (simp add: let_others_def split: list.splits)

lemma conn_broadcast [simp]: "hs_conn (hd_broadcast e s) = hs_conn s" by (simp add: hd_broadcast_def)

lemma conn_ask_consent [simp]: "hs_conn (snd (ask_consent tt k e n s)) = hs_conn s"
  by (simp add: ask_consent_def Let_def case_prod_beta)

lemma conn_load_journal [simp]: "hs_conn (snd (hd_load_journal lib tid s)) = hs_conn s"
  by (simp add: hd_load_journal_def case_prod_beta)

lemma conn_decide [simp]: "hs_conn (snd (decide_transfer lib c tid ty nm n sz s)) = hs_conn s"
  by (auto simp: decide_transfer_def Let_def case_prod_beta)

lemma conn_resume_status [simp]: "hs_conn (snd (resume_status lib c tid ids s)) = hs_conn s"
  using conn_load_journal [of lib tid s]
  by (auto simp: resume_status_def Let_def case_prod_beta simp del: conn_load_journal split: sum.splits option.splits)

lemma conn_pair_answer [simp]: "hs_conn (hd_pair_answer lib c msg s) = hs_conn s"
  by (cases msg) (auto simp: hd_pair_answer_def Let_def case_prod_beta)

lemma rx_send [simp]: "rx_keeps s (snd (hd_send lib i m s))"
  using rx_send_control [of "lib_into_writer lib" i 0 m "hs_conn s"]
  by (auto simp: hd_send_def rx_keeps_def simp del: rx_send_control split: prod.splits sum.splits)

lemma rx_receive [simp]: "rx_keeps s (snd (hd_receive lib c tid nm man s))"
  using rx_incoming_transfer [OF prod.collapse [symmetric], of "daemon_lib.truncate lib" _ "hs_conn (snd (read_clock s))"]
  by (simp add: hd_receive_def rx_keeps_def case_prod_beta)

lemma rx_hd_recv [simp]: "rx_keeps s (snd (hd_recv s))"
  using rx_recv_frame [OF prod.collapse [symmetric], of "hs_conn s"] by (simp add: hd_recv_def rx_keeps_def case_prod_beta)

lemma rx_keeps_then:
  assumes "rx_keeps s (snd m)" "\<And>x t. rx_keeps s t \<Longrightarrow> rx_keeps s (snd (f x t))"
  shows "rx_keeps s (snd (io_then m f))"
  using assms by (rule io_then_inv)

lemma step_next [simp]: "hd_step_state (hd_next m) = snd m"
  by (auto simp: hd_next_def split: prod.splits sum.splits)

lemma rx_pair_request: "rx_keeps s (snd (hd_pair_request lib c m s))"
proof -
  have acc: "rx_keeps s (snd (hd_pair_accept lib c t))" if "rx_keeps s t" for t
    unfolding hd_pair_accept_def
    by (intro rx_keeps_then)
      (auto intro!: rx_keeps_then intro: rx_keeps_trans [OF that] rx_keeps_trans [OF _ rx_hd_recv]
        rx_keeps_trans [OF _ rx_keeps_conn] split: prod.splits)
  have dec: "rx_keeps s (snd (hd_pair_decline lib c t))" if "rx_keeps s t" for t
    unfolding hd_pair_decline_def
    by (intro rx_keeps_then) (auto intro: rx_keeps_trans [OF that] rx_keeps_trans [OF _ rx_keeps_conn])
  have ask: "rx_keeps s (snd (ask_consent tt k e n t))" if "rx_keeps s t" for tt k e n t
    by (rule rx_keeps_trans [OF that rx_keeps_conn]) simp
  show ?thesis
    unfolding hd_pair_request_def
    by (auto simp: Let_def case_prod_beta intro!: rx_keeps_then acc dec ask)
qed

lemma rx_frame: "rx_keeps s (hd_step_state (hd_frame lib c f s))"
proof -
  have tr: "rx_keeps s (hd_step_state (hd_transfer_request lib c tid ty nm n sz man s))" for tid ty nm n sz man
  proof -
    obtain d t where d: "decide_transfer lib c tid ty nm n sz s = (d, t)" by (cases "decide_transfer lib c tid ty nm n sz s")
    have t: "rx_keeps s t" using conn_decide [of lib c tid ty nm n sz s] d by (simp add: rx_keeps_conn)
    show ?thesis
    proof (cases d)
      case None
      obtain r u where u: "hd_send lib (sc_session_id c) (TransferAccept tid) t = (r, u)" by fastforce
      have "rx_keeps s u" using rx_keeps_trans [OF t rx_send] u by (metis snd_conv)
      then show ?thesis
        using d u None rx_keeps_trans [OF _ rx_receive] by (auto simp: hd_transfer_request_def split: sum.splits)
    next
      case (Some x)
      then show ?thesis using d rx_keeps_trans [OF t rx_send] by (simp add: hd_transfer_request_def)
    qed
  qed
  have rq: "rx_keeps s (hd_step_state (hd_resume_query lib c tid ids s))" for tid ids
  proof -
    obtain m t where m: "resume_status lib c tid ids s = (m, t)" by fastforce
    have t: "rx_keeps s t" using conn_resume_status [of lib c tid ids s] m by (simp add: rx_keeps_conn)
    obtain r u where u: "hd_send lib (sc_session_id c) m t = (r, u)" by fastforce
    have ru: "rx_keeps s u" using rx_keeps_trans [OF t rx_send] u by (metis snd_conv)
    obtain j v where v: "hd_load_journal lib tid u = (j, v)" by fastforce
    have rv: "rx_keeps s v" using conn_load_journal [of lib tid u] v rx_keeps_trans [OF ru rx_keeps_conn] by simp
    show ?thesis
      using m u v ru rv rx_keeps_trans [OF rv rx_receive]
      by (auto simp: hd_resume_query_def split: sum.splits ControlMessage.splits bool.splits option.splits)
  qed
  have msg: "rx_keeps s (hd_step_state (hd_message lib c m s))" for m
    using tr rq rx_pair_request [of s lib c] rx_send [of s lib "sc_session_id c" "SessionClose (Some ''normal'')"]
    by (cases m) (auto simp: hd_message_def simp del: rx_send split: prod.splits)
  show ?thesis
    using msg
    by (auto simp: hd_frame_def hd_keepalive_def send_raw_def framed_send_def rx_keeps_def
        split: prod.splits FrameKind.splits sum.splits list.splits option.splits)
qed

lemma hd_turn_shorter:
  assumes "(Inr frame, cn) = recv_frame (hs_conn s)" "hd_frame lib c frame (s\<lparr>hs_conn := cn\<rparr>) = HdNext s'"
  shows "length (rx (hs_conn s')) < length (rx (hs_conn s))"
proof -
  have "length (rx (hs_conn s')) \<le> length (rx cn)"
    using rx_frame [of "s\<lparr>hs_conn := cn\<rparr>" lib c frame] assms(2) by (auto simp: rx_keeps_def dest: suffix_length_le)
  moreover have "length (rx cn) < length (rx (hs_conn s))"
    using assms(1) by (auto simp: recv_frame_def split: list.splits sum.splits)
  ultimately show ?thesis by simp
qed

text \<open>The session loop ends because every turn takes a frame; the end of the stream is a normal end.\<close>

function hd_loop :: "handler_lib \<Rightarrow> session_ctx \<Rightarrow> handler_state \<Rightarrow> (handler_error + unit) \<times> handler_state" where
  "hd_loop lib c s0 =
     (let s = let_others (hl_to_toml lib) 0 s0
      in case recv_frame (hs_conn s) of
           (Inl e, cn) \<Rightarrow> (if e = IoUnexpectedEof then Inr () else Inl (HeConn e), s\<lparr>hs_conn := cn\<rparr>)
         | (Inr frame, cn) \<Rightarrow>
             (case hd_frame lib c frame (s\<lparr>hs_conn := cn\<rparr>) of
                HdNext s' \<Rightarrow> hd_loop lib c s'
              | HdReturn r s' \<Rightarrow> (r, s')))"
  by pat_completeness auto
termination
  by (relation "measure (\<lambda>(lib, c, s). length (rx (hs_conn s)))") (use hd_turn_shorter in fastforce)+

declare hd_loop.simps [simp del]

section \<open>The connection\<close>

text \<open>
  The identity check: whether the peer is paired, or the connection is refused. A database error
  counts as not paired.
\<close>

definition hd_identity :: "handler_lib \<Rightarrow> string \<Rightarrow> bytes \<Rightarrow> handler_state \<Rightarrow> (handler_error + bool) \<times> handler_state" where
  "hd_identity lib peer_id_hex peer_spki s =
     (case verify_identity (extract_spki (hl_x509 lib)) peer_id_hex peer_spki (ds_db (hs_daemon s)) of (check, db) \<Rightarrow>
       let s1 = s\<lparr>hs_daemon := (hs_daemon s)\<lparr>ds_db := db\<rparr>\<rparr>
       in case check of
            Inr Matched \<Rightarrow>
              (case read_clock s1 of (now, s2) \<Rightarrow>
                (Inr True, s2\<lparr>hs_daemon := (hs_daemon s2)\<lparr>ds_db := snd (update_last_seen (int now) peer_id_hex (ds_db (hs_daemon s2)))\<rparr>\<rparr>))
          | Inr Changed \<Rightarrow>
              (Inl (HeText ''identity_changed: SPKI mismatch for known peer''),
               snd (hd_send lib 0 (Error EcIdentityChanged (Some ''SPKI does not match pinned identity'') True None) s1))
          | Inr Unknown \<Rightarrow> (Inr False, s1)
          | Inl _ \<Rightarrow> (Inr False, s1))"

definition version_display :: "ProtocolVersion \<Rightarrow> string" where
  "version_display v = dec_string (unat (major v)) @ CHR ''.'' # dec_string (unat (minor v))"

text \<open>The HELLO of the peer, within its deadline.\<close>

definition hd_hello :: "handler_lib \<Rightarrow> bool \<Rightarrow> handler_state \<Rightarrow> (handler_error + string) \<times> handler_state" where
  "hd_hello lib timely s =
     (if \<not> timely then (Inl (HeText ''HELLO exchange timed out (10s)''), s)
      else io_then (hd_recv s) (\<lambda>(hdr, payload) s.
        if kind hdr \<noteq> Control then (Inl (HeText ''expected CONTROL frame for HELLO''), s)
        else io_then (hd_decode lib payload, s) (\<lambda>msg s.
          case msg of
            Hello version _ device_name _ _ _ \<Rightarrow>
              if is_supported version then (Inr device_name, s)
              else io_then (hd_send lib 0 (Error EcUnsupportedVersion
                     (Some (''unsupported version '' @ version_display version)) True None) s)
                   (\<lambda>_ s. (Inl (HeText ''unsupported version''), s))
          | _ \<Rightarrow> (Inl (HeUnexpected ''expected HELLO, got '' msg), s))))"

definition hd_hello_ack :: "u32 \<Rightarrow> bool \<Rightarrow> DaemonState \<Rightarrow> ControlMessage" where
  "hd_hello_ack session known dm =
     HelloAck V1_0 (DeviceId (ds_device_id dm)) (cf_device_name (ds_config dm)) Linux [] known session"

definition hd_open_session :: "handler_lib \<Rightarrow> bytes list \<Rightarrow> string \<Rightarrow> bool \<Rightarrow> u32 \<Rightarrow> string \<Rightarrow> handler_state
    \<Rightarrow> (handler_error + session_ctx) \<times> handler_state" where
  "hd_open_session lib certs peer_id_hex known session peer_name s =
     io_then (hd_send lib session (hd_hello_ack session known (hs_daemon s)) s) (\<lambda>_ s.
       (Inr \<lparr>sc_session_id = session, sc_is_paired = known, sc_peer_id_hex = peer_id_hex,
             sc_peer_name = peer_name, sc_peer_certs = certs\<rparr>, s))"

text \<open>
  Everything before the loop. \<open>certs\<close> is what TLS knows of the peer's certificates, \<open>session\<close> the
  outcome of \<open>rand_session_id\<close>.
\<close>

definition hd_handshake :: "handler_lib \<Rightarrow> (bytes list) option \<Rightarrow> bool \<Rightarrow> u32 \<Rightarrow> handler_state
    \<Rightarrow> (handler_error + session_ctx) \<times> handler_state" where
  "hd_handshake lib certs timely session s =
     io_then (ok_or (HeText ''no peer certificates'') certs, s) (\<lambda>peer_certs s.
     io_then (case peer_certs of [] \<Rightarrow> Inl (HeText ''empty peer cert chain'') | cert # _ \<Rightarrow> Inr cert, s) (\<lambda>peer_cert s.
     io_then (map_err (\<lambda>e. HeText (''device_id extraction failed: '' @ e))
                (device_id_from_cert (hl_x509 lib) (lib_sha256 lib) peer_cert), s) (\<lambda>peer_id s.
     io_then (map_err (\<lambda>e. HeText (''SPKI extraction failed: '' @ e)) (extract_spki (hl_x509 lib) peer_cert), s) (\<lambda>peer_spki s.
     io_then (hd_identity lib (hex_encode peer_id) peer_spki s) (\<lambda>known s.
     io_then (hd_hello lib timely s) (\<lambda>peer_name s.
       hd_open_session lib peer_certs (hex_encode peer_id) known session peer_name s))))))"

definition handle_incoming :: "handler_lib \<Rightarrow> (bytes list) option \<Rightarrow> bool \<Rightarrow> u32 \<Rightarrow> handler_state
    \<Rightarrow> (handler_error + unit) \<times> handler_state" where
  "handle_incoming lib certs timely session s =
     (if \<not> cf_receiving_enabled (ds_config (hs_daemon s))
      then (Inr (), snd (hd_send lib 0 (SessionClose (Some ''receiving_disabled'')) s))
      else io_then (hd_handshake lib certs timely session s) (hd_loop lib))"

end
