(* ===== verification/Nxfr_Sessions.thy ===== *)
theory Nxfr_Sessions
  imports Nxfr_Handler
begin

text \<open>
  What a whole connection can do to the shared state of the daemon: the safety properties of
  \<open>handle_incoming\<close>, for any frames of the peer, any faults and any actions of the other tasks.
\<close>

section \<open>Channels\<close>

text \<open>The connection keeps the channels of the shared state in order.\<close>

lemma channels_ok_read_clock [simp]: "hs_daemon (snd (read_clock s)) = hs_daemon s" by simp

lemma daemon_send [simp]: "hs_daemon (snd (hd_send lib i m s)) = hs_daemon s"
  by (simp add: hd_send_def split: prod.splits sum.splits)

lemma others_send [simp]: "hs_others (snd (hd_send lib i m s)) = hs_others s"
  by (simp add: hd_send_def split: prod.splits sum.splits)

lemma daemon_recv [simp]: "hs_daemon (snd (hd_recv s)) = hs_daemon s"
  by (simp add: hd_recv_def case_prod_beta)

lemma daemon_keepalive [simp]: "hs_daemon (snd (hd_keepalive c h p s)) = hs_daemon s"
  by (simp add: hd_keepalive_def split: prod.splits)

lemma broadcast_fields [simp]:
  "ds_pending_offers (broadcast_to_watchers e dm) = ds_pending_offers dm"
  "ds_answers (broadcast_to_watchers e dm) = ds_answers dm" "ds_next_channel (broadcast_to_watchers e dm) = ds_next_channel dm"
  "ds_db (broadcast_to_watchers e dm) = ds_db dm" "ds_world (broadcast_to_watchers e dm) = ds_world dm"
  "ds_config (broadcast_to_watchers e dm) = ds_config dm" "ds_config_path (broadcast_to_watchers e dm) = ds_config_path dm"
  "ds_journal_dir (broadcast_to_watchers e dm) = ds_journal_dir dm"
  by (simp_all add: broadcast_to_watchers_def)

lemma daemon_then:
  assumes "hs_daemon (snd m) = dm" "\<And>x t. hs_daemon t = dm \<Longrightarrow> hs_daemon (snd (f x t)) = dm"
  shows "hs_daemon (snd (io_then m f)) = dm"
  using assms by (rule io_then_inv [where P = "\<lambda>s. hs_daemon s = dm"])

lemma daemon_hello [simp]: "hs_daemon (snd (hd_hello lib timely s)) = hs_daemon s"
proof -
  have "hs_daemon (snd (case msg of
            Hello version _ device_name _ _ _ \<Rightarrow>
              if is_supported version then (Inr device_name, t)
              else io_then (hd_send lib 0 (Error EcUnsupportedVersion
                     (Some (''unsupported version '' @ version_display version)) True None) t)
                   (\<lambda>_ s. (Inl (HeText ''unsupported version''), s))
          | _ \<Rightarrow> (Inl (HeUnexpected ''expected HELLO, got '' msg), t))) = hs_daemon t" for msg t
    by (cases msg) (auto intro: daemon_then)
  then show ?thesis by (auto simp: hd_hello_def intro!: daemon_then split: prod.splits)
qed

lemma daemon_open_session [simp]: "hs_daemon (snd (hd_open_session lib a k b i n s)) = hs_daemon s"
  unfolding hd_open_session_def by (intro daemon_then) auto

text \<open>
  A relation on the shared state that ignores watchers, follows from every action of another task, and
  is closed under the offers of this one, holds across the waits of a connection.
\<close>

locale daemon_relation =
  fixes to_toml :: "NxfrConfig \<Rightarrow> string + bytes" and R :: "DaemonState \<Rightarrow> DaemonState \<Rightarrow> bool"
  assumes refl: "R dm dm"
    and trans: "R dm dm1 \<Longrightarrow> R dm1 dm2 \<Longrightarrow> R dm dm2"
    and task: "R dm (task_step to_toml now act dm)"
    and broadcast: "R dm (broadcast_to_watchers e dm)"
begin

lemma tasks: "R dm (run_tasks to_toml now acts dm)"
proof (induction acts arbitrary: dm)
  case (Cons act acts)
  have "R (task_step to_toml now act dm) (fold (task_step to_toml now) acts (task_step to_toml now act dm))"
    using Cons by (simp add: run_tasks_def)
  then show ?case using trans [OF task] by (simp add: run_tasks_def)
qed (simp add: run_tasks_def refl)

lemma others: "R (hs_daemon s) (hs_daemon (let_others to_toml now s))"
  using tasks by (simp add: let_others_def refl split: list.splits)

lemma hd_broadcast: "R (hs_daemon s) (hs_daemon (hd_broadcast e s))"
  by (simp add: hd_broadcast_def broadcast)

lemma register: "R dm (snd (register_offer k ev t dm))"
  using task [of dm 0 "OtherOffer k ev t"] by simp

lemma remove: "R dm (remove_offer k dm)"
  using task [of dm 0 "OtherCleanup k"] by simp

lemma consent: "R (hs_daemon s) (hs_daemon (snd (ask_consent to_toml k ev n s)))"
proof -
  obtain now s1 where s1: "read_clock s = (now, s1)" by fastforce
  have s: "hs_daemon s1 = hs_daemon s" using conn_read_clock(2) [of s] s1 by simp
  obtain ch dm where dm: "register_offer k ev (now + n * 1000000000) (hs_daemon s1) = (ch, dm)" by fastforce
  let ?s2 = "hd_broadcast ev (s1\<lparr>hs_daemon := dm\<rparr>)"
  have "R (hs_daemon s1) dm" using register [of "hs_daemon s1"] dm by (metis snd_conv)
  moreover have "R dm (hs_daemon ?s2)" using hd_broadcast [of "s1\<lparr>hs_daemon := dm\<rparr>"] by simp
  ultimately have "R (hs_daemon s1) (hs_daemon ?s2)" by (rule trans)
  from trans [OF trans [OF this others [of ?s2 now]] remove [of _ k]] show ?thesis
    unfolding s using s1 dm by (simp add: ask_consent_def Let_def)
qed

end

section \<open>Turns\<close>

text \<open>The loop, started in \<open>s\<close>, handles the frame \<open>f\<close> in the state \<open>t\<close>.\<close>

inductive hd_turn :: "handler_lib \<Rightarrow> session_ctx \<Rightarrow> handler_state \<Rightarrow> NxfrFrame \<Rightarrow> handler_state \<Rightarrow> bool" for lib c where
  now: "recv_frame (hs_conn (let_others (hl_to_toml lib) 0 s)) = (Inr f, cn) \<Longrightarrow>
     t = (let_others (hl_to_toml lib) 0 s)\<lparr>hs_conn := cn\<rparr> \<Longrightarrow> hd_turn lib c s f t"
| later: "hd_turn lib c s f t \<Longrightarrow> hd_frame lib c f t = HdNext s1 \<Longrightarrow> hd_turn lib c s1 g u \<Longrightarrow> hd_turn lib c s g u"

definition control_frame :: "handler_lib \<Rightarrow> NxfrFrame \<Rightarrow> ControlMessage \<Rightarrow> bool" where
  "control_frame lib f msg \<longleftrightarrow> kind (fst f) = Control \<and> decode_control (lib_from_reader lib) (snd f) = Inr msg"

definition resumable :: "ControlMessage \<Rightarrow> bool" where
  "resumable msg \<longleftrightarrow> (\<exists>tid fs e. msg = ResumeStatus tid True fs e)"

text \<open>The two events of a session that touch more than the channels: files are received, a peer is pinned.\<close>

definition transfer_started :: "handler_lib \<Rightarrow> session_ctx \<Rightarrow> NxfrFrame \<Rightarrow> handler_state \<Rightarrow> bool" where
  "transfer_started lib c f t \<longleftrightarrow>
     (\<exists>tid ty nm n sz man. control_frame lib f (TransferRequest tid ty nm n sz man) \<and> fst (decide_transfer lib c tid ty nm n sz t) = None)
   \<or> (\<exists>tid ids. control_frame lib f (ResumeQuery tid ids) \<and> resumable (fst (resume_status lib c tid ids t)))"

text \<open>
  A turn that pairs: the peer asks for a supported method and its next message is its acceptance; the short
  authentication string is derived, our acceptance is sent, and, if the daemon is watched, the watchers were
  shown that string and one of them confirmed it.
\<close>

definition pairing_done :: "handler_lib \<Rightarrow> session_ctx \<Rightarrow> NxfrFrame \<Rightarrow> handler_state \<Rightarrow> bool" where
  "pairing_done lib c f t \<longleftrightarrow>
     (\<exists>m hdr payload rest sas. control_frame lib f (PairRequest m) \<and> m \<in> {''numeric-6'', ''sas-v0''} \<and>
        rx (hs_conn t) = Inr (hdr, payload) # rest \<and> decode_control (lib_from_reader lib) payload = Inr PairAccept \<and>
        pairing_sas lib c (ds_device_id (hs_daemon t)) = Inr sas \<and>
        (\<exists>n cn. send_control (lib_into_writer lib) (sc_session_id c) 0 PairAccept (hs_conn t) = (Inr n, cn)) \<and>
        (has_watchers t \<longrightarrow>
           fst (ask_consent (hl_to_toml lib) (''pair-'' @ sc_peer_id_hex c) (EvSasPrompt (sc_peer_name c) (sc_peer_id_hex c) sas) 60 t) = Answered True))"

text \<open>
  A relation that holds across everything a session does, except possibly a transfer (\<open>A\<close>) and a
  pairing (\<open>B\<close>), holds across the session unless one of those happened.
\<close>

locale session_relation = daemon_relation "hl_to_toml lib" R for lib :: handler_lib and R +
  fixes c :: session_ctx and A B :: bool
  assumes lookup: "R dm (dm\<lparr>ds_db := snd (paired_lookup k (ds_db dm))\<rparr>)"
    and seen: "R dm (dm\<lparr>ds_db := snd (update_last_seen now k (ds_db dm))\<rparr>)"
    and load: "R dm (dm\<lparr>ds_world := snd (journal_load (lib_from_str lib) d k (ds_world dm))\<rparr>)"
    and receive: "\<not> A \<Longrightarrow> R (hs_daemon s) (hs_daemon (snd (hd_receive lib c tid nm man s)))"
    and pin: "\<not> B \<Longrightarrow> R dm (dm\<lparr>ds_db := snd (insert_or_update (paired_record lib c t1 t2) (ds_db dm))\<rparr>)"
begin

lemma decide: "R (hs_daemon s) (hs_daemon (snd (decide_transfer lib c tid ty nm n sz s)))"
proof -
  have auto: "R dm (dm\<lparr>ds_db := snd (should_auto_accept k (ds_db dm))\<rparr>)" for dm k
    using lookup [of dm k] by (auto simp: should_auto_accept_def split: prod.splits sum.splits option.splits)
  define db where "db = snd (if sc_is_paired c then should_auto_accept (sc_peer_id_hex c) (ds_db (hs_daemon s)) else (False, ds_db (hs_daemon s)))"
  let ?s = "s\<lparr>hs_daemon := (hs_daemon s)\<lparr>ds_db := db\<rparr>\<rparr>"
  have db: "R (hs_daemon s) (hs_daemon ?s)" using auto by (auto simp: db_def refl)
  have "R (hs_daemon s) (hs_daemon (hd_broadcast e (snd (ask_consent (hl_to_toml lib) k ev m ?s))))" for e k ev m
    using trans [OF db trans [OF consent hd_broadcast]] .
  then show ?thesis
    using db by (auto simp: decide_transfer_def Let_def case_prod_beta db_def)
qed

lemma load_journal: "R (hs_daemon s) (hs_daemon (snd (hd_load_journal lib tid s)))"
  using load [of "hs_daemon s"] by (simp add: hd_load_journal_def case_prod_beta)

lemma status: "R (hs_daemon s) (hs_daemon (snd (resume_status lib c tid ids s)))"
  using load_journal [of s tid]
  by (auto simp: resume_status_def Let_def case_prod_beta split: sum.splits option.splits)

lemma pair_answer:
  assumes "msg = PairAccept \<longrightarrow> \<not> B"
  shows "R (hs_daemon s) (hs_daemon (hd_pair_answer lib c msg s))"
proof (cases "msg = PairAccept")
  case True
  then show ?thesis
    using pin assms trans [OF pin broadcast] by (simp add: hd_pair_answer_def Let_def case_prod_beta hd_broadcast_def)
qed (cases msg; simp add: hd_pair_answer_def refl hd_broadcast)

lemma transfer_request:
  assumes "fst (decide_transfer lib c tid ty nm n sz s) \<noteq> None \<or> \<not> A"
  shows "R (hs_daemon s) (hs_daemon (hd_step_state (hd_transfer_request lib c tid ty nm n sz man s)))"
proof -
  obtain d t where d: "decide_transfer lib c tid ty nm n sz s = (d, t)" by fastforce
  have t: "R (hs_daemon s) (hs_daemon t)" using decide [of s tid ty nm n sz] d by simp
  obtain r u where u: "hd_send lib (sc_session_id c) (TransferAccept tid) t = (r, u)" by fastforce
  have "hs_daemon u = hs_daemon t" using daemon_send [of lib "sc_session_id c" "TransferAccept tid" t] u by simp
  then show ?thesis
    using assms d t u trans [OF t] receive
    by (auto simp: hd_transfer_request_def split: option.splits sum.splits) (metis trans)
qed

lemma resume_query:
  assumes "\<not> resumable (fst (resume_status lib c tid ids s)) \<or> \<not> A"
  shows "R (hs_daemon s) (hs_daemon (hd_step_state (hd_resume_query lib c tid ids s)))"
proof -
  obtain m t where m: "resume_status lib c tid ids s = (m, t)" by fastforce
  obtain r u where u: "hd_send lib (sc_session_id c) m t = (r, u)" by fastforce
  have ru: "R (hs_daemon s) (hs_daemon u)"
    using daemon_send [of lib "sc_session_id c" m t] u m status [of s tid ids] by simp
  obtain j v where v: "hd_load_journal lib tid u = (j, v)" by fastforce
  have rv: "R (hs_daemon s) (hs_daemon v)" using trans [OF ru load_journal [of u tid]] v by simp
  show ?thesis
    using m u v ru rv assms trans [OF rv receive]
    by (auto simp: hd_resume_query_def resumable_def split: sum.splits ControlMessage.splits bool.splits option.splits)
qed

lemma pair_request:
  assumes "\<not> B \<or> \<not> pairing_done lib c f s" "control_frame lib f (PairRequest m)"
  shows "R (hs_daemon s) (hs_daemon (snd (hd_pair_request lib c m s)))"
proof -
  have acc: "R (hs_daemon s) (hs_daemon (snd (hd_pair_accept lib c t)))"
    if t: "R (hs_daemon s) (hs_daemon t)" "hs_conn t = hs_conn s"
      and no: "\<And>h p rest n cn. rx (hs_conn s) = Inr (h, p) # rest \<Longrightarrow> decode_control (lib_from_reader lib) p = Inr PairAccept \<Longrightarrow>
        send_control (lib_into_writer lib) (sc_session_id c) 0 PairAccept (hs_conn s) = (Inr n, cn) \<Longrightarrow> \<not> B" for t
  proof -
    obtain r u where u: "hd_send lib (sc_session_id c) PairAccept t = (r, u)" by fastforce
    obtain q v where v: "hd_recv u = (q, v)" by fastforce
    have dm: "hs_daemon u = hs_daemon t" "hs_daemon v = hs_daemon t"
      using daemon_send [of lib "sc_session_id c" PairAccept t] u daemon_recv [of u] v by simp_all
    have rx: "rx (hs_conn u) = rx (hs_conn s)"
      using rx_send_control [of "lib_into_writer lib" "sc_session_id c" 0 PairAccept "hs_conn t"] u t(2)
      by (auto simp: hd_send_def simp del: rx_send_control split: prod.splits sum.splits)
    have ans: "R (hs_daemon v) (hs_daemon (hd_pair_answer lib c msg v))"
      if "q = Inr (h, p)" "hd_decode lib p = Inr msg" "r = Inr x" for h p msg x
    proof (rule pair_answer, rule impI)
      assume "msg = PairAccept"
      moreover have "\<exists>rest. rx (hs_conn s) = Inr (h, p) # rest"
        using v that(1) rx by (auto simp: hd_recv_def recv_frame_def split: prod.splits list.splits sum.splits)
      moreover have "\<exists>n cn. send_control (lib_into_writer lib) (sc_session_id c) 0 PairAccept (hs_conn s) = (Inr n, cn)"
        using u that(3) t(2) by (auto simp: hd_send_def split: prod.splits sum.splits)
      ultimately show "\<not> B" using no that(2) by (clarsimp simp: hd_decode_def result_simps) blast
    qed
    show ?thesis
    proof (cases r)
      case (Inr x)
      show ?thesis
      proof (cases q)
        case (Inr fr)
        then obtain h p where "q = Inr (h, p)" by (cases fr) auto
        then show ?thesis
          using \<open>r = Inr x\<close> u v dm t(1) trans [OF t(1)] ans
          by (cases "hd_decode lib p") (auto simp: hd_pair_accept_def)
      qed (use u v dm t(1) Inr in \<open>simp add: hd_pair_accept_def\<close>)
    qed (use u dm t(1) in \<open>simp add: hd_pair_accept_def\<close>)
  qed
  have dec: "R (hs_daemon s) (hs_daemon (snd (hd_pair_decline lib c t)))" if "R (hs_daemon s) (hs_daemon t)" for t
  proof -
    obtain r u where u: "hd_send lib (sc_session_id c) (PairReject (Some ''user_declined'')) t = (r, u)" by fastforce
    have "hs_daemon u = hs_daemon t" using daemon_send [of lib "sc_session_id c" "PairReject (Some ''user_declined'')" t] u by simp
    then show ?thesis
      using u that hd_broadcast [of u] trans [OF that, of "hs_daemon (hd_broadcast (EvPairFailed ''user_declined'') u)"]
      by (cases r) (simp_all add: hd_pair_decline_def)
  qed
  show ?thesis
  proof (cases "m \<in> {''numeric-6'', ''sas-v0''}")
    case False
    then show ?thesis by (auto simp: hd_pair_request_def refl)
  next
    case True
    show ?thesis
    proof (cases "pairing_sas lib c (ds_device_id (hs_daemon s))")
      case (Inl e)
      then show ?thesis using True by (auto simp: hd_pair_request_def refl)
    next
      case (Inr sas)
      let ?ask = "ask_consent (hl_to_toml lib) (''pair-'' @ sc_peer_id_hex c) (EvSasPrompt (sc_peer_name c) (sc_peer_id_hex c) sas) 60 s"
      have no: "\<not> B" if "has_watchers s \<longrightarrow> fst ?ask = Answered True"
        "rx (hs_conn s) = Inr (h, p) # rest" "decode_control (lib_from_reader lib) p = Inr PairAccept"
        "send_control (lib_into_writer lib) (sc_session_id c) 0 PairAccept (hs_conn s) = (Inr n, cn)" for h p rest n cn
        using assms True that Inr unfolding pairing_done_def by blast
      show ?thesis
        using True Inr acc [of s] acc [of "snd ?ask"] dec [of "snd ?ask"] consent [of s] no refl
        by (auto simp: hd_pair_request_def Let_def case_prod_beta)
    qed
  qed
qed

lemma step:
  assumes "\<not> A \<or> \<not> transfer_started lib c f t" "\<not> B \<or> \<not> pairing_done lib c f t"
  shows "R (hs_daemon t) (hs_daemon (hd_step_state (hd_frame lib c f t)))"
proof -
  have msg: "R (hs_daemon t) (hs_daemon (hd_step_state (hd_message lib c m t)))" if m: "control_frame lib f m" for m
  proof (cases m)
    case (TransferRequest tid ty nm n sz man)
    have "control_frame lib f (TransferRequest tid ty nm n sz man)" using TransferRequest m by simp
    then have "fst (decide_transfer lib c tid ty nm n sz t) \<noteq> None \<or> \<not> A"
      using assms(1) unfolding transfer_started_def by metis
    from transfer_request [OF this] show ?thesis using TransferRequest by (simp add: hd_message_def)
  next
    case (ResumeQuery tid ids)
    then show ?thesis
      using resume_query [of tid ids t] assms(1) m by (auto simp: hd_message_def transfer_started_def)
  next
    case (PairRequest sm)
    then show ?thesis using pair_request [OF assms(2)] m by (simp add: hd_message_def)
  next
    case (SessionClose reason)
    have "hs_daemon (hd_step_state (hd_message lib c m t)) = hs_daemon t"
      using SessionClose by (simp add: hd_message_def case_prod_beta)
    then show ?thesis by (simp add: refl)
  qed (simp_all add: hd_message_def refl)
  show ?thesis
    using msg
    by (auto simp: hd_frame_def hd_decode_def control_frame_def result_simps refl
        split: prod.splits FrameKind.splits sum.splits)
qed

lemma turn: "hd_turn lib c s f t \<Longrightarrow> \<not> A \<Longrightarrow> \<not> B \<Longrightarrow> R (hs_daemon s) (hs_daemon t)"
proof (induction rule: hd_turn.induct)
  case (now s f cn t)
  then show ?case using others [of s 0] by simp
next
  case (later s f t s1 g u)
  have "R (hs_daemon t) (hs_daemon s1)" using step [of f t] later by simp
  then show ?case using later trans by blast
qed

text \<open>The whole loop.\<close>

lemma loop:
  "hd_loop lib c s = (r, s') \<Longrightarrow> R (hs_daemon s) (hs_daemon s')
     \<or> (\<exists>f t. hd_turn lib c s f t \<and> (A \<and> transfer_started lib c f t \<or> B \<and> pairing_done lib c f t))"
proof (induction "length (rx (hs_conn s))" arbitrary: s rule: less_induct)
  case less
  let ?s = "let_others (hl_to_toml lib) 0 s"
  have others: "R (hs_daemon s) (hs_daemon ?s)" by (rule others)
  obtain q cn where q: "recv_frame (hs_conn ?s) = (q, cn)" by fastforce
  show ?case
  proof (cases q)
    case (Inl e)
    then show ?thesis using less.prems q others by (auto simp: hd_loop.simps [of lib c s])
  next
    case (Inr f)
    let ?t = "?s\<lparr>hs_conn := cn\<rparr>"
    have turn: "hd_turn lib c s f ?t" using q Inr by (auto intro: hd_turn.now)
    show ?thesis
    proof (cases "(\<not> A \<or> \<not> transfer_started lib c f ?t) \<and> (\<not> B \<or> \<not> pairing_done lib c f ?t)")
      case False
      then show ?thesis using turn by blast
    next
      case True
      then have step_R: "R (hs_daemon s) (hs_daemon (hd_step_state (hd_frame lib c f ?t)))"
        using trans [OF others, of "hs_daemon (hd_step_state (hd_frame lib c f ?t))"] step [of f ?t] by simp
      show ?thesis
      proof (cases "hd_frame lib c f ?t")
        case (HdNext s1)
        have "length (rx (hs_conn s1)) < length (rx (hs_conn s))"
          using hd_turn_shorter [of f cn ?s lib c s1] q Inr HdNext by simp
        moreover have "hd_loop lib c s1 = (r, s')" using less.prems q Inr HdNext by (simp add: hd_loop.simps [of lib c s])
        ultimately show ?thesis
          using less.hyps step_R HdNext trans hd_turn.later [OF turn HdNext] by (metis hd_step.sel(1))
      next
        case (HdReturn r1 s1)
        then show ?thesis using step_R less.prems q Inr by (simp add: hd_loop.simps [of lib c s])
      qed
    qed
  qed
qed

text \<open>The handshake only reads the pins and records when the peer was seen.\<close>

lemma identity: "R (hs_daemon s) (hs_daemon (snd (hd_identity lib k key s)))"
proof -
  obtain q db where q: "verify_identity (extract_spki (hl_x509 lib)) k key (ds_db (hs_daemon s)) = (q, db)" by fastforce
  have "R dm (dm\<lparr>ds_db := snd (verify_identity x k key (ds_db dm))\<rparr>)" for dm x
    using lookup [of dm k] by (auto simp: verify_identity_def Let_def split: prod.splits sum.splits option.splits)
  then have db: "R (hs_daemon s) ((hs_daemon s)\<lparr>ds_db := db\<rparr>)" using q by (metis snd_conv)
  have "R (hs_daemon s) ((hs_daemon s)\<lparr>ds_db := snd (update_last_seen now k db)\<rparr>)" for now
    using trans [OF db seen [of "(hs_daemon s)\<lparr>ds_db := db\<rparr>" now k]] by simp
  then show ?thesis
    using q db by (simp add: hd_identity_def Let_def case_prod_beta split: sum.splits IdentityCheck.splits)
qed

lemma handshake: "R (hs_daemon s) (hs_daemon (snd (hd_handshake lib certs timely session s)))"
proof -
  show ?thesis
    unfolding hd_handshake_def
    by (intro io_then_inv [where P = "\<lambda>t. R (hs_daemon s) (hs_daemon t)"]) (auto simp: refl intro: trans [OF _ identity])
qed

text \<open>The whole connection.\<close>

lemma connection:
  assumes "handle_incoming lib certs timely session s = (r, s')" "hd_handshake lib certs timely session s = (Inr c, s0)"
  shows "R (hs_daemon s) (hs_daemon s') \<or>
    (\<exists>f t. hd_turn lib c s0 f t \<and> (A \<and> transfer_started lib c f t \<or> B \<and> pairing_done lib c f t))"
proof (cases "cf_receiving_enabled (ds_config (hs_daemon s))")
  case True
  then have "hd_loop lib c s0 = (r, s')" using assms by (simp add: handle_incoming_def)
  moreover have "R (hs_daemon s) (hs_daemon s0)" using handshake [of s certs timely session] assms(2) by simp
  ultimately show ?thesis using loop [of s0 r s'] trans by blast
next
  case False
  then have "hs_daemon s' = hs_daemon s"
    using assms(1) daemon_send [of lib 0 "SessionClose (Some ''receiving_disabled'')" s] by (auto simp: handle_incoming_def)
  then show ?thesis by (simp add: refl)
qed

end

lemma connection_refused:
  assumes "handle_incoming lib certs timely session s = (r, s')" "\<nexists>c s0. hd_handshake lib certs timely session s = (Inr c, s0)"
  shows "hs_daemon s' = hs_daemon s \<or> hs_daemon s' = hs_daemon (snd (hd_handshake lib certs timely session s))"
proof (cases "hd_handshake lib certs timely session s")
  case (Pair q s1)
  then show ?thesis
    using assms daemon_send [of lib 0 "SessionClose (Some ''receiving_disabled'')" s]
    by (cases q) (auto simp: handle_incoming_def simp del: daemon_send split: if_splits)
qed

lemma handshake_peer:
  assumes "hd_handshake lib certs timely session s = (Inr c, s0)"
  obtains cert rest spki where "certs = Some (cert # rest)" "extract_spki (hl_x509 lib) cert = Inr spki"
    "sc_peer_id_hex c = hex_encode (lib_sha256 lib spki)" "sc_peer_certs c = cert # rest"
proof -
  from assms obtain cert rest where certs: "certs = Some (cert # rest)"
    by (cases certs) (auto simp: hd_handshake_def split: list.splits)
  from assms certs obtain spki where spki: "extract_spki (hl_x509 lib) cert = Inr spki"
    by (cases "extract_spki (hl_x509 lib) cert") (auto simp: hd_handshake_def device_id_from_cert_def)
  with assms certs have "sc_peer_id_hex c = hex_encode (lib_sha256 lib spki)" "sc_peer_certs c = cert # rest"
    by (auto simp: hd_handshake_def device_id_from_cert_def hd_open_session_def io_then_Inr)
  then show thesis using that certs spki by blast
qed

end
