(* ===== verification/Nxfr_Connection.thy ===== *)
theory Nxfr_Connection
  imports Nxfr_Sessions
begin

text \<open>
  The safety of \<open>handle_incoming\<close>: which files a connection can change and on whose word, and which
  devices it can pin.
\<close>

section \<open>Files\<close>

text \<open>No file but the configuration changes.\<close>

definition same_files :: "DaemonState \<Rightarrow> DaemonState \<Rightarrow> bool" where
  "same_files dm dm' \<longleftrightarrow> ds_config_path dm' = ds_config_path dm \<and>
     (\<forall>q. q \<noteq> ds_config_path dm \<longrightarrow> fs_lookup q (ds_world dm') = fs_lookup q (ds_world dm))"

lemma fs_write_other: "fs_write p b w = (r, w') \<Longrightarrow> q \<noteq> p \<Longrightarrow> fs_lookup q w' = fs_lookup q w"
proof -
  assume w: "fs_write p b w = (r, w')" and q: "q \<noteq> p"
  obtain r1 w1 where w1: "fs_create p w = (r1, w1)" by fastforce
  have "fs_lookup q w1 = fs_lookup q w" using fs_create_effect(1) [OF w1] q by (cases r1) auto
  then show ?thesis using w w1 q fs_write_all_effect(2) by (cases r1) (fastforce simp: fs_write_def)+
qed

lemma config_save_other:
  assumes "config_save_to tt cfg p w = (r, w')" "q \<noteq> p"
  shows "fs_lookup q w' = fs_lookup q w"
proof -
  define m where "m = (case path_parent p of None \<Rightarrow> (Inr (), w) | Some parent \<Rightarrow> io_map_err ConfigIo (fs_create_dir_all parent w))"
  obtain r1 w1 where m: "m = (r1, w1)" by fastforce
  have w1: "fs_lookup q w1 = fs_lookup q w"
    using m fs_create_dir_all_effect [OF prod.collapse [symmetric]]
    by (auto simp: m_def io_map_err_def split: option.splits)
  show ?thesis
    using assms m w1 fs_write_other [OF prod.collapse [symmetric]]
    by (cases r1; cases "tt cfg") (auto simp: config_save_to_def m_def [symmetric] io_map_err_def)
qed

lemma set_receiving_effect:
  "ds_config_path (snd (cmd_set_receiving tt req dm)) = ds_config_path dm"
  "ds_journal_dir (snd (cmd_set_receiving tt req dm)) = ds_journal_dir dm"
  "ds_db (snd (cmd_set_receiving tt req dm)) = ds_db dm"
  "cf_receive_dir (ds_config (snd (cmd_set_receiving tt req dm))) = cf_receive_dir (ds_config dm)"
  "q \<noteq> ds_config_path dm \<Longrightarrow> fs_lookup q (ds_world (snd (cmd_set_receiving tt req dm))) = fs_lookup q (ds_world dm)"
  using config_save_other [OF prod.collapse [symmetric]]
  by (auto simp: cmd_set_receiving_def set_receiving_commit_def Let_def split: option.splits prod.splits sum.splits)

lemma other_commands_effect [simp]:
  "ds_world (snd (cmd_status dm)) = ds_world dm" "ds_world (snd (cmd_devices now dm)) = ds_world dm"
  "ds_world (snd (cmd_unpair req dm)) = ds_world dm" "ds_world (snd (cmd_transfer_confirm req dm)) = ds_world dm"
  "ds_config (snd (cmd_status dm)) = ds_config dm" "ds_config (snd (cmd_devices now dm)) = ds_config dm"
  "ds_config (snd (cmd_unpair req dm)) = ds_config dm" "ds_config (snd (cmd_transfer_confirm req dm)) = ds_config dm"
  "ds_config_path (snd (cmd_status dm)) = ds_config_path dm" "ds_config_path (snd (cmd_devices now dm)) = ds_config_path dm"
  "ds_config_path (snd (cmd_unpair req dm)) = ds_config_path dm" "ds_config_path (snd (cmd_transfer_confirm req dm)) = ds_config_path dm"
  "ds_journal_dir (snd (cmd_status dm)) = ds_journal_dir dm" "ds_journal_dir (snd (cmd_devices now dm)) = ds_journal_dir dm"
  "ds_journal_dir (snd (cmd_unpair req dm)) = ds_journal_dir dm" "ds_journal_dir (snd (cmd_transfer_confirm req dm)) = ds_journal_dir dm"
  by (simp_all add: cmd_status_def cmd_devices_def cmd_unpair_def confirm_state take_offer_def Let_def
      split: option.splits prod.splits sum.splits)

text \<open>The data a task can change without being \<open>set_receiving\<close> or \<open>unpair\<close>.\<close>

definition same_base :: "DaemonState \<Rightarrow> DaemonState \<Rightarrow> bool" where
  "same_base dm dm' \<longleftrightarrow> ds_world dm' = ds_world dm \<and> ds_config dm' = ds_config dm \<and>
     ds_config_path dm' = ds_config_path dm \<and> ds_journal_dir dm' = ds_journal_dir dm"

lemma expire_base: "same_base dm (expire_offers t dm)" "ds_db (expire_offers t dm) = ds_db dm"
proof -
  have one: "same_base dm (expire_one k dm) \<and> ds_db (expire_one k dm) = ds_db dm" for k dm
    by (simp add: remove_offer_def Let_def same_base_def split: option.splits)
  have "same_base dm (fold expire_one ks dm) \<and> ds_db (fold expire_one ks dm) = ds_db dm" for ks dm
  proof (induction ks arbitrary: dm)
    case (Cons k ks)
    from Cons.IH [of "expire_one k dm"] one [of dm k] show ?case
      unfolding fold_simps by (simp add: same_base_def del: expire_one.simps)
  qed (simp add: same_base_def)
  then show "same_base dm (expire_offers t dm)" "ds_db (expire_offers t dm) = ds_db dm"
    by (simp_all only: expire_offers_def Let_def)
qed

lemma task_base:
  "same_base dm (task_step tt now act dm) \<or>
     (\<exists>req. act = IpcCommand req \<and> task_step tt now act dm = snd (cmd_set_receiving tt req dm))"
  by (cases act)
    (auto simp: same_base_def ipc_dispatch_def watch_command_def watch_register_def register_offer_def remove_offer_def
      browse_cache_round_def expire_base [unfolded same_base_def] Let_def case_prod_beta split: option.splits)

lemma same_files_task: "same_files dm (task_step tt now act dm)"
proof -
  have "same_files dm dm'" if "same_base dm dm'" for dm' using that by (simp add: same_base_def same_files_def)
  then show ?thesis using task_base [of dm tt now act] set_receiving_effect by (auto simp: same_files_def)
qed

lemma daemon_then_receive:
  "hs_daemon (snd (hd_receive lib c tid nm man s)) =
     (hs_daemon s)\<lparr>ds_world := ic_world (snd (handle_incoming_transfer (daemon_lib.truncate lib)
        (hd_inc_args c tid nm man (fst (read_clock s)) (hs_daemon s)) (hs_conn s) (ds_world (hs_daemon s))))\<rparr>"
  by (simp add: hd_receive_def case_prod_beta)

interpretation files: session_relation lib same_files c True False for lib c
proof unfold_locales
  fix dm k d now e
  show "same_files dm (dm\<lparr>ds_world := snd (journal_load (lib_from_str lib) d k (ds_world dm))\<rparr>)"
    using journal_load_world [OF prod.collapse [symmetric]] by (simp add: same_files_def)
qed (auto simp: same_files_def same_files_task [unfolded same_files_def])

text \<open>
  Outside the configuration file and the journal, files change only below the download directory or
  its canonical form.
\<close>

definition outside_kept :: "handler_lib \<Rightarrow> DaemonState \<Rightarrow> DaemonState \<Rightarrow> bool" where
  "outside_kept lib dm dm' \<longleftrightarrow> ds_config_path dm' = ds_config_path dm \<and> ds_journal_dir dm' = ds_journal_dir dm \<and>
     cf_receive_dir (ds_config dm') = cf_receive_dir (ds_config dm) \<and>
     ((\<forall>w cr. lib_canonicalize lib w (cf_receive_dir (ds_config dm)) = Inr cr \<longrightarrow> \<not> prefix cr (ds_journal_dir dm)) \<longrightarrow>
        (\<forall>q. fs_lookup q (ds_world dm') = fs_lookup q (ds_world dm) \<or> q = ds_config_path dm \<or>
           q \<noteq> [] \<and> (butlast q = ds_journal_dir dm \<or> prefix (cf_receive_dir (ds_config dm)) (butlast q) \<or>
             (\<exists>w cr. lib_canonicalize lib w (cf_receive_dir (ds_config dm)) = Inr cr \<and> prefix cr (butlast q)))))"

lemma outside_kept_trans:
  assumes "outside_kept lib dm dm1" "outside_kept lib dm1 dm2"
  shows "outside_kept lib dm dm2"
  using assms unfolding outside_kept_def by metis

lemma same_files_outside:
  "same_files dm dm' \<Longrightarrow> ds_journal_dir dm' = ds_journal_dir dm \<Longrightarrow>
     cf_receive_dir (ds_config dm') = cf_receive_dir (ds_config dm) \<Longrightarrow> outside_kept lib dm dm'"
  by (auto simp: same_files_def outside_kept_def)

lemma outside_kept_task: "outside_kept lib dm (task_step tt now act dm)"
proof (rule same_files_outside [OF same_files_task])
  show "ds_journal_dir (task_step tt now act dm) = ds_journal_dir dm"
    "cf_receive_dir (ds_config (task_step tt now act dm)) = cf_receive_dir (ds_config dm)"
    using task_base [of dm tt now act] set_receiving_effect(2,4) by (auto simp: same_base_def)
qed

lemma outside_kept_receive: "outside_kept lib (hs_daemon s) (hs_daemon (snd (hd_receive lib c tid nm man s)))"
proof -
  let ?a = "hd_inc_args c tid nm man (fst (read_clock s)) (hs_daemon s)"
  obtain r ic where ic: "handle_incoming_transfer (daemon_lib.truncate lib) ?a (hs_conn s) (ds_world (hs_daemon s)) = (r, ic)"
    by fastforce
  then have dm: "hs_daemon (snd (hd_receive lib c tid nm man s)) = (hs_daemon s)\<lparr>ds_world := ic_world ic\<rparr>"
    by (simp add: daemon_then_receive)
  have can: "lib_canonicalize (daemon_lib.truncate lib) = lib_canonicalize lib" by (simp add: daemon_lib.defs)
  show ?thesis
    using handle_incoming_transfer_kept [OF ic] unfolding dm
    by (auto simp: outside_kept_def confined_def journal_apart_def below_root_def journal_file_def hd_inc_args_def can)
qed

interpretation confined: session_relation lib "outside_kept lib" c False False for lib c
proof unfold_locales
  fix dm dm1 dm2 k d
  show "outside_kept lib dm dm1 \<Longrightarrow> outside_kept lib dm1 dm2 \<Longrightarrow> outside_kept lib dm dm2" by (rule outside_kept_trans)
  show "outside_kept lib dm (dm\<lparr>ds_world := snd (journal_load (lib_from_str lib) d k (ds_world dm))\<rparr>)"
    using journal_load_world [OF prod.collapse [symmetric]] by (auto simp: outside_kept_def)
qed (auto simp: outside_kept_task outside_kept_receive, auto simp: outside_kept_def)

section \<open>Consent\<close>

interpretation channels: session_relation lib "\<lambda>dm dm'. channels_ok dm \<longrightarrow> channels_ok dm'" c False False for lib c
  by unfold_locales
    (auto simp: channels_ok_step daemon_then_receive intro: channels_ok_same)

lemma ask_consent_yes:
  assumes "channels_ok (hs_daemon s)" "fst (ask_consent tt k ev n s) = Answered True"
  shows "\<exists>acts rest act. hs_others s = acts # rest \<and> act \<in> set acts \<and> confirms k True act"
proof -
  obtain now s1 where s1: "read_clock s = (now, s1)" by fastforce
  have s1': "hs_daemon s1 = hs_daemon s" "hs_others s1 = hs_others s"
    using conn_read_clock(2,3) [of s] s1 by simp_all
  obtain ch dm where dm: "register_offer k ev (now + n * 1000000000) (hs_daemon s1) = (ch, dm)" by fastforce
  let ?s2 = "hd_broadcast ev (s1\<lparr>hs_daemon := dm\<rparr>)"
  have "open_channel ch k dm" using register_offer_opens [OF assms(1)] dm s1' by simp
  then have opened: "open_channel ch k (hs_daemon ?s2)" by (simp add: open_channel_def hd_broadcast_def)
  have yes: "consent_result ch (hs_daemon (let_others tt now ?s2)) = Answered True"
    using assms(2) s1 dm by (simp add: ask_consent_def Let_def)
  show ?thesis
  proof (cases "hs_others s")
    case Nil
    then have "consent_result ch (run_tasks tt now [] (hs_daemon ?s2)) = Answered True"
      using yes s1'(2) by (simp add: let_others_def hd_broadcast_def run_tasks_def)
    from open_channel_yes [OF opened this] show ?thesis by simp
  next
    case (Cons acts rest)
    then have "consent_result ch (run_tasks tt now acts (hs_daemon ?s2)) = Answered True"
      using yes s1'(2) by (simp add: let_others_def hd_broadcast_def)
    from open_channel_yes [OF opened this] show ?thesis using Cons by blast
  qed
qed

lemma rejection_None: "rejection_reason c = None \<longleftrightarrow> c = Answered True"
  by (cases c rule: rejection_reason.cases) auto

lemma decide_accepts:
  assumes "channels_ok (hs_daemon s)" "fst (decide_transfer lib c tid ty nm n sz s) = None"
  shows "sc_is_paired c \<and> fst (should_auto_accept (sc_peer_id_hex c) (ds_db (hs_daemon s))) \<or>
    has_watchers s \<and> sz \<le> get_free_space (hl_statvfs lib) (ds_world (hs_daemon s)) (cf_receive_dir (ds_config (hs_daemon s))) \<and>
    (\<exists>acts rest act. hs_others s = acts # rest \<and> act \<in> set acts \<and> confirms (transfer_id_hex tid) True act)"
proof -
  define d where "d = (if sc_is_paired c then should_auto_accept (sc_peer_id_hex c) (ds_db (hs_daemon s)) else (False, ds_db (hs_daemon s)))"
  let ?s = "s\<lparr>hs_daemon := (hs_daemon s)\<lparr>ds_db := snd d\<rparr>\<rparr>"
  have ok: "channels_ok (hs_daemon ?s)" by (rule channels_ok_same [OF assms(1)]) simp_all
  show ?thesis
  proof (cases "fst d")
    case True
    then show ?thesis by (simp add: d_def split: if_splits)
  next
    case False
    have w: "has_watchers ?s = has_watchers s" by (simp add: has_watchers_def)
    have "sz \<le> get_free_space (hl_statvfs lib) (ds_world (hs_daemon s)) (cf_receive_dir (ds_config (hs_daemon s)))"
      "has_watchers s"
      "\<exists>ev. fst (ask_consent (hl_to_toml lib) (transfer_id_hex tid) ev 120 ?s) = Answered True"
      using assms(2) False w
      by (auto simp: decide_transfer_def d_def [symmetric] Let_def case_prod_beta rejection_None split: if_splits)
    then show ?thesis using ask_consent_yes [OF ok] by fastforce
  qed
qed

lemma journal_load_Some:
  assumes "fst (journal_load fr d k w) = Inr (Some rs)"
  shows "\<exists>b. fs_lookup (journal_path d k) w = Some b \<and> fr b = Inr rs"
proof -
  obtain q w1 where q: "fs_read (journal_path d k) w = (q, w1)" by fastforce
  then obtain b where "q = Inr b" "fr b = Inr rs"
    using assms by (cases q; cases "fr (projr q)") (auto simp: journal_load_def Let_def io_map_err_def split: if_splits)
  then show ?thesis using fs_read_effect(3) [OF q] by blast
qed

lemma resumable_journal:
  assumes "resumable (fst (resume_status lib c tid ids s))"
  shows "\<exists>b rs. fs_lookup (journal_path (ds_journal_dir (hs_daemon s)) (transfer_id_hex tid)) (ds_world (hs_daemon s)) = Some b \<and>
     lib_from_str lib b = Inr rs \<and> rs_peer_device_id rs = sc_peer_id_hex c"
proof -
  obtain j s1 where j: "hd_load_journal lib tid s = (j, s1)" by fastforce
  obtain rs where rs: "j = Inr (Some rs)" "rs_peer_device_id rs = sc_peer_id_hex c"
    using assms j by (auto simp: resume_status_def resumable_def not_resumable_def split: sum.splits option.splits if_splits)
  then have "fst (journal_load (lib_from_str lib) (ds_journal_dir (hs_daemon s)) (transfer_id_hex tid) (ds_world (hs_daemon s))) = Inr (Some rs)"
    using j by (auto simp: hd_load_journal_def split: prod.splits)
  from journal_load_Some [OF this] show ?thesis using rs(2) by blast
qed

lemma transfer_authorised:
  assumes "channels_ok (hs_daemon t)" "transfer_started lib c f t"
  shows "(\<exists>tid ty nm n sz man. control_frame lib f (TransferRequest tid ty nm n sz man) \<and>
            (sc_is_paired c \<and> fst (should_auto_accept (sc_peer_id_hex c) (ds_db (hs_daemon t))) \<or>
             sz \<le> get_free_space (hl_statvfs lib) (ds_world (hs_daemon t)) (cf_receive_dir (ds_config (hs_daemon t))) \<and>
             (\<exists>acts rest act. hs_others t = acts # rest \<and> act \<in> set acts \<and> confirms (transfer_id_hex tid) True act)))
       \<or> (\<exists>tid ids b rs. control_frame lib f (ResumeQuery tid ids) \<and>
             fs_lookup (journal_path (ds_journal_dir (hs_daemon t)) (transfer_id_hex tid)) (ds_world (hs_daemon t)) = Some b \<and>
             lib_from_str lib b = Inr rs \<and> rs_peer_device_id rs = sc_peer_id_hex c)"
  using assms(2) unfolding transfer_started_def
proof (elim disjE exE conjE)
  fix tid ty nm n sz man
  assume m: "control_frame lib f (TransferRequest tid ty nm n sz man)" and d: "fst (decide_transfer lib c tid ty nm n sz t) = None"
  from decide_accepts [OF assms(1) d] m show ?thesis by blast
next
  fix tid ids
  assume m: "control_frame lib f (ResumeQuery tid ids)" and r: "resumable (fst (resume_status lib c tid ids t))"
  from resumable_journal [OF r] m show ?thesis by blast
qed

section \<open>Pins\<close>

text \<open>
  Every row was there before, up to the time when the device was last seen, or is allowed by \<open>P\<close>.
\<close>

definition same_pin :: "PairedDevice \<Rightarrow> PairedDevice \<Rightarrow> bool" where
  "same_pin d d' \<longleftrightarrow> d' = d\<lparr>pd_last_seen := pd_last_seen d'\<rparr>"

definition rows_from :: "(string \<Rightarrow> PairedDevice \<Rightarrow> bool) \<Rightarrow> DaemonState \<Rightarrow> DaemonState \<Rightarrow> bool" where
  "rows_from P dm dm' \<longleftrightarrow> (table_ok pd_device_id (ds_db dm) \<longrightarrow> table_ok pd_device_id (ds_db dm') \<and>
     (\<forall>k d'. table_view pd_device_id (ds_db dm') k = Some d' \<longrightarrow>
        (\<exists>d. table_view pd_device_id (ds_db dm) k = Some d \<and> same_pin d d') \<or> P k d'))"

text \<open>The pin of the peer of a session, at any time.\<close>

definition peer_pin :: "handler_lib \<Rightarrow> session_ctx \<Rightarrow> string \<Rightarrow> PairedDevice \<Rightarrow> bool" where
  "peer_pin lib c k d \<longleftrightarrow> k = sc_peer_id_hex c \<and>
     (\<exists>f l. d = \<lparr>pd_device_id = k, pd_name = sc_peer_name c,
        pd_public_key_spki = (case extract_spki (hl_x509 lib) (peer_cert_der c) of Inr key \<Rightarrow> key | Inl _ \<Rightarrow> []),
        pd_first_seen = f, pd_last_seen = l, pd_trust_level = ''paired'', pd_auto_accept = ''prompt''\<rparr>)"

lemma same_pin_refl [simp]: "same_pin d d" by (simp add: same_pin_def)

lemma same_pin_trans: "same_pin d d' \<Longrightarrow> same_pin d' d'' \<Longrightarrow> same_pin d d''"
  unfolding same_pin_def by (metis PairedDevice.surjective PairedDevice.update_convs(5))

lemma peer_pin_seen: "peer_pin lib c k d \<Longrightarrow> same_pin d d' \<Longrightarrow> peer_pin lib c k d'"
  by (cases d') (auto simp: peer_pin_def same_pin_def)

lemma rows_from_trans:
  assumes "\<And>k d d'. P k d \<Longrightarrow> same_pin d d' \<Longrightarrow> P k d'" "rows_from P dm dm1" "rows_from P dm1 dm2"
  shows "rows_from P dm dm2"
proof (unfold rows_from_def, intro impI conjI allI)
  assume ok: "table_ok pd_device_id (ds_db dm)"
  then have ok1: "table_ok pd_device_id (ds_db dm1)" using assms(2) by (simp add: rows_from_def)
  then show "table_ok pd_device_id (ds_db dm2)" using assms(3) by (simp add: rows_from_def)
  fix k d2
  assume d2: "table_view pd_device_id (ds_db dm2) k = Some d2"
  then consider d1 where "table_view pd_device_id (ds_db dm1) k = Some d1" "same_pin d1 d2" | "P k d2"
    using assms(3) ok1 by (auto simp: rows_from_def)
  then show "(\<exists>d. table_view pd_device_id (ds_db dm) k = Some d \<and> same_pin d d2) \<or> P k d2"
  proof cases
    case (1 d1)
    then have "(\<exists>d. table_view pd_device_id (ds_db dm) k = Some d \<and> same_pin d d1) \<or> P k d1"
      using assms(2) ok by (auto simp: rows_from_def)
    then show ?thesis using 1 assms(1) same_pin_trans by blast
  qed simp
qed

lemma rows_from_same: "db_rows (ds_db dm') = db_rows (ds_db dm) \<Longrightarrow> rows_from P dm dm'"
  by (auto simp: rows_from_def table_ok_def table_view_def)

text \<open>The operations on the table.\<close>

lemma rows_from_perform:
  assumes "\<And>e d'. paired_effect x e = Some d' \<Longrightarrow> (\<exists>d. e = Some d \<and> same_pin d d') \<or> P (paired_op_key x) d'"
  shows "rows_from P dm (dm\<lparr>ds_db := snd (paired_perform x (ds_db dm))\<rparr>)"
  unfolding rows_from_def using paired_perform_step [OF _ prod.collapse [symmetric], of "ds_db dm" x] assms
  by (auto split: if_splits)

lemma lookup_rows: "table_ok pd_device_id db \<Longrightarrow> db_rows (snd (paired_lookup k db)) = db_rows db"
  using paired_lookup_view [OF _ prod.collapse [symmetric]] by blast

lemma list_all_rows: "db_rows (snd (paired_list_all db)) = db_rows db"
proof -
  obtain r db' where run: "paired_list_all db = (r, db')" by fastforce
  then have "db_rows db' = db_rows db"
    unfolding paired_list_all_def by (elim sql_run_cases) (auto simp: sql_on_rows_def split: option.splits)
  then show ?thesis using run by simp
qed

lemma rows_from_lookup: "rows_from P dm (dm\<lparr>ds_db := snd (paired_lookup k (ds_db dm))\<rparr>)"
proof (cases "table_ok pd_device_id (ds_db dm)")
  case True
  then show ?thesis by (intro rows_from_same) (simp add: lookup_rows)
qed (simp add: rows_from_def)

lemma rows_from_unpair: "rows_from P dm (snd (cmd_unpair req dm))"
proof -
  have "rows_from P dm (dm\<lparr>ds_db := snd (paired_remove i (ds_db dm))\<rparr>)" for i
    using rows_from_perform [of "Unpair i" P dm] by simp
  then show ?thesis
    by (auto simp: cmd_unpair_def rows_from_same split: option.splits prod.splits sum.splits) (metis snd_conv)+
qed

lemma rows_from_task: "rows_from P dm (task_step tt now act dm)"
proof (cases act)
  case (IpcCommand req)
  have "db_rows (ds_db (snd (cmd_status dm))) = db_rows (ds_db dm)" "db_rows (ds_db (snd (cmd_devices now dm))) = db_rows (ds_db dm)"
    using list_all_rows [of "ds_db dm"] by (auto simp: cmd_status_def cmd_devices_def Let_def split: prod.splits)
  moreover have "ds_db (snd (cmd_transfer_confirm req dm)) = ds_db dm"
    by (simp add: confirm_state take_offer_def Let_def split: option.splits)
  ultimately show ?thesis
    using IpcCommand rows_from_unpair set_receiving_effect(3) [of tt req dm]
    by (auto simp: ipc_dispatch_def Let_def case_prod_beta rows_from_same)
next
  case (WatchCommand req)
  have "ds_db (snd (cmd_transfer_confirm req dm)) = ds_db dm"
    by (simp add: confirm_state take_offer_def Let_def split: option.splits)
  then show ?thesis using WatchCommand by (simp add: watch_command_def rows_from_same)
qed (simp_all add: rows_from_same expire_base watch_register_def register_offer_def remove_offer_def Let_def
    browse_cache_round_def case_prod_beta split: option.splits)

lemma rows_from_seen: "rows_from P dm (dm\<lparr>ds_db := snd (update_last_seen now k (ds_db dm))\<rparr>)"
proof -
  have "(\<exists>d. e = Some d \<and> same_pin d d') \<or> P k d'" if "paired_effect (Seen now k) e = Some d'" for e d'
    using that by (auto simp: same_pin_def)
  then show ?thesis using rows_from_perform [of "Seen now k" P dm] by simp
qed

lemma rows_from_pin: "rows_from (peer_pin lib c) dm (dm\<lparr>ds_db := snd (insert_or_update (paired_record lib c t1 t2) (ds_db dm))\<rparr>)"
proof -
  have "peer_pin lib c (paired_op_key (Pin (paired_record lib c t1 t2))) d'"
    if "paired_effect (Pin (paired_record lib c t1 t2)) e = Some d'" for e d'
    using that by (cases e) (auto simp: peer_pin_def paired_record_def)
  then show ?thesis using rows_from_perform [of "Pin (paired_record lib c t1 t2)" "peer_pin lib c" dm] by simp
qed

interpretation pinned: session_relation lib "rows_from (peer_pin lib c)" c False False for lib c
proof unfold_locales
  show "rows_from (peer_pin lib c) dm dm2" if "rows_from (peer_pin lib c) dm dm1" "rows_from (peer_pin lib c) dm1 dm2" for dm dm1 dm2
    using peer_pin_seen that by (rule rows_from_trans)
qed (auto simp: rows_from_same rows_from_task rows_from_lookup rows_from_seen rows_from_pin daemon_then_receive)

interpretation unpinned: session_relation lib "rows_from (\<lambda>_ _. False)" c False True for lib c
proof unfold_locales
  show "rows_from (\<lambda>_ _. False) dm dm2" if "rows_from (\<lambda>_ _. False) dm dm1" "rows_from (\<lambda>_ _. False) dm1 dm2" for dm dm1 dm2
    using that by (rule rows_from_trans [rotated]) simp
qed (auto simp: rows_from_same rows_from_task rows_from_lookup rows_from_seen daemon_then_receive)

section \<open>Properties\<close>

text \<open>The handshake with an unknown device that introduces itself succeeds, when nothing fails.\<close>

lemma hd_send_works:
  assumes "lib_into_writer lib = (\<lambda>_. Inr [])" "encode_to_map m = Inr v" "send_outcomes (hs_conn s) = []"
  shows "\<exists>s2. hd_send lib i m s = (Inr (), s2) \<and> rx (hs_conn s2) = rx (hs_conn s) \<and> send_outcomes (hs_conn s2) = []
    \<and> hs_daemon s2 = hs_daemon s \<and> hs_clock s2 = hs_clock s \<and> hs_others s2 = hs_others s"
  using assms by (simp add: hd_send_def send_control_def encode_control_def send_frame_def framed_send_def limit_defs Let_def)

lemma handshake_works:
  assumes "lib_into_writer lib = (\<lambda>_. Inr [])" "send_outcomes (hs_conn s) = []" "hl_x509 lib cert = Inr spki"
    and "db_rows (ds_db (hs_daemon s)) = Some []" "db_faults (ds_db (hs_daemon s)) = []"
    and "rx (hs_conn s) = Inr (hdr, payload) # rest" "kind hdr = Control"
    and "decode_control (lib_from_reader lib) payload = Inr (Hello V1_0 i nm pf cs b)"
  shows "\<exists>s0. hd_handshake lib (Some [cert]) True session s =
      (Inr \<lparr>sc_session_id = session, sc_is_paired = False, sc_peer_id_hex = hex_encode (lib_sha256 lib spki),
            sc_peer_name = nm, sc_peer_certs = [cert]\<rparr>, s0)
    \<and> hs_daemon s0 = hs_daemon s \<and> rx (hs_conn s0) = rest \<and> send_outcomes (hs_conn s0) = []
    \<and> hs_clock s0 = hs_clock s \<and> hs_others s0 = hs_others s"
proof -
  let ?s = "s\<lparr>hs_conn := (hs_conn s)\<lparr>rx := rest\<rparr>\<rparr>"
  have hello: "hd_hello lib True s = (Inr nm, ?s)"
    using assms(6-8) by (simp add: hd_hello_def hd_recv_def recv_frame_def hd_decode_def is_supported_def V1_0_def)
  have look: "paired_lookup k (ds_db (hs_daemon s)) = (Inr None, ds_db (hs_daemon s))" for k
    using assms(4,5) by (simp add: paired_lookup_def sql_on_rows_def rows_with_def)
  have ident: "hd_identity lib k key s = (Inr False, s)" for k key
    by (simp add: hd_identity_def verify_identity_def look)
  obtain s2 where "hd_send lib session (hd_hello_ack session False (hs_daemon s)) ?s = (Inr (), s2)"
    "rx (hs_conn s2) = rest" "send_outcomes (hs_conn s2) = []" "hs_daemon s2 = hs_daemon s" "hs_clock s2 = hs_clock s" "hs_others s2 = hs_others s"
    using hd_send_works [OF assms(1), of "hd_hello_ack session False (hs_daemon s)" _ ?s session] assms(2)
    by (auto simp: hd_hello_ack_def)
  then show ?thesis
    using assms(3) hello ident by (simp add: hd_handshake_def extract_spki_def device_id_from_cert_def hd_open_session_def)
qed

text \<open>
  C16 Files are received only on somebody's word. If a connection, whatever its peer sends and whatever
  the other tasks do, changes a file other than the configuration, then it completed its handshake, the
  file is below the download directory (or its canonical form) or in the resume journal, and at some
  turn of its loop either the peer asked for a transfer and was a paired device with automatic
  acceptance, or a transfer was requested, there was room for it, and while the connection waited one
  of the tasks confirmed that very transfer; or the peer resumed a transfer that a journal file in
  the daemon's directory assigns to its device id.
\<close>

theorem files_change_on_consent:
  assumes "handle_incoming lib certs timely session s = (r, s')" "channels_ok (hs_daemon s)"
    and "\<forall>w cr. lib_canonicalize lib w (cf_receive_dir (ds_config (hs_daemon s))) = Inr cr \<longrightarrow> \<not> prefix cr (ds_journal_dir (hs_daemon s))"
    and "q \<noteq> ds_config_path (hs_daemon s)" "fs_lookup q (ds_world (hs_daemon s')) \<noteq> fs_lookup q (ds_world (hs_daemon s))"
  shows "q \<noteq> [] \<and> (butlast q = ds_journal_dir (hs_daemon s) \<or> prefix (cf_receive_dir (ds_config (hs_daemon s))) (butlast q) \<or>
      (\<exists>w cr. lib_canonicalize lib w (cf_receive_dir (ds_config (hs_daemon s))) = Inr cr \<and> prefix cr (butlast q)))
    \<and> (\<exists>c s0 f t. hd_handshake lib certs timely session s = (Inr c, s0) \<and> hd_turn lib c s0 f t \<and>
        ((\<exists>tid ty nm n sz man. control_frame lib f (TransferRequest tid ty nm n sz man) \<and>
            (sc_is_paired c \<and> fst (should_auto_accept (sc_peer_id_hex c) (ds_db (hs_daemon t))) \<or>
             sz \<le> get_free_space (hl_statvfs lib) (ds_world (hs_daemon t)) (cf_receive_dir (ds_config (hs_daemon t))) \<and>
             (\<exists>acts rest act. hs_others t = acts # rest \<and> act \<in> set acts \<and> confirms (transfer_id_hex tid) True act)))
         \<or> (\<exists>tid ids b rs. control_frame lib f (ResumeQuery tid ids) \<and>
             fs_lookup (journal_path (ds_journal_dir (hs_daemon t)) (transfer_id_hex tid)) (ds_world (hs_daemon t)) = Some b \<and>
             lib_from_str lib b = Inr rs \<and> rs_peer_device_id rs = sc_peer_id_hex c)))"
proof -
  have changed: "\<not> same_files (hs_daemon s) (hs_daemon s')" using assms(4,5) by (auto simp: same_files_def)
  have kept: "same_files (hs_daemon s) (hs_daemon (snd (hd_handshake lib certs timely session s)))" by (rule files.handshake)
  obtain c s0 where hs: "hd_handshake lib certs timely session s = (Inr c, s0)"
    using connection_refused [OF assms(1)] changed kept files.refl [of "hs_daemon s"] by metis
  obtain f t where turn: "hd_turn lib c s0 f t" "transfer_started lib c f t"
    using files.connection [OF assms(1) hs] changed by blast
  have "channels_ok (hs_daemon s0)"
    using channels.handshake [of s lib certs timely session] assms(2) hs by simp
  then have ok: "channels_ok (hs_daemon t)" using channels.turn [OF turn(1)] by simp
  have outside: "outside_kept lib (hs_daemon s) (hs_daemon s')" using confined.connection [OF assms(1) hs] by simp
  show ?thesis
    using outside assms(3-5) hs turn(1) transfer_authorised [OF ok turn(2)]
    unfolding outside_kept_def by blast
qed

theorem files_change_on_consent_witness:
  "\<exists>lib s s' q. handle_incoming lib (Some [[1]]) True 7 s = (Inr (), s') \<and>
     fs_lookup q (ds_world (hs_daemon s')) \<noteq> fs_lookup q (ds_world (hs_daemon s)) \<and>
     (\<exists>c s0 f t. hd_handshake lib (Some [[1]]) True 7 s = (Inr c, s0) \<and> hd_turn lib c s0 f t)"
proof -
  let ?tid = "TransferId (replicate 16 0)" and ?me = "DeviceId (replicate 32 1)"
  let ?rs = "\<lparr>rs_transfer_id = ''t'', rs_peer_device_id = hex_encode [2], rs_display_name = ''x'', rs_manifest = [],
     rs_files = [], rs_created_at = 0, rs_expires_at = 10, rs_version = 1\<rparr>"
  let ?lib = "\<lparr>lib_sha256 = (\<lambda>k. k), lib_from_reader = ref_from_reader, lib_into_writer = (\<lambda>_. Inr []),
    lib_to_vec = ref_to_vec, lib_from_str = (\<lambda>_. Inr ?rs), lib_canonicalize = (\<lambda>_ p. Inr p), lib_path_error = (\<lambda>_. ''bad''),
    hl_x509 = (\<lambda>_. Inr [2]), hl_export = (\<lambda>_ _. Inr []), hl_statvfs = (\<lambda>_ _. Inl ''''), hl_hex_decode = (\<lambda>_. Inl ''''),
    hl_to_toml = ref_config_to_string\<rparr> :: handler_lib"
  let ?q = "journal_path [''j''] (transfer_id_hex ?tid)"
  let ?w = "\<lparr>files = [(?q, [1])], dirs = [[''d''], [''j'']], io_faults = []\<rparr> :: world"
  let ?dm = "daemon_state_new \<lparr>cf_device_name = ''n'', cf_receive_dir = [''d''], cf_receiving_enabled = True\<rparr> [''c'']
      \<lparr>db_rows = Some [], db_autoinc = 0, db_version = Some [1], db_faults = []\<rparr> ?w [''j''] (replicate 32 3) None"
  let ?h = "\<lparr>kind = Control, flags = FrameFlags 0, session_id = 7, stream_id = 0, message_id = 1, payload_len = 0\<rparr> :: FrameHeader"
  obtain b1 b2 b3 where enc:
    "encode_control ref_into_writer (Hello V1_0 ?me ''p'' Linux [] False) = Inr b1"
    "encode_control ref_into_writer (ResumeQuery ?tid None) = Inr b2"
    "encode_control ref_into_writer (TransferComplete ?tid) = Inr b3"
    by (simp add: write_eval encode_hello_def encode_resume_query_def encode_transfer_id_def make_version_array_def limit_defs V1_0_def)
  have dec: "decode_control ref_from_reader b1 = Inr (Hello V1_0 ?me ''p'' Linux [] False)"
    "decode_control ref_from_reader b2 = Inr (ResumeQuery ?tid None)"
    "decode_control ref_from_reader b3 = Inr (TransferComplete ?tid)"
    using enc
    by (auto intro!: ref_cbor.decode_encode_wire simp: V1_0_def wf_device_id_def wf_transfer_id_def canonical_platform_def)
  let ?s = "\<lparr>hs_conn = connection_new [Inr (?h, b1), Inr (?h, b2), Inr (?h, b3)] [], hs_daemon = ?dm, hs_clock = [], hs_others = []\<rparr>"
  obtain s' where run: "handle_incoming ?lib (Some [[1]]) True 7 ?s = (Inr (), s')"
    and gone: "fs_lookup ?q (ds_world (hs_daemon s')) = None"
  proof -
    let ?c = "\<lparr>sc_session_id = 7, sc_is_paired = False, sc_peer_id_hex = hex_encode [2], sc_peer_name = ''p'', sc_peer_certs = [[1]]\<rparr>"
    have send: "\<exists>s2. hd_send ?lib i m s = (Inr (), s2) \<and> rx (hs_conn s2) = rx (hs_conn s) \<and> send_outcomes (hs_conn s2) = []
        \<and> hs_daemon s2 = hs_daemon s \<and> hs_clock s2 = hs_clock s \<and> hs_others s2 = hs_others s"
      if "\<exists>v. encode_to_map m = Inr v" "send_outcomes (hs_conn s) = []" for i m s
      using that by (auto intro: hd_send_works)
    obtain s0 where s0: "hd_handshake ?lib (Some [[1]]) True 7 ?s = (Inr ?c, s0)" "hs_daemon s0 = ?dm"
      "rx (hs_conn s0) = [Inr (?h, b2), Inr (?h, b3)]" "send_outcomes (hs_conn s0) = []" "hs_clock s0 = []" "hs_others s0 = []"
      using handshake_works [of ?lib ?s "[1]" "[2]" ?h b1 "[Inr (?h, b2), Inr (?h, b3)]" ?me "''p''" Linux "[]" False 7] dec(1)
      by (auto simp: connection_new_def daemon_state_new_def)
    let ?u = "s0\<lparr>hs_conn := (hs_conn s0)\<lparr>rx := [Inr (?h, b3)]\<rparr>\<rparr>"
    have load: "hd_load_journal ?lib ?tid s = (Inr (Some ?rs), s)" if "hs_daemon s = ?dm" for s
      using that by (simp add: hd_load_journal_def journal_load_def daemon_state_new_def fs_exists_def fs_lookup_def fs_read_def io_map_err_def)
    have status: "resume_status ?lib ?c ?tid None ?u = (ResumeStatus ?tid True (Some []) (Some 10), ?u)"
      using s0 load [of ?u] by (simp add: resume_status_def read_clock_def resume_files_def)
    obtain s1 where s1: "hd_send ?lib 7 (ResumeStatus ?tid True (Some []) (Some 10)) ?u = (Inr (), s1)" "hs_daemon s1 = ?dm"
      "rx (hs_conn s1) = [Inr (?h, b3)]" "send_outcomes (hs_conn s1) = []" "hs_clock s1 = []" "hs_others s1 = []"
      using send [of "ResumeStatus ?tid True (Some []) (Some 10)" ?u 7] s0 by auto
    obtain ic where ic: "handle_incoming_transfer (daemon_lib.truncate ?lib) (hd_inc_args ?c ?tid ''x'' [] 0 ?dm) (hs_conn s1) ?w = (Inr (), ic)"
      "fs_lookup ?q (ic_world ic) = None" "rx (ic_conn ic) = []"
    proof -
      let ?a = "hd_inc_args ?c ?tid ''x'' [] 0 ?dm"
      let ?i = "\<lparr>ic_conn = (hs_conn s1)\<lparr>rx := []\<rparr>, ic_world = ?w, ic_resume = fresh_resume_state ?a\<rparr>"
      have "\<exists>v. encode_to_map (TransferAck ?tid Success None) = Inr v" by simp
      then obtain cn where cn: "inc_send (daemon_lib.truncate ?lib) ?a (TransferAck ?tid Success None) ?i = (Inr (), ?i\<lparr>ic_conn := cn\<rparr>)" "rx cn = []"
        using s1(4) by (auto simp: inc_send_def send_control_def encode_control_def send_frame_def framed_send_def limit_defs daemon_lib.defs Let_def)
      then show thesis
        using that s1 dec(3)
        by (simp add: handle_incoming_transfer_def load_resume_state_def journal_load_def fs_exists_def fs_lookup_def fs_read_def
            io_map_err_def daemon_lib.defs hd_inc_args_def daemon_state_new_def inc_loop.simps recv_frame_def inc_frame_def
            inc_control_def inc_complete_def journal_delete_def fs_remove_file_def fs_erase_def)
    qed
    have recv: "hd_receive ?lib ?c ?tid ''x'' [] s1 = (Inr (), s1\<lparr>hs_conn := ic_conn ic, hs_daemon := ?dm\<lparr>ds_world := ic_world ic\<rparr>\<rparr>)"
      using ic(1) s1 by (simp add: hd_receive_def read_clock_def daemon_state_new_def)
    have "hd_frame ?lib ?c (?h, b2) ?u = HdNext (s1\<lparr>hs_conn := ic_conn ic, hs_daemon := ?dm\<lparr>ds_world := ic_world ic\<rparr>\<rparr>)"
      using dec(2) status s1(1) load [OF s1(2)] recv
      by (simp add: hd_frame_def hd_decode_def hd_message_def hd_resume_query_def resume_manifest_def hd_next_def)
    then have "hd_loop ?lib ?c s0 = (Inr (), s1\<lparr>hs_conn := ic_conn ic, hs_daemon := ?dm\<lparr>ds_world := ic_world ic\<rparr>\<rparr>)"
      using s0 s1 ic(3) by (simp add: hd_loop.simps let_others_def recv_frame_def)
    then show thesis
      using that s0(1) ic(2) by (simp add: handle_incoming_def daemon_state_new_def)
  qed
  have ok: "channels_ok (hs_daemon ?s)" by (simp add: channels_ok_start)
  have changed: "fs_lookup ?q (ds_world (hs_daemon s')) \<noteq> fs_lookup ?q (ds_world (hs_daemon ?s))"
    using gone by (simp add: fs_lookup_def daemon_state_new_def)
  have apart: "\<forall>w cr. lib_canonicalize ?lib w (cf_receive_dir (ds_config (hs_daemon ?s))) = Inr cr \<longrightarrow> \<not> prefix cr (ds_journal_dir (hs_daemon ?s))"
    and other: "?q \<noteq> ds_config_path (hs_daemon ?s)"
    by (simp_all add: daemon_state_new_def journal_path_def)
  from files_change_on_consent [OF run ok apart other changed]
  have "\<exists>c s0 f t. hd_handshake ?lib (Some [[1]]) True 7 ?s = (Inr c, s0) \<and> hd_turn ?lib c s0 f t" by blast
  then show ?thesis using run changed by blast
qed

text \<open>A turn that pairs sends our acceptance, and only that.\<close>

lemma ask_consent_conn [simp]: "hs_conn (snd (ask_consent tt k ev n s)) = hs_conn s"
  by (simp add: ask_consent_def Let_def let_others_def hd_broadcast_def read_clock_def case_prod_beta split: list.splits)

lemma hd_pair_answer_conn [simp]: "hs_conn (hd_pair_answer lib c msg s) = hs_conn s"
  by (simp add: hd_pair_answer_def hd_broadcast_def read_clock_def Let_def case_prod_beta split: ControlMessage.splits list.splits)

lemma sent_control_frame:
  "send_control iw i j m conn = (Inr n, cn) \<Longrightarrow>
     \<exists>h bs. kind h = Control \<and> encode_control iw m = Inr bs \<and> tx cn = tx conn @ [(h, bs)]"
  by (auto simp: send_control_def send_frame_def framed_send_def Let_def split: sum.splits prod.splits list.splits option.splits)

lemma pair_accept_sends:
  assumes "send_control (lib_into_writer lib) (sc_session_id c) 0 PairAccept (hs_conn s) = (Inr n, cn)"
    and "rx (hs_conn s) = Inr (hdr, payload) # rest" "decode_control (lib_from_reader lib) payload = Inr PairAccept"
  shows "\<exists>s'. hd_pair_accept lib c s = (Inr (), s') \<and> tx (hs_conn s') = tx cn"
proof -
  have "rx cn = Inr (hdr, payload) # rest"
    using rx_send_control [of "lib_into_writer lib" "sc_session_id c" 0 PairAccept "hs_conn s"] assms(1,2) by simp
  then show ?thesis
    using assms by (simp add: hd_pair_accept_def hd_send_def hd_recv_def recv_frame_def hd_decode_def)
qed

lemma pairing_done_sends:
  assumes "pairing_done lib c f t"
  shows "\<exists>h bs. kind h = Control \<and> encode_control (lib_into_writer lib) PairAccept = Inr bs \<and>
    tx (hs_conn (hd_step_state (hd_frame lib c f t))) = tx (hs_conn t) @ [(h, bs)]"
proof -
  from assms obtain m hdr payload rest sas n cn where d: "control_frame lib f (PairRequest m)" "m \<in> {''numeric-6'', ''sas-v0''}"
      "rx (hs_conn t) = Inr (hdr, payload) # rest" "decode_control (lib_from_reader lib) payload = Inr PairAccept"
      "pairing_sas lib c (ds_device_id (hs_daemon t)) = Inr sas"
      "send_control (lib_into_writer lib) (sc_session_id c) 0 PairAccept (hs_conn t) = (Inr n, cn)"
      "has_watchers t \<longrightarrow> fst (ask_consent (hl_to_toml lib) (''pair-'' @ sc_peer_id_hex c)
         (EvSasPrompt (sc_peer_name c) (sc_peer_id_hex c) sas) 60 t) = Answered True"
    unfolding pairing_done_def by blast
  define u where "u = (if has_watchers t then snd (ask_consent (hl_to_toml lib) (''pair-'' @ sc_peer_id_hex c)
         (EvSasPrompt (sc_peer_name c) (sc_peer_id_hex c) sas) 60 t) else t)"
  have conn: "hs_conn u = hs_conn t" by (simp add: u_def)
  have "hd_pair_request lib c m t = hd_pair_accept lib c u"
    using d(2,5,7) by (auto simp: hd_pair_request_def u_def Let_def case_prod_beta)
  moreover obtain s' where "hd_pair_accept lib c u = (Inr (), s')" "tx (hs_conn s') = tx cn"
    using pair_accept_sends [of lib c u n cn] d(3,4,6) conn by auto
  ultimately have "hd_frame lib c f t = HdNext s'" "tx (hs_conn s') = tx cn"
    using d(1) by (cases f; simp add: hd_frame_def hd_decode_def hd_message_def hd_next_def control_frame_def)+
  then show ?thesis using sent_control_frame [OF d(6)] by simp
qed

text \<open>
  C17 What pairing pins. Whatever happens on a connection, every row of the device table afterwards was
  there before (up to the time it was last seen), or is the pin of the peer itself: its id is the SHA-256 of
  the public key of the certificate that TLS authenticated, the pinned key is that key, and it is paired with
  consent asked for every transfer. Such a pin needs a turn in which the peer asked for a supported method,
  the short authentication string was derived, the daemon sent its acceptance and the peer answered with
  its own. When anybody watches the daemon at that turn, a task confirmed that very pairing while the
  connection waited, with the string on display. When nobody watches, no user takes part on this side:
  the daemon accepts by itself.
\<close>

theorem pairing_pins_only_the_peer:
  assumes "handle_incoming lib certs timely session s = (r, s')" "channels_ok (hs_daemon s)"
    and "table_ok pd_device_id (ds_db (hs_daemon s))" "table_view pd_device_id (ds_db (hs_daemon s')) k = Some d'"
  shows "(\<exists>d. table_view pd_device_id (ds_db (hs_daemon s)) k = Some d \<and> d' = d\<lparr>pd_last_seen := pd_last_seen d'\<rparr>)
    \<or> (\<exists>cert rest spki c s0 f t. certs = Some (cert # rest) \<and> extract_spki (hl_x509 lib) cert = Inr spki \<and>
        k = hex_encode (lib_sha256 lib spki) \<and> pd_device_id d' = k \<and> pd_public_key_spki d' = spki \<and>
        pd_trust_level d' = ''paired'' \<and> pd_auto_accept d' = ''prompt'' \<and>
        hd_handshake lib certs timely session s = (Inr c, s0) \<and> hd_turn lib c s0 f t \<and>
        (\<exists>m hdr payload rx' sas. control_frame lib f (PairRequest m) \<and> m \<in> {''numeric-6'', ''sas-v0''} \<and>
           rx (hs_conn t) = Inr (hdr, payload) # rx' \<and> decode_control (lib_from_reader lib) payload = Inr PairAccept \<and>
           pairing_sas lib c (ds_device_id (hs_daemon t)) = Inr sas \<and>
           (has_watchers t \<longrightarrow>
              fst (ask_consent (hl_to_toml lib) (''pair-'' @ k) (EvSasPrompt (sc_peer_name c) k sas) 60 t) = Answered True)) \<and>
        (\<exists>h bs. kind h = Control \<and> encode_control (lib_into_writer lib) PairAccept = Inr bs \<and>
           tx (hs_conn (hd_step_state (hd_frame lib c f t))) = tx (hs_conn t) @ [(h, bs)]) \<and>
        (has_watchers t \<longrightarrow> (\<exists>acts others act. hs_others t = acts # others \<and> act \<in> set acts \<and> confirms (''pair-'' @ k) True act)))"
proof (cases "\<exists>d. table_view pd_device_id (ds_db (hs_daemon s)) k = Some d \<and> same_pin d d'")
  case True
  then show ?thesis by (auto simp: same_pin_def)
next
  case False
  then have new: "\<not> rows_from (\<lambda>_ _. False) (hs_daemon s) (hs_daemon s')" using assms(3,4) by (auto simp: rows_from_def)
  obtain c s0 where hs: "hd_handshake lib certs timely session s = (Inr c, s0)"
    using connection_refused [OF assms(1)] new unpinned.handshake [of s] unpinned.refl [of "hs_daemon s"] by metis
  obtain f t where turn: "hd_turn lib c s0 f t" "pairing_done lib c f t"
    using unpinned.connection [OF assms(1) hs] new by blast
  have "channels_ok (hs_daemon s0)"
    using channels.handshake [of s lib certs timely session] assms(2) hs by simp
  then have ok: "channels_ok (hs_daemon t)" using channels.turn [OF turn(1)] by simp
  obtain cert rest spki where peer: "certs = Some (cert # rest)" "extract_spki (hl_x509 lib) cert = Inr spki"
    "sc_peer_id_hex c = hex_encode (lib_sha256 lib spki)" "sc_peer_certs c = cert # rest"
    by (rule handshake_peer [OF hs])
  have "rows_from (peer_pin lib c) (hs_daemon s) (hs_daemon s')" using pinned.connection [OF assms(1) hs] by simp
  then have "peer_pin lib c k d'" using False assms(3,4) by (auto simp: rows_from_def)
  then have pin: "k = sc_peer_id_hex c" "pd_device_id d' = k" "pd_public_key_spki d' = spki"
    "pd_trust_level d' = ''paired''" "pd_auto_accept d' = ''prompt''"
    using peer(2,4) by (auto simp: peer_pin_def peer_cert_der_def)
  from turn(2) obtain m hdr payload rx' sas where did: "control_frame lib f (PairRequest m)" "m \<in> {''numeric-6'', ''sas-v0''}"
      "rx (hs_conn t) = Inr (hdr, payload) # rx'" "decode_control (lib_from_reader lib) payload = Inr PairAccept"
      "pairing_sas lib c (ds_device_id (hs_daemon t)) = Inr sas"
      "has_watchers t \<longrightarrow> fst (ask_consent (hl_to_toml lib) (''pair-'' @ k) (EvSasPrompt (sc_peer_name c) k sas) 60 t) = Answered True"
    unfolding pairing_done_def pin(1) by blast
  moreover have "has_watchers t \<longrightarrow> (\<exists>acts others act. hs_others t = acts # others \<and> act \<in> set acts \<and> confirms (''pair-'' @ k) True act)"
    using did(6) ask_consent_yes [OF ok] by blast
  moreover note pairing_done_sends [OF turn(2)]
  moreover have "k = hex_encode (lib_sha256 lib spki)" using pin(1) peer(3) by simp
  ultimately show ?thesis
    using peer(1,2) pin(2-5) hs turn(1)
    by (intro disjI2 exI [of _ cert] exI [of _ rest] exI [of _ spki] exI [of _ c] exI [of _ s0] exI [of _ f] exI [of _ t] conjI) blast+
qed

theorem pairing_pins_only_the_peer_witness:
  "\<exists>lib s s' d' c s0 f t. handle_incoming lib (Some [[1]]) True 7 s = (Inr (), s') \<and>
     table_view pd_device_id (ds_db (hs_daemon s')) (hex_encode [2]) = Some d' \<and> pd_public_key_spki d' = [2] \<and>
     hd_handshake lib (Some [[1]]) True 7 s = (Inr c, s0) \<and> hd_turn lib c s0 f t \<and> control_frame lib f (PairRequest ''sas-v0'') \<and>
     has_watchers t \<and> (\<exists>act. hs_others t = [[act]] \<and> confirms (''pair-'' @ hex_encode [2]) True act)"
proof -
  let ?me = "DeviceId (replicate 32 1)"
  let ?lib = "\<lparr>lib_sha256 = (\<lambda>k. k), lib_from_reader = ref_from_reader, lib_into_writer = (\<lambda>_. Inr []),
    lib_to_vec = ref_to_vec, lib_from_str = (\<lambda>_. Inl (ResumeJson '''')), lib_canonicalize = (\<lambda>_ p. Inr p), lib_path_error = (\<lambda>_. ''bad''),
    hl_x509 = (\<lambda>_. Inr [2]), hl_export = (\<lambda>_ _. Inr [0, 0, 0, 1]), hl_statvfs = (\<lambda>_ _. Inl ''''), hl_hex_decode = (\<lambda>_. Inl ''''),
    hl_to_toml = ref_config_to_string\<rparr> :: handler_lib"
  let ?dm = "daemon_state_new \<lparr>cf_device_name = ''n'', cf_receive_dir = [''d''], cf_receiving_enabled = True\<rparr> [''c'']
      \<lparr>db_rows = Some [], db_autoinc = 0, db_version = Some [1], db_faults = []\<rparr>
      \<lparr>files = [], dirs = [], io_faults = []\<rparr> [''j''] (replicate 32 3) None"
  let ?h = "\<lparr>kind = Control, flags = FrameFlags 0, session_id = 7, stream_id = 0, message_id = 1, payload_len = 0\<rparr> :: FrameHeader"
  obtain b1 b2 b3 where enc:
    "encode_control ref_into_writer (Hello V1_0 ?me ''p'' Linux [] False) = Inr b1"
    "encode_control ref_into_writer (PairRequest ''sas-v0'') = Inr b2"
    "encode_control ref_into_writer PairAccept = Inr b3"
    by (simp add: write_eval encode_hello_def make_version_array_def limit_defs V1_0_def)
  have dec: "decode_control ref_from_reader b1 = Inr (Hello V1_0 ?me ''p'' Linux [] False)"
    "decode_control ref_from_reader b2 = Inr (PairRequest ''sas-v0'')" "decode_control ref_from_reader b3 = Inr PairAccept"
    using enc by (auto intro!: ref_cbor.decode_encode_wire simp: V1_0_def wf_device_id_def canonical_platform_def)
  let ?key = "''pair-'' @ hex_encode [2]"
  let ?act = "WatchCommand \<lparr>rq_cmd = ''transfer_confirm'', rq_path = None, rq_target_device_id = None, rq_target_addr = None,
    rq_retry_transfer_id = None, rq_enabled = None, rq_device_id = None, rq_transfer_id = Some ?key, rq_accepted = Some True\<rparr>"
  let ?s = "\<lparr>hs_conn = connection_new [Inr (?h, b1), Inr (?h, b2), Inr (?h, b3)] [], hs_daemon = ?dm, hs_clock = [], hs_others = [[WatcherJoins], [?act]]\<rparr>"
  let ?c = "\<lparr>sc_session_id = 7, sc_is_paired = False, sc_peer_id_hex = hex_encode [2], sc_peer_name = ''p'', sc_peer_certs = [[1]]\<rparr>"
  obtain s0 where s0: "hd_handshake ?lib (Some [[1]]) True 7 ?s = (Inr ?c, s0)" "hs_daemon s0 = ?dm"
    "rx (hs_conn s0) = [Inr (?h, b2), Inr (?h, b3)]" "send_outcomes (hs_conn s0) = []" "hs_clock s0 = []" "hs_others s0 = [[WatcherJoins], [?act]]"
    using handshake_works [of ?lib ?s "[1]" "[2]" ?h b1 "[Inr (?h, b2), Inr (?h, b3)]" ?me "''p''" Linux "[]" False 7] dec(1)
    by (auto simp: connection_new_def daemon_state_new_def)
  let ?dmw = "snd (watch_register ?dm)"
  let ?u = "s0\<lparr>hs_daemon := ?dmw, hs_others := [[?act]], hs_conn := (hs_conn s0)\<lparr>rx := [Inr (?h, b3)]\<rparr>\<rparr>"
  have others: "let_others (hl_to_toml ?lib) 0 s0 = s0\<lparr>hs_daemon := ?dmw, hs_others := [[?act]]\<rparr>"
    using s0 by (simp add: let_others_def run_tasks_def)
  obtain a where a: "ask_consent ref_config_to_string ?key ev 60 ?u = (Answered True, a ev)" "hs_conn (a ev) = hs_conn ?u"
    "hs_clock (a ev) = []" "hs_others (a ev) = []" "ds_db (hs_daemon (a ev)) = ds_db ?dm" for ev
  proof -
    let ?a = "\<lambda>ev. snd (ask_consent ref_config_to_string ?key ev 60 ?u)"
    note eval = ask_consent_def read_clock_def register_offer_def let_others_def hd_broadcast_def broadcast_to_watchers_def run_tasks_def
      watch_command_def cmd_transfer_confirm_def take_respond_to_def remove_offer_def consent_result_def watch_register_def daemon_state_new_def
    have "ask_consent ref_config_to_string ?key ev 60 ?u = (Answered True, ?a ev)" "hs_conn (?a ev) = hs_conn ?u"
      "hs_clock (?a ev) = []" "hs_others (?a ev) = []" "ds_db (hs_daemon (?a ev)) = ds_db ?dm" for ev
      using s0(5) by (simp_all add: eval Let_def)
    then show thesis by (rule that)
  qed
  have "\<exists>s1. hd_send ?lib 7 PairAccept (a ev) = (Inr (), s1) \<and> ds_db (hs_daemon s1) = ds_db ?dm \<and>
    rx (hs_conn s1) = [Inr (?h, b3)] \<and> hs_clock s1 = [] \<and> hs_others s1 = []" for ev
    using hd_send_works [of ?lib PairAccept _ "a ev" 7] s0 a by auto
  then obtain s1 where s1: "hd_send ?lib 7 PairAccept (a ev) = (Inr (), s1 ev)" "ds_db (hs_daemon (s1 ev)) = ds_db ?dm"
    "rx (hs_conn (s1 ev)) = [Inr (?h, b3)]" "hs_clock (s1 ev) = []" "hs_others (s1 ev) = []" for ev by metis
  have watched: "has_watchers ?u" by (simp add: has_watchers_def watch_register_def)
  obtain ev where turn: "hd_frame ?lib ?c (?h, b2) ?u = HdNext (hd_pair_answer ?lib ?c PairAccept ((s1 ev)\<lparr>hs_conn := (hs_conn (s1 ev))\<lparr>rx := []\<rparr>\<rparr>))"
    using dec s0(2) s1 a watched
    by (simp add: hd_frame_def hd_decode_def hd_message_def hd_pair_request_def pairing_sas_def
        hd_pair_accept_def hd_recv_def recv_frame_def hd_next_def Let_def)
  let ?v = "hd_pair_answer ?lib ?c PairAccept ((s1 ev)\<lparr>hs_conn := (hs_conn (s1 ev))\<lparr>rx := []\<rparr>\<rparr>)"
  have v: "rx (hs_conn ?v) = []" "hs_others ?v = []"
    using s1 by (simp_all add: hd_pair_answer_def read_clock_def hd_broadcast_def Let_def)
  let ?d = "paired_record ?lib ?c 0 0"
  have pin: "table_view pd_device_id (ds_db (hs_daemon ?v)) (hex_encode [2]) = Some ?d"
    using s1 by (simp add: hd_pair_answer_def read_clock_def hd_broadcast_def Let_def daemon_state_new_def insert_or_update_def
        sql_on_rows_def rows_upsert_def table_view_def paired_record_def)
  have "hd_loop ?lib ?c s0 = hd_loop ?lib ?c ?v"
    by (subst hd_loop.simps) (use turn s0(3) others in \<open>simp add: recv_frame_def\<close>)
  moreover have "\<exists>cn. hd_loop ?lib ?c ?v = (Inr (), ?v\<lparr>hs_conn := cn\<rparr>)"
    by (subst hd_loop.simps) (use v in \<open>auto simp: let_others_def recv_frame_def\<close>)
  ultimately have "\<exists>cn. hd_loop ?lib ?c s0 = (Inr (), ?v\<lparr>hs_conn := cn\<rparr>)" by metis
  then obtain cn where run: "handle_incoming ?lib (Some [[1]]) True 7 ?s = (Inr (), ?v\<lparr>hs_conn := cn\<rparr>)"
    using s0(1) by (auto simp: handle_incoming_def daemon_state_new_def)
  have ok: "channels_ok (hs_daemon ?s)" "table_ok pd_device_id (ds_db (hs_daemon ?s))"
    by (simp add: channels_ok_start, simp add: daemon_state_new_def table_ok_def)
  have view: "table_view pd_device_id (ds_db (hs_daemon (?v\<lparr>hs_conn := cn\<rparr>))) (hex_encode [2]) = Some ?d" using pin by simp
  have fresh: "table_view pd_device_id (ds_db (hs_daemon ?s)) k = None" for k by (simp add: daemon_state_new_def table_view_def)
  from pairing_pins_only_the_peer [OF run ok view] have "pd_public_key_spki ?d = [2]"
    using fresh by (auto simp: extract_spki_def)
  moreover have "hd_turn ?lib ?c s0 (?h, b2) ?u"
    by (rule hd_turn.now [where cn = "(hs_conn s0)\<lparr>rx := [Inr (?h, b3)]\<rparr>"]) (use others s0(3) in \<open>simp_all add: recv_frame_def\<close>)
  moreover have "control_frame ?lib (?h, b2) (PairRequest ''sas-v0'')" using dec(2) by (simp add: control_frame_def)
  moreover have "hs_others ?u = [[?act]] \<and> confirms ?key True ?act" by (simp add: confirms_def)
  ultimately show ?thesis using run view s0(1) watched by blast
qed

end
