(* ===== verification/Nxfr_Text.thy ===== *)
theory Nxfr_Text
  imports Nxfr_Files Nxfr_Cbor_Ref
begin

text \<open>
  The functions of Rust's \<open>str\<close> that the web server uses. A string is its UTF-8 bytes, so a character
  is the list of its bytes. Case mapping and the class of alphanumeric characters outside ASCII are
  Unicode tables; they are parameters where they are used. White space is listed here.
\<close>

section \<open>UTF-8\<close>

definition is_continuation :: "u8 \<Rightarrow> bool" where
  "is_continuation b \<longleftrightarrow> 0x80 \<le> b \<and> b \<le> 0xBF"

text \<open>The length a first byte announces (zero for a byte that cannot be one), and the second bytes it allows.\<close>

definition utf8_width :: "u8 \<Rightarrow> nat" where
  "utf8_width b =
     (if b < 0x80 then 1 else if b < 0xC2 then 0 else if b < 0xE0 then 2 else if b < 0xF0 then 3
      else if b < 0xF5 then 4 else 0)"

definition utf8_second :: "u8 \<Rightarrow> u8 \<Rightarrow> bool" where
  "utf8_second b b1 =
     (if b = 0xE0 then 0xA0 \<le> b1 \<and> b1 \<le> 0xBF
      else if b = 0xED then 0x80 \<le> b1 \<and> b1 \<le> 0x9F
      else if b = 0xF0 then 0x90 \<le> b1 \<and> b1 \<le> 0xBF
      else if b = 0xF4 then 0x80 \<le> b1 \<and> b1 \<le> 0x8F
      else is_continuation b1)"

datatype utf8_step = Utf8Char nat | Utf8Bad nat

text \<open>The character or the maximal ill-formed part at the start of a non-empty slice.\<close>

definition utf8_first :: "u8 \<Rightarrow> bytes \<Rightarrow> utf8_step" where
  "utf8_first b bs =
     (if utf8_width b = 1 then Utf8Char 1
      else if utf8_width b = 0 then Utf8Bad 1
      else case bs of
        [] \<Rightarrow> Utf8Bad 1
      | b1 # bs1 \<Rightarrow>
          if \<not> utf8_second b b1 then Utf8Bad 1
          else if utf8_width b = 2 then Utf8Char 2
          else case bs1 of
            [] \<Rightarrow> Utf8Bad 2
          | b2 # bs2 \<Rightarrow>
              if \<not> is_continuation b2 then Utf8Bad 2
              else if utf8_width b = 3 then Utf8Char 3
              else case bs2 of
                [] \<Rightarrow> Utf8Bad 3
              | b3 # _ \<Rightarrow> if is_continuation b3 then Utf8Char 4 else Utf8Bad 3)"

text \<open>\<open>str::from_utf8\<close> and \<open>String::from_utf8_lossy\<close>, which puts U+FFFD for each ill-formed part.\<close>

fun utf8_valid :: "bytes \<Rightarrow> bool" where
  "utf8_valid [] = True"
| "utf8_valid (b # bs) =
     (case utf8_first b bs of Utf8Bad _ \<Rightarrow> False | Utf8Char n \<Rightarrow> utf8_valid (drop (n - 1) bs))"

definition str_from_utf8 :: "bytes \<Rightarrow> string option" where
  "str_from_utf8 bs = (if utf8_valid bs then Some (bytes_text bs) else None)"

fun utf8_repair :: "bytes \<Rightarrow> bytes" where
  "utf8_repair [] = []"
| "utf8_repair (b # bs) =
     (case utf8_first b bs of
        Utf8Char n \<Rightarrow> take n (b # bs) @ utf8_repair (drop (n - 1) bs)
      | Utf8Bad n \<Rightarrow> [0xEF, 0xBF, 0xBD] @ utf8_repair (drop (n - 1) bs))"

definition str_from_utf8_lossy :: "bytes \<Rightarrow> string" where
  "str_from_utf8_lossy bs = bytes_text (utf8_repair bs)"

section \<open>Characters\<close>

definition is_tail_char :: "char \<Rightarrow> bool" where
  "is_tail_char c \<longleftrightarrow> 0x80 \<le> char_code c \<and> char_code c \<le> 0xBF"

function str_chars :: "string \<Rightarrow> string list" where
  "str_chars [] = []"
| "str_chars (c # cs) =
     (if char_code c < 0x80 then [c] # str_chars cs
      else (c # takeWhile is_tail_char cs) # str_chars (dropWhile is_tail_char cs))"
  by pat_completeness auto

termination str_chars
  by (relation "measure length") (auto simp: less_Suc_eq_le length_dropWhile_le)

text \<open>The characters with the property \<open>White_Space\<close>.\<close>

definition whitespace_chars :: "string list" where
  "whitespace_chars =
     map (map char_of)
       ([[n]. n \<leftarrow> [9 ..< 14] @ [32]] @ [[0xC2, 0x85], [0xC2, 0xA0], [0xE1, 0x9A, 0x80]]
        @ [[0xE2, 0x80, n]. n \<leftarrow> [0x80 ..< 0x8B] @ [0xA8, 0xA9, 0xAF]]
        @ [[0xE2, 0x81, 0x9F], [0xE3, 0x80, 0x80 :: nat]])"

definition is_white_char :: "string \<Rightarrow> bool" where
  "is_white_char c \<longleftrightarrow> c \<in> set whitespace_chars"

definition str_trim :: "string \<Rightarrow> string" where
  "str_trim s = concat (rev (dropWhile is_white_char (rev (dropWhile is_white_char (str_chars s)))))"

definition str_trim_matches :: "char \<Rightarrow> string \<Rightarrow> string" where
  "str_trim_matches c s = rev (dropWhile (\<lambda>x. x = c) (rev (dropWhile (\<lambda>x. x = c) s)))"

text \<open>Slices from an index: taking one that is not a character boundary panics.\<close>

definition is_char_boundary :: "nat \<Rightarrow> string \<Rightarrow> bool" where
  "is_char_boundary i s \<longleftrightarrow> i = length s \<or> (i < length s \<and> \<not> is_tail_char (s ! i))"

definition str_from :: "nat \<Rightarrow> string \<Rightarrow> string option" where
  "str_from i s = (if is_char_boundary i s then Some (drop i s) else None)"

section \<open>Splitting\<close>

fun split_when :: "('a \<Rightarrow> bool) \<Rightarrow> 'a list \<Rightarrow> 'a list list" where
  "split_when p [] = [[]]"
| "split_when p (x # xs) =
     (if p x then [] # split_when p xs
      else (x # hd (split_when p xs)) # tl (split_when p xs))"

definition split_whitespace :: "string \<Rightarrow> string list" where
  "split_whitespace s = filter (\<lambda>w. w \<noteq> []) (map concat (split_when is_white_char (str_chars s)))"

definition split_once :: "char \<Rightarrow> string \<Rightarrow> (string \<times> string) option" where
  "split_once c s =
     (if c \<in> set s then Some (takeWhile (\<lambda>x. x \<noteq> c) s, tl (dropWhile (\<lambda>x. x \<noteq> c) s)) else None)"

text \<open>\<open>lines\<close>: the parts ended by a line feed without their carriage return, and a non-empty rest.\<close>

definition strip_cr :: "string \<Rightarrow> string" where
  "strip_cr s = (if s \<noteq> [] \<and> last s = CHR 0x0D then butlast s else s)"

definition str_lines :: "string \<Rightarrow> string list" where
  "str_lines s =
     (let parts = split_on CHR 0x0A s
      in map strip_cr (butlast parts) @ (if last parts = [] then [] else [last parts]))"

section \<open>Searching\<close>

text \<open>\<open>find\<close> on strings, and \<open>windows(n).position\<close> on slices: the first place a pattern occurs at.\<close>

fun find_sub :: "'a list \<Rightarrow> 'a list \<Rightarrow> nat option" where
  "find_sub pat [] = (if pat = [] then Some 0 else None)"
| "find_sub pat (x # xs) = (if prefix pat (x # xs) then Some 0 else map_option Suc (find_sub pat xs))"

fun str_replace :: "string \<Rightarrow> string \<Rightarrow> string \<Rightarrow> string" where
  "str_replace pat new [] = []"
| "str_replace pat new (x # xs) =
     (if pat \<noteq> [] \<and> prefix pat (x # xs) then new @ str_replace pat new (drop (length pat - 1) xs)
      else x # str_replace pat new xs)"

section \<open>Numbers\<close>

definition is_digit :: "char \<Rightarrow> bool" where
  "is_digit c \<longleftrightarrow> 48 \<le> char_code c \<and> char_code c \<le> 57"

definition digits_value :: "string \<Rightarrow> nat" where
  "digits_value ds = foldl (\<lambda>v c. 10 * v + (char_code c - 48)) 0 ds"

text \<open>\<open>parse::<u64>\<close>, and \<open>usize\<close> on a 64-bit target: an optional plus sign, digits, no overflow.\<close>

definition parse_u64 :: "string \<Rightarrow> u64 option" where
  "parse_u64 s =
     (let ds = (if s \<noteq> [] \<and> hd s = CHR ''+'' then tl s else s)
      in if ds = [] \<or> \<not> list_all is_digit ds \<or> 2 ^ 64 \<le> digits_value ds then None
         else Some (of_nat (digits_value ds)))"

text \<open>\<open>{:X}\<close> and \<open>{:02X}\<close>.\<close>

definition hex_upper_digit :: "nat \<Rightarrow> char" where
  "hex_upper_digit n = ''0123456789ABCDEF'' ! (n mod 16)"

fun hex_upper :: "nat \<Rightarrow> string" where
  "hex_upper n = (if n < 16 then [hex_upper_digit n] else hex_upper (n div 16) @ [hex_upper_digit n])"

declare hex_upper.simps [simp del]

definition hex_upper_byte :: "u8 \<Rightarrow> string" where
  "hex_upper_byte b = [hex_upper_digit (unat b div 16), hex_upper_digit (unat b)]"

section \<open>Lemmas\<close>

named_theorems text_simps \<open>string functions\<close>

text \<open>The first occurrence.\<close>

lemma find_sub_Some:
  "find_sub pat xs = Some i \<longleftrightarrow> i \<le> length xs \<and> prefix pat (drop i xs) \<and> (\<forall>j<i. \<not> prefix pat (drop j xs))"
proof (induction xs arbitrary: i)
  case Nil
  then show ?case by auto
next
  case (Cons x xs)
  show ?case
  proof (cases i)
    case 0
    then show ?thesis by auto
  next
    case (Suc k)
    have "(\<forall>j<Suc k. \<not> prefix pat (drop j (x # xs)))
        \<longleftrightarrow> \<not> prefix pat (x # xs) \<and> (\<forall>j<k. \<not> prefix pat (drop j xs))"
      by (metis drop0 drop_Suc_Cons less_Suc_eq_0_disj)
    with Suc show ?thesis by (auto simp: Cons.IH)
  qed
qed

lemma find_sub_None: "find_sub pat xs = None \<longleftrightarrow> (\<forall>j\<le>length xs. \<not> prefix pat (drop j xs))"
proof (induction xs)
  case (Cons x xs)
  have "(\<forall>j\<le>length (x # xs). \<not> prefix pat (drop j (x # xs)))
      \<longleftrightarrow> \<not> prefix pat (x # xs) \<and> (\<forall>j\<le>length xs. \<not> prefix pat (drop j xs))"
    by (metis Suc_le_mono drop0 drop_Suc_Cons length_Cons not0_implies_Suc zero_le)
  then show ?case using Cons.IH by auto
qed auto

lemma find_sub_append:
  assumes "find_sub pat xs = Some i" "pat \<noteq> []"
  shows "find_sub pat (xs @ ys) = Some i"
proof -
  have i: "i \<le> length xs" "prefix pat (drop i xs)" "\<And>j. j < i \<Longrightarrow> \<not> prefix pat (drop j xs)"
    using assms(1) by (auto simp: find_sub_Some)
  have room: "i + length pat \<le> length xs"
    using prefix_length_le [OF i(2)] i(1) by simp
  have "\<not> prefix pat (drop j (xs @ ys))" if "j < i" for j
  proof
    assume "prefix pat (drop j (xs @ ys))"
    then have "pat = take (length pat) (drop j xs @ drop (j - length xs) ys)"
      by (metis append_eq_conv_conj drop_append prefix_def)
    moreover have "length pat \<le> length (drop j xs)" using room that by simp
    ultimately have "pat = take (length pat) (drop j xs)" by simp
    then show False using i(3) [OF that] by (metis take_is_prefix)
  qed
  then show ?thesis using i(1,2) by (auto simp: find_sub_Some intro: prefix_prefix)
qed

text \<open>Text that can be released: an occurrence that begins later than the last \<open>length pat\<close> places is not cut.\<close>

lemma find_sub_drop:
  assumes "find_sub pat xs = None" "pat \<noteq> []" "k + length pat \<le> length xs"
  shows "find_sub pat (xs @ ys) = map_option (\<lambda>i. k + i) (find_sub pat (drop k xs @ ys))"
proof -
  have none: "\<not> prefix pat (drop j (xs @ ys))" if "j < k" for j
  proof
    assume p: "prefix pat (drop j (xs @ ys))"
    have "length pat \<le> length (drop j xs)" using assms(3) that by simp
    moreover have "prefix (drop j xs) (drop j (xs @ ys))" by simp
    ultimately have "prefix pat (drop j xs)" using p prefix_length_prefix by blast
    then show False using assms(1,3) that by (auto simp: find_sub_None)
  qed
  have split: "drop (k + i) (xs @ ys) = drop i (drop k xs @ ys)" for i
    using assms(3) by (simp add: add.commute)
  show ?thesis
  proof (cases "find_sub pat (drop k xs @ ys)")
    case None
    have "\<not> prefix pat (drop j (xs @ ys))" if "j \<le> length (xs @ ys)" for j
    proof (cases "j < k")
      case False
      then obtain i where "j = k + i" using le_Suc_ex linorder_not_less by blast
      then show ?thesis using None split [of i] that assms(3) by (auto simp: find_sub_None)
    qed (rule none)
    then have "find_sub pat (xs @ ys) = None" unfolding find_sub_None by blast
    then show ?thesis using None by simp
  next
    case (Some i)
    then have i: "i \<le> length (drop k xs @ ys)" "prefix pat (drop i (drop k xs @ ys))"
        "\<And>j. j < i \<Longrightarrow> \<not> prefix pat (drop j (drop k xs @ ys))"
      by (auto simp: find_sub_Some)
    have "\<not> prefix pat (drop j (xs @ ys))" if "j < k + i" for j
    proof (cases "j < k")
      case False
      then obtain m where "j = k + m" using le_Suc_ex linorder_not_less by blast
      then show ?thesis using i(3) [of m] split [of m] that by simp
    qed (rule none)
    then have "find_sub pat (xs @ ys) = Some (k + i)"
      using i(1,2) split [of i] assms(3) by (simp add: find_sub_Some)
    then show ?thesis using Some by simp
  qed
qed

text \<open>Characters of a string, and the bytes that occur in them.\<close>

lemma concat_str_chars [simp, text_simps]: "concat (str_chars s) = s"
  by (induction s rule: str_chars.induct) auto

lemma is_white_single: "is_white_char [c] \<longleftrightarrow> (9 \<le> char_code c \<and> char_code c \<le> 13) \<or> char_code c = 32"
proof -
  have "is_white_char [c] \<longleftrightarrow> c \<in> char_of ` ({9 ..< 14} \<union> {32 :: nat})"
    by (auto simp: is_white_char_def whitespace_chars_def)
  also have "\<dots> \<longleftrightarrow> char_code c \<in> {9 ..< 14} \<union> {32}"
    unfolding char_code_def by (auto intro: rev_image_eqI) (metis char_of_char)
  finally show ?thesis by auto
qed

lemma str_chars_parts:
  "c \<in> set (str_chars s) \<Longrightarrow> (\<exists>x. c = [x] \<and> char_code x < 0x80) \<or> (c \<noteq> [] \<and> (\<forall>x\<in>set c. 0x80 \<le> char_code x))"
proof (induction s rule: str_chars.induct)
  case (2 x xs)
  show ?case
  proof (cases "char_code x < 0x80")
    case True
    then show ?thesis using 2 by auto
  next
    case False
    have "\<forall>y\<in>set (takeWhile is_tail_char xs). 0x80 \<le> char_code y"
      using set_takeWhileD [of _ is_tail_char xs] by (auto simp: is_tail_char_def)
    then show ?thesis using 2 False by auto
  qed
qed simp

lemma parse_u64_Some:
  "parse_u64 s = Some v \<Longrightarrow> \<exists>ds. ds \<noteq> [] \<and> list_all is_digit ds \<and> (s = ds \<or> s = CHR ''+'' # ds)
     \<and> unat v = digits_value ds"
proof -
  assume a: "parse_u64 s = Some v"
  define ds where "ds = (if s \<noteq> [] \<and> hd s = CHR ''+'' then tl s else s)"
  have "ds \<noteq> []" "list_all is_digit ds" "digits_value ds < 2 ^ 64" "v = of_nat (digits_value ds)"
    using a unfolding parse_u64_def ds_def [symmetric] Let_def
    by (simp_all add: linorder_not_le del: power_numeral split: if_split_asm)
  moreover have "s = ds \<or> s = CHR ''+'' # ds" by (cases s) (auto simp: ds_def)
  ultimately show ?thesis using unat_of_nat_u64 by blast
qed

end
