(* ===== verification/Nxfr_Commands.thy ===== *)
theory Nxfr_Commands
  imports Nxfr_Outbound Nxfr_Connection Nxfr_Text
begin

text \<open>
  A client of the IPC socket (\<open>handle_ipc_client\<close> of \<open>nxfr-daemon/src/ipc.rs\<close>): the command loop and the
  commands that stream their events, \<open>watch\<close>, \<open>send\<close> and \<open>pair\<close>.

  The input of a client is a list: the lines it sends, a read that fails, and between them what goes on
  meanwhile: other tasks act on the shared state or broadcast an event, the deadline of a pending
  \<open>pair_confirm\<close> passes, the select of \<open>watch\<close> takes the channel. The list ends when the client
  disconnects. A write to the client may fail. The JSON parser is a parameter.
\<close>

section \<open>State\<close>

record cmd_lib = out_lib +
  cl_to_toml :: "NxfrConfig \<Rightarrow> string + bytes"
  cl_from_json :: "string \<Rightarrow> string + IpcRequest"
  cl_error_text :: "out_error \<Rightarrow> string"
  cl_cwd :: abspath

datatype client_input =
    CiLine string
  | CiReadError string
  | CiTask nat task_action
  | CiBroadcast IpcEvent
  | CiReceive
  | CiLate

datatype ipc_error =
    IeIo string
  | IeOut out_error
  | IePanic

record ipc_state =
  ic_out :: out_state
  ic_input :: "client_input list"
  ic_written :: "IpcEvent list"
  ic_faults :: "string option list"
  ic_room :: "bool list"
  ic_race :: "client_input list"

abbreviation ic_daemon :: "ipc_state \<Rightarrow> DaemonState" where
  "ic_daemon s \<equiv> os_daemon (ic_out s)"

definition on_daemon :: "(DaemonState \<Rightarrow> 'a \<times> DaemonState) \<Rightarrow> ipc_state \<Rightarrow> 'a \<times> ipc_state" where
  "on_daemon f s = (case f (ic_daemon s) of (r, dm) \<Rightarrow> (r, s\<lparr>ic_out := (ic_out s)\<lparr>os_daemon := dm\<rparr>\<rparr>))"

definition daemon_step :: "(DaemonState \<Rightarrow> DaemonState) \<Rightarrow> ipc_state \<Rightarrow> ipc_state" where
  "daemon_step f s = s\<lparr>ic_out := (ic_out s)\<lparr>os_daemon := f (ic_daemon s)\<rparr>\<rparr>"

definition on_out :: "(out_state \<Rightarrow> 'a \<times> out_state) \<Rightarrow> ipc_state \<Rightarrow> 'a \<times> ipc_state" where
  "on_out f s = (case f (ic_out s) of (r, u) \<Rightarrow> (r, s\<lparr>ic_out := u\<rparr>))"

text \<open>A call whose error is returned with \<open>?\<close>.\<close>

definition try_out :: "(out_state \<Rightarrow> (out_error + 'a) \<times> out_state) \<Rightarrow> ipc_state \<Rightarrow> (ipc_error + 'a) \<times> ipc_state" where
  "try_out f s = (case on_out f s of (r, s) \<Rightarrow> (map_err IeOut r, s))"

text \<open>One event as a line of JSON, written and flushed; its serialization does not fail.\<close>

definition write_event :: "IpcEvent \<Rightarrow> ipc_state \<Rightarrow> (ipc_error + unit) \<times> ipc_state" where
  "write_event event s =
     (case ic_faults s of
        Some e # fs \<Rightarrow> (Inl (IeIo e), s\<lparr>ic_faults := fs\<rparr>)
      | None # fs \<Rightarrow> (Inr (), s\<lparr>ic_faults := fs, ic_written := ic_written s @ [event]\<rparr>)
      | [] \<Rightarrow> (Inr (), s\<lparr>ic_written := ic_written s @ [event]\<rparr>))"

text \<open>What other tasks do between two steps of this one.\<close>

definition meanwhile :: "cmd_lib \<Rightarrow> client_input \<Rightarrow> DaemonState \<Rightarrow> DaemonState" where
  "meanwhile lib i dm =
     (case i of
        CiTask now act \<Rightarrow> task_step (cl_to_toml lib) now act dm
      | CiBroadcast event \<Rightarrow> broadcast_to_watchers event dm
      | _ \<Rightarrow> dm)"

section \<open>The address of a device\<close>

text \<open>
  The first entry of the browse cache whose hint starts with the first eight bytes of the id. The slice
  panics inside a character; it is taken for each entry, so not when the cache is empty.
\<close>

definition cached_device :: "string \<Rightarrow> DaemonState \<Rightarrow> ipc_error + BrowseEntry option" where
  "cached_device device_id dm =
     (let cache = map snd (ds_browse_cache dm); n = min 8 (length device_id)
      in if cache \<noteq> [] \<and> \<not> is_char_boundary n device_id then Inl IePanic
         else Inr (find (\<lambda>e. prefix (take n device_id) (be_device_id_hint e)) cache))"

definition device_addr :: "string \<Rightarrow> string option \<Rightarrow> string \<Rightarrow> DaemonState \<Rightarrow> ipc_error + (string + string)" where
  "device_addr device_id given missing dm =
     (case given of
        Some a \<Rightarrow> Inr (Inr a)
      | None \<Rightarrow> and_then (cached_device device_id dm) (\<lambda>found. Inr (
          case found of
            None \<Rightarrow> Inl missing
          | Some entry \<Rightarrow>
              (case be_addresses entry of
                 addr # _ \<Rightarrow> Inr (addr @ '':'' @ dec_string (unat (be_port entry)))
               | [] \<Rightarrow> Inl ''no address for target device''))))"

text \<open>Answer with an error and return from the command.\<close>

definition refuse :: "string \<Rightarrow> ipc_state \<Rightarrow> (ipc_error + unit) \<times> ipc_state" where
  "refuse msg s = write_event (err_response msg) s"

section \<open>Watching\<close>

text \<open>The queue of the own channel: when the daemon dropped its sender, what was queued is still there.\<close>

definition own_queue :: "nat \<Rightarrow> IpcEvent list \<Rightarrow> DaemonState \<Rightarrow> IpcEvent list" where
  "own_queue ch evs dm = (case find (\<lambda>w. wt_id w = ch) (ds_watchers dm) of None \<Rightarrow> evs | Some w \<Rightarrow> wt_queue w)"

definition own_update :: "nat \<Rightarrow> (watcher \<Rightarrow> watcher) \<Rightarrow> DaemonState \<Rightarrow> DaemonState" where
  "own_update ch f dm = dm\<lparr>ds_watchers := map (\<lambda>w. if wt_id w = ch then f w else w) (ds_watchers dm)\<rparr>"

definition sender_dropped :: "nat \<Rightarrow> DaemonState \<Rightarrow> bool" where
  "sender_dropped ch dm \<longleftrightarrow> ch \<notin> wt_id ` set (ds_watchers dm)"

text \<open>The receiver belongs to this task: what other tasks do to theirs does not concern it.\<close>

definition acts_on_own :: "nat \<Rightarrow> client_input \<Rightarrow> DaemonState \<Rightarrow> bool" where
  "acts_on_own ch i dm \<longleftrightarrow>
     (case i of
        CiTask now (WatcherReads n) \<Rightarrow> n < length (ds_watchers dm) \<and> wt_id (ds_watchers dm ! n) = ch
      | CiTask now (WatcherLeaves n) \<Rightarrow> n < length (ds_watchers dm) \<and> wt_id (ds_watchers dm ! n) = ch
      | _ \<Rightarrow> False)"

definition watch_meanwhile :: "cmd_lib \<Rightarrow> nat \<Rightarrow> client_input \<Rightarrow> DaemonState \<Rightarrow> DaemonState" where
  "watch_meanwhile lib ch i dm = (if acts_on_own ch i dm then dm else meanwhile lib i dm)"

text \<open>A line on a watch connection; that the answer cannot be written is ignored.\<close>

definition watch_line :: "cmd_lib \<Rightarrow> string \<Rightarrow> ipc_state \<Rightarrow> ipc_state" where
  "watch_line lib l s =
     (let line = str_trim l
      in if line = [] then s
         else case cl_from_json lib line of
           Inl e \<Rightarrow> snd (refuse (''invalid JSON: '' @ e) s)
         | Inr req \<Rightarrow> (case on_daemon (watch_command req) s of (event, s) \<Rightarrow> snd (write_event event s)))"

fun watch_loop :: "cmd_lib \<Rightarrow> nat \<Rightarrow> IpcEvent list \<Rightarrow> client_input list \<Rightarrow> ipc_state \<Rightarrow> ipc_state" where
  "watch_loop lib ch evs [] s = s"
| "watch_loop lib ch evs (CiReadError e # ins) s = s"
| "watch_loop lib ch evs (CiLine l # ins) s = watch_loop lib ch evs ins (watch_line lib l s)"
| "watch_loop lib ch evs (CiReceive # ins) s =
     (case evs of
        [] \<Rightarrow> if sender_dropped ch (ic_daemon s) then s else watch_loop lib ch evs ins s
      | event # evs' \<Rightarrow>
          (case write_event event (daemon_step (own_update ch (wt_queue_update (\<lambda>_. evs'))) s) of
             (Inl _, s) \<Rightarrow> s
           | (Inr _, s) \<Rightarrow> watch_loop lib ch evs' ins s))"
| "watch_loop lib ch evs (i # ins) s =
     (let s = daemon_step (watch_meanwhile lib ch i) s in watch_loop lib ch (own_queue ch evs (ic_daemon s)) ins s)"

fun replay_offers :: "IpcEvent list \<Rightarrow> ipc_state \<Rightarrow> (ipc_error + unit) \<times> ipc_state" where
  "replay_offers [] s = (Inr (), s)"
| "replay_offers (event # events) s = io_then (write_event event s) (\<lambda>_ s. replay_offers events s)"

text \<open>When the command returns the receiver of the channel is dropped.\<close>

definition watch_leave :: "nat \<Rightarrow> ipc_state \<Rightarrow> ipc_state" where
  "watch_leave ch s = daemon_step (own_update ch (wt_closed_update (\<lambda>_. True))) s"

text \<open>
  What happens between the registration and the replay of the offers (\<open>ic_race\<close>): the channel is already
  open, the offers are looked at afterwards.
\<close>

fun watch_race :: "cmd_lib \<Rightarrow> nat \<Rightarrow> IpcEvent list \<Rightarrow> client_input list \<Rightarrow> ipc_state \<Rightarrow> IpcEvent list \<times> ipc_state" where
  "watch_race lib ch evs [] s = (evs, s)"
| "watch_race lib ch evs (i # is) s =
     (let s = daemon_step (watch_meanwhile lib ch i) s in watch_race lib ch (own_queue ch evs (ic_daemon s)) is s)"

definition watch_registered :: "cmd_lib \<Rightarrow> ipc_state \<Rightarrow> IpcEvent list \<times> ipc_state" where
  "watch_registered lib s =
     watch_race lib (ds_next_channel (ic_daemon s)) [] (ic_race s) (snd (on_daemon watch_register s))"

definition unresolved_offers :: "DaemonState \<Rightarrow> IpcEvent list" where
  "unresolved_offers dm = map po_offer_event (filter (\<lambda>offer. po_respond_to offer \<noteq> None) (map snd (ds_pending_offers dm)))"

definition watch_ack :: IpcEvent where
  "watch_ack = ok_response (JObj [(''status'', JStr ''watching''), (''message'', JStr ''Subscribed to transfer events'')])"

definition cmd_watch :: "cmd_lib \<Rightarrow> ipc_state \<Rightarrow> (ipc_error + unit) \<times> ipc_state" where
  "cmd_watch lib s =
     (let ch = ds_next_channel (ic_daemon s)
      in case watch_registered lib s of (evs, s) \<Rightarrow>
         case replay_offers (unresolved_offers (ic_daemon s)) s of
           (Inl _, s) \<Rightarrow> (Inr (), watch_leave ch s)
         | (Inr _, s) \<Rightarrow>
             (case write_event watch_ack s of
                (Inl e, s) \<Rightarrow> (Inl e, watch_leave ch s)
              | (Inr _, s) \<Rightarrow> (Inr (), watch_leave ch (watch_loop lib ch evs (ic_input s) (s\<lparr>ic_input := []\<rparr>)))))"

section \<open>Sending\<close>

definition is_ascii_hexdigit :: "char \<Rightarrow> bool" where
  "is_ascii_hexdigit c \<longleftrightarrow> c \<in> set ''0123456789abcdefABCDEF''"

definition hex_device_id :: "string \<Rightarrow> bool" where
  "hex_device_id i \<longleftrightarrow> length i = 64 \<and> list_all is_ascii_hexdigit i"

text \<open>\<open>PathBuf::from\<close> and the working directory of the daemon.\<close>

definition path_from :: "abspath \<Rightarrow> string \<Rightarrow> abspath" where
  "path_from cwd s =
     (let parts = filter (\<lambda>p. p \<noteq> [] \<and> p \<noteq> ''.'') (split_on CHR ''/'' s)
      in if s \<noteq> [] \<and> hd s = CHR ''/'' then parts else cwd @ parts)"

definition path_exists :: "abspath \<Rightarrow> ipc_state \<Rightarrow> bool \<times> ipc_state" where
  "path_exists p s = (case on_out (ob_world (fs_file_size p)) s of (r, s) \<Rightarrow> (case r of Inl _ \<Rightarrow> False | Inr _ \<Rightarrow> True, s))"

text \<open>
  The progress events, through a channel of 64 that drops what finds it full (\<open>ic_room\<close> tells which do),
  to the client until a write fails.
\<close>

fun forward_progress :: "Progress list \<Rightarrow> ipc_state \<Rightarrow> ipc_state" where
  "forward_progress [] s = s"
| "forward_progress (p # ps) s =
     (case ic_room s of
        False # room \<Rightarrow> forward_progress ps (s\<lparr>ic_room := room\<rparr>)
      | _ \<Rightarrow> (case write_event (EvProgress p) (s\<lparr>ic_room := tl (ic_room s)\<rparr>) of
          (Inl _, s) \<Rightarrow> s
        | (Inr _, s) \<Rightarrow> forward_progress ps s))"

definition send_task :: "cmd_lib \<Rightarrow> string \<Rightarrow> abspath \<Rightarrow> string option \<Rightarrow> out_state \<Rightarrow> (out_error + string) \<times> out_state" where
  "send_task lib target file_path retry_id =
     (case retry_id of
        Some retry_tid \<Rightarrow> handle_outbound_resume (out_lib.truncate lib) target file_path retry_tid True
      | None \<Rightarrow> handle_outbound_send (out_lib.truncate lib) target file_path True)"

text \<open>Run the transfer and report its outcome; the task does not panic.\<close>

definition send_report :: "cmd_lib \<Rightarrow> string \<Rightarrow> abspath \<Rightarrow> string option \<Rightarrow> ipc_state \<Rightarrow> (ipc_error + unit) \<times> ipc_state" where
  "send_report lib target file_path retry_id s =
     (case on_out (send_task lib target file_path retry_id) s of (r, s1) \<Rightarrow>
        let s2 = forward_progress (drop (length (os_events (ic_out s))) (os_events (ic_out s1))) s1
        in case r of
             Inr transfer_id \<Rightarrow>
               (case on_out (ob_world (fs_file_size file_path)) s2 of (q, s3) \<Rightarrow>
                  write_event (EvTransferComplete transfer_id 1 (case q of Inl _ \<Rightarrow> 0 | Inr n \<Rightarrow> n)) s3)
           | Inl e \<Rightarrow> write_event (EvError ''send_failed'' (cl_error_text lib e)) s2)"

definition connecting_response :: "bool \<Rightarrow> string \<Rightarrow> string \<Rightarrow> IpcEvent" where
  "connecting_response is_retry path target = ok_response (JObj
     [(''status'', JStr ''connecting''),
      (''message'', JStr ((if is_retry then ''Resuming'' else ''Sending'') @ '' '' @ path @ '' to '' @ target)),
      (''retry'', JBool is_retry)])"

definition send_checked :: "cmd_lib \<Rightarrow> IpcRequest \<Rightarrow> string \<Rightarrow> string \<Rightarrow> ipc_state \<Rightarrow> (ipc_error + unit) \<times> ipc_state" where
  "send_checked lib req path target s =
     (case device_addr target (rq_target_addr req) ''missing 'target_addr' and device not in browse cache'' (ic_daemon s) of
        Inl e \<Rightarrow> (Inl e, s)
      | Inr (Inl msg) \<Rightarrow> refuse msg s
      | Inr (Inr _) \<Rightarrow>
          let file_path = path_from (cl_cwd lib) path
          in case path_exists file_path s of (found, s) \<Rightarrow>
             if \<not> found then refuse (''file not found: '' @ path) s
             else io_then (write_event (connecting_response (rq_retry_transfer_id req \<noteq> None) path target) s) (\<lambda>_ s.
                    send_report lib target file_path (rq_retry_transfer_id req) s))"

definition cmd_send_streaming :: "cmd_lib \<Rightarrow> IpcRequest \<Rightarrow> ipc_state \<Rightarrow> (ipc_error + unit) \<times> ipc_state" where
  "cmd_send_streaming lib req s =
     (case rq_path req of
        None \<Rightarrow> refuse ''missing 'path' field'' s
      | Some path \<Rightarrow>
          (case rq_target_device_id req of
             None \<Rightarrow> refuse ''missing 'target_device_id' field'' s
           | Some target \<Rightarrow>
               if \<not> hex_device_id target
               then refuse ''target_device_id must be a 64-character hex string; use `nxfr devices` to find device IDs'' s
               else send_checked lib req path target s))"

section \<open>Pairing\<close>

text \<open>The answer in a line from the client, if the line is a \<open>pair_confirm\<close>.\<close>

definition confirm_line :: "cmd_lib \<Rightarrow> string \<Rightarrow> bool option" where
  "confirm_line lib l =
     (let line = str_trim l
      in if line = [] then None
         else case cl_from_json lib line of
           Inl _ \<Rightarrow> None
         | Inr req \<Rightarrow> if rq_cmd req = ''pair_confirm''
                     then Some (case rq_accepted req of None \<Rightarrow> False | Some a \<Rightarrow> a) else None)"

text \<open>With the deadline of a minute around it.\<close>

fun wait_for_pair_confirm :: "cmd_lib \<Rightarrow> client_input list \<Rightarrow> DaemonState \<Rightarrow> (string + bool) \<times> client_input list \<times> DaemonState" where
  "wait_for_pair_confirm lib [] dm = (Inl ''IPC client disconnected before pair_confirm'', [], dm)"
| "wait_for_pair_confirm lib (CiReadError e # ins) dm = (Inl e, ins, dm)"
| "wait_for_pair_confirm lib (CiLate # ins) dm = (Inl ''pair_confirm timed out after 60s'', ins, dm)"
| "wait_for_pair_confirm lib (CiLine l # ins) dm =
     (case confirm_line lib l of
        Some a \<Rightarrow> (Inr a, ins, dm)
      | None \<Rightarrow> wait_for_pair_confirm lib ins dm)"
| "wait_for_pair_confirm lib (i # ins) dm = wait_for_pair_confirm lib ins (meanwhile lib i dm)"

definition pair_confirmed :: "cmd_lib \<Rightarrow> ipc_state \<Rightarrow> bool \<times> ipc_state" where
  "pair_confirmed lib s =
     (case wait_for_pair_confirm lib (ic_input s) (ic_daemon s) of (r, ins, dm) \<Rightarrow>
        (case r of Inl _ \<Rightarrow> False | Inr a \<Rightarrow> a, s\<lparr>ic_input := ins, ic_out := (ic_out s)\<lparr>os_daemon := dm\<rparr>\<rparr>))"

text \<open>The key of the first certificate of the stream, empty when there is none.\<close>

definition stream_spki :: "cmd_lib \<Rightarrow> out_state \<Rightarrow> bytes" where
  "stream_spki lib s =
     (case (case os_streams s of [] \<Rightarrow> [] | p # _ \<Rightarrow> (case ps_certs p of None \<Rightarrow> [] | Some certs \<Rightarrow> certs)) of
        [] \<Rightarrow> []
      | cert # _ \<Rightarrow> (case extract_spki (ol_x509 lib) cert of Inl _ \<Rightarrow> [] | Inr spki \<Rightarrow> spki))"

definition pair_device :: "string \<Rightarrow> string \<Rightarrow> bytes \<Rightarrow> nat \<Rightarrow> nat \<Rightarrow> PairedDevice" where
  "pair_device device_id peer_name spki first_seen last_seen =
     \<lparr>pd_device_id = device_id, pd_name = peer_name, pd_public_key_spki = spki,
      pd_first_seen = int first_seen, pd_last_seen = int last_seen, pd_trust_level = ''paired'', pd_auto_accept = ''prompt''\<rparr>"

text \<open>Pin the device; that the row could not be stored is only logged.\<close>

definition pair_store :: "cmd_lib \<Rightarrow> string \<Rightarrow> string \<Rightarrow> out_state \<Rightarrow> out_state" where
  "pair_store lib device_id peer_name s =
     (case ob_clock s of (t1, s) \<Rightarrow>
      case ob_clock s of (t2, s) \<Rightarrow>
        let db = snd (insert_or_update (pair_device device_id peer_name (stream_spki lib s) t1 t2) (ds_db (os_daemon s)))
        in s\<lparr>os_daemon := (os_daemon s)\<lparr>ds_db := db\<rparr>\<rparr>)"

text \<open>The peer's answer to our acceptance; the result tells whether the session is then closed.\<close>

definition pair_answer :: "cmd_lib \<Rightarrow> string \<Rightarrow> string \<Rightarrow> ControlMessage \<Rightarrow> ipc_state \<Rightarrow> (ipc_error + bool) \<times> ipc_state" where
  "pair_answer lib device_id peer_name msg s =
     (case msg of
        PairAccept \<Rightarrow>
          (case on_out (\<lambda>u. ((), pair_store lib device_id peer_name u)) s of (_, s) \<Rightarrow>
             io_then (write_event (EvPairSuccess device_id peer_name) s) (\<lambda>_ s. (Inr True, s)))
      | PairReject reason \<Rightarrow>
          io_then (write_event (EvPairFailed (case reason of None \<Rightarrow> ''peer rejected'' | Some r \<Rightarrow> r)) s) (\<lambda>_ s. (Inr False, s))
      | _ \<Rightarrow> io_then (write_event (EvPairFailed ''unexpected response from peer'') s) (\<lambda>_ s. (Inr False, s)))"

definition pair_decided :: "cmd_lib \<Rightarrow> u32 \<Rightarrow> string \<Rightarrow> string \<Rightarrow> bool \<Rightarrow> ipc_state \<Rightarrow> (ipc_error + bool) \<times> ipc_state" where
  "pair_decided lib session device_id peer_name accepted s =
     (if accepted then
        io_then (try_out (ob_send (out_lib.truncate lib) session PairAccept) s) (\<lambda>_ s.
        io_then (try_out (ob_recv (out_lib.truncate lib)) s) (\<lambda>msg s.
          pair_answer lib device_id peer_name msg s))
      else
        io_then (try_out (ob_send (out_lib.truncate lib) session (PairReject (Some ''user_rejected''))) s) (\<lambda>_ s.
        io_then (write_event (EvPairFailed ''user rejected pairing'') s) (\<lambda>_ s. (Inr True, s))))"

definition peer_id_bytes :: "cmd_lib \<Rightarrow> string \<Rightarrow> bytes" where
  "peer_id_bytes lib device_id =
     (case ol_hex_decode lib device_id of
        Inr decoded \<Rightarrow> if length decoded = 32 then decoded else replicate 32 0
      | Inl _ \<Rightarrow> replicate 32 0)"

text \<open>Once connected: ask the peer, show the code, wait for the user, decide, close.\<close>

definition pair_connected :: "cmd_lib \<Rightarrow> string \<Rightarrow> u32 \<Rightarrow> string \<Rightarrow> bytes \<Rightarrow> ipc_state \<Rightarrow> (ipc_error + unit) \<times> ipc_state" where
  "pair_connected lib device_id session peer_name exporter_bytes s =
     (let sas_code = fst (derive_sas (ds_device_id (ic_daemon s)) (peer_id_bytes lib device_id) exporter_bytes)
      in io_then (try_out (ob_send (out_lib.truncate lib) session (PairRequest ''numeric-6'')) s) (\<lambda>_ s.
         io_then (write_event (EvSasPrompt peer_name device_id sas_code) s) (\<lambda>_ s.
         case pair_confirmed lib s of (accepted, s) \<Rightarrow>
         io_then (pair_decided lib session device_id peer_name accepted s) (\<lambda>close s.
           if close then try_out (ob_send (out_lib.truncate lib) session (SessionClose (Some ''pairing_complete''))) s
           else (Inr (), s)))))"

definition pair_addressed :: "cmd_lib \<Rightarrow> string \<Rightarrow> string \<Rightarrow> ipc_state \<Rightarrow> (ipc_error + unit) \<times> ipc_state" where
  "pair_addressed lib device_id target_addr s =
     (case on_daemon (\<lambda>dm. case is_paired device_id (ds_db dm) of (b, db) \<Rightarrow> (b, dm\<lparr>ds_db := db\<rparr>)) s of (paired, s) \<Rightarrow>
        if paired then refuse (''device '' @ device_id @ '' is already paired'') s
        else io_then (write_event (ok_response (JObj [(''status'', JStr ''connecting''),
                        (''message'', JStr (''Connecting to '' @ target_addr @ ''...''))])) s) (\<lambda>_ s.
             case on_out (connect_to_peer (out_lib.truncate lib) device_id) s of
               (Inl e, s) \<Rightarrow> write_event (EvPairFailed (''connection failed: '' @ cl_error_text lib e)) s
             | (Inr (session, peer_name, exporter_bytes), s) \<Rightarrow>
                 pair_connected lib device_id session peer_name exporter_bytes s))"

definition cmd_pair_streaming :: "cmd_lib \<Rightarrow> IpcRequest \<Rightarrow> ipc_state \<Rightarrow> (ipc_error + unit) \<times> ipc_state" where
  "cmd_pair_streaming lib req s =
     (case rq_device_id req of
        None \<Rightarrow> refuse ''missing 'device_id' field'' s
      | Some device_id \<Rightarrow>
          (case device_addr device_id (rq_target_addr req)
                  (''missing 'target_addr' '' @ map char_of [226, 128, 148 :: nat] @ '' address required when peer is not in cache'')
                  (ic_daemon s) of
             Inl e \<Rightarrow> (Inl e, s)
           | Inr (Inl msg) \<Rightarrow> refuse msg s
           | Inr (Inr target_addr) \<Rightarrow> pair_addressed lib device_id target_addr s))"

section \<open>The command loop\<close>

text \<open>One line; the result tells whether the client is served further.\<close>

definition ipc_request :: "cmd_lib \<Rightarrow> IpcRequest \<Rightarrow> ipc_state \<Rightarrow> (ipc_error + bool) \<times> ipc_state" where
  "ipc_request lib req s =
     (if rq_cmd req = ''send'' then io_then (cmd_send_streaming lib req s) (\<lambda>_ s. (Inr True, s))
      else if rq_cmd req = ''pair'' then io_then (cmd_pair_streaming lib req s) (\<lambda>_ s. (Inr True, s))
      else if rq_cmd req = ''watch'' then io_then (cmd_watch lib s) (\<lambda>_ s. (Inr False, s))
      else case on_out ob_clock s of (now, s) \<Rightarrow>
           case on_daemon (ipc_dispatch (cl_to_toml lib) now req) s of (event, s) \<Rightarrow>
             io_then (case event of None \<Rightarrow> (Inr (), s) | Some e \<Rightarrow> write_event e s) (\<lambda>_ s. (Inr True, s)))"

definition ipc_line :: "cmd_lib \<Rightarrow> string \<Rightarrow> ipc_state \<Rightarrow> (ipc_error + bool) \<times> ipc_state" where
  "ipc_line lib l s =
     (let line = str_trim l
      in if line = [] then (Inr True, s)
         else case cl_from_json lib line of
           Inl e \<Rightarrow> io_then (refuse (''invalid JSON: '' @ e) s) (\<lambda>_ s. (Inr True, s))
         | Inr req \<Rightarrow> ipc_request lib req s)"

text \<open>
  What a step leaves of the input and of the coming dials is the rest of them, and what it writes comes
  after what was written before.
\<close>

definition onward :: "out_state \<Rightarrow> out_state \<Rightarrow> bool" where
  "onward u s \<longleftrightarrow> suffix (os_dials s) (os_dials u) \<and> ds_device_id (os_daemon s) = ds_device_id (os_daemon u) \<and>
     rows_from (\<lambda>_ _. False) (os_daemon u) (os_daemon s)"

definition steady :: "ipc_state \<Rightarrow> ipc_state \<Rightarrow> bool" where
  "steady s s' \<longleftrightarrow> suffix (ic_input s') (ic_input s) \<and> prefix (ic_written s) (ic_written s') \<and> onward (ic_out s) (ic_out s')"

lemma rows_from_False_trans:
  "rows_from (\<lambda>_ _. False) dm dm1 \<Longrightarrow> rows_from (\<lambda>_ _. False) dm1 dm2 \<Longrightarrow> rows_from (\<lambda>_ _. False) dm dm2"
  by (rule rows_from_trans) simp_all

lemma onward_refl [simp]: "onward s s" by (simp add: onward_def rows_from_same)

lemma onward_trans: "onward s s1 \<Longrightarrow> onward s1 s2 \<Longrightarrow> onward s s2"
  unfolding onward_def by (metis rows_from_False_trans suffix_order.trans)

lemma onward_state:
  assumes "onward u s" "os_dials s' = os_dials s" "ds_device_id (os_daemon s') = ds_device_id (os_daemon s)"
    and "db_rows (ds_db (os_daemon s')) = db_rows (ds_db (os_daemon s))"
  shows "onward u s'"
  using onward_trans [OF assms(1), of s'] assms(2-4) by (simp add: onward_def rows_from_same)

named_theorems onward_intros \<open>steps that add no row and go on with the dials\<close>

lemma on_conn_onward [onward_intros]: "onward u s \<Longrightarrow> onward u (snd (on_conn f s))"
  by (erule onward_state) (simp_all add: on_conn_def case_prod_beta split: list.splits)

lemma ob_send_onward [onward_intros]: "onward u s \<Longrightarrow> onward u (snd (ob_send lib i m s))"
  using on_conn_onward by (simp add: ob_send_def case_prod_beta)

lemma ob_recv_onward [onward_intros]: "onward u s \<Longrightarrow> onward u (snd (ob_recv lib s))"
  using on_conn_onward [of u s recv_frame] by (simp add: ob_recv_def case_prod_beta split: sum.splits)

lemma ob_recv_within_onward [onward_intros]:
  assumes "onward u s"
  shows "onward u (snd (ob_recv_within lib e s))"
proof -
  have "onward u (s\<lparr>os_timely := ts\<rparr>)" for ts by (rule onward_state [OF assms]) simp_all
  then show ?thesis
    using assms by (auto simp: ob_recv_within_def ob_recv_onward split: list.splits bool.splits)
qed

lemma ob_transmit_onward [onward_intros]: "onward u s \<Longrightarrow> onward u (snd (ob_transmit run s))"
  by (erule onward_state) (auto simp: ob_transmit_def split: prod.splits list.splits)

lemma ob_world_onward [onward_intros]: "onward u s \<Longrightarrow> onward u (snd (ob_world call s))"
  by (erule onward_state) (simp_all add: ob_world_def case_prod_beta)

lemma ob_clock_onward [onward_intros]: "onward u s \<Longrightarrow> onward u (snd (ob_clock s))"
  by (erule onward_state) (simp_all add: ob_clock_def split: list.splits)

lemma world_onward [onward_intros]: "onward u s \<Longrightarrow> onward u (s\<lparr>os_daemon := (os_daemon s)\<lparr>ds_world := w\<rparr>\<rparr>)"
  by (erule onward_state) simp_all

lemma ob_dial_onward [onward_intros]: "onward u s \<Longrightarrow> onward u (snd (ob_dial s))"
  by (rule onward_trans, assumption)
    (auto simp: ob_dial_def onward_def rows_from_same suffix_Cons split: list.splits sum.splits)

lemma is_paired_state: "snd (is_paired t db) = snd (paired_lookup t db)"
  by (auto simp: is_paired_def split: prod.splits sum.splits option.splits)

lemma ob_hello_onward [onward_intros]: "onward u s \<Longrightarrow> onward u (snd (ob_hello t s))"
  by (rule onward_trans, assumption)
    (simp add: ob_hello_def Let_def case_prod_beta onward_def is_paired_state rows_from_lookup)

lemmas [onward_intros] = io_then_inv [where P = "onward u" for u]

lemma connect_onward [onward_intros]: "onward u s \<Longrightarrow> onward u (snd (connect_to_peer lib t s))"
  unfolding connect_to_peer_def case_prod_beta by (intro onward_intros) (auto intro!: onward_intros)

lemma transfer_answer_onward [onward_intros]:
  assumes "onward u s"
  shows "onward u (snd (transfer_answer lib i tid tg nm sz h msg s))"
proof -
  obtain t1 s1 where s1: "ob_clock s = (t1, s1)" by fastforce
  obtain t2 s2 where s2: "ob_clock s1 = (t2, s2)" by fastforce
  have "onward u s1" using ob_clock_onward [OF assms] s1 by simp
  then have "onward u s2" using ob_clock_onward [of u s1] s2 by simp
  then show ?thesis
    using s1 s2 assms by (cases msg) (auto simp: transfer_answer_def Let_def intro!: onward_intros)
qed

lemma ob_finish_onward [onward_intros]: "onward u s \<Longrightarrow> onward u (snd (ob_finish lib i tid s))"
  unfolding ob_finish_def Let_def by (intro onward_intros) (auto intro!: onward_intros)

lemma ob_transfer_onward [onward_intros]: "onward u s \<Longrightarrow> onward u (snd (ob_transfer lib i tg pr tid nm sz d h s))"
  unfolding ob_transfer_def by (intro onward_intros) (auto intro!: onward_intros)

lemma send_onward [onward_intros]: "onward u s \<Longrightarrow> onward u (snd (handle_outbound_send lib t p b s))"
  unfolding handle_outbound_send_def Let_def case_prod_beta by (intro onward_intros) (auto intro!: onward_intros)

lemma resume_file_onward [onward_intros]:
  assumes "onward u s"
  shows "onward u (snd (ob_resume_file lib i t p b tid skip s))"
proof -
  have "onward u (snd (case msg of
            FileMetadataAck _ _ _ False \<Rightarrow>
              io_then (ob_send lib i (SessionClose (Some ''resume_metadata_rejected'')) v) (\<lambda>_ s.
                handle_outbound_send lib t p b s)
          | FileMetadataAck _ _ _ True \<Rightarrow>
              io_then (ob_transmit run v) (\<lambda>_ s. ob_finish lib i tid s)
          | _ \<Rightarrow> (Inl (OeText e), v)))" if "onward u v" for msg v run e
    using that by (cases msg) (auto intro!: onward_intros split: bool.splits)
  then show ?thesis
    unfolding ob_resume_file_def Let_def by (intro onward_intros) (auto intro!: onward_intros assms)
qed

lemma resume_onward [onward_intros]:
  assumes "onward u s"
  shows "onward u (snd (handle_outbound_resume lib t p tid b s))"
  unfolding handle_outbound_resume_def case_prod_beta
  by (intro onward_intros) (auto intro!: onward_intros assms split: option.splits)

lemma steady_refl [simp]: "steady s s" by (simp add: steady_def)

lemma steady_trans: "steady s s1 \<Longrightarrow> steady s1 s2 \<Longrightarrow> steady s s2"
  unfolding steady_def using onward_trans suffix_order.trans prefix_order.trans by blast

named_theorems steady_intros \<open>steps of a client that add no row\<close>

lemmas [steady_intros] = io_then_inv [where P = "steady u" for u]

lemma write_event_steady [steady_intros]: "steady u s \<Longrightarrow> steady u (snd (write_event e s))"
  by (rule steady_trans, assumption) (auto simp: write_event_def steady_def split: list.splits option.splits)

lemma refuse_steady [steady_intros]: "steady u s \<Longrightarrow> steady u (snd (refuse m s))"
  by (simp add: refuse_def write_event_steady)

lemma on_out_steady: "steady u s \<Longrightarrow> onward (ic_out s) (snd (f (ic_out s))) \<Longrightarrow> steady u (snd (on_out f s))"
  by (rule steady_trans, assumption) (simp add: on_out_def case_prod_beta steady_def)

lemma try_out_steady: "steady u s \<Longrightarrow> onward (ic_out s) (snd (f (ic_out s))) \<Longrightarrow> steady u (snd (try_out f s))"
  using on_out_steady by (simp add: try_out_def case_prod_beta)

lemma on_daemon_steady:
  "steady u s \<Longrightarrow> rows_from (\<lambda>_ _. False) (ic_daemon s) (snd (f (ic_daemon s))) \<Longrightarrow>
   ds_device_id (snd (f (ic_daemon s))) = ds_device_id (ic_daemon s) \<Longrightarrow> steady u (snd (on_daemon f s))"
  by (rule steady_trans, assumption) (simp add: on_daemon_def case_prod_beta steady_def onward_def)

lemma set_receiving_device: "ds_device_id (snd (cmd_set_receiving tt req dm)) = ds_device_id dm"
  by (auto simp: cmd_set_receiving_def set_receiving_commit_def Let_def split: option.splits prod.splits sum.splits)

lemma expire_device: "ds_device_id (expire_offers t dm) = ds_device_id dm"
proof -
  have one: "ds_device_id (expire_one k dm) = ds_device_id dm" for k dm
    by (simp add: remove_offer_def Let_def split: option.splits)
  have "ds_device_id (fold expire_one ks dm) = ds_device_id dm" for ks dm
    by (induction ks arbitrary: dm) (simp_all add: one del: expire_one.simps)
  then show ?thesis by (simp only: expire_offers_def Let_def)
qed

lemma task_device [simp]: "ds_device_id (task_step tt now act dm) = ds_device_id dm"
  by (cases act)
    (auto simp: ipc_dispatch_def cmd_status_def cmd_devices_def cmd_unpair_def set_receiving_device watch_command_def confirm_state
      take_offer_def watch_register_def register_offer_def remove_offer_def browse_cache_round_def expire_device Let_def case_prod_beta
      split: option.splits sum.splits)

lemma meanwhile_rows [simp]:
  "rows_from (\<lambda>_ _. False) dm (meanwhile lib i dm)" "ds_device_id (meanwhile lib i dm) = ds_device_id dm"
  by (cases i; simp add: meanwhile_def rows_from_task broadcast_to_watchers_def rows_from_same)+

lemma dispatch_rows:
  "rows_from (\<lambda>_ _. False) dm (snd (ipc_dispatch tt now req dm))" "ds_device_id (snd (ipc_dispatch tt now req dm)) = ds_device_id dm"
  using rows_from_task [of _ dm tt now "IpcCommand req"] task_device [of tt now "IpcCommand req" dm] by simp_all

lemma watch_command_rows:
  "rows_from (\<lambda>_ _. False) dm (snd (watch_command req dm))" "ds_device_id (snd (watch_command req dm)) = ds_device_id dm"
  using rows_from_task [of _ dm undefined 0 "WatchCommand req"] task_device [of undefined 0 "WatchCommand req" dm] by simp_all

subsection \<open>Watching and sending\<close>

lemma watch_line_steady [steady_intros]: "steady u s \<Longrightarrow> steady u (watch_line lib l s)"
  using on_daemon_steady [of u s "watch_command req" for req]
  by (auto simp: watch_line_def Let_def case_prod_beta watch_command_rows intro!: steady_intros split: sum.splits)

lemma daemon_step_steady:
  "steady u s \<Longrightarrow> rows_from (\<lambda>_ _. False) (ic_daemon s) (f (ic_daemon s)) \<Longrightarrow>
   ds_device_id (f (ic_daemon s)) = ds_device_id (ic_daemon s) \<Longrightarrow> steady u (daemon_step f s)"
  by (rule steady_trans, assumption) (simp add: daemon_step_def steady_def onward_def)

lemma own_update_steady: "steady u s \<Longrightarrow> steady u (daemon_step (own_update ch f) s)"
  by (rule daemon_step_steady) (simp_all add: own_update_def rows_from_same)

lemma meanwhile_steady: "steady u s \<Longrightarrow> steady u (daemon_step (meanwhile lib i) s)"
  by (rule daemon_step_steady) simp_all

lemma watch_meanwhile_steady: "steady u s \<Longrightarrow> steady u (daemon_step (watch_meanwhile lib ch i) s)"
  by (rule daemon_step_steady) (simp_all add: watch_meanwhile_def rows_from_same)

lemma watch_loop_steady: "steady u s \<Longrightarrow> steady u (watch_loop lib ch evs ins s)"
proof (induction lib ch evs ins s rule: watch_loop.induct)
  case (4 lib ch evs ins s)
  show ?case
  proof (cases evs)
    case Nil
    then show ?thesis using 4 by simp
  next
    case (Cons event evs')
    let ?m = "write_event event (daemon_step (own_update ch (wt_queue_update (\<lambda>_. evs'))) s)"
    have "steady u (snd ?m)" by (intro write_event_steady own_update_steady 4)
    then show ?thesis using 4(2) [OF Cons] Cons by (cases ?m) (auto split: sum.splits)
  qed
qed (auto simp: Let_def intro: steady_intros watch_meanwhile_steady)

lemma replay_steady [steady_intros]: "steady u s \<Longrightarrow> steady u (snd (replay_offers evs s))"
proof (induction evs arbitrary: s)
  case (Cons e evs)
  then show ?case by (auto intro!: steady_intros)
qed simp

lemma watch_leave_steady: "steady u s \<Longrightarrow> steady u (watch_leave ch s)"
  unfolding watch_leave_def by (rule own_update_steady)

lemma watch_race_steady: "steady u s \<Longrightarrow> steady u (snd (watch_race lib ch evs is s))"
  by (induction "is" arbitrary: evs s) (simp_all add: Let_def watch_meanwhile_steady)

lemma watch_registered_steady:
  assumes "steady u s"
  shows "steady u (snd (watch_registered lib s))"
  unfolding watch_registered_def
  by (intro watch_race_steady on_daemon_steady assms) (simp_all add: watch_register_def rows_from_same)

lemma cmd_watch_steady [steady_intros]:
  assumes "steady u s"
  shows "steady u (snd (cmd_watch lib s))"
proof -
  have loop: "steady u (watch_loop lib ch evs ins (t\<lparr>ic_input := []\<rparr>))" if "steady u t" for ch evs ins t
  proof (rule watch_loop_steady [OF steady_trans [OF that]])
    show "steady t (t\<lparr>ic_input := []\<rparr>)" by (simp add: steady_def)
  qed
  obtain evs s1 where s1: "watch_registered lib s = (evs, s1)" by fastforce
  obtain r s2 where s2: "replay_offers (unresolved_offers (ic_daemon s1)) s1 = (r, s2)" by fastforce
  obtain q s3 where s3: "write_event watch_ack s2 = (q, s3)" by fastforce
  have "steady u s1" using watch_registered_steady [OF assms, of lib] s1 by simp
  then have "steady u s2" using replay_steady [of u s1] s2 by (metis snd_conv)
  moreover from this have "steady u s3" using write_event_steady [of u s2 watch_ack] s3 by simp
  ultimately show ?thesis
    using s1 s2 s3 loop by (auto simp: cmd_watch_def Let_def intro: watch_leave_steady split: sum.splits)
qed

lemma forward_steady [steady_intros]: "steady u s \<Longrightarrow> steady u (forward_progress ps s)"
proof (induction ps arbitrary: s)
  case (Cons p ps)
  have room: "steady u (s\<lparr>ic_room := room\<rparr>)" for room
    using Cons.prems by (simp add: steady_def)
  obtain r s1 where s1: "write_event (EvProgress p) (s\<lparr>ic_room := tl (ic_room s)\<rparr>) = (r, s1)" by fastforce
  then have "steady u s1" using write_event_steady [OF room] by (metis snd_conv)
  then show ?case using s1 room Cons.IH by (auto split: list.splits bool.splits sum.splits)
qed simp

lemma metadata_steady: "steady u s \<Longrightarrow> steady u (snd (on_out (ob_world (fs_file_size p)) s))"
  by (erule on_out_steady) (simp add: ob_world_onward)

lemma send_report_steady [steady_intros]:
  assumes "steady u s"
  shows "steady u (snd (send_report lib t p retry s))"
proof -
  obtain r s1 where s1: "on_out (send_task lib t p retry) s = (r, s1)" by fastforce
  have "steady u (snd (on_out (send_task lib t p retry) s))"
    by (rule on_out_steady [OF assms]) (auto simp: send_task_def intro!: onward_intros split: option.splits)
  then have f: "steady u (forward_progress ps s1)" for ps using s1 by (auto intro: steady_intros)
  then show ?thesis
    using s1 metadata_steady [OF f] write_event_steady by (auto simp: send_report_def Let_def case_prod_beta split: sum.splits)
qed

lemma path_exists_steady: "steady u s \<Longrightarrow> steady u (snd (path_exists p s))"
  using metadata_steady by (simp add: path_exists_def case_prod_beta)

lemma cmd_send_steady [steady_intros]: "steady u s \<Longrightarrow> steady u (snd (cmd_send_streaming lib req s))"
  using path_exists_steady [of u s]
  by (auto simp: cmd_send_streaming_def send_checked_def Let_def case_prod_beta intro!: steady_intros split: option.splits sum.splits)

subsection \<open>Pairing\<close>

lemma wait_confirm:
  assumes "wait_for_pair_confirm lib ins dm = (r, ins', dm')"
  shows "suffix ins' ins" "rows_from (\<lambda>_ _. False) dm dm'" "ds_device_id dm' = ds_device_id dm"
    "r = Inr True \<Longrightarrow> \<exists>pre l. ins = pre @ CiLine l # ins' \<and> confirm_line lib l = Some True"
proof -
  have "suffix ins' ins \<and> rows_from (\<lambda>_ _. False) dm dm' \<and> ds_device_id dm' = ds_device_id dm \<and>
      (r = Inr True \<longrightarrow> (\<exists>pre l. ins = pre @ CiLine l # ins' \<and> confirm_line lib l = Some True))"
    using assms
  proof (induction ins arbitrary: dm)
    case (Cons i ins)
    have later: ?case if "wait_for_pair_confirm lib ins (meanwhile lib i dm) = (r, ins', dm')"
      using Cons.IH [OF that] rows_from_False_trans [OF meanwhile_rows(1)]
      by (auto simp: suffix_Cons meanwhile_rows(2))
    show ?case
    proof (cases i)
      case (CiLine l)
      then show ?thesis
        using Cons.prems later by (cases "confirm_line lib l") (auto simp: suffix_Cons rows_from_same meanwhile_def)
    qed (use Cons.prems later in \<open>auto simp: suffix_Cons rows_from_same\<close>)
  qed (auto simp: rows_from_same)
  then show "suffix ins' ins" "rows_from (\<lambda>_ _. False) dm dm'" "ds_device_id dm' = ds_device_id dm"
    "r = Inr True \<Longrightarrow> \<exists>pre l. ins = pre @ CiLine l # ins' \<and> confirm_line lib l = Some True"
    by blast+
qed

lemma pair_confirmed_effect:
  assumes "pair_confirmed lib s = (a, s')"
  shows "steady s s'" "os_streams (ic_out s') = os_streams (ic_out s)"
    "a \<Longrightarrow> \<exists>pre l. ic_input s = pre @ CiLine l # ic_input s' \<and> confirm_line lib l = Some True"
proof -
  obtain r ins dm where w: "wait_for_pair_confirm lib (ic_input s) (ic_daemon s) = (r, ins, dm)"
    by (cases "wait_for_pair_confirm lib (ic_input s) (ic_daemon s)")
  have s': "s' = s\<lparr>ic_input := ins, ic_out := (ic_out s)\<lparr>os_daemon := dm\<rparr>\<rparr>" and a: "a \<longleftrightarrow> r = Inr True"
    using assms w by (auto simp: pair_confirmed_def split: sum.splits)
  show "steady s s'" using wait_confirm(1-3) [OF w] by (simp add: s' steady_def onward_def)
  show "os_streams (ic_out s') = os_streams (ic_out s)" by (simp add: s')
  show "a \<Longrightarrow> \<exists>pre l. ic_input s = pre @ CiLine l # ic_input s' \<and> confirm_line lib l = Some True"
    using wait_confirm(4) [OF w] by (simp add: s' a)
qed

text \<open>The latest stream is the one that \<open>p\<close> was when it was dialled, further on.\<close>

definition dialled :: "peer_stream \<Rightarrow> out_state \<Rightarrow> bool" where
  "dialled p s \<longleftrightarrow> os_streams s \<noteq> [] \<and> ps_certs (hd (os_streams s)) = ps_certs p \<and>
     suffix (rx (ps_conn (hd (os_streams s)))) (rx (ps_conn p))"

lemma on_conn_dialled:
  assumes "dialled p s" "\<And>c. suffix (rx (snd (f c))) (rx c)"
  shows "dialled p (snd (on_conn f s))"
proof -
  obtain q qs where q: "os_streams s = q # qs" using assms(1) by (cases "os_streams s") (auto simp: dialled_def)
  then have "suffix (rx (snd (f (ps_conn q)))) (rx (ps_conn p))"
    using assms by (auto simp: dialled_def intro: suffix_order.trans)
  then show ?thesis using assms(1) q by (simp add: dialled_def on_conn_def case_prod_beta)
qed

lemma ob_send_dialled: "dialled p s \<Longrightarrow> dialled p (snd (ob_send lib i m s))"
  using on_conn_dialled [of p s "send_control (lib_into_writer lib) i 0 m"]
  by (auto simp: ob_send_def case_prod_beta send_control_def send_frame_def framed_send_def Let_def
      split: prod.splits sum.splits list.splits option.splits)

lemma recv_frame_rx: "suffix (rx (snd (recv_frame c))) (rx c)"
  by (auto simp: recv_frame_def suffix_Cons split: list.splits sum.splits)

lemma ob_recv_dialled: "dialled p s \<Longrightarrow> dialled p (snd (ob_recv lib s))"
  using on_conn_dialled [OF _ recv_frame_rx] by (simp add: ob_recv_def case_prod_beta split: sum.splits)

lemma ob_recv_within_dialled: "dialled p s \<Longrightarrow> dialled p (snd (ob_recv_within lib e s))"
  using ob_recv_dialled [of p s lib] ob_recv_dialled [of p "s\<lparr>os_timely := ts\<rparr>" lib for ts]
  by (auto simp: ob_recv_within_def dialled_def split: list.splits bool.splits)

lemma ob_recv_frame:
  assumes "ob_recv lib s = (Inr m, s')" "dialled p s"
  shows "\<exists>hdr payload. Inr (hdr, payload) \<in> set (rx (ps_conn p)) \<and> decode_control (lib_from_reader lib) payload = Inr m"
proof -
  obtain q qs where q: "os_streams s = q # qs" using assms(2) by (cases "os_streams s") (auto simp: dialled_def)
  obtain hdr payload where "Inr (hdr, payload) \<in> set (rx (ps_conn q))" "decode_control (lib_from_reader lib) payload = Inr m"
    using assms(1) q by (auto simp: ob_recv_def on_conn_def recv_frame_def result_simps split: prod.splits sum.splits list.splits)
  then show ?thesis using assms(2) q set_mono_suffix by (fastforce simp: dialled_def)
qed

lemma connect_dialled:
  assumes "connect_to_peer lib t s = (Inr (session, nm, ex), s')"
  shows "\<exists>p ds cert rest spki. os_dials s = Inr p # ds \<and> dialled p s' \<and> ps_certs p = Some (cert # rest) \<and>
    extract_spki (ol_x509 lib) cert = Inr spki \<and> t = hex_encode (lib_sha256 lib spki) \<and>
    ol_export lib ''NXFR-SAS-v0'' (snd (derive_sas (ds_device_id (os_daemon s)) (lib_sha256 lib spki) (replicate 4 0))) = Inr ex"
proof -
  from assms obtain certs s1 where s1: "ob_dial s = (Inr certs, s1)" by (auto simp: connect_to_peer_def io_then_Inr)
  from assms s1 obtain peer_id where id: "check_target lib t certs = Inr peer_id" by (auto simp: connect_to_peer_def io_then_Inr)
  from assms s1 id have ex: "sas_exporter lib (ds_device_id (os_daemon s1)) peer_id = Inr ex"
    by (auto simp: connect_to_peer_def io_then_Inr case_prod_beta)
  obtain p ds where p: "os_dials s = Inr p # ds" "ps_certs p = certs" "s1 = s\<lparr>os_dials := ds, os_streams := p # os_streams s\<rparr>"
    using s1 by (auto simp: ob_dial_def split: list.splits sum.splits)
  then have d1: "dialled p s1" by (simp add: dialled_def)
  have hello: "dialled p (snd (ob_hello t s1))" using d1 by (simp add: dialled_def ob_hello_def Let_def case_prod_beta)
  have "dialled p s'"
    using assms s1 id ex ob_recv_within_dialled [OF ob_send_dialled [OF hello]]
    by (auto simp: connect_to_peer_def io_then_Inr case_prod_beta) (metis snd_conv)+
  moreover have "\<exists>cert rest spki. certs = Some (cert # rest) \<and> extract_spki (ol_x509 lib) cert = Inr spki \<and>
      peer_id = lib_sha256 lib spki \<and> t = hex_encode peer_id"
    using id by (cases certs; cases "the certs")
      (auto simp: check_target_def device_id_from_cert_def result_simps split: if_splits)
  moreover have "ol_export lib ''NXFR-SAS-v0'' (snd (derive_sas (ds_device_id (os_daemon s)) peer_id (replicate 4 0))) = Inr ex"
    using ex p(3) by (auto simp: sas_exporter_def result_simps)
  ultimately show ?thesis using p(1,2) by blast
qed

text \<open>Either a step fails and is the last one, or the next follows.\<close>

definition advances :: "ipc_state \<Rightarrow> ipc_state \<Rightarrow> bool" where
  "advances s s' \<longleftrightarrow> suffix (ic_input s') (ic_input s) \<and> prefix (ic_written s) (ic_written s') \<and>
     suffix (os_dials (ic_out s')) (os_dials (ic_out s)) \<and> ds_device_id (ic_daemon s') = ds_device_id (ic_daemon s)"

lemma advances_trans: "advances s s1 \<Longrightarrow> advances s1 s2 \<Longrightarrow> advances s s2"
  unfolding advances_def by (metis suffix_order.trans prefix_order.trans)

lemma steady_advances: "steady s s' \<Longrightarrow> advances s s'"
  by (simp add: steady_def onward_def advances_def)

lemma steady_rows: "steady s s' \<Longrightarrow> rows_from P (ic_daemon s) (ic_daemon s')"
  unfolding steady_def onward_def rows_from_def by blast

text \<open>The row that a pairing with the device \<open>k\<close> of key \<open>spki\<close> stores.\<close>

definition pair_row :: "string \<Rightarrow> string \<Rightarrow> bytes \<Rightarrow> string \<Rightarrow> PairedDevice \<Rightarrow> bool" where
  "pair_row k nm spki k' d \<longleftrightarrow> k' = k \<and>
     (\<exists>f l. d = \<lparr>pd_device_id = k, pd_name = nm, pd_public_key_spki = spki, pd_first_seen = f, pd_last_seen = l,
        pd_trust_level = ''paired'', pd_auto_accept = ''prompt''\<rparr>)"

lemma pair_row_seen: "pair_row k nm spki k' d \<Longrightarrow> same_pin d d' \<Longrightarrow> pair_row k nm spki k' d'"
  by (cases d') (auto simp: pair_row_def same_pin_def)

lemma pair_row_trans:
  "rows_from (pair_row k nm spki) dm dm1 \<Longrightarrow> rows_from (pair_row k nm spki) dm1 dm2 \<Longrightarrow> rows_from (pair_row k nm spki) dm dm2"
  using pair_row_seen by (rule rows_from_trans)

lemma pair_store_effect:
  fixes lib :: cmd_lib
  assumes "dialled p u" "ps_certs p = Some (cert # rest)" "extract_spki (ol_x509 lib) cert = Inr spki"
  shows "rows_from (pair_row k nm spki) (os_daemon u) (os_daemon (pair_store lib k nm u))"
    "os_dials (pair_store lib k nm u) = os_dials u" "ds_device_id (os_daemon (pair_store lib k nm u)) = ds_device_id (os_daemon u)"
proof -
  obtain t1 u1 where u1: "ob_clock u = (t1, u1)" by fastforce
  obtain t2 u2 where u2: "ob_clock u1 = (t2, u2)" by fastforce
  have clock: "os_daemon u2 = os_daemon u" "os_dials u2 = os_dials u" "os_streams u2 = os_streams u"
    using u1 u2 by (auto simp: ob_clock_def split: list.splits)
  have key: "stream_spki lib u2 = spki"
    using assms clock(3) by (cases "os_streams u") (auto simp: dialled_def stream_spki_def)
  let ?x = "Pin (pair_device k nm spki t1 t2)"
  have "pair_row k nm spki (paired_op_key ?x) d'" if "paired_effect ?x e = Some d'" for e d'
    using that by (cases e) (auto simp: pair_row_def pair_device_def)
  then have "rows_from (pair_row k nm spki) (os_daemon u)
      ((os_daemon u)\<lparr>ds_db := snd (insert_or_update (pair_device k nm spki t1 t2) (ds_db (os_daemon u)))\<rparr>)"
    using rows_from_perform [of ?x "pair_row k nm spki" "os_daemon u"] by simp
  then show "rows_from (pair_row k nm spki) (os_daemon u) (os_daemon (pair_store lib k nm u))"
    "os_dials (pair_store lib k nm u) = os_dials u" "ds_device_id (os_daemon (pair_store lib k nm u)) = ds_device_id (os_daemon u)"
    using u1 u2 clock key by (simp_all add: pair_store_def Let_def)
qed

text \<open>Frames of the stream \<open>p\<close>.\<close>

definition answered_with :: "cmd_lib \<Rightarrow> ControlMessage \<Rightarrow> peer_stream \<Rightarrow> bool" where
  "answered_with lib m p \<longleftrightarrow> (\<exists>hdr payload. Inr (hdr, payload) \<in> set (rx (ps_conn p)) \<and>
     decode_control (lib_from_reader lib) payload = Inr m)"

lemma pair_answer_effect:
  fixes lib :: cmd_lib
  assumes "pair_answer lib k nm m s = (r, s')"
    and "dialled p (ic_out s)" "ps_certs p = Some (cert # rest)" "extract_spki (ol_x509 lib) cert = Inr spki"
  shows "steady s s' \<or> m = PairAccept \<and> advances s s' \<and> rows_from (pair_row k nm spki) (ic_daemon s) (ic_daemon s')"
proof (cases "m = PairAccept")
  case True
  let ?s = "s\<lparr>ic_out := pair_store lib k nm (ic_out s)\<rparr>"
  note store = pair_store_effect [OF assms(2-4), of k nm]
  have "steady ?s (snd (io_then (write_event (EvPairSuccess k nm) ?s) (\<lambda>_ s. (Inr True :: ipc_error + bool, s))))"
    by (intro steady_intros) auto
  then have after: "steady ?s s'" using assms(1) True by (simp add: pair_answer_def on_out_def)
  have "rows_from (pair_row k nm spki) (ic_daemon s) (ic_daemon s')"
    by (rule pair_row_trans [OF _ steady_rows [OF after]]) (use store(1) in simp)
  moreover have "advances s s'"
    by (rule advances_trans [OF _ steady_advances [OF after]]) (simp add: advances_def store(2,3))
  ultimately show ?thesis using True by simp
next
  case False
  have "steady s (snd (io_then (write_event e s) (\<lambda>_ s. (Inr False :: ipc_error + bool, s))))" for e
    by (intro steady_intros) auto
  then have "steady s s'" using assms(1) False by (cases m) (auto simp: pair_answer_def, (metis snd_conv)+)
  then show ?thesis by simp
qed

lemma try_out_eq: "try_out f s = (map_err IeOut (fst (f (ic_out s))), s\<lparr>ic_out := snd (f (ic_out s))\<rparr>)"
  by (simp add: try_out_def on_out_def case_prod_beta)

lemma try_send_steady [steady_intros]: "steady u s \<Longrightarrow> steady u (snd (try_out (ob_send lib i m) s))"
  by (rule try_out_steady) (auto intro: onward_intros)

lemma try_recv_steady [steady_intros]: "steady u s \<Longrightarrow> steady u (snd (try_out (ob_recv lib) s))"
  by (rule try_out_steady) (auto intro: onward_intros)

lemma pair_decided_effect:
  fixes lib :: cmd_lib
  assumes run: "pair_decided lib i k nm a s = (r, s')"
    and p: "dialled p (ic_out s)" "ps_certs p = Some (cert # rest)" "extract_spki (ol_x509 lib) cert = Inr spki"
  shows "steady s s' \<or> a \<and> answered_with lib PairAccept p \<and> advances s s' \<and>
    rows_from (pair_row k nm spki) (ic_daemon s) (ic_daemon s')"
proof (cases a)
  case False
  have "steady s (snd (pair_decided lib i k nm False s))"
    unfolding pair_decided_def by (auto intro!: steady_intros)
  then show ?thesis using run False by simp
next
  case True
  let ?lib = "out_lib.truncate lib"
  from run True have "io_then (try_out (ob_send ?lib i PairAccept) s) (\<lambda>_ s. io_then (try_out (ob_recv ?lib) s)
      (\<lambda>msg s. pair_answer lib k nm msg s)) = (r, s')" by (simp add: pair_decided_def)
  then show ?thesis
  proof (cases rule: io_then_either)
    case (1 e)
    then show ?thesis using try_send_steady [of s s ?lib i PairAccept] by simp
  next
    case (2 x t)
    have t: "steady s t" using try_send_steady [of s s ?lib i PairAccept] 2(1) by simp
    have "ic_out t = snd (ob_send ?lib i PairAccept (ic_out s))" using 2(1) by (auto simp: try_out_eq)
    then have dt: "dialled p (ic_out t)" using ob_send_dialled [OF p(1)] by simp
    from 2(2) show ?thesis
    proof (cases rule: io_then_either)
      case (1 e)
      then show ?thesis using steady_trans [OF t] try_recv_steady [of t t ?lib] by simp
    next
      case (2 m v)
      have v: "steady s v" using steady_trans [OF t] try_recv_steady [of t t ?lib] 2(1) by simp
      obtain u where u: "ob_recv ?lib (ic_out t) = (Inr m, u)" "v = t\<lparr>ic_out := u\<rparr>"
        using 2(1) by (cases "ob_recv ?lib (ic_out t)") (auto simp: try_out_eq result_simps)
      have dv: "dialled p (ic_out v)" using ob_recv_dialled [OF dt, of ?lib] u by simp
      have "answered_with lib m p"
        using ob_recv_frame [OF u(1) dt] by (simp add: answered_with_def out_lib.truncate_def)
      then show ?thesis
        using pair_answer_effect [OF 2(2) dv p(2,3)] True v steady_trans [OF v] advances_trans [OF steady_advances [OF v]]
          pair_row_trans [OF steady_rows [OF v]] by blast
    qed
  qed
qed

text \<open>What must have happened for a device to be pinned: see the property below.\<close>

definition consented_row :: "cmd_lib \<Rightarrow> bytes \<Rightarrow> IpcEvent list \<Rightarrow> peer_stream \<Rightarrow> string \<Rightarrow> PairedDevice \<Rightarrow> bool" where
  "consented_row lib own written p k d \<longleftrightarrow> (\<exists>cert rest spki ex nm.
     ps_certs p = Some (cert # rest) \<and> extract_spki (ol_x509 lib) cert = Inr spki \<and> k = hex_encode (lib_sha256 lib spki) \<and>
     pair_row k nm spki k d \<and>
     ol_export lib ''NXFR-SAS-v0'' (snd (derive_sas own (lib_sha256 lib spki) (replicate 4 0))) = Inr ex \<and>
     EvSasPrompt nm k (fst (derive_sas own (peer_id_bytes lib k) ex)) \<in> set written \<and> answered_with lib PairAccept p)"

lemma pair_connected_effect:
  fixes lib :: cmd_lib
  assumes run: "pair_connected lib k i nm ex s = (r, s')"
    and p: "dialled p (ic_out s)" "ps_certs p = Some (cert # rest)" "extract_spki (ol_x509 lib) cert = Inr spki"
  shows "steady s s' \<or> (\<exists>pre l post. ic_input s = pre @ CiLine l # post \<and> confirm_line lib l = Some True) \<and>
    EvSasPrompt nm k (fst (derive_sas (ds_device_id (ic_daemon s)) (peer_id_bytes lib k) ex)) \<in> set (ic_written s') \<and>
    answered_with lib PairAccept p \<and> advances s s' \<and> rows_from (pair_row k nm spki) (ic_daemon s) (ic_daemon s')"
proof -
  let ?lib = "out_lib.truncate lib"
  let ?prompt = "EvSasPrompt nm k (fst (derive_sas (ds_device_id (ic_daemon s)) (peer_id_bytes lib k) ex))"
  let ?close = "\<lambda>close s. if close then try_out (ob_send ?lib i (SessionClose (Some ''pairing_complete''))) s else (Inr (), s)"
  let ?ask = "\<lambda>s. case pair_confirmed lib s of (accepted, s) \<Rightarrow> io_then (pair_decided lib i k nm accepted s) ?close"
  have close: "steady u (snd (?close c u))" for c u by (simp add: steady_intros)
  from run have "io_then (try_out (ob_send ?lib i (PairRequest ''numeric-6'')) s) (\<lambda>_ s.
      io_then (write_event ?prompt s) (\<lambda>_ s. ?ask s)) = (r, s')" by (simp add: pair_connected_def Let_def)
  then show ?thesis
  proof (cases rule: io_then_either)
    case (1 e)
    then show ?thesis using try_send_steady [of s s ?lib i "PairRequest ''numeric-6''"] by simp
  next
    case (2 x s1)
    have s1: "steady s s1" using try_send_steady [of s s ?lib i "PairRequest ''numeric-6''"] 2(1) by simp
    have "ic_out s1 = snd (ob_send ?lib i (PairRequest ''numeric-6'') (ic_out s))" using 2(1) by (auto simp: try_out_eq)
    then have d1: "dialled p (ic_out s1)" using ob_send_dialled [OF p(1)] by simp
    from 2(2) show ?thesis
    proof (cases rule: io_then_either)
      case (1 e)
      then show ?thesis using steady_trans [OF s1] write_event_steady [of s1 s1 ?prompt] by simp
    next
      case (2 y s2)
      have s2: "steady s s2" using steady_trans [OF s1] write_event_steady [of s1 s1 ?prompt] 2(1) by simp
      have w: "?prompt \<in> set (ic_written s2)" "ic_out s2 = ic_out s1" "ic_input s2 = ic_input s1"
        using 2(1) by (auto simp: write_event_def split: list.splits option.splits)
      obtain a s3 where s3: "pair_confirmed lib s2 = (a, s3)" by fastforce
      note conf = pair_confirmed_effect [OF s3]
      have st3: "steady s s3" by (rule steady_trans [OF s2 conf(1)])
      have d3: "dialled p (ic_out s3)" using d1 w(2) conf(2) by (simp add: dialled_def)
      obtain q s4 where s4: "pair_decided lib i k nm a s3 = (q, s4)" by fastforce
      have last: "steady s4 s'"
      proof (cases q)
        case (Inr c)
        then have "s' = snd (?close c s4)" using 2(2) s3 s4 by simp
        then show ?thesis by (simp only: close)
      qed (use 2(2) s3 s4 in simp)
      from pair_decided_effect [OF s4 d3 p(2,3)] show ?thesis
      proof
        assume "steady s3 s4"
        then show ?thesis using st3 last steady_trans by blast
      next
        assume *: "a \<and> answered_with lib PairAccept p \<and> advances s3 s4 \<and> rows_from (pair_row k nm spki) (ic_daemon s3) (ic_daemon s4)"
        have rows: "rows_from (pair_row k nm spki) (ic_daemon s) (ic_daemon s')"
          using pair_row_trans [OF pair_row_trans [OF steady_rows [OF st3]] steady_rows [OF last]] * by blast
        have adv: "advances s3 s'" using * advances_trans steady_advances [OF last] by blast
        then have "?prompt \<in> set (ic_written s')"
          using w(1) conf(1) by (auto simp: advances_def steady_def dest!: set_mono_prefix)
        moreover obtain pre l where "ic_input s2 = pre @ CiLine l # ic_input s3" "confirm_line lib l = Some True"
          using conf(3) * by blast
        moreover obtain zs where "ic_input s = zs @ ic_input s2" using s2 by (auto simp: steady_def suffix_def)
        ultimately show ?thesis
          using * rows advances_trans [OF steady_advances [OF st3] adv] by (metis append.assoc)
      qed
    qed
  qed
qed

text \<open>The line is a request to pair with the device \<open>k\<close>.\<close>

definition asks_pair :: "cmd_lib \<Rightarrow> string \<Rightarrow> string \<Rightarrow> bool" where
  "asks_pair lib k l \<longleftrightarrow> (\<exists>req. str_trim l \<noteq> [] \<and> cl_from_json lib (str_trim l) = Inr req \<and> rq_cmd req = ''pair'' \<and> rq_device_id req = Some k)"

definition pair_effect :: "cmd_lib \<Rightarrow> string \<Rightarrow> ipc_state \<Rightarrow> ipc_state \<Rightarrow> bool" where
  "pair_effect lib k s s' \<longleftrightarrow> (\<exists>p. Inr p \<in> set (os_dials (ic_out s)) \<and> advances s s' \<and>
     (\<exists>pre l post. ic_input s = pre @ CiLine l # post \<and> confirm_line lib l = Some True) \<and>
     rows_from (\<lambda>k' d. k' = k \<and> consented_row lib (ds_device_id (ic_daemon s)) (ic_written s') p k' d) (ic_daemon s) (ic_daemon s'))"

lemma rows_from_weaken: "rows_from P dm dm' \<Longrightarrow> (\<And>k d. P k d \<Longrightarrow> Q k d) \<Longrightarrow> rows_from Q dm dm'"
  unfolding rows_from_def by blast

lemma consented_row_seen: "consented_row lib own W p k d \<Longrightarrow> same_pin d d' \<Longrightarrow> consented_row lib own W p k d'"
  unfolding consented_row_def using pair_row_seen by blast

lemma steady_then_pair_effect:
  assumes st: "steady s t" and pe: "pair_effect lib k t s'"
  shows "pair_effect lib k s s'"
proof -
  from pe obtain p pre l post where p: "Inr p \<in> set (os_dials (ic_out t))" and adv: "advances t s'"
    and l: "ic_input t = pre @ CiLine l # post" "confirm_line lib l = Some True"
    and rows: "rows_from (\<lambda>k' d. k' = k \<and> consented_row lib (ds_device_id (ic_daemon t)) (ic_written s') p k' d) (ic_daemon t) (ic_daemon s')"
    by (auto simp: pair_effect_def)
  have own: "ds_device_id (ic_daemon t) = ds_device_id (ic_daemon s)" and "set (os_dials (ic_out t)) \<subseteq> set (os_dials (ic_out s))"
    using st by (auto simp: steady_def onward_def dest: set_mono_suffix)
  moreover obtain zs where "ic_input s = zs @ ic_input t" using st by (auto simp: steady_def suffix_def)
  then have "ic_input s = (zs @ pre) @ CiLine l # post" using l(1) by simp
  moreover have "rows_from (\<lambda>k' d. k' = k \<and> consented_row lib (ds_device_id (ic_daemon s)) (ic_written s') p k' d) (ic_daemon s) (ic_daemon s')"
    by (rule rows_from_trans [OF _ steady_rows [OF st] rows [unfolded own]]) (use consented_row_seen in blast)
  ultimately show ?thesis
    unfolding pair_effect_def using p l(2) advances_trans [OF steady_advances [OF st] adv] by blast
qed

lemma pair_dialled_effect:
  assumes con: "connect_to_peer (out_lib.truncate lib) k (ic_out s) = (Inr (i, nm, ex), u)"
    and run: "pair_connected lib k i nm ex (s\<lparr>ic_out := u\<rparr>) = (r, s')"
  shows "steady s s' \<or> pair_effect lib k s s'"
proof -
  let ?s = "s\<lparr>ic_out := u\<rparr>" and ?own = "ds_device_id (ic_daemon s)"
  have "onward (ic_out s) u" using connect_onward [of "ic_out s" "ic_out s" "out_lib.truncate lib" k] con by simp
  then have st: "steady s ?s" by (simp add: steady_def)
  from connect_dialled [OF con]
  obtain p ds cert rest spki where p: "os_dials (ic_out s) = Inr p # ds" "dialled p u" "ps_certs p = Some (cert # rest)"
      "extract_spki (ol_x509 lib) cert = Inr spki" "k = hex_encode (lib_sha256 lib spki)"
      "ol_export lib ''NXFR-SAS-v0'' (snd (derive_sas ?own (lib_sha256 lib spki) (replicate 4 0))) = Inr ex"
    by (auto simp: out_lib.truncate_def)
  have own: "ds_device_id (os_daemon u) = ?own" using st by (simp add: steady_def onward_def)
  have "dialled p (ic_out ?s)" using p(2) by simp
  from pair_connected_effect [OF run this p(3,4)] show ?thesis
  proof
    assume "steady ?s s'"
    then show ?thesis using st steady_trans by blast
  next
    assume *: "(\<exists>pre l post. ic_input ?s = pre @ CiLine l # post \<and> confirm_line lib l = Some True) \<and>
      EvSasPrompt nm k (fst (derive_sas (ds_device_id (ic_daemon ?s)) (peer_id_bytes lib k) ex)) \<in> set (ic_written s') \<and>
      answered_with lib PairAccept p \<and> advances ?s s' \<and> rows_from (pair_row k nm spki) (ic_daemon ?s) (ic_daemon s')"
    have row: "k' = k \<and> consented_row lib ?own (ic_written s') p k' d" if "pair_row k nm spki k' d" for k' d
    proof -
      have "k' = k" using that by (simp add: pair_row_def)
      then show ?thesis unfolding consented_row_def using that p * own by auto
    qed
    have "rows_from (pair_row k nm spki) (ic_daemon s) (ic_daemon s')" using pair_row_trans [OF steady_rows [OF st]] * by blast
    then have "rows_from (\<lambda>k' d. k' = k \<and> consented_row lib ?own (ic_written s') p k' d) (ic_daemon s) (ic_daemon s')"
      by (rule rows_from_weaken) (rule row)
    then show ?thesis unfolding pair_effect_def using * p(1) advances_trans [OF steady_advances [OF st]] by auto
  qed
qed

lemma pair_addressed_effect:
  assumes "pair_addressed lib k addr s = (r, s')"
  shows "steady s s' \<or> pair_effect lib k s s'"
proof -
  let ?check = "\<lambda>dm. case is_paired k (ds_db dm) of (b, db) \<Rightarrow> (b, dm\<lparr>ds_db := db\<rparr>)"
  let ?e = "ok_response (JObj [(''status'', JStr ''connecting''), (''message'', JStr (''Connecting to '' @ addr @ ''...''))])"
  let ?go = "\<lambda>s. case on_out (connect_to_peer (out_lib.truncate lib) k) s of
               (Inl e, s) \<Rightarrow> write_event (EvPairFailed (''connection failed: '' @ cl_error_text lib e)) s
             | (Inr (session, peer_name, exporter_bytes), s) \<Rightarrow> pair_connected lib k session peer_name exporter_bytes s"
  obtain b s1 where s1: "on_daemon ?check s = (b, s1)" by fastforce
  have "steady s (snd (on_daemon ?check s))"
    by (rule on_daemon_steady) (simp_all add: case_prod_beta is_paired_state rows_from_lookup)
  then have st1: "steady s s1" using s1 by simp
  show ?thesis
  proof (cases b)
    case True
    then have "s' = snd (refuse (''device '' @ k @ '' is already paired'') s1)" using assms s1 by (simp add: pair_addressed_def)
    then show ?thesis using refuse_steady [OF st1] by simp
  next
    case False
    then have "io_then (write_event ?e s1) (\<lambda>_ s. ?go s) = (r, s')" using assms s1 by (simp add: pair_addressed_def)
    then show ?thesis
    proof (cases rule: io_then_either)
      case (1 e)
      then show ?thesis using write_event_steady [OF st1, of ?e] by simp
    next
      case (2 x s2)
      have st2: "steady s s2" using write_event_steady [OF st1, of ?e] 2(1) by simp
      obtain q u where q: "connect_to_peer (out_lib.truncate lib) k (ic_out s2) = (q, u)" by fastforce
      show ?thesis
      proof (cases q)
        case (Inl e)
        have "onward (ic_out s2) u" using connect_onward [of "ic_out s2" "ic_out s2" "out_lib.truncate lib" k] q by simp
        then have "steady s2 (s2\<lparr>ic_out := u\<rparr>)" by (simp add: steady_def)
        moreover have "s' = snd (write_event (EvPairFailed (''connection failed: '' @ cl_error_text lib e)) (s2\<lparr>ic_out := u\<rparr>))"
          using 2(2) q Inl by (simp add: on_out_def)
        ultimately show ?thesis using write_event_steady [OF steady_trans [OF st2]] by simp
      next
        case (Inr y)
        obtain i nm ex where y: "y = (i, nm, ex)" by (cases y)
        have "pair_connected lib k i nm ex (s2\<lparr>ic_out := u\<rparr>) = (r, s')" using 2(2) q Inr y by (simp add: on_out_def)
        from pair_dialled_effect [OF _ this] q Inr y show ?thesis
          using steady_trans [OF st2] steady_then_pair_effect [OF st2] by blast
      qed
    qed
  qed
qed

lemma cmd_pair_effect:
  assumes "cmd_pair_streaming lib req s = (r, s')"
  shows "steady s s' \<or> (\<exists>k. rq_device_id req = Some k \<and> pair_effect lib k s s')"
proof (cases "rq_device_id req")
  case None
  then show ?thesis using assms refuse_steady [of s s] by (auto simp: cmd_pair_streaming_def) (metis snd_conv steady_refl)
next
  case (Some k)
  then show ?thesis
    using assms refuse_steady [of s s] pair_addressed_effect [of lib k _ s r s']
    by (auto simp: cmd_pair_streaming_def split: sum.splits) (metis snd_conv)+
qed

subsection \<open>A line of the client\<close>

text \<open>The whole story of a pin that a client brought about.\<close>

definition paired_by_client :: "cmd_lib \<Rightarrow> bytes \<Rightarrow> client_input list \<Rightarrow> IpcEvent list \<Rightarrow> (string + peer_stream) list
    \<Rightarrow> string \<Rightarrow> PairedDevice \<Rightarrow> bool" where
  "paired_by_client lib own ins written dials k d \<longleftrightarrow>
     (\<exists>pre l1 mid l2 post. ins = pre @ CiLine l1 # mid @ CiLine l2 # post \<and> asks_pair lib k l1 \<and> confirm_line lib l2 = Some True) \<and>
     (\<exists>p. Inr p \<in> set dials \<and> consented_row lib own written p k d)"

definition client_trace :: "cmd_lib \<Rightarrow> client_input list \<Rightarrow> ipc_state \<Rightarrow> ipc_state \<Rightarrow> bool" where
  "client_trace lib ins s s' \<longleftrightarrow> advances s s' \<and>
     rows_from (paired_by_client lib (ds_device_id (ic_daemon s)) ins (ic_written s') (os_dials (ic_out s))) (ic_daemon s) (ic_daemon s')"

lemma steady_trace: "steady s s' \<Longrightarrow> client_trace lib ins s s'"
  by (simp add: client_trace_def steady_advances steady_rows)

lemma ipc_line_effect:
  assumes "ipc_line lib l s = (r, s')"
  shows "client_trace lib (CiLine l # ic_input s) s s'"
proof (cases "\<exists>req. str_trim l \<noteq> [] \<and> cl_from_json lib (str_trim l) = Inr req \<and> rq_cmd req = ''pair''")
  case True
  then obtain req where req: "str_trim l \<noteq> []" "cl_from_json lib (str_trim l) = Inr req" "rq_cmd req = ''pair''" by blast
  obtain q t where q: "cmd_pair_streaming lib req s = (q, t)" by fastforce
  then have "t = s'" using assms req by (cases q) (auto simp: ipc_line_def ipc_request_def Let_def)
  with cmd_pair_effect [OF q] show ?thesis
  proof (elim disjE exE conjE)
    fix k
    assume k: "rq_device_id req = Some k" and pe: "pair_effect lib k s t"
    then obtain p pre l2 post where p: "Inr p \<in> set (os_dials (ic_out s))" and adv: "advances s t"
      and l2: "ic_input s = pre @ CiLine l2 # post" "confirm_line lib l2 = Some True"
      and rows: "rows_from (\<lambda>k' d. k' = k \<and> consented_row lib (ds_device_id (ic_daemon s)) (ic_written t) p k' d) (ic_daemon s) (ic_daemon t)"
      by (auto simp: pair_effect_def)
    have "CiLine l # ic_input s = [] @ CiLine l # pre @ CiLine l2 # post" using l2(1) by simp
    moreover have "asks_pair lib k l" using req k by (auto simp: asks_pair_def)
    ultimately show ?thesis
      using adv \<open>t = s'\<close> rows_from_weaken [OF rows, of "paired_by_client lib (ds_device_id (ic_daemon s)) (CiLine l # ic_input s) (ic_written t) (os_dials (ic_out s))"] p l2(2)
      unfolding client_trace_def paired_by_client_def by blast
  qed (simp add: steady_trace)
next
  case False
  have disp: "steady u (snd (on_daemon (ipc_dispatch tt now req) u))" for u tt now req
    by (rule on_daemon_steady) (simp_all add: dispatch_rows)
  have clock: "steady s (snd (on_out ob_clock s))" by (rule on_out_steady) (simp_all add: ob_clock_onward)
  have "steady s (snd (ipc_request lib req s))" if "rq_cmd req \<noteq> ''pair''" for req
    using that steady_trans [OF clock disp]
    by (auto simp: ipc_request_def case_prod_beta intro!: steady_intros split: option.splits)
  then have "steady s (snd (ipc_line lib l s))"
    using False by (auto simp: ipc_line_def Let_def intro!: steady_intros split: sum.splits)
  then show ?thesis using assms by (simp add: steady_trace)
qed

lemma ipc_line_shortens:
  assumes "(r, t) = ipc_line lib l (s\<lparr>ic_input := ins\<rparr>)"
  shows "length (ic_input t) \<le> length ins"
  using ipc_line_effect [OF assms [symmetric]] by (auto simp: client_trace_def advances_def dest: suffix_length_le)

section \<open>The client\<close>

function handle_ipc_client :: "cmd_lib \<Rightarrow> ipc_state \<Rightarrow> (ipc_error + unit) \<times> ipc_state" where
  "handle_ipc_client lib s =
     (case ic_input s of
        [] \<Rightarrow> (Inr (), s)
      | CiReadError e # _ \<Rightarrow> (Inl (IeIo e), s)
      | CiLine l # ins \<Rightarrow>
          (case ipc_line lib l (s\<lparr>ic_input := ins\<rparr>) of
             (Inl e, s) \<Rightarrow> (Inl e, s)
           | (Inr further, s) \<Rightarrow> if further then handle_ipc_client lib s else (Inr (), s))
      | i # ins \<Rightarrow> handle_ipc_client lib (daemon_step (meanwhile lib i) (s\<lparr>ic_input := ins\<rparr>)))"
  by pat_completeness auto
termination
  by (relation "measure (\<lambda>(lib, s). length (ic_input s))") (auto simp: daemon_step_def dest!: ipc_line_shortens)

declare handle_ipc_client.simps [simp del]

lemma paired_by_client_mono:
  assumes "paired_by_client lib own ins W D k d" "suffix ins ins'" "set W \<subseteq> set W'" "set D \<subseteq> set D'"
  shows "paired_by_client lib own ins' W' D' k d"
proof -
  from assms(1,2) have "\<exists>pre l1 mid l2 post. ins' = pre @ CiLine l1 # mid @ CiLine l2 # post \<and> asks_pair lib k l1 \<and>
      confirm_line lib l2 = Some True"
    unfolding paired_by_client_def suffix_def by (metis append.assoc)
  then show ?thesis using assms(1,3,4) unfolding paired_by_client_def consented_row_def by blast
qed

text \<open>A step that takes something from the input, and the rest of the session.\<close>

lemma client_then:
  assumes first: "client_trace lib (i # ins) (s\<lparr>ic_input := ins\<rparr>) t" and rest: "client_trace lib (ic_input t) t s'"
    and i: "ic_input s = i # ins"
  shows "client_trace lib (ic_input s) s s'"
proof -
  let ?P = "paired_by_client lib (ds_device_id (ic_daemon s)) (ic_input s) (ic_written s') (os_dials (ic_out s))"
  have a1: "advances (s\<lparr>ic_input := ins\<rparr>) t" and a2: "advances t s'" using first rest by (auto simp: client_trace_def)
  then have adv: "advances s s'"
    using i by (auto simp: advances_def suffix_Cons intro: suffix_order.trans prefix_order.trans)
  have sets: "set (ic_written t) \<subseteq> set (ic_written s')" "set (os_dials (ic_out t)) \<subseteq> set (os_dials (ic_out s))" "suffix (ic_input t) (ic_input s)"
    using a1 a2 i by (auto simp: advances_def suffix_Cons dest: set_mono_prefix set_mono_suffix)
  have "rows_from ?P (ic_daemon s) (ic_daemon t)"
    using first i rows_from_weaken [of _ "ic_daemon s" "ic_daemon t" ?P] paired_by_client_mono [OF _ _ sets(1)] by (fastforce simp: client_trace_def)
  moreover have "rows_from ?P (ic_daemon t) (ic_daemon s')"
    using rest a1 rows_from_weaken [of _ "ic_daemon t" "ic_daemon s'" ?P] paired_by_client_mono [OF _ sets(3) _ sets(2)]
    by (auto simp: client_trace_def advances_def)
  ultimately have "rows_from ?P (ic_daemon s) (ic_daemon s')"
    by (rule rows_from_trans [rotated]) (use consented_row_seen in \<open>unfold paired_by_client_def, blast\<close>)
  then show ?thesis using adv by (simp add: client_trace_def)
qed

lemma client_effect:
  assumes "handle_ipc_client lib s = (r, s')"
  shows "client_trace lib (ic_input s) s s'"
  using assms
proof (induction "length (ic_input s)" arbitrary: s rule: less_induct)
  case less
  have stop: "client_trace lib ins t t" for ins t by (simp add: steady_trace)
  show ?case
  proof (cases "ic_input s")
    case Nil
    then show ?thesis using less.prems stop by (simp add: handle_ipc_client.simps)
  next
    case (Cons i ins)
    have further: ?thesis if "client_trace lib (i # ins) (s\<lparr>ic_input := ins\<rparr>) t" "handle_ipc_client lib t = (r, s')" for t
    proof (rule client_then [OF that(1) less.hyps [OF _ that(2)] Cons])
      show "length (ic_input t) < length (ic_input s)"
        using that(1) Cons suffix_length_le by (fastforce simp: client_trace_def advances_def)
    qed
    have other: ?thesis if "handle_ipc_client lib (daemon_step (meanwhile lib i) (s\<lparr>ic_input := ins\<rparr>)) = (r, s')"
      by (rule further [OF steady_trace that]) (simp add: meanwhile_steady)
    show ?thesis
    proof (cases i)
      case (CiLine l)
      obtain q t where q: "ipc_line lib l (s\<lparr>ic_input := ins\<rparr>) = (q, t)" by fastforce
      have first: "client_trace lib (i # ins) (s\<lparr>ic_input := ins\<rparr>) t" using ipc_line_effect [OF q] CiLine by simp
      have "s' = t \<or> handle_ipc_client lib t = (r, s')"
        using less.prems Cons CiLine q by (auto simp: handle_ipc_client.simps [of lib s] split: sum.splits if_splits)
      then show ?thesis using further [OF first] client_then [OF first stop Cons] by blast
    qed (use less.prems Cons other stop in \<open>auto simp: handle_ipc_client.simps [of lib s]\<close>)
  qed
qed

section \<open>Properties\<close>

text \<open>
  C19 A client of the socket can pair only with consent on both sides. Whatever a client sends and
  whatever goes on meanwhile, every row of the device table after its session was there before (up to
  the time it was last seen), or the client asked to pair with that device and later confirmed; the
  device is the one at the other end of a stream dialled in the session: its id is the SHA-256 of
  the public key of the certificate, and this key is pinned; the code derived from the TLS exporter of
  the session and both ids was shown to the client with the name that is stored; and the peer
  answered with its own acceptance.
\<close>

theorem client_pairs_only_with_consent:
  assumes "handle_ipc_client lib s = (r, s')" "table_ok pd_device_id (ds_db (ic_daemon s))"
    and "table_view pd_device_id (ds_db (ic_daemon s')) k = Some d'"
  shows "(\<exists>d. table_view pd_device_id (ds_db (ic_daemon s)) k = Some d \<and> d' = d\<lparr>pd_last_seen := pd_last_seen d'\<rparr>)
    \<or> (\<exists>pre l1 mid l2 post. ic_input s = pre @ CiLine l1 # mid @ CiLine l2 # post \<and> asks_pair lib k l1 \<and>
         confirm_line lib l2 = Some True) \<and>
      (\<exists>p cert rest spki ex hdr payload. Inr p \<in> set (os_dials (ic_out s)) \<and> ps_certs p = Some (cert # rest) \<and>
         extract_spki (ol_x509 lib) cert = Inr spki \<and> k = hex_encode (lib_sha256 lib spki) \<and>
         pd_device_id d' = k \<and> pd_public_key_spki d' = spki \<and> pd_trust_level d' = ''paired'' \<and> pd_auto_accept d' = ''prompt'' \<and>
         ol_export lib ''NXFR-SAS-v0'' (snd (derive_sas (ds_device_id (ic_daemon s)) (lib_sha256 lib spki) (replicate 4 0))) = Inr ex \<and>
         EvSasPrompt (pd_name d') k (fst (derive_sas (ds_device_id (ic_daemon s)) (peer_id_bytes lib k) ex)) \<in> set (ic_written s') \<and>
         Inr (hdr, payload) \<in> set (rx (ps_conn p)) \<and> decode_control (lib_from_reader lib) payload = Inr PairAccept)"
proof -
  have "(\<exists>d. table_view pd_device_id (ds_db (ic_daemon s)) k = Some d \<and> same_pin d d') \<or>
      paired_by_client lib (ds_device_id (ic_daemon s)) (ic_input s) (ic_written s') (os_dials (ic_out s)) k d'"
    using client_effect [OF assms(1)] assms(2,3) by (auto simp: client_trace_def rows_from_def)
  then show ?thesis
  proof
    assume "paired_by_client lib (ds_device_id (ic_daemon s)) (ic_input s) (ic_written s') (os_dials (ic_out s)) k d'"
    then show ?thesis
      unfolding paired_by_client_def consented_row_def pair_row_def answered_with_def by (intro disjI2) force
  qed (auto simp: same_pin_def)
qed

theorem client_pairs_only_with_consent_witness:
  "\<exists>lib s s' d' p cert rest. handle_ipc_client lib s = (Inr (), s') \<and> ic_input s = [CiLine ''p'', CiLine ''y''] \<and>
     table_view pd_device_id (ds_db (ic_daemon s)) (hex_encode [2]) = None \<and>
     table_view pd_device_id (ds_db (ic_daemon s')) (hex_encode [2]) = Some d' \<and> pd_public_key_spki d' = [2] \<and>
     Inr p \<in> set (os_dials (ic_out s)) \<and> ps_certs p = Some (cert # rest) \<and> extract_spki (ol_x509 lib) cert = Inr [2]"
proof -
  let ?me = "DeviceId (replicate 32 1)"
  let ?req = "\<lparr>rq_cmd = ''pair'', rq_path = None, rq_target_device_id = None, rq_target_addr = Some ''a'', rq_retry_transfer_id = None,
    rq_enabled = None, rq_device_id = Some (hex_encode [2]), rq_transfer_id = None, rq_accepted = Some True\<rparr>"
  let ?lib = "\<lparr>lib_sha256 = (\<lambda>k. k), lib_from_reader = ref_from_reader, lib_into_writer = (\<lambda>_. Inr []),
    lib_to_vec = ref_to_vec, lib_from_str = (\<lambda>_. Inl (ResumeJson '''')), lib_canonicalize = (\<lambda>_ p. Inr p), lib_path_error = (\<lambda>_. ''bad''),
    ol_x509 = (\<lambda>_. Inr [2]), ol_export = (\<lambda>_ _. Inr [0, 0, 0, 1]), ol_hex_decode = (\<lambda>_. Inl ''''),
    cl_to_toml = ref_config_to_string, cl_from_json = (\<lambda>l. if l = ''p'' then Inr ?req else Inr (?req\<lparr>rq_cmd := ''pair_confirm''\<rparr>)),
    cl_error_text = (\<lambda>_. ''e''), cl_cwd = []\<rparr> :: cmd_lib"
  let ?dm = "daemon_state_new \<lparr>cf_device_name = ''n'', cf_receive_dir = [''d''], cf_receiving_enabled = True\<rparr> [''c'']
      \<lparr>db_rows = Some [], db_autoinc = 0, db_version = Some [1], db_faults = []\<rparr>
      \<lparr>files = [], dirs = [], io_faults = []\<rparr> [''j''] (replicate 32 3) None"
  let ?h = "\<lparr>kind = Control, flags = FrameFlags 0, session_id = 7, stream_id = 0, message_id = 1, payload_len = 0\<rparr> :: FrameHeader"
  obtain b1 b2 where enc: "encode_control ref_into_writer (HelloAck V1_0 ?me ''p'' Linux [] False 7) = Inr b1"
    "encode_control ref_into_writer PairAccept = Inr b2"
    by (simp add: write_eval encode_hello_ack_def make_version_array_def limit_defs V1_0_def)
  have dec: "decode_control ref_from_reader b1 = Inr (HelloAck V1_0 ?me ''p'' Linux [] False 7)" "decode_control ref_from_reader b2 = Inr PairAccept"
    using enc by (auto intro!: ref_cbor.decode_encode_wire simp: V1_0_def wf_device_id_def canonical_platform_def)
  let ?p = "\<lparr>ps_certs = Some [[1]], ps_conn = connection_new [Inr (?h, b1), Inr (?h, b2)] []\<rparr>"
  let ?s = "\<lparr>ic_out = \<lparr>os_streams = [], os_dials = [Inr ?p], os_timely = [], os_clock = [], os_daemon = ?dm, os_events = []\<rparr>,
    ic_input = [CiLine ''p'', CiLine ''y''], ic_written = [], ic_faults = [], ic_room = [], ic_race = []\<rparr>"
  have trim: "str_trim ''p'' = ''p''" "str_trim ''y'' = ''y''" by (simp_all add: str_trim_def is_white_single char_code_def)
  have con: "\<exists>u ex. connect_to_peer (out_lib.truncate ?lib) (hex_encode [2]) (ic_out ?s) = (Inr (7, ''p'', ex), u) \<and>
      os_daemon u = ?dm \<and> os_dials u = [] \<and> os_clock u = [] \<and> (\<exists>q. os_streams u = [q] \<and> ps_certs q = Some [[1]] \<and> rx (ps_conn q) = [Inr (?h, b2)] \<and> send_outcomes (ps_conn q) = [])"
    using dec
    by (simp add: connect_to_peer_def out_lib.truncate_def ob_dial_def check_target_def extract_spki_def device_id_from_cert_def
        sas_exporter_def ob_hello_def is_paired_def paired_lookup_def sql_on_rows_def rows_with_def daemon_state_new_def ob_send_def
        on_conn_def send_control_def encode_control_def send_frame_def framed_send_def connection_new_def ob_recv_within_def
        ob_recv_def recv_frame_def hello_answer_def is_supported_def V1_0_def limit_defs Let_def)
  obtain u ex q where u: "connect_to_peer (out_lib.truncate ?lib) (hex_encode [2]) (ic_out ?s) = (Inr (7, ''p'', ex), u)"
      "os_daemon u = ?dm" "os_clock u = []" "os_streams u = [q]" "ps_certs q = Some [[1]]" "rx (ps_conn q) = [Inr (?h, b2)]"
      "send_outcomes (ps_conn q) = []"
    using con by blast
  have "\<exists>s1. pair_connected ?lib (hex_encode [2]) 7 ''p'' ex (?s\<lparr>ic_input := [CiLine ''y''], ic_out := u, ic_written := w\<rparr>) = (Inr (), s1) \<and>
      ic_input s1 = [] \<and> ic_daemon s1 = ?dm\<lparr>ds_db := snd (insert_or_update (pair_device (hex_encode [2]) ''p'' [2] 0 0) (ds_db ?dm))\<rparr>" for w
    using u(2-7) dec(2) trim(2)
    by (simp add: pair_connected_def try_out_eq ob_send_def on_conn_def send_control_def encode_control_def limit_defs send_frame_def framed_send_def
        out_lib.truncate_def write_event_def pair_confirmed_def confirm_line_def pair_decided_def ob_recv_def recv_frame_def
        pair_answer_def on_out_def pair_store_def ob_clock_def stream_spki_def extract_spki_def result_simps Let_def)
  then obtain s1 where s1: "pair_connected ?lib (hex_encode [2]) 7 ''p'' ex (?s\<lparr>ic_input := [CiLine ''y''], ic_out := u,
        ic_written := [ok_response (JObj [(''status'', JStr ''connecting''), (''message'', JStr ''Connecting to a...'')])]\<rparr>) = (Inr (), s1)"
      "ic_input s1 = []" "ic_daemon s1 = ?dm\<lparr>ds_db := snd (insert_or_update (pair_device (hex_encode [2]) ''p'' [2] 0 0) (ds_db ?dm))\<rparr>"
    by metis
  have paired: "is_paired (hex_encode [2]) (ds_db ?dm) = (False, ds_db ?dm)"
    by (simp add: is_paired_def paired_lookup_def sql_on_rows_def rows_with_def daemon_state_new_def)
  have run: "handle_ipc_client ?lib ?s = (Inr (), s1)"
    using s1(1,2) u(1) trim(1) paired
    by (simp add: handle_ipc_client.simps ipc_line_def ipc_request_def cmd_pair_streaming_def device_addr_def pair_addressed_def
        on_daemon_def write_event_def on_out_def)
  have view: "table_view pd_device_id (ds_db (ic_daemon s1)) (hex_encode [2]) = Some (pair_device (hex_encode [2]) ''p'' [2] 0 0)"
    using s1(3) by (simp add: daemon_state_new_def insert_or_update_def sql_on_rows_def rows_upsert_def table_view_def pair_device_def)
  have ok: "table_ok pd_device_id (ds_db (ic_daemon ?s))" and
    fresh: "table_view pd_device_id (ds_db (ic_daemon ?s)) (hex_encode [2]) = None"
    by (simp_all add: daemon_state_new_def table_ok_def table_view_def)
  from client_pairs_only_with_consent [OF run ok view] fresh
  obtain p cert rest spki where p: "Inr p \<in> set (os_dials (ic_out ?s))" "ps_certs p = Some (cert # rest)"
      "extract_spki (ol_x509 ?lib) cert = Inr spki" "pd_public_key_spki (pair_device (hex_encode [2]) ''p'' [2] 0 0) = spki"
    by (elim disjE exE conjE) simp_all
  have "spki = [2]" using p(4) by (simp add: pair_device_def)
  then show ?thesis
    using run fresh view p
    by (intro exI [where x = ?lib] exI [where x = ?s] exI [where x = s1] exI [where x = "pair_device (hex_encode [2]) ''p'' [2] 0 0"]
        exI [where x = p] exI [where x = cert] exI [where x = rest]) simp
qed

end
