(* ===== verification/Nxfr_Watch.thy ===== *)
theory Nxfr_Watch
  imports Nxfr_Commands
begin

text \<open>
  The order of the events that a client of \<open>watch\<close> is shown: the channel of a watcher is a queue of its
  own, which other tasks can only extend or drop.
\<close>

section \<open>What is shown\<close>

definition is_response :: "IpcEvent \<Rightarrow> bool" where
  "is_response e \<longleftrightarrow> (case e of EvResponse _ _ _ \<Rightarrow> True | _ \<Rightarrow> False)"

text \<open>The events written that are not answers to the client's own lines.\<close>

abbreviation shown :: "ipc_state \<Rightarrow> IpcEvent list" where
  "shown s \<equiv> filter (\<lambda>e. \<not> is_response e) (ic_written s)"

fun broadcasts :: "client_input list \<Rightarrow> IpcEvent list" where
  "broadcasts [] = []"
| "broadcasts (CiBroadcast e # ins) = e # broadcasts ins"
| "broadcasts (_ # ins) = broadcasts ins"

definition watchers_ok :: "DaemonState \<Rightarrow> bool" where
  "watchers_ok dm \<longleftrightarrow> distinct (map wt_id (ds_watchers dm)) \<and> (\<forall>w\<in>set (ds_watchers dm). wt_id w < ds_next_channel dm)"

text \<open>The own channel is open and holds \<open>evs\<close>, or the daemon dropped it.\<close>

definition own_channel :: "nat \<Rightarrow> IpcEvent list \<Rightarrow> DaemonState \<Rightarrow> bool" where
  "own_channel ch evs dm \<longleftrightarrow> watchers_ok dm \<and> ch < ds_next_channel dm \<and>
     (\<forall>w\<in>set (ds_watchers dm). wt_id w = ch \<longrightarrow> wt_queue w = evs \<and> \<not> wt_closed w)"

text \<open>
  The specification of a watcher's channel, as a pair: whether the daemon still holds the sending end, and
  what is queued. A broadcast is queued while there is room for it; when 64 events are queued the daemon
  drops the sending end, and what is queued can still be received. What the watcher forwards to its client
  is the head of the queue at each of its turns on the channel, until the client's lines end or fail, or
  a turn finds the queue of a dropped channel empty.
\<close>

definition channel_step :: "client_input \<Rightarrow> bool \<times> IpcEvent list \<Rightarrow> bool \<times> IpcEvent list" where
  "channel_step i st =
     (case i of
        CiBroadcast e \<Rightarrow> if fst st \<and> length (snd st) < 64 then (True, snd st @ [e]) else (False, snd st)
      | _ \<Rightarrow> st)"

fun forwarded :: "bool \<times> IpcEvent list \<Rightarrow> client_input list \<Rightarrow> IpcEvent list" where
  "forwarded st [] = []"
| "forwarded st (CiReadError e # ins) = []"
| "forwarded st (CiReceive # ins) =
     (case snd st of
        [] \<Rightarrow> if fst st then forwarded st ins else []
      | e # evs \<Rightarrow> e # forwarded (fst st, evs) ins)"
| "forwarded st (i # ins) = forwarded (channel_step i st) ins"

text \<open>
  All of \<open>full\<close> is shown between two states, or a part of it from its beginning up to a write that failed,
  after which nothing is written.
\<close>

definition shown_until :: "ipc_state \<Rightarrow> IpcEvent list \<Rightarrow> ipc_state \<Rightarrow> bool" where
  "shown_until s full s' \<longleftrightarrow> (\<exists>X used. shown s' = shown s @ X \<and> ic_faults s = used @ ic_faults s' \<and>
     prefix X full \<and> (X = full \<or> used \<noteq> [] \<and> last used \<noteq> None))"

section \<open>Lemmas\<close>

subsection \<open>The specification\<close>

lemma broadcasts_Cons: "broadcasts (i # ins) = broadcasts [i] @ broadcasts ins"
  by (cases i) simp_all

lemma broadcasts_append: "broadcasts (a @ b) = broadcasts a @ broadcasts b"
  by (induction a) (simp, metis append_Cons append_assoc broadcasts_Cons)

lemma channel_step_prefix:
  "prefix (snd (channel_step i st) @ (if fst (channel_step i st) then Z else [])) (snd st @ (if fst st then broadcasts [i] @ Z else []))"
  by (cases i) (auto simp: channel_step_def)

lemma channel_run_prefix:
  "prefix (snd (fold channel_step is st) @ (if fst (fold channel_step is st) then Z else [])) (snd st @ (if fst st then broadcasts is @ Z else []))"
proof (induction "is" arbitrary: st)
  case (Cons i "is")
  from prefix_order.trans [OF Cons.IH channel_step_prefix] show ?case
    by (simp only: fold_simps broadcasts_Cons [of i "is"] append_assoc)
qed simp

lemma forwarded_prefix: "prefix (forwarded st ins) (snd st @ (if fst st then broadcasts ins else []))"
proof (induction ins arbitrary: st)
  case (Cons i ins)
  note step = prefix_order.trans [OF Cons.IH [of "channel_step i st"] channel_step_prefix]
  show ?case
  proof (cases i)
    case CiReceive
    then show ?thesis using Cons.IH [of st] Cons.IH [of "(fst st, tl (snd st))"] by (cases "snd st") (auto split: if_splits)
  qed (use step in \<open>auto split: if_splits\<close>)
qed simp

lemma shown_until_step:
  assumes "shown t = shown s @ Y" "ic_faults s = u @ ic_faults t" "shown_until t full s'"
  shows "shown_until s (Y @ full) s'"
proof -
  from assms(3) obtain X used where "shown s' = shown t @ X" "ic_faults t = used @ ic_faults s'" "prefix X full"
    "X = full \<or> used \<noteq> [] \<and> last used \<noteq> None" unfolding shown_until_def by blast
  then show ?thesis
    using assms(1,2) unfolding shown_until_def by (intro exI [of _ "Y @ X"] exI [of _ "u @ used"]) auto
qed

lemma shown_until_refl: "shown s' = shown s \<Longrightarrow> ic_faults s' = ic_faults s \<Longrightarrow> shown_until s [] s'"
  by (simp add: shown_until_def)

lemma shown_until_fault:
  "shown s' = shown s \<Longrightarrow> ic_faults s = used @ ic_faults s' \<Longrightarrow> used \<noteq> [] \<Longrightarrow> last used \<noteq> None \<Longrightarrow> shown_until s full s'"
  unfolding shown_until_def by (intro exI [of _ "[]"] exI [of _ used]) simp

subsection \<open>The channel\<close>

lemma own_queue_channel: "own_channel ch evs dm \<Longrightarrow> own_queue ch evs dm = evs"
  by (auto simp: own_queue_def own_channel_def simp: find_Some_iff split: option.splits)

lemma own_channel_same:
  "own_channel ch evs dm \<Longrightarrow> ds_watchers dm' = ds_watchers dm \<Longrightarrow> ds_next_channel dm \<le> ds_next_channel dm' \<Longrightarrow> own_channel ch evs dm'"
  unfolding own_channel_def watchers_ok_def by fastforce

lemma command_watchers [simp]:
  "ds_watchers (snd (cmd_set_receiving tt req dm)) = ds_watchers dm"
  "ds_watchers (snd (cmd_status dm)) = ds_watchers dm" "ds_watchers (snd (cmd_devices now dm)) = ds_watchers dm"
  "ds_watchers (snd (cmd_unpair req dm)) = ds_watchers dm" "ds_watchers (snd (cmd_transfer_confirm req dm)) = ds_watchers dm"
  "ds_next_channel (snd (cmd_transfer_confirm req dm)) = ds_next_channel dm"
  by (auto simp: cmd_set_receiving_def set_receiving_commit_def cmd_status_def cmd_devices_def cmd_unpair_def confirm_state
      take_offer_def Let_def case_prod_beta split: option.splits prod.splits sum.splits)

lemma expire_watchers: "ds_watchers (expire_offers t dm) = ds_watchers dm" "ds_next_channel (expire_offers t dm) = ds_next_channel dm"
proof -
  have one: "ds_watchers (expire_one k dm) = ds_watchers dm" "ds_next_channel (expire_one k dm) = ds_next_channel dm" for k dm
    by (simp_all add: remove_offer_def Let_def split: option.splits)
  have "ds_watchers (fold expire_one ks dm) = ds_watchers dm \<and> ds_next_channel (fold expire_one ks dm) = ds_next_channel dm" for ks dm
    by (induction ks arbitrary: dm) (simp_all add: one del: expire_one.simps)
  then show "ds_watchers (expire_offers t dm) = ds_watchers dm" "ds_next_channel (expire_offers t dm) = ds_next_channel dm"
    by (simp_all only: expire_offers_def Let_def)
qed

text \<open>A task that is not a watcher leaves the watchers alone.\<close>

lemma task_watchers:
  assumes "\<forall>n. act \<noteq> WatcherReads n \<and> act \<noteq> WatcherLeaves n" "act \<noteq> WatcherJoins"
  shows "ds_watchers (task_step tt now act dm) = ds_watchers dm" "ds_next_channel dm \<le> ds_next_channel (task_step tt now act dm)"
  using assms
  by (cases act; simp add: ipc_dispatch_def watch_command_def expire_watchers register_offer_def remove_offer_def
      browse_cache_round_def Let_def case_prod_beta split: option.splits)+

lemma update_watcher:
  assumes own: "own_channel ch evs dm" and n: "n < length (ds_watchers dm)" "wt_id (ds_watchers dm ! n) \<noteq> ch"
    and f: "\<And>w. wt_id (f w) = wt_id w"
  shows "own_channel ch evs (dm\<lparr>ds_watchers := (ds_watchers dm)[n := f (ds_watchers dm ! n)]\<rparr>)"
    "wt_id ` set ((ds_watchers dm)[n := f (ds_watchers dm ! n)]) = wt_id ` set (ds_watchers dm)"
proof -
  have ids: "map wt_id ((ds_watchers dm)[n := f (ds_watchers dm ! n)]) = map wt_id (ds_watchers dm)"
    by (metis f list_update_id map_update nth_map n(1))
  then show "wt_id ` set ((ds_watchers dm)[n := f (ds_watchers dm ! n)]) = wt_id ` set (ds_watchers dm)"
    by (metis list.set_map)
  have sub: "w \<in> set (ds_watchers dm) \<or> w = f (ds_watchers dm ! n)" if "w \<in> set ((ds_watchers dm)[n := f (ds_watchers dm ! n)])" for w
    using that set_update_subset_insert by fastforce
  show "own_channel ch evs (dm\<lparr>ds_watchers := (ds_watchers dm)[n := f (ds_watchers dm ! n)]\<rparr>)"
    using own n f ids unfolding own_channel_def watchers_ok_def by (auto dest!: sub simp: f)
qed

lemma own_channel_task:
  assumes own: "own_channel ch evs dm" and other: "\<not> acts_on_own ch (CiTask now act) dm"
  shows "own_channel ch evs (task_step tt t act dm) \<and> sender_dropped ch (task_step tt t act dm) = sender_dropped ch dm"
proof (cases act)
  case WatcherJoins
  then show ?thesis
    using own by (auto simp: watch_register_def own_channel_def watchers_ok_def sender_dropped_def)
next
  case (WatcherReads n)
  then show ?thesis
    using own other update_watcher [OF own, of n "\<lambda>w. w\<lparr>wt_queue := tl (wt_queue w)\<rparr>"]
    by (cases "n < length (ds_watchers dm)") (simp_all add: acts_on_own_def sender_dropped_def)
next
  case (WatcherLeaves n)
  then show ?thesis
    using own other update_watcher [OF own, of n "\<lambda>w. w\<lparr>wt_closed := True\<rparr>"]
    by (cases "n < length (ds_watchers dm)") (simp_all add: acts_on_own_def sender_dropped_def)
qed (use own_channel_same [OF own] task_watchers [where act = act and tt = tt and now = t and dm = dm] in \<open>auto simp: sender_dropped_def\<close>)

text \<open>A broadcast is queued for the own channel, or the daemon drops the channel.\<close>

lemma own_channel_broadcast:
  assumes own: "own_channel ch evs dm" and dm': "dm' = broadcast_to_watchers e dm"
  shows "own_channel ch (own_queue ch evs dm') dm'" "sender_dropped ch dm' \<longleftrightarrow> sender_dropped ch dm \<or> length evs \<ge> 64"
    "own_queue ch evs dm' = (if sender_dropped ch dm' then evs else evs @ [e])"
proof -
  let ?ws = "ds_watchers dm" and ?ws' = "List.map_filter (try_send e) (ds_watchers dm)"
  have sent: "\<exists>w\<in>set ?ws. w' = w\<lparr>wt_queue := wt_queue w @ [e]\<rparr> \<and> \<not> wt_closed w" if "w' \<in> set ?ws'" for w'
    using that by (auto simp: List.map_filter_def try_send_def split: if_splits)
  have "distinct (map wt_id (List.map_filter (try_send e) ws)) \<and>
      wt_id ` set (List.map_filter (try_send e) ws) \<subseteq> wt_id ` set ws" if "distinct (map wt_id ws)" for ws
    using that by (induction ws) (auto simp: List.map_filter_simps try_send_def image_iff)
  then have ids: "distinct (map wt_id ?ws')" "wt_id ` set ?ws' \<subseteq> wt_id ` set ?ws"
    using own by (auto simp: own_channel_def watchers_ok_def)
  have keep: "\<exists>w'\<in>set ?ws'. wt_id w' = ch" if "w \<in> set ?ws" "wt_id w = ch" "length evs < 64" for w
    using that own by (force simp: List.map_filter_def try_send_def own_channel_def)
  have full: "length evs < 64" if "w' \<in> set ?ws'" "wt_id w' = ch" for w'
    using that own by (auto simp: List.map_filter_def try_send_def own_channel_def split: if_splits)
  have "ch \<in> wt_id ` set ?ws' \<longleftrightarrow> ch \<in> wt_id ` set ?ws \<and> length evs < 64"
  proof
    show "ch \<in> wt_id ` set ?ws \<and> length evs < 64" if "ch \<in> wt_id ` set ?ws'" using that ids(2) full by blast
    assume "ch \<in> wt_id ` set ?ws \<and> length evs < 64"
    then obtain w where "w \<in> set ?ws" "wt_id w = ch" "length evs < 64" by blast
    from keep [OF this] obtain w' where "w' \<in> set ?ws'" "wt_id w' = ch" by blast
    then show "ch \<in> wt_id ` set ?ws'" by (rule rev_image_eqI [OF _ sym])
  qed
  then show "sender_dropped ch dm' \<longleftrightarrow> sender_dropped ch dm \<or> length evs \<ge> 64"
    by (simp add: sender_dropped_def dm' broadcast_to_watchers_def) linarith
  have q: "wt_queue w' = evs @ [e] \<and> \<not> wt_closed w'" if "w' \<in> set ?ws'" "wt_id w' = ch" for w'
    using sent [OF that(1)] that(2) own by (auto simp: own_channel_def)
  show queue: "own_queue ch evs dm' = (if sender_dropped ch dm' then evs else evs @ [e])"
  proof (cases "find (\<lambda>w. wt_id w = ch) ?ws'")
    case None
    then have "sender_dropped ch dm'" by (auto simp: sender_dropped_def dm' broadcast_to_watchers_def find_None_iff)
    then show ?thesis using None by (simp add: own_queue_def dm' broadcast_to_watchers_def)
  next
    case (Some w)
    then have w: "w \<in> set ?ws'" "wt_id w = ch" by (auto simp: find_Some_iff)
    then have "\<not> sender_dropped ch dm'" by (auto simp: sender_dropped_def dm' broadcast_to_watchers_def)
    then show ?thesis using Some q [OF w] by (simp add: own_queue_def dm' broadcast_to_watchers_def)
  qed
  have "\<forall>w\<in>set ?ws'. wt_id w < ds_next_channel dm" using ids(2) own by (auto simp: own_channel_def watchers_ok_def)
  then show "own_channel ch (own_queue ch evs dm') dm'"
    unfolding queue using ids(1) q own
    by (auto simp: own_channel_def watchers_ok_def sender_dropped_def dm' broadcast_to_watchers_def)
qed

lemma own_update_ids: "(\<And>w. wt_id (f w) = wt_id w) \<Longrightarrow> map wt_id (ds_watchers (own_update ch f dm)) = map wt_id (ds_watchers dm)"
  by (simp add: own_update_def)

lemma own_channel_receive:
  assumes "own_channel ch (e # evs) dm"
  shows "own_channel ch evs (own_update ch (wt_queue_update (\<lambda>_. evs)) dm)"
    "sender_dropped ch (own_update ch (wt_queue_update (\<lambda>_. evs)) dm) = sender_dropped ch dm"
proof -
  let ?dm = "own_update ch (wt_queue_update (\<lambda>_. evs)) dm"
  have mem: "\<exists>w\<in>set (ds_watchers dm). w' = (if wt_id w = ch then wt_queue_update (\<lambda>_. evs) w else w)" if "w' \<in> set (ds_watchers ?dm)" for w'
    using that by (simp add: own_update_def image_iff) blast
  have "wt_id w' < ds_next_channel dm \<and> (wt_id w' = ch \<longrightarrow> wt_queue w' = evs \<and> \<not> wt_closed w')" if w': "w' \<in> set (ds_watchers ?dm)" for w'
  proof -
    obtain w where w: "w \<in> set (ds_watchers dm)" "w' = (if wt_id w = ch then wt_queue_update (\<lambda>_. evs) w else w)" using mem [OF w'] by blast
    then show ?thesis using assms by (cases "wt_id w = ch") (simp_all add: own_channel_def watchers_ok_def)
  qed
  then have all: "\<forall>w\<in>set (ds_watchers ?dm). wt_id w < ds_next_channel dm"
    "\<forall>w\<in>set (ds_watchers ?dm). wt_id w = ch \<longrightarrow> wt_queue w = evs \<and> \<not> wt_closed w" by blast+
  have "ds_next_channel ?dm = ds_next_channel dm" "map wt_id (ds_watchers ?dm) = map wt_id (ds_watchers dm)"
    by (simp add: own_update_def, rule own_update_ids, simp)
  then show "own_channel ch evs ?dm"
    using assms unfolding own_channel_def watchers_ok_def by (intro conjI all(2)) (use all(1) in simp_all)
  show "sender_dropped ch (own_update ch (wt_queue_update (\<lambda>_. evs)) dm) = sender_dropped ch dm"
    unfolding sender_dropped_def set_map [symmetric] by (subst own_update_ids) simp_all
qed

lemma write_event_shown:
  assumes "write_event e s = (r, s')"
  shows "ic_out s' = ic_out s \<and> ic_input s' = ic_input s
    \<and> shown s' = shown s @ (case r of Inl _ \<Rightarrow> [] | Inr _ \<Rightarrow> if is_response e then [] else [e])
    \<and> (\<exists>used. ic_faults s = used @ ic_faults s' \<and> (\<forall>x. r = Inl x \<longrightarrow> used \<noteq> [] \<and> last used \<noteq> None))"
proof (cases "ic_faults s")
  case (Cons f fs)
  then show ?thesis using assms by (cases f) (auto simp: write_event_def intro!: exI [of _ "[f]"])
qed (use assms in \<open>auto simp: write_event_def\<close>)

lemma watch_line_shown:
  "shown (watch_line lib l s) = shown s" "ds_watchers (ic_daemon (watch_line lib l s)) = ds_watchers (ic_daemon s)"
  "ds_next_channel (ic_daemon (watch_line lib l s)) = ds_next_channel (ic_daemon s)"
  "\<exists>used. ic_faults s = used @ ic_faults (watch_line lib l s)"
proof -
  have response: "is_response (fst (watch_command req dm))" for req dm
    by (auto simp: watch_command_def cmd_transfer_confirm_def ok_response_def err_response_def is_response_def
        split: option.splits prod.splits)
  have quiet: "shown (snd (write_event e t)) = shown t" "ic_out (snd (write_event e t)) = ic_out t" if "is_response e" for e t
    using write_event_shown [OF prod.collapse [symmetric], of e t] that by (simp_all split: sum.splits)
  have used: "\<exists>used. ic_faults t = used @ ic_faults (snd (write_event e t))" for e t
    using write_event_shown [OF prod.collapse [symmetric], of e t] by blast
  have keeps: "ds_watchers (snd (watch_command req dm)) = ds_watchers dm" "ds_next_channel (snd (watch_command req dm)) = ds_next_channel dm" for req dm
    by (simp_all add: watch_command_def)
  have err: "is_response (err_response m)" for m by (simp add: err_response_def is_response_def)
  show "shown (watch_line lib l s) = shown s" "ds_watchers (ic_daemon (watch_line lib l s)) = ds_watchers (ic_daemon s)"
    "ds_next_channel (ic_daemon (watch_line lib l s)) = ds_next_channel (ic_daemon s)"
    by (auto simp: watch_line_def refuse_def Let_def on_daemon_def case_prod_beta quiet response err keeps split: sum.splits)
  show "\<exists>used. ic_faults s = used @ ic_faults (watch_line lib l s)"
    using used used [where t = "s\<lparr>ic_out := x\<rparr>" for x]
    by (simp add: watch_line_def refuse_def Let_def on_daemon_def case_prod_beta split: sum.splits)
qed

text \<open>One action of the others does to the own channel what the specification says.\<close>

lemma own_channel_step:
  assumes own: "own_channel ch evs dm" and dm': "dm' = watch_meanwhile lib ch i dm"
  shows "own_channel ch (own_queue ch evs dm') dm'"
    "(\<not> sender_dropped ch dm', own_queue ch evs dm') = channel_step i (\<not> sender_dropped ch dm, evs)"
proof -
  have "own_channel ch (own_queue ch evs dm') dm' \<and>
    (\<not> sender_dropped ch dm', own_queue ch evs dm') = channel_step i (\<not> sender_dropped ch dm, evs)"
  proof (cases i)
    case (CiTask now act)
    then have "own_channel ch evs dm' \<and> sender_dropped ch dm' = sender_dropped ch dm"
      using own_channel_task [OF own] own by (auto simp: dm' watch_meanwhile_def meanwhile_def)
    then show ?thesis using CiTask by (simp add: own_queue_channel channel_step_def)
  next
    case (CiBroadcast e)
    then have "dm' = broadcast_to_watchers e dm" by (simp add: dm' watch_meanwhile_def meanwhile_def acts_on_own_def)
    from own_channel_broadcast [OF own this] CiBroadcast show ?thesis by (auto simp: channel_step_def)
  qed (use own in \<open>simp_all add: dm' watch_meanwhile_def meanwhile_def acts_on_own_def own_queue_channel channel_step_def\<close>)
  then show "own_channel ch (own_queue ch evs dm') dm'"
    "(\<not> sender_dropped ch dm', own_queue ch evs dm') = channel_step i (\<not> sender_dropped ch dm, evs)" by blast+
qed

lemma watch_loop_other:
  fixes lib ch evs i ins s
  defines "t \<equiv> daemon_step (watch_meanwhile lib ch i) s"
  defines "evs' \<equiv> own_queue ch evs (ic_daemon t)"
  assumes own: "own_channel ch evs (ic_daemon s)" and quiet: "\<forall>e\<in>set evs \<union> set (broadcasts (i # ins)). \<not> is_response e"
    and IH: "own_channel ch evs' (ic_daemon t) \<Longrightarrow> \<forall>e\<in>set evs' \<union> set (broadcasts ins). \<not> is_response e \<Longrightarrow>
      shown_until t (forwarded (\<not> sender_dropped ch (ic_daemon t), evs') ins) (watch_loop lib ch evs' ins t)"
  shows "shown_until s (forwarded (channel_step i (\<not> sender_dropped ch (ic_daemon s), evs)) ins) (watch_loop lib ch evs' ins t)"
proof -
  have t: "ic_daemon t = watch_meanwhile lib ch i (ic_daemon s)" "shown t = shown s" "ic_faults t = ic_faults s"
    by (simp_all add: t_def daemon_step_def)
  note step = own_channel_step [OF own t(1), folded evs'_def]
  have "prefix evs' (evs @ broadcasts [i])"
    using channel_step_prefix [of i "(\<not> sender_dropped ch (ic_daemon s), evs)" "[]"]
    unfolding step(2) [symmetric] by (auto split: if_splits)
  then have "\<forall>e\<in>set evs' \<union> set (broadcasts ins). \<not> is_response e"
    using quiet broadcasts_Cons [of i ins] set_mono_prefix by fastforce
  from IH [OF step(1) this] show ?thesis
    unfolding step(2) [symmetric] using shown_until_step [of t s "[]" "[]"] t by simp
qed

lemma watch_loop_shown:
  assumes "own_channel ch evs (ic_daemon s)" "\<forall>e\<in>set evs \<union> set (broadcasts ins). \<not> is_response e"
  shows "shown_until s (forwarded (\<not> sender_dropped ch (ic_daemon s), evs) ins) (watch_loop lib ch evs ins s)"
  using assms
proof (induction ins arbitrary: evs s)
  case (Cons i ins)
  note IH = Cons.IH and own = Cons.prems(1) and quiet = Cons.prems(2)
  have other: "shown_until s (forwarded (channel_step i (\<not> sender_dropped ch (ic_daemon s), evs)) ins)
      (let s = daemon_step (watch_meanwhile lib ch i) s in watch_loop lib ch (own_queue ch evs (ic_daemon s)) ins s)"
    unfolding Let_def using Cons.prems Cons.IH by (rule watch_loop_other)
  show ?case
  proof (cases i)
    case (CiLine l)
    let ?t = "watch_line lib l s"
    have t: "own_channel ch evs (ic_daemon ?t)" "sender_dropped ch (ic_daemon ?t) = sender_dropped ch (ic_daemon s)"
      using own_channel_same [OF own] by (simp_all add: sender_dropped_def watch_line_shown)
    obtain u where "ic_faults s = u @ ic_faults ?t" using watch_line_shown(4) by blast
    from shown_until_step [OF _ this] IH [OF t(1)] quiet show ?thesis
      by (simp add: CiLine channel_step_def t(2) watch_line_shown(1))
  next
    case CiReceive
    show ?thesis
    proof (cases evs)
      case Nil
      then show ?thesis
        using IH [of "[]" s] own quiet CiReceive shown_until_refl [of s s] by (cases "sender_dropped ch (ic_daemon s)") simp_all
    next
      case (Cons e evs')
      obtain r t where t: "write_event e (daemon_step (own_update ch (wt_queue_update (\<lambda>_. evs'))) s) = (r, t)" by fastforce
      note w = write_event_shown [OF t]
      obtain u where u: "ic_faults s = u @ ic_faults t" "\<forall>x. r = Inl x \<longrightarrow> u \<noteq> [] \<and> last u \<noteq> None"
        using w by (auto simp: daemon_step_def)
      have dm: "ic_daemon t = own_update ch (wt_queue_update (\<lambda>_. evs')) (ic_daemon s)" and
        sh: "shown t = shown s @ (case r of Inl _ \<Rightarrow> [] | Inr _ \<Rightarrow> [e])"
        using w quiet Cons by (auto simp: daemon_step_def)
      show ?thesis
      proof (cases r)
        case (Inl x)
        then show ?thesis using t sh u Cons CiReceive shown_until_fault by auto
      next
        case (Inr x)
        have own': "own_channel ch evs' (ic_daemon t)" "sender_dropped ch (ic_daemon t) = sender_dropped ch (ic_daemon s)"
          using own_channel_receive own Cons dm by simp_all
        from shown_until_step [OF _ u(1)] IH [OF own'(1)] sh quiet show ?thesis
          using t Cons CiReceive Inr own'(2) by (fastforce intro: shown_until_step)
      qed
    qed
  qed (use other shown_until_refl in simp_all)
qed (simp add: shown_until_refl)

lemma replay_shown:
  assumes "replay_offers events s = (r, s')" "\<forall>e\<in>set events. \<not> is_response e"
  shows "case r of Inl _ \<Rightarrow> shown_until s (events @ Z) s' | Inr _ \<Rightarrow> shown s' = shown s @ events \<and> (\<exists>used. ic_faults s = used @ ic_faults s')"
    "ic_out s' = ic_out s" "ic_input s' = ic_input s"
proof -
  have "(case r of Inl _ \<Rightarrow> shown_until s (events @ Z) s' | Inr _ \<Rightarrow> shown s' = shown s @ events \<and> (\<exists>used. ic_faults s = used @ ic_faults s'))
      \<and> ic_out s' = ic_out s \<and> ic_input s' = ic_input s"
    using assms
  proof (induction events arbitrary: s)
    case (Cons e events)
    obtain q t where t: "write_event e s = (q, t)" by fastforce
    note w = write_event_shown [OF t]
    then obtain u where u: "ic_faults s = u @ ic_faults t" "\<forall>x. q = Inl x \<longrightarrow> u \<noteq> [] \<and> last u \<noteq> None" by blast
    show ?case
    proof (cases q)
      case (Inl x)
      then show ?thesis using Cons.prems t w u shown_until_fault [OF _ u(1)] by auto
    next
      case (Inr x)
      then have "replay_offers events t = (r, s')" using Cons.prems(1) t by simp
      note rest = Cons.IH [OF this]
      have sh: "shown t = shown s @ [e]" using w Inr Cons.prems(2) by simp
      show ?thesis
        using rest Cons.prems(2) sh w u(1) shown_until_step [OF sh u(1), of "events @ Z" s'] by (auto split: sum.splits)
    qed
  qed auto
  then show "case r of Inl _ \<Rightarrow> shown_until s (events @ Z) s' | Inr _ \<Rightarrow> shown s' = shown s @ events \<and> (\<exists>used. ic_faults s = used @ ic_faults s')"
    "ic_out s' = ic_out s" "ic_input s' = ic_input s" by blast+
qed

text \<open>What is queued by the time the offers are replayed.\<close>

lemma watch_race_channel:
  assumes "watch_race lib ch evs is s = (evs', s')" "own_channel ch evs (ic_daemon s)"
  shows "own_channel ch evs' (ic_daemon s') \<and> ic_written s' = ic_written s \<and> ic_input s' = ic_input s \<and> ic_faults s' = ic_faults s \<and>
    (\<not> sender_dropped ch (ic_daemon s'), evs') = fold channel_step is (\<not> sender_dropped ch (ic_daemon s), evs)"
  using assms
proof (induction "is" arbitrary: evs s)
  case (Cons i "is")
  let ?s = "daemon_step (watch_meanwhile lib ch i) s"
  have dm: "ic_daemon ?s = watch_meanwhile lib ch i (ic_daemon s)" by (simp add: daemon_step_def)
  note step = own_channel_step [OF Cons.prems(2) dm]
  from Cons.IH [OF _ step(1)] Cons.prems(1) show ?case
    by (simp add: Let_def step(2) [symmetric]) (simp add: daemon_step_def)
qed auto

lemma watch_registered_channel:
  fixes s
  defines "ch \<equiv> ds_next_channel (ic_daemon s)"
  assumes "watchers_ok (ic_daemon s)" "watch_registered lib s = (queued, s1)"
  shows "own_channel ch queued (ic_daemon s1)" "shown s1 = shown s" "ic_input s1 = ic_input s" "ic_faults s1 = ic_faults s"
    "(\<not> sender_dropped ch (ic_daemon s1), queued) = fold channel_step (ic_race s) (True, [])"
proof -
  let ?s0 = "snd (on_daemon watch_register s)"
  have own: "own_channel ch [] (ic_daemon ?s0)" and s0: "\<not> sender_dropped ch (ic_daemon ?s0)"
      "ic_written ?s0 = ic_written s" "ic_input ?s0 = ic_input s" "ic_faults ?s0 = ic_faults s"
    using assms(2) by (auto simp: ch_def on_daemon_def watch_register_def own_channel_def watchers_ok_def sender_dropped_def)
  note race = watch_race_channel [OF assms(3) [unfolded watch_registered_def, folded ch_def] own]
  show "own_channel ch queued (ic_daemon s1)" "shown s1 = shown s" "ic_input s1 = ic_input s" "ic_faults s1 = ic_faults s"
    "(\<not> sender_dropped ch (ic_daemon s1), queued) = fold channel_step (ic_race s) (True, [])"
    using race s0 by simp_all
qed

lemma watch_leave_shown [simp]: "shown (watch_leave ch t) = shown t" "ic_faults (watch_leave ch t) = ic_faults t"
  by (simp_all add: watch_leave_def daemon_step_def)

lemma shown_until_leave [simp]: "shown_until s full (watch_leave ch t) = shown_until s full t"
  by (simp add: shown_until_def)

text \<open>From the replay of the offers on.\<close>

lemma cmd_watch_shown:
  fixes s s1 queued
  defines "ch \<equiv> ds_next_channel (ic_daemon s)"
  defines "fwd \<equiv> forwarded (\<not> sender_dropped ch (ic_daemon s1), queued) (ic_input s1)"
  assumes "cmd_watch lib s = (r, s')" "watch_registered lib s = (queued, s1)" "own_channel ch queued (ic_daemon s1)"
    and quiet: "\<forall>e\<in>set (unresolved_offers (ic_daemon s1)) \<union> set queued \<union> set (broadcasts (ic_input s1)). \<not> is_response e"
  shows "shown_until s1 (unresolved_offers (ic_daemon s1) @ fwd) s'"
proof -
  let ?offers = "unresolved_offers (ic_daemon s1)"
  obtain q s2 where s2: "replay_offers ?offers s1 = (q, s2)" by fastforce
  note replay = replay_shown [OF s2]
  obtain q2 s3 where s3: "write_event watch_ack s2 = (q2, s3)" by fastforce
  have "is_response watch_ack" by (simp add: is_response_def watch_ack_def ok_response_def)
  with write_event_shown [OF s3] obtain u where ack: "ic_out s3 = ic_out s1" "ic_input s3 = ic_input s1" "shown s3 = shown s2"
      "ic_faults s2 = u @ ic_faults s3" "\<forall>x. q2 = Inl x \<longrightarrow> u \<noteq> [] \<and> last u \<noteq> None"
    using replay(2,3) quiet by (auto split: sum.splits)
  let ?s3 = "s3\<lparr>ic_input := []\<rparr>"
  have loop: "shown_until ?s3 fwd (watch_loop lib ch queued (ic_input s1) ?s3)"
    using watch_loop_shown [of ch queued ?s3] quiet assms(5) ack(1) by (simp add: fwd_def)
  have s': "s' = watch_leave ch (if isl q then s2 else if isl q2 then s3 else watch_loop lib ch queued (ic_input s1) ?s3)"
    using assms(3,4) s2 s3 ack(2) by (auto simp: cmd_watch_def ch_def Let_def split: sum.splits)
  show ?thesis
  proof (cases q)
    case (Inl x)
    then show ?thesis using replay(1) [of fwd] quiet s' by simp
  next
    case (Inr x)
    then obtain v where v: "shown s2 = shown s1 @ ?offers" "ic_faults s1 = v @ ic_faults s2" using replay(1) quiet by auto
    have "shown_until s2 fwd s'"
      using Inr s' shown_until_fault [of s3 s2 u] shown_until_step [OF _ _ loop, of s2 "[]" u] ack(3-5) by (cases q2) simp_all
    then show ?thesis by (rule shown_until_step [OF v])
  qed
qed

section \<open>Properties\<close>

text \<open>
  C20 A watcher sees what happens, in order and without gaps, and it is exact where it stops. Apart from the
  answers to its own lines, a client that watches is shown the offers that are unresolved when they are
  replayed, followed by the events that its channel forwards. These are, in the order of the broadcasts since
  the registration and beginning with the first, one event for each turn on the channel that finds one
  queued; they end only where the client leaves, or where the channel is empty after the daemon dropped it
  for a broadcast that found 64 events queued. All of this is shown unless a write fails: then the client
  has been shown it up to that write, the last one. This holds whatever commands the client sends and
  whatever other tasks and watchers do.
\<close>

theorem watch_shows_events_in_order:
  assumes "cmd_watch lib s = (r, s')" "watchers_ok (ic_daemon s)" "watch_registered lib s = (queued, s1)"
    and "\<forall>e\<in>set (unresolved_offers (ic_daemon s1)) \<union> set (broadcasts (ic_race s @ ic_input s)). \<not> is_response e"
    and "full = unresolved_offers (ic_daemon s1) @ forwarded (fold channel_step (ic_race s) (True, [])) (ic_input s)"
  shows "prefix full (unresolved_offers (ic_daemon s1) @ broadcasts (ic_race s @ ic_input s)) \<and>
    (\<exists>X used. filter (\<lambda>e. \<not> is_response e) (ic_written s') = filter (\<lambda>e. \<not> is_response e) (ic_written s) @ X \<and>
       ic_faults s = used @ ic_faults s' \<and> prefix X full \<and> (X = full \<or> used \<noteq> [] \<and> last used \<noteq> None))"
proof -
  let ?offers = "unresolved_offers (ic_daemon s1)" and ?st = "fold channel_step (ic_race s) (True, [])"
  note reg = watch_registered_channel [OF assms(2,3)]
  note run = channel_run_prefix [of "ic_race s" "(True, [])"]
  have "prefix queued (broadcasts (ic_race s))" using run [of "[]"] by (simp add: reg(5) [symmetric])
  then have quiet: "\<forall>e\<in>set ?offers \<union> set queued \<union> set (broadcasts (ic_input s1)). \<not> is_response e"
    using assms(4) by (auto simp: broadcasts_append reg(3) dest!: set_mono_prefix)
  have "prefix (forwarded ?st (ic_input s)) (broadcasts (ic_race s @ ic_input s))"
    using forwarded_prefix [of ?st "ic_input s"] run [of "broadcasts (ic_input s)"]
    by (simp add: broadcasts_append prefix_order.trans)
  then have "prefix full (?offers @ broadcasts (ic_race s @ ic_input s))" by (simp add: assms(5))
  moreover have "shown_until s1 full s'"
    using cmd_watch_shown [OF assms(1,3) reg(1) quiet] by (simp add: assms(5) reg(3,5))
  ultimately show ?thesis using reg(2,4) by (simp add: shown_until_def)
qed

theorem watch_shows_events_in_order_witness:
  "\<forall>lib. \<exists>s s' queued s1. cmd_watch lib s = (Inr (), s') \<and> watch_registered lib s = (queued, s1) \<and> ic_written s = [] \<and>
     ic_faults s = [] \<and> unresolved_offers (ic_daemon s1) = [EvPairFailed ''a''] \<and>
     broadcasts (ic_race s @ ic_input s) = [EvPairFailed ''b'', EvPairFailed ''c'', EvPairFailed ''d''] \<and>
     forwarded (fold channel_step (ic_race s) (True, [])) (ic_input s) = [EvPairFailed ''b'', EvPairFailed ''c''] \<and>
     filter (\<lambda>e. \<not> is_response e) (ic_written s') = [EvPairFailed ''a'', EvPairFailed ''b'', EvPairFailed ''c'']"
proof
  fix lib
  let ?dm = "(daemon_state_new \<lparr>cf_device_name = ''n'', cf_receive_dir = [''d''], cf_receiving_enabled = True\<rparr> [''c'']
      \<lparr>db_rows = Some [], db_autoinc = 0, db_version = Some [1], db_faults = []\<rparr>
      \<lparr>files = [], dirs = [], io_faults = []\<rparr> [''j''] (replicate 32 3) None)
    \<lparr>ds_next_channel := 1, ds_pending_offers := [(''k'', \<lparr>po_offer_event = EvPairFailed ''a'', po_respond_to = Some 0, po_expires_at = 9\<rparr>)]\<rparr>"
  let ?s = "\<lparr>ic_out = \<lparr>os_streams = [], os_dials = [], os_timely = [], os_clock = [], os_daemon = ?dm, os_events = []\<rparr>,
    ic_input = [CiBroadcast (EvPairFailed ''c''), CiReceive, CiReceive, CiBroadcast (EvPairFailed ''d'')], ic_written = [],
    ic_faults = [], ic_room = [], ic_race = [CiBroadcast (EvPairFailed ''b'')]\<rparr>"
  note eval = watch_registered_def on_daemon_def watch_register_def write_event_def daemon_step_def watch_meanwhile_def acts_on_own_def
    meanwhile_def broadcast_to_watchers_def List.map_filter_simps try_send_def own_queue_def own_update_def watch_leave_def
    is_response_def ok_response_def watch_ack_def daemon_state_new_def unresolved_offers_def Let_def
  obtain s' where run: "cmd_watch lib ?s = (Inr (), s')" by (simp add: cmd_watch_def eval)
  obtain queued s1 where reg: "watch_registered lib ?s = (queued, s1)" and offers: "unresolved_offers (ic_daemon s1) = [EvPairFailed ''a'']"
    by (simp add: eval)
  have ok: "watchers_ok (ic_daemon ?s)" by (simp add: watchers_ok_def daemon_state_new_def)
  have fwd: "forwarded (fold channel_step (ic_race ?s) (True, [])) (ic_input ?s) = [EvPairFailed ''b'', EvPairFailed ''c'']"
    by (simp add: channel_step_def)
  have "filter (\<lambda>e. \<not> is_response e) (ic_written s') = [EvPairFailed ''a'', EvPairFailed ''b'', EvPairFailed ''c'']"
    using watch_shows_events_in_order [OF run ok reg _ refl] unfolding offers fwd by (auto simp: is_response_def)
  then show "\<exists>s s' queued s1. cmd_watch lib s = (Inr (), s') \<and> watch_registered lib s = (queued, s1) \<and> ic_written s = [] \<and>
     ic_faults s = [] \<and> unresolved_offers (ic_daemon s1) = [EvPairFailed ''a''] \<and>
     broadcasts (ic_race s @ ic_input s) = [EvPairFailed ''b'', EvPairFailed ''c'', EvPairFailed ''d''] \<and>
     forwarded (fold channel_step (ic_race s) (True, [])) (ic_input s) = [EvPairFailed ''b'', EvPairFailed ''c''] \<and>
     filter (\<lambda>e. \<not> is_response e) (ic_written s') = [EvPairFailed ''a'', EvPairFailed ''b'', EvPairFailed ''c'']"
    using run reg offers fwd by (intro exI [where x = ?s] exI [where x = s'] exI [where x = queued] exI [where x = s1]) simp
qed

end
