(* ===== verification/Nxfr_Web_Wire.thy ===== *)
theory Nxfr_Web_Wire
  imports Nxfr_Text
begin

unbundle bit_operations_syntax

text \<open>
  The formats of the web server (\<open>nxfr-web/src/lib.rs\<close>): byte ranges, file names, the records of a ZIP
  archive and the chunked transfer coding, with a reader for the last two as the clients have it.
\<close>

section \<open>Byte ranges\<close>

definition parse_range_header :: "string \<Rightarrow> u64 \<Rightarrow> (u64 \<times> u64) option" where
  "parse_range_header header_val file_size =
     (if file_size = 0 then None
      else let s = str_trim header_val
      in if \<not> prefix ''bytes='' s then None
      else let range_part = str_trim (hd (split_on CHR '','' (drop 6 s)))
      in Option.bind (split_once CHR ''-'' range_part) (\<lambda>(start_str, end_str).
           if start_str = []
           then Option.bind (parse_u64 end_str) (\<lambda>suffix_len.
                  if suffix_len = 0 \<or> suffix_len > file_size then None
                  else Some (file_size - suffix_len, file_size - 1))
           else Option.bind (parse_u64 start_str) (\<lambda>start.
                Option.bind (if end_str = [] then Some (file_size - 1) else parse_u64 end_str) (\<lambda>end.
                  if start > end \<or> start \<ge> file_size then None
                  else Some (start, min end (file_size - 1))))))"

section \<open>File names\<close>

text \<open>
  The random bytes are drawn by the caller; \<open>alnum\<close> decides about the characters outside ASCII.
\<close>

definition is_ascii_alphanumeric :: "char \<Rightarrow> bool" where
  "is_ascii_alphanumeric c \<longleftrightarrow> is_ascii_alphabetic c \<or> is_digit c"

definition is_alphanumeric :: "(string \<Rightarrow> bool) \<Rightarrow> string \<Rightarrow> bool" where
  "is_alphanumeric alnum c =
     (if length c = 1 \<and> char_code (hd c) < 0x80 then is_ascii_alphanumeric (hd c) else alnum c)"

definition sanitize_char :: "(string \<Rightarrow> bool) \<Rightarrow> string \<Rightarrow> string" where
  "sanitize_char alnum c =
     (if is_alphanumeric alnum c \<or> c = ''.'' \<or> c = ''-'' \<or> c = ''_'' then c else ''_'')"

definition sanitize_chars :: "(string \<Rightarrow> bool) \<Rightarrow> string \<Rightarrow> string" where
  "sanitize_chars alnum name = concat (map (sanitize_char alnum) (str_chars name))"

definition needs_random_name :: "string \<Rightarrow> bool" where
  "needs_random_name sanitized \<longleftrightarrow>
     sanitized = [] \<or> sanitized = ''.'' \<or> sanitized = ''..'' \<or> str_trim_matches CHR ''.'' sanitized = []"

definition sanitize_filename :: "(string \<Rightarrow> bool) \<Rightarrow> bytes \<Rightarrow> string \<Rightarrow> string" where
  "sanitize_filename alnum rand_bytes name =
     (let sanitized = sanitize_chars alnum name
      in if needs_random_name sanitized then ''uploaded_file_'' @ hex_encode rand_bytes @ ''.bin''
         else sanitized)"

section \<open>ZIP records\<close>

definition u16_to_le_bytes :: "u16 \<Rightarrow> bytes" where
  "u16_to_le_bytes w = rev (u16_to_be_bytes w)"

definition u32_to_le_bytes :: "u32 \<Rightarrow> bytes" where
  "u32_to_le_bytes w = rev (u32_to_be_bytes w)"

definition build_zip_local_header :: "bytes \<Rightarrow> bytes" where
  "build_zip_local_header filename =
     u32_to_le_bytes 0x04034b50 @ u16_to_le_bytes 20 @ u16_to_le_bytes 0x0008 @ u16_to_le_bytes 0
     @ u16_to_le_bytes 0 @ u16_to_le_bytes 0x0021 @ u32_to_le_bytes 0 @ u32_to_le_bytes 0 @ u32_to_le_bytes 0
     @ u16_to_le_bytes (of_nat (length filename)) @ u16_to_le_bytes 0 @ filename"

definition build_zip_data_descriptor :: "u32 \<Rightarrow> u64 \<Rightarrow> bytes" where
  "build_zip_data_descriptor crc32 file_size =
     u32_to_le_bytes 0x08074b50 @ u32_to_le_bytes crc32 @ u32_to_le_bytes (ucast file_size)
     @ u32_to_le_bytes (ucast file_size)"

definition build_zip_central_entry :: "bytes \<Rightarrow> u64 \<Rightarrow> u32 \<Rightarrow> u64 \<Rightarrow> bytes" where
  "build_zip_central_entry filename file_size crc32 local_offset =
     u32_to_le_bytes 0x02014b50 @ u16_to_le_bytes 0x0314 @ u16_to_le_bytes 20 @ u16_to_le_bytes 0x0008
     @ u16_to_le_bytes 0 @ u16_to_le_bytes 0 @ u16_to_le_bytes 0x0021 @ u32_to_le_bytes crc32
     @ u32_to_le_bytes (ucast file_size) @ u32_to_le_bytes (ucast file_size)
     @ u16_to_le_bytes (of_nat (length filename)) @ u16_to_le_bytes 0 @ u16_to_le_bytes 0 @ u16_to_le_bytes 0
     @ u16_to_le_bytes 0 @ u32_to_le_bytes 0 @ u32_to_le_bytes (ucast local_offset) @ filename"

definition build_zip_eocd :: "u16 \<Rightarrow> u32 \<Rightarrow> u32 \<Rightarrow> bytes" where
  "build_zip_eocd entry_count central_dir_size central_dir_offset =
     u32_to_le_bytes 0x06054b50 @ u16_to_le_bytes 0 @ u16_to_le_bytes 0 @ u16_to_le_bytes entry_count
     @ u16_to_le_bytes entry_count @ u32_to_le_bytes central_dir_size @ u32_to_le_bytes central_dir_offset
     @ u16_to_le_bytes 0"

text \<open>A line of the central directory as the handler collects them.\<close>

record ZipEntry =
  ze_filename :: bytes
  ze_file_size :: u64
  ze_crc32 :: u32
  ze_local_offset :: u64

definition zip_central :: "ZipEntry \<Rightarrow> bytes" where
  "zip_central e = build_zip_central_entry (ze_filename e) (ze_file_size e) (ze_crc32 e) (ze_local_offset e)"

section \<open>Chunked transfer coding\<close>

definition crlf :: string where
  "crlf = [CHR 0x0D, CHR 0x0A]"

definition chunk_header :: "bytes \<Rightarrow> bytes" where
  "chunk_header d = text_bytes (hex_upper (length d) @ crlf)"

definition http_chunk :: "bytes \<Rightarrow> bytes" where
  "http_chunk d = (if d = [] then [] else chunk_header d @ d @ text_bytes crlf)"

definition chunk_last :: bytes where
  "chunk_last = text_bytes (''0'' @ crlf @ crlf)"

section \<open>The readers of the clients\<close>

text \<open>A chunk: its size in hexadecimal, a line end, the data and a line end; a chunk of size zero ends the body.\<close>

definition hex_value :: "u8 \<Rightarrow> nat option" where
  "hex_value b =
     (if 48 \<le> b \<and> b \<le> 57 then Some (unat b - 48)
      else if 65 \<le> b \<and> b \<le> 70 then Some (unat b - 55) else None)"

fun read_hex :: "nat \<Rightarrow> bytes \<Rightarrow> nat \<times> bytes" where
  "read_hex acc [] = (acc, [])"
| "read_hex acc (b # bs) =
     (case hex_value b of None \<Rightarrow> (acc, b # bs) | Some d \<Rightarrow> read_hex (16 * acc + d) bs)"

function dechunk :: "bytes \<Rightarrow> (bytes \<times> bytes) option" where
  "dechunk bs =
     (case read_hex 0 bs of (n, r) \<Rightarrow>
        if \<not> prefix (text_bytes crlf) r \<or> length r < n + 4 \<or> length bs \<le> length r then None
        else if n = 0 then (if prefix (text_bytes crlf) (drop 2 r) then Some ([], drop 4 r) else None)
        else if \<not> prefix (text_bytes crlf) (drop (2 + n) r) then None
        else map_option (\<lambda>(d, rest). (take n (drop 2 r) @ d, rest)) (dechunk (drop (n + 4) r)))"
  by pat_completeness auto

termination dechunk
  by (relation "measure length") (auto simp: not_le)

declare dechunk.simps [simp del]

text \<open>
  A ZIP reader: the end record of 22 bytes gives the number of entries and the place of the central
  directory, its entries give the names, sizes and check sums and the places of the local headers.
\<close>

definition le_at :: "nat \<Rightarrow> nat \<Rightarrow> bytes \<Rightarrow> nat" where
  "le_at i n bs = be_to_nat (rev (take n (drop i bs)))"

definition read_local :: "(bytes \<Rightarrow> u32) \<Rightarrow> bytes \<Rightarrow> nat \<Rightarrow> nat \<Rightarrow> nat \<Rightarrow> bytes \<Rightarrow> bytes option" where
  "read_local crc archive local_offset file_size checksum filename =
     (let h = drop local_offset archive; n = le_at 26 2 h;
          d = take file_size (drop (30 + n) h)
      in if le_at 0 4 h \<noteq> 0x04034b50 \<or> take n (drop 30 h) \<noteq> filename \<or> length d \<noteq> file_size
            \<or> unat (crc d) \<noteq> checksum
         then None else Some d)"

fun read_central :: "(bytes \<Rightarrow> u32) \<Rightarrow> bytes \<Rightarrow> nat \<Rightarrow> bytes \<Rightarrow> (bytes \<times> bytes) list option" where
  "read_central crc archive 0 dir = Some []"
| "read_central crc archive (Suc k) dir =
     (let n = le_at 28 2 dir; filename = take n (drop 46 dir)
      in if le_at 0 4 dir \<noteq> 0x02014b50 then None
         else Option.bind (read_local crc archive (le_at 42 4 dir) (le_at 24 4 dir) (le_at 16 4 dir) filename) (\<lambda>d.
              map_option (\<lambda>rest. (filename, d) # rest) (read_central crc archive k (drop (46 + n) dir))))"

definition unzip_archive :: "(bytes \<Rightarrow> u32) \<Rightarrow> bytes \<Rightarrow> (bytes \<times> bytes) list option" where
  "unzip_archive crc archive =
     (let e = drop (length archive - 22) archive
      in if length archive < 22 \<or> le_at 0 4 e \<noteq> 0x06054b50 then None
         else read_central crc archive (le_at 10 2 e) (drop (le_at 16 4 e) archive))"

section \<open>Chunks come back\<close>

lemma text_bytes_append [simp]: "text_bytes (a @ b) = text_bytes a @ text_bytes b"
  by (simp add: text_bytes_def)

lemma text_bytes_crlf: "text_bytes crlf = [0x0D, 0x0A]"
  by (simp add: text_bytes_def crlf_def)

lemma hex_value_digit: "n < 16 \<Longrightarrow> hex_value (of_nat (of_char (hex_upper_digit n))) = Some n"
proof -
  assume "n < 16"
  moreover have "list_all (\<lambda>n. hex_value (of_nat (of_char (hex_upper_digit n))) = Some n) [0 ..< 16]" by code_simp
  ultimately show ?thesis by (auto simp: list_all_iff)
qed

lemma hex_upper_digit_mod: "hex_upper_digit (n mod 16) = hex_upper_digit n"
  by (simp add: hex_upper_digit_def)

lemma read_hex_digits:
  "read_hex acc (text_bytes (hex_upper n) @ r) = read_hex (acc * 16 ^ length (hex_upper n) + n) r"
proof (induction n arbitrary: acc r rule: hex_upper.induct)
  case (1 n)
  show ?case
  proof (cases "n < 16")
    case True
    then show ?thesis
      by (simp add: hex_upper.simps [of n] text_bytes_def hex_value_digit mult.commute del: of_nat_of_char)
  next
    case False
    have "hex_value (of_nat (of_char (hex_upper_digit n))) = Some (n mod 16)"
      using hex_value_digit [of "n mod 16"] by (simp add: hex_upper_digit_mod)
    then have "read_hex acc (text_bytes (hex_upper n) @ r)
        = read_hex (16 * (acc * 16 ^ length (hex_upper (n div 16)) + n div 16) + n mod 16) r"
      using False 1 [of acc "text_bytes [hex_upper_digit n] @ r"]
      by (simp add: hex_upper.simps [of n] text_bytes_def [of "[_]"] del: of_nat_of_char)
    moreover have "16 * (acc * 16 ^ length (hex_upper (n div 16)) + n div 16) + n mod 16
        = acc * 16 ^ length (hex_upper n) + n"
      using False by (simp add: hex_upper.simps [of n] algebra_simps)
    ultimately show ?thesis by metis
  qed
qed

lemma hex_upper_Nil [simp]: "hex_upper n \<noteq> []"
  by (subst hex_upper.simps) simp

lemma read_hex_crlf: "read_hex acc (text_bytes crlf @ r) = (acc, text_bytes crlf @ r)"
  by (simp add: text_bytes_crlf hex_value_def)

lemma length_crlf [simp]: "length crlf = 2"
  by (simp add: crlf_def)

lemma dechunk_one:
  assumes "d \<noteq> []"
  shows "dechunk (http_chunk d @ r) = map_option (\<lambda>(ds, rest). (d @ ds, rest)) (dechunk r)"
proof -
  have "read_hex 0 (http_chunk d @ r) = (length d, text_bytes crlf @ d @ text_bytes crlf @ r)"
    using assms read_hex_crlf by (simp add: http_chunk_def chunk_header_def read_hex_digits)
  then show ?thesis
    using assms by (subst dechunk.simps) (simp add: http_chunk_def chunk_header_def)
qed

lemma dechunk_last: "dechunk (chunk_last @ r) = Some ([], r)"
proof -
  have c: "chunk_last @ r = text_bytes (hex_upper 0) @ text_bytes crlf @ text_bytes crlf @ r"
    unfolding chunk_last_def text_bytes_append append_assoc by (simp add: hex_upper.simps [of 0] hex_upper_digit_def)
  have "read_hex 0 (chunk_last @ r) = (0, text_bytes crlf @ text_bytes crlf @ r)"
    unfolding c read_hex_digits by (simp add: read_hex_crlf)
  moreover have "length (chunk_last @ r) = 5 + length r" by (simp add: chunk_last_def)
  ultimately show ?thesis by (subst dechunk.simps) simp
qed

lemma dechunk_frames:
  "dechunk (concat (map http_chunk ds) @ chunk_last @ r) = Some (concat ds, r)"
proof (induction ds)
  case (Cons d ds)
  then show ?case by (cases "d = []") (simp_all add: http_chunk_def [of "[]"] dechunk_one)
qed (simp add: dechunk_last)

section \<open>Archives come back\<close>

text \<open>The archive of a list of files with their names.\<close>

definition zip_local :: "(bytes \<Rightarrow> u32) \<Rightarrow> bytes \<times> bytes \<Rightarrow> bytes" where
  "zip_local crc f =
     build_zip_local_header (fst f) @ snd f @ build_zip_data_descriptor (crc (snd f)) (of_nat (length (snd f)))"

fun zip_entries :: "(bytes \<Rightarrow> u32) \<Rightarrow> u64 \<Rightarrow> (bytes \<times> bytes) list \<Rightarrow> ZipEntry list" where
  "zip_entries crc off [] = []"
| "zip_entries crc off (f # fs) =
     \<lparr>ze_filename = fst f, ze_file_size = of_nat (length (snd f)), ze_crc32 = crc (snd f), ze_local_offset = off\<rparr>
     # zip_entries crc (off + of_nat (length (zip_local crc f))) fs"

definition zip_files :: "(bytes \<Rightarrow> u32) \<Rightarrow> (bytes \<times> bytes) list \<Rightarrow> bytes" where
  "zip_files crc fs = concat (map (zip_local crc) fs)"

definition zip_directory :: "(bytes \<Rightarrow> u32) \<Rightarrow> (bytes \<times> bytes) list \<Rightarrow> bytes" where
  "zip_directory crc fs = concat (map zip_central (zip_entries crc 0 fs))"

definition zip_archive :: "(bytes \<Rightarrow> u32) \<Rightarrow> (bytes \<times> bytes) list \<Rightarrow> bytes" where
  "zip_archive crc fs = zip_files crc fs @ zip_directory crc fs
     @ build_zip_eocd (of_nat (length fs)) (of_nat (length (zip_directory crc fs))) (of_nat (length (zip_files crc fs)))"

lemma length_le_bytes [simp]: "length (u16_to_le_bytes a) = 2" "length (u32_to_le_bytes b) = 4"
  by (simp_all add: u16_to_le_bytes_def u32_to_le_bytes_def)

lemma le_at_append: "length xs \<le> i \<Longrightarrow> le_at i n (xs @ ys) = le_at (i - length xs) n ys"
  by (simp add: le_at_def)

lemma le_at_u16 [simp]: "le_at 0 2 (u16_to_le_bytes a @ r) = unat a"
  using be_to_nat_nat_to_be [of 2 "unat a"] unsigned_less [where ?'a = nat, of a]
  by (simp add: le_at_def u16_to_le_bytes_def u16_to_be_bytes_def)

lemma le_at_u32 [simp]: "le_at 0 4 (u32_to_le_bytes a @ r) = unat a"
  using be_to_nat_nat_to_be [of 4 "unat a"] unsigned_less [where ?'a = nat, of a]
  by (simp add: le_at_def u32_to_le_bytes_def u32_to_be_bytes_def)

lemma local_header_fields:
  "le_at 0 4 (build_zip_local_header f @ r) = 0x04034b50"
  "le_at 26 2 (build_zip_local_header f @ r) = unat (of_nat (length f) :: u16)"
  "drop 30 (build_zip_local_header f @ r) = f @ r"
  "length (build_zip_local_header f) = 30 + length f"
  by (simp_all add: build_zip_local_header_def le_at_append)

lemma central_entry_fields:
  "le_at 0 4 (build_zip_central_entry f n c off @ r) = 0x02014b50"
  "le_at 16 4 (build_zip_central_entry f n c off @ r) = unat c"
  "le_at 24 4 (build_zip_central_entry f n c off @ r) = unat (ucast n :: u32)"
  "le_at 28 2 (build_zip_central_entry f n c off @ r) = unat (of_nat (length f) :: u16)"
  "le_at 42 4 (build_zip_central_entry f n c off @ r) = unat (ucast off :: u32)"
  "drop 46 (build_zip_central_entry f n c off @ r) = f @ r"
  "length (build_zip_central_entry f n c off) = 46 + length f"
  by (simp_all add: build_zip_central_entry_def le_at_append)

lemma eocd_fields:
  "length (build_zip_eocd k n off) = 22"
  "le_at 0 4 (build_zip_eocd k n off) = 0x06054b50"
  "le_at 10 2 (build_zip_eocd k n off) = unat k"
  "le_at 16 4 (build_zip_eocd k n off) = unat off"
  by (simp_all add: build_zip_eocd_def le_at_append)

lemma unat_of_nat_u16: "n < 2 ^ 16 \<Longrightarrow> unat (of_nat n :: u16) = n"
  by (simp add: unat_of_nat take_bit_nat_eq_self)

lemma unat_ucast_u32: "unat (ucast (of_nat n :: u64) :: u32) = n" if "n < 2 ^ 32"
proof -
  have "unat (of_nat n :: u64) = n" using that unat_of_nat_u64 [of n] by simp
  then show ?thesis using that by (simp add: unsigned_ucast_eq take_bit_nat_eq_self)
qed

lemma read_local_at:
  assumes "archive = pre @ zip_local crc (f, d) @ post" "length f < 2 ^ 16"
  shows "read_local crc archive (length pre) (length d) (unat (crc d)) f = Some d"
proof -
  have "drop (length pre) archive
      = build_zip_local_header f @ d @ build_zip_data_descriptor (crc d) (of_nat (length d)) @ post"
    using assms(1) by (simp add: zip_local_def)
  moreover have "drop (30 + length f) (build_zip_local_header f @ r) = r" for r
    using local_header_fields(4) [of f] by simp
  ultimately show ?thesis
    using assms(2) by (simp add: read_local_def Let_def local_header_fields unat_of_nat_u16 del: drop_append)
qed

lemma read_central_entries:
  assumes "archive = pre @ zip_files crc fs @ post" "length pre + length (zip_files crc fs) < 2 ^ 32"
    and "\<forall>(f, d)\<in>set fs. length f < 2 ^ 16"
  shows "read_central crc archive (length fs) (concat (map zip_central (zip_entries crc (of_nat (length pre)) fs)) @ r)
      = Some fs"
  using assms
proof (induction fs arbitrary: pre)
  case (Cons fd fs)
  obtain f d where fd: "fd = (f, d)" by (cases fd)
  let ?loc = "zip_local crc (f, d)"
  let ?rest = "concat (map zip_central (zip_entries crc (of_nat (length (pre @ ?loc))) fs)) @ r"
  have sizes: "length pre < 2 ^ 32" "length d < 2 ^ 32"
    using Cons.prems(2) by (auto simp: fd zip_files_def zip_local_def)
  have "read_central crc archive (length fs) ?rest = Some fs"
    using Cons.prems by (intro Cons.IH) (auto simp: fd zip_files_def)
  moreover have "read_local crc archive (length pre) (length d) (unat (crc d)) f = Some d"
    using Cons.prems by (intro read_local_at) (auto simp: fd zip_files_def)
  moreover have "concat (map zip_central (zip_entries crc (of_nat (length pre)) (fd # fs))) @ r
      = build_zip_central_entry f (of_nat (length d)) (crc d) (of_nat (length pre)) @ ?rest"
    by (simp add: fd zip_central_def)
  moreover have "drop (46 + length f) (build_zip_central_entry f n c off @ x) = x" for n c off x
    using central_entry_fields(7) [of f n c off] by simp
  ultimately show ?case
    using Cons.prems(3) sizes
    by (simp add: fd Let_def central_entry_fields unat_of_nat_u16 unat_ucast_u32 del: drop_append)
qed simp

lemma unzip_zip_archive:
  assumes "length (zip_files crc fs) < 2 ^ 32" "length fs < 2 ^ 16" "\<forall>(f, d)\<in>set fs. length f < 2 ^ 16"
  shows "unzip_archive crc (zip_archive crc fs) = Some fs"
proof -
  let ?a = "zip_archive crc fs"
  let ?e = "build_zip_eocd (of_nat (length fs)) (of_nat (length (zip_directory crc fs)))
    (of_nat (length (zip_files crc fs)))"
  have e: "drop (length ?a - 22) ?a = ?e" "22 \<le> length ?a"
    by (simp_all add: zip_archive_def eocd_fields(1))
  have "read_central crc ?a (length fs) (zip_directory crc fs @ ?e) = Some fs"
    using read_central_entries [of ?a "[]" crc fs "zip_directory crc fs @ ?e" ?e] assms
    by (simp add: zip_archive_def zip_directory_def)
  moreover have "drop (length (zip_files crc fs)) ?a = zip_directory crc fs @ ?e"
    by (simp add: zip_archive_def)
  ultimately show ?thesis
    using e assms(1,2) by (simp add: unzip_archive_def Let_def eocd_fields unat_of_nat_u16 unat_of_nat_u32)
qed

section \<open>Ranges\<close>

lemma is_white_graphic: "33 \<le> char_code c \<Longrightarrow> char_code c \<le> 126 \<Longrightarrow> \<not> is_white_char [c]"
  by (auto simp: is_white_char_def whitespace_chars_def char_code_def)

lemma str_chars_ascii: "\<forall>c\<in>set s. char_code c < 128 \<Longrightarrow> str_chars s = map (\<lambda>c. [c]) s"
  by (induction s) auto

lemma str_trim_graphic:
  assumes "\<forall>c\<in>set s. 33 \<le> char_code c \<and> char_code c \<le> 126"
  shows "str_trim s = s"
proof -
  have chars: "str_chars s = map (\<lambda>c. [c]) s" using assms by (intro str_chars_ascii) auto
  have solid: "\<forall>c\<in>set (map (\<lambda>c. [c]) s). \<not> is_white_char c" using assms is_white_graphic by auto
  have drop: "dropWhile is_white_char xs = xs" if "\<forall>c\<in>set xs. \<not> is_white_char c" for xs
    using that by (cases xs) auto
  have "concat (map (\<lambda>c. [c]) s) = s" by (induction s) auto
  then show ?thesis using solid by (simp add: str_trim_def chars drop del: set_map)
qed

lemma dec_digit_code: "char_code (dec_digit n) = 48 + n mod 10"
proof -
  have "list_all (\<lambda>k. char_code (''0123456789'' ! k) = 48 + k) [0 ..< 10]" by code_simp
  then show ?thesis by (auto simp: list_all_iff dec_digit_def)
qed

lemma dec_string_value: "list_all is_digit (dec_string n) \<and> dec_string n \<noteq> [] \<and> digits_value (dec_string n) = n"
proof (induction n rule: dec_string.induct)
  case (1 n)
  then show ?case
    by (cases "n < 10")
      (auto simp: dec_string.simps [of n] is_digit_def dec_digit_code digits_value_def)
qed

lemma parse_u64_dec: "n < 2 ^ 64 \<Longrightarrow> parse_u64 (dec_string n) = Some (of_nat n)"
proof -
  assume "n < 2 ^ 64"
  moreover have "hd (dec_string n) \<noteq> CHR ''+''"
    using dec_string_value [of n] by (cases "dec_string n") (auto simp: is_digit_def char_code_def)
  ultimately show ?thesis using dec_string_value [of n] by (simp add: parse_u64_def Let_def)
qed

lemma split_once_skip: "c \<notin> set a \<Longrightarrow> split_once c (a @ c # b) = Some (a, b)"
  by (simp add: split_once_def takeWhile_append)

lemma dec_string_graphic:
  "c \<in> set (dec_string n) \<Longrightarrow> 48 \<le> char_code c \<and> char_code c \<le> 57"
  using dec_string_value [of n] by (auto simp: list_all_iff is_digit_def)

text \<open>What a range of one of the forms \<open>a-b\<close>, \<open>a-\<close> and \<open>-n\<close> goes through before its numbers are read.\<close>

definition range_text :: "string \<Rightarrow> string \<Rightarrow> string" where
  "range_text a b = ''bytes='' @ a @ CHR ''-'' # b"

lemma range_text_parts:
  assumes "\<forall>c\<in>set (a @ b). 48 \<le> char_code c \<and> char_code c \<le> 57"
  shows "str_trim (range_text a b) = range_text a b"
    "str_trim (hd (split_on CHR '','' (drop 6 (range_text a b)))) = a @ CHR ''-'' # b"
    "split_once CHR ''-'' (a @ CHR ''-'' # b) = Some (a, b)"
proof -
  have g: "33 \<le> char_code c \<and> char_code c \<le> 126" if c: "c \<in> set (range_text a b)" for c
  proof -
    consider "c \<in> set ''bytes=-''" | "c \<in> set (a @ b)" using c unfolding range_text_def by fastforce
    then show ?thesis
    proof cases
      case 2
      then have "48 \<le> char_code c \<and> char_code c \<le> 57" using assms by blast
      then show ?thesis by simp
    qed (auto simp: char_code_def)
  qed
  then show "str_trim (range_text a b) = range_text a b" by (intro str_trim_graphic) blast
  have n: "CHR '','' \<notin> set (a @ CHR ''-'' # b)" "CHR ''-'' \<notin> set a"
    using bspec [OF assms, of "CHR '',''"] bspec [OF assms, of "CHR ''-''"] by (auto simp: char_code_def)
  have "str_trim (a @ CHR ''-'' # b) = a @ CHR ''-'' # b"
    using g by (intro str_trim_graphic) (auto simp: range_text_def)
  then show "str_trim (hd (split_on CHR '','' (drop 6 (range_text a b)))) = a @ CHR ''-'' # b"
    using split_on_single [OF n(1)] by (simp add: range_text_def)
  show "split_once CHR ''-'' (a @ CHR ''-'' # b) = Some (a, b)" using n(2) by (rule split_once_skip)
qed

lemma dec_string_Nil [simp]: "dec_string n \<noteq> []"
  using dec_string_value by blast

lemma word_sub_le_pred:
  fixes y n :: u64
  assumes "y \<noteq> 0" "y \<le> n"
  shows "n - y \<le> n - 1" "n - 1 < n"
proof -
  have "0 < unat y" "unat y \<le> unat n" using assms by (simp_all add: unat_gt_0 word_le_nat_alt)
  then show "n - y \<le> n - 1" "n - 1 < n"
    by (simp_all add: word_le_nat_alt word_less_nat_alt unat_sub_if_size)
qed

lemma word_pred_less: "start < n \<Longrightarrow> start \<le> n - 1 \<and> n - 1 < n" for n :: u64
  by (auto simp: word_le_nat_alt word_less_nat_alt unat_sub_if_size)

lemma word_le_pred_less: "start < n \<Longrightarrow> e \<le> n - 1 \<Longrightarrow> e < n" for n :: u64
  using word_pred_less order.strict_trans1 by blast

lemma parse_range_bounds:
  assumes "parse_range_header h n = Some (s, e)"
  shows "s \<le> e \<and> e < n"
  using assms word_pred_less [of s n] word_le_pred_less [of s n e]
  by (auto simp: parse_range_header_def Let_def bind_eq_Some_conv word_sub_le_pred min_def not_le not_less
      split: if_splits)

text \<open>
  C34 Byte ranges. Whatever the header says, an accepted range is a non-empty interval of the file. For a
  file that is not empty the three forms of a single range are accepted as follows: \<open>a-b\<close> exactly when
  \<open>a \<le> b\<close> and \<open>a\<close> is inside the file, with the end cut at the end of the file; \<open>a-\<close> exactly when \<open>a\<close> is inside,
  up to the end; and the suffix \<open>-b\<close>, the last \<open>b\<close> bytes, exactly when \<open>b\<close> is positive and not more than the length of
  the file. A longer suffix is refused.
\<close>

theorem range_header_exact:
  "(parse_range_header h n = Some (s, e) \<longrightarrow> s \<le> e \<and> e < n)
   \<and> (n \<noteq> 0 \<longrightarrow>
        parse_range_header (range_text (dec_string (unat a)) (dec_string (unat b))) n
          = (if a \<le> b \<and> a < n then Some (a, min b (n - 1)) else None)
      \<and> parse_range_header (range_text (dec_string (unat a)) []) n
          = (if a < n then Some (a, n - 1) else None)
      \<and> parse_range_header (range_text [] (dec_string (unat b))) n
          = (if b \<noteq> 0 \<and> b \<le> n then Some (n - b, n - 1) else None))"
proof -
  have dec: "parse_u64 (dec_string (unat x)) = Some x" for x :: u64
    using parse_u64_dec [of "unat x"] unsigned_less [where ?'a = nat, of x] by simp
  have pre: "prefix ''bytes='' (range_text x y)" for x y by (simp add: range_text_def)
  have digits: "\<forall>c\<in>set (x @ y). 48 \<le> char_code c \<and> char_code c \<le> 57"
    if "x \<in> {[], dec_string (unat a)}" "y \<in> {[], dec_string (unat b)}" for x y
    using that dec_string_graphic by auto
  note parts = range_text_parts [OF digits] pre
  have "parse_range_header (range_text (dec_string (unat a)) (dec_string (unat b))) n
       = (if a \<le> b \<and> a < n then Some (a, min b (n - 1)) else None)" if "n \<noteq> 0"
    using that by (auto simp: parse_range_header_def Let_def parts dec)
  moreover have "parse_range_header (range_text (dec_string (unat a)) []) n
       = (if a < n then Some (a, n - 1) else None)" if "n \<noteq> 0"
    using that word_pred_less [of a n] by (auto simp: parse_range_header_def Let_def parts dec)
  moreover have "parse_range_header (range_text [] (dec_string (unat b))) n
       = (if b \<noteq> 0 \<and> b \<le> n then Some (n - b, n - 1) else None)" if "n \<noteq> 0"
    using that by (auto simp: parse_range_header_def Let_def parts dec split_once_def)
  ultimately show ?thesis using parse_range_bounds by blast
qed

theorem range_header_exact_witness:
  "parse_range_header ''bytes=2-900'' 10 = Some (2, 9) \<and> parse_range_header ''bytes=-4'' 10 = Some (6, 9)
   \<and> parse_range_header ''bytes=-900'' 10 = None \<and> parse_range_header ''bytes=10-'' 10 = None"
proof -
  have d: "dec_string 2 = ''2''" "dec_string 900 = ''900''" "dec_string 4 = ''4''" "dec_string 10 = ''10''"
    by (simp_all add: dec_string.simps dec_digit_def)
  show ?thesis
    using range_header_exact [of _ 10 _ _ 2 900] range_header_exact [of _ 10 _ _ 10 4]
    by (simp add: range_text_def d min_def)
qed

section \<open>File names\<close>

lemma sanitize_char_safe:
  assumes "c \<in> set (str_chars name)" "x \<in> set (sanitize_char alnum c)"
  shows "x \<noteq> CHR ''/'' \<and> x \<noteq> CHR 0x00"
  using str_chars_parts [OF assms(1)] assms(2)
  by (auto simp: sanitize_char_def is_alphanumeric_def is_ascii_alphanumeric_def is_ascii_alphabetic_def is_digit_def
      char_code_def split: if_splits)

definition plain_name :: "string \<Rightarrow> bool" where
  "plain_name f \<longleftrightarrow> f \<noteq> [] \<and> f \<noteq> ''.'' \<and> f \<noteq> ''..'' \<and> CHR ''/'' \<notin> set f \<and> CHR 0x00 \<notin> set f"

lemma hex_encode_chars: "c \<in> set (hex_encode bs) \<Longrightarrow> c \<in> set ''0123456789abcdef''"
proof -
  have d: "hex_digit n \<in> set ''0123456789abcdef''" for n
    using nth_mem [of "n mod 16" "''0123456789abcdef''"] by (simp add: hex_digit_def del: nth_mem)
  assume "c \<in> set (hex_encode bs)"
  then obtain n where "c = hex_digit n" by (auto simp: hex_encode_def hex_byte_def)
  then show ?thesis using d by simp
qed

lemma sanitize_filename_plain: "plain_name (sanitize_filename alnum r name)"
proof (cases "needs_random_name (sanitize_chars alnum name)")
  case True
  moreover have "CHR ''/'' \<notin> set (hex_encode r)" "CHR 0x00 \<notin> set (hex_encode r)"
    using hex_encode_chars by fastforce+
  ultimately show ?thesis by (simp add: sanitize_filename_def plain_name_def)
next
  case False
  have "CHR ''/'' \<notin> set (sanitize_chars alnum name)" "CHR 0x00 \<notin> set (sanitize_chars alnum name)"
    using sanitize_char_safe by (auto simp: sanitize_chars_def)
  then show ?thesis using False by (simp add: sanitize_filename_def plain_name_def needs_random_name_def)
qed

end
