(* ===== verification/Nxfr_Web.thy ===== *)
theory Nxfr_Web
  imports Nxfr_Web_Wire Nxfr_Ipc
begin

text \<open>
  The state of the web server (\<open>nxfr-web/src/lib.rs\<close>), its tokens, approval gate and rate limit, and the
  connection of one client.

  The fields behind \<open>Arc\<close> are shared by the connections and by the host. What other tasks do to them is
  part of the input of a connection: \<open>WiOther\<close> is an operation another task completes while this one
  waits for data, \<open>WiWait\<close> is time that passes. Instants are nanoseconds, and time passes in no other
  way. A write may fail after some bytes, or be slow: a slow write exceeds a deadline where the code sets
  one and completes where it does not. A draw of random bytes may fail. Hash maps are lists of their
  entries in the order of their iterators.

  Parameters: case mapping and the class of alphanumeric characters outside ASCII, the JSON printer, the
  CRC-32 function, the texts of the three HTML templates and the working directory.
\<close>

section \<open>State\<close>

definition seconds :: "nat \<Rightarrow> nat" where
  "seconds n = n * 1000000000"

definition DEFAULT_WEB_PORT :: u16 where
  "DEFAULT_WEB_PORT = 17396"

definition MAX_UPLOAD_LIMIT :: u64 where
  "MAX_UPLOAD_LIMIT = 10 * 1024 * 1024 * 1024"

definition MAX_PORT_ATTEMPTS :: nat where
  "MAX_PORT_ATTEMPTS = 10"

definition MAX_FAILED_ATTEMPTS :: u32 where
  "MAX_FAILED_ATTEMPTS = 5"

definition RATE_LIMIT_WINDOW :: nat where
  "RATE_LIMIT_WINDOW = seconds 60"

definition BLOCK_DURATION :: nat where
  "BLOCK_DURATION = seconds 300"

definition DEFAULT_EXPIRY_DURATION :: nat where
  "DEFAULT_EXPIRY_DURATION = seconds 600"

definition HEADER_READ_TIMEOUT :: nat where
  "HEADER_READ_TIMEOUT = seconds 15"

definition CHUNK_IO_TIMEOUT :: nat where
  "CHUNK_IO_TIMEOUT = seconds 30"

text \<open>The environment variable \<open>NXFR_WEB_EXPIRY_SECS\<close>, where it is set.\<close>

definition get_default_expiry_duration :: "string option \<Rightarrow> nat" where
  "get_default_expiry_duration var =
     (case Option.bind var parse_u64 of Some secs \<Rightarrow> seconds (unat secs) | None \<Rightarrow> DEFAULT_EXPIRY_DURATION)"

record WebShareItem =
  wi_id :: u64
  wi_name :: string
  wi_size :: u64
  wi_mime :: string
  wi_path :: string

datatype RequestStatus = RsPending | RsAccepted | RsRejected

record PendingRequest =
  pr_session_id :: string
  pr_ip :: string
  pr_user_agent :: string
  pr_timestamp :: u64
  pr_status :: RequestStatus
  pr_session_token :: "string option"

text \<open>An address is its text. \<open>wv_unix_offset\<close> relates the two clocks.\<close>

type_synonym IpAddr = string

record WebServer =
  wv_token :: string
  wv_port :: u16
  wv_cancelled :: bool
  wv_pin :: "string option"
  wv_expiry_duration :: nat
  wv_last_activity :: nat
  wv_active_transfers :: u64
  wv_receive_dir :: abspath
  wv_max_file_size :: u64
  wv_fingerprint :: string
  wv_share_manifest :: "WebShareItem list option"
  wv_failed_attempts :: "(IpAddr \<times> u32 \<times> nat) list"
  wv_max_downloads :: "u32 option"
  wv_download_count :: u64
  wv_pending_requests :: "(string \<times> PendingRequest) list"
  wv_auto_accept :: bool
  wv_now :: nat
  wv_unix_offset :: int

definition new_with_expiry :: "string \<Rightarrow> nat \<Rightarrow> int \<Rightarrow> abspath \<Rightarrow> u16 \<Rightarrow> u64 \<Rightarrow> string option \<Rightarrow> string
    \<Rightarrow> WebShareItem list option \<Rightarrow> nat \<Rightarrow> u32 option \<Rightarrow> WebServer" where
  "new_with_expiry fresh_token now unix_offset receive_dir port max_file_size pin fingerprint share_manifest
       expiry_duration max_downloads =
     \<lparr>wv_token = fresh_token, wv_port = port, wv_cancelled = False, wv_pin = pin,
      wv_expiry_duration = expiry_duration, wv_last_activity = now, wv_active_transfers = 0,
      wv_receive_dir = receive_dir, wv_max_file_size = max_file_size, wv_fingerprint = fingerprint,
      wv_share_manifest = share_manifest, wv_failed_attempts = [], wv_max_downloads = max_downloads,
      wv_download_count = 0, wv_pending_requests = [], wv_auto_accept = False,
      wv_now = now, wv_unix_offset = unix_offset\<rparr>"

definition web_server_new :: "string \<Rightarrow> nat \<Rightarrow> int \<Rightarrow> string option \<Rightarrow> abspath \<Rightarrow> u16 \<Rightarrow> u64 \<Rightarrow> string option \<Rightarrow> string
    \<Rightarrow> WebShareItem list option \<Rightarrow> WebServer" where
  "web_server_new fresh_token now unix_offset expiry_var receive_dir port max_file_size pin fingerprint share_manifest =
     new_with_expiry fresh_token now unix_offset receive_dir port max_file_size pin fingerprint share_manifest
       (get_default_expiry_duration expiry_var) None"

section \<open>Operations on the shared state\<close>

definition bump_activity :: "WebServer \<Rightarrow> WebServer" where
  "bump_activity s = s\<lparr>wv_last_activity := wv_now s\<rparr>"

definition accepted_with :: "string \<Rightarrow> PendingRequest \<Rightarrow> bool" where
  "accepted_with tok r \<longleftrightarrow> pr_status r = RsAccepted \<and> pr_session_token r = Some tok"

definition has_session :: "string \<Rightarrow> WebServer \<Rightarrow> bool" where
  "has_session tok s \<longleftrightarrow> list_ex (\<lambda>(k, r). accepted_with tok r) (wv_pending_requests s)"

definition is_valid_token :: "string \<Rightarrow> WebServer \<Rightarrow> bool" where
  "is_valid_token tok s \<longleftrightarrow> tok = wv_token s \<or> wv_pin s = Some tok \<or> has_session tok s"

definition token_accepted :: "string option \<Rightarrow> WebServer \<Rightarrow> bool" where
  "token_accepted auth s = (case auth of Some tok \<Rightarrow> is_valid_token tok s | None \<Rightarrow> False)"

definition respond_to_request :: "string \<Rightarrow> bool \<Rightarrow> string \<Rightarrow> WebServer \<Rightarrow> (string + unit) \<times> WebServer" where
  "respond_to_request sid accepted fresh_token s =
     (case map_of (wv_pending_requests s) sid of
        Some req \<Rightarrow>
          if pr_status req = RsPending
          then let req' = (if accepted
                 then req\<lparr>pr_status := RsAccepted, pr_session_token := Some fresh_token\<rparr>
                 else req\<lparr>pr_status := RsRejected\<rparr>)
               in (Inr (), s\<lparr>wv_pending_requests := AList.update sid req' (wv_pending_requests s)\<rparr>)
          else (Inl ''Request already responded to'', s)
      | None \<Rightarrow> (Inl (''No pending request with id '' @ CHR 0x27 # sid @ [CHR 0x27]), s))"

definition get_pending_requests :: "WebServer \<Rightarrow> PendingRequest list" where
  "get_pending_requests s = filter (\<lambda>r. pr_status r = RsPending) (map snd (wv_pending_requests s))"

definition insert_request :: "PendingRequest \<Rightarrow> WebServer \<Rightarrow> WebServer" where
  "insert_request req s =
     s\<lparr>wv_pending_requests := AList.update (pr_session_id req) req (wv_pending_requests s)\<rparr>"

definition web_stop :: "WebServer \<Rightarrow> WebServer" where
  "web_stop s = s\<lparr>wv_cancelled := True\<rparr>"

definition set_auto_accept :: "bool \<Rightarrow> WebServer \<Rightarrow> WebServer" where
  "set_auto_accept enabled s = s\<lparr>wv_auto_accept := enabled\<rparr>"

text \<open>The guard of a transfer counts it while it lives.\<close>

definition transfer_guard_new :: "WebServer \<Rightarrow> WebServer" where
  "transfer_guard_new s = s\<lparr>wv_active_transfers := wv_active_transfers s + 1\<rparr>"

definition transfer_guard_drop :: "WebServer \<Rightarrow> WebServer" where
  "transfer_guard_drop s = s\<lparr>wv_active_transfers := wv_active_transfers s - 1\<rparr>"

text \<open>A finished download counts; the last one allowed stops the server.\<close>

definition count_download :: "WebServer \<Rightarrow> WebServer" where
  "count_download s =
     (let count = wv_download_count s + 1; s1 = s\<lparr>wv_download_count := count\<rparr>
      in case wv_max_downloads s of
           Some limit \<Rightarrow> if (ucast count :: u32) \<ge> limit then web_stop s1 else s1
         | None \<Rightarrow> s1)"

text \<open>The rate limit: whether an address is blocked (a block that is over is forgotten), and one more failure.\<close>

definition check_blocked :: "IpAddr \<Rightarrow> WebServer \<Rightarrow> bool \<times> WebServer" where
  "check_blocked ip s =
     (case map_of (wv_failed_attempts s) ip of
        Some (count, last_fail) \<Rightarrow>
          if count \<ge> MAX_FAILED_ATTEMPTS
          then if wv_now s - last_fail < BLOCK_DURATION then (True, s)
               else (False, s\<lparr>wv_failed_attempts := AList.delete ip (wv_failed_attempts s)\<rparr>)
          else (False, s)
      | None \<Rightarrow> (False, s))"

definition record_failure :: "IpAddr \<Rightarrow> WebServer \<Rightarrow> WebServer" where
  "record_failure ip s =
     (let entry = (case map_of (wv_failed_attempts s) ip of None \<Rightarrow> (0, wv_now s) | Some e \<Rightarrow> e);
          count = (if wv_now s - snd entry > RATE_LIMIT_WINDOW then 1 else fst entry + 1)
      in s\<lparr>wv_failed_attempts := AList.update ip (count, wv_now s) (wv_failed_attempts s)\<rparr>)"

text \<open>What other tasks do.\<close>

datatype web_action =
    WaRespond string bool string
  | WaSetAutoAccept bool
  | WaStop
  | WaBump
  | WaCheckBlocked IpAddr
  | WaRecordFailure IpAddr
  | WaInsertRequest PendingRequest
  | WaTransferBegin
  | WaTransferEnd
  | WaCountDownload

fun run_action :: "web_action \<Rightarrow> WebServer \<Rightarrow> WebServer" where
  "run_action (WaRespond sid accepted fresh_token) s = snd (respond_to_request sid accepted fresh_token s)"
| "run_action (WaSetAutoAccept enabled) s = set_auto_accept enabled s"
| "run_action WaStop s = web_stop s"
| "run_action WaBump s = bump_activity s"
| "run_action (WaCheckBlocked ip) s = snd (check_blocked ip s)"
| "run_action (WaRecordFailure ip) s = record_failure ip s"
| "run_action (WaInsertRequest req) s = insert_request req s"
| "run_action WaTransferBegin s = transfer_guard_new s"
| "run_action WaTransferEnd s = transfer_guard_drop s"
| "run_action WaCountDownload s = count_download s"

definition pass_time :: "nat \<Rightarrow> WebServer \<Rightarrow> WebServer" where
  "pass_time d s = s\<lparr>wv_now := wv_now s + d\<rparr>"

section \<open>A connection\<close>

datatype web_input = WiData bytes | WiError string | WiWait nat | WiOther web_action

datatype web_fault = WriteErr string nat | WriteStall nat

datatype web_error = WeIo string | WeText string | WePanic | WeEndless

record web_conn =
  wc_in :: "web_input list"
  wc_out :: bytes
  wc_write_faults :: "web_fault option list"
  wc_random :: "nat \<Rightarrow> (nat \<Rightarrow> u8) option"
  wc_draws :: nat
  wc_server :: WebServer
  wc_world :: world

record web_lib =
  wl_to_lowercase :: "string \<Rightarrow> string"
  wl_alphanumeric :: "string \<Rightarrow> bool"
  wl_json :: "json \<Rightarrow> string"
  wl_crc32 :: "bytes \<Rightarrow> u32"
  wl_html_page :: string
  wl_html_download_page :: string
  wl_html_waiting_page :: string
  wl_cwd :: abspath

abbreviation on_server :: "(WebServer \<Rightarrow> WebServer) \<Rightarrow> web_conn \<Rightarrow> web_conn" where
  "on_server f c \<equiv> c\<lparr>wc_server := f (wc_server c)\<rparr>"

text \<open>One \<open>read\<close> into a buffer of \<open>cap\<close> bytes, with the time left before its deadline. No bytes is the end of the stream.\<close>

datatype read_result = ReadData bytes | ReadErr string | ReadTimeout

fun next_input :: "nat \<Rightarrow> nat option \<Rightarrow> web_input list \<Rightarrow> WebServer \<Rightarrow> read_result \<times> web_input list \<times> WebServer" where
  "next_input cap limit [] s = (ReadData [], [], s)"
| "next_input cap limit (WiOther a # xs) s = next_input cap limit xs (run_action a s)"
| "next_input cap limit (WiWait d # xs) s =
     (case limit of
        None \<Rightarrow> next_input cap None xs (pass_time d s)
      | Some l \<Rightarrow>
          if l \<le> d then (ReadTimeout, WiWait (d - l) # xs, pass_time l s)
          else next_input cap (Some (l - d)) xs (pass_time d s))"
| "next_input cap limit (WiError e # xs) s = (ReadErr e, xs, s)"
| "next_input cap limit (WiData bs # xs) s =
     (if bs = [] then next_input cap limit xs s
      else (ReadData (take cap bs), (if length bs \<le> cap then xs else WiData (drop cap bs) # xs), s))"

definition wc_read :: "nat \<Rightarrow> nat option \<Rightarrow> web_conn \<Rightarrow> read_result \<times> web_conn" where
  "wc_read cap limit c =
     (case next_input cap limit (wc_in c) (wc_server c) of
        (r, xs, s) \<Rightarrow> (r, c\<lparr>wc_in := xs, wc_server := s\<rparr>))"

text \<open>\<open>write_all\<close> and \<open>flush\<close>, with the message of their deadline where they have one.\<close>

definition take_write_fault :: "web_conn \<Rightarrow> web_fault option \<times> web_conn" where
  "take_write_fault c =
     (case wc_write_faults c of [] \<Rightarrow> (None, c) | f # fs \<Rightarrow> (f, c\<lparr>wc_write_faults := fs\<rparr>))"

definition wc_put :: "bytes \<Rightarrow> web_conn \<Rightarrow> web_conn" where
  "wc_put b c = c\<lparr>wc_out := wc_out c @ b\<rparr>"

definition wc_write_all :: "string option \<Rightarrow> bytes \<Rightarrow> web_conn \<Rightarrow> (web_error + unit) \<times> web_conn" where
  "wc_write_all deadline b c =
     (case take_write_fault c of
        (Some (WriteErr e n), c1) \<Rightarrow> (Inl (WeIo e), wc_put (take n b) c1)
      | (Some (WriteStall n), c1) \<Rightarrow>
          (case deadline of
             Some msg \<Rightarrow> (Inl (WeText msg), wc_put (take n b) c1)
           | None \<Rightarrow> (Inr (), wc_put b c1))
      | (None, c1) \<Rightarrow> (Inr (), wc_put b c1))"

definition wc_flush :: "string option \<Rightarrow> web_conn \<Rightarrow> (web_error + unit) \<times> web_conn" where
  "wc_flush deadline c = wc_write_all deadline [] c"

text \<open>Random bytes. A token needs them; the name of a file falls back to zeros.\<close>

definition wc_getrandom :: "nat \<Rightarrow> web_conn \<Rightarrow> bytes option \<times> web_conn" where
  "wc_getrandom n c =
     (map_option (\<lambda>f. map f [0 ..< n]) (wc_random c (wc_draws c)), c\<lparr>wc_draws := Suc (wc_draws c)\<rparr>)"

definition generate_token :: "web_conn \<Rightarrow> (web_error + string) \<times> web_conn" where
  "generate_token c =
     (case wc_getrandom 16 c of
        (None, c1) \<Rightarrow> (Inl WePanic, c1)
      | (Some b, c1) \<Rightarrow> (Inr (hex_encode b), c1))"

definition wc_sanitize_filename :: "web_lib \<Rightarrow> string \<Rightarrow> web_conn \<Rightarrow> string \<times> web_conn" where
  "wc_sanitize_filename lib name c =
     (if needs_random_name (sanitize_chars (wl_alphanumeric lib) name)
      then case wc_getrandom 4 c of (r, c1) \<Rightarrow>
             (sanitize_filename (wl_alphanumeric lib) (case r of None \<Rightarrow> [0, 0, 0, 0] | Some b \<Rightarrow> b) name, c1)
      else (sanitize_filename (wl_alphanumeric lib) [] name, c))"

section \<open>Responses\<close>

definition quot :: string where
  "quot = [CHR 0x22]"

definition header_lines :: "string list \<Rightarrow> bytes" where
  "header_lines ls = text_bytes (concat (map (\<lambda>l. l @ crlf) ls) @ crlf)"

definition response_header :: "string \<Rightarrow> string \<Rightarrow> nat \<Rightarrow> bytes" where
  "response_header status content_type len =
     header_lines
       [''HTTP/1.1 '' @ status,
        ''Content-Type: '' @ content_type,
        ''Content-Length: '' @ dec_string len,
        ''Strict-Transport-Security: max-age=31536000; includeSubDomains'',
        ''Content-Security-Policy: default-src '' @ CHR 0x27 # ''self'' @ CHR 0x27 # ''; script-src '' @ CHR 0x27
          # ''unsafe-inline'' @ CHR 0x27 # ''; style-src '' @ CHR 0x27 # ''unsafe-inline'' @ [CHR 0x27],
        ''X-Content-Type-Options: nosniff'',
        ''X-Frame-Options: DENY'',
        ''Connection: close'']"

definition send_response :: "string \<Rightarrow> string \<Rightarrow> bytes \<Rightarrow> web_conn \<Rightarrow> (web_error + unit) \<times> web_conn" where
  "send_response status content_type body c =
     io_then (wc_write_all None (response_header status content_type (length body)) c) (\<lambda>_ c.
     io_then (if body \<noteq> [] then wc_write_all None body c else (Inr (), c)) (\<lambda>_ c.
       wc_flush None c))"

definition json_error :: "string \<Rightarrow> bytes" where
  "json_error msg = text_bytes (''{'' @ quot @ ''error'' @ quot @ '': '' @ quot @ msg @ quot @ ''}'')"

definition send_web_error :: "string \<Rightarrow> string \<Rightarrow> web_conn \<Rightarrow> (web_error + unit) \<times> web_conn" where
  "send_web_error status msg c = send_response status ''application/json'' (json_error msg) c"

definition send_json :: "web_lib \<Rightarrow> json \<Rightarrow> web_conn \<Rightarrow> (web_error + unit) \<times> web_conn" where
  "send_json lib v c = send_response ''200 OK'' ''application/json'' (text_bytes (wl_json lib v)) c"

text \<open>The framing of \<open>ChunkedWriter\<close>: the three writes of a chunk share a deadline.\<close>

definition write_chunk :: "bytes \<Rightarrow> web_conn \<Rightarrow> (web_error + unit) \<times> web_conn" where
  "write_chunk d c =
     (if d = [] then (Inr (), c)
      else let deadline = Some ''Chunk write timed out (30s)''
      in io_then (wc_write_all deadline (chunk_header d) c) (\<lambda>_ c.
         io_then (wc_write_all deadline d c) (\<lambda>_ c.
           wc_write_all deadline (text_bytes crlf) c)))"

definition chunked_finish :: "web_conn \<Rightarrow> (web_error + unit) \<times> web_conn" where
  "chunked_finish c =
     (let deadline = Some ''Chunk finish timed out (30s)''
      in io_then (wc_write_all deadline chunk_last c) (\<lambda>_ c. wc_flush deadline c))"

end
