(* ===== verification/Nxfr_Web_Routes.thy ===== *)
theory Nxfr_Web_Routes
  imports Nxfr_Web
begin

text \<open>
  Reading a request, the routes of the approval gate, the pages, and the downloads of
  \<open>handle_connection\<close> (\<open>nxfr-web/src/lib.rs\<close>): one definition per route.
\<close>

section \<open>Requests\<close>

definition blank_line :: bytes where
  "blank_line = text_bytes (crlf @ crlf)"

text \<open>The header loop; \<open>None\<close> where the handler returns without an answer.\<close>

function read_headers :: "bytes \<Rightarrow> web_conn \<Rightarrow> (web_error + (bytes \<times> nat) option) \<times> web_conn" where
  "read_headers headers_buf c =
     (case wc_read 1024 (Some HEADER_READ_TIMEOUT) c of
        (ReadErr e, c1) \<Rightarrow> (Inl (WeIo e), c1)
      | (ReadTimeout, c1) \<Rightarrow> (Inr None, c1)
      | (ReadData d, c1) \<Rightarrow>
          if d = [] then (Inr None, c1)
          else (case find_sub blank_line (headers_buf @ d) of
                  Some pos \<Rightarrow> (Inr (Some (headers_buf @ d, pos + 4)), c1)
                | None \<Rightarrow>
                    if length (headers_buf @ d) > 8192 then (Inr None, c1)
                    else read_headers (headers_buf @ d) c1))"
  by pat_completeness auto

termination read_headers
  by (relation "measure (\<lambda>(b, c). 8193 - length b)") (auto simp: length_greater_0_conv [symmetric] simp del: length_greater_0_conv)

declare read_headers.simps [simp del]

record web_request =
  wq_method :: string
  wq_path :: string
  wq_query :: string
  wq_headers :: "string list"
  wq_user_agent :: string

text \<open>
  The value of the last header with a given beginning: the beginning is looked for in the line in
  lower case, and the line is sliced at its length.
\<close>

definition slice_from :: "nat \<Rightarrow> string \<Rightarrow> web_error + string" where
  "slice_from i s = ok_or WePanic (str_from i s)"

definition scan_header :: "web_lib \<Rightarrow> string \<Rightarrow> string list \<Rightarrow> web_error + string option" where
  "scan_header lib start ls =
     foldl (\<lambda>r line. and_then r (\<lambda>v.
        if prefix start (wl_to_lowercase lib line)
        then and_then (slice_from (length start) line) (\<lambda>rest. Inr (Some (str_trim rest)))
        else Inr v)) (Inr None) ls"

abbreviation bearer_token :: "web_lib \<Rightarrow> web_request \<Rightarrow> web_error + string option" where
  "bearer_token lib q \<equiv> scan_header lib ''authorization: bearer '' (wq_headers q)"

definition query_param :: "(string \<Rightarrow> bool) \<Rightarrow> string \<Rightarrow> string option" where
  "query_param key query =
     foldl (\<lambda>v pair. case split_once CHR ''='' pair of
              Some (k, x) \<Rightarrow> if key k then Some x else v
            | None \<Rightarrow> v) None (split_on CHR ''&'' query)"

definition or_query_token :: "web_request \<Rightarrow> string option \<Rightarrow> string option" where
  "or_query_token q auth_token =
     (if auth_token = None \<and> wq_query q \<noteq> [] then query_param (\<lambda>k. k = ''t'') (wq_query q) else auth_token)"

definition parse_request :: "web_lib \<Rightarrow> bytes \<Rightarrow> web_error + web_request" where
  "parse_request lib head =
     (let ls = str_lines (str_from_utf8_lossy head);
          request_line = (case ls of [] \<Rightarrow> [] | l # _ \<Rightarrow> l);
          parts = split_whitespace request_line;
          verb = (case parts of [] \<Rightarrow> [] | m # _ \<Rightarrow> m);
          raw_path = (case parts of _ # p # _ \<Rightarrow> p | _ \<Rightarrow> []);
          (path, query) = (case split_once CHR ''?'' raw_path of Some pq \<Rightarrow> pq | None \<Rightarrow> (raw_path, []))
      in and_then (scan_header lib ''user-agent:'' (tl ls)) (\<lambda>agent.
           Inr \<lparr>wq_method = verb, wq_path = path, wq_query = query, wq_headers = tl ls,
                wq_user_agent = (case agent of None \<Rightarrow> [] | Some a \<Rightarrow> a)\<rparr>))"

section \<open>The approval gate\<close>

definition unix_seconds :: "WebServer \<Rightarrow> u64" where
  "unix_seconds s = of_nat (nat ((wv_unix_offset s + int (wv_now s)) div 1000000000))"

fun status_name :: "RequestStatus \<Rightarrow> string" where
  "status_name RsPending = ''pending''"
| "status_name RsAccepted = ''accepted''"
| "status_name RsRejected = ''rejected''"

definition json_request :: "PendingRequest \<Rightarrow> json" where
  "json_request r =
     JObj ([(''session_id'', JStr (pr_session_id r)), (''ip'', JStr (pr_ip r)),
            (''user_agent'', JStr (pr_user_agent r)), (''timestamp'', JNum (uint (pr_timestamp r))),
            (''status'', JStr (status_name (pr_status r)))]
           @ (case pr_session_token r of None \<Rightarrow> [] | Some t \<Rightarrow> [(''session_token'', JStr t)]))"

definition route_api_request :: "web_lib \<Rightarrow> IpAddr \<Rightarrow> web_request \<Rightarrow> web_conn \<Rightarrow> (web_error + unit) \<times> web_conn" where
  "route_api_request lib ip q c =
     (let auto = wv_auto_accept (wc_server c); has_pin = wv_pin (wc_server c) \<noteq> None
      in io_then (bearer_token lib q, c) (\<lambda>auth_token c.
         let credential_valid = token_accepted auth_token (wc_server c)
         in io_then (generate_token c) (\<lambda>sid c.
            let req = \<lparr>pr_session_id = sid, pr_ip = ip, pr_user_agent = wq_user_agent q,
                       pr_timestamp = unix_seconds (wc_server c), pr_status = RsPending, pr_session_token = None\<rparr>
            in if credential_valid
               then io_then (generate_token c) (\<lambda>session_token c.
                      send_json lib (JObj [(''session_id'', JStr sid), (''status'', JStr ''accepted''),
                                           (''token'', JStr session_token)])
                        (on_server (insert_request
                           (req\<lparr>pr_status := RsAccepted, pr_session_token := Some session_token\<rparr>)) c))
               else if \<not> auto \<and> \<not> has_pin
               then send_json lib (JObj [(''session_id'', JStr sid), (''status'', JStr ''pending'')])
                      (on_server (insert_request req) c)
               else send_web_error ''403 Forbidden'' ''Authentication required'' c)))"

definition route_request_status :: "web_lib \<Rightarrow> web_request \<Rightarrow> web_conn \<Rightarrow> (web_error + unit) \<times> web_conn" where
  "route_request_status lib q c =
     (case query_param (\<lambda>k. k = ''s'') (wq_query q) of
        None \<Rightarrow> send_web_error ''400 Bad Request'' ''missing session id'' c
      | Some sid \<Rightarrow>
          if sid = [] then send_web_error ''400 Bad Request'' ''missing session id'' c
          else (case map_of (wv_pending_requests (wc_server c)) sid of
                  Some req \<Rightarrow>
                    send_json lib (JObj ((''status'', JStr (status_name (pr_status req)))
                      # (if pr_status req = RsAccepted
                         then (case pr_session_token req of Some tok \<Rightarrow> [(''token'', JStr tok)] | None \<Rightarrow> [])
                         else []))) c
                | None \<Rightarrow> send_web_error ''404 Not Found'' ''unknown session'' c))"

definition route_pending :: "web_lib \<Rightarrow> web_request \<Rightarrow> web_conn \<Rightarrow> (web_error + unit) \<times> web_conn" where
  "route_pending lib q c =
     io_then (bearer_token lib q, c) (\<lambda>header_token c.
       let auth_token = (if header_token = None then query_param (\<lambda>k. k = ''token'' \<or> k = ''t'') (wq_query q)
                         else header_token)
       in if \<not> token_accepted auth_token (wc_server c)
          then send_web_error ''403 Forbidden'' ''Authentication required'' c
          else send_json lib (JObj [(''pending_requests'', JArr (map json_request (get_pending_requests (wc_server c))))]) c)"

section \<open>Pages\<close>

definition json_item :: "WebShareItem \<Rightarrow> json" where
  "json_item i = JObj [(''id'', JNum (uint (wi_id i))), (''name'', JStr (wi_name i)), (''size'', JNum (uint (wi_size i))),
     (''mime'', JStr (wi_mime i)), (''path'', JStr (wi_path i))]"

definition bool_name :: "bool \<Rightarrow> string" where
  "bool_name b = (if b then ''true'' else ''false'')"

definition send_page :: "string \<Rightarrow> web_conn \<Rightarrow> (web_error + unit) \<times> web_conn" where
  "send_page page c = send_response ''200 OK'' ''text/html; charset=utf-8'' (text_bytes page) c"

definition needs_gate :: "web_request \<Rightarrow> WebServer \<Rightarrow> bool" where
  "needs_gate q s \<longleftrightarrow> wv_pin s = None \<and> \<not> wv_auto_accept s
     \<and> \<not> (case query_param (\<lambda>k. k = ''t'') (wq_query q) of Some tok \<Rightarrow> has_session tok s | None \<Rightarrow> False)"

definition route_index :: "web_lib \<Rightarrow> web_request \<Rightarrow> web_conn \<Rightarrow> (web_error + unit) \<times> web_conn" where
  "route_index lib q c =
     (let s = wc_server c; has_pin = (wv_pin s \<noteq> None)
      in case wv_share_manifest s of
           Some manifest \<Rightarrow>
             if needs_gate q s
             then send_page (str_replace ''{{FINGERPRINT}}'' (wv_fingerprint s) (wl_html_waiting_page lib)) c
             else send_page
               (str_replace ''{{TOTAL_FILES}}'' (dec_string (length manifest))
               (str_replace ''{{HAS_PIN}}'' (bool_name has_pin)
               (str_replace ''{{MANIFEST_JSON}}'' (wl_json lib (JArr (map json_item manifest)))
               (str_replace ''{{FINGERPRINT}}'' (wv_fingerprint s) (wl_html_download_page lib))))) c
         | None \<Rightarrow>
             send_page
               (str_replace ''{{HAS_PIN}}'' (bool_name has_pin)
               (str_replace ''{{FINGERPRINT}}'' (wv_fingerprint s) (wl_html_page lib))) c)"

definition json_authenticated :: bytes where
  "json_authenticated = text_bytes (''{'' @ quot @ ''status'' @ quot @ '': '' @ quot @ ''authenticated'' @ quot @ ''}'')"

definition route_auth :: "web_lib \<Rightarrow> IpAddr \<Rightarrow> web_request \<Rightarrow> web_conn \<Rightarrow> (web_error + unit) \<times> web_conn" where
  "route_auth lib ip q c =
     io_then (bearer_token lib q, c) (\<lambda>header_token c.
       if token_accepted (or_query_token q header_token) (wc_server c)
       then send_response ''200 OK'' ''application/json'' json_authenticated c
       else send_web_error ''403 Forbidden'' ''Invalid PIN'' (on_server (record_failure ip) c))"

section \<open>Files\<close>

definition web_io :: "(world \<Rightarrow> (string + 'a) \<times> world) \<Rightarrow> web_conn \<Rightarrow> (web_error + 'a) \<times> web_conn" where
  "web_io f c = (case f (wc_world c) of (r, w) \<Rightarrow> (map_err WeIo r, c\<lparr>wc_world := w\<rparr>))"

definition fs_seek :: "world \<Rightarrow> (string + unit) \<times> world" where
  "fs_seek = faulty (\<lambda>w. (Inr (), w)) (\<lambda>_ w. w)"

definition item_path :: "web_lib \<Rightarrow> WebShareItem \<Rightarrow> abspath" where
  "item_path lib item =
     path_join (if prefix ''/'' (wi_path item) then [] else wl_cwd lib) (wi_path item)"

definition BUF_SIZE :: nat where
  "BUF_SIZE = 65536"

definition with_transfer_guard :: "(web_conn \<Rightarrow> (web_error + 'a) \<times> web_conn) \<Rightarrow> web_conn \<Rightarrow> (web_error + 'a) \<times> web_conn" where
  "with_transfer_guard f c =
     (case f (on_server transfer_guard_new c) of (r, c1) \<Rightarrow> (r, on_server transfer_guard_drop c1))"

lemma fs_read_at_step:
  "web_io (fs_read_at h pos n) c = (Inr d, c') \<Longrightarrow> d \<noteq> [] \<Longrightarrow> \<exists>b. h = Some b \<and> d = take n (drop pos b) \<and> pos < length b"
  by (cases h) (auto simp: web_io_def fs_read_at_def fault_cases result_simps split: fault_splits sum.splits)

section \<open>The archive\<close>

text \<open>The bytes of a file, chunk by chunk; the check sum is that of all of them.\<close>

function zip_copy :: "bytes option \<Rightarrow> nat \<Rightarrow> bytes \<Rightarrow> web_conn \<Rightarrow> (web_error + bytes) \<times> web_conn" where
  "zip_copy h pos written c =
     (case web_io (fs_read_at h pos BUF_SIZE) c of
        (Inl e, c1) \<Rightarrow> (Inl e, c1)
      | (Inr d, c1) \<Rightarrow>
          if d = [] then (Inr written, c1)
          else (case write_chunk d c1 of
                  (Inl e, c2) \<Rightarrow> (Inl e, c2)
                | (Inr _, c2) \<Rightarrow> zip_copy h (pos + length d) (written @ d) (on_server bump_activity c2)))"
  by pat_completeness auto

termination zip_copy
  by (relation "measure (\<lambda>(h, pos, d, c). length (the h) - pos)")
     (auto dest!: fs_read_at_step [OF sym] simp: BUF_SIZE_def split: if_splits)

declare zip_copy.simps [simp del]

fun zip_items :: "web_lib \<Rightarrow> WebShareItem list \<Rightarrow> u64 \<Rightarrow> ZipEntry list \<Rightarrow> web_conn
    \<Rightarrow> (web_error + u64 \<times> ZipEntry list) \<times> web_conn" where
  "zip_items lib [] off entries c = (Inr (off, entries), c)"
| "zip_items lib (item # items) off entries c =
     (if \<not> fs_exists (item_path lib item) (wc_world c) then zip_items lib items off entries c
      else case wc_sanitize_filename lib (wi_name item) c of (filename, c) \<Rightarrow>
        let filename_bytes = text_bytes filename; local_header = build_zip_local_header filename_bytes
        in io_then (write_chunk local_header c) (\<lambda>_ c.
           io_then (web_io (fs_open (item_path lib item)) c) (\<lambda>h c.
           io_then (zip_copy h 0 [] c) (\<lambda>written c.
             let crc = wl_crc32 lib written; file_written = of_nat (length written);
                 descriptor = build_zip_data_descriptor crc file_written
             in io_then (write_chunk descriptor c) (\<lambda>_ c.
                  zip_items lib items
                    (off + of_nat (length local_header) + file_written + of_nat (length descriptor))
                    (entries @ [\<lparr>ze_filename = filename_bytes, ze_file_size = file_written, ze_crc32 = crc,
                                 ze_local_offset = off\<rparr>]) c)))))"

fun zip_centrals :: "ZipEntry list \<Rightarrow> u64 \<Rightarrow> web_conn \<Rightarrow> (web_error + u64) \<times> web_conn" where
  "zip_centrals [] off c = (Inr off, c)"
| "zip_centrals (e # es) off c =
     io_then (write_chunk (zip_central e) c) (\<lambda>_ c.
       zip_centrals es (off + of_nat (length (zip_central e))) c)"

definition zip_header :: bytes where
  "zip_header = header_lines
     [''HTTP/1.1 200 OK'', ''Content-Type: application/zip'',
      ''Content-Disposition: attachment; filename='' @ quot @ ''NXFR_Share.zip'' @ quot,
      ''Transfer-Encoding: chunked'', ''Connection: close'']"

definition send_zip :: "web_lib \<Rightarrow> WebShareItem list \<Rightarrow> web_conn \<Rightarrow> (web_error + unit) \<times> web_conn" where
  "send_zip lib manifest c =
     io_then (wc_write_all None zip_header c) (\<lambda>_ c.
     io_then (zip_items lib manifest 0 [] c) (\<lambda>(central_dir_offset, entries) c.
     io_then (zip_centrals entries central_dir_offset c) (\<lambda>off c.
     io_then (write_chunk (build_zip_eocd (of_nat (length entries)) (ucast (off - central_dir_offset))
                             (ucast central_dir_offset)) c) (\<lambda>_ c.
     io_then (chunked_finish c) (\<lambda>_ c.
       (Inr (), on_server count_download c))))))"

definition route_zip :: "web_lib \<Rightarrow> web_conn \<Rightarrow> (web_error + unit) \<times> web_conn" where
  "route_zip lib c =
     (case wv_share_manifest (wc_server c) of
        None \<Rightarrow> send_web_error ''404 Not Found'' ''Download mode not active'' c
      | Some manifest \<Rightarrow> with_transfer_guard (send_zip lib manifest) c)"

section \<open>Single files\<close>

definition download_deadline :: "string option" where
  "download_deadline = Some ''Download chunk write timed out (30s)''"

function send_range :: "bytes option \<Rightarrow> nat \<Rightarrow> nat \<Rightarrow> web_conn \<Rightarrow> (web_error + unit) \<times> web_conn" where
  "send_range h pos remaining c =
     (if remaining = 0 then (Inr (), c)
      else case web_io (fs_read_at h pos (min remaining BUF_SIZE)) c of
        (Inl e, c1) \<Rightarrow> (Inl e, c1)
      | (Inr d, c1) \<Rightarrow>
          if d = [] then (Inr (), c1)
          else (case wc_write_all download_deadline d c1 of
                  (Inl e, c2) \<Rightarrow> (Inl e, c2)
                | (Inr _, c2) \<Rightarrow>
                    send_range h (pos + length d) (remaining - length d) (on_server bump_activity c2)))"
  by pat_completeness auto

termination send_range
  by (relation "measure (\<lambda>(h, pos, n, c). length (the h) - pos)")
     (auto dest!: fs_read_at_step [OF sym] simp: BUF_SIZE_def split: if_splits)

function send_whole :: "bytes option \<Rightarrow> nat \<Rightarrow> web_conn \<Rightarrow> (web_error + unit) \<times> web_conn" where
  "send_whole h pos c =
     (case web_io (fs_read_at h pos BUF_SIZE) c of
        (Inl e, c1) \<Rightarrow> (Inl e, c1)
      | (Inr d, c1) \<Rightarrow>
          if d = [] then (Inr (), c1)
          else (case wc_write_all download_deadline d c1 of
                  (Inl e, c2) \<Rightarrow> (Inl e, c2)
                | (Inr _, c2) \<Rightarrow> send_whole h (pos + length d) (on_server bump_activity c2)))"
  by pat_completeness auto

termination send_whole
  by (relation "measure (\<lambda>(h, pos, c). length (the h) - pos)")
     (auto dest!: fs_read_at_step [OF sym] simp: BUF_SIZE_def split: if_splits)

declare send_range.simps [simp del] send_whole.simps [simp del]

text \<open>After the last byte: flush, close, count.\<close>

definition finish_download :: "web_conn \<Rightarrow> (web_error + unit) \<times> web_conn" where
  "finish_download c = io_then (wc_flush None c) (\<lambda>_ c. (Inr (), on_server count_download c))"

definition disposition :: "string \<Rightarrow> string" where
  "disposition safe_name = ''Content-Disposition: attachment; filename='' @ quot @ safe_name @ quot"

definition partial_header :: "string \<Rightarrow> u64 \<Rightarrow> u64 \<Rightarrow> u64 \<Rightarrow> string \<Rightarrow> bytes" where
  "partial_header mime start end full_size safe_name = header_lines
     [''HTTP/1.1 206 Partial Content'', ''Content-Type: '' @ mime,
      ''Content-Length: '' @ dec_string (unat (end - start + 1)),
      ''Content-Range: bytes '' @ dec_string (unat start) @ ''-'' @ dec_string (unat end) @ ''/'' @ dec_string (unat full_size),
      ''Accept-Ranges: bytes'', disposition safe_name, ''Connection: close'']"

definition unsatisfiable_header :: "u64 \<Rightarrow> bytes" where
  "unsatisfiable_header full_size = header_lines
     [''HTTP/1.1 416 Range Not Satisfiable'', ''Content-Range: bytes */'' @ dec_string (unat full_size), ''Connection: close'']"

definition full_header :: "string \<Rightarrow> u64 \<Rightarrow> string \<Rightarrow> bytes" where
  "full_header mime full_size safe_name = header_lines
     [''HTTP/1.1 200 OK'', ''Content-Type: '' @ mime, ''Content-Length: '' @ dec_string (unat full_size),
      ''Accept-Ranges: bytes'', disposition safe_name, ''Connection: close'']"

definition item_mime :: "WebShareItem \<Rightarrow> string" where
  "item_mime item = (if wi_mime item = [] then ''application/octet-stream'' else wi_mime item)"

definition send_item :: "web_lib \<Rightarrow> WebShareItem \<Rightarrow> string option \<Rightarrow> bytes option \<Rightarrow> web_conn \<Rightarrow> (web_error + unit) \<times> web_conn" where
  "send_item lib item range_header h c =
     (case wc_sanitize_filename lib (wi_name item) c of (safe_name, c) \<Rightarrow>
      case range_header of
        Some range_val \<Rightarrow>
          (case parse_range_header range_val (wi_size item) of
             Some (start, end) \<Rightarrow>
               io_then (wc_write_all None (partial_header (item_mime item) start end (wi_size item) safe_name) c) (\<lambda>_ c.
               io_then (web_io fs_seek c) (\<lambda>_ c.
                 with_transfer_guard (\<lambda>c.
                   io_then (send_range h (unat start) (unat (end - start + 1)) c) (\<lambda>_ c. finish_download c)) c))
           | None \<Rightarrow>
               io_then (wc_write_all None (unsatisfiable_header (wi_size item)) c) (\<lambda>_ c. wc_flush None c))
      | None \<Rightarrow>
          io_then (wc_write_all None (full_header (item_mime item) (wi_size item) safe_name) c) (\<lambda>_ c.
            with_transfer_guard (\<lambda>c. io_then (send_whole h 0 c) (\<lambda>_ c. finish_download c)) c))"

definition route_item :: "web_lib \<Rightarrow> web_request \<Rightarrow> string option \<Rightarrow> web_conn \<Rightarrow> (web_error + unit) \<times> web_conn" where
  "route_item lib q range_header c =
     (case parse_u64 (drop 4 (wq_path q)) of
        None \<Rightarrow> send_web_error ''404 Not Found'' ''Invalid file id format'' c
      | Some i \<Rightarrow>
     (case wv_share_manifest (wc_server c) of
        None \<Rightarrow> send_web_error ''404 Not Found'' ''Download mode not active'' c
      | Some manifest \<Rightarrow>
     (case find (\<lambda>item. wi_id item = i) manifest of
        None \<Rightarrow> send_web_error ''404 Not Found'' ''File not found in manifest'' c
      | Some item \<Rightarrow>
          if \<not> fs_exists (item_path lib item) (wc_world c)
          then send_web_error ''404 Not Found'' ''File missing on disk'' c
          else (case web_io (fs_open (item_path lib item)) c of
                  (Inl _, c) \<Rightarrow> send_web_error ''500 Internal Error'' ''Failed to read file from storage'' c
                | (Inr h, c) \<Rightarrow> send_item lib item range_header h c))))"

definition route_download :: "web_lib \<Rightarrow> web_request \<Rightarrow> web_conn \<Rightarrow> (web_error + unit) \<times> web_conn" where
  "route_download lib q c =
     io_then (bearer_token lib q, c) (\<lambda>header_token c.
     io_then (scan_header lib ''range:'' (wq_headers q), c) (\<lambda>range_header c.
       if \<not> token_accepted (or_query_token q header_token) (wc_server c)
       then send_web_error ''403 Forbidden'' ''Invalid token or PIN'' c
       else if wq_path q = ''/dl/all.zip'' then route_zip lib c
       else route_item lib q range_header c))"

end
