(* ===== verification/Nxfr_Web_Upload.thy ===== *)
theory Nxfr_Web_Upload
  imports Nxfr_Web_Routes
begin

text \<open>
  The upload route of \<open>handle_connection\<close> (\<open>nxfr-web/src/lib.rs\<close>): the multipart headers, the body that is
  streamed into a temporary file until its boundary, and the name the file gets.

  In results, \<open>Inr None\<close> is a handler that has answered and returns. \<open>WeEndless\<close> stands for a search for a
  free name that never ends; the state that comes with it has no meaning.
\<close>

section \<open>Headers\<close>

definition str_contains :: "string \<Rightarrow> string \<Rightarrow> bool" where
  "str_contains s pat \<longleftrightarrow> find_sub pat s \<noteq> None"

definition boundary_value :: "string \<Rightarrow> string" where
  "boundary_value raw_val =
     (let b_val = str_trim raw_val;
          b_val = (if CHR '';'' \<in> set b_val then takeWhile (\<lambda>c. c \<noteq> CHR '';'') b_val else b_val)
      in str_trim_matches CHR 0x27 (str_trim_matches CHR 0x22 (str_trim b_val)))"

definition scan_boundary :: "web_lib \<Rightarrow> string list \<Rightarrow> web_error + string option" where
  "scan_boundary lib ls =
     foldl (\<lambda>r line. and_then r (\<lambda>v.
        let lower = wl_to_lowercase lib line
        in if prefix ''content-type:'' lower \<and> str_contains lower ''multipart/form-data''
           then (case find_sub ''boundary='' lower of
                   Some pos \<Rightarrow> and_then (slice_from (pos + 9) line) (\<lambda>raw_val.
                     Inr (if boundary_value raw_val \<noteq> [] then Some (boundary_value raw_val) else v))
                 | None \<Rightarrow> Inr v)
           else Inr v)) (Inr None) ls"

definition content_length :: "web_lib \<Rightarrow> string list \<Rightarrow> web_error + u64 option" where
  "content_length lib ls =
     and_then (scan_header lib ''content-length:'' ls) (\<lambda>v. Inr (Option.bind v parse_u64))"

text \<open>The file name of a \<open>Content-Disposition\<close> line, quoted or not.\<close>

definition line_filename :: "web_lib \<Rightarrow> string \<Rightarrow> string option \<Rightarrow> web_error + string option" where
  "line_filename lib h_line v =
     (let lower = wl_to_lowercase lib h_line
      in if \<not> str_contains lower ''content-disposition:'' then Inr v
         else case find_sub (''filename='' @ quot) lower of
           Some fn_idx \<Rightarrow> and_then (slice_from (fn_idx + 10) h_line) (\<lambda>rest.
             Inr (if CHR 0x22 \<in> set rest
                  then let fn_val = str_trim (takeWhile (\<lambda>c. c \<noteq> CHR 0x22) rest) in if fn_val \<noteq> [] then Some fn_val else v
                  else v))
         | None \<Rightarrow>
             (case find_sub ''filename='' lower of
                Some fn_idx \<Rightarrow> and_then (slice_from (fn_idx + 9) h_line) (\<lambda>rest.
                  let r = str_trim_matches CHR 0x22 (str_trim rest) in Inr (if r \<noteq> [] then Some r else v))
              | None \<Rightarrow> Inr v))"

definition part_filename :: "web_lib \<Rightarrow> bytes \<Rightarrow> web_error + string option" where
  "part_filename lib part_header_bytes =
     (case str_from_utf8 part_header_bytes of
        None \<Rightarrow> Inr None
      | Some header_str \<Rightarrow> foldl (\<lambda>r line. and_then r (line_filename lib line)) (Inr None) (str_lines header_str))"

function read_part :: "web_lib \<Rightarrow> bytes \<Rightarrow> web_conn \<Rightarrow> (web_error + (string option \<times> bytes) option) \<times> web_conn" where
  "read_part lib buffer c =
     (case find_sub blank_line buffer of
        Some pos \<Rightarrow>
          (case part_filename lib (take pos buffer) of
             Inl e \<Rightarrow> (Inl e, c)
           | Inr original_filename \<Rightarrow> (Inr (Some (original_filename, drop (pos + 4) buffer)), c))
      | None \<Rightarrow>
          if length buffer > 16384
          then io_then (send_web_error ''400 Bad Request'' ''Malformed multipart headers'' c) (\<lambda>_ c. (Inr None, c))
          else (case wc_read BUF_SIZE None c of
                  (ReadErr e, c1) \<Rightarrow> (Inl (WeIo e), c1)
                | (ReadTimeout, c1) \<Rightarrow> (Inr None, c1)
                | (ReadData d, c1) \<Rightarrow>
                    if d = []
                    then io_then (send_web_error ''400 Bad Request'' ''Client disconnected prematurely'' c1) (\<lambda>_ c. (Inr None, c))
                    else read_part lib (buffer @ d) c1))"
  by pat_completeness auto

termination read_part
  by (relation "measure (\<lambda>(l, b, c). 16385 - length b)")
     (auto simp: length_greater_0_conv [symmetric] simp del: length_greater_0_conv)

declare read_part.simps [simp del]

section \<open>The body\<close>

definition boundary_needle :: "string \<Rightarrow> bytes" where
  "boundary_needle boundary_str = text_bytes (crlf @ ''--'' @ boundary_str)"

definition alt_needle :: "string \<Rightarrow> bytes" where
  "alt_needle boundary_str = text_bytes (''--'' @ boundary_str)"

text \<open>Write a chunk, unless the file would become larger than allowed.\<close>

definition store_chunk :: "abspath \<Rightarrow> bytes \<Rightarrow> u64 \<Rightarrow> web_conn \<Rightarrow> (web_error + u64 option) \<times> web_conn" where
  "store_chunk tmp_path d total_written c =
     (let total_written' = total_written + of_nat (length d)
      in if total_written' > wv_max_file_size (wc_server c)
         then io_then (send_web_error ''413 Payload Too Large'' ''File size exceeds limit'' c) (\<lambda>_ c. (Inr None, c))
         else io_then (web_io (fs_write_all tmp_path d) c) (\<lambda>_ c.
                (Inr (Some total_written'), on_server bump_activity c)))"

definition store_safe_prefix :: "abspath \<Rightarrow> nat \<Rightarrow> bytes \<Rightarrow> u64 \<Rightarrow> web_conn \<Rightarrow> (web_error + (u64 \<times> bytes) option) \<times> web_conn" where
  "store_safe_prefix tmp_path needle_len buffer total_written c =
     (if length buffer > needle_len
      then let safe_len = length buffer - needle_len
           in io_then (store_chunk tmp_path (take safe_len buffer) total_written c) (\<lambda>r c.
                (Inr (map_option (\<lambda>t. (t, drop safe_len buffer)) r), c))
      else (Inr (Some (total_written, buffer)), c))"

text \<open>The input left shrinks with every byte read.\<close>

fun input_size :: "web_input list \<Rightarrow> nat" where
  "input_size [] = 0"
| "input_size (WiData b # xs) = Suc (length b) + input_size xs"
| "input_size (x # xs) = Suc (input_size xs)"

lemma next_input_size:
  "next_input cap limit xs s = (ReadData d, ys, s') \<Longrightarrow> d \<noteq> [] \<Longrightarrow> input_size ys < input_size xs"
  by (induction cap limit xs s rule: next_input.induct)
     (auto split: if_splits option.splits)

lemma wc_read_size:
  "wc_read cap limit c = (ReadData d, c') \<Longrightarrow> d \<noteq> [] \<Longrightarrow> input_size (wc_in c') < input_size (wc_in c)"
  by (auto simp: wc_read_def dest: next_input_size split: prod.splits)

lemma wc_in_write [simp]: "wc_in (snd (wc_write_all dl b c)) = wc_in c"
  by (auto simp: wc_write_all_def take_write_fault_def wc_put_def split: list.splits option.splits web_fault.splits)

lemma io_then_wc_in:
  assumes "wc_in (snd m) = k" "\<And>x c. wc_in c = k \<Longrightarrow> wc_in (snd (f x c)) = k"
  shows "wc_in (snd (io_then m f)) = k"
  using io_then_inv [where P = "\<lambda>c. wc_in c = k"] assms by blast

lemma wc_in_response [simp]: "wc_in (snd (send_response st ct body c)) = wc_in c"
  unfolding send_response_def wc_flush_def by (auto intro!: io_then_wc_in)

lemma wc_in_error [simp]: "wc_in (snd (send_web_error st m c)) = wc_in c"
  by (simp add: send_web_error_def)

lemma wc_in_web_io [simp]: "wc_in (snd (web_io f c)) = wc_in c"
  by (simp add: web_io_def split: prod.splits)

lemma wc_in_store_chunk [simp]: "wc_in (snd (store_chunk p d t c)) = wc_in c"
  by (auto simp: store_chunk_def Let_def intro!: io_then_wc_in)

lemma wc_in_store [simp]: "wc_in (snd (store_safe_prefix p n b t c)) = wc_in c"
  by (auto simp: store_safe_prefix_def Let_def intro!: io_then_wc_in)

lemma wc_in_store_eq: "store_safe_prefix p n b t c = (r, c') \<Longrightarrow> wc_in c' = wc_in c"
  by (metis snd_conv wc_in_store)

function upload_loop :: "abspath \<Rightarrow> string \<Rightarrow> bytes \<Rightarrow> u64 \<Rightarrow> web_conn \<Rightarrow> (web_error + u64 option) \<times> web_conn" where
  "upload_loop tmp_path boundary_str buffer total_written c =
     (case find_sub (boundary_needle boundary_str) buffer of
        Some pos \<Rightarrow>
          if take pos buffer \<noteq> [] then store_chunk tmp_path (take pos buffer) total_written c
          else (Inr (Some total_written), c)
      | None \<Rightarrow>
          if total_written = 0 \<and> prefix (alt_needle boundary_str) buffer then (Inr (Some total_written), c)
          else (case store_safe_prefix tmp_path (length (boundary_needle boundary_str)) buffer total_written c of
             (Inl e, c1) \<Rightarrow> (Inl e, c1)
           | (Inr None, c1) \<Rightarrow> (Inr None, c1)
           | (Inr (Some (total_written1, buffer1)), c1) \<Rightarrow>
               (case wc_read BUF_SIZE (Some CHUNK_IO_TIMEOUT) c1 of
                  (ReadErr e, c2) \<Rightarrow> (Inl (WeIo e), c2)
                | (ReadTimeout, c2) \<Rightarrow> (Inl (WeText ''Upload timed out (30s inactivity)''), c2)
                | (ReadData d, c2) \<Rightarrow>
                    if d = [] then (Inl (WeText ''Client disconnected during upload''), c2)
                    else upload_loop tmp_path boundary_str (buffer1 @ d) total_written1 (on_server bump_activity c2))))"
  by pat_completeness auto

termination upload_loop
  by (relation "measure (\<lambda>(p, b, buffer, t, c). input_size (wc_in c))")
     (auto dest!: wc_read_size [OF sym] wc_in_store_eq [OF sym])

declare upload_loop.simps [simp del]

section \<open>The name\<close>

fun sanitize_all :: "web_lib \<Rightarrow> string list \<Rightarrow> web_conn \<Rightarrow> string list \<times> web_conn" where
  "sanitize_all lib [] c = ([], c)"
| "sanitize_all lib (n # ns) c =
     (case wc_sanitize_filename lib n c of (x, c1) \<Rightarrow>
      case sanitize_all lib ns c1 of (xs, c2) \<Rightarrow> (x # xs, c2))"

definition name_components :: "string \<Rightarrow> string list" where
  "name_components raw_name =
     filter (\<lambda>c. c \<noteq> [] \<and> c \<noteq> ''.'' \<and> c \<noteq> ''..'') (split_on CHR ''/'' raw_name)"

text \<open>The directory below the inbox, if any, and the name; \<open>None\<close> for a path that is nested too deeply.\<close>

definition upload_name :: "web_lib \<Rightarrow> string \<Rightarrow> web_conn \<Rightarrow> (string option \<times> string) option \<times> web_conn" where
  "upload_name lib raw_name c =
     (if CHR ''/'' \<in> set raw_name
      then let components = name_components raw_name
           in if length components > 11 then (None, c)
              else if components = []
              then (case wc_sanitize_filename lib raw_name c of (n, c) \<Rightarrow> (Some (None, n), c))
              else if length components = 1
              then (case wc_sanitize_filename lib (hd components) c of (n, c) \<Rightarrow> (Some (None, n), c))
              else (case sanitize_all lib (butlast components) c of (dir_parts, c) \<Rightarrow>
                    case wc_sanitize_filename lib (last components) c of (file_part, c) \<Rightarrow>
                      (Some (Some (join_with CHR ''/'' dir_parts), file_part), c))
      else (case wc_sanitize_filename lib raw_name c of (n, c) \<Rightarrow> (Some (None, n), c)))"

text \<open>The counter of the names is an \<open>i32\<close>.\<close>

definition i32_wrap :: "int \<Rightarrow> int" where
  "i32_wrap n = (n + 2 ^ 31) mod 2 ^ 32 - 2 ^ 31"

definition dec_int :: "int \<Rightarrow> string" where
  "dec_int n = (if n < 0 then CHR ''-'' # dec_string (nat (- n)) else dec_string (nat n))"

definition numbered_name :: "abspath \<Rightarrow> string \<Rightarrow> int \<Rightarrow> abspath" where
  "numbered_name target_dir clean_name counter =
     path_join target_dir (name_stem clean_name @ '' ('' @ dec_int counter @ '')''
       @ (case name_extension clean_name of None \<Rightarrow> [] | Some e \<Rightarrow> CHR ''.'' # e))"

partial_function (option) free_name :: "abspath \<Rightarrow> string \<Rightarrow> int \<Rightarrow> world \<Rightarrow> abspath option" where
  "free_name target_dir clean_name counter w =
     (let candidate = numbered_name target_dir clean_name counter
      in if fs_exists candidate w then free_name target_dir clean_name (i32_wrap (counter + 1)) w
         else Some candidate)"

definition final_path :: "abspath \<Rightarrow> string \<Rightarrow> world \<Rightarrow> abspath option" where
  "final_path target_dir clean_name w =
     (let p = path_join target_dir clean_name
      in if fs_exists p w then free_name target_dir clean_name 1 w else Some p)"

section \<open>The route\<close>

definition inbox_dir :: "WebServer \<Rightarrow> abspath" where
  "inbox_dir s = path_join (wv_receive_dir s) ''web-inbox''"

text \<open>
  From the complete temporary file to its final name; whether it was committed. The \<open>flush\<close> of the
  file is, like a sync, an operation that may fail and changes nothing of the contents.
\<close>

definition upload_place :: "web_lib \<Rightarrow> abspath \<Rightarrow> string \<Rightarrow> web_conn \<Rightarrow> (web_error + bool) \<times> web_conn" where
  "upload_place lib tmp_path raw_name c =
     io_then (web_io (fs_sync_all tmp_path) c) (\<lambda>_ c.
     case upload_name lib raw_name c of
       (None, c) \<Rightarrow>
         io_then (send_web_error ''400 Bad Request'' ''Path too deeply nested (max 10 levels)'' c) (\<lambda>_ c. (Inr False, c))
     | (Some (sub_dir, clean_name), c) \<Rightarrow>
         io_then
           (case sub_dir of
              Some sd \<Rightarrow>
                let d = path_join (inbox_dir (wc_server c)) sd
                in io_then (web_io (fs_create_dir_all d) c) (\<lambda>_ c. (Inr d, c))
            | None \<Rightarrow> (Inr (inbox_dir (wc_server c)), c)) (\<lambda>target_dir c.
         io_then (ok_or WeEndless (final_path target_dir clean_name (wc_world c)), c) (\<lambda>dest c.
         io_then (web_io (fs_rename tmp_path dest) c) (\<lambda>_ c. (Inr True, c)))))"

definition upload_run :: "web_lib \<Rightarrow> string \<Rightarrow> abspath \<Rightarrow> string \<Rightarrow> bytes \<Rightarrow> web_conn \<Rightarrow> (web_error + bool) \<times> web_conn" where
  "upload_run lib boundary_str tmp_path raw_name buffer c =
     io_then (upload_loop tmp_path boundary_str buffer 0 c) (\<lambda>r c.
       case r of None \<Rightarrow> (Inr False, c) | Some _ \<Rightarrow> upload_place lib tmp_path raw_name c)"

text \<open>
  The guard removes the temporary file unless it was committed; the answer follows a commit. This guard and
  that of the active transfer touch different parts of the state, so it does not matter here which is dropped first.
\<close>

definition with_tmp_guard :: "abspath \<Rightarrow> (web_conn \<Rightarrow> (web_error + bool) \<times> web_conn) \<Rightarrow> web_conn \<Rightarrow> (web_error + unit) \<times> web_conn" where
  "with_tmp_guard tmp_path f c =
     (case f c of
        (Inr True, c1) \<Rightarrow> send_response ''200 OK'' ''text/plain'' (text_bytes ''Upload successful'') c1
      | (r, c1) \<Rightarrow> (map_sum id (\<lambda>_. ()) r, c1\<lparr>wc_world := snd (fs_remove_file tmp_path (wc_world c1))\<rparr>))"

definition upload_file :: "web_lib \<Rightarrow> string \<Rightarrow> string option \<Rightarrow> bytes \<Rightarrow> web_conn \<Rightarrow> (web_error + unit) \<times> web_conn" where
  "upload_file lib boundary_str original_filename buffer c =
     io_then (web_io (fs_create_dir_all (inbox_dir (wc_server c))) c) (\<lambda>_ c.
     case wc_getrandom 8 c of
       (None, c) \<Rightarrow> (Inl (WeText ''getrandom failed''), c)
     | (Some rand_bytes, c) \<Rightarrow>
         let tmp_path = path_join (inbox_dir (wc_server c)) (''web_upload_'' @ hex_encode rand_bytes @ ''.tmp'');
             raw_name = (case original_filename of Some n \<Rightarrow> n
               | None \<Rightarrow> ''upload_'' @ hex_encode (take 4 rand_bytes) @ ''.bin'')
         in io_then (web_io (fs_create tmp_path) c) (\<lambda>_ c.
              with_transfer_guard (with_tmp_guard tmp_path (upload_run lib boundary_str tmp_path raw_name buffer)) c))"

definition route_upload :: "web_lib \<Rightarrow> IpAddr \<Rightarrow> web_request \<Rightarrow> bytes \<Rightarrow> web_conn \<Rightarrow> (web_error + unit) \<times> web_conn" where
  "route_upload lib ip q buffer c =
     io_then (content_length lib (wq_headers q), c) (\<lambda>len c.
     io_then (scan_boundary lib (wq_headers q), c) (\<lambda>boundary c.
     io_then (bearer_token lib q, c) (\<lambda>header_token c.
       if \<not> token_accepted (or_query_token q header_token) (wc_server c)
       then send_web_error ''403 Forbidden'' ''Invalid token or PIN'' (on_server (record_failure ip) c)
       else case boundary of
         None \<Rightarrow> send_response ''200 OK'' ''text/plain'' (text_bytes ''Upload successful'') c
       | Some boundary_str \<Rightarrow>
           if (case len of Some cl \<Rightarrow> cl > wv_max_file_size (wc_server c) | None \<Rightarrow> False)
           then send_web_error ''413 Payload Too Large'' ''File size exceeds limit'' c
           else io_then (read_part lib buffer c) (\<lambda>part c.
             case part of
               None \<Rightarrow> (Inr (), c)
             | Some (original_filename, buffer) \<Rightarrow> upload_file lib boundary_str original_filename buffer c))))"

end
