(* ===== verification/Nxfr_Web_Server.thy ===== *)
theory Nxfr_Web_Server
  imports Nxfr_Web_Upload Nxfr_Identity
begin

text \<open>
  The handler of a connection and the life of the web server (\<open>nxfr-web/src/lib.rs\<close>): starting it in upload
  or share mode, its accept loop with the inactivity expiry, and the drain that ends it. The accept
  loop runs beside the tasks of the connections, so it is a step relation in which their operations
  and the passing of time are steps of their own.
\<close>

section \<open>The handler\<close>

definition route_request :: "web_lib \<Rightarrow> IpAddr \<Rightarrow> web_request \<Rightarrow> bytes \<Rightarrow> web_conn \<Rightarrow> (web_error + unit) \<times> web_conn" where
  "route_request lib ip q body c =
     (if wq_method q = ''POST'' \<and> wq_path q = ''/api/request'' then route_api_request lib ip q c
      else if wq_method q = ''GET'' \<and> wq_path q = ''/api/request-status'' then route_request_status lib q c
      else if wq_method q = ''GET'' \<and> wq_path q = ''/api/pending'' then route_pending lib q c
      else if wq_method q = ''GET'' \<and> wq_path q = ''/'' then route_index lib q c
      else if wq_method q = ''GET'' \<and> wq_path q = ''/auth'' then route_auth lib ip q c
      else if wq_method q = ''GET'' \<and> prefix ''/dl/'' (wq_path q) then route_download lib q c
      else if wq_method q = ''POST'' \<and> wq_path q = ''/upload'' then route_upload lib ip q body c
      else send_response ''404 Not Found'' ''text/plain'' (text_bytes ''Not Found'') c)"

definition handle_connection :: "web_lib \<Rightarrow> IpAddr \<Rightarrow> web_conn \<Rightarrow> (web_error + unit) \<times> web_conn" where
  "handle_connection lib ip c =
     (if wv_cancelled (wc_server c) then (Inr (), c)
      else case check_blocked ip (bump_activity (wc_server c)) of (blocked, s) \<Rightarrow>
        let c = c\<lparr>wc_server := s\<rparr>
        in if blocked then send_web_error ''403 Forbidden'' ''Too many failed attempts. Temporarily blocked.'' c
           else io_then (read_headers [] c) (\<lambda>r c.
             case r of
               None \<Rightarrow> (Inr (), c)
             | Some (headers_buf, body_start) \<Rightarrow>
                 io_then (parse_request lib (take body_start headers_buf), c) (\<lambda>q c.
                   route_request lib ip q (drop body_start headers_buf) c)))"

section \<open>Starting\<close>

text \<open>
  Ports are tried in order; the end of the range is computed in 16 bits. The handle of an upload server
  has cells of its own where that of a share server has the cells of the server. The empty receive directory
  of a share server is the working directory.
\<close>

definition bind_port :: "(u16 \<Rightarrow> bool) \<Rightarrow> u16 \<Rightarrow> string + u16" where
  "bind_port bindable preferred_port =
     (let limit = preferred_port + of_nat MAX_PORT_ATTEMPTS
      in ok_or (''Could not bind to any port in range '' @ dec_string (unat preferred_port) @ ''..'' @ dec_string (unat limit))
           (find bindable (map of_nat [unat preferred_port ..< unat limit])))"

definition fingerprint_text :: "bytes \<Rightarrow> string" where
  "fingerprint_text fp = join_with CHR '':'' (map hex_upper_byte fp)"

definition cert_fingerprint :: "(bytes \<Rightarrow> string + bytes) \<Rightarrow> (bytes \<Rightarrow> bytes) \<Rightarrow> bytes \<Rightarrow> string" where
  "cert_fingerprint x509 sha256 cert_der =
     fingerprint_text (case device_id_from_cert x509 sha256 cert_der of Inl _ \<Rightarrow> replicate 32 0 | Inr b \<Rightarrow> b)"

record handle_cells =
  hc_download_count :: u64
  hc_pending_requests :: "(string \<times> PendingRequest) list"
  hc_auto_accept :: bool

record WebServerHandle =
  wh_token :: string
  wh_port :: u16
  wh_own_cells :: "handle_cells option"

record start_lib =
  sl_bindable :: "u16 \<Rightarrow> bool"
  sl_x509 :: "bytes \<Rightarrow> string + bytes"
  sl_sha256 :: "bytes \<Rightarrow> bytes"
  sl_tls_config :: "bytes \<Rightarrow> bytes \<Rightarrow> string + unit"
  sl_token :: string
  sl_now :: nat
  sl_unix_offset :: int
  sl_cwd :: abspath

definition start_with_expiry :: "start_lib \<Rightarrow> bytes \<Rightarrow> bytes \<Rightarrow> abspath \<Rightarrow> u16 \<Rightarrow> string option \<Rightarrow> nat
    \<Rightarrow> string + WebServerHandle \<times> WebServer" where
  "start_with_expiry lib key_der cert_der receive_dir preferred_port pin expiry_duration =
     and_then (bind_port (sl_bindable lib) preferred_port) (\<lambda>actual_port.
       let server = new_with_expiry (sl_token lib) (sl_now lib) (sl_unix_offset lib) receive_dir actual_port MAX_UPLOAD_LIMIT
                      pin (cert_fingerprint (sl_x509 lib) (sl_sha256 lib) cert_der) None expiry_duration None
       in and_then (sl_tls_config lib key_der cert_der) (\<lambda>_.
            Inr (\<lparr>wh_token = wv_token server, wh_port = actual_port,
                  wh_own_cells = Some \<lparr>hc_download_count = 0, hc_pending_requests = [], hc_auto_accept = True\<rparr>\<rparr>, server)))"

definition start_share_with_expiry :: "start_lib \<Rightarrow> bytes \<Rightarrow> bytes \<Rightarrow> u16 \<Rightarrow> string option \<Rightarrow> WebShareItem list \<Rightarrow> nat
    \<Rightarrow> u32 option \<Rightarrow> string + WebServerHandle \<times> WebServer" where
  "start_share_with_expiry lib key_der cert_der preferred_port pin share_manifest expiry_duration max_downloads =
     and_then (bind_port (sl_bindable lib) preferred_port) (\<lambda>actual_port.
       let server = new_with_expiry (sl_token lib) (sl_now lib) (sl_unix_offset lib) (sl_cwd lib) actual_port MAX_UPLOAD_LIMIT
                      pin (cert_fingerprint (sl_x509 lib) (sl_sha256 lib) cert_der) (Some share_manifest)
                      expiry_duration max_downloads
       in and_then (sl_tls_config lib key_der cert_der) (\<lambda>_.
            Inr (\<lparr>wh_token = wv_token server, wh_port = actual_port, wh_own_cells = None\<rparr>, server)))"

definition web_start :: "start_lib \<Rightarrow> string option \<Rightarrow> bytes \<Rightarrow> bytes \<Rightarrow> abspath \<Rightarrow> u16 \<Rightarrow> string option
    \<Rightarrow> string + WebServerHandle \<times> WebServer" where
  "web_start lib expiry_var key_der cert_der receive_dir preferred_port pin =
     start_with_expiry lib key_der cert_der receive_dir preferred_port pin (get_default_expiry_duration expiry_var)"

definition start_share :: "start_lib \<Rightarrow> string option \<Rightarrow> bytes \<Rightarrow> bytes \<Rightarrow> u16 \<Rightarrow> string option \<Rightarrow> WebShareItem list
    \<Rightarrow> u32 option \<Rightarrow> string + WebServerHandle \<times> WebServer" where
  "start_share lib expiry_var key_der cert_der preferred_port pin share_manifest max_downloads =
     start_share_with_expiry lib key_der cert_der preferred_port pin share_manifest
       (get_default_expiry_duration expiry_var) max_downloads"

text \<open>The operations of the handle that go through the cells.\<close>

definition handle_set_auto_accept :: "bool \<Rightarrow> WebServerHandle \<Rightarrow> WebServer \<Rightarrow> WebServerHandle \<times> WebServer" where
  "handle_set_auto_accept enabled h s =
     (case wh_own_cells h of
        Some cells \<Rightarrow> (h\<lparr>wh_own_cells := Some (cells\<lparr>hc_auto_accept := enabled\<rparr>)\<rparr>, s)
      | None \<Rightarrow> (h, set_auto_accept enabled s))"

definition handle_is_auto_accept :: "WebServerHandle \<Rightarrow> WebServer \<Rightarrow> bool" where
  "handle_is_auto_accept h s = (case wh_own_cells h of Some cells \<Rightarrow> hc_auto_accept cells | None \<Rightarrow> wv_auto_accept s)"

definition handle_download_count :: "WebServerHandle \<Rightarrow> WebServer \<Rightarrow> u64" where
  "handle_download_count h s = (case wh_own_cells h of Some cells \<Rightarrow> hc_download_count cells | None \<Rightarrow> wv_download_count s)"

definition handle_get_pending_requests :: "WebServerHandle \<Rightarrow> WebServer \<Rightarrow> PendingRequest list" where
  "handle_get_pending_requests h s =
     (case wh_own_cells h of
        Some cells \<Rightarrow> get_pending_requests (s\<lparr>wv_pending_requests := hc_pending_requests cells\<rparr>)
      | None \<Rightarrow> get_pending_requests s)"

definition handle_respond_to_request :: "string \<Rightarrow> bool \<Rightarrow> string \<Rightarrow> WebServerHandle \<Rightarrow> WebServer
    \<Rightarrow> (string + unit) \<times> WebServerHandle \<times> WebServer" where
  "handle_respond_to_request sid accepted fresh_token h s =
     (case wh_own_cells h of
        Some cells \<Rightarrow>
          (case respond_to_request sid accepted fresh_token (s\<lparr>wv_pending_requests := hc_pending_requests cells\<rparr>) of
             (r, s1) \<Rightarrow> (r, h\<lparr>wh_own_cells := Some (cells\<lparr>hc_pending_requests := wv_pending_requests s1\<rparr>)\<rparr>, s))
      | None \<Rightarrow> (case respond_to_request sid accepted fresh_token s of (r, s1) \<Rightarrow> (r, h, s1)))"

text \<open>
  The cells of an upload server's handle are its own: what the handle reports of the approval switch
  has nothing to do with the server, and switching it has no effect there.
\<close>

lemma upload_handle_detached:
  assumes "start_with_expiry lib key_der cert_der receive_dir preferred_port pin expiry_duration = Inr (h, s)"
  shows "handle_is_auto_accept h s \<and> \<not> wv_auto_accept s
    \<and> snd (handle_set_auto_accept enabled h s) = s
    \<and> fst (handle_respond_to_request sid accepted fresh_token h s') = Inl (''No pending request with id '' @ CHR 0x27 # sid @ [CHR 0x27])"
  using assms
  by (auto simp: start_with_expiry_def Let_def handle_is_auto_accept_def handle_set_auto_accept_def
      handle_respond_to_request_def respond_to_request_def new_with_expiry_def result_simps split: sum.splits)

section \<open>The accept loop\<close>

text \<open>How long the loop waits for the next connection; \<open>None\<close> when it stops for inactivity.\<close>

definition time_to_wait :: "WebServer \<Rightarrow> nat option" where
  "time_to_wait s =
     (let elapsed = wv_now s - wv_last_activity s
      in if wv_active_transfers s > 0 then Some 250000000
         else if elapsed \<ge> wv_expiry_duration s then None
         else Some (wv_expiry_duration s - elapsed))"

definition DRAIN_TIMEOUT :: nat where
  "DRAIN_TIMEOUT = seconds 300"

text \<open>
  The loop is at its head, waits until a deadline, drains since an instant (where it looks again after
  a sleep of 50 ms), or has ended.
\<close>

datatype loop_phase = AtHead | Waiting nat | Draining nat | DrainSleep nat nat | Ended

type_synonym loop_state = "loop_phase \<times> WebServer"

inductive server_step :: "loop_state \<Rightarrow> loop_state \<Rightarrow> bool" where
  expire: "time_to_wait s = None \<Longrightarrow> server_step (AtHead, s) (Draining (wv_now s), s)"
| wait: "time_to_wait s = Some t \<Longrightarrow> server_step (AtHead, s) (Waiting (wv_now s + t), s)"
| cancelled: "wv_cancelled s \<Longrightarrow> server_step (Waiting deadline, s) (Draining (wv_now s), s)"
| slept: "deadline \<le> wv_now s \<Longrightarrow> server_step (Waiting deadline, s) (AtHead, s)"
| accepted: "server_step (Waiting deadline, s) (AtHead, s)"
| drain_more: "wv_active_transfers s > 0 \<Longrightarrow> wv_now s - start \<le> DRAIN_TIMEOUT
    \<Longrightarrow> server_step (Draining start, s) (DrainSleep start (wv_now s + 50000000), s)"
| drain_awake: "deadline \<le> wv_now s \<Longrightarrow> server_step (DrainSleep start deadline, s) (Draining start, s)"
| drained: "wv_active_transfers s = 0 \<Longrightarrow> server_step (Draining start, s) (Ended, web_stop s)"
| drain_timeout: "wv_now s - start > DRAIN_TIMEOUT \<Longrightarrow> server_step (Draining start, s) (Ended, web_stop s)"
| other_task: "server_step (phase, s) (phase, run_action a s)"
| passing: "server_step (phase, s) (phase, pass_time d s)"

end
