(* ===== verification/Nxfr_Web_Upload_Exact.thy ===== *)
theory Nxfr_Web_Upload_Exact
  imports Nxfr_Web_Upload
begin

text \<open>
  The streamed upload against its specification: the part of the body before the first occurrence of
  the boundary, however the client and the network cut the body into pieces; and the search for a free
  file name, which ends.
\<close>

section \<open>What a read takes from the input\<close>

fun input_bytes :: "web_input list \<Rightarrow> bytes" where
  "input_bytes [] = []"
| "input_bytes (WiData b # xs) = b @ input_bytes xs"
| "input_bytes (x # xs) = input_bytes xs"

lemma next_input_bytes:
  "next_input cap limit xs s = (ReadData d, ys, s') \<Longrightarrow> d \<noteq> [] \<Longrightarrow> input_bytes xs = d @ input_bytes ys"
  by (induction cap limit xs s rule: next_input.induct)
     (auto split: if_splits option.splits)

text \<open>Limits and directories of a server do not change.\<close>

definition same_setup :: "WebServer \<Rightarrow> WebServer \<Rightarrow> bool" where
  "same_setup s s' \<longleftrightarrow> wv_max_file_size s' = wv_max_file_size s \<and> wv_receive_dir s' = wv_receive_dir s
     \<and> wv_share_manifest s' = wv_share_manifest s \<and> wv_token s' = wv_token s \<and> wv_pin s' = wv_pin s"

lemma same_setup_refl [simp]: "same_setup s s"
  by (simp add: same_setup_def)

lemma same_setup_trans: "same_setup s s' \<Longrightarrow> same_setup s' s'' \<Longrightarrow> same_setup s s''"
  by (simp add: same_setup_def)

named_theorems setup_simps \<open>operations that keep the setup of a server\<close>

lemma same_setup_bump [simp, setup_simps]: "same_setup s (bump_activity s)"
  by (simp add: same_setup_def bump_activity_def)

lemma same_setup_time [simp, setup_simps]: "same_setup s (pass_time d s)"
  by (simp add: same_setup_def pass_time_def)

lemma same_setup_count [simp, setup_simps]: "same_setup s (count_download s)"
  by (simp add: same_setup_def count_download_def web_stop_def Let_def split: option.splits)

lemma same_setup_action [simp, setup_simps]: "same_setup s (run_action a s)"
proof (cases a)
  case WaCountDownload
  then show ?thesis by simp
qed (auto simp: same_setup_def respond_to_request_def set_auto_accept_def web_stop_def bump_activity_def check_blocked_def
    record_failure_def insert_request_def transfer_guard_new_def transfer_guard_drop_def Let_def
    split: option.splits if_splits prod.splits)

lemma next_input_setup: "next_input cap limit xs s = (r, ys, s') \<Longrightarrow> same_setup s s'"
proof (induction cap limit xs s arbitrary: r ys s' rule: next_input.induct)
  case (2 cap limit a xs s)
  then show ?case using same_setup_trans [OF same_setup_action] by auto
next
  case (3 cap limit d xs s)
  show ?case
  proof (cases limit)
    case None
    then show ?thesis using 3 same_setup_trans [OF same_setup_time [of s d]] by auto
  next
    case (Some l)
    then show ?thesis using 3 same_setup_trans [OF same_setup_time [of s d]] by (cases "l \<le> d") auto
  qed
qed (auto split: if_splits)

lemma wc_read_data:
  assumes "wc_read cap limit c = (ReadData d, c')" "d \<noteq> []"
  shows "input_bytes (wc_in c) = d @ input_bytes (wc_in c')" "wc_world c' = wc_world c"
    "same_setup (wc_server c) (wc_server c')"
  using assms next_input_bytes [OF _ assms(2)] next_input_setup [of cap limit]
  by (auto simp: wc_read_def split: prod.splits)

lemma wc_read_world: "wc_read cap limit c = (r, c') \<Longrightarrow> wc_world c' = wc_world c \<and> same_setup (wc_server c) (wc_server c')"
  using next_input_setup [of cap limit] by (auto simp: wc_read_def split: prod.splits)

lemma wc_world_write [simp]:
  "wc_world (snd (wc_write_all dl b c)) = wc_world c" "wc_server (snd (wc_write_all dl b c)) = wc_server c"
  by (auto simp: wc_write_all_def take_write_fault_def wc_put_def split: list.splits option.splits web_fault.splits)

lemma io_then_keep:
  assumes "g (snd m) = k" "\<And>x c. g c = k \<Longrightarrow> g (snd (f x c)) = k"
  shows "g (snd (io_then m f)) = k"
  using io_then_inv [where P = "\<lambda>c. g c = k"] assms by blast

lemmas io_then_world = io_then_keep [where g = wc_world]
lemmas io_then_server = io_then_keep [where g = wc_server]

lemma wc_world_response [simp]:
  "wc_world (snd (send_response st ct body c)) = wc_world c" "wc_server (snd (send_response st ct body c)) = wc_server c"
  unfolding send_response_def wc_flush_def by (auto intro!: io_then_world io_then_server)

lemma wc_world_error [simp]:
  "wc_world (snd (send_web_error st m c)) = wc_world c" "wc_server (snd (send_web_error st m c)) = wc_server c"
  by (simp_all add: send_web_error_def)

section \<open>The body\<close>

text \<open>Effect of storing a chunk, and when it succeeds.\<close>

lemma web_io_cases:
  assumes "web_io f c = (r, c')"
  obtains r0 w where "f (wc_world c) = (r0, w)" "r = map_err WeIo r0" "c' = c\<lparr>wc_world := w\<rparr>"
  using assms by (auto simp: web_io_def split: prod.splits)

lemma store_chunk_effect:
  assumes "store_chunk p d t c = (r, c')"
  shows "same_setup (wc_server c) (wc_server c')" "\<forall>q. q \<noteq> p \<longrightarrow> fs_lookup q (wc_world c') = fs_lookup q (wc_world c)"
    "dirs (wc_world c') = dirs (wc_world c)"
    "r = Inr (Some t') \<Longrightarrow> t' = t + of_nat (length d) \<and> t' \<le> wv_max_file_size (wc_server c)
       \<and> fs_lookup p (wc_world c') = map_option (\<lambda>b. b @ d) (fs_lookup p (wc_world c))"
proof -
  have *: "same_setup (wc_server c) (wc_server c') \<and> (\<forall>q. q \<noteq> p \<longrightarrow> fs_lookup q (wc_world c') = fs_lookup q (wc_world c))
     \<and> dirs (wc_world c') = dirs (wc_world c)
     \<and> (r = Inr (Some t') \<longrightarrow> t' = t + of_nat (length d) \<and> t' \<le> wv_max_file_size (wc_server c)
       \<and> fs_lookup p (wc_world c') = map_option (\<lambda>b. b @ d) (fs_lookup p (wc_world c)))"
  proof (cases "t + of_nat (length d) > wv_max_file_size (wc_server c)")
    case True
    obtain r0 c0 where e: "send_web_error ''413 Payload Too Large'' ''File size exceeds limit'' c = (r0, c0)" by fastforce
    then have "wc_world c0 = wc_world c" "wc_server c0 = wc_server c"
      by (metis snd_conv wc_world_error(1), metis snd_conv wc_world_error(2))
    then show ?thesis using assms True e by (cases r0) (auto simp: store_chunk_def)
  next
    case False
    obtain r0 w where f: "fs_write_all p d (wc_world c) = (r0, w)" by fastforce
    show ?thesis
      using fs_write_all_effect [OF f] assms False f
      by (cases r0) (auto simp: store_chunk_def Let_def web_io_def not_less)
  qed
  then show "same_setup (wc_server c) (wc_server c')" "\<forall>q. q \<noteq> p \<longrightarrow> fs_lookup q (wc_world c') = fs_lookup q (wc_world c)"
    "dirs (wc_world c') = dirs (wc_world c)"
    "r = Inr (Some t') \<Longrightarrow> t' = t + of_nat (length d) \<and> t' \<le> wv_max_file_size (wc_server c)
       \<and> fs_lookup p (wc_world c') = map_option (\<lambda>b. b @ d) (fs_lookup p (wc_world c))"
    by auto
qed

definition prefix_stored :: "abspath \<Rightarrow> nat \<Rightarrow> bytes \<Rightarrow> u64 \<Rightarrow> web_conn \<Rightarrow> u64 \<Rightarrow> bytes \<Rightarrow> web_conn \<Rightarrow> bool" where
  "prefix_stored p k buffer t c t' buffer' c' \<longleftrightarrow> buffer' = drop k buffer \<and> t' = t + of_nat k
     \<and> fs_lookup p (wc_world c') = map_option (\<lambda>b. b @ take k buffer) (fs_lookup p (wc_world c))"

lemma store_safe_prefix_effect:
  assumes "store_safe_prefix p n buffer t c = (r, c')"
  shows "same_setup (wc_server c) (wc_server c') \<and> (\<forall>q. q \<noteq> p \<longrightarrow> fs_lookup q (wc_world c') = fs_lookup q (wc_world c))
    \<and> dirs (wc_world c') = dirs (wc_world c)
    \<and> (r = Inr (Some (t', buffer')) \<longrightarrow> prefix_stored p (length buffer - n) buffer t c t' buffer' c')"
proof (cases "length buffer > n")
  case True
  let ?k = "length buffer - n"
  obtain r0 c0 where s: "store_chunk p (take ?k buffer) t c = (r0, c0)" by fastforce
  show ?thesis
    using store_chunk_effect(1-3) [OF s] store_chunk_effect(4) [OF s, of t'] assms True s
    by (cases r0) (auto simp: store_safe_prefix_def prefix_stored_def)
next
  case False
  then show ?thesis using assms by (auto simp: store_safe_prefix_def prefix_stored_def option.map_ident)
qed

text \<open>One turn of the loop that reads on.\<close>

lemma needle_nonempty [simp]: "boundary_needle b \<noteq> []"
  by (simp add: boundary_needle_def text_bytes_def crlf_def)

definition upload_reads_on :: "abspath \<Rightarrow> string \<Rightarrow> bytes \<Rightarrow> u64 \<Rightarrow> web_conn \<Rightarrow> u64 \<Rightarrow> bytes \<Rightarrow> bytes \<Rightarrow> web_conn \<Rightarrow> web_conn \<Rightarrow> bool" where
  "upload_reads_on p b buffer t c t1 buffer1 d c1 c2 \<longleftrightarrow>
     find_sub (boundary_needle b) buffer = None \<and> \<not> (t = 0 \<and> prefix (alt_needle b) buffer)
     \<and> store_safe_prefix p (length (boundary_needle b)) buffer t c = (Inr (Some (t1, buffer1)), c1)
     \<and> wc_read BUF_SIZE (Some CHUNK_IO_TIMEOUT) c1 = (ReadData d, c2) \<and> d \<noteq> []"

lemma upload_loop_induct [consumes 1, case_names Found Alt Stop Read]:
  assumes "upload_loop p b buffer t c = (r, c')"
    and found: "\<And>buffer t c pos. find_sub (boundary_needle b) buffer = Some pos
      \<Longrightarrow> (if take pos buffer \<noteq> [] then store_chunk p (take pos buffer) t c else (Inr (Some t), c)) = (r, c')
      \<Longrightarrow> P buffer t c"
    and alt: "\<And>buffer t c. find_sub (boundary_needle b) buffer = None \<Longrightarrow> t = 0 \<Longrightarrow> prefix (alt_needle b) buffer
      \<Longrightarrow> r = Inr (Some t) \<Longrightarrow> c' = c \<Longrightarrow> P buffer t c"
    and stop: "\<And>buffer t c r0 c1. store_safe_prefix p (length (boundary_needle b)) buffer t c = (r0, c1)
      \<Longrightarrow> wc_world c' = wc_world c1 \<Longrightarrow> same_setup (wc_server c1) (wc_server c')
      \<Longrightarrow> (\<forall>n. r \<noteq> Inr (Some n)) \<Longrightarrow> P buffer t c"
    and reads: "\<And>buffer t c t1 buffer1 d c1 c2. upload_reads_on p b buffer t c t1 buffer1 d c1 c2
      \<Longrightarrow> P (buffer1 @ d) t1 (on_server bump_activity c2) \<Longrightarrow> P buffer t c"
  shows "P buffer t c"
  using assms(1)
proof (induction "input_size (wc_in c)" arbitrary: buffer t c rule: less_induct)
  case less
  show ?case
  proof (cases "find_sub (boundary_needle b) buffer")
    case (Some pos)
    then show ?thesis using less.prems found by (simp add: upload_loop.simps [of p b buffer t c])
  next
    case None
    show ?thesis
    proof (cases "t = 0 \<and> prefix (alt_needle b) buffer")
      case True
      then have "(r, c') = (Inr (Some t), c)" using less.prems None by (simp add: upload_loop.simps [of p b buffer])
      then show ?thesis using alt [OF None] True by simp
    next
      case no_alt: False
      obtain r0 c1 where s: "store_safe_prefix p (length (boundary_needle b)) buffer t c = (r0, c1)" by fastforce
      obtain r1 c2 where d: "wc_read BUF_SIZE (Some CHUNK_IO_TIMEOUT) c1 = (r1, c2)" by fastforce
      note loop = less.prems [unfolded upload_loop.simps [of p b buffer t c], simplified None no_alt s d]
      note read_keeps = wc_read_world [OF d]
      show ?thesis
      proof (cases "\<exists>t1 buffer1 x. r0 = Inr (Some (t1, buffer1)) \<and> r1 = ReadData x \<and> x \<noteq> []")
        case True
        then obtain t1 buffer1 x where on: "upload_reads_on p b buffer t c t1 buffer1 x c1 c2"
            and r0: "r0 = Inr (Some (t1, buffer1))" "r1 = ReadData x" "x \<noteq> []"
          using None no_alt s d by (auto simp: upload_reads_on_def)
        have "input_size (wc_in c2) < input_size (wc_in c)"
          using wc_read_size [of _ _ c1 x c2] d r0 wc_in_store_eq [OF s] by simp
        moreover have "upload_loop p b (buffer1 @ x) t1 (on_server bump_activity c2) = (r, c')"
          using loop r0 d by simp
        ultimately show ?thesis using less.hyps reads [OF on] by simp
      next
        case False
        then have "wc_world c' = wc_world c1 \<and> same_setup (wc_server c1) (wc_server c') \<and> (\<forall>n. r \<noteq> Inr (Some n))"
          using loop d read_keeps by (auto split: sum.splits option.splits prod.splits read_result.splits if_splits)
        then show ?thesis using stop [OF s] by blast
      qed
    qed
  qed
qed

text \<open>The temporary file is the only one that changes, and it holds what comes before the boundary.\<close>

lemma upload_loop_frame:
  assumes "upload_loop p b buffer t c = (r, c')"
  shows "same_setup (wc_server c) (wc_server c') \<and> (\<forall>q. q \<noteq> p \<longrightarrow> fs_lookup q (wc_world c') = fs_lookup q (wc_world c))
    \<and> dirs (wc_world c') = dirs (wc_world c)"
  using assms
proof (induction rule: upload_loop_induct)
  case (Found buffer t c pos)
  then show ?case using store_chunk_effect(1-3) [of p "take pos buffer" t c] by (auto split: if_splits)
next
  case (Alt buffer t c)
  then show ?case by simp
next
  case (Stop buffer t c r0 c1)
  then show ?case
    using store_safe_prefix_effect [OF Stop(1)] same_setup_trans [of "wc_server c" "wc_server c1" "wc_server c'"] by simp
next
  case (Read buffer t c t1 buffer1 d c1 c2)
  then have on: "store_safe_prefix p (length (boundary_needle b)) buffer t c = (Inr (Some (t1, buffer1)), c1)"
      "wc_read BUF_SIZE (Some CHUNK_IO_TIMEOUT) c1 = (ReadData d, c2)"
    by (auto simp: upload_reads_on_def)
  have s: "same_setup (wc_server c) (wc_server c1)" "same_setup (wc_server c1) (wc_server c2)"
    using store_safe_prefix_effect [OF on(1)] wc_read_world [OF on(2)] by auto
  have "same_setup (bump_activity (wc_server c2)) (wc_server c')" using Read.IH by simp
  then have "same_setup (wc_server c) (wc_server c')"
    using s same_setup_bump same_setup_trans by blast
  then show ?case
    using Read.IH store_safe_prefix_effect [OF on(1)] wc_read_world [OF on(2)] by simp
qed

lemma upload_loop_exact:
  assumes "upload_loop p b buffer t c = (r, c')" "r = Inr (Some n)"
  shows "t = of_nat k \<Longrightarrow> k + length (buffer @ input_bytes (wc_in c)) < 2 ^ 64
    \<Longrightarrow> (k = 0 \<longrightarrow> \<not> prefix (alt_needle b) (buffer @ input_bytes (wc_in c)))
    \<Longrightarrow> \<exists>pos. find_sub (boundary_needle b) (buffer @ input_bytes (wc_in c)) = Some pos \<and> n = of_nat (k + pos)
      \<and> fs_lookup p (wc_world c') = map_option (\<lambda>old. old @ take pos (buffer @ input_bytes (wc_in c))) (fs_lookup p (wc_world c))"
  using assms(1)
proof (induction arbitrary: k rule: upload_loop_induct)
  case (Found buffer t c pos)
  have "find_sub (boundary_needle b) (buffer @ input_bytes (wc_in c)) = Some pos"
    using find_sub_append [OF Found(1)] by simp
  moreover have "pos \<le> length buffer" using Found(1) by (simp add: find_sub_Some)
  ultimately show ?case
    using Found(2,3) assms(2) store_chunk_effect(4) [of p "take pos buffer" t c r c' n]
    by (auto simp: option.map_ident split: if_splits)
next
  case (Alt buffer t c)
  have "k = 0" using Alt(2,6,7) by (simp add: unat_of_nat_u64 word_unat_eq_iff)
  then show ?case using Alt(3,8) prefix_append by blast
next
  case (Stop buffer t c r0 c1)
  then show ?case using assms(2) by auto
next
  case (Read buffer t c t1 buffer1 d c1 c2)
  let ?n = "boundary_needle b"
  let ?j = "length buffer - length ?n"
  have on: "find_sub ?n buffer = None"
      "store_safe_prefix p (length ?n) buffer t c = (Inr (Some (t1, buffer1)), c1)"
      "wc_read BUF_SIZE (Some CHUNK_IO_TIMEOUT) c1 = (ReadData d, c2)" "d \<noteq> []"
    using Read(1) by (auto simp: upload_reads_on_def)
  have st: "buffer1 = drop ?j buffer" "t1 = t + of_nat ?j"
      "fs_lookup p (wc_world c1) = map_option (\<lambda>o1. o1 @ take ?j buffer) (fs_lookup p (wc_world c))"
    using store_safe_prefix_effect [OF on(2)] by (auto simp: prefix_stored_def)
  have rest: "input_bytes (wc_in c) = d @ input_bytes (wc_in c2)" "wc_world c2 = wc_world c1"
    using wc_read_data [OF on(3,4)] wc_in_store_eq [OF on(2)] by auto
  have on_c2: "wc_in (on_server bump_activity c2) = wc_in c2" "wc_world (on_server bump_activity c2) = wc_world c2"
    by simp_all
  let ?rest = "(buffer1 @ d) @ input_bytes (wc_in c2)"
  have cut: "buffer @ input_bytes (wc_in c) = take ?j buffer @ ?rest" by (simp add: st(1) rest(1))
  have "t1 = of_nat (k + ?j)" using st(2) Read.prems(1) by simp
  moreover have "k + ?j + length ?rest < 2 ^ 64" using Read.prems(2) unfolding cut by simp
  moreover have "k + ?j = 0 \<longrightarrow> \<not> prefix (alt_needle b) ?rest"
    using Read.prems(3) unfolding cut by (cases "?j = 0") simp_all
  ultimately obtain pos where pos: "find_sub ?n ?rest = Some pos" "n = of_nat (k + ?j + pos)"
      "fs_lookup p (wc_world c') = map_option (\<lambda>old. old @ take pos ?rest) (fs_lookup p (wc_world c2))"
    using Read.IH [of "k + ?j", unfolded on_c2] by blast
  have "find_sub ?n (buffer @ input_bytes (wc_in c)) = Some (?j + pos)"
  proof (cases "length ?n \<le> length buffer")
    case True
    then have "find_sub ?n (buffer @ (d @ input_bytes (wc_in c2))) = map_option (\<lambda>i. ?j + i) (find_sub ?n (drop ?j buffer @ (d @ input_bytes (wc_in c2))))"
      by (intro find_sub_drop on(1)) auto
    then show ?thesis using pos(1) by (simp add: st(1) rest(1))
  next
    case False
    then show ?thesis using pos(1) by (simp add: st(1) rest(1))
  qed
  moreover have "take (?j + pos) (buffer @ input_bytes (wc_in c)) = take ?j buffer @ take pos ?rest"
    unfolding cut by simp
  ultimately show ?case
    using pos(2,3) st(3) rest(2) by (auto simp: option.map_comp comp_def add.assoc)
qed

text \<open>A client that keeps sending: no error, and less than the deadline of waiting in all.\<close>

fun input_delay :: "web_input list \<Rightarrow> nat" where
  "input_delay [] = 0"
| "input_delay (WiWait d # xs) = d + input_delay xs"
| "input_delay (x # xs) = input_delay xs"

definition prompt_input :: "web_input list \<Rightarrow> bool" where
  "prompt_input xs \<longleftrightarrow> (\<forall>e. WiError e \<notin> set xs) \<and> input_delay xs < CHUNK_IO_TIMEOUT"

lemma next_input_prompt:
  assumes "\<forall>e. WiError e \<notin> set xs" "input_delay xs < l" "input_bytes xs \<noteq> []" "0 < cap"
  shows "\<exists>d ys s'. next_input cap (Some l) xs s = (ReadData d, ys, s') \<and> d \<noteq> []
    \<and> (\<forall>e. WiError e \<notin> set ys) \<and> input_delay ys \<le> input_delay xs"
  using assms
proof (induction cap "Some l" xs s arbitrary: l rule: next_input.induct)
  case (3 cap d xs s)
  then have "\<not> l \<le> d" by auto
  moreover from this have "\<exists>x ys s'. next_input cap (Some (l - d)) xs (pass_time d s) = (ReadData x, ys, s') \<and> x \<noteq> []
      \<and> (\<forall>e. WiError e \<notin> set ys) \<and> input_delay ys \<le> input_delay xs"
    using 3 by (intro "3.hyps") auto
  ultimately show ?case by fastforce
qed auto

lemma wc_read_prompt:
  assumes "prompt_input (wc_in c)" "input_bytes (wc_in c) \<noteq> []"
  shows "\<exists>d c'. wc_read BUF_SIZE (Some CHUNK_IO_TIMEOUT) c = (ReadData d, c') \<and> d \<noteq> [] \<and> prompt_input (wc_in c')"
proof -
  obtain d ys s' where "next_input BUF_SIZE (Some CHUNK_IO_TIMEOUT) (wc_in c) (wc_server c) = (ReadData d, ys, s')" "d \<noteq> []"
      "\<forall>e. WiError e \<notin> set ys" "input_delay ys \<le> input_delay (wc_in c)"
    using next_input_prompt [of "wc_in c" CHUNK_IO_TIMEOUT BUF_SIZE "wc_server c"] assms
    by (auto simp: prompt_input_def BUF_SIZE_def)
  then show ?thesis using assms(1) by (auto simp: wc_read_def prompt_input_def)
qed

lemma fs_write_all_no_faults:
  "io_faults w = [] \<Longrightarrow> fs_write_all p d w = (Inr (), fs_extend p d w)"
  by (simp add: fs_write_all_def)

lemma store_chunk_ok:
  assumes "io_faults (wc_world c) = []" "t + of_nat (length d) \<le> wv_max_file_size (wc_server c)"
  shows "store_chunk p d t c = (Inr (Some (t + of_nat (length d))),
    on_server bump_activity (c\<lparr>wc_world := fs_extend p d (wc_world c)\<rparr>))"
proof -
  have "\<not> wv_max_file_size (wc_server c) < t + of_nat (length d)" using assms(2) by (simp add: linorder_not_less)
  then show ?thesis using assms(1) by (simp only: store_chunk_def Let_def if_False) (simp add: web_io_def fs_write_all_no_faults)
qed

lemma store_safe_prefix_ok:
  assumes "io_faults (wc_world c) = []" "t + of_nat (length buffer - n) \<le> wv_max_file_size (wc_server c)"
  shows "\<exists>c1. store_safe_prefix p n buffer t c = (Inr (Some (t + of_nat (length buffer - n), drop (length buffer - n) buffer)), c1)
    \<and> io_faults (wc_world c1) = []"
  using assms store_chunk_ok [of c t "take (length buffer - n) buffer" p]
  by (cases "length buffer > n") (auto simp: store_safe_prefix_def Let_def not_less)

lemma upload_loop_returns:
  fixes k pos :: nat
  assumes "find_sub (boundary_needle b) (buffer @ input_bytes (wc_in c)) = Some pos"
    and "io_faults (wc_world c) = []" "prompt_input (wc_in c)" "k + pos \<le> unat (wv_max_file_size (wc_server c))"
    and "k = 0 \<longrightarrow> \<not> prefix (alt_needle b) (buffer @ input_bytes (wc_in c))"
  shows "\<exists>c'. upload_loop p b buffer (of_nat k) c = (Inr (Some (of_nat (k + pos))), c')"
  using assms
proof (induction "input_size (wc_in c)" arbitrary: buffer k pos c rule: less_induct)
  case less
  let ?n = "boundary_needle b" and ?M = "wv_max_file_size (wc_server c)"
  have fits: "(of_nat k + of_nat m :: u64) \<le> ?M" if "m \<le> pos" for m
  proof -
    have "k + m \<le> unat ?M" using that less.prems(4) by simp
    then have "unat (of_nat (k + m) :: u64) = k + m"
      using unsigned_less [where ?'a = nat, of ?M] by (intro unat_of_nat_u64) simp
    then show ?thesis using \<open>k + m \<le> unat ?M\<close> by (simp add: word_le_nat_alt)
  qed
  show ?case
  proof (cases "find_sub ?n buffer")
    case (Some i)
    then have "i = pos" "pos \<le> length buffer"
      using find_sub_append [OF Some, of "input_bytes (wc_in c)"] less.prems(1) by (auto simp: find_sub_Some)
    then show ?thesis
      using Some store_chunk_ok [OF less.prems(2), of "of_nat k" "take pos buffer" p] fits [of pos]
      by (cases "take pos buffer = []") (auto simp: upload_loop.simps [of p b buffer] take_eq_Nil)
  next
    case None
    let ?j = "length buffer - length ?n"
    have late: "?j \<le> pos"
    proof (rule ccontr)
      assume "\<not> ?j \<le> pos"
      then have "pos + length ?n \<le> length buffer" by auto
      moreover have "prefix ?n (drop pos (buffer @ input_bytes (wc_in c)))"
        using less.prems(1) by (simp add: find_sub_Some)
      ultimately have "prefix ?n (drop pos buffer)"
        by (auto intro: prefix_length_prefix [of _ "drop pos buffer @ input_bytes (wc_in c)"])
      then show False using None \<open>pos + length ?n \<le> length buffer\<close> by (auto simp: find_sub_None)
    qed
    have rest: "input_bytes (wc_in c) \<noteq> []" using None less.prems(1) by auto
    obtain c1 where st: "store_safe_prefix p (length ?n) buffer (of_nat k) c = (Inr (Some (of_nat k + of_nat ?j, drop ?j buffer)), c1)"
        "io_faults (wc_world c1) = []"
      using store_safe_prefix_ok [OF less.prems(2) fits [OF late]] by blast
    have in1: "wc_in c1 = wc_in c" using wc_in_store_eq [OF st(1)] .
    obtain d c2 where rd: "wc_read BUF_SIZE (Some CHUNK_IO_TIMEOUT) c1 = (ReadData d, c2)" "d \<noteq> []" "prompt_input (wc_in c2)"
      using wc_read_prompt [of c1] less.prems(3) rest in1 by auto
    note got = wc_read_data [OF rd(1,2)]
    have limit: "wv_max_file_size (wc_server c2) = ?M"
      using store_safe_prefix_effect [OF st(1)] got(3) by (simp add: same_setup_def)
    let ?rest = "(drop ?j buffer @ d) @ input_bytes (wc_in c2)"
    have cut: "buffer @ input_bytes (wc_in c) = take ?j buffer @ ?rest" using got(1) in1 by simp
    have found: "find_sub ?n ?rest = Some (pos - ?j)"
    proof (cases "length ?n \<le> length buffer")
      case True
      then have "find_sub ?n (buffer @ input_bytes (wc_in c)) = map_option (\<lambda>i. ?j + i) (find_sub ?n (drop ?j buffer @ input_bytes (wc_in c)))"
        by (intro find_sub_drop None) auto
      then show ?thesis
        using less.prems(1) got(1) in1 by (cases "find_sub ?n (drop ?j buffer @ input_bytes (wc_in c))") auto
    next
      case False
      then show ?thesis using less.prems(1) got(1) in1 by simp
    qed
    have "\<exists>c'. upload_loop p b (drop ?j buffer @ d) (of_nat (k + ?j)) (on_server bump_activity c2)
        = (Inr (Some (of_nat (k + ?j + (pos - ?j)))), c')"
    proof (rule less.hyps)
      show "input_size (wc_in (on_server bump_activity c2)) < input_size (wc_in c)"
        using wc_read_size [OF rd(1,2)] in1 by simp
      show "find_sub ?n ((drop ?j buffer @ d) @ input_bytes (wc_in (on_server bump_activity c2))) = Some (pos - ?j)"
        using found by simp
      show "io_faults (wc_world (on_server bump_activity c2)) = []" using st(2) got(2) by simp
      show "prompt_input (wc_in (on_server bump_activity c2))" using rd(3) by simp
      show "k + ?j + (pos - ?j) \<le> unat (wv_max_file_size (wc_server (on_server bump_activity c2)))"
        using late less.prems(4) limit by (simp add: bump_activity_def)
      show "k + ?j = 0 \<longrightarrow> \<not> prefix (alt_needle b) ((drop ?j buffer @ d) @ input_bytes (wc_in (on_server bump_activity c2)))"
        using less.prems(5) unfolding cut by (cases "?j = 0") simp_all
    qed
    moreover have "\<not> ((of_nat k :: u64) = 0 \<and> prefix (alt_needle b) buffer)"
    proof
      assume a: "(of_nat k :: u64) = 0 \<and> prefix (alt_needle b) buffer"
      have "k \<le> unat ?M" using less.prems(4) by simp
      then have "unat (of_nat k :: u64) = k"
        using unsigned_less [where ?'a = nat, of ?M] by (intro unat_of_nat_u64) simp
      then have "k = 0" using a by simp
      then show False using a less.prems(5) by (auto simp: prefix_append)
    qed
    ultimately show ?thesis
      using None st(1) rd(1,2) late by (auto simp: upload_loop.simps [of p b buffer])
  qed
qed

text \<open>
  C31 The streamed upload is the textbook one: a body that does not itself begin with the delimiter is
  stored up to the first \<open>CR LF -- boundary\<close>, byte by byte, wherever the reads of the socket cut it and
  whatever the other connections do in between; no other file changes. And it is stored: when the
  delimiter comes, the part before it is within the size limit, no file operation fails and the client
  never pauses for 30 seconds, the loop returns that size.
\<close>

theorem upload_body_exact:
  assumes "fs_lookup p (wc_world c) = Some []" "length (buffer @ input_bytes (wc_in c)) < 2 ^ 64"
    and "\<not> prefix (alt_needle b) (buffer @ input_bytes (wc_in c))"
  shows "(\<forall>n c'. upload_loop p b buffer 0 c = (Inr (Some n), c') \<longrightarrow>
        (\<exists>pos. find_sub (boundary_needle b) (buffer @ input_bytes (wc_in c)) = Some pos \<and> n = of_nat pos
          \<and> fs_lookup p (wc_world c') = Some (take pos (buffer @ input_bytes (wc_in c)))
          \<and> (\<forall>q. q \<noteq> p \<longrightarrow> fs_lookup q (wc_world c') = fs_lookup q (wc_world c))))
    \<and> (\<forall>pos. find_sub (boundary_needle b) (buffer @ input_bytes (wc_in c)) = Some pos
          \<and> io_faults (wc_world c) = [] \<and> prompt_input (wc_in c) \<and> pos \<le> unat (wv_max_file_size (wc_server c))
        \<longrightarrow> fst (upload_loop p b buffer 0 c) = Inr (Some (of_nat pos)))"
proof (intro conjI allI impI)
  fix n c' assume loop: "upload_loop p b buffer 0 c = (Inr (Some n), c')"
  show "\<exists>pos. find_sub (boundary_needle b) (buffer @ input_bytes (wc_in c)) = Some pos \<and> n = of_nat pos
      \<and> fs_lookup p (wc_world c') = Some (take pos (buffer @ input_bytes (wc_in c)))
      \<and> (\<forall>q. q \<noteq> p \<longrightarrow> fs_lookup q (wc_world c') = fs_lookup q (wc_world c))"
    using upload_loop_exact [OF loop refl, of 0] upload_loop_frame [OF loop] assms by auto
next
  fix pos
  assume "find_sub (boundary_needle b) (buffer @ input_bytes (wc_in c)) = Some pos
      \<and> io_faults (wc_world c) = [] \<and> prompt_input (wc_in c) \<and> pos \<le> unat (wv_max_file_size (wc_server c))"
  then show "fst (upload_loop p b buffer 0 c) = Inr (Some (of_nat pos))"
    using upload_loop_returns [of b buffer c pos 0 p] assms(3) by auto
qed

text \<open>A server and a connection to apply the theorems to.\<close>

definition sample_server :: WebServer where
  "sample_server = new_with_expiry ''secret'' 0 0 [''home''] 17396 1000 (Some ''1234'') ''AA'' None (seconds 600) None"

definition sample_conn :: "web_input list \<Rightarrow> world \<Rightarrow> web_conn" where
  "sample_conn input w = \<lparr>wc_in = input, wc_out = [], wc_write_faults = [], wc_random = (\<lambda>_. Some (\<lambda>_. 7)),
     wc_draws = 0, wc_server = sample_server, wc_world = w\<rparr>"

definition sample_pieces :: "web_input list" where
  "sample_pieces = [WiData [65, 66, 13, 10, 45], WiOther (WaRecordFailure ''10.0.0.9''), WiWait (seconds 2),
     WiData [45, 88, 45, 45, 13, 10]]"

definition sample_world :: world where
  "sample_world = \<lparr>files = [([''home'', ''t''], [])], dirs = [[], [''home'']], io_faults = []\<rparr>"

theorem upload_body_exact_witness:
  "fst (upload_loop [''home'', ''t''] ''X'' [64] 0 (sample_conn sample_pieces sample_world)) = Inr (Some 3)"
proof -
  have "boundary_needle ''X'' = [13, 10, 45, 45, 88]" "alt_needle ''X'' = [45, 45, 88]"
    by (simp_all add: boundary_needle_def alt_needle_def text_bytes_def crlf_def)
  then show ?thesis
    using upload_body_exact [of "[''home'', ''t'']" "sample_conn sample_pieces sample_world" "[64]" "''X''"]
    by (simp add: sample_conn_def sample_pieces_def sample_world_def sample_server_def new_with_expiry_def
        fs_lookup_def prompt_input_def CHUNK_IO_TIMEOUT_def seconds_def)
qed

section \<open>The search for a free name ends\<close>

lemma path_join_plain: "plain_name f \<Longrightarrow> path_join d f = d @ [f]"
  by (simp add: path_join_def plain_name_def split_on_single)

lemma dec_string_inj: "dec_string m = dec_string n \<longleftrightarrow> m = n"
  using dec_string_value by metis

lemma dec_int_chars: "CHR ''/'' \<notin> set (dec_int n) \<and> CHR 0x00 \<notin> set (dec_int n)"
  using dec_string_graphic [of "CHR ''/''"] dec_string_graphic [of "CHR 0x00"] by (auto simp: dec_int_def char_code_def)

lemma numbered_text_plain:
  assumes "plain_name f"
  shows "plain_name (name_stem f @ '' ('' @ dec_int n @ '')''
    @ (case name_extension f of None \<Rightarrow> [] | Some e \<Rightarrow> CHR ''.'' # e))"
proof -
  let ?ext = "case name_extension f of None \<Rightarrow> [] | Some e \<Rightarrow> CHR ''.'' # e"
  have parts: "f = name_stem f @ ?ext"
    using name_split [of f] by (cases "name_extension f") (auto simp: name_stem_def)
  have "CHR ''/'' \<notin> set (name_stem f @ ?ext) \<and> CHR 0x00 \<notin> set (name_stem f @ ?ext)"
    using assms parts by (simp add: plain_name_def)
  moreover have "name_stem f @ '' ('' @ dec_int n @ '')'' @ ?ext \<notin> {[], ''.'', ''..''}"
  proof -
    have "CHR ''('' \<in> set (name_stem f @ '' ('' @ dec_int n @ '')'' @ ?ext)" by simp
    then show ?thesis by auto
  qed
  ultimately show "plain_name (name_stem f @ '' ('' @ dec_int n @ '')'' @ ?ext)"
    using dec_int_chars [of n] by (auto simp: plain_name_def)
qed

lemma numbered_plain:
  assumes "plain_name f"
  shows "numbered_name d f n = d @ [name_stem f @ '' ('' @ dec_int n @ '')''
    @ (case name_extension f of None \<Rightarrow> [] | Some e \<Rightarrow> CHR ''.'' # e)]"
  using path_join_plain [OF numbered_text_plain [OF assms]] by (simp add: numbered_name_def)

lemma i32_wrap_small: "0 \<le> n \<Longrightarrow> n < 2 ^ 31 \<Longrightarrow> i32_wrap n = n"
  by (simp add: i32_wrap_def)

lemma free_name_unroll:
  assumes "\<forall>i<m. fs_exists (numbered_name d f (int (start + i))) w" "\<not> fs_exists (numbered_name d f (int (start + m))) w"
    and "start + m < 2 ^ 31"
  shows "free_name d f (int start) w = Some (numbered_name d f (int (start + m)))"
  using assms
proof (induction m arbitrary: start)
  case 0
  then show ?case by (subst free_name.simps) (simp add: Let_def)
next
  case (Suc m)
  have "fs_exists (numbered_name d f (int start)) w" using Suc.prems(1) by force
  moreover have "i32_wrap (int start + 1) = int (Suc start)" using Suc.prems(3) by (simp add: i32_wrap_small)
  moreover have "free_name d f (int (Suc start)) w = Some (numbered_name d f (int (Suc start + m)))"
  proof (rule Suc.IH)
    show "\<forall>i<m. fs_exists (numbered_name d f (int (Suc start + i))) w"
      using Suc.prems(1) by (metis add_Suc_shift less_Suc_eq_le not_less_eq_eq Suc_leI)
  qed (use Suc.prems in simp_all)
  ultimately show ?case by (subst free_name.simps) (simp add: Let_def)
qed

lemma free_name_fresh: "free_name d f n w = Some p \<Longrightarrow> \<not> fs_exists p w \<and> (\<exists>i. p = numbered_name d f i)"
proof (induction rule: free_name.raw_induct [of "\<lambda>d f n w p. \<not> fs_exists p w \<and> (\<exists>i. p = numbered_name d f i)", rotated, consumes 1])
  case (1 free_name d f n w p)
  then show ?case by (auto simp: Let_def split: if_splits)
qed

lemma fs_exists_finite: "{p. fs_exists p w} \<subseteq> set (map fst (files w) @ dirs w)"
  by (auto simp: fs_exists_def fs_lookup_def dest: map_of_SomeD intro: rev_image_eqI)

text \<open>
  The search for a free name ends: in a world with fewer files and directories than an \<open>i32\<close> counts, a
  finished upload gets a name, it is in the directory it was meant for, and no file or directory has
  it, so nothing is overwritten.
\<close>

theorem upload_name_found:
  assumes "plain_name clean_name" "length (files w) + length (dirs w) < 2 ^ 31 - 1"
  shows "\<exists>dest. final_path target_dir clean_name w = Some dest \<and> \<not> fs_exists dest w \<and> butlast dest = target_dir"
proof (cases "fs_exists (path_join target_dir clean_name) w")
  case False
  then show ?thesis using path_join_plain [OF assms(1)] by (simp add: final_path_def Let_def)
next
  case True
  let ?cand = "\<lambda>i. numbered_name target_dir clean_name (int (1 + i))"
  let ?N = "length (files w) + length (dirs w)"
  have inj: "inj_on ?cand {..?N}"
    by (rule inj_onI) (simp add: numbered_plain [OF assms(1)] dec_int_def nat_add_distrib dec_string_inj)
  have "\<exists>i\<le>?N. \<not> fs_exists (?cand i) w"
  proof (rule ccontr)
    assume "\<not> ?thesis"
    then have "?cand ` {..?N} \<subseteq> set (map fst (files w) @ dirs w)" using fs_exists_finite [of w] by blast
    then have "card (?cand ` {..?N}) \<le> card (set (map fst (files w) @ dirs w))"
      by (intro card_mono) simp_all
    also have "\<dots> \<le> ?N" using card_length [of "map fst (files w) @ dirs w"] by simp
    finally show False using card_image [OF inj] by simp
  qed
  then obtain i where i: "i \<le> ?N" "\<not> fs_exists (?cand i) w" by blast
  define m where "m = (LEAST i. \<not> fs_exists (?cand i) w)"
  have m: "\<not> fs_exists (?cand m) w" "m \<le> i" "\<forall>j<m. fs_exists (?cand j) w"
    unfolding m_def using LeastI [of "\<lambda>i. \<not> fs_exists (?cand i) w", OF i(2)] i(2)
    by (blast, blast intro: Least_le, blast dest: not_less_Least)
  have "free_name target_dir clean_name (int 1) w = Some (?cand m)"
    using m i(1) assms(2) by (intro free_name_unroll) auto
  then have "final_path target_dir clean_name w = Some (?cand m)" using True by (simp add: final_path_def Let_def)
  moreover have "butlast (?cand m) = target_dir" unfolding numbered_plain [OF assms(1)] by simp
  ultimately show ?thesis using m(1) by blast
qed

theorem upload_name_found_witness:
  "\<exists>dest. final_path [''home''] ''t'' sample_world = Some dest \<and> \<not> fs_exists dest sample_world \<and> butlast dest = [''home'']"
  using upload_name_found [of "''t''" sample_world "[''home'']"] by (simp add: plain_name_def sample_world_def)

end
