(* ===== verification/Nxfr_Web_Safety.thy ===== *)
theory Nxfr_Web_Safety
  imports Nxfr_Web_Server Nxfr_Web_Upload_Exact
begin

text \<open>
  What a web client can reach: without a valid credential nothing of the file system, with one the
  inbox only; the rate limit; and the end of the server.
\<close>

section \<open>Code that does not look at files\<close>

text \<open>Replace the file system of a connection, and of a result.\<close>

definition in_world :: "world \<Rightarrow> web_conn \<Rightarrow> web_conn" where
  "in_world w c = c\<lparr>wc_world := w\<rparr>"

definition result_in_world :: "world \<Rightarrow> 'r \<times> web_conn \<Rightarrow> 'r \<times> web_conn" where
  "result_in_world w m = (fst m, in_world w (snd m))"

named_theorems blind_simps \<open>operations that do not look at the file system\<close>

lemma in_world_fields [simp, blind_simps]:
  "wc_server (in_world w c) = wc_server c" "wc_in (in_world w c) = wc_in c" "wc_out (in_world w c) = wc_out c"
  "wc_write_faults (in_world w c) = wc_write_faults c" "wc_random (in_world w c) = wc_random c"
  "wc_draws (in_world w c) = wc_draws c" "wc_world (in_world w c) = w"
  by (simp_all add: in_world_def)

lemma in_world_updates [blind_simps]:
  "wc_server_update f (in_world w c) = in_world w (wc_server_update f c)"
  "wc_in_update g (in_world w c) = in_world w (wc_in_update g c)"
  "wc_out_update h (in_world w c) = in_world w (wc_out_update h c)"
  "wc_write_faults_update i (in_world w c) = in_world w (wc_write_faults_update i c)"
  "wc_draws_update j (in_world w c) = in_world w (wc_draws_update j c)"
  by (simp_all add: in_world_def)

lemma result_in_world_pair [blind_simps]: "(r, in_world w c) = result_in_world w (r, c)"
  by (simp add: result_in_world_def)

lemma fst_result_in_world [simp]: "fst (result_in_world w m) = fst m" "snd (result_in_world w m) = in_world w (snd m)"
  by (simp_all add: result_in_world_def)

lemma io_then_blind [blind_simps]:
  assumes "\<And>x c. f x (in_world w c) = result_in_world w (f x c)"
  shows "io_then (result_in_world w m) f = result_in_world w (io_then m f)"
  using assms by (cases m; cases "fst m") (auto simp: result_in_world_def)

lemma case_blind [blind_simps]:
  assumes "\<And>x c. f x (in_world w c) = result_in_world w (f x c)"
  shows "(case result_in_world w m of (x, c) \<Rightarrow> f x c) = result_in_world w (case m of (x, c) \<Rightarrow> f x c)"
  using assms by (cases m) (simp add: result_in_world_def [of w "(_, _)"])

lemma if_blind [blind_simps]:
  "(if b then result_in_world w m else result_in_world w m') = result_in_world w (if b then m else m')"
  by simp

lemma write_blind [blind_simps]:
  "wc_write_all dl b (in_world w c) = result_in_world w (wc_write_all dl b c)"
  by (simp add: wc_write_all_def take_write_fault_def wc_put_def in_world_def result_in_world_def
      split: list.splits option.splits web_fault.splits)

lemma flush_blind [blind_simps]: "wc_flush dl (in_world w c) = result_in_world w (wc_flush dl c)"
  by (simp add: wc_flush_def blind_simps)

lemma response_blind [blind_simps]:
  "send_response st ct body (in_world w c) = result_in_world w (send_response st ct body c)"
  by (cases "body = []") (simp_all add: send_response_def blind_simps)

lemma error_blind [blind_simps]: "send_web_error st m (in_world w c) = result_in_world w (send_web_error st m c)"
  by (simp add: send_web_error_def blind_simps)

lemma json_blind [blind_simps]: "send_json lib v (in_world w c) = result_in_world w (send_json lib v c)"
  by (simp add: send_json_def blind_simps)

lemma page_blind [blind_simps]: "send_page p (in_world w c) = result_in_world w (send_page p c)"
  by (simp add: send_page_def blind_simps)

lemma token_blind [blind_simps]: "generate_token (in_world w c) = result_in_world w (generate_token c)"
  by (simp add: generate_token_def wc_getrandom_def in_world_def result_in_world_def split: option.splits prod.splits)

lemma read_blind [blind_simps]: "wc_read cap limit (in_world w c) = result_in_world w (wc_read cap limit c)"
  by (simp add: wc_read_def in_world_def result_in_world_def split: prod.splits)

lemma read_headers_blind [blind_simps]: "read_headers buf (in_world w c) = result_in_world w (read_headers buf c)"
proof (induction buf c rule: read_headers.induct)
  case (1 buf c)
  obtain r c1 where rd: "wc_read 1024 (Some HEADER_READ_TIMEOUT) c = (r, c1)" by fastforce
  show ?case
    using 1 [OF rd [symmetric]]
    by (subst (1 2) read_headers.simps)
       (auto simp: rd read_blind result_in_world_def split: read_result.splits option.splits)
qed

lemma route_api_request_blind [blind_simps]:
  "route_api_request lib ip q (in_world w c) = result_in_world w (route_api_request lib ip q c)"
  unfolding route_api_request_def Let_def by (simp add: blind_simps cong: if_cong)

lemma route_request_status_blind [blind_simps]:
  "route_request_status lib q (in_world w c) = result_in_world w (route_request_status lib q c)"
  unfolding route_request_status_def by (simp add: blind_simps split: option.splits)

lemma route_pending_blind [blind_simps]:
  "route_pending lib q (in_world w c) = result_in_world w (route_pending lib q c)"
  unfolding route_pending_def Let_def by (simp add: blind_simps)

lemma route_index_blind [blind_simps]:
  "route_index lib q (in_world w c) = result_in_world w (route_index lib q c)"
  unfolding route_index_def Let_def by (simp add: blind_simps split: option.splits)

lemma route_auth_blind [blind_simps]:
  "route_auth lib ip q (in_world w c) = result_in_world w (route_auth lib ip q c)"
  unfolding route_auth_def by (simp add: blind_simps)

section \<open>Without a credential\<close>

text \<open>
  The connection once its address has been checked, the request it then reads, and whether the request
  presents a valid credential when it has been read.
\<close>

definition admitted :: "IpAddr \<Rightarrow> web_conn \<Rightarrow> web_conn" where
  "admitted ip c = c\<lparr>wc_server := snd (check_blocked ip (bump_activity (wc_server c)))\<rparr>"

definition requested :: "web_lib \<Rightarrow> IpAddr \<Rightarrow> web_conn \<Rightarrow> (web_request \<times> web_conn) option" where
  "requested lib ip c =
     (case read_headers [] (admitted ip c) of
        (Inr (Some (buf, n)), c2) \<Rightarrow>
          (case parse_request lib (take n buf) of Inr q \<Rightarrow> Some (q, c2) | Inl _ \<Rightarrow> None)
      | _ \<Rightarrow> None)"

definition authenticated :: "web_lib \<Rightarrow> web_request \<Rightarrow> WebServer \<Rightarrow> bool" where
  "authenticated lib q s =
     (case bearer_token lib q of Inr hdr \<Rightarrow> token_accepted (or_query_token q hdr) s | Inl _ \<Rightarrow> False)"

lemma route_download_blind:
  assumes "\<not> authenticated lib q (wc_server c)"
  shows "route_download lib q (in_world w c) = result_in_world w (route_download lib q c)"
  using assms
  by (cases "bearer_token lib q"; cases "scan_header lib ''range:'' (wq_headers q)")
     (simp_all add: route_download_def authenticated_def error_blind result_in_world_def [of w "(_, _)"])

lemma route_upload_blind:
  assumes "\<not> authenticated lib q (wc_server c)"
  shows "route_upload lib ip q body (in_world w c) = result_in_world w (route_upload lib ip q body c)"
  using assms
  by (cases "content_length lib (wq_headers q)"; cases "scan_boundary lib (wq_headers q)"; cases "bearer_token lib q")
     (simp_all add: route_upload_def authenticated_def error_blind in_world_updates result_in_world_def [of w "(_, _)"])

lemma route_request_blind:
  assumes "\<not> authenticated lib q (wc_server c)"
  shows "route_request lib ip q body (in_world w c) = result_in_world w (route_request lib ip q body c)"
  using route_download_blind [OF assms] route_upload_blind [OF assms]
  by (simp add: route_request_def blind_simps)

text \<open>Sessions that are accepted after an operation were accepted before.\<close>

lemma has_session_AList:
  assumes "list_ex (\<lambda>(k, r). accepted_with tok r) (AList.update k0 r0 m)" "\<not> accepted_with tok r0"
  shows "list_ex (\<lambda>(k, r). accepted_with tok r) m"
  using assms by (induction m) (auto split: if_splits)

lemma no_new_session_insert:
  "pr_status r = RsPending \<Longrightarrow> is_valid_token tok (insert_request r s) \<Longrightarrow> is_valid_token tok s"
  using has_session_AList [of tok "pr_session_id r" r "wv_pending_requests s"]
  by (auto simp: is_valid_token_def has_session_def insert_request_def accepted_with_def)

lemma valid_token_failure [simp]: "is_valid_token tok (record_failure ip s) = is_valid_token tok s"
  by (simp add: is_valid_token_def has_session_def record_failure_def Let_def)

lemma wc_server_json [simp]: "wc_server (snd (send_json lib v c)) = wc_server c"
  by (simp add: send_json_def)

lemma wc_server_page [simp]: "wc_server (snd (send_page p c)) = wc_server c"
  by (simp add: send_page_def)

lemma wc_server_token: "generate_token c = (r, c') \<Longrightarrow> wc_server c' = wc_server c \<and> wc_world c' = wc_world c"
  by (auto simp: generate_token_def wc_getrandom_def split: option.splits)

lemma api_request_grants:
  assumes "\<not> authenticated lib q (wc_server c)" "is_valid_token tok (wc_server (snd (route_api_request lib ip q c)))"
  shows "is_valid_token tok (wc_server c)"
proof (cases "bearer_token lib q")
  case (Inr hdr)
  then have "\<not> token_accepted hdr (wc_server c)"
    using assms(1) by (cases hdr) (auto simp: authenticated_def or_query_token_def token_accepted_def)
  moreover obtain r c1 where g: "generate_token c = (r, c1)" by fastforce
  ultimately show ?thesis
    using assms(2) Inr wc_server_token [OF g]
    by (cases r) (auto simp: route_api_request_def Let_def g dest!: no_new_session_insert [rotated] split: if_splits)
qed (use assms(2) in \<open>auto simp: route_api_request_def\<close>)

lemma route_request_grants:
  assumes "\<not> authenticated lib q (wc_server c)" "is_valid_token tok (wc_server (snd (route_request lib ip q body c)))"
  shows "is_valid_token tok (wc_server c)"
proof -
  have "wc_server (snd (route_request_status lib q c)) = wc_server c" "wc_server (snd (route_index lib q c)) = wc_server c"
    by (auto simp: route_request_status_def route_index_def Let_def split: option.splits)
  moreover have "wc_server (snd (route_pending lib q c)) = wc_server c"
    by (cases "bearer_token lib q") (auto simp: route_pending_def Let_def)
  moreover have "is_valid_token tok (wc_server (snd (route_auth lib ip q c))) = is_valid_token tok (wc_server c)"
    by (cases "bearer_token lib q") (auto simp: route_auth_def)
  moreover have "is_valid_token tok (wc_server (snd (route_download lib q c))) = is_valid_token tok (wc_server c)"
    using assms(1)
    by (cases "bearer_token lib q"; cases "scan_header lib ''range:'' (wq_headers q)")
       (auto simp: route_download_def authenticated_def)
  moreover have "is_valid_token tok (wc_server (snd (route_upload lib ip q body c))) = is_valid_token tok (wc_server c)"
    using assms(1)
    by (cases "content_length lib (wq_headers q)"; cases "scan_boundary lib (wq_headers q)"; cases "bearer_token lib q")
       (auto simp: route_upload_def authenticated_def)
  ultimately show ?thesis
    using assms(2) api_request_grants [OF assms(1)] by (auto simp: route_request_def split: if_splits)
qed

lemma admitted_blind: "admitted ip (in_world w c) = in_world w (admitted ip c)"
  by (simp add: admitted_def blind_simps)

lemma handle_connection_admitted:
  assumes "\<not> wv_cancelled (wc_server c)"
  shows "handle_connection lib ip c =
    (if fst (check_blocked ip (bump_activity (wc_server c)))
     then send_web_error ''403 Forbidden'' ''Too many failed attempts. Temporarily blocked.'' (admitted ip c)
     else io_then (read_headers [] (admitted ip c)) (\<lambda>r c.
       case r of
         None \<Rightarrow> (Inr (), c)
       | Some (buf, n) \<Rightarrow>
           io_then (parse_request lib (take n buf), c) (\<lambda>q c. route_request lib ip q (drop n buf) c)))"
  using assms by (simp add: handle_connection_def admitted_def split: prod.splits)

text \<open>
  C29 No credential, no access. For a request that presents neither the token of the server, nor its PIN,
  nor the token of an accepted session, the handler behaves the same whatever the files are: it
  sends the same bytes, gives the same result and leaves every file as it was. Nor does such a request
  make any token valid that was not valid when it had been read: an approval is never granted by the client.
\<close>

theorem web_requires_credential:
  assumes "case requested lib ip c of Some (q, c2) \<Rightarrow> \<not> authenticated lib q (wc_server c2) | None \<Rightarrow> True"
  shows "handle_connection lib ip (in_world w c) = result_in_world w (handle_connection lib ip c)
    \<and> (case requested lib ip c of
         Some (q, c2) \<Rightarrow> \<not> wv_cancelled (wc_server c) \<and> \<not> fst (check_blocked ip (bump_activity (wc_server c)))
           \<longrightarrow> (\<forall>tok. is_valid_token tok (wc_server (snd (handle_connection lib ip c))) \<longrightarrow> is_valid_token tok (wc_server c2))
       | None \<Rightarrow> True)"
proof (cases "wv_cancelled (wc_server c) \<or> fst (check_blocked ip (bump_activity (wc_server c)))")
  case True
  then show ?thesis
  proof (cases "wv_cancelled (wc_server c)")
    case False
    then show ?thesis
      using True by (simp add: handle_connection_admitted admitted_blind error_blind split: option.splits prod.splits)
  qed (auto simp: handle_connection_def result_in_world_def split: option.splits prod.splits)
next
  case False
  obtain r c2 where rd: "read_headers [] (admitted ip c) = (r, c2)" by fastforce
  have hc: "handle_connection lib ip (in_world w c) = io_then (result_in_world w (r, c2)) (\<lambda>r c.
       case r of
         None \<Rightarrow> (Inr (), c)
       | Some (buf, n) \<Rightarrow>
           io_then (parse_request lib (take n buf), c) (\<lambda>q c. route_request lib ip q (drop n buf) c))"
    using False by (simp add: handle_connection_admitted admitted_blind read_headers_blind rd)
  show ?thesis
  proof (cases "requested lib ip c")
    case None
    then show ?thesis
      using hc False rd
      by (auto simp: handle_connection_admitted requested_def result_in_world_def
          split: sum.splits option.splits prod.splits)
  next
    case (Some p)
    then obtain q buf n where q: "r = Inr (Some (buf, n))" "parse_request lib (take n buf) = Inr q" "p = (q, c2)"
      using rd by (auto simp: requested_def split: sum.splits option.splits prod.splits)
    then have "\<not> authenticated lib q (wc_server c2)" using assms Some by simp
    then show ?thesis
      using hc False rd q Some route_request_blind route_request_grants
      by (auto simp: handle_connection_admitted result_in_world_def [of w "(_, _)"])
  qed
qed

definition sample_lib :: web_lib where
  "sample_lib = \<lparr>wl_to_lowercase = map (\<lambda>c. if 65 \<le> char_code c \<and> char_code c \<le> 90 then char_of (char_code c + 32) else c),
     wl_alphanumeric = (\<lambda>_. True), wl_json = (\<lambda>_. ''{}''), wl_crc32 = (\<lambda>d. of_nat (length d)),
     wl_html_page = ''upload'', wl_html_download_page = ''download'', wl_html_waiting_page = ''wait'', wl_cwd = []\<rparr>"

definition sample_request :: "string list \<Rightarrow> web_input list" where
  "sample_request ls = [WiData (header_lines ls)]"

lemma sample_read:
  "read_headers [] (admitted ''10.0.0.1'' (sample_conn (sample_request ls) w))
     = (case find_sub blank_line (header_lines ls) of
          Some pos \<Rightarrow> (Inr (Some (header_lines ls, pos + 4)), sample_conn [] w)
        | None \<Rightarrow> undefined)"
  if "length (header_lines ls) \<le> 1024" "header_lines ls \<noteq> []" "find_sub blank_line (header_lines ls) \<noteq> None"
  using that
  by (auto simp: read_headers.simps [of "[]"] wc_read_def admitted_def sample_conn_def sample_request_def sample_server_def
      new_with_expiry_def check_blocked_def bump_activity_def)

lemma lossy_ascii: "\<forall>c\<in>set s. char_code c < 128 \<Longrightarrow> str_from_utf8_lossy (text_bytes s) = s"
proof -
  have "utf8_repair (text_bytes s) = text_bytes s" if "\<forall>c\<in>set s. char_code c < 128" for s
    using that
  proof (induction s)
    case (Cons c s)
    have "utf8_first (of_nat (of_char c)) bs = Utf8Char 1" for bs
    proof -
      have "unat (of_nat (of_char c) :: u8) < 128" using Cons.prems by (simp add: unat_of_nat_u8 char_code_def del: of_nat_of_char)
      then have "(of_nat (of_char c) :: u8) < 0x80" by (simp add: word_less_nat_alt del: of_nat_of_char)
      then show ?thesis by (simp add: utf8_first_def utf8_width_def del: of_nat_of_char)
    qed
    then show ?case using Cons by (simp add: text_bytes_def del: of_nat_of_char)
  qed (simp add: text_bytes_def)
  then show "\<forall>c\<in>set s. char_code c < 128 \<Longrightarrow> str_from_utf8_lossy (text_bytes s) = s"
    by (simp add: str_from_utf8_lossy_def bytes_text_text_bytes)
qed

lemma split_when_part: "\<forall>x\<in>set a. \<not> p x \<Longrightarrow> p c \<Longrightarrow> split_when p (a @ c # b) = a # split_when p b"
  by (induction a) auto

lemma split_when_last: "\<forall>x\<in>set a. \<not> p x \<Longrightarrow> split_when p a = [a]"
  by (induction a) auto

text \<open>A header text of printable lines, as \<open>header_lines\<close> makes it, is read back line by line.\<close>

definition printable :: "string \<Rightarrow> bool" where
  "printable s \<longleftrightarrow> (\<forall>c\<in>set s. 32 \<le> char_code c \<and> char_code c \<le> 126)"

lemma printable_no_newline: "printable s \<Longrightarrow> CHR 0x0A \<notin> set (s @ [CHR 0x0D]) \<and> strip_cr (s @ [CHR 0x0D]) = s"
  by (auto simp: printable_def strip_cr_def char_code_def)

lemma split_header_lines:
  "\<forall>l\<in>set ls. printable l \<Longrightarrow>
   split_on CHR 0x0A (concat (map (\<lambda>l. l @ crlf) ls) @ crlf) = map (\<lambda>l. l @ [CHR 0x0D]) ls @ [[CHR 0x0D], []]"
proof (induction ls)
  case (Cons l ls)
  then show ?case
    using split_on_append [of "CHR 0x0A" "l @ [CHR 0x0D]"] printable_no_newline [of l] by (simp add: crlf_def)
qed (simp add: crlf_def)

lemma header_lines_read:
  assumes "\<forall>l\<in>set ls. printable l"
  shows "str_lines (str_from_utf8_lossy (header_lines ls)) = ls @ [[]]"
proof -
  have "\<forall>c\<in>set (concat (map (\<lambda>l. l @ crlf) ls) @ crlf). char_code c < 128"
  proof -
    have "char_code c < 128" if "l \<in> set ls" "c \<in> set l" for l c
      using bspec [OF assms that(1)] that(2) by (fastforce simp: printable_def)
    then show ?thesis by (auto simp: crlf_def char_code_def)
  qed
  then have "str_from_utf8_lossy (header_lines ls) = concat (map (\<lambda>l. l @ crlf) ls) @ crlf"
    unfolding header_lines_def by (rule lossy_ascii)
  moreover have "map (strip_cr \<circ> (\<lambda>l. l @ [CHR 0x0D])) ls = ls"
    using assms printable_no_newline by (intro map_idI) auto
  ultimately show ?thesis
    using split_header_lines [OF assms] by (simp add: str_lines_def Let_def butlast_append strip_cr_def)
qed

lemma two_words:
  assumes "\<forall>c\<in>set (a @ b). 33 \<le> char_code c \<and> char_code c \<le> 126" "a \<noteq> []" "b \<noteq> []"
    and "\<forall>c\<in>set r. char_code c < 128"
  shows "\<exists>ws. split_whitespace (a @ '' '' @ b @ '' '' @ r) = a # b # ws"
proof -
  have chars: "str_chars (a @ '' '' @ b @ '' '' @ r) = map (\<lambda>c. [c]) a @ '' '' # map (\<lambda>c. [c]) b @ '' '' # map (\<lambda>c. [c]) r"
  proof -
    have "char_code c < 128" if c: "c \<in> set (a @ '' '' @ b @ '' '' @ r)" for c
    proof -
      consider "c \<in> set (a @ b)" | "c = CHR '' ''" | "c \<in> set r" using c by auto
      then show ?thesis using assms(1,4) by cases (fastforce simp: char_code_def)+
    qed
    then show ?thesis by (subst str_chars_ascii) auto
  qed
  have solid: "\<forall>x\<in>set (map (\<lambda>c. [c]) a). \<not> is_white_char x" "\<forall>x\<in>set (map (\<lambda>c. [c]) b). \<not> is_white_char x"
    using assms(1) is_white_graphic by auto
  have blank: "is_white_char '' ''" by (simp add: is_white_single char_code_def)
  have id: "concat (map (\<lambda>c. [c]) s) = s" for s :: string by (induction s) auto
  show ?thesis
    unfolding split_whitespace_def chars split_when_part [OF solid(1) blank] split_when_part [OF solid(2) blank]
    using assms(2,3) by (simp add: id)
qed

lemma sample_request_parsed:
  "parse_request sample_lib (header_lines [''GET /dl/1?t=guess HTTP/1.1'', ''User-Agent: x'']) =
     Inr \<lparr>wq_method = ''GET'', wq_path = ''/dl/1'', wq_query = ''t=guess'', wq_headers = [''User-Agent: x'', []],
          wq_user_agent = ''x''\<rparr>"
proof -
  have "str_lines (str_from_utf8_lossy (header_lines [''GET /dl/1?t=guess HTTP/1.1'', ''User-Agent: x'']))
      = [''GET /dl/1?t=guess HTTP/1.1'', ''User-Agent: x'', []]"
    by (subst header_lines_read) (simp_all add: printable_def char_code_def)
  moreover obtain ws where "split_whitespace ''GET /dl/1?t=guess HTTP/1.1'' = ''GET'' # ''/dl/1?t=guess'' # ws"
    using two_words [of "''GET''" "''/dl/1?t=guess''" "''HTTP/1.1''"] by (auto simp: char_code_def)
  moreover have "char_of (117 :: nat) = CHR ''u''" "char_of (97 :: nat) = CHR ''a''" by code_simp+
  then have "scan_header sample_lib ''user-agent:'' [''User-Agent: x'', []] = Inr (Some ''x'')"
    by (simp add: scan_header_def sample_lib_def char_code_def slice_from_def str_from_def is_char_boundary_def is_tail_char_def
        str_trim_def is_white_single)
  ultimately show ?thesis by (simp add: parse_request_def split_once_def)
qed

lemma sample_request_unauthenticated:
  "case requested sample_lib ''10.0.0.1'' (sample_conn (sample_request [''GET /dl/1?t=guess HTTP/1.1'', ''User-Agent: x'']) sample_world)
   of Some (q, c2) \<Rightarrow> wq_path q = ''/dl/1'' \<and> \<not> authenticated sample_lib q (wc_server c2) | None \<Rightarrow> False"
proof -
  let ?h = "header_lines [''GET /dl/1?t=guess HTTP/1.1'', ''User-Agent: x'']"
  have h: "length ?h = 45" "?h \<noteq> []" "find_sub blank_line ?h = Some 41"
    by (simp_all add: header_lines_def text_bytes_def crlf_def blank_line_def)
  show ?thesis
    using h sample_request_parsed sample_read [of "[''GET /dl/1?t=guess HTTP/1.1'', ''User-Agent: x'']" sample_world]
    by (simp add: requested_def authenticated_def scan_header_def sample_lib_def char_code_def or_query_token_def
        query_param_def split_once_def token_accepted_def is_valid_token_def has_session_def sample_conn_def
        sample_server_def new_with_expiry_def)
qed

theorem web_requires_credential_witness:
  "wc_world (snd (handle_connection sample_lib ''10.0.0.1''
     (sample_conn (sample_request [''GET /dl/1?t=guess HTTP/1.1'', ''User-Agent: x'']) sample_world))) = sample_world"
proof -
  let ?c = "sample_conn (sample_request [''GET /dl/1?t=guess HTTP/1.1'', ''User-Agent: x'']) sample_world"
  have "in_world sample_world ?c = ?c" by (simp add: in_world_def sample_conn_def)
  then have "handle_connection sample_lib ''10.0.0.1'' ?c
      = result_in_world sample_world (handle_connection sample_lib ''10.0.0.1'' ?c)"
    using web_requires_credential [of sample_lib "''10.0.0.1''" ?c sample_world] sample_request_unauthenticated
    by (auto split: option.splits)
  then show ?thesis by (metis fst_result_in_world(2) in_world_fields(7))
qed

end
