(* ===== verification/Nxfr_Web_Files.thy ===== *)
theory Nxfr_Web_Files
  imports Nxfr_Web_Safety
begin

text \<open>
  The files a web client can change. The downloads leave all of them as they are; an upload changes its
  temporary file and the new file it becomes, both below the inbox.
\<close>

section \<open>Operations that leave the files as they are\<close>

definition kept_files :: "world \<Rightarrow> web_conn \<Rightarrow> bool" where
  "kept_files w c \<longleftrightarrow> (\<forall>p. fs_lookup p (wc_world c) = fs_lookup p w)"

named_theorems keep_intros \<open>operations that leave the files as they are\<close>

lemmas io_then_files [keep_intros] = io_then_inv [where P = "kept_files w" for w]

lemma kept_files_world: "wc_world c' = wc_world c \<Longrightarrow> kept_files w c' = kept_files w c"
  by (simp add: kept_files_def)

lemma kept_files_update [simp]:
  "kept_files w (wc_server_update f c) = kept_files w c" "kept_files w (wc_in_update g c) = kept_files w c"
  "kept_files w (wc_out_update h c) = kept_files w c" "kept_files w (wc_write_faults_update i c) = kept_files w c"
  "kept_files w (wc_draws_update j c) = kept_files w c"
  by (simp_all add: kept_files_def)

lemma kept_files_write [keep_intros]: "kept_files w c \<Longrightarrow> kept_files w (snd (wc_write_all dl b c))"
  by (simp add: kept_files_def)

lemma kept_files_flush [keep_intros]: "kept_files w c \<Longrightarrow> kept_files w (snd (wc_flush dl c))"
  by (simp add: wc_flush_def kept_files_write)

lemma kept_files_response [keep_intros]: "kept_files w c \<Longrightarrow> kept_files w (snd (send_response st ct body c))"
  by (simp add: kept_files_def)

lemma kept_files_error [keep_intros]: "kept_files w c \<Longrightarrow> kept_files w (snd (send_web_error st m c))"
  by (simp add: kept_files_def)

lemma kept_files_chunk [keep_intros]: "kept_files w c \<Longrightarrow> kept_files w (snd (write_chunk d c))"
  by (auto simp: write_chunk_def Let_def intro!: keep_intros)

lemma kept_files_finish [keep_intros]: "kept_files w c \<Longrightarrow> kept_files w (snd (chunked_finish c))"
  by (auto simp: chunked_finish_def Let_def intro!: keep_intros)

lemma kept_files_web_io:
  assumes "\<And>w r w' p. f w = (r, w') \<Longrightarrow> fs_lookup p w' = fs_lookup p w"
  shows "kept_files w c \<Longrightarrow> kept_files w (snd (web_io f c))"
  using assms by (auto simp: web_io_def kept_files_def split: prod.splits)

lemma kept_files_open [keep_intros]: "kept_files w c \<Longrightarrow> kept_files w (snd (web_io (fs_open p) c))"
  by (rule kept_files_web_io) (auto simp: fs_open_def fault_cases split: fault_splits if_splits)

lemma kept_files_read_at [keep_intros]: "kept_files w c \<Longrightarrow> kept_files w (snd (web_io (fs_read_at h pos n) c))"
  by (rule kept_files_web_io) (auto simp: fs_read_at_def fault_cases split: fault_splits)

lemma kept_files_seek [keep_intros]: "kept_files w c \<Longrightarrow> kept_files w (snd (web_io fs_seek c))"
  by (rule kept_files_web_io) (auto simp: fs_seek_def fault_cases split: fault_splits)

lemma kept_files_sync [keep_intros]: "kept_files w c \<Longrightarrow> kept_files w (snd (web_io (fs_sync_all p) c))"
  by (rule kept_files_web_io) (use fs_sync_all_effect in blast)

lemma kept_files_create_dir [keep_intros]: "kept_files w c \<Longrightarrow> kept_files w (snd (web_io (fs_create_dir_all p) c))"
  by (rule kept_files_web_io) (use fs_create_dir_all_effect in blast)

lemma kept_files_sanitize [keep_intros]: "kept_files w c \<Longrightarrow> kept_files w (snd (wc_sanitize_filename lib n c))"
  by (auto simp: wc_sanitize_filename_def wc_getrandom_def)

lemma kept_files_guard [keep_intros]:
  assumes "\<And>c. kept_files w c \<Longrightarrow> kept_files w (snd (f c))" "kept_files w c"
  shows "kept_files w (snd (with_transfer_guard f c))"
  using assms by (auto simp: with_transfer_guard_def split: prod.splits) (metis kept_files_update(1) snd_conv)

section \<open>Downloads\<close>

lemma kept_files_zip_copy [keep_intros]: "kept_files w c \<Longrightarrow> kept_files w (snd (zip_copy h pos d c))"
proof (induction h pos d c rule: zip_copy.induct)
  case (1 h pos d c)
  obtain r1 c1 where r: "web_io (fs_read_at h pos BUF_SIZE) c = (r1, c1)" by fastforce
  have c1: "kept_files w c1" using kept_files_read_at [OF 1(2)] r by (metis snd_conv)
  show ?case
  proof (cases "\<exists>x. r1 = Inr x \<and> x \<noteq> []")
    case True
    then obtain x where x: "r1 = Inr x" "x \<noteq> []" by blast
    obtain r2 c2 where k: "write_chunk x c1 = (r2, c2)" by fastforce
    have "kept_files w c2" using kept_files_chunk [OF c1] k by (metis snd_conv)
    then show ?thesis using 1(1) [OF r [symmetric] x(1) x(2) k [symmetric]] r x k
      by (cases r2) (simp_all add: zip_copy.simps [of h pos d c])
  next
    case False
    then show ?thesis using r c1 by (cases r1) (auto simp: zip_copy.simps [of h pos d c])
  qed
qed

lemma kept_files_send_whole [keep_intros]: "kept_files w c \<Longrightarrow> kept_files w (snd (send_whole h pos c))"
proof (induction h pos c rule: send_whole.induct)
  case (1 h pos c)
  obtain r1 c1 where r: "web_io (fs_read_at h pos BUF_SIZE) c = (r1, c1)" by fastforce
  have c1: "kept_files w c1" using kept_files_read_at [OF 1(2)] r by (metis snd_conv)
  show ?case
  proof (cases "\<exists>x. r1 = Inr x \<and> x \<noteq> []")
    case True
    then obtain x where x: "r1 = Inr x" "x \<noteq> []" by blast
    obtain r2 c2 where k: "wc_write_all download_deadline x c1 = (r2, c2)" by fastforce
    have "kept_files w c2" using kept_files_write [OF c1] k by (metis snd_conv)
    then show ?thesis using 1(1) [OF r [symmetric] x(1) x(2) k [symmetric]] r x k
      by (cases r2) (simp_all add: send_whole.simps [of h pos c])
  next
    case False
    then show ?thesis using r c1 by (cases r1) (auto simp: send_whole.simps [of h pos c])
  qed
qed

lemma kept_files_send_range [keep_intros]: "kept_files w c \<Longrightarrow> kept_files w (snd (send_range h pos n c))"
proof (induction h pos n c rule: send_range.induct)
  case (1 h pos n c)
  obtain r1 c1 where r: "web_io (fs_read_at h pos (min n BUF_SIZE)) c = (r1, c1)" by fastforce
  have c1: "kept_files w c1" using kept_files_read_at [OF 1(2)] r by (metis snd_conv)
  show ?case
  proof (cases "n \<noteq> 0 \<and> (\<exists>x. r1 = Inr x \<and> x \<noteq> [])")
    case True
    then obtain x where x: "n \<noteq> 0" "r1 = Inr x" "x \<noteq> []" by blast
    obtain r2 c2 where k: "wc_write_all download_deadline x c1 = (r2, c2)" by fastforce
    have "kept_files w c2" using kept_files_write [OF c1] k by (metis snd_conv)
    then show ?thesis using 1(1) [OF x(1) r [symmetric] x(2,3) k [symmetric]] r x k
      by (cases r2) (simp_all add: send_range.simps [of h pos n c])
  next
    case False
    then show ?thesis using r c1 1(2) by (cases r1) (auto simp: send_range.simps [of h pos n c])
  qed
qed

lemma kept_files_zip_items [keep_intros]: "kept_files w c \<Longrightarrow> kept_files w (snd (zip_items lib items off es c))"
proof (induction items arbitrary: off es c)
  case (Cons item items)
  obtain n c1 where s: "wc_sanitize_filename lib (wi_name item) c = (n, c1)" by fastforce
  have "kept_files w c1" using kept_files_sanitize [OF Cons.prems] s by (metis snd_conv)
  then show ?case using Cons by (auto simp: s Let_def intro!: keep_intros)
qed simp

lemma kept_files_zip_centrals [keep_intros]: "kept_files w c \<Longrightarrow> kept_files w (snd (zip_centrals es off c))"
  by (induction es arbitrary: off c) (auto intro!: keep_intros)

lemma kept_files_send_zip [keep_intros]: "kept_files w c \<Longrightarrow> kept_files w (snd (send_zip lib manifest c))"
  by (auto simp: send_zip_def split: prod.splits intro!: keep_intros)

lemma kept_files_finish_download [keep_intros]: "kept_files w c \<Longrightarrow> kept_files w (snd (finish_download c))"
  by (auto simp: finish_download_def intro!: keep_intros)

lemma kept_files_send_item [keep_intros]: "kept_files w c \<Longrightarrow> kept_files w (snd (send_item lib item rng h c))"
proof -
  assume c: "kept_files w c"
  obtain n c1 where s: "wc_sanitize_filename lib (wi_name item) c = (n, c1)" by fastforce
  have "kept_files w c1" using kept_files_sanitize [OF c] s by (metis snd_conv)
  then show ?thesis
    by (auto simp: send_item_def s split: option.splits prod.splits intro!: keep_intros)
qed

lemma kept_files_download: "kept_files w c \<Longrightarrow> kept_files w (snd (route_download lib q c))"
proof -
  have item: "kept_files w (snd (route_item lib q rng c))" if "kept_files w c" for rng c
  proof -
    have "kept_files w (snd (case web_io (fs_open p) c of
        (Inl _, c) \<Rightarrow> send_web_error st m c | (Inr h, c) \<Rightarrow> send_item lib item rng h c))" for p st m item
      using kept_files_open [OF that, of p]
      by (cases "web_io (fs_open p) c"; cases "fst (web_io (fs_open p) c)") (auto intro!: keep_intros)
    then show ?thesis using that by (auto simp: route_item_def split: option.splits intro!: keep_intros)
  qed
  have zip: "kept_files w (snd (route_zip lib c))" if "kept_files w c" for c
    using that by (auto simp: route_zip_def split: option.splits intro!: keep_intros)
  assume "kept_files w c"
  then show ?thesis using item zip by (auto simp: route_download_def intro!: keep_intros)
qed

section \<open>Uploads\<close>

text \<open>At any time the temporary file holds a beginning of what was received.\<close>

lemma store_chunk_partial:
  assumes "store_chunk p d t c = (r, c')"
  shows "\<exists>x. prefix x d \<and> fs_lookup p (wc_world c') = map_option (\<lambda>b. b @ x) (fs_lookup p (wc_world c))
    \<and> (\<forall>n. r = Inr (Some n) \<longrightarrow> x = d)"
proof (cases "t + of_nat (length d) > wv_max_file_size (wc_server c)")
  case True
  obtain r0 c0 where e: "send_web_error ''413 Payload Too Large'' ''File size exceeds limit'' c = (r0, c0)" by fastforce
  then have "wc_world c0 = wc_world c" by (metis snd_conv wc_world_error(1))
  then show ?thesis using assms True e
    by (intro exI [of _ "[]"]) (cases r0; auto simp: store_chunk_def option.map_ident)
next
  case False
  obtain r0 w where f: "fs_write_all p d (wc_world c) = (r0, w)" by fastforce
  have "\<exists>n. fs_lookup p w = map_option (\<lambda>b. b @ take n d) (fs_lookup p (wc_world c)) \<and> (r0 = Inr () \<longrightarrow> n \<ge> length d)"
    using fs_write_all_effect(1) [OF f] by (cases r0) (auto intro: exI [of _ "length d"])
  then obtain n where n: "fs_lookup p w = map_option (\<lambda>b. b @ take n d) (fs_lookup p (wc_world c))" "r0 = Inr () \<longrightarrow> n \<ge> length d"
    by blast
  have "wc_world c' = w" "\<forall>m. r = Inr (Some m) \<longrightarrow> r0 = Inr ()"
    using assms False f by (cases r0; auto simp: store_chunk_def Let_def web_io_def)+
  then show ?thesis using n by (intro exI [of _ "take n d"]) (auto simp: take_is_prefix)
qed

lemma store_safe_prefix_partial:
  assumes "store_safe_prefix p n buffer t c = (r, c')"
  shows "\<exists>x. prefix x buffer \<and> fs_lookup p (wc_world c') = map_option (\<lambda>b. b @ x) (fs_lookup p (wc_world c))"
proof (cases "length buffer > n")
  case True
  obtain r0 c0 where s: "store_chunk p (take (length buffer - n) buffer) t c = (r0, c0)" by fastforce
  moreover have "c' = c0" using assms True s by (cases r0) (auto simp: store_safe_prefix_def)
  ultimately show ?thesis
    using store_chunk_partial [OF s] prefix_order.trans [OF _ take_is_prefix] by blast
next
  case False
  then show ?thesis using assms by (intro exI [of _ "[]"]) (auto simp: store_safe_prefix_def option.map_ident)
qed

lemma upload_loop_partial:
  assumes "upload_loop p b buffer t c = (r, c')"
  shows "\<exists>x. prefix x (buffer @ input_bytes (wc_in c))
    \<and> fs_lookup p (wc_world c') = map_option (\<lambda>b. b @ x) (fs_lookup p (wc_world c))"
  using assms
proof (induction rule: upload_loop_induct)
  case (Found buffer t c pos)
  show ?case
  proof (cases "take pos buffer = []")
    case True
    then show ?thesis using Found(2) by (intro exI [of _ "[]"]) (auto simp: option.map_ident)
  next
    case False
    then obtain x where "prefix x (take pos buffer)"
        "fs_lookup p (wc_world c') = map_option (\<lambda>b. b @ x) (fs_lookup p (wc_world c))"
      using Found(2) store_chunk_partial [of p "take pos buffer" t c r c'] by auto
    then show ?thesis by (meson prefix_order.trans prefix_prefix take_is_prefix)
  qed
next
  case (Alt buffer t c)
  then show ?case by (intro exI [of _ "[]"]) (auto simp: option.map_ident)
next
  case (Stop buffer t c r0 c1)
  then show ?case using store_safe_prefix_partial [OF Stop(1)] prefix_prefix by metis
next
  case (Read buffer t c t1 buffer1 d c1 c2)
  let ?j = "length buffer - length (boundary_needle b)"
  have on: "store_safe_prefix p (length (boundary_needle b)) buffer t c = (Inr (Some (t1, buffer1)), c1)"
      "wc_read BUF_SIZE (Some CHUNK_IO_TIMEOUT) c1 = (ReadData d, c2)" "d \<noteq> []"
    using Read(1) by (auto simp: upload_reads_on_def)
  have st: "buffer1 = drop ?j buffer"
      "fs_lookup p (wc_world c1) = map_option (\<lambda>o1. o1 @ take ?j buffer) (fs_lookup p (wc_world c))"
    using store_safe_prefix_effect [OF on(1)] by (auto simp: prefix_stored_def)
  have rest: "input_bytes (wc_in c) = d @ input_bytes (wc_in c2)" "wc_world c2 = wc_world c1"
    using wc_read_data [OF on(2,3)] wc_in_store_eq [OF on(1)] by auto
  have cut: "buffer @ input_bytes (wc_in c) = take ?j buffer @ (buffer1 @ d) @ input_bytes (wc_in c2)"
    by (simp add: st(1) rest(1))
  obtain x where x: "prefix x ((buffer1 @ d) @ input_bytes (wc_in c2))"
      "fs_lookup p (wc_world c') = map_option (\<lambda>b. b @ x) (fs_lookup p (wc_world c2))"
    using Read.IH by auto
  then show ?case
    unfolding cut using st(2) rest(2)
    by (intro exI [of _ "take ?j buffer @ x"]) (simp add: option.map_comp comp_def)
qed

text \<open>The name of an upload. A path below a directory has components that are plain names, none of them \<open>..\<close>.\<close>

definition below :: "abspath \<Rightarrow> abspath \<Rightarrow> bool" where
  "below d p \<longleftrightarrow> strict_prefix d p \<and> list_all plain_name (drop (length d) p)"

lemma below_append: "list_all plain_name ns \<Longrightarrow> plain_name n \<Longrightarrow> below d (d @ ns @ [n])"
  by (simp add: below_def strict_prefix_def)

lemma path_join_names:
  assumes "list_all plain_name ns" "ns \<noteq> []"
  shows "path_join d (join_with CHR ''/'' ns) = d @ ns"
proof -
  have "split_on CHR ''/'' (join_with CHR ''/'' ns) = ns"
    using assms by (intro split_on_join_with) (auto simp: list_all_iff plain_name_def)
  moreover have "filter (\<lambda>c. c \<noteq> [] \<and> c \<noteq> ''.'') ns = ns"
    using assms(1) by (intro filter_True) (auto simp: list_all_iff plain_name_def)
  ultimately show ?thesis by (simp add: path_join_def)
qed

lemma wc_sanitize_plain:
  assumes "wc_sanitize_filename lib n c = (f, c')"
  shows "plain_name f \<and> wc_world c' = wc_world c \<and> wc_server c' = wc_server c"
  using assms sanitize_filename_plain
  by (auto simp: wc_sanitize_filename_def wc_getrandom_def split: if_splits)

lemma sanitize_all_keeps:
  "sanitize_all lib ns c = (fs, c') \<Longrightarrow> wc_world c' = wc_world c \<and> wc_server c' = wc_server c
     \<and> list_all plain_name fs \<and> length fs = length ns"
  by (induction ns arbitrary: fs c) (auto split: prod.splits dest: wc_sanitize_plain)

lemma upload_name_plain:
  assumes "upload_name lib raw_name c = (r, c')"
  shows "wc_world c' = wc_world c \<and> wc_server c' = wc_server c
    \<and> (\<forall>sd f. r = Some (sd, f) \<longrightarrow> plain_name f
        \<and> (\<forall>d. sd = Some d \<longrightarrow> (\<exists>ns. ns \<noteq> [] \<and> list_all plain_name ns \<and> d = join_with CHR ''/'' ns)))"
proof (cases "length (name_components raw_name) \<le> 1")
  case True
  then have "name_components raw_name = [] \<or> length (name_components raw_name) = 1" by (cases "name_components raw_name") auto
  then show ?thesis
    using assms by (auto simp: upload_name_def Let_def split: if_splits prod.splits dest!: wc_sanitize_plain)
next
  case False
  obtain fs c1 where a: "sanitize_all lib (butlast (name_components raw_name)) c = (fs, c1)" by fastforce
  have "fs \<noteq> []" using sanitize_all_keeps [OF a] False by auto
  then show ?thesis
    using assms False sanitize_all_keeps [OF a]
    by (auto simp: upload_name_def Let_def a split: if_splits prod.splits dest!: wc_sanitize_plain)
qed

lemma final_path_fresh:
  assumes "final_path d f w = Some dest" "plain_name f"
  shows "\<not> fs_exists dest w" "\<exists>x. plain_name x \<and> dest = d @ [x]"
proof -
  have d: "\<exists>x. plain_name x \<and> path_join d f = d @ [x]" using path_join_plain [OF assms(2)] assms(2) by blast
  have n: "\<exists>x. plain_name x \<and> numbered_name d f i = d @ [x]" for i
    using numbered_plain [OF assms(2)] numbered_text_plain [OF assms(2)] by blast
  have "\<not> fs_exists dest w \<and> (\<exists>x. plain_name x \<and> dest = d @ [x])"
  proof (cases "fs_exists (path_join d f) w")
    case True
    then have "free_name d f 1 w = Some dest" using assms(1) unfolding final_path_def Let_def by (simp only: if_True)
    from free_name_fresh [OF this] obtain i where "\<not> fs_exists dest w" "dest = numbered_name d f i" by blast
    then show ?thesis using n [of i] by blast
  next
    case False
    then have "dest = path_join d f" using assms(1) unfolding final_path_def Let_def by (simp only: if_False option.inject)
    then show ?thesis using False d by blast
  qed
  then show "\<not> fs_exists dest w" "\<exists>x. plain_name x \<and> dest = d @ [x]" by auto
qed

text \<open>Effect of the last steps: a new file below the inbox with the content of the temporary one, or none.\<close>

definition moved_to :: "abspath \<Rightarrow> abspath \<Rightarrow> web_conn \<Rightarrow> web_conn \<Rightarrow> bool" where
  "moved_to tmp dest c c' \<longleftrightarrow> dest \<noteq> tmp \<and> fs_lookup dest (wc_world c) = None
     \<and> below (inbox_dir (wc_server c)) dest
     \<and> (\<forall>p. fs_lookup p (wc_world c') = (if p = dest then fs_lookup tmp (wc_world c)
          else if p = tmp then None else fs_lookup p (wc_world c)))"

lemma upload_target_keeps:
  assumes "(case sub_dir of
       Some sd \<Rightarrow> let d = path_join (inbox_dir (wc_server c)) sd in io_then (web_io (fs_create_dir_all d) c) (\<lambda>_ c. (Inr d, c))
     | None \<Rightarrow> (Inr (inbox_dir (wc_server c)), c)) = (r, c')"
    and "\<forall>d. sub_dir = Some d \<longrightarrow> (\<exists>ns. ns \<noteq> [] \<and> list_all plain_name ns \<and> d = join_with CHR ''/'' ns)"
  shows "kept_files (wc_world c) c' \<and> wc_server c' = wc_server c
    \<and> (\<forall>d. r = Inr d \<longrightarrow> (\<exists>ns. d = inbox_dir (wc_server c) @ ns \<and> list_all plain_name ns))"
proof (cases sub_dir)
  case (Some sd)
  then obtain ns where ns: "list_all plain_name ns" "path_join (inbox_dir (wc_server c)) sd = inbox_dir (wc_server c) @ ns"
    using assms(2) path_join_names by metis
  let ?d = "path_join (inbox_dir (wc_server c)) sd"
  obtain r0 c0 where m: "web_io (fs_create_dir_all ?d) c = (r0, c0)" by fastforce
  have "kept_files (wc_world c) c0"
    using kept_files_create_dir [of "wc_world c" c ?d] m by (simp add: kept_files_def)
  moreover have "wc_server c0 = wc_server c" using m by (auto simp: web_io_def split: prod.splits)
  ultimately show ?thesis
    using assms(1) Some m ns by (cases r0) (auto simp: Let_def)
qed (use assms(1) in \<open>auto simp: kept_files_def\<close>)

lemma upload_place_effect:
  assumes "upload_place lib tmp raw_name c = (r, c')"
  shows "if r = Inr True then \<exists>dest. moved_to tmp dest c c' else kept_files (wc_world c) c'"
proof -
  obtain r0 c0 where s: "web_io (fs_sync_all tmp) c = (r0, c0)" by fastforce
  have c0: "kept_files (wc_world c) c0" "wc_server c0 = wc_server c"
    using kept_files_sync [of "wc_world c" c tmp] s by (auto simp: kept_files_def web_io_def split: prod.splits)
  show ?thesis
  proof (cases r0)
    case (Inl e)
    then show ?thesis using assms s c0 by (auto simp: upload_place_def)
  next
    case (Inr u)
    obtain n c1 where n: "upload_name lib raw_name c0 = (n, c1)" by fastforce
    note c1 = upload_name_plain [OF n]
    have f1: "kept_files (wc_world c) c1" using c0 c1 by (simp add: kept_files_def)
    show ?thesis
    proof (cases n)
      case None
      obtain r2 c2 where e: "send_web_error ''400 Bad Request'' ''Path too deeply nested (max 10 levels)'' c1 = (r2, c2)" by fastforce
      have "kept_files (wc_world c) c2" using kept_files_error [OF f1] e by (metis snd_conv)
      then show ?thesis using assms s Inr n None e by (cases r2) (auto simp: upload_place_def)
    next
      case (Some p)
      then obtain sub_dir clean where p: "n = Some (sub_dir, clean)" by (cases p) auto
      obtain r2 c2 where t: "(case sub_dir of
           Some sd \<Rightarrow> let d = path_join (inbox_dir (wc_server c1)) sd in io_then (web_io (fs_create_dir_all d) c1) (\<lambda>_ c. (Inr d, c))
         | None \<Rightarrow> (Inr (inbox_dir (wc_server c1)), c1)) = (r2, c2)" by fastforce
      have sd: "\<forall>d. sub_dir = Some d \<longrightarrow> (\<exists>ns. ns \<noteq> [] \<and> list_all plain_name ns \<and> d = join_with CHR ''/'' ns)"
        using c1 p by blast
      note c2 = upload_target_keeps [OF t sd]
      have f2: "kept_files (wc_world c) c2" using f1 c2 by (simp add: kept_files_def)
      have run: "(r, c') = io_then (r2, c2) (\<lambda>target_dir c.
         io_then (ok_or WeEndless (final_path target_dir clean (wc_world c)), c) (\<lambda>dest c.
         io_then (web_io (fs_rename tmp dest) c) (\<lambda>_ c. (Inr True, c))))"
        using assms s Inr n p t by (simp add: upload_place_def del: io_then.simps(2) cong: option.case_cong) simp
      show ?thesis
      proof (cases "\<exists>d dest. r2 = Inr d \<and> final_path d clean (wc_world c2) = Some dest")
        case False
        then show ?thesis using run f2
          by (cases r2) (auto split: if_splits option.splits simp: ok_or.simps elim!: ok_or.elims)
      next
        case True
        then obtain d dest where d: "r2 = Inr d" "final_path d clean (wc_world c2) = Some dest" by blast
        obtain r3 w3 where m: "fs_rename tmp dest (wc_world c2) = (r3, w3)" by fastforce
        note ren = fs_rename_effect(1) [OF m]
        have out: "(r, c') = io_then (map_err WeIo r3, c2\<lparr>wc_world := w3\<rparr>) (\<lambda>_ c. (Inr True, c))"
          using run d m by (simp add: web_io_def)
        have plain: "plain_name clean" using c1 p by blast
        note fresh = final_path_fresh [OF d(2) plain]
        have "below (inbox_dir (wc_server c)) dest"
        proof -
          have "\<exists>ns. d = inbox_dir (wc_server c) @ ns \<and> list_all plain_name ns" using c2 d(1) c1 c0(2) by auto
          then show ?thesis using fresh(2) below_append by fastforce
        qed
        moreover have "fs_lookup dest (wc_world c) = None"
          using fresh(1) f2 by (simp add: fs_exists_def kept_files_def)
        moreover have "moved_to tmp dest c c'" if "r3 = Inr u" for u
        proof -
          have "fs_lookup tmp (wc_world c2) \<noteq> None" using ren that by simp
          then have "dest \<noteq> tmp" using fresh(1) by (auto simp: fs_exists_def)
          then show ?thesis
            using calculation that ren out f2 by (auto simp: moved_to_def kept_files_def)
        qed
        ultimately show ?thesis
          using ren out f2 by (cases r3) (auto simp: kept_files_def)
      qed
    qed
  qed
qed

text \<open>
  The effect of an upload: files that were there stay, and a new one is below the inbox and holds a
  piece of what the client sent. The temporary name is drawn at random; it must not be taken.
\<close>

definition tmp_name :: "bytes \<Rightarrow> string" where
  "tmp_name rand_bytes = ''web_upload_'' @ hex_encode rand_bytes @ ''.tmp''"

definition tmp_fresh :: "web_conn \<Rightarrow> bool" where
  "tmp_fresh c \<longleftrightarrow> (\<forall>n f. wc_random c n = Some f \<longrightarrow>
     fs_lookup (path_join (inbox_dir (wc_server c)) (tmp_name (map f [0 ..< 8]))) (wc_world c) = None)"

definition only_adds :: "bytes \<Rightarrow> abspath \<Rightarrow> world \<Rightarrow> world \<Rightarrow> bool" where
  "only_adds sent dir w w' \<longleftrightarrow>
     (\<forall>p b. fs_lookup p w = Some b \<longrightarrow> fs_lookup p w' = Some b)
     \<and> (\<forall>p b. fs_lookup p w = None \<and> fs_lookup p w' = Some b \<longrightarrow> below dir p \<and> sublist b sent)"

lemma only_adds_same: "kept_files w c \<Longrightarrow> only_adds sent d w (wc_world c)"
  by (auto simp: only_adds_def kept_files_def)

lemma tmp_name_plain: "plain_name (tmp_name r)"
proof -
  have "CHR ''/'' \<notin> set (hex_encode r)" "CHR 0x00 \<notin> set (hex_encode r)" using hex_encode_chars by fastforce+
  then show ?thesis by (simp add: plain_name_def tmp_name_def)
qed

lemma upload_run_effect:
  assumes "upload_run lib b tmp raw_name buffer c = (r, c')" "fs_lookup tmp (wc_world c) = Some []"
  shows "\<exists>x. prefix x (buffer @ input_bytes (wc_in c)) \<and>
    (if r = Inr True
     then \<exists>dest. dest \<noteq> tmp \<and> fs_lookup dest (wc_world c) = None \<and> below (inbox_dir (wc_server c)) dest
       \<and> (\<forall>p. fs_lookup p (wc_world c') = (if p = dest then Some x else if p = tmp then None else fs_lookup p (wc_world c)))
     else \<forall>p. fs_lookup p (wc_world c') = (if p = tmp then Some x else fs_lookup p (wc_world c)))"
proof -
  obtain r0 c0 where l: "upload_loop tmp b buffer 0 c = (r0, c0)" by fastforce
  obtain x where x: "prefix x (buffer @ input_bytes (wc_in c))" "fs_lookup tmp (wc_world c0) = Some x"
    using upload_loop_partial [OF l] assms(2) by auto
  have frame: "\<forall>p. fs_lookup p (wc_world c0) = (if p = tmp then Some x else fs_lookup p (wc_world c))"
      "inbox_dir (wc_server c0) = inbox_dir (wc_server c)"
    using upload_loop_frame [OF l] x(2) by (auto simp: inbox_dir_def same_setup_def)
  show ?thesis
  proof (cases "\<exists>n. r0 = Inr (Some n)")
    case True
    then have "upload_place lib tmp raw_name c0 = (r, c')" using assms(1) l by (auto simp: upload_run_def)
    from upload_place_effect [OF this] show ?thesis
      using x frame by (auto simp: moved_to_def kept_files_def split: if_splits intro!: exI [of _ x])
  next
    case False
    then have "r \<noteq> Inr True" "c' = c0" using assms(1) l by (cases r0; auto simp: upload_run_def split: option.splits)+
    then show ?thesis using x frame by auto
  qed
qed

lemma with_tmp_guard_effect:
  assumes "with_tmp_guard tmp f c = (r, c')"
  shows "if \<exists>c1. f c = (Inr True, c1) then wc_world c' = wc_world (snd (f c))
    else \<forall>p. p \<noteq> tmp \<longrightarrow> fs_lookup p (wc_world c') = fs_lookup p (wc_world (snd (f c)))"
    "\<not> (\<exists>c1. f c = (Inr True, c1)) \<Longrightarrow> fs_lookup tmp (wc_world c') \<in> {None, fs_lookup tmp (wc_world (snd (f c)))}"
proof -
  obtain r0 c1 where f: "f c = (r0, c1)" by fastforce
  obtain r2 w2 where rm: "fs_remove_file tmp (wc_world c1) = (r2, w2)" by fastforce
  note rme = fs_remove_file_effect(1) [OF rm]
  have ok: "r0 = Inr True \<Longrightarrow> wc_world c' = wc_world c1"
    using assms f by (simp add: with_tmp_guard_def) (metis snd_conv wc_world_response(1))
  have no: "r0 \<noteq> Inr True \<Longrightarrow> wc_world c' = w2"
    using assms f rm by (cases r0) (auto simp: with_tmp_guard_def split: bool.splits)
  show "if \<exists>c1. f c = (Inr True, c1) then wc_world c' = wc_world (snd (f c))
    else \<forall>p. p \<noteq> tmp \<longrightarrow> fs_lookup p (wc_world c') = fs_lookup p (wc_world (snd (f c)))"
    using ok no f rme by (cases r2) auto
  show "\<not> (\<exists>c1. f c = (Inr True, c1)) \<Longrightarrow> fs_lookup tmp (wc_world c') \<in> {None, fs_lookup tmp (wc_world (snd (f c)))}"
    using no f rme by (cases r2) auto
qed

lemma guarded_upload_effect:
  assumes "with_tmp_guard tmp (upload_run lib b tmp raw_name buffer) c = (r, c')" "fs_lookup tmp (wc_world c) = Some []"
    and "below (inbox_dir (wc_server c)) tmp"
    and "\<forall>p. p \<noteq> tmp \<longrightarrow> fs_lookup p (wc_world c) = fs_lookup p w" "fs_lookup tmp w = None"
  shows "only_adds (buffer @ input_bytes (wc_in c)) (inbox_dir (wc_server c)) w (wc_world c')"
proof -
  obtain r1 c1 where u: "upload_run lib b tmp raw_name buffer c = (r1, c1)" by fastforce
  obtain x where x: "prefix x (buffer @ input_bytes (wc_in c))" and eff: "if r1 = Inr True
     then \<exists>dest. dest \<noteq> tmp \<and> fs_lookup dest (wc_world c) = None \<and> below (inbox_dir (wc_server c)) dest
       \<and> (\<forall>p. fs_lookup p (wc_world c1) = (if p = dest then Some x else if p = tmp then None else fs_lookup p (wc_world c)))
     else \<forall>p. fs_lookup p (wc_world c1) = (if p = tmp then Some x else fs_lookup p (wc_world c))"
    using upload_run_effect [OF u assms(2)] by blast
  have sub: "sublist x (buffer @ input_bytes (wc_in c))" using x by (rule prefix_imp_sublist)
  show ?thesis
  proof (cases "r1 = Inr True")
    case True
    have w': "wc_world c' = wc_world c1"
      using with_tmp_guard_effect(1) [OF assms(1)] True u by simp
    obtain dest where dest: "dest \<noteq> tmp" "fs_lookup dest (wc_world c) = None"
        "below (inbox_dir (wc_server c)) dest"
      and all: "\<And>p. fs_lookup p (wc_world c1) = (if p = dest then Some x else if p = tmp then None else fs_lookup p (wc_world c))"
      using eff True by auto
    have "fs_lookup p (wc_world c1) = (if p = dest then Some x else fs_lookup p w)" for p
      using all [of p] assms(4,5) by auto
    moreover have "fs_lookup dest w = None" using dest assms(4) by metis
    ultimately show ?thesis using sub w' dest(3) by (auto simp: only_adds_def split: if_splits)
  next
    case False
    then have "\<forall>p. p \<noteq> tmp \<longrightarrow> fs_lookup p (wc_world c') = fs_lookup p w" "fs_lookup tmp (wc_world c') \<in> {None, Some x}"
      using with_tmp_guard_effect [OF assms(1)] u eff assms(4) by auto
    then have "\<exists>y. y \<in> {None, Some x} \<and> (\<forall>p. fs_lookup p (wc_world c') = (if p = tmp then y else fs_lookup p w))" by auto
    then obtain y where "y \<in> {None, Some x}" "\<And>p. fs_lookup p (wc_world c') = (if p = tmp then y else fs_lookup p w)" by blast
    then show ?thesis using sub assms(3,5) by (auto simp: only_adds_def split: if_splits)
  qed
qed

text \<open>Reading the head of a request or of a part changes nothing but the activity.\<close>

definition undisturbed :: "web_conn \<Rightarrow> web_conn \<Rightarrow> bool" where
  "undisturbed c c' \<longleftrightarrow> wc_random c' = wc_random c \<and> wc_world c' = wc_world c \<and> same_setup (wc_server c) (wc_server c')"

lemma undisturbed_trans: "undisturbed c c1 \<Longrightarrow> undisturbed c1 c2 \<Longrightarrow> undisturbed c c2"
  by (auto simp: undisturbed_def intro: same_setup_trans)

lemma undisturbed_read: "wc_read cap limit c = (r, c') \<Longrightarrow> undisturbed c c'"
  using wc_read_world [of cap limit c r c'] by (auto simp: undisturbed_def wc_read_def split: prod.splits)

lemma undisturbed_inbox: "undisturbed c c' \<Longrightarrow> inbox_dir (wc_server c') = inbox_dir (wc_server c)"
  by (simp add: undisturbed_def same_setup_def inbox_dir_def)

lemma undisturbed_fresh: "undisturbed c c' \<Longrightarrow> tmp_fresh c \<Longrightarrow> tmp_fresh c'"
  using undisturbed_inbox [of c c'] by (simp add: undisturbed_def tmp_fresh_def)

lemma read_headers_undisturbed:
  "read_headers buf c = (r, c') \<Longrightarrow> undisturbed c c'
     \<and> (\<forall>b n. r = Inr (Some (b, n)) \<longrightarrow> b @ input_bytes (wc_in c') = buf @ input_bytes (wc_in c))"
proof (induction buf c rule: read_headers.induct)
  case (1 buf c)
  obtain r1 c1 where rd: "wc_read 1024 (Some HEADER_READ_TIMEOUT) c = (r1, c1)" by fastforce
  note u = undisturbed_read [OF rd]
  show ?case
  proof (cases "\<exists>d. r1 = ReadData d \<and> d \<noteq> []")
    case True
    then obtain d where d: "r1 = ReadData d" "d \<noteq> []" by blast
    have inp: "input_bytes (wc_in c) = d @ input_bytes (wc_in c1)" using wc_read_data [OF rd [unfolded d(1)] d(2)] by simp
    show ?thesis
    proof (cases "find_sub blank_line (buf @ d) = None \<and> \<not> length (buf @ d) > 8192")
      case True
      then have "read_headers (buf @ d) c1 = (r, c')"
        using "1.prems" rd d by (simp add: read_headers.simps [of buf c])
      then show ?thesis
        using "1.IH" [OF rd [symmetric] d] True inp undisturbed_trans [OF u] by auto
    next
      case False
      then show ?thesis using "1.prems" rd d u inp by (auto simp: read_headers.simps [of buf c] split: option.splits)
    qed
  next
    case False
    then show ?thesis using "1.prems" rd u by (cases r1) (auto simp: read_headers.simps [of buf c])
  qed
qed

lemma read_part_undisturbed:
  "read_part lib buf c = (r, c') \<Longrightarrow> wc_world c' = wc_world c
     \<and> (\<forall>nm b. r = Inr (Some (nm, b)) \<longrightarrow> undisturbed c c' \<and> sublist (b @ input_bytes (wc_in c')) (buf @ input_bytes (wc_in c)))"
proof (induction lib buf c rule: read_part.induct)
  case (1 lib buf c)
  have err: "wc_world c2 = wc_world c1" "\<not> (\<exists>p. r2 = Inr (Some p))"
    if "io_then (send_web_error st m c1) (\<lambda>_ c. (Inr None, c)) = (r2, c2)" for st m c1 c2 and r2 :: "web_error + (string option \<times> bytes) option"
  proof -
    obtain r0 c0 where e: "send_web_error st m c1 = (r0, c0)" by fastforce
    then have "wc_world c0 = wc_world c1" by (metis snd_conv wc_world_error(1))
    then show "wc_world c2 = wc_world c1" "\<not> (\<exists>p. r2 = Inr (Some p))" using that e by (cases r0; auto)+
  qed
  show ?case
  proof (cases "find_sub blank_line buf")
    case (Some pos)
    have "sublist (drop (pos + 4) buf @ input_bytes (wc_in c)) (buf @ input_bytes (wc_in c))"
      by (metis append_assoc append_take_drop_id sublist_append_leftI sublist_order.order_refl)
    then show ?thesis
      using "1.prems" Some by (auto simp: read_part.simps [of lib buf c] undisturbed_def split: sum.splits)
  next
    case None
    obtain r1 c1 where rd: "wc_read BUF_SIZE None c = (r1, c1)" by fastforce
    note u = undisturbed_read [OF rd]
    consider "length buf > 16384" | d where "\<not> length buf > 16384" "r1 = ReadData d" "d \<noteq> []"
      | "\<not> length buf > 16384" "\<not> (\<exists>d. r1 = ReadData d \<and> d \<noteq> [])" by blast
    then show ?thesis
    proof cases
      case 1
      then show ?thesis using "1.prems" None err by (auto simp: read_part.simps [of lib buf c])
    next
      case (2 d)
      have "input_bytes (wc_in c) = d @ input_bytes (wc_in c1)" using wc_read_data [OF rd [unfolded 2(2)] 2(3)] by simp
      moreover have "read_part lib (buf @ d) c1 = (r, c')"
        using "1.prems" None 2 rd by (simp add: read_part.simps [of lib buf c])
      ultimately show ?thesis
        using "1.IH" [OF None 2(1) rd [symmetric] 2(2,3)] u undisturbed_trans [OF u] by (auto simp: undisturbed_def [of c c1])
    next
      case 3
      then show ?thesis
        using "1.prems" None rd u err by (cases r1) (auto simp: read_part.simps [of lib buf c] undisturbed_def)
    qed
  qed
qed

lemma only_adds_mono: "only_adds b d w w' \<Longrightarrow> sublist b b' \<Longrightarrow> only_adds b' d w w'"
  using sublist_order.order_trans unfolding only_adds_def by blast

lemma upload_file_effect:
  assumes "upload_file lib b nm buffer c = (r, c')" "tmp_fresh c"
  shows "only_adds (buffer @ input_bytes (wc_in c)) (inbox_dir (wc_server c)) (wc_world c) (wc_world c')"
proof -
  let ?dir = "inbox_dir (wc_server c)"
  obtain r0 w0 where mk: "fs_create_dir_all ?dir (wc_world c) = (r0, w0)" by fastforce
  have w0: "\<forall>p. fs_lookup p w0 = fs_lookup p (wc_world c)" using fs_create_dir_all_effect [OF mk] by blast
  show ?thesis
  proof (cases "\<exists>u f. r0 = Inr u \<and> wc_random c (wc_draws c) = Some f")
    case False
    then have "wc_world c' = w0"
      using assms(1) mk by (cases r0) (auto simp: upload_file_def web_io_def wc_getrandom_def split: option.splits)
    then show ?thesis using w0 only_adds_same [of "wc_world c" c'] by (simp add: kept_files_def)
  next
    case True
    then obtain u f where uf: "r0 = Inr u" "wc_random c (wc_draws c) = Some f" by blast
    let ?rand = "map f [0 ..< 8]"
    let ?tmp = "path_join ?dir (tmp_name ?rand)"
    let ?c1 = "c\<lparr>wc_world := w0, wc_draws := Suc (wc_draws c)\<rparr>"
    let ?raw = "case nm of Some n \<Rightarrow> n | None \<Rightarrow> ''upload_'' @ hex_encode (take 4 ?rand) @ ''.bin''"
    obtain r1 w1 where cr: "fs_create ?tmp w0 = (r1, w1)" by fastforce
    note cre = fs_create_effect(1) [OF cr]
    have run: "(r, c') = io_then (map_err WeIo r1, ?c1\<lparr>wc_world := w1\<rparr>) (\<lambda>_ c.
        with_transfer_guard (with_tmp_guard ?tmp (upload_run lib b ?tmp ?raw buffer)) c)"
      using assms(1) mk uf cr by (simp add: upload_file_def web_io_def wc_getrandom_def tmp_name_def Let_def del: upt_Suc)
    have tmp: "?tmp = ?dir @ [tmp_name ?rand]" using path_join_plain [OF tmp_name_plain] .
    show ?thesis
    proof (cases r1)
      case (Inl e)
      then have "wc_world c' = w1" using run by simp
      then show ?thesis using cre Inl w0 only_adds_same [of "wc_world c" c'] by (simp add: kept_files_def)
    next
      case (Inr v)
      let ?c2 = "on_server transfer_guard_new (?c1\<lparr>wc_world := w1\<rparr>)"
      obtain r2 c2 where g: "with_tmp_guard ?tmp (upload_run lib b ?tmp ?raw buffer) ?c2 = (r2, c2)" by fastforce
      have "wc_world c' = wc_world c2" using run Inr g by (auto simp: with_transfer_guard_def)
      moreover have "fs_lookup ?tmp (wc_world c) = None"
        using assms(2) uf(2) unfolding tmp_fresh_def by blast
      moreover have "inbox_dir (wc_server ?c2) = ?dir" by (simp add: inbox_dir_def transfer_guard_new_def)
      moreover have "below ?dir ?tmp" using below_append [OF _ tmp_name_plain, of "[]"] by (simp add: tmp)
      ultimately show ?thesis
        using guarded_upload_effect [OF g, of "wc_world c"] cre Inr w0 by simp
    qed
  qed
qed

lemma route_upload_effect:
  assumes "route_upload lib ip q buffer c = (r, c')" "tmp_fresh c"
  shows "only_adds (buffer @ input_bytes (wc_in c)) (inbox_dir (wc_server c)) (wc_world c) (wc_world c')"
proof -
  have same: "wc_world c' = wc_world c \<Longrightarrow> ?thesis" using only_adds_same [of "wc_world c" c'] by (simp add: kept_files_def)
  have sent: "snd (send_web_error st m c0) = c' \<Longrightarrow> wc_world c' = wc_world c0"
      "snd (send_response st m bs c0) = c' \<Longrightarrow> wc_world c' = wc_world c0" for st m c0 bs by auto
  show ?thesis
  proof (cases "\<exists>len b hdr. content_length lib (wq_headers q) = Inr len \<and> scan_boundary lib (wq_headers q) = Inr (Some b)
      \<and> bearer_token lib q = Inr hdr \<and> token_accepted (or_query_token q hdr) (wc_server c)
      \<and> \<not> (case len of Some cl \<Rightarrow> cl > wv_max_file_size (wc_server c) | None \<Rightarrow> False)")
    case False
    have "snd (route_upload lib ip q buffer c) = c'" using assms(1) by simp
    then have "wc_world c' = wc_world c"
      using False
      by (cases "content_length lib (wq_headers q)"; cases "scan_boundary lib (wq_headers q)"; cases "bearer_token lib q")
         (auto simp: route_upload_def split: option.splits if_splits)
    then show ?thesis by (rule same)
  next
    case True
    then obtain len b hdr where ok: "content_length lib (wq_headers q) = Inr len" "scan_boundary lib (wq_headers q) = Inr (Some b)"
       "bearer_token lib q = Inr hdr" "token_accepted (or_query_token q hdr) (wc_server c)"
       "\<not> (case len of Some cl \<Rightarrow> cl > wv_max_file_size (wc_server c) | None \<Rightarrow> False)" by blast
    obtain r1 c1 where p: "read_part lib buffer c = (r1, c1)" by fastforce
    note part = read_part_undisturbed [OF p]
    show ?thesis
    proof (cases "\<exists>nm bs. r1 = Inr (Some (nm, bs))")
      case False
      then have "c' = c1" using assms(1) ok p by (cases r1) (auto simp: route_upload_def split: option.splits)
      then show ?thesis using part same by simp
    next
      case True
      then obtain nm bs where r1: "r1 = Inr (Some (nm, bs))" by blast
      then have u: "undisturbed c c1" "sublist (bs @ input_bytes (wc_in c1)) (buffer @ input_bytes (wc_in c))" using part by auto
      have "upload_file lib b nm bs c1 = (r, c')" using assms(1) ok p r1 by (simp add: route_upload_def)
      from upload_file_effect [OF this undisturbed_fresh [OF u(1) assms(2)]] show ?thesis
        using only_adds_mono u(2) undisturbed_inbox [OF u(1)] u(1) by (auto simp: undisturbed_def)
    qed
  qed
qed

lemma blind_world:
  assumes "\<And>w. f (in_world w c) = result_in_world w (f c)"
  shows "wc_world (snd (f c)) = wc_world c"
proof -
  have "in_world (wc_world c) c = c" by (simp add: in_world_def)
  then show ?thesis using assms [of "wc_world c"] by (metis fst_result_in_world(2) in_world_fields(7))
qed

lemma route_request_effect:
  assumes "route_request lib ip q buffer c = (r, c')" "tmp_fresh c"
  shows "only_adds (buffer @ input_bytes (wc_in c)) (inbox_dir (wc_server c)) (wc_world c) (wc_world c')"
proof (cases "wq_method q = ''POST'' \<and> wq_path q = ''/upload''")
  case True
  then show ?thesis using assms route_upload_effect by (simp add: route_request_def)
next
  case False
  have "kept_files (wc_world c) (snd (route_download lib q c))"
    by (rule kept_files_download) (simp add: kept_files_def)
  moreover have "wc_world (snd (route_api_request lib ip q c)) = wc_world c" "wc_world (snd (route_auth lib ip q c)) = wc_world c"
      "wc_world (snd (route_request_status lib q c)) = wc_world c" "wc_world (snd (route_pending lib q c)) = wc_world c"
      "wc_world (snd (route_index lib q c)) = wc_world c"
    by (rule blind_world, simp only: blind_simps)+
  ultimately have "kept_files (wc_world c) (snd (route_request lib ip q buffer c))"
    using False by (auto simp: route_request_def kept_files_def)
  then show ?thesis using assms(1) by (auto intro: only_adds_same)
qed

lemma io_then_err: "\<forall>x. r \<noteq> Inr x \<Longrightarrow> snd (io_then (r, c) f) = c"
  by (cases r) auto

text \<open>
  C30 What a web client can do to files. Whatever a connection sends, and whatever else happens while it is
  served, every file that existed when it was accepted is still there with its content, and a file that
  is new lies below the inbox of the server (its path leaves the inbox through no \<open>..\<close>) and holds a contiguous piece of the bytes the client sent. The names of
  temporary files are random; the premise is that the names that may be drawn are not taken.
\<close>

theorem web_files_confined:
  assumes "tmp_fresh c"
  shows "only_adds (input_bytes (wc_in c)) (inbox_dir (wc_server c)) (wc_world c) (wc_world (snd (handle_connection lib ip c)))"
proof (cases "wv_cancelled (wc_server c)")
  case True
  then show ?thesis by (auto simp: handle_connection_def only_adds_def)
next
  case False
  have adm: "undisturbed c (admitted ip c)" "wc_in (admitted ip c) = wc_in c" "wc_world (admitted ip c) = wc_world c"
    by (auto simp: undisturbed_def admitted_def check_blocked_def bump_activity_def same_setup_def Let_def split: option.splits)
  obtain r1 c1 where rd: "read_headers [] (admitted ip c) = (r1, c1)" by fastforce
  have u: "undisturbed c c1" using undisturbed_trans [OF adm(1)] read_headers_undisturbed [OF rd] by blast
  note hc = handle_connection_admitted [OF False, of lib ip]
  show ?thesis
  proof (cases "\<not> fst (check_blocked ip (bump_activity (wc_server c))) \<and>
      (\<exists>b n q. r1 = Inr (Some (b, n)) \<and> parse_request lib (take n b) = Inr q)")
    case False
    then have "wc_world (snd (handle_connection lib ip c)) = wc_world c"
      using hc rd u adm(3)
      by (cases r1; cases "fst (check_blocked ip (bump_activity (wc_server c)))")
         (auto simp: undisturbed_def io_then_err split: option.splits)
    then show ?thesis by (auto simp: only_adds_def)
  next
    case True
    then obtain b n q where q: "r1 = Inr (Some (b, n))" "parse_request lib (take n b) = Inr q" by blast
    obtain r' c' where rt: "route_request lib ip q (drop n b) c1 = (r', c')" by fastforce
    have "snd (handle_connection lib ip c) = c'" using hc True rd q rt by simp
    moreover have "sublist (drop n b @ input_bytes (wc_in c1)) (input_bytes (wc_in c))"
      using read_headers_undisturbed [OF rd] q(1) adm(2)
      by (metis append_Nil append_assoc append_take_drop_id sublist_append_leftI sublist_order.order_refl)
    ultimately show ?thesis
      using only_adds_mono [OF route_request_effect [OF rt undisturbed_fresh [OF u assms]]] undisturbed_inbox [OF u] u
      by (simp add: undisturbed_def)
  qed
qed

theorem web_files_confined_witness:
  "fs_lookup [''home'', ''t''] (wc_world (snd (handle_connection sample_lib ''10.0.0.1''
     (sample_conn (sample_request [''POST /upload?t=1234 HTTP/1.1'', ''Content-Type: multipart/form-data; boundary=X'']) sample_world)))) = Some []"
proof -
  let ?c = "sample_conn (sample_request [''POST /upload?t=1234 HTTP/1.1'', ''Content-Type: multipart/form-data; boundary=X'']) sample_world"
  have "tmp_fresh ?c"
    by (simp add: tmp_fresh_def sample_conn_def sample_world_def sample_server_def new_with_expiry_def inbox_dir_def
        path_join_plain [OF tmp_name_plain] path_join_plain [of "''web-inbox''"] plain_name_def fs_lookup_def)
  from web_files_confined [OF this, of sample_lib "''10.0.0.1''"] show ?thesis
    by (auto simp: only_adds_def sample_conn_def sample_world_def fs_lookup_def)
qed

end
