(* ===== verification/Nxfr_Web_Downloads.thy ===== *)
theory Nxfr_Web_Downloads
  imports Nxfr_Web_Upload_Exact
begin

text \<open>
  What a web client receives: the bytes of a file or of the range it asked for, and an archive from
  which a ZIP reader gets back the shared files.
\<close>

section \<open>Sending\<close>

text \<open>The second connection has sent some more bytes and sees the same disk.\<close>

definition sends :: "web_conn \<Rightarrow> bytes \<Rightarrow> web_conn \<Rightarrow> bool" where
  "sends c b c' \<longleftrightarrow> wc_out c' = wc_out c @ b
     \<and> files (wc_world c') = files (wc_world c) \<and> dirs (wc_world c') = dirs (wc_world c)"

lemma sends_refl [simp]: "sends c [] c"
  by (simp add: sends_def)

lemma sends_trans: "sends c a c1 \<Longrightarrow> sends c1 b c2 \<Longrightarrow> sends c (a @ b) c2"
  by (simp add: sends_def)

lemma sends_server [simp]: "sends c b (wc_server_update f c') = sends c b c'" "sends (wc_server_update f c) b c' = sends c b c'"
  by (simp_all add: sends_def)

lemma sends_lookup: "sends c b c' \<Longrightarrow> fs_lookup p (wc_world c') = fs_lookup p (wc_world c)"
  by (simp add: sends_def fs_lookup_def)

lemma sends_exists: "sends c b c' \<Longrightarrow> fs_exists p (wc_world c') = fs_exists p (wc_world c)"
  by (simp add: sends_def fs_exists_def fs_lookup_def)

lemma io_then_ok:
  assumes "io_then m f = (Inr y, c')"
  obtains x c1 where "m = (Inr x, c1)" "f x c1 = (Inr y, c')"
  using assms by (cases m; cases "fst m") auto

lemma write_sends: "wc_write_all dl b c = (Inr u, c') \<Longrightarrow> sends c b c'"
  by (auto simp: wc_write_all_def take_write_fault_def wc_put_def sends_def
      split: list.splits option.splits web_fault.splits)

lemma flush_sends: "wc_flush dl c = (Inr u, c') \<Longrightarrow> sends c [] c'"
  unfolding wc_flush_def by (rule write_sends)

lemma chunk_sends: "write_chunk d c = (Inr u, c') \<Longrightarrow> sends c (http_chunk d) c'"
  by (auto simp: write_chunk_def http_chunk_def Let_def elim!: io_then_ok dest!: write_sends split: if_splits)
     (auto simp: sends_def)

lemma finish_sends: "chunked_finish c = (Inr u, c') \<Longrightarrow> sends c chunk_last c'"
  by (auto simp: chunked_finish_def Let_def elim!: io_then_ok dest!: write_sends flush_sends) (auto simp: sends_def)

lemma response_sends:
  "send_response st ct body c = (Inr u, c') \<Longrightarrow> sends c (response_header st ct (length body) @ body) c'"
  by (auto simp: send_response_def elim!: io_then_ok dest!: write_sends flush_sends split: if_splits)
     (auto simp: sends_def)

lemma web_io_sends:
  assumes "web_io f c = (r, c')"
    and "\<And>w r w'. f w = (r, w') \<Longrightarrow> files w' = files w \<and> dirs w' = dirs w"
  shows "sends c [] c'"
  using assms by (auto simp: web_io_def sends_def split: prod.splits)

lemma read_at_sends:
  assumes "web_io (fs_read_at h pos n) c = (Inr d, c')"
  shows "sends c [] c'" "\<exists>b. h = Some b \<and> d = take n (drop pos b)"
proof -
  show "sends c [] c'"
    by (rule web_io_sends [OF assms]) (auto simp: fs_read_at_def fault_cases split: fault_splits)
  show "\<exists>b. h = Some b \<and> d = take n (drop pos b)"
    using assms by (cases h) (auto simp: web_io_def fs_read_at_def fault_cases result_simps split: fault_splits sum.splits)
qed

lemma open_sends:
  assumes "web_io (fs_open p) c = (r, c')"
  shows "sends c [] c'" "r = Inr h \<Longrightarrow> h = fs_lookup p (wc_world c)"
proof -
  show "sends c [] c'"
    by (rule web_io_sends [OF assms]) (auto simp: fs_open_def fault_cases split: fault_splits if_splits)
  show "r = Inr h \<Longrightarrow> h = fs_lookup p (wc_world c)"
    using assms by (auto simp: web_io_def fs_open_def fault_cases split: fault_splits if_splits)
qed

lemma seek_sends: "web_io fs_seek c = (r, c') \<Longrightarrow> sends c [] c'"
  by (rule web_io_sends) (auto simp: fs_seek_def fault_cases split: fault_splits)

lemma sanitize_sends:
  assumes "wc_sanitize_filename lib n c = (f, c')"
  shows "sends c [] c'" "\<exists>r. f = sanitize_filename (wl_alphanumeric lib) r n"
  using assms by (auto simp: wc_sanitize_filename_def wc_getrandom_def sends_def split: if_splits)

section \<open>A file or a range\<close>

lemma send_range_sends:
  "send_range (Some b) pos n c = (Inr u, c') \<Longrightarrow> sends c (take n (drop pos b)) c'"
proof (induction "Some b" pos n c rule: send_range.induct)
  case (1 pos n c)
  show ?case
  proof (cases "n = 0")
    case True
    then show ?thesis using "1.prems" by (simp add: send_range.simps [of _ pos 0 c])
  next
    case False
    obtain d c1 where rd: "web_io (fs_read_at (Some b) pos (min n BUF_SIZE)) c = (Inr d, c1)"
      using "1.prems" False by (cases "web_io (fs_read_at (Some b) pos (min n BUF_SIZE)) c"; cases "fst (web_io (fs_read_at (Some b) pos (min n BUF_SIZE)) c)")
         (auto simp: send_range.simps [of _ pos n c])
    note d = read_at_sends [OF rd]
    show ?thesis
    proof (cases "d = []")
      case True
      then have "take n (drop pos b) = []" using d(2) False by (auto simp: BUF_SIZE_def min_def split: if_splits)
      then show ?thesis using "1.prems" False True rd d(1) by (simp add: send_range.simps [of _ pos n c])
    next
      case ne: False
      obtain v c2 where wr: "wc_write_all download_deadline d c1 = (Inr v, c2)"
        using "1.prems" False ne rd by (cases "wc_write_all download_deadline d c1"; cases "fst (wc_write_all download_deadline d c1)")
           (auto simp: send_range.simps [of _ pos n c])
      have "send_range (Some b) (pos + length d) (n - length d) (on_server bump_activity c2) = (Inr u, c')"
        using "1.prems" False ne rd wr by (simp add: send_range.simps [of _ pos n c])
      from "1.hyps" [OF False rd [symmetric] refl ne wr [symmetric] refl this]
      have "sends c (d @ take (n - length d) (drop (pos + length d) b)) c'"
        using sends_trans [OF d(1) sends_trans [OF write_sends [OF wr]]] by simp
      moreover have "d @ take (n - length d) (drop (pos + length d) b) = take n (drop pos b)"
      proof -
        have "d = take (length d) (drop pos b)" "length d \<le> n" using d(2) by (auto simp: min_def)
        then show ?thesis by (metis add.commute drop_drop le_add_diff_inverse take_add)
      qed
      ultimately show ?thesis by simp
    qed
  qed
qed

lemma send_whole_sends:
  "send_whole (Some b) pos c = (Inr u, c') \<Longrightarrow> sends c (drop pos b) c'"
proof (induction "Some b" pos c rule: send_whole.induct)
  case (1 pos c)
  obtain d c1 where rd: "web_io (fs_read_at (Some b) pos BUF_SIZE) c = (Inr d, c1)"
    using "1.prems" by (cases "web_io (fs_read_at (Some b) pos BUF_SIZE) c"; cases "fst (web_io (fs_read_at (Some b) pos BUF_SIZE) c)")
       (auto simp: send_whole.simps [of _ pos c])
  note d = read_at_sends [OF rd]
  show ?case
  proof (cases "d = []")
    case True
    then have "drop pos b = []" using d(2) by (auto simp: BUF_SIZE_def)
    then show ?thesis using "1.prems" True rd d(1) by (simp add: send_whole.simps [of _ pos c])
  next
    case False
    obtain v c2 where wr: "wc_write_all download_deadline d c1 = (Inr v, c2)"
      using "1.prems" False rd by (cases "wc_write_all download_deadline d c1"; cases "fst (wc_write_all download_deadline d c1)")
         (auto simp: send_whole.simps [of _ pos c])
    have "send_whole (Some b) (pos + length d) (on_server bump_activity c2) = (Inr u, c')"
      using "1.prems" False rd wr by (simp add: send_whole.simps [of _ pos c])
    from "1.hyps" [OF rd [symmetric] refl False wr [symmetric] refl this]
    have "sends c (d @ drop (pos + length d) b) c'"
      using sends_trans [OF d(1) sends_trans [OF write_sends [OF wr]]] by simp
    moreover have "d @ drop (pos + length d) b = drop pos b"
    proof -
      have "d = take (length d) (drop pos b)" using d(2) by (auto simp: min_def)
      then show ?thesis by (metis add.commute append_take_drop_id drop_drop)
    qed
    ultimately show ?thesis by simp
  qed
qed

text \<open>The answer to a download, given the name the file is offered under.\<close>

definition download_reply :: "WebShareItem \<Rightarrow> string option \<Rightarrow> bytes \<Rightarrow> string \<Rightarrow> bytes" where
  "download_reply item range_header content safe_name =
     (case range_header of
        None \<Rightarrow> full_header (item_mime item) (wi_size item) safe_name @ content
      | Some v \<Rightarrow>
          (case parse_range_header v (wi_size item) of
             None \<Rightarrow> unsatisfiable_header (wi_size item)
           | Some (a, z) \<Rightarrow> partial_header (item_mime item) a z (wi_size item) safe_name
               @ take (unat z + 1 - unat a) (drop (unat a) content)))"

lemma range_length: "a \<le> z \<Longrightarrow> z < n \<Longrightarrow> unat (z - a + 1) = unat z + 1 - unat a" for a z n :: u64
proof -
  assume az: "a \<le> z" "z < n"
  have "unat (z - a) = unat z - unat a" using az(1) by (rule unat_sub)
  moreover have "unat z < unat n" using az(2) by (simp add: word_less_nat_alt)
  moreover have "unat n < 2 ^ 64" using unsigned_less [where ?'a = nat, of n] by simp
  ultimately have "unat (z - a) + 1 < 2 ^ 64" by simp
  then have "unat (z - a + 1) = unat (z - a) + 1" by (simp add: unat_word_ariths)
  then show ?thesis using \<open>unat (z - a) = unat z - unat a\<close> az(1) by (simp add: word_le_nat_alt)
qed

lemma guard_ok:
  assumes "with_transfer_guard f c = (Inr u, c')"
  obtains c1 where "f (on_server transfer_guard_new c) = (Inr u, c1)" "c' = on_server transfer_guard_drop c1"
  using assms by (auto simp: with_transfer_guard_def split: prod.splits)

lemma finish_download_sends: "finish_download c = (Inr u, c') \<Longrightarrow> sends c [] c'"
  by (auto simp: finish_download_def elim!: io_then_ok dest!: flush_sends)

lemma send_item_sends:
  assumes "send_item lib item rng (Some b) c = (Inr u, c')"
  shows "\<exists>safe_name. plain_name safe_name \<and> sends c (download_reply item rng b safe_name) c'"
proof -
  obtain nm c0 where s: "wc_sanitize_filename lib (wi_name item) c = (nm, c0)" by fastforce
  have nm: "plain_name nm" using sanitize_sends(2) [OF s] sanitize_filename_plain by auto
  have "sends c0 (download_reply item rng b nm) c'"
  proof (cases rng)
    case None
    then show ?thesis using assms
      by (auto simp: send_item_def s download_reply_def elim!: io_then_ok guard_ok
          dest!: write_sends send_whole_sends finish_download_sends) (auto simp: sends_def)
  next
    case (Some v)
    show ?thesis
    proof (cases "parse_range_header v (wi_size item)")
      case None
      then show ?thesis using assms Some
        by (auto simp: send_item_def s download_reply_def elim!: io_then_ok dest!: write_sends flush_sends) (auto simp: sends_def)
    next
      case (Some p)
      obtain a z where p: "p = (a, z)" by fastforce
      have "unat (z - a + 1) = unat z + 1 - unat a"
        using parse_range_bounds [of v "wi_size item" a z] Some p range_length by auto
      then show ?thesis using assms \<open>rng = Some v\<close> Some p
        by (auto simp: send_item_def s download_reply_def elim!: io_then_ok guard_ok
            dest!: write_sends send_range_sends seek_sends finish_download_sends) (auto simp: sends_def)
    qed
  qed
  then show ?thesis using nm sends_trans [OF sanitize_sends(1) [OF s]] by fastforce
qed

text \<open>Without a fault of the disk or of the connection, every step succeeds.\<close>

definition faultless :: "web_conn \<Rightarrow> bool" where
  "faultless c \<longleftrightarrow> wc_write_faults c = [] \<and> io_faults (wc_world c) = []"

lemma faultless_update [simp]:
  "faultless (wc_server_update f c) = faultless c" "faultless (wc_draws_update g c) = faultless c" "faultless (wc_put b c) = faultless c"
  by (simp_all add: faultless_def wc_put_def)

lemma wc_world_put [simp]: "wc_world (wc_put b c) = wc_world c"
  by (simp add: wc_put_def)

lemma faultless_write [simp]: "faultless c \<Longrightarrow> wc_write_all dl b c = (Inr (), wc_put b c)"
  by (simp add: faultless_def wc_write_all_def take_write_fault_def)

lemma faultless_flush [simp]: "faultless c \<Longrightarrow> wc_flush dl c = (Inr (), wc_put [] c)"
  by (simp add: wc_flush_def)

lemma faultless_io:
  "faultless c \<Longrightarrow> web_io (fs_read_at (Some b) pos n) c = (Inr (take n (drop pos b)), c)"
  "faultless c \<Longrightarrow> fs_exists p (wc_world c) \<Longrightarrow> web_io (fs_open p) c = (Inr (fs_lookup p (wc_world c)), c)"
  "faultless c \<Longrightarrow> web_io fs_seek c = (Inr (), c)"
  by (simp_all add: faultless_def web_io_def fs_read_at_def fs_open_def fs_seek_def fault_cases)

lemma faultless_sanitize: "faultless c \<Longrightarrow> wc_sanitize_filename lib n c = (f, c') \<Longrightarrow> faultless c'"
  by (auto simp: wc_sanitize_filename_def wc_getrandom_def split: if_splits)

lemma faultless_send_range: "faultless c \<Longrightarrow> \<exists>c'. send_range (Some b) pos n c = (Inr (), c') \<and> faultless c'"
proof (induction "Some b" pos n c rule: send_range.induct)
  case (1 pos n c)
  show ?case
    using 1 by (subst send_range.simps) (auto simp: faultless_io)
qed

lemma faultless_send_whole: "faultless c \<Longrightarrow> \<exists>c'. send_whole (Some b) pos c = (Inr (), c') \<and> faultless c'"
proof (induction "Some b" pos c rule: send_whole.induct)
  case (1 pos c)
  show ?case
    using 1 by (subst send_whole.simps) (auto simp: faultless_io)
qed

lemma faultless_finish: "faultless c \<Longrightarrow> fst (finish_download c) = Inr ()"
  by (simp add: finish_download_def)

lemma faultless_send_item: "faultless c \<Longrightarrow> fst (send_item lib item rng (Some b) c) = Inr ()"
proof -
  assume c: "faultless c"
  obtain nm c0 where s: "wc_sanitize_filename lib (wi_name item) c = (nm, c0)" by fastforce
  have c0: "faultless c0" using faultless_sanitize [OF c s] .
  have guard: "fst (with_transfer_guard (\<lambda>c. io_then (f c) (\<lambda>_ c. finish_download c)) c1) = Inr ()"
    if "\<And>c. faultless c \<Longrightarrow> \<exists>c'. f c = (Inr (), c') \<and> faultless c'" "faultless c1" for f :: "web_conn \<Rightarrow> (web_error + unit) \<times> web_conn" and c1
    using that(1) [of "on_server transfer_guard_new c1"] that(2) faultless_finish
    by (auto simp: with_transfer_guard_def split: prod.splits) (metis fst_conv)
  show ?thesis
    using c0 guard faultless_send_range faultless_send_whole
    by (auto simp: send_item_def s faultless_io split: option.splits)
qed

lemma faultless_route_item:
  assumes "faultless c" "parse_u64 (drop 4 (wq_path q)) = Some i" "wv_share_manifest (wc_server c) = Some manifest"
    and "find (\<lambda>item. wi_id item = i) manifest = Some item" "fs_lookup (item_path lib item) (wc_world c) = Some b"
  shows "fst (route_item lib q rng c) = Inr ()"
proof -
  have "fs_exists (item_path lib item) (wc_world c)" using assms(5) by (simp add: fs_exists_def)
  then show ?thesis using assms faultless_send_item by (simp add: route_item_def faultless_io)
qed

definition sample_item :: WebShareItem where
  "sample_item = \<lparr>wi_id = 3, wi_name = ''t'', wi_size = 4, wi_mime = [], wi_path = ''/home/t''\<rparr>"

definition sample_share :: "web_input list \<Rightarrow> web_conn" where
  "sample_share input = \<lparr>wc_in = input, wc_out = [], wc_write_faults = [], wc_random = (\<lambda>_. None), wc_draws = 0,
     wc_server = new_with_expiry ''secret'' 0 0 [] 17396 1000 None ''AA'' (Some [sample_item]) (seconds 600) None,
     wc_world = \<lparr>files = [([''home'', ''t''], [1, 2, 3, 4])], dirs = [[], [''home'']], io_faults = []\<rparr>\<rparr>"

definition sample_web_lib :: web_lib where
  "sample_web_lib = \<lparr>wl_to_lowercase = id, wl_alphanumeric = (\<lambda>_. True), wl_json = (\<lambda>_. ''{}''),
     wl_crc32 = (\<lambda>d. of_nat (length d)), wl_html_page = [], wl_html_download_page = [], wl_html_waiting_page = [], wl_cwd = []\<rparr>"

definition sample_query :: web_request where
  "sample_query = \<lparr>wq_method = ''GET'', wq_path = ''/dl/3'', wq_query = [], wq_headers = [], wq_user_agent = []\<rparr>"

lemma parse_u64_digit: "n < 10 \<Longrightarrow> parse_u64 [dec_digit n] = Some (of_nat n)"
  using parse_u64_dec [of n] by (simp add: dec_string.simps)

lemma sample_range: "parse_range_header ''bytes=1-2'' 4 = Some (1, 2)"
proof -
  have digits: "\<forall>c\<in>set (''1'' @ ''2''). 48 \<le> char_code c \<and> char_code c \<le> 57" by (simp add: char_code_def)
  have "parse_u64 ''1'' = Some 1" "parse_u64 ''2'' = Some 2"
    using parse_u64_digit [of 1] parse_u64_digit [of 2] by (simp_all add: dec_digit_def)
  moreover have "prefix ''bytes='' (range_text ''1'' ''2'')" by (simp add: range_text_def)
  ultimately have "parse_range_header (range_text ''1'' ''2'') 4 = Some (1, 2)"
    using range_text_parts [OF digits] by (simp add: parse_range_header_def Let_def word_le_nat_alt)
  then show ?thesis by (simp add: range_text_def)
qed

text \<open>
  C33 Downloads. When a shared file is asked for and can be opened, and nothing fails afterwards, the client has
  received, after what was sent before, exactly the header for a plain file name followed by the content of the file, or by the bytes
  of the range it asked for, or the answer that the range cannot be satisfied; without a fault nothing fails. Where the
  manifest has the right size of the file, the length and the positions announced for a range are those of the body.
\<close>

theorem download_exact:
  assumes "route_item lib q rng c = (r, c')"
    and "parse_u64 (drop 4 (wq_path q)) = Some i" "wv_share_manifest (wc_server c) = Some manifest"
    and "find (\<lambda>item. wi_id item = i) manifest = Some item"
    and "fs_lookup (item_path lib item) (wc_world c) = Some b"
    and "web_io (fs_open (item_path lib item)) c = (Inr h, c1)"
  shows "(r = Inr () \<longrightarrow> (\<exists>safe_name. plain_name safe_name \<and> wc_out c' = wc_out c @ download_reply item rng b safe_name))
    \<and> (faultless c \<longrightarrow> r = Inr ())
    \<and> (\<forall>v a z. rng = Some v \<and> parse_range_header v (wi_size item) = Some (a, z) \<and> wi_size item = of_nat (length b)
         \<and> length b < 2 ^ 64
         \<longrightarrow> length (take (unat z + 1 - unat a) (drop (unat a) b)) = unat (z - a + 1) \<and> unat z < length b)"
proof (intro conjI allI impI)
  note o1 = open_sends [OF assms(6)]
  have ex: "fs_exists (item_path lib item) (wc_world c)" using assms(5) by (simp add: fs_exists_def)
  assume "r = Inr ()"
  then have "send_item lib item rng (Some b) c1 = (Inr (), c')"
    using assms ex o1(2) [OF refl] by (simp add: route_item_def)
  then show "\<exists>safe_name. plain_name safe_name \<and> wc_out c' = wc_out c @ download_reply item rng b safe_name"
    using send_item_sends o1(1) by (fastforce simp: sends_def)
next
  assume "faultless c"
  from faultless_route_item [OF this assms(2-5)] show "r = Inr ()" using assms(1) by (metis fst_conv)
next
  fix v a z
  assume rng: "rng = Some v \<and> parse_range_header v (wi_size item) = Some (a, z) \<and> wi_size item = of_nat (length b)
    \<and> length b < 2 ^ 64"
  then have az: "a \<le> z" "z < wi_size item" using parse_range_bounds [of v "wi_size item" a z] by auto
  then show "unat z < length b" using rng unat_of_nat_u64 [of "length b"] by (simp add: word_less_nat_alt)
  then show "length (take (unat z + 1 - unat a) (drop (unat a) b)) = unat (z - a + 1)"
    using range_length [OF az] az(1) by (simp add: word_le_nat_alt)
qed

theorem download_exact_witness:
  "\<exists>safe_name. plain_name safe_name \<and> wc_out (snd (route_item sample_web_lib sample_query (Some ''bytes=1-2'') (sample_share [])))
     = partial_header ''application/octet-stream'' 1 2 4 safe_name @ [2, 3]"
proof -
  let ?c = "sample_share []" and ?lib = sample_web_lib
  let ?r = "route_item ?lib sample_query (Some ''bytes=1-2'') ?c"
  have id: "parse_u64 (drop 4 (wq_path sample_query)) = Some 3"
    using parse_u64_digit [of 3] by (simp add: sample_query_def dec_digit_def)
  have path: "item_path ?lib sample_item = [''home'', ''t'']"
    by (simp add: item_path_def sample_item_def path_join_def)
  have ok: "wv_share_manifest (wc_server ?c) = Some [sample_item]" "find (\<lambda>item. wi_id item = 3) [sample_item] = Some sample_item"
      "fs_lookup (item_path ?lib sample_item) (wc_world ?c) = Some [1, 2, 3, 4]"
      "wi_size sample_item = 4" "item_mime sample_item = ''application/octet-stream''" "wc_out ?c = []"
    by (simp_all add: sample_share_def sample_item_def new_with_expiry_def path [unfolded sample_item_def] fs_lookup_def item_mime_def)
  have q: "faultless ?c" by (simp add: faultless_def sample_share_def)
  have "web_io (fs_open (item_path ?lib sample_item)) ?c = (Inr (Some [1, 2, 3, 4]), ?c)"
    using faultless_io(2) [OF q] ok(3) by (simp add: fs_exists_def)
  from download_exact [OF prod.collapse [symmetric] id ok(1-3) this, of "Some ''bytes=1-2''"] q sample_range
  show ?thesis by (simp add: download_reply_def ok)
qed

section \<open>The archive\<close>

lemma zip_copy_sends:
  "zip_copy h pos d c = (Inr d', c') \<Longrightarrow>
     \<exists>b ds. h = Some b \<and> concat ds = drop pos b \<and> d' = d @ drop pos b \<and> sends c (concat (map http_chunk ds)) c'"
proof (induction h pos d c rule: zip_copy.induct)
  case (1 h pos d c)
  obtain x c1 where rd: "web_io (fs_read_at h pos BUF_SIZE) c = (Inr x, c1)"
    using "1.prems" by (cases "web_io (fs_read_at h pos BUF_SIZE) c"; cases "fst (web_io (fs_read_at h pos BUF_SIZE) c)")
       (auto simp: zip_copy.simps [of h pos d c])
  note r = read_at_sends [OF rd]
  obtain b where b: "h = Some b" "x = take BUF_SIZE (drop pos b)" using r(2) by blast
  show ?case
  proof (cases "x = []")
    case True
    then have "drop pos b = []" using b(2) by (auto simp: BUF_SIZE_def)
    then show ?thesis using "1.prems" True rd r(1) b(1)
      by (intro exI [of _ b] exI [of _ "[]"]) (simp add: zip_copy.simps [of _ pos d c])
  next
    case False
    obtain v c2 where wr: "write_chunk x c1 = (Inr v, c2)"
      using "1.prems" False rd by (cases "write_chunk x c1"; cases "fst (write_chunk x c1)")
         (auto simp: zip_copy.simps [of h pos d c])
    have rest: "drop pos b = x @ drop (pos + length x) b"
    proof -
      have "x = take (length x) (drop pos b)" using b(2) by (auto simp: min_def)
      then show ?thesis by (metis add.commute append_take_drop_id drop_drop)
    qed
    have "zip_copy h (pos + length x) (d @ x) (on_server bump_activity c2) = (Inr d', c')"
      using "1.prems" False rd wr by (simp add: zip_copy.simps [of h pos d c])
    from "1.IH" [OF rd [symmetric] refl False wr [symmetric] refl this]
    obtain ds where ds: "concat ds = drop (pos + length x) b" "d' = (d @ x) @ drop (pos + length x) b"
        "sends c2 (concat (map http_chunk ds)) c'" using b(1) by auto
    have "sends c (concat (map http_chunk (x # ds))) c'"
      using sends_trans [OF r(1) sends_trans [OF chunk_sends [OF wr] ds(3)]] by simp
    then show ?thesis using b(1) ds(1,2) rest by (intro exI [of _ b] exI [of _ "x # ds"]) simp
  qed
qed

lemma faultless_chunk [simp]: "faultless c \<Longrightarrow> write_chunk d c = (Inr (), wc_put (http_chunk d) c)"
  by (auto simp: write_chunk_def http_chunk_def Let_def wc_put_def faultless_def)

lemma faultless_zip_copy: "faultless c \<Longrightarrow> \<exists>d' c'. zip_copy (Some b) pos d c = (Inr d', c') \<and> faultless c' \<and> wc_world c' = wc_world c"
proof (induction "Some b" pos d c rule: zip_copy.induct)
  case (1 pos d c)
  show ?case
    using 1 by (subst zip_copy.simps) (auto simp: faultless_io)
qed

text \<open>A file of the archive is one of the items: its name is made plain, its content is that on the disk.\<close>

definition archived :: "web_lib \<Rightarrow> world \<Rightarrow> WebShareItem \<Rightarrow> bytes \<times> bytes \<Rightarrow> bool" where
  "archived lib w item f \<longleftrightarrow>
     (\<exists>r. fst f = text_bytes (sanitize_filename (wl_alphanumeric lib) r (wi_name item)))
     \<and> fs_lookup (item_path lib item) w = Some (snd f)"

definition on_disk :: "web_lib \<Rightarrow> world \<Rightarrow> WebShareItem list \<Rightarrow> WebShareItem list" where
  "on_disk lib w items = filter (\<lambda>item. fs_exists (item_path lib item) w) items"

lemma sends_archived: "sends c b c' \<Longrightarrow> archived lib (wc_world c') = archived lib (wc_world c)"
  by (intro ext) (simp add: archived_def sends_lookup)

lemma sends_on_disk: "sends c b c' \<Longrightarrow> on_disk lib (wc_world c') = on_disk lib (wc_world c)"
  by (intro ext) (simp add: on_disk_def sends_exists)

lemma zip_items_sends:
  "zip_items lib items off es c = (Inr (off', es'), c') \<Longrightarrow>
     \<exists>fs ds. es' = es @ zip_entries (wl_crc32 lib) off fs \<and> off' = off + of_nat (length (zip_files (wl_crc32 lib) fs))
       \<and> concat ds = zip_files (wl_crc32 lib) fs \<and> sends c (concat (map http_chunk ds)) c'
       \<and> list_all2 (archived lib (wc_world c)) (on_disk lib (wc_world c) items) fs"
proof (induction items arbitrary: off es c)
  case Nil
  then show ?case by (intro exI [of _ "[]"]) (simp add: zip_files_def on_disk_def)
next
  case (Cons item items)
  let ?crc = "wl_crc32 lib"
  show ?case
  proof (cases "fs_exists (item_path lib item) (wc_world c)")
    case False
    then show ?thesis using Cons.IH [of off es c] Cons.prems by (simp add: on_disk_def)
  next
    case True
    obtain fname c0 where s: "wc_sanitize_filename lib (wi_name item) c = (fname, c0)" by fastforce
    let ?n = "text_bytes fname"
    from Cons.prems True obtain u1 c1 h c2 d c3 u4 c4 where
      w1: "write_chunk (build_zip_local_header ?n) c0 = (Inr u1, c1)"
      and op: "web_io (fs_open (item_path lib item)) c1 = (Inr h, c2)"
      and cp: "zip_copy h 0 [] c2 = (Inr d, c3)"
      and w4: "write_chunk (build_zip_data_descriptor (?crc d) (of_nat (length d))) c3 = (Inr u4, c4)"
      and more: "zip_items lib items
           (off + of_nat (length (build_zip_local_header ?n)) + of_nat (length d)
             + of_nat (length (build_zip_data_descriptor (?crc d) (of_nat (length d)))))
           (es @ [\<lparr>ze_filename = ?n, ze_file_size = of_nat (length d), ze_crc32 = ?crc d, ze_local_offset = off\<rparr>]) c4
           = (Inr (off', es'), c')"
      by (auto simp: s Let_def elim!: io_then_ok)
    obtain b ds0 where cpd: "h = Some b" "concat ds0 = b" "d = b" "sends c2 (concat (map http_chunk ds0)) c3"
      using zip_copy_sends [OF cp] by auto
    let ?pre = "build_zip_local_header ?n # ds0 @ [build_zip_data_descriptor (?crc d) (of_nat (length d))]"
    have s04: "sends c (concat (map http_chunk ?pre)) c4"
      using sends_trans [OF sanitize_sends(1) [OF s] sends_trans [OF chunk_sends [OF w1]
          sends_trans [OF open_sends(1) [OF op] sends_trans [OF cpd(4) chunk_sends [OF w4]]]]] by simp
    have loc: "concat ?pre = zip_local ?crc (?n, d)" using cpd(2,3) by (simp add: zip_local_def)
    have "fs_lookup (item_path lib item) (wc_world c1) = fs_lookup (item_path lib item) (wc_world c)"
      using sends_lookup [OF sends_trans [OF sanitize_sends(1) [OF s] chunk_sends [OF w1]]] .
    then have arch: "archived lib (wc_world c) item (?n, d)"
      using open_sends(2) [OF op refl] cpd(1,3) sanitize_sends(2) [OF s] by (auto simp: archived_def)
    from Cons.IH [OF more] obtain fs ds where
      fs: "es' = (es @ [\<lparr>ze_filename = ?n, ze_file_size = of_nat (length d), ze_crc32 = ?crc d, ze_local_offset = off\<rparr>])
           @ zip_entries ?crc (off + of_nat (length (zip_local ?crc (?n, d)))) fs"
        "off' = off + of_nat (length (zip_local ?crc (?n, d))) + of_nat (length (zip_files ?crc fs))"
        "concat ds = zip_files ?crc fs" "sends c4 (concat (map http_chunk ds)) c'"
        "list_all2 (archived lib (wc_world c4)) (on_disk lib (wc_world c4) items) fs"
      by (auto simp: zip_local_def add.assoc)
    have "sends c (concat (map http_chunk (?pre @ ds))) c'" using sends_trans [OF s04 fs(4)] by simp
    moreover have "concat (?pre @ ds) = zip_files ?crc ((?n, d) # fs)"
      using loc fs(3) by (simp add: zip_files_def)
    moreover have "list_all2 (archived lib (wc_world c)) (on_disk lib (wc_world c) (item # items)) ((?n, d) # fs)"
      using fs(5) arch True sends_archived [OF s04] sends_on_disk [OF s04] by (simp add: on_disk_def)
    ultimately show ?thesis
      using fs(1,2) by (intro exI [of _ "(?n, d) # fs"] exI [of _ "?pre @ ds"]) (simp add: zip_files_def add.assoc)
  qed
qed

lemma zip_centrals_sends:
  "zip_centrals es off c = (Inr off', c') \<Longrightarrow>
     off' = off + of_nat (length (concat (map zip_central es))) \<and> sends c (concat (map http_chunk (map zip_central es))) c'"
proof (induction es arbitrary: off c)
  case (Cons e es)
  then obtain u c1 where w: "write_chunk (zip_central e) c = (Inr u, c1)"
      "zip_centrals es (off + of_nat (length (zip_central e))) c1 = (Inr off', c')"
    by (auto elim!: io_then_ok)
  from Cons.IH [OF w(2)] show ?case using sends_trans [OF chunk_sends [OF w(1)]] by (simp add: add.assoc)
qed simp

lemma ucast_of_nat_u32: "ucast (of_nat n :: u64) = (of_nat n :: u32)"
  by (rule word_unat_eq_iff [THEN iffD2]) (simp add: unsigned_ucast_eq unat_of_nat take_bit_eq_mod mod_mod_cancel)

lemma faultless_zip_items:
  "faultless c \<Longrightarrow> \<forall>item\<in>set (on_disk lib (wc_world c) items). fs_lookup (item_path lib item) (wc_world c) \<noteq> None \<Longrightarrow>
     \<exists>r c'. zip_items lib items off es c = (Inr r, c') \<and> faultless c'"
proof (induction items arbitrary: off es c)
  case (Cons item items)
  show ?case
  proof (cases "fs_exists (item_path lib item) (wc_world c)")
    case False
    then show ?thesis using Cons.IH [OF Cons.prems(1)] Cons.prems(2) by (simp add: on_disk_def)
  next
    case True
    then obtain b where b: "fs_lookup (item_path lib item) (wc_world c) = Some b" using Cons.prems(2) by (auto simp: on_disk_def)
    obtain fname c0 where s: "wc_sanitize_filename lib (wi_name item) c = (fname, c0)" by fastforce
    have c0: "faultless c0" "wc_world c0 = wc_world c"
      using faultless_sanitize [OF Cons.prems(1) s] s by (auto simp: wc_sanitize_filename_def wc_getrandom_def split: if_splits)
    let ?c1 = "wc_put (http_chunk (build_zip_local_header (text_bytes fname))) c0"
    have c1: "faultless ?c1" "wc_world ?c1 = wc_world c" using c0 by simp_all
    obtain d c2 where cp: "zip_copy (Some b) 0 [] ?c1 = (Inr d, c2)" "faultless c2" "wc_world c2 = wc_world c"
      using faultless_zip_copy [OF c1(1), of b 0 "[]"] c1(2) by auto
    have op: "web_io (fs_open (item_path lib item)) ?c1 = (Inr (Some b), ?c1)"
      using faultless_io(2) [OF c1(1)] c1(2) True b by simp
    have rest: "\<forall>item\<in>set (on_disk lib (wc_world c) items). fs_lookup (item_path lib item) (wc_world c) \<noteq> None"
      using Cons.prems(2) by (auto simp: on_disk_def)
    have "\<exists>r c'. zip_items lib items off' es' (wc_put x c2) = (Inr r, c') \<and> faultless c'" for off' es' x
      using Cons.IH [of "wc_put x c2"] cp(2,3) rest by simp
    then show ?thesis using True s c0 op cp by (simp add: Let_def)
  qed
qed auto

lemma faultless_zip_centrals: "faultless c \<Longrightarrow> \<exists>r c'. zip_centrals es off c = (Inr r, c') \<and> faultless c'"
  by (induction es arbitrary: off c) auto

lemma faultless_send_zip:
  assumes "faultless c" "\<forall>item\<in>set (on_disk lib (wc_world c) manifest). fs_lookup (item_path lib item) (wc_world c) \<noteq> None"
  shows "fst (send_zip lib manifest c) = Inr ()"
proof -
  let ?c0 = "wc_put zip_header c"
  have c0: "faultless ?c0" "wc_world ?c0 = wc_world c" using assms(1) by simp_all
  obtain off es c1 where it: "zip_items lib manifest 0 [] ?c0 = (Inr (off, es), c1)" "faultless c1"
    using faultless_zip_items [OF c0(1)] assms(2) c0(2) by (metis surj_pair)
  obtain off' c2 where "zip_centrals es off c1 = (Inr off', c2)" "faultless c2" using faultless_zip_centrals [OF it(2)] by blast
  then show ?thesis using assms(1) it(1) by (simp add: send_zip_def chunked_finish_def Let_def)
qed

lemma send_zip_sends:
  assumes "send_zip lib manifest c = (Inr u, c')"
  shows "\<exists>fs body. wc_out c' = wc_out c @ zip_header @ body
    \<and> dechunk body = Some (zip_archive (wl_crc32 lib) fs, [])
    \<and> list_all2 (archived lib (wc_world c)) (on_disk lib (wc_world c) manifest) fs
    \<and> (length (zip_files (wl_crc32 lib) fs) < 2 ^ 32 \<and> length fs < 2 ^ 16 \<and> (\<forall>(n, d)\<in>set fs. length n < 2 ^ 16)
       \<longrightarrow> unzip_archive (wl_crc32 lib) (zip_archive (wl_crc32 lib) fs) = Some fs)"
proof -
  let ?crc = "wl_crc32 lib"
  from assms obtain u0 c0 off es c1 off' c2 u3 c3 u4 c4 where
    w0: "wc_write_all None zip_header c = (Inr u0, c0)"
    and it: "zip_items lib manifest 0 [] c0 = (Inr (off, es), c1)"
    and ce: "zip_centrals es off c1 = (Inr off', c2)"
    and w3: "write_chunk (build_zip_eocd (of_nat (length es)) (ucast (off' - off)) (ucast off)) c2 = (Inr u3, c3)"
    and w4: "chunked_finish c3 = (Inr u4, c4)" "c' = on_server count_download c4"
    by (auto simp: send_zip_def elim!: io_then_ok)
  note s0 = write_sends [OF w0]
  obtain fs ds where fs: "es = zip_entries ?crc 0 fs" "off = of_nat (length (zip_files ?crc fs))"
      "concat ds = zip_files ?crc fs" "sends c0 (concat (map http_chunk ds)) c1"
      "list_all2 (archived lib (wc_world c0)) (on_disk lib (wc_world c0) manifest) fs"
    using zip_items_sends [OF it] by auto
  have len: "length (zip_entries ?crc o1 fs) = length fs" for o1 by (induction fs arbitrary: o1) auto
  let ?eocd = "build_zip_eocd (of_nat (length es)) (ucast (off' - off)) (ucast off)"
  have eocd: "?eocd = build_zip_eocd (of_nat (length fs)) (of_nat (length (zip_directory ?crc fs))) (of_nat (length (zip_files ?crc fs)))"
    using zip_centrals_sends [OF ce] fs(1,2) len by (simp add: zip_directory_def ucast_of_nat_u32)
  let ?ds = "ds @ map zip_central es @ [?eocd]"
  let ?body = "concat (map http_chunk ?ds) @ chunk_last @ []"
  have "sends c (zip_header @ ?body) c4"
    using sends_trans [OF s0 sends_trans [OF fs(4) sends_trans [OF conjunct2 [OF zip_centrals_sends [OF ce]]
        sends_trans [OF chunk_sends [OF w3] finish_sends [OF w4(1)]]]]] by simp
  then have "wc_out c' = wc_out c @ zip_header @ ?body" using w4(2) by (simp add: sends_def)
  moreover have "concat ?ds = zip_archive ?crc fs"
    unfolding eocd by (simp add: fs(1,3) zip_archive_def zip_directory_def)
  then have "dechunk ?body = Some (zip_archive ?crc fs, [])" using dechunk_frames [of ?ds "[]"] by simp
  moreover have "list_all2 (archived lib (wc_world c)) (on_disk lib (wc_world c) manifest) fs"
    using fs(5) sends_archived [OF s0] sends_on_disk [OF s0] by simp
  ultimately show ?thesis using unzip_zip_archive [of ?crc fs] by blast
qed

text \<open>
  C32 The archive. Sending all shared files as an archive succeeds when no fault occurs and none of the items on the
  disk is a directory. When it succeeds the client has received the header and a body in chunks. Decoded, the body is an archive of the items that are on the disk, in the order of the
  manifest, with their contents; and a ZIP reader gets these files back, as long as the archive stays within the limits of
  the format (less than 4 GiB, fewer than 65536 files, names shorter than 64 KiB).
\<close>

theorem zip_download_exact:
  assumes "send_zip lib manifest c = (r, c')"
  shows "(faultless c \<and> (\<forall>item\<in>set (on_disk lib (wc_world c) manifest). fs_lookup (item_path lib item) (wc_world c) \<noteq> None)
      \<longrightarrow> r = Inr ())
    \<and> (r = Inr () \<longrightarrow> (\<exists>fs body. wc_out c' = wc_out c @ zip_header @ body
        \<and> dechunk body = Some (zip_archive (wl_crc32 lib) fs, [])
        \<and> list_all2 (archived lib (wc_world c)) (on_disk lib (wc_world c) manifest) fs
        \<and> (length (zip_files (wl_crc32 lib) fs) < 2 ^ 32 \<and> length fs < 2 ^ 16 \<and> (\<forall>(n, d)\<in>set fs. length n < 2 ^ 16)
           \<longrightarrow> unzip_archive (wl_crc32 lib) (zip_archive (wl_crc32 lib) fs) = Some fs)))"
  using assms faultless_send_zip [of c lib manifest] send_zip_sends [of lib manifest c "()" c'] by auto

theorem zip_download_exact_witness:
  "\<exists>body archive. wc_out (snd (send_zip sample_web_lib [sample_item] (sample_share []))) = zip_header @ body
     \<and> dechunk body = Some (archive, []) \<and> unzip_archive (wl_crc32 sample_web_lib) archive = Some [(text_bytes ''t'', [1, 2, 3, 4])]"
proof -
  let ?c = "sample_share []" and ?lib = sample_web_lib
  have path: "item_path ?lib sample_item = [''home'', ''t'']"
    by (simp add: item_path_def sample_item_def path_join_def)
  have content: "fs_lookup [''home'', ''t''] (wc_world ?c) = Some [1, 2, 3, 4]" "wc_out ?c = []"
    by (simp_all add: sample_share_def fs_lookup_def)
  then have disk: "on_disk ?lib (wc_world ?c) [sample_item] = [sample_item]" by (simp add: on_disk_def path fs_exists_def)
  have name: "sanitize_filename (wl_alphanumeric ?lib) rnd (wi_name sample_item) = ''t''" for rnd
    by (simp add: sanitize_filename_def sample_item_def sample_web_lib_def sanitize_chars_def sanitize_char_def
        needs_random_name_def char_code_def Let_def is_alphanumeric_def is_ascii_alphanumeric_def is_ascii_alphabetic_def
        str_trim_matches_def)
  have q: "faultless ?c" by (simp add: faultless_def sample_share_def)
  note z = zip_download_exact [of ?lib "[sample_item]" ?c, OF prod.collapse [symmetric]]
  have "fst (send_zip ?lib [sample_item] ?c) = Inr ()" using conjunct1 [OF z] q content(1) path disk by auto
  from mp [OF conjunct2 [OF z] this]
  obtain fs body where fs: "wc_out (snd (send_zip ?lib [sample_item] ?c)) = zip_header @ body"
      "dechunk body = Some (zip_archive (wl_crc32 ?lib) fs, [])"
      "list_all2 (archived ?lib (wc_world ?c)) [sample_item] fs"
      "length (zip_files (wl_crc32 ?lib) fs) < 2 ^ 32 \<and> length fs < 2 ^ 16 \<and> (\<forall>(n, d)\<in>set fs. length n < 2 ^ 16)
           \<longrightarrow> unzip_archive (wl_crc32 ?lib) (zip_archive (wl_crc32 ?lib) fs) = Some fs"
    unfolding disk content(2) append_Nil by blast
  have "fs = [(text_bytes ''t'', [1, 2, 3, 4])]"
    using fs(3) content(1) by (auto simp: list_all2_Cons1 archived_def name path)
  then show ?thesis
    using fs by (auto simp: zip_files_def zip_local_def build_zip_local_header_def build_zip_data_descriptor_def text_bytes_def)
qed

end
