(* ===== verification/Nxfr_Web_Life.thy ===== *)
theory Nxfr_Web_Life
  imports Nxfr_Web_Safety
begin

text \<open>
  The rate limit of the web server and the end of its accept loop.
\<close>

section \<open>The rate limit\<close>

text \<open>What happens to the server over a while: time passes, and another operation is completed.\<close>

definition run_events :: "(nat \<times> web_action) list \<Rightarrow> WebServer \<Rightarrow> WebServer" where
  "run_events = fold (\<lambda>(d, a) s. run_action a (pass_time d s))"

definition event_time :: "(nat \<times> web_action) list \<Rightarrow> nat" where
  "event_time es = sum_list (map fst es)"

definition failures_of :: "IpAddr \<Rightarrow> (nat \<times> web_action) list \<Rightarrow> nat" where
  "failures_of ip es = length (filter (\<lambda>(d, a). a = WaRecordFailure ip) es)"

lemma run_events_simps [simp]:
  "run_events [] s = s" "run_events ((d, a) # es) s = run_events es (run_action a (pass_time d s))"
  "run_events (es @ fs) s = run_events fs (run_events es s)"
  by (simp_all add: run_events_def)

lemma event_time_simps [simp]: "event_time [] = 0" "event_time ((d, a) # es) = d + event_time es"
  "event_time (es @ fs) = event_time es + event_time fs"
  by (simp_all add: event_time_def)

lemma failures_of_simps [simp]: "failures_of ip [] = 0"
  "failures_of ip ((d, a) # es) = (if a = WaRecordFailure ip then 1 else 0) + failures_of ip es"
  by (simp_all add: failures_of_def)

lemma wv_now_action [simp]: "wv_now (run_action a s) = wv_now s"
  by (cases a) (auto simp: set_auto_accept_def web_stop_def bump_activity_def check_blocked_def record_failure_def insert_request_def
      transfer_guard_new_def transfer_guard_drop_def count_download_def respond_to_request_def Let_def
      split: option.splits prod.splits if_splits)

lemma wv_now_pass [simp]: "wv_now (pass_time d s) = wv_now s + d" "wv_failed_attempts (pass_time d s) = wv_failed_attempts s"
  by (simp_all add: pass_time_def)

lemma wv_now_events [simp]: "wv_now (run_events es s) = wv_now s + event_time es"
  by (induction es arbitrary: s) auto

text \<open>The entry of an address, changed by its own failures and by the end of its block only.\<close>

definition entry :: "IpAddr \<Rightarrow> WebServer \<Rightarrow> (u32 \<times> nat) option" where
  "entry ip s = map_of (wv_failed_attempts s) ip"

lemma entry_pass [simp]: "entry ip (pass_time d s) = entry ip s"
  by (simp add: entry_def)

lemma entry_bump [simp]: "entry ip (bump_activity s) = entry ip s"
  by (simp add: entry_def bump_activity_def)

lemma entry_failure: "entry ip (record_failure ip s) =
    Some (case entry ip s of None \<Rightarrow> 1
          | Some (n, t) \<Rightarrow> if wv_now s - t > RATE_LIMIT_WINDOW then 1 else n + 1, wv_now s)"
  by (auto simp: entry_def record_failure_def Let_def update_conv' split: option.splits)

lemma entry_check: "entry ip (snd (check_blocked ip s)) =
    (case entry ip s of None \<Rightarrow> None
     | Some (n, t) \<Rightarrow> if n \<ge> MAX_FAILED_ATTEMPTS \<and> BLOCK_DURATION \<le> wv_now s - t then None else Some (n, t))"
  by (auto simp: entry_def check_blocked_def delete_conv' split: option.splits)

lemma entry_other:
  "a \<noteq> WaRecordFailure ip \<Longrightarrow> a \<noteq> WaCheckBlocked ip \<Longrightarrow> entry ip (run_action a s) = entry ip s"
  by (cases a) (auto simp: entry_def set_auto_accept_def web_stop_def bump_activity_def check_blocked_def record_failure_def insert_request_def
      transfer_guard_new_def transfer_guard_drop_def count_download_def respond_to_request_def Let_def update_conv' delete_conv'
      split: option.splits prod.splits if_splits)

text \<open>Within the window the failures of an address add up, whatever else happens.\<close>

definition recent :: "IpAddr \<Rightarrow> nat \<Rightarrow> nat \<Rightarrow> WebServer \<Rightarrow> bool" where
  "recent ip since k s \<longleftrightarrow> k = 0 \<or> (\<exists>n t. entry ip s = Some (n, t) \<and> since \<le> t \<and> k \<le> unat n)"

definition entry_count :: "IpAddr \<Rightarrow> WebServer \<Rightarrow> nat" where
  "entry_count ip s = (case entry ip s of None \<Rightarrow> 0 | Some (n, t) \<Rightarrow> unat n)"

lemma unat_Suc_u32: "unat n + 1 < 2 ^ 32 \<Longrightarrow> unat (n + 1 :: u32) = unat n + 1"
  by (simp add: unat_word_ariths)

lemma recent_step:
  assumes "recent ip since k s" "entry_count ip s + 1 < 2 ^ 32" "since \<le> wv_now s" "wv_now s \<le> since + RATE_LIMIT_WINDOW"
  shows "recent ip since (k + (if a = WaRecordFailure ip then 1 else 0)) (run_action a s)"
    and "entry_count ip (run_action a s) \<le> entry_count ip s + (if a = WaRecordFailure ip then 1 else 0)"
proof -
  have quick: "RATE_LIMIT_WINDOW < BLOCK_DURATION" by (simp add: RATE_LIMIT_WINDOW_def BLOCK_DURATION_def seconds_def)
  consider "a = WaRecordFailure ip" | "a = WaCheckBlocked ip" | "a \<noteq> WaRecordFailure ip" "a \<noteq> WaCheckBlocked ip" by blast
  then show "recent ip since (k + (if a = WaRecordFailure ip then 1 else 0)) (run_action a s)"
  proof cases
    case 1
    then show ?thesis using assms
      by (cases "entry ip s") (auto simp: recent_def entry_failure entry_count_def unat_Suc_u32 split: if_splits)
  next
    case 2
    then show ?thesis using assms quick by (auto simp: recent_def entry_check split: option.splits)
  qed (use assms(1) in \<open>auto simp: recent_def entry_other\<close>)
  show "entry_count ip (run_action a s) \<le> entry_count ip s + (if a = WaRecordFailure ip then 1 else 0)"
    using assms(2)
    by (cases "a = WaRecordFailure ip"; cases "a = WaCheckBlocked ip"; cases "entry ip s")
       (auto simp: entry_count_def entry_failure entry_check entry_other unat_Suc_u32 split: if_splits option.splits)
qed

lemma recent_events:
  assumes "recent ip since k s" "entry_count ip s + failures_of ip es < 2 ^ 32 - 1" "since \<le> wv_now s"
    and "wv_now s + event_time es \<le> since + RATE_LIMIT_WINDOW"
  shows "recent ip since (k + failures_of ip es) (run_events es s)
    \<and> entry_count ip (run_events es s) \<le> entry_count ip s + failures_of ip es"
  using assms
proof (induction es arbitrary: k s)
  case (Cons e es)
  obtain d a where e: "e = (d, a)" by fastforce
  let ?s = "pass_time d s"
  have p: "recent ip since k ?s" "entry_count ip ?s = entry_count ip s"
    using Cons.prems(1) by (simp_all add: recent_def entry_count_def)
  have small: "entry_count ip ?s + 1 < 2 ^ 32" "since \<le> wv_now ?s" "wv_now ?s \<le> since + RATE_LIMIT_WINDOW"
    using Cons.prems p(2) by (auto simp: e)
  note st = recent_step [OF p(1) small, of a]
  have "recent ip since (k + (if a = WaRecordFailure ip then 1 else 0) + failures_of ip es) (run_events es (run_action a ?s))
      \<and> entry_count ip (run_events es (run_action a ?s)) \<le> entry_count ip (run_action a ?s) + failures_of ip es"
    using Cons.prems p(2) st by (intro Cons.IH) (auto simp: e split: if_splits)
  then show ?case using st(2) p(2) by (auto simp: e add.assoc split: if_splits)
qed simp

text \<open>An entry stays until its address fails again or its block is over.\<close>

lemma entry_kept:
  assumes "entry ip s = Some (n, t)" "failures_of ip es = 0" "t \<le> wv_now s"
  shows "entry ip (run_events es s) \<in> {None, Some (n, t)}
    \<and> (wv_now s + event_time es < t + BLOCK_DURATION \<longrightarrow> entry ip (run_events es s) = Some (n, t))"
proof -
  have gone: "entry ip (run_events es s) = None" if "entry ip s = None" "failures_of ip es = 0" for es s
    using that
  proof (induction es arbitrary: s)
    case (Cons e es)
    obtain d a where e: "e = (d, a)" by fastforce
    have "entry ip (run_action a (pass_time d s)) = None"
      using Cons.prems by (cases "a = WaCheckBlocked ip") (auto simp: e entry_check entry_other split: if_splits)
    then show ?case using Cons by (auto simp: e split: if_splits)
  qed simp
  show ?thesis
    using assms
  proof (induction es arbitrary: s)
    case (Cons e es)
    obtain d a where e: "e = (d, a)" by fastforce
    let ?s = "run_action a (pass_time d s)"
    have fails: "failures_of ip es = 0" "a \<noteq> WaRecordFailure ip" using Cons.prems(2) by (auto simp: e split: if_splits)
    have "entry ip ?s = Some (n, t) \<or> (entry ip ?s = None \<and> t + BLOCK_DURATION \<le> wv_now s + d)"
      using Cons.prems fails by (cases "a = WaCheckBlocked ip") (auto simp: e entry_check entry_other)
    then show ?case
    proof
      assume "entry ip ?s = Some (n, t)"
      from Cons.IH [OF this fails(1)] show ?thesis using Cons.prems(3) by (simp add: e add.assoc)
    next
      assume "entry ip ?s = None \<and> t + BLOCK_DURATION \<le> wv_now s + d"
      then show ?thesis using gone [OF _ fails(1)] by (auto simp: e)
    qed
  qed simp
qed

lemma check_blocked_entry:
  "fst (check_blocked ip s) \<longleftrightarrow>
     (\<exists>n t. entry ip s = Some (n, t) \<and> n \<ge> MAX_FAILED_ATTEMPTS \<and> wv_now s - t < BLOCK_DURATION)"
  "fst (check_blocked ip s) \<Longrightarrow> snd (check_blocked ip s) = s"
  by (auto simp: entry_def check_blocked_def split: option.splits)

text \<open>
  C35 The rate limit. An address whose requests fail five times within 60 seconds, whatever else happens
  meanwhile, is blocked for the 300 seconds after the last of these failures: a connection from it is answered with the refusal, without
  a byte being read from it, so that no credential it sends is looked at. After these 300 seconds it is not
  blocked any more. (The counter has 32 bits; a connection that was accepted before the
  block and fails after it began is a failure of its own, which the premises exclude.)
\<close>

theorem rate_limit_blocks:
  assumes "4 \<le> failures_of ip es" "event_time es + d \<le> RATE_LIMIT_WINDOW"
    and "entry_count ip s + failures_of ip es < 2 ^ 32 - 2" "failures_of ip later = 0"
    and "wc_server c = run_events (es @ (d, WaRecordFailure ip) # later) s" "\<not> wv_cancelled (wc_server c)"
  shows "(event_time later < BLOCK_DURATION \<longrightarrow>
      handle_connection lib ip c = send_web_error ''403 Forbidden'' ''Too many failed attempts. Temporarily blocked.''
        (on_server bump_activity c))
    \<and> (BLOCK_DURATION \<le> event_time later \<longrightarrow> \<not> fst (check_blocked ip (bump_activity (wc_server c))))"
proof -
  let ?s1 = "pass_time d (run_events es s)"
  let ?s2 = "record_failure ip ?s1"
  have re: "recent ip (wv_now s) (failures_of ip es) (run_events es s)"
      "entry_count ip (run_events es s) \<le> entry_count ip s + failures_of ip es"
    using recent_events [of ip "wv_now s" 0 s es] assms(2,3) by (auto simp: recent_def [of ip _ 0])
  then obtain n t where n: "entry ip ?s1 = Some (n, t)" "wv_now s \<le> t" "4 \<le> unat n" "unat n < 2 ^ 32 - 2"
    using assms(1,3) by (auto simp: recent_def entry_count_def)
  then have "wv_now ?s1 - t \<le> RATE_LIMIT_WINDOW" using assms(2) by auto
  then have e2: "entry ip ?s2 = Some (n + 1, wv_now ?s1)" using n(1) by (simp add: entry_failure)
  have five: "MAX_FAILED_ATTEMPTS \<le> n + 1"
    using n(3,4) unat_Suc_u32 [of n] by (simp add: MAX_FAILED_ATTEMPTS_def word_le_nat_alt)
  have now: "wv_now ?s2 = wv_now ?s1" using wv_now_action [of "WaRecordFailure ip" ?s1] by simp
  have srv: "wc_server c = run_events later ?s2" using assms(5) by simp
  then have nowc: "wv_now (bump_activity (wc_server c)) = wv_now ?s1 + event_time later" by (simp add: bump_activity_def now)
  note kept = entry_kept [OF e2 assms(4)]
  have "fst (check_blocked ip (bump_activity (wc_server c)))" if "event_time later < BLOCK_DURATION"
    using kept that five nowc by (simp add: check_blocked_entry srv now del: wv_now_pass(1))
  then have "handle_connection lib ip c = send_web_error ''403 Forbidden'' ''Too many failed attempts. Temporarily blocked.''
      (on_server bump_activity c)" if "event_time later < BLOCK_DURATION"
    using that assms(6) check_blocked_entry(2) by (simp add: handle_connection_admitted admitted_def)
  moreover have "\<not> fst (check_blocked ip (bump_activity (wc_server c)))" if "BLOCK_DURATION \<le> event_time later"
    using kept that nowc by (auto simp: check_blocked_entry srv now simp del: wv_now_pass(1))
  ultimately show ?thesis by simp
qed

lemma events_replicate [simp]:
  "failures_of ip (replicate k (d, WaRecordFailure ip)) = k" "event_time (replicate k (d, a)) = k * d"
  by (induction k) auto

theorem rate_limit_blocks_witness:
  "handle_connection sample_lib ''10.0.0.1''
     (sample_conn [] sample_world\<lparr>wc_server := run_events (replicate 5 (seconds 3, WaRecordFailure ''10.0.0.1'')
        @ [(seconds 100, WaRecordFailure ''10.0.0.2'')]) sample_server\<rparr>)
   = send_web_error ''403 Forbidden'' ''Too many failed attempts. Temporarily blocked.''
     (on_server bump_activity (sample_conn [] sample_world\<lparr>wc_server := run_events (replicate 5 (seconds 3, WaRecordFailure ''10.0.0.1'')
        @ [(seconds 100, WaRecordFailure ''10.0.0.2'')]) sample_server\<rparr>))"
proof -
  let ?f = "(seconds 3, WaRecordFailure ''10.0.0.1'')" and ?l = "[(seconds 100, WaRecordFailure ''10.0.0.2'')]"
  let ?s = "run_events (replicate 5 ?f @ ?l) sample_server"
  let ?c = "sample_conn [] sample_world\<lparr>wc_server := ?s\<rparr>"
  have five: "replicate 5 ?f @ ?l = replicate 4 ?f @ ?f # ?l" by (simp add: eval_nat_numeral)
  have "\<not> wv_cancelled ?s"
    by (simp add: eval_nat_numeral record_failure_def Let_def pass_time_def sample_server_def new_with_expiry_def)
  then show ?thesis
    using rate_limit_blocks [of "''10.0.0.1''" "replicate 4 ?f" "seconds 3" sample_server ?l ?c sample_lib]
    unfolding five
    by (simp add: RATE_LIMIT_WINDOW_def BLOCK_DURATION_def seconds_def entry_count_def entry_def
        sample_server_def new_with_expiry_def del: replicate_Suc)
qed

text \<open>
  A failure that is completed while its address is blocked, but more than 60 seconds after the previous one,
  starts the counting afresh and so lifts the block.
\<close>

lemma late_failure_unblocks:
  assumes "entry ip s = Some (n, t)" "RATE_LIMIT_WINDOW < wv_now s - t"
  shows "\<not> fst (check_blocked ip (record_failure ip s))"
  using assms by (simp add: check_blocked_entry entry_failure MAX_FAILED_ATTEMPTS_def word_le_nat_alt)

section \<open>The end of the server\<close>

abbreviation server_steps :: "loop_state \<Rightarrow> loop_state \<Rightarrow> bool" where
  "server_steps \<equiv> server_step\<^sup>*\<^sup>*"

inductive_cases ended_step: "server_step (Ended, s) y"
inductive_cases to_ended_step: "server_step y (Ended, s)"

lemma cancelled_action: "wv_cancelled s \<Longrightarrow> wv_cancelled (run_action a s)"
  by (cases a) (auto simp: set_auto_accept_def web_stop_def bump_activity_def check_blocked_def record_failure_def insert_request_def
      transfer_guard_new_def transfer_guard_drop_def count_download_def respond_to_request_def Let_def
      split: option.splits prod.splits if_splits)

lemma cancelled_pass [simp]: "wv_cancelled (pass_time d s) = wv_cancelled s"
  by (simp add: pass_time_def)

lemma ended_stays: "server_steps (Ended, s) y \<Longrightarrow> wv_cancelled s \<Longrightarrow> fst y = Ended \<and> wv_cancelled (snd y)"
proof (induction rule: rtranclp_induct)
  case (step y z)
  then have y: "y = (Ended, snd y)" "wv_cancelled (snd y)" by (metis prod.collapse)+
  from step(2) y(1) have "server_step (Ended, snd y) z" by metis
  then show ?case using y(2) cancelled_action by (auto elim: ended_step)
qed simp

text \<open>Why the accept loop may stop accepting, and why the drain may end.\<close>

definition may_stop :: "WebServer \<Rightarrow> bool" where
  "may_stop s \<longleftrightarrow> wv_cancelled s
     \<or> (wv_active_transfers s = 0 \<and> wv_expiry_duration s \<le> wv_now s - wv_last_activity s)"

definition may_end :: "nat \<Rightarrow> WebServer \<Rightarrow> bool" where
  "may_end start s \<longleftrightarrow> wv_active_transfers s = 0 \<or> DRAIN_TIMEOUT < wv_now s - start"

lemma time_to_wait_None: "time_to_wait s = None \<longleftrightarrow>
    wv_active_transfers s = 0 \<and> wv_expiry_duration s \<le> wv_now s - wv_last_activity s"
  by (simp add: time_to_wait_def Let_def word_gt_0)

text \<open>A drain that was begun for a reason at an instant.\<close>

definition draining_since :: "WebServer \<Rightarrow> nat \<Rightarrow> loop_state \<Rightarrow> bool" where
  "draining_since s0 start y \<longleftrightarrow> (\<exists>phase s1. server_steps (AtHead, s0) (phase, s1) \<and> may_stop s1 \<and> wv_now s1 = start
     \<and> server_steps (Draining start, s1) y)"

lemma drain_begins:
  assumes "server_steps (AtHead, s0) (phase, s)" "may_stop s"
  shows "draining_since s0 (wv_now s) (Draining (wv_now s), s)"
  using assms unfolding draining_since_def by blast

lemma drain_goes_on: "draining_since s0 start y \<Longrightarrow> server_step y z \<Longrightarrow> draining_since s0 start z"
  unfolding draining_since_def by (blast intro: rtranclp.rtrancl_into_rtrancl)

definition justified :: "WebServer \<Rightarrow> loop_state \<Rightarrow> bool" where
  "justified s0 y =
     (case fst y of
        AtHead \<Rightarrow> True
      | Waiting _ \<Rightarrow> True
      | Draining start \<Rightarrow> draining_since s0 start y
      | DrainSleep start _ \<Rightarrow> draining_since s0 start y
      | Ended \<Rightarrow> wv_cancelled (snd y)
          \<and> (\<exists>start s2. draining_since s0 start (Draining start, s2) \<and> may_end start s2
               \<and> server_steps (Ended, web_stop s2) y))"

lemma justified_step:
  assumes "server_steps (AtHead, s0) y" "server_step y z" "justified s0 y"
  shows "justified s0 z"
  using assms(2)
proof cases
  case (expire s)
  then show ?thesis using drain_begins [of s0 AtHead s] assms(1) by (simp add: justified_def may_stop_def time_to_wait_None)
next
  case (cancelled s deadline)
  then show ?thesis using drain_begins [of s0 _ s] assms(1) by (auto simp: justified_def may_stop_def)
next
  case (drain_more s start)
  then show ?thesis using assms(3) drain_goes_on [OF _ assms(2)] by (simp add: justified_def)
next
  case (drain_awake deadline s start)
  then show ?thesis using assms(3) drain_goes_on [OF _ assms(2)] by (simp add: justified_def)
next
  case (drained s start)
  then show ?thesis using assms(3) by (auto simp: justified_def may_end_def web_stop_def intro!: exI [of _ start] exI [of _ s])
next
  case (drain_timeout s start)
  then show ?thesis using assms(3) by (auto simp: justified_def may_end_def web_stop_def intro!: exI [of _ start] exI [of _ s])
next
  case (other_task phase s a)
  then show ?thesis
    using assms(2,3) drain_goes_on [OF _ assms(2)] cancelled_action [of s a]
    by (cases phase) (auto simp: justified_def intro: rtranclp.rtrancl_into_rtrancl)
next
  case (passing phase s d)
  then show ?thesis
    using assms(2,3) drain_goes_on [OF _ assms(2)]
    by (cases phase) (auto simp: justified_def intro: rtranclp.rtrancl_into_rtrancl)
qed (simp_all add: justified_def)

text \<open>
  C36 The server ends for a reason. When the accept loop of a server has ended, it had stopped accepting at an instant
  at which the server was cancelled (by its handle or by the download quota), or no transfer was under way and there
  had been no activity for the whole expiry time. It then waited until no transfer was under way, or for more
  than 300 seconds. Once it has ended the server stays cancelled, and a connection that is still handed to the handler
  is closed without being read or answered.
\<close>

theorem server_ends_for_a_reason:
  assumes "server_steps (AtHead, s0) (Ended, s)"
  shows "(\<exists>phase s1 s2. server_steps (AtHead, s0) (phase, s1) \<and> may_stop s1
      \<and> server_steps (Draining (wv_now s1), s1) (Draining (wv_now s1), s2) \<and> may_end (wv_now s1) s2
      \<and> server_steps (Ended, web_stop s2) (Ended, s))
    \<and> (\<forall>y c. server_steps (Ended, s) y \<and> wc_server c = snd y \<longrightarrow> fst y = Ended \<and> handle_connection lib ip c = (Inr (), c))"
proof -
  have "justified s0 (Ended, s)"
    using assms by (induction rule: rtranclp_induct) (auto simp: justified_def [of _ "(AtHead, _)"] intro: justified_step)
  then have j: "wv_cancelled s" "\<exists>start s2. draining_since s0 start (Draining start, s2) \<and> may_end start s2
      \<and> server_steps (Ended, web_stop s2) (Ended, s)"
    by (auto simp: justified_def)
  then have "\<exists>phase s1 s2. server_steps (AtHead, s0) (phase, s1) \<and> may_stop s1
      \<and> server_steps (Draining (wv_now s1), s1) (Draining (wv_now s1), s2) \<and> may_end (wv_now s1) s2
      \<and> server_steps (Ended, web_stop s2) (Ended, s)"
    unfolding draining_since_def by blast
  moreover have "fst y = Ended \<and> handle_connection lib ip c = (Inr (), c)" if "server_steps (Ended, s) y" "wc_server c = snd y" for y c
    using ended_stays [OF that(1) j(1)] that(2) by (simp add: handle_connection_def)
  ultimately show ?thesis by blast
qed

theorem server_ends_for_a_reason_witness:
  "server_steps (AtHead, sample_server) (Ended, web_stop (pass_time (seconds 600) sample_server))
   \<and> (\<exists>phase s1. server_steps (AtHead, sample_server) (phase, s1) \<and> may_stop s1)
   \<and> handle_connection sample_lib ''10.0.0.1'' (sample_conn [] sample_world\<lparr>wc_server := web_stop (pass_time (seconds 600) sample_server)\<rparr>)
     = (Inr (), sample_conn [] sample_world\<lparr>wc_server := web_stop (pass_time (seconds 600) sample_server)\<rparr>)"
proof -
  let ?s = "pass_time (seconds 600) sample_server"
  have "time_to_wait ?s = None" "wv_active_transfers ?s = 0"
    by (simp_all add: time_to_wait_None pass_time_def sample_server_def new_with_expiry_def)
  then have "server_step (AtHead, ?s) (Draining (wv_now ?s), ?s)"
      "server_step (Draining (wv_now ?s), ?s) (Ended, web_stop ?s)"
    by (blast intro: server_step.expire server_step.drained)+
  moreover have "server_step (AtHead, sample_server) (AtHead, ?s)" by (rule server_step.passing)
  ultimately have run: "server_steps (AtHead, sample_server) (Ended, web_stop ?s)"
    by (blast intro: converse_rtranclp_into_rtranclp)
  note life = server_ends_for_a_reason [OF run, of sample_lib "''10.0.0.1''"]
  have "handle_connection sample_lib ''10.0.0.1'' c = (Inr (), c)" if "wc_server c = web_stop ?s" for c
    using conjunct2 [OF life, rule_format, of "(Ended, web_stop ?s)" c] that by simp
  then show ?thesis using run conjunct1 [OF life] by auto
qed

end
