(* ===== verification/Nxfr_Mobile.thy ===== *)
theory Nxfr_Mobile
  imports Nxfr_Incoming
begin

text \<open>
  The receiving end of the mobile engine (\<open>nxfr-ffi/src/lib.rs\<close>): \<open>do_receive_file\<close>, with the guard of its
  temporary files and the choice of a free name. A transfer may have several files; each is written to
  a temporary file with a random name, verified, and renamed.

  The state has the connection, the file system, the events for the host, the outcomes of the coming draws of
  random bytes, and the variables of the loops. The host reads the events from a bounded channel; a full
  channel delays the task, which is not visible here.
\<close>

section \<open>State\<close>

datatype FfiEvent =
    FeOffer string u64 u32 string
  | FePairRequest string string
  | FeProgress u64 u64 string
  | FeComplete "string option" "string option"
  | FeError string "string option"

record ffi_offer =
  fo_transfer_id :: TransferId
  fo_manifest :: "ManifestEntry list"
  fo_display_name :: string
  fo_total_size :: u64
  fo_total_files :: u32

record ffi_args =
  fa_session_id :: u32
  fa_peer_device_id :: bytes
  fa_offer :: ffi_offer
  fa_override :: "abspath option"
  fa_config_dir :: abspath
  fa_now :: nat

datatype ffi_error =
    FxConn io_error
  | FxCodec CodecError
  | FxIo string
  | FxText string
  | FxAccept io_error
  | FxUnexpected string ControlMessage
  | FxPanic string

record ffi_state =
  mb_connected :: bool
  mb_conn :: NxfrConnection
  mb_world :: world
  mb_events :: "FfiEvent list"
  mb_random :: "(string + bytes) list"
  mb_count :: nat
  mb_cumulative :: u64
  mb_first :: "string option"

text \<open>What the metadata of a file announce.\<close>

record file_meta =
  fm_file_id :: u32
  fm_stream_id :: u32
  fm_relative_path :: string
  fm_size :: u64
  fm_sha256 :: bytes

text \<open>The variables of the chunk loop; the running hash is the bytes it was given.\<close>

record ffi_file =
  ff_received :: u64
  ff_offset :: u64
  ff_hashed :: bytes

datatype ffi_step =
    FfNext ffi_file (ffi_step_state: ffi_state)
  | FfDone ffi_file (ffi_step_state: ffi_state)
  | FfFail ffi_error (ffi_step_state: ffi_state)

section \<open>Steps\<close>

definition mb_send :: "daemon_lib \<Rightarrow> u32 \<Rightarrow> ControlMessage \<Rightarrow> ffi_state \<Rightarrow> (ffi_error + unit) \<times> ffi_state" where
  "mb_send lib session msg s =
     (case send_control (lib_into_writer lib) session 0 msg (mb_conn s) of
        (Inl e, c) \<Rightarrow> (Inl (FxConn e), s\<lparr>mb_conn := c\<rparr>)
      | (Inr _, c) \<Rightarrow> (Inr (), s\<lparr>mb_conn := c\<rparr>))"

definition mb_recv :: "ffi_state \<Rightarrow> (ffi_error + NxfrFrame) \<times> ffi_state" where
  "mb_recv s = (case recv_frame (mb_conn s) of (r, c) \<Rightarrow> (map_err FxConn r, s\<lparr>mb_conn := c\<rparr>))"

definition mb_io :: "(world \<Rightarrow> (string + 'a) \<times> world) \<Rightarrow> ffi_state \<Rightarrow> (ffi_error + 'a) \<times> ffi_state" where
  "mb_io call s = (case call (mb_world s) of (r, w) \<Rightarrow> (map_err FxIo r, s\<lparr>mb_world := w\<rparr>))"

definition mb_emit :: "FfiEvent \<Rightarrow> ffi_state \<Rightarrow> ffi_state" where
  "mb_emit event s = s\<lparr>mb_events := mb_events s @ [event]\<rparr>"

definition mb_draw :: "nat \<Rightarrow> ffi_state \<Rightarrow> (ffi_error + bytes) \<times> ffi_state" where
  "mb_draw n s =
     (case mb_random s of
        [] \<Rightarrow> (Inr (replicate n 0), s)
      | Inl _ # rs \<Rightarrow> (Inl (FxText ''RNG fill failed''), s\<lparr>mb_random := rs\<rparr>)
      | Inr b # rs \<Rightarrow> (Inr b, s\<lparr>mb_random := rs\<rparr>))"

definition mb_resolve :: "daemon_lib \<Rightarrow> abspath \<Rightarrow> string \<Rightarrow> string \<Rightarrow> ffi_state \<Rightarrow> ffi_error + abspath" where
  "mb_resolve lib root what relative_path s =
     map_err (\<lambda>e. FxText (''unsafe '' @ what @ '' path '' @ CHR 0x27 # relative_path @ CHR 0x27 # '': '' @ lib_path_error lib e))
       (resolve_safe_path (lib_canonicalize lib (mb_world s)) (\<lambda>p. fs_exists p (mb_world s)) root relative_path)"

definition ffi_resolve_collision :: "ffi_args \<Rightarrow> abspath \<Rightarrow> world \<Rightarrow> abspath" where
  "ffi_resolve_collision a path w = resolve_collision (fa_now a) path w"

section \<open>Directories\<close>

definition ffi_receive_dir :: "ffi_args \<Rightarrow> abspath" where
  "ffi_receive_dir a = (case fa_override a of Some p \<Rightarrow> p | None \<Rightarrow> fa_config_dir a)"

definition ffi_root :: "daemon_lib \<Rightarrow> ffi_args \<Rightarrow> ffi_state \<Rightarrow> (ffi_error + abspath) \<times> ffi_state" where
  "ffi_root lib a s =
     io_then (mb_io (fs_create_dir_all (ffi_receive_dir a)) s) (\<lambda>_ s.
       (map_err FxIo (lib_canonicalize lib (mb_world s) (ffi_receive_dir a)), s))"

fun ffi_manifest_dirs :: "daemon_lib \<Rightarrow> abspath \<Rightarrow> ManifestEntry list \<Rightarrow> ffi_state \<Rightarrow> (ffi_error + unit) \<times> ffi_state" where
  "ffi_manifest_dirs lib root [] s = (Inr (), s)"
| "ffi_manifest_dirs lib root (entry # manifest) s =
     (if me_entry_type entry = Dir
      then io_then (mb_resolve lib root ''directory'' (me_relative_path entry) s, s) (\<lambda>dir_path s.
             ffi_manifest_dirs lib root manifest (snd (mb_io (fs_create_dir_all dir_path) s)))
      else ffi_manifest_dirs lib root manifest s)"

definition expected_files :: "ffi_args \<Rightarrow> nat" where
  "expected_files a = max 1 (length (filter (\<lambda>e. me_entry_type e = File) (fo_manifest (fa_offer a))))"

section \<open>Chunks\<close>

text \<open>A verified chunk: write, hash, count, acknowledge, report.\<close>

definition ffi_append :: "daemon_lib \<Rightarrow> ffi_args \<Rightarrow> file_meta \<Rightarrow> abspath \<Rightarrow> FrameHeader \<Rightarrow> u64 \<Rightarrow> bytes \<Rightarrow> ffi_file \<Rightarrow> ffi_state \<Rightarrow> ffi_step" where
  "ffi_append lib a m tmp_path hdr chunk_offset chunk_data f s =
     (case mb_io (fs_write_all tmp_path chunk_data) s of
        (Inl e, s) \<Rightarrow> FfFail e s
      | (Inr _, s) \<Rightarrow>
          let n = of_nat (length chunk_data);
              f = \<lparr>ff_received = ff_received f + n, ff_offset = ff_offset f + n, ff_hashed = ff_hashed f @ chunk_data\<rparr>;
              s = s\<lparr>mb_cumulative := mb_cumulative s + n\<rparr>
          in case mb_send lib (fa_session_id a) (ChunkAck (fm_stream_id m) (message_id hdr) chunk_offset n) s of
               (Inl e, s) \<Rightarrow> FfFail e s
             | (Inr _, s) \<Rightarrow>
                 let s = mb_emit (FeProgress (mb_cumulative s) (fo_total_size (fa_offer a)) (fm_relative_path m)) s
                 in if is_last_chunk (flags hdr) \<or> ff_received f \<ge> fm_size m then FfDone f s else FfNext f s)"

definition ffi_chunk :: "daemon_lib \<Rightarrow> ffi_args \<Rightarrow> file_meta \<Rightarrow> abspath \<Rightarrow> FrameHeader \<Rightarrow> bytes \<Rightarrow> ffi_file \<Rightarrow> ffi_state \<Rightarrow> ffi_step" where
  "ffi_chunk lib a m tmp_path hdr payload f s =
     (if length payload < 41 then FfFail (FxText ''chunk too small'') s
      else
        let chunk_offset = u64_from_be_bytes (subslice 0 8 payload);
            chunk_hash = subslice 8 40 payload;
            chunk_data = drop 40 payload
        in if chunk_offset \<noteq> ff_offset f
           then FfFail (FxText (''chunk offset mismatch: expected '' @ dec_string (unat (ff_offset f)) @ '', got '' @ dec_string (unat chunk_offset))) s
           else if lib_sha256 lib chunk_data \<noteq> chunk_hash
           then FfFail (FxText (''chunk hash mismatch at offset '' @ dec_string (unat chunk_offset))) s
           else ffi_append lib a m tmp_path hdr chunk_offset chunk_data f s)"

definition ffi_frame :: "daemon_lib \<Rightarrow> ffi_args \<Rightarrow> file_meta \<Rightarrow> abspath \<Rightarrow> NxfrFrame \<Rightarrow> ffi_file \<Rightarrow> ffi_state \<Rightarrow> ffi_step" where
  "ffi_frame lib a m tmp_path frame f s =
     (case frame of (hdr, payload) \<Rightarrow>
        (case kind hdr of
           Control \<Rightarrow>
             (case decode_control (lib_from_reader lib) payload of
                Inl e \<Rightarrow> FfFail (FxCodec e) s
              | Inr (TransferComplete _) \<Rightarrow> FfDone f s
              | Inr (TransferCancel _ _) \<Rightarrow> FfFail (FxText ''transfer cancelled by peer'') s
              | Inr _ \<Rightarrow> FfNext f s)
         | Chunk \<Rightarrow> ffi_chunk lib a m tmp_path hdr payload f s
         | Keepalive \<Rightarrow> FfNext f s))"

lemma mb_send_rx [simp]: "rx (mb_conn (snd (mb_send lib i m s))) = rx (mb_conn s)"
  using rx_send_control [of "lib_into_writer lib" i 0 m "mb_conn s"]
  by (auto simp: mb_send_def simp del: rx_send_control split: prod.splits sum.splits)

lemma mb_io_conn [simp]: "mb_conn (snd (mb_io call s)) = mb_conn s"
  by (simp add: mb_io_def case_prod_beta)

lemma mb_emit_fields [simp]: "mb_conn (mb_emit e s) = mb_conn s" "mb_world (mb_emit e s) = mb_world s"
  by (simp_all add: mb_emit_def)

lemma ffi_append_rx: "rx (mb_conn (ffi_step_state (ffi_append lib a m tmp hdr off d f s))) = rx (mb_conn s)"
proof -
  obtain r t where t: "mb_io (fs_write_all tmp d) s = (r, t)" by fastforce
  have ct: "mb_conn t = mb_conn s" using mb_io_conn [of "fs_write_all tmp d" s] t by simp
  let ?t = "t\<lparr>mb_cumulative := mb_cumulative t + of_nat (length d)\<rparr>"
  obtain q u where u: "mb_send lib (fa_session_id a) (ChunkAck (fm_stream_id m) (message_id hdr) off (of_nat (length d))) ?t = (q, u)" by fastforce
  have "rx (mb_conn u) = rx (mb_conn ?t)" using mb_send_rx u by (metis snd_conv)
  then have "rx (mb_conn u) = rx (mb_conn s)" using ct by simp
  then show ?thesis using t u ct by (simp add: ffi_append_def Let_def split: sum.splits)
qed

lemma ffi_chunk_rx: "rx (mb_conn (ffi_step_state (ffi_chunk lib a m tmp hdr payload f s))) = rx (mb_conn s)"
  by (simp add: ffi_chunk_def Let_def ffi_append_rx)

lemma ffi_frame_rx: "rx (mb_conn (ffi_step_state (ffi_frame lib a m tmp fr f s))) = rx (mb_conn s)"
  using ffi_chunk_rx
  by (cases fr) (auto simp: ffi_frame_def split: FrameKind.splits sum.splits ControlMessage.splits)

lemma mb_recv_shorter:
  "mb_recv s = (Inr fr, t) \<Longrightarrow> length (rx (mb_conn t)) < length (rx (mb_conn s))"
  by (auto simp: mb_recv_def recv_frame_def result_simps split: prod.splits list.splits sum.splits)

lemma ffi_turn_shorter:
  assumes "(Inr fr, t) = mb_recv s" "ffi_frame lib a m tmp fr f t = FfNext f' s'"
  shows "length (rx (mb_conn s')) < length (rx (mb_conn s))"
  using mb_recv_shorter [OF assms(1) [symmetric]] ffi_frame_rx [of lib a m tmp fr f t] assms(2) by simp

text \<open>The chunk loop, until the last chunk, enough bytes, or the completion of the transfer.\<close>

function ffi_chunks :: "daemon_lib \<Rightarrow> ffi_args \<Rightarrow> file_meta \<Rightarrow> abspath \<Rightarrow> ffi_file \<Rightarrow> ffi_state \<Rightarrow> (ffi_error + ffi_file) \<times> ffi_state" where
  "ffi_chunks lib a m tmp_path f s =
     (case mb_recv s of
        (Inl e, s) \<Rightarrow> (Inl e, s)
      | (Inr frame, s) \<Rightarrow>
          (case ffi_frame lib a m tmp_path frame f s of
             FfNext f s \<Rightarrow> ffi_chunks lib a m tmp_path f s
           | FfDone f s \<Rightarrow> (Inr f, s)
           | FfFail e s \<Rightarrow> (Inl e, s)))"
  by pat_completeness auto
termination
  by (relation "measure (\<lambda>(lib, a, m, p, f, s). length (rx (mb_conn s)))") (auto dest!: ffi_turn_shorter)

declare ffi_chunks.simps [simp del]

section \<open>Files\<close>

definition ffi_tmp_name :: "ffi_args \<Rightarrow> string \<Rightarrow> bytes \<Rightarrow> string" where
  "ffi_tmp_name a final_file_name rand_bytes =
     ''.'' @ final_file_name @ ''.'' @ hex_encode (transfer_id_bytes (fo_transfer_id (fa_offer a))) @ ''_''
       @ hex_encode rand_bytes @ ''.nxfr_tmp''"

definition ffi_tmp_path :: "ffi_args \<Rightarrow> abspath \<Rightarrow> abspath \<Rightarrow> bytes \<Rightarrow> abspath" where
  "ffi_tmp_path a root final_path rand_bytes =
     (let tmp_name = ffi_tmp_name a (case path_file_name final_path of None \<Rightarrow> ''file'' | Some n \<Rightarrow> n) rand_bytes
      in case path_parent final_path of Some p \<Rightarrow> p @ [tmp_name] | None \<Rightarrow> root @ [tmp_name])"

definition ffi_store :: "daemon_lib \<Rightarrow> ffi_args \<Rightarrow> file_meta \<Rightarrow> abspath \<Rightarrow> abspath \<Rightarrow> ffi_file \<Rightarrow> ffi_state \<Rightarrow> (ffi_error + unit) \<times> ffi_state" where
  "ffi_store lib a m final_path tmp_path f s =
     (let final_hash = lib_sha256 lib (ff_hashed f)
      in if final_hash \<noteq> fm_sha256 m
         then (Inl (FxText (''file hash mismatch for '' @ fm_relative_path m @ '': expected '' @ hex_encode (fm_sha256 m)
                 @ '', got '' @ hex_encode final_hash)), s)
         else let final_dest = ffi_resolve_collision a final_path (mb_world s)
              in io_then (mb_io (fs_rename tmp_path final_dest) s) (\<lambda>_ s.
                   (Inr (), s\<lparr>mb_first := (case mb_first s of None \<Rightarrow> Some (path_display final_dest) | Some p \<Rightarrow> Some p),
                              mb_count := mb_count s + 1\<rparr>)))"

text \<open>\<open>TmpFileGuard\<close>: the temporary file is removed unless the work was committed.\<close>

definition ffi_guarded :: "abspath \<Rightarrow> (ffi_error + unit) \<times> ffi_state \<Rightarrow> (ffi_error + unit) \<times> ffi_state" where
  "ffi_guarded tmp_path m =
     (case m of
        (Inl e, s) \<Rightarrow> (Inl e, snd (mb_io (fs_remove_file tmp_path) s))
      | (Inr _, s) \<Rightarrow> (Inr (), s))"

definition ffi_make_parent :: "abspath \<Rightarrow> ffi_state \<Rightarrow> ffi_state" where
  "ffi_make_parent final_path s =
     (case path_parent final_path of None \<Rightarrow> s | Some parent \<Rightarrow> snd (mb_io (fs_create_dir_all parent) s))"

definition ffi_receive_one :: "daemon_lib \<Rightarrow> ffi_args \<Rightarrow> abspath \<Rightarrow> file_meta \<Rightarrow> ffi_state \<Rightarrow> (ffi_error + unit) \<times> ffi_state" where
  "ffi_receive_one lib a root m s =
     io_then (mb_send lib (fa_session_id a) (FileMetadataAck (fo_transfer_id (fa_offer a)) (fm_file_id m) (fm_stream_id m) True) s) (\<lambda>_ s.
     io_then (mb_resolve lib root ''file'' (fm_relative_path m) s, s) (\<lambda>final_path s.
     io_then (mb_draw 8 (ffi_make_parent final_path s)) (\<lambda>rand_bytes s.
       let tmp_path = ffi_tmp_path a root final_path rand_bytes
       in io_then (mb_io (fs_create tmp_path) s) (\<lambda>_ s.
            ffi_guarded tmp_path (
              io_then (ffi_chunks lib a m tmp_path \<lparr>ff_received = 0, ff_offset = 0, ff_hashed = []\<rparr> s) (\<lambda>f s.
                ffi_store lib a m final_path tmp_path f s))))))"

text \<open>A frame of the outer loop: go on, with what it did, or leave the loop.\<close>

definition ffi_message :: "daemon_lib \<Rightarrow> ffi_args \<Rightarrow> abspath \<Rightarrow> NxfrFrame \<Rightarrow> ffi_state \<Rightarrow> (ffi_error + bool) \<times> ffi_state" where
  "ffi_message lib a root frame s =
     (case frame of (hdr, payload) \<Rightarrow>
        if kind hdr \<noteq> Control then (Inr True, s)
        else case decode_control (lib_from_reader lib) payload of
          Inl e \<Rightarrow> (Inl (FxCodec e), s)
        | Inr (FileMetadata _ file_id stream relative_path file_size sha256 _ _) \<Rightarrow>
            io_then (ffi_receive_one lib a root \<lparr>fm_file_id = file_id, fm_stream_id = stream, fm_relative_path = relative_path,
                fm_size = file_size, fm_sha256 = sha256\<rparr> s) (\<lambda>_ s. (Inr True, s))
        | Inr (TransferCancel _ _) \<Rightarrow> (Inl (FxText ''transfer cancelled by peer''), s)
        | Inr (TransferComplete _) \<Rightarrow> (Inr False, s)
        | Inr _ \<Rightarrow> (Inr True, s))"

text \<open>No step adds frames.\<close>

definition consumes :: "ffi_state \<Rightarrow> ffi_state \<Rightarrow> bool" where
  "consumes s t \<longleftrightarrow> suffix (rx (mb_conn t)) (rx (mb_conn s))"

lemma consumes_refl [simp]: "consumes s s" by (simp add: consumes_def)

lemma consumes_trans: "consumes s t \<Longrightarrow> consumes t u \<Longrightarrow> consumes s u"
  by (auto simp: consumes_def intro: suffix_order.trans)

lemma consumes_rx: "consumes u s \<Longrightarrow> rx (mb_conn t) = rx (mb_conn s) \<Longrightarrow> consumes u t"
  by (simp add: consumes_def)

lemma consumes_stored [simp]: "consumes u (s\<lparr>mb_first := x, mb_count := n\<rparr>) = consumes u s"
  by (simp add: consumes_def)

named_theorems consumes_intros \<open>steps that only take frames\<close>

lemmas [consumes_intros] = io_then_inv [where P = "consumes u" for u]

lemma mb_send_consumes [consumes_intros]: "consumes u s \<Longrightarrow> consumes u (snd (mb_send lib i m s))"
  by (erule consumes_rx) simp

lemma mb_io_consumes [consumes_intros]: "consumes u s \<Longrightarrow> consumes u (snd (mb_io call s))"
  by (erule consumes_rx) simp

lemma mb_draw_consumes [consumes_intros]: "consumes u s \<Longrightarrow> consumes u (snd (mb_draw n s))"
  by (erule consumes_rx) (simp add: mb_draw_def split: list.splits sum.splits)

lemma mb_recv_consumes [consumes_intros]: "consumes u s \<Longrightarrow> consumes u (snd (mb_recv s))"
  by (rule consumes_trans, assumption)
    (auto simp: consumes_def mb_recv_def recv_frame_def suffix_Cons split: prod.splits list.splits sum.splits)

lemma ffi_chunks_consumes [consumes_intros]: "consumes u s \<Longrightarrow> consumes u (snd (ffi_chunks lib a m tmp f s))"
proof (induction lib a m tmp f s rule: ffi_chunks.induct)
  case (1 lib a m tmp f s)
  obtain q t where q: "mb_recv s = (q, t)" by fastforce
  have t: "consumes u t" using mb_recv_consumes [OF 1(2)] q by simp
  show ?case
  proof (cases q)
    case (Inr fr)
    have step: "consumes u (ffi_step_state (ffi_frame lib a m tmp fr f t))" by (rule consumes_rx [OF t ffi_frame_rx])
    show ?thesis
      using step q Inr 1(1) [OF q [symmetric] Inr]
      by (cases "ffi_frame lib a m tmp fr f t") (simp_all add: ffi_chunks.simps [of lib a m tmp f s])
  qed (use t q in \<open>simp add: ffi_chunks.simps\<close>)
qed

lemma ffi_store_consumes [consumes_intros]: "consumes u s \<Longrightarrow> consumes u (snd (ffi_store lib a m p tmp f s))"
  unfolding ffi_store_def Let_def by (auto intro!: consumes_intros)

lemma ffi_guarded_consumes [consumes_intros]: "consumes u (snd x) \<Longrightarrow> consumes u (snd (ffi_guarded tmp x))"
  by (cases x; cases "fst x") (auto simp: ffi_guarded_def intro: mb_io_consumes)

lemma ffi_make_parent_consumes [consumes_intros]: "consumes u s \<Longrightarrow> consumes u (ffi_make_parent p s)"
  by (auto simp: ffi_make_parent_def intro: mb_io_consumes split: option.splits)

lemma ffi_receive_one_consumes [consumes_intros]: "consumes u s \<Longrightarrow> consumes u (snd (ffi_receive_one lib a root m s))"
  unfolding ffi_receive_one_def Let_def by (intro consumes_intros) (auto intro!: consumes_intros)

lemma ffi_message_consumes: "consumes u s \<Longrightarrow> consumes u (snd (ffi_message lib a root fr s))"
  by (cases fr) (auto simp: ffi_message_def intro!: consumes_intros split: sum.splits ControlMessage.splits)

lemma ffi_message_shorter:
  assumes "(Inr fr, t) = mb_recv s" "(r, s') = ffi_message lib a root fr t"
  shows "length (rx (mb_conn s')) < length (rx (mb_conn s))"
  using mb_recv_shorter [OF assms(1) [symmetric]] ffi_message_consumes [OF consumes_refl, of t lib a root fr] assms(2)
  by (auto simp: consumes_def dest!: suffix_length_le) (metis snd_conv leD not_le_imp_less order_le_less_trans)

function ffi_files :: "daemon_lib \<Rightarrow> ffi_args \<Rightarrow> abspath \<Rightarrow> ffi_state \<Rightarrow> (ffi_error + unit) \<times> ffi_state" where
  "ffi_files lib a root s =
     (if \<not> mb_count s < expected_files a then (Inr (), s)
      else case mb_recv s of
        (Inl e, s) \<Rightarrow> (Inl e, s)
      | (Inr frame, s) \<Rightarrow>
          (case ffi_message lib a root frame s of
             (Inl e, s) \<Rightarrow> (Inl e, s)
           | (Inr further, s) \<Rightarrow> if further then ffi_files lib a root s else (Inr (), s)))"
  by pat_completeness auto
termination
  by (relation "measure (\<lambda>(lib, a, root, s). length (rx (mb_conn s)))") (auto dest!: ffi_message_shorter)

declare ffi_files.simps [simp del]

definition ffi_finish :: "daemon_lib \<Rightarrow> ffi_args \<Rightarrow> abspath \<Rightarrow> ffi_state \<Rightarrow> (ffi_error + unit) \<times> ffi_state" where
  "ffi_finish lib a root s =
     io_then (mb_send lib (fa_session_id a) (TransferAck (fo_transfer_id (fa_offer a)) Success None) s) (\<lambda>_ s.
       let final_res_path = (if expected_files a > 1 then Some (path_display root) else mb_first s)
       in (Inr (), mb_emit (FeComplete final_res_path (Some (hex_encode (fa_peer_device_id a)))) s))"

definition do_receive_file :: "daemon_lib \<Rightarrow> ffi_args \<Rightarrow> ffi_state \<Rightarrow> (ffi_error + unit) \<times> ffi_state" where
  "do_receive_file lib a s =
     (if \<not> mb_connected s then (Inl (FxText ''connection not available''), s)
      else io_then (mb_send lib (fa_session_id a) (TransferAccept (fo_transfer_id (fa_offer a))) s) (\<lambda>_ s.
           io_then (ffi_root lib a s) (\<lambda>root s.
           io_then (ffi_manifest_dirs lib root (fo_manifest (fa_offer a)) s) (\<lambda>_ s.
           io_then (ffi_files lib a root (s\<lparr>mb_count := 0, mb_cumulative := 0, mb_first := None\<rparr>)) (\<lambda>_ s.
             ffi_finish lib a root s)))))"

section \<open>What a reception changes\<close>

lemma mb_send_world [simp]: "mb_world (snd (mb_send lib i m s)) = mb_world s"
  by (simp add: mb_send_def split: prod.splits sum.splits)

lemma mb_recv_world [simp]: "mb_world (snd (mb_recv s)) = mb_world s"
  by (simp add: mb_recv_def split: prod.splits)

lemma mb_draw_world [simp]: "mb_world (snd (mb_draw n s)) = mb_world s"
  by (simp add: mb_draw_def split: list.splits sum.splits)

text \<open>The temporary file holds what was hashed.\<close>

definition ffi_step_ok :: "abspath \<Rightarrow> ffi_state \<Rightarrow> ffi_step \<Rightarrow> bool" where
  "ffi_step_ok tmp s st \<longleftrightarrow> unchanged_outside {tmp} (mb_world s) (mb_world (ffi_step_state st)) \<and>
     (case st of
        FfNext f t \<Rightarrow> fs_lookup tmp (mb_world t) = Some (ff_hashed f)
      | FfDone f t \<Rightarrow> fs_lookup tmp (mb_world t) = Some (ff_hashed f)
      | FfFail _ _ \<Rightarrow> True)"

lemma ffi_append_ok:
  assumes "fs_lookup tmp (mb_world s) = Some (ff_hashed f)"
  shows "ffi_step_ok tmp s (ffi_append lib a m tmp hdr off d f s)"
proof -
  obtain r w where w: "fs_write_all tmp d (mb_world s) = (r, w)" by fastforce
  note eff = fs_write_all_effect [OF w]
  let ?t = "s\<lparr>mb_world := w, mb_cumulative := mb_cumulative s + of_nat (length d)\<rparr>"
  obtain q u where u: "mb_send lib (fa_session_id a) (ChunkAck (fm_stream_id m) (message_id hdr) off (of_nat (length d))) ?t = (q, u)" by fastforce
  have "mb_world u = w" using mb_send_world [of lib "fa_session_id a" "ChunkAck (fm_stream_id m) (message_id hdr) off (of_nat (length d))" ?t] u by simp
  then show ?thesis
    using w u eff assms
    by (auto simp: ffi_append_def mb_io_def ffi_step_ok_def unchanged_outside_def Let_def split: sum.splits)
qed

lemma ffi_frame_ok:
  assumes "fs_lookup tmp (mb_world s) = Some (ff_hashed f)"
  shows "ffi_step_ok tmp s (ffi_frame lib a m tmp fr f s)"
proof -
  have same: "ffi_step_ok tmp s (FfNext f s)" "ffi_step_ok tmp s (FfDone f s)" "ffi_step_ok tmp s (FfFail e s)" for e
    using assms by (simp_all add: ffi_step_ok_def)
  then show ?thesis
    using ffi_append_ok [OF assms]
    by (cases fr) (auto simp: ffi_frame_def ffi_chunk_def Let_def split: FrameKind.splits sum.splits ControlMessage.splits)
qed

lemma ffi_chunks_effect:
  assumes "ffi_chunks lib a m tmp f s = (r, s')" "fs_lookup tmp (mb_world s) = Some (ff_hashed f)"
  shows "unchanged_outside {tmp} (mb_world s) (mb_world s') \<and> (\<forall>g. r = Inr g \<longrightarrow> fs_lookup tmp (mb_world s') = Some (ff_hashed g))"
  using assms
proof (induction lib a m tmp f s rule: ffi_chunks.induct)
  case (1 lib a m tmp f s)
  obtain q t where q: "mb_recv s = (q, t)" by fastforce
  have w: "mb_world t = mb_world s" using mb_recv_world [of s] q by simp
  show ?case
  proof (cases q)
    case (Inl e)
    then show ?thesis using 1(2) q w by (auto simp: ffi_chunks.simps)
  next
    case (Inr fr)
    have ok: "ffi_step_ok tmp t (ffi_frame lib a m tmp fr f t)" using ffi_frame_ok 1(3) w by simp
    show ?thesis
    proof (cases "ffi_frame lib a m tmp fr f t")
      case (FfNext g u)
      then have "unchanged_outside {tmp} (mb_world u) (mb_world s') \<and> (\<forall>g. r = Inr g \<longrightarrow> fs_lookup tmp (mb_world s') = Some (ff_hashed g))"
        using 1(1) [OF q [symmetric] Inr FfNext] 1(2) q Inr ok by (simp add: ffi_chunks.simps [of lib a m tmp f s] ffi_step_ok_def)
      then show ?thesis using ok FfNext w unchanged_trans by (auto simp: ffi_step_ok_def)
    qed (use 1(2) q Inr ok w in \<open>auto simp: ffi_chunks.simps [of lib a m tmp f s] ffi_step_ok_def\<close>)
  qed
qed

text \<open>
  What a reception may do to a file: nothing; it has the name of a temporary file of the transfer; or it is a
  file that the peer announced, complete and verified, at a free name of its own (or at the name with the
  time, which is not checked to be free).
\<close>

definition ffi_below :: "daemon_lib \<Rightarrow> abspath \<Rightarrow> abspath \<Rightarrow> bool" where
  "ffi_below lib root q \<longleftrightarrow> q \<noteq> [] \<and> (\<exists>w cr. lib_canonicalize lib w root = Inr cr \<and> prefix cr (butlast q))"

definition ffi_tmp :: "daemon_lib \<Rightarrow> ffi_args \<Rightarrow> abspath \<Rightarrow> abspath \<Rightarrow> bool" where
  "ffi_tmp lib a root q \<longleftrightarrow> ffi_below lib root q \<and> (\<exists>n b. last q = ffi_tmp_name a n b)"

definition ffi_announced :: "daemon_lib \<Rightarrow> (io_error + NxfrFrame) list \<Rightarrow> string \<Rightarrow> bytes \<Rightarrow> bool" where
  "ffi_announced lib frames relative_path sha256 \<longleftrightarrow> (\<exists>hdr payload tid i st n mt t. Inr (hdr, payload) \<in> set frames \<and>
     kind hdr = Control \<and> decode_control (lib_from_reader lib) payload = Inr (FileMetadata tid i st relative_path n sha256 mt t))"

definition ffi_names :: "ffi_args \<Rightarrow> abspath \<Rightarrow> abspath set" where
  "ffi_names a dest = insert dest (insert (collision_fallback dest (fa_now a)) (collision_candidate dest ` {1..<1000}))"

definition ffi_delivered :: "daemon_lib \<Rightarrow> ffi_args \<Rightarrow> abspath \<Rightarrow> (io_error + NxfrFrame) list \<Rightarrow> world \<Rightarrow> world \<Rightarrow> abspath \<Rightarrow> bool" where
  "ffi_delivered lib a root frames w w' q \<longleftrightarrow> (\<exists>relative_path sha256 w0 dest b.
     ffi_announced lib frames relative_path sha256 \<and>
     resolve_safe_path (lib_canonicalize lib w0) (\<lambda>p. fs_exists p w0) root relative_path = Inr dest \<and>
     q \<in> ffi_names a dest \<and> fs_lookup q w' = Some b \<and> lib_sha256 lib b = sha256 \<and>
     (fs_lookup q w = None \<or> q = collision_fallback dest (fa_now a)))"

definition ffi_kept :: "daemon_lib \<Rightarrow> ffi_args \<Rightarrow> abspath \<Rightarrow> (io_error + NxfrFrame) list \<Rightarrow> world \<Rightarrow> world \<Rightarrow> bool" where
  "ffi_kept lib a root frames w w' \<longleftrightarrow>
     (\<forall>q. fs_lookup q w' = fs_lookup q w \<or> ffi_tmp lib a root q \<or> ffi_delivered lib a root frames w w' q)"

lemma ffi_kept_same: "unchanged_outside S w w' \<Longrightarrow> (\<And>q. q \<in> S \<Longrightarrow> ffi_tmp lib a root q) \<Longrightarrow> ffi_kept lib a root frames w w'"
  by (auto simp: ffi_kept_def unchanged_outside_def)

lemma ffi_kept_trans:
  assumes "ffi_kept lib a root frames w w1" "ffi_kept lib a root frames w1 w2"
  shows "ffi_kept lib a root frames w w2"
proof (unfold ffi_kept_def, intro allI)
  fix q
  consider "fs_lookup q w2 = fs_lookup q w1" | "ffi_tmp lib a root q" | "ffi_delivered lib a root frames w1 w2 q"
    using assms(2) by (auto simp: ffi_kept_def)
  then show "fs_lookup q w2 = fs_lookup q w \<or> ffi_tmp lib a root q \<or> ffi_delivered lib a root frames w w2 q"
  proof cases
    case 1
    then show ?thesis using assms(1) by (auto simp: ffi_kept_def ffi_delivered_def)
  next
    case 3
    then show ?thesis using assms(1) unfolding ffi_kept_def ffi_delivered_def by (metis option.distinct(1))
  qed simp
qed

lemma collision_names:
  "resolve_collision (fa_now a) p w \<in> ffi_names a p"
  "\<not> fs_exists (resolve_collision (fa_now a) p w) w \<or> resolve_collision (fa_now a) p w = collision_fallback p (fa_now a)"
  using resolve_collision_spec [of "(undefined :: recv_args)\<lparr>ra_now := fa_now a, ra_final_path := p\<rparr>" w]
  by (simp_all add: destinations_def ffi_names_def)

lemma ffi_store_kept:
  assumes run: "ffi_store lib a m final tmp f s = (r, s')"
    and tmp: "fs_lookup tmp (mb_world s) = Some (ff_hashed f)" "ffi_tmp lib a root tmp"
    and m: "ffi_announced lib frames (fm_relative_path m) (fm_sha256 m)"
      "resolve_safe_path (lib_canonicalize lib w0) (\<lambda>p. fs_exists p w0) root (fm_relative_path m) = Inr final"
  shows "ffi_kept lib a root frames (mb_world s) (mb_world s')"
proof (cases "lib_sha256 lib (ff_hashed f) = fm_sha256 m")
  case False
  then show ?thesis using run by (auto simp: ffi_store_def ffi_kept_def)
next
  case True
  let ?dest = "resolve_collision (fa_now a) final (mb_world s)"
  obtain q w where w: "fs_rename tmp ?dest (mb_world s) = (q, w)" by fastforce
  then have s': "mb_world s' = w"
    using run True by (cases q) (auto simp: ffi_store_def ffi_resolve_collision_def mb_io_def Let_def)
  note eff = fs_rename_effect(1) [OF w]
  show ?thesis
  proof (cases q)
    case (Inl e)
    then show ?thesis using eff s' by (simp add: ffi_kept_def)
  next
    case (Inr u)
    have "ffi_delivered lib a root frames (mb_world s) w ?dest"
      unfolding ffi_delivered_def using m True tmp(1) eff Inr collision_names [of a final "mb_world s"]
      by (auto simp: fs_exists_def)
    moreover have "fs_lookup x w = fs_lookup x (mb_world s)" if "x \<noteq> ?dest" "x \<noteq> tmp" for x using eff Inr that by simp
    ultimately show ?thesis unfolding ffi_kept_def s' using tmp(2) by metis
  qed
qed

lemma resolved_below:
  assumes "resolve_safe_path (lib_canonicalize lib w0) ex root rel = Inr dest"
  shows "ffi_below lib root dest" "q \<in> ffi_names a dest \<Longrightarrow> ffi_below lib root q" "ffi_tmp lib a root (ffi_tmp_path a root dest b)"
proof -
  obtain cr cs where d: "lib_canonicalize lib w0 root = Inr cr" "dest = cr @ cs" "cs \<noteq> []"
    using assms by (rule resolve_safe_path_Inr)
  then have pre: "dest \<noteq> []" "prefix cr (butlast dest)" by (auto simp: butlast_append)
  then show below: "ffi_below lib root dest" using d(1) by (auto simp: ffi_below_def)
  show "ffi_below lib root q" if "q \<in> ffi_names a dest"
  proof -
    have "q \<noteq> [] \<and> butlast q = butlast dest"
      using that pre(1) by (auto simp: ffi_names_def collision_fallback_def collision_candidate_def Let_def)
    then show ?thesis using below by (simp add: ffi_below_def)
  qed
  show "ffi_tmp lib a root (ffi_tmp_path a root dest b)"
    using below by (auto simp: ffi_tmp_path_def ffi_tmp_def ffi_below_def Let_def path_parent_def)
qed

lemma mb_io_world [simp]: "mb_world (snd (mb_io call s)) = snd (call (mb_world s))"
  by (simp add: mb_io_def case_prod_beta)

lemma make_parent_kept: "ffi_kept lib a root frames (mb_world s) (mb_world (ffi_make_parent p s))"
  using fs_create_dir_all_effect [OF prod.collapse [symmetric]]
  by (auto simp: ffi_make_parent_def ffi_kept_def split: option.splits)

lemma ffi_guarded_kept:
  assumes "ffi_kept lib a root frames w (mb_world (snd x))" "ffi_tmp lib a root tmp"
  shows "ffi_kept lib a root frames w (mb_world (snd (ffi_guarded tmp x)))"
proof (cases "fst x")
  case (Inl e)
  obtain q w' where w': "fs_remove_file tmp (mb_world (snd x)) = (q, w')" by fastforce
  have "unchanged_outside {tmp} (mb_world (snd x)) w'"
    using fs_remove_file_effect(1) [OF w'] by (cases q) (auto simp: unchanged_outside_def)
  then have "ffi_kept lib a root frames (mb_world (snd x)) w'" by (rule ffi_kept_same) (simp add: assms(2))
  then show ?thesis using ffi_kept_trans [OF assms(1)] w' Inl by (cases x) (simp add: ffi_guarded_def)
next
  case (Inr u)
  then show ?thesis using assms(1) by (cases x) (simp add: ffi_guarded_def)
qed

text \<open>From the creation of the temporary file on.\<close>

lemma ffi_body_kept:
  assumes create: "mb_io (fs_create tmp) s = (Inr u, t)" and tmp: "ffi_tmp lib a root tmp"
    and m: "ffi_announced lib frames (fm_relative_path m) (fm_sha256 m)"
      "resolve_safe_path (lib_canonicalize lib w0) (\<lambda>p. fs_exists p w0) root (fm_relative_path m) = Inr final"
  shows "ffi_kept lib a root frames (mb_world s) (mb_world (snd (ffi_guarded tmp (
    io_then (ffi_chunks lib a m tmp \<lparr>ff_received = 0, ff_offset = 0, ff_hashed = []\<rparr> t) (\<lambda>f s. ffi_store lib a m final tmp f s)))))"
proof (rule ffi_guarded_kept [OF _ tmp])
  let ?f = "\<lparr>ff_received = 0, ff_offset = 0, ff_hashed = []\<rparr>"
  have only: "ffi_kept lib a root frames w w'" if "unchanged_outside {tmp} w w'" for w w'
    using that by (rule ffi_kept_same) (simp add: tmp)
  obtain w where w: "fs_create tmp (mb_world s) = (Inr u, w)" "mb_world t = w"
    using create by (cases "fs_create tmp (mb_world s)") (auto simp: mb_io_def result_simps)
  have t: "fs_lookup tmp (mb_world t) = Some (ff_hashed ?f)" "unchanged_outside {tmp} (mb_world s) (mb_world t)"
    using fs_create_effect(1) [OF w(1)] w(2) by (auto simp: unchanged_outside_def)
  obtain q v where q: "ffi_chunks lib a m tmp ?f t = (q, v)" by fastforce
  note eff = ffi_chunks_effect [OF q t(1)]
  have kv: "ffi_kept lib a root frames (mb_world s) (mb_world v)"
    using only unchanged_trans [OF t(2)] eff by blast
  show "ffi_kept lib a root frames (mb_world s) (mb_world (snd (io_then (ffi_chunks lib a m tmp ?f t) (\<lambda>f s. ffi_store lib a m final tmp f s))))"
  proof (cases q)
    case (Inl e)
    then show ?thesis using q kv by simp
  next
    case (Inr g)
    then have g: "fs_lookup tmp (mb_world v) = Some (ff_hashed g)" using eff by simp
    have "ffi_kept lib a root frames (mb_world v) (mb_world (snd (ffi_store lib a m final tmp g v)))"
      by (rule ffi_store_kept [OF prod.collapse [symmetric] g tmp m])
    then show ?thesis using ffi_kept_trans [OF kv] q Inr by simp
  qed
qed

lemma ffi_receive_one_kept:
  assumes "ffi_announced lib frames (fm_relative_path m) (fm_sha256 m)" "ffi_receive_one lib a root m s = (r, s')"
  shows "ffi_kept lib a root frames (mb_world s) (mb_world s')"
proof -
  have refl: "ffi_kept lib a root frames w w" for w by (simp add: ffi_kept_def)
  let ?ack = "FileMetadataAck (fo_transfer_id (fa_offer a)) (fm_file_id m) (fm_stream_id m) True"
  from assms(2) show ?thesis unfolding ffi_receive_one_def
  proof (cases rule: io_then_either)
    case (1 e)
    then show ?thesis using mb_send_world [of lib "fa_session_id a" ?ack s] refl by simp
  next
    case (2 u t)
    have wt: "mb_world t = mb_world s" using mb_send_world [of lib "fa_session_id a" ?ack s] 2(1) by simp
    from 2(2) show ?thesis
    proof (cases rule: io_then_either)
      case (1 e)
      then show ?thesis using wt refl by simp
    next
      case (2 final t1)
      then have t1: "t1 = t" and final: "mb_resolve lib root ''file'' (fm_relative_path m) t = Inr final" by auto
      let ?v = "ffi_make_parent final t"
      have kv: "ffi_kept lib a root frames (mb_world s) (mb_world ?v)" using make_parent_kept [of lib a root frames t final] wt by simp
      from 2(2) [unfolded t1] show ?thesis
      proof (cases rule: io_then_either)
        case (1 e)
        then show ?thesis using kv mb_draw_world [of 8 ?v] by simp
      next
        case (2 b v)
        let ?tmp = "ffi_tmp_path a root final b"
        have wv: "mb_world v = mb_world ?v" using mb_draw_world [of 8 ?v] 2(1) by simp
        from 2(2) [unfolded Let_def] show ?thesis
        proof (cases rule: io_then_either)
          case (1 e)
          then have "unchanged_outside {} (mb_world v) (mb_world s')"
            by (auto simp: mb_io_def result_simps unchanged_outside_def split: prod.splits sum.splits dest!: fs_create_effect(1))
          then show ?thesis using ffi_kept_trans [OF kv] ffi_kept_same [of "{}"] wv by auto
        next
          case (2 u z)
          have "resolve_safe_path (lib_canonicalize lib (mb_world t)) (\<lambda>p. fs_exists p (mb_world t)) root (fm_relative_path m) = Inr final"
            using final by (auto simp: mb_resolve_def result_simps)
          from ffi_body_kept [OF 2(1) resolved_below(3) [OF this] assms(1) this] 2(2) show ?thesis
            using ffi_kept_trans [OF kv] wv by simp
        qed
      qed
    qed
  qed
qed

lemma ffi_message_kept:
  assumes "Inr fr \<in> set frames" "ffi_message lib a root fr s = (r, s')"
  shows "ffi_kept lib a root frames (mb_world s) (mb_world s')"
proof -
  have refl: "ffi_kept lib a root frames w w" for w by (simp add: ffi_kept_def)
  obtain hdr payload where fr: "fr = (hdr, payload)" by (cases fr)
  show ?thesis
  proof (cases "\<exists>tid i st rel n sha mt t. kind hdr = Control \<and>
      decode_control (lib_from_reader lib) payload = Inr (FileMetadata tid i st rel n sha mt t)")
    case True
    then obtain tid i st rel n sha mt t where meta: "kind hdr = Control"
        "decode_control (lib_from_reader lib) payload = Inr (FileMetadata tid i st rel n sha mt t)" by blast
    let ?m = "\<lparr>fm_file_id = i, fm_stream_id = st, fm_relative_path = rel, fm_size = n, fm_sha256 = sha\<rparr>"
    obtain q u where q: "ffi_receive_one lib a root ?m s = (q, u)" by fastforce
    have "ffi_announced lib frames rel sha" unfolding ffi_announced_def using meta assms(1) fr by blast
    then have "ffi_kept lib a root frames (mb_world s) (mb_world u)" using ffi_receive_one_kept [OF _ q] by simp
    moreover have "s' = u" using assms(2) meta fr q by (cases q) (auto simp: ffi_message_def)
    ultimately show ?thesis by simp
  next
    case False
    then have "s' = s" using assms(2) fr by (auto simp: ffi_message_def split: if_splits sum.splits ControlMessage.splits)
    then show ?thesis by (simp add: refl)
  qed
qed

lemma ffi_files_kept:
  assumes "ffi_files lib a root s = (r, s')" "set (rx (mb_conn s)) \<subseteq> set frames"
  shows "ffi_kept lib a root frames (mb_world s) (mb_world s')"
  using assms
proof (induction lib a root s rule: ffi_files.induct)
  case (1 lib a root s)
  have refl: "ffi_kept lib a root frames w w" for w by (simp add: ffi_kept_def)
  obtain q t where q: "mb_recv s = (q, t)" by fastforce
  have t: "mb_world t = mb_world s" "set (rx (mb_conn t)) \<subseteq> set frames"
    using mb_recv_world [of s] mb_recv_consumes [OF consumes_refl, of s] q 1(3) by (auto simp: consumes_def dest!: set_mono_suffix)
  show ?case
  proof (cases "mb_count s < expected_files a \<and> (\<exists>fr. q = Inr fr)")
    case False
    then have "mb_world s' = mb_world s" using 1(2) q t(1) by (cases q) (auto simp: ffi_files.simps [of lib a root s] split: if_splits)
    then show ?thesis by (simp add: refl)
  next
    case True
    then obtain fr where fr: "mb_count s < expected_files a" "q = Inr fr" by blast
    have "Inr fr \<in> set (rx (mb_conn s))"
      using q fr(2) by (auto simp: mb_recv_def recv_frame_def result_simps split: prod.splits list.splits sum.splits)
    then have inr: "Inr fr \<in> set frames" using 1(3) by blast
    obtain p u where p: "ffi_message lib a root fr t = (p, u)" by fastforce
    have ku: "ffi_kept lib a root frames (mb_world s) (mb_world u)" using ffi_message_kept [OF inr p] t(1) by simp
    have su: "set (rx (mb_conn u)) \<subseteq> set frames"
      using ffi_message_consumes [OF consumes_refl, of t lib a root fr] p t(2) by (auto simp: consumes_def dest!: set_mono_suffix)
    show ?thesis
    proof (cases "p = Inr True")
      case True
      then have "ffi_files lib a root u = (r, s')" using 1(2) fr q p by (simp add: ffi_files.simps [of lib a root s])
      then show ?thesis
        using 1(1) [of q t fr p u True] fr q p True su ffi_kept_trans [OF ku] by auto
    next
      case False
      then have "s' = u" using 1(2) fr q p by (cases p) (auto simp: ffi_files.simps [of lib a root s] split: if_splits)
      then show ?thesis by (simp add: ku)
    qed
  qed
qed


section \<open>Properties\<close>

lemma unchanged_kept: "unchanged_outside {} w w' \<Longrightarrow> ffi_kept lib a root frames w w'"
  by (rule ffi_kept_same) auto

lemma create_dirs_same: "unchanged_outside {} w (snd (fs_create_dir_all p w))"
  using fs_create_dir_all_effect [OF prod.collapse [symmetric]] by (auto simp: unchanged_outside_def)

lemma ffi_root_effect:
  assumes "ffi_root lib a s = (r, t)"
  shows "unchanged_outside {} (mb_world s) (mb_world t)" "mb_conn t = mb_conn s"
    and "r = Inr root \<Longrightarrow> \<exists>w. lib_canonicalize lib w (ffi_receive_dir a) = Inr root"
proof -
  let ?s1 = "snd (mb_io (fs_create_dir_all (ffi_receive_dir a)) s)"
  have t: "t = ?s1" "\<forall>root. r = Inr root \<longrightarrow> lib_canonicalize lib (mb_world t) (ffi_receive_dir a) = Inr root"
    using assms unfolding ffi_root_def
    by (cases "mb_io (fs_create_dir_all (ffi_receive_dir a)) s"; cases "fst (mb_io (fs_create_dir_all (ffi_receive_dir a)) s)";
      auto simp: result_simps)+
  then show "unchanged_outside {} (mb_world s) (mb_world t)" "mb_conn t = mb_conn s"
    "r = Inr root \<Longrightarrow> \<exists>w. lib_canonicalize lib w (ffi_receive_dir a) = Inr root"
    using create_dirs_same [of "mb_world s"] by auto
qed

lemma ffi_manifest_dirs_effect:
  assumes "ffi_manifest_dirs lib root es s = (r, t)"
  shows "unchanged_outside {} (mb_world s) (mb_world t) \<and> mb_conn t = mb_conn s"
  using assms
proof (induction es arbitrary: s)
  case Nil
  then show ?case by (simp add: unchanged_outside_def)
next
  case (Cons e es)
  show ?case
  proof (cases "\<exists>dir. me_entry_type e = Dir \<and> mb_resolve lib root ''directory'' (me_relative_path e) s = Inr dir")
    case True
    then obtain dir where "me_entry_type e = Dir" "mb_resolve lib root ''directory'' (me_relative_path e) s = Inr dir" by blast
    then show ?thesis
      using Cons.IH [of "snd (mb_io (fs_create_dir_all dir) s)"] Cons.prems create_dirs_same [of "mb_world s" dir] unchanged_trans
      by auto
  next
    case False
    then show ?thesis
      using Cons.IH [of s] Cons.prems
      by (cases "mb_resolve lib root ''directory'' (me_relative_path e) s") (auto simp: unchanged_outside_def split: if_splits)
  qed
qed

lemma ffi_finish_world: "mb_world (snd (ffi_finish lib a root s)) = mb_world s"
  using mb_send_world [of lib "fa_session_id a" "TransferAck (fo_transfer_id (fa_offer a)) Success None" s]
  unfolding ffi_finish_def
  by (cases "mb_send lib (fa_session_id a) (TransferAck (fo_transfer_id (fa_offer a)) Success None) s";
    cases "fst (mb_send lib (fa_session_id a) (TransferAck (fo_transfer_id (fa_offer a)) Success None) s)") (auto simp: Let_def simp del: mb_send_world)

lemma do_receive_file_kept:
  assumes "do_receive_file lib a s = (r, s')"
  shows "unchanged_outside {} (mb_world s) (mb_world s') \<or>
    (\<exists>w root. lib_canonicalize lib w (ffi_receive_dir a) = Inr root \<and>
       ffi_kept lib a root (rx (mb_conn s)) (mb_world s) (mb_world s'))"
proof (cases "mb_connected s")
  case False
  then show ?thesis using assms by (simp add: do_receive_file_def unchanged_outside_def)
next
  case True
  let ?acc = "TransferAccept (fo_transfer_id (fa_offer a))"
  note sent = mb_send_world [of lib "fa_session_id a" ?acc s] mb_send_rx [of lib "fa_session_id a" ?acc s]
  from assms True have "io_then (mb_send lib (fa_session_id a) ?acc s) (\<lambda>_ s.
      io_then (ffi_root lib a s) (\<lambda>root s.
      io_then (ffi_manifest_dirs lib root (fo_manifest (fa_offer a)) s) (\<lambda>_ s.
      io_then (ffi_files lib a root (s\<lparr>mb_count := 0, mb_cumulative := 0, mb_first := None\<rparr>)) (\<lambda>_ s.
        ffi_finish lib a root s)))) = (r, s')"
    by (simp add: do_receive_file_def)
  then show ?thesis
  proof (cases rule: io_then_either)
    case (1 e)
    then show ?thesis using sent by (simp add: unchanged_outside_def)
  next
    case (2 u t)
    have t: "mb_world t = mb_world s" "rx (mb_conn t) = rx (mb_conn s)" using 2(1) sent by simp_all
    from 2(2) show ?thesis
    proof (cases rule: io_then_either)
      case (1 e)
      then show ?thesis using ffi_root_effect(1) t by metis
    next
      case (2 root v)
      note root = ffi_root_effect [OF 2(1)]
      obtain x z where x: "ffi_manifest_dirs lib root (fo_manifest (fa_offer a)) v = (x, z)" by fastforce
      have z: "unchanged_outside {} (mb_world s) (mb_world z)" "rx (mb_conn z) = rx (mb_conn s)"
        using ffi_manifest_dirs_effect [OF x] root(1,2) t unchanged_trans by auto
      from 2(2) show ?thesis
      proof (cases rule: io_then_either)
        case (1 e)
        then show ?thesis using z x by simp
      next
        case (2 d z')
        let ?z = "z\<lparr>mb_count := 0, mb_cumulative := 0, mb_first := None\<rparr>"
        obtain y w where y: "ffi_files lib a root ?z = (y, w)" by fastforce
        have "ffi_kept lib a root (rx (mb_conn s)) (mb_world s) (mb_world w)"
          using ffi_kept_trans [OF unchanged_kept [OF z(1)]] ffi_files_kept [OF y] z(2) by simp
        moreover have "mb_world s' = mb_world w"
          using 2 x y ffi_finish_world [of lib a root w] by (cases y) auto
        ultimately show ?thesis using root(3) by metis
      qed
    qed
  qed
qed

text \<open>
  C37 What a reception on the mobile side can do to files, whatever the peer sends and whichever operations
  fail: every file that differs afterwards is below the canonical receive directory, and either has the
  name of a temporary file of this transfer, or is complete: the peer announced a file whose path resolves
  to it (or to it with a collision suffix), with the SHA-256 of the new content, and nothing was
  overwritten (the name with the time, the last resort, is the one that is not checked to be free).
\<close>

theorem mobile_receive_verified:
  assumes "do_receive_file lib a s = (r, s')" "fs_lookup q (mb_world s') \<noteq> fs_lookup q (mb_world s)"
  shows "\<exists>w root. lib_canonicalize lib w (ffi_receive_dir a) = Inr root \<and> ffi_below lib root q \<and>
    ((\<exists>n b. last q = ffi_tmp_name a n b) \<or>
     (\<exists>relative_path w0 dest b.
        resolve_safe_path (lib_canonicalize lib w0) (\<lambda>p. fs_exists p w0) root relative_path = Inr dest \<and>
        q \<in> ffi_names a dest \<and> fs_lookup q (mb_world s') = Some b \<and>
        ffi_announced lib (rx (mb_conn s)) relative_path (lib_sha256 lib b) \<and>
        (fs_lookup q (mb_world s) = None \<or> q = collision_fallback dest (fa_now a))))"
proof -
  obtain w root where root: "lib_canonicalize lib w (ffi_receive_dir a) = Inr root"
    and k: "ffi_tmp lib a root q \<or> ffi_delivered lib a root (rx (mb_conn s)) (mb_world s) (mb_world s') q"
    using do_receive_file_kept [OF assms(1)] assms(2) by (auto simp: unchanged_outside_def ffi_kept_def)
  have "ffi_below lib root q"
    using k by (auto simp: ffi_tmp_def ffi_delivered_def intro: resolved_below(2))
  then show ?thesis using root k unfolding ffi_tmp_def ffi_delivered_def by blast
qed

theorem mobile_receive_verified_witness:
  "\<exists>lib a s s'. do_receive_file lib a s = (Inr (), s') \<and> fs_lookup [''d'', ''a''] (mb_world s') = Some [5] \<and>
     (\<exists>relative_path. ffi_announced lib (rx (mb_conn s)) relative_path (lib_sha256 lib [5]))"
proof -
  let ?tid = "TransferId (replicate 16 0)"
  let ?lib = "\<lparr>lib_sha256 = (\<lambda>_. replicate 32 0), lib_from_reader = ref_from_reader, lib_into_writer = (\<lambda>_. Inr []),
    lib_to_vec = ref_to_vec, lib_from_str = ref_from_str, lib_canonicalize = (\<lambda>_ p. Inr p), lib_path_error = (\<lambda>_. ''bad'')\<rparr> :: daemon_lib"
  let ?a = "\<lparr>fa_session_id = 1, fa_peer_device_id = [], fa_offer = \<lparr>fo_transfer_id = ?tid, fo_manifest = [], fo_display_name = ''a'',
    fo_total_size = 1, fo_total_files = 1\<rparr>, fa_override = Some [''d''], fa_config_dir = [], fa_now = 0\<rparr> :: ffi_args"
  let ?w = "\<lparr>files = [], dirs = [], io_faults = []\<rparr> :: world"
  let ?meta = "FileMetadata ?tid 1 1 ''a'' 1 (replicate 32 0) None None"
  obtain bs where bs: "encode_control ref_into_writer ?meta = Inr bs"
    by (simp add: write_eval encode_file_metadata_def limit_defs)
  have dec: "decode_control ref_from_reader bs = Inr ?meta"
    using bs by (auto intro!: ref_cbor.decode_encode_wire simp: wf_transfer_id_def)
  let ?h = "\<lparr>kind = Control, flags = FrameFlags 0, session_id = 1, stream_id = 0, message_id = 1, payload_len = 0\<rparr> :: FrameHeader"
  let ?c = "\<lparr>kind = Chunk, flags = FrameFlags 0, session_id = 1, stream_id = 1, message_id = 2, payload_len = 0\<rparr> :: FrameHeader"
  let ?s = "\<lparr>mb_connected = True, mb_conn = connection_new [Inr (?h, bs), Inr (?c, replicate 40 0 @ [5])] [], mb_world = ?w,
    mb_events = [], mb_random = [], mb_count = 0, mb_cumulative = 0, mb_first = None\<rparr>"
  have sane: "sanitize_path ''a'' = Inr ''a''" "path_join [''d''] ''a'' = [''d'', ''a'']" by code_simp+
  have path: "resolve_safe_path Inr ex [''d''] ''a'' = Inr [''d'', ''a'']" for ex
    by (simp add: resolve_safe_path_def sane jail_check_path_def path_parent_def path_file_name_def Let_def)
  obtain T where tmp: "ffi_tmp_path ?a [''d''] [''d'', ''a''] (replicate 8 0) = [''d'', T]" "T \<noteq> ''a''"
    by (simp add: ffi_tmp_path_def ffi_tmp_name_def path_parent_def path_file_name_def Let_def)
  have zero: "be_to_nat (replicate 8 0) = 0" by code_simp
  have "\<exists>s'. do_receive_file ?lib ?a ?s = (Inr (), s') \<and> fs_lookup [''d'', ''a''] (mb_world s') = Some [5]"
    using dec tmp zero
    by (simp add: do_receive_file_def mb_send_def send_control_def encode_control_def send_frame_def framed_send_def connection_new_def
      ffi_root_def ffi_receive_dir_def mb_io_def fs_create_dir_all_def faulty_def take_fault_def fs_lookup_def ffi_files.simps expected_files_def
      mb_recv_def recv_frame_def ffi_message_def ffi_receive_one_def mb_resolve_def path ffi_make_parent_def path_parent_def
      fs_add_dirs_def fs_create_def fs_creatable_def fs_put_def fs_write_all_def fs_extend_def fs_rename_def fs_erase_def fs_exists_def
      ffi_chunks.simps mb_draw_def ffi_frame_def ffi_chunk_def ffi_append_def subslice_def u64_from_be_bytes_def mb_emit_def
      ffi_guarded_def ffi_store_def ffi_resolve_collision_def resolve_collision_def ffi_finish_def Let_def)
  then obtain s' where run: "do_receive_file ?lib ?a ?s = (Inr (), s')" "fs_lookup [''d'', ''a''] (mb_world s') = Some [5]" by blast
  have "last [''d'', ''a''] \<noteq> ffi_tmp_name ?a n b" for n b by (simp add: ffi_tmp_name_def)
  then obtain relative_path where "ffi_announced ?lib (rx (mb_conn ?s)) relative_path (lib_sha256 ?lib [5])"
    using mobile_receive_verified [OF run(1), of "[''d'', ''a'']"] run(2) by (auto simp: fs_lookup_def)
  then show ?thesis using run by blast
qed

end
