(* ===== verification/Nxfr_Mobile_Send.thy ===== *)
theory Nxfr_Mobile_Send
  imports Nxfr_Mobile Nxfr_Sender
begin

text \<open>
  The sending end of the mobile engine (\<open>nxfr-ffi/src/lib.rs\<close>): the scan of a file or directory, and
  \<open>do_send_file\<close>, which announces what the scan found and streams the files one after the other with at most
  eight chunks in flight.

  Files may change between the scan and the moment when they are opened: \<open>sg_meanwhile\<close> is what other programs do
  to the files before the file with a given id is opened. An open file is its content. The walk through the
  directories has fuel; the file system has no symbolic links, so the depth of its directories is enough.
  Log output is not modelled, and so neither is the warning about a file that changed.
\<close>

section \<open>Scanning\<close>

record LocalSendEntry =
  le_file_id :: u32
  le_relative_path :: string
  le_full_path :: abspath
  le_size :: u64
  le_sha256 :: bytes
  le_is_dir :: bool

text \<open>\<open>Path::exists\<close>, \<open>is_dir\<close> and \<open>is_file\<close>: an error counts as no.\<close>

definition fs_probe :: "(world \<Rightarrow> bool) \<Rightarrow> world \<Rightarrow> bool \<times> world" where
  "fs_probe P w =
     (case faulty (\<lambda>w. (Inr (P w), w)) (\<lambda>_ w. w) w of
        (Inl (e :: string), w) \<Rightarrow> (False, w)
      | (Inr b, w) \<Rightarrow> (b, w))"

text \<open>The length of an open file.\<close>

definition fs_handle_len :: "bytes option \<Rightarrow> world \<Rightarrow> (string + u64) \<times> world" where
  "fs_handle_len h =
     faulty (\<lambda>w. (Inr (case h of None \<Rightarrow> 0 | Some b \<Rightarrow> of_nat (length b)), w)) (\<lambda>_ w. w)"

text \<open>The next entry of a directory that is being read.\<close>

definition fs_dir_entry :: "abspath \<Rightarrow> world \<Rightarrow> (string + abspath) \<times> world" where
  "fs_dir_entry p = faulty (\<lambda>w. (Inr p, w)) (\<lambda>_ w. w)"

definition HASH_BUF :: nat where
  "HASH_BUF = 65536"

lemma read_at_progress:
  assumes "(Inr d, w') = fs_read_at h pos HASH_BUF w" "d \<noteq> []"
  shows "case h of None \<Rightarrow> False | Some b \<Rightarrow> length b - (pos + length d) < length b - pos"
  using assms by (auto simp: fs_read_at_def fault_cases split: fault_splits)

function hash_reads :: "bytes option \<Rightarrow> nat \<Rightarrow> bytes \<Rightarrow> world \<Rightarrow> (string + bytes) \<times> world" where
  "hash_reads h pos hashed w =
     (case fs_read_at h pos HASH_BUF w of
        (Inl e, w) \<Rightarrow> (Inl e, w)
      | (Inr d, w) \<Rightarrow> if d = [] then (Inr hashed, w) else hash_reads h (pos + length d) (hashed @ d) w)"
  by pat_completeness auto
termination
  by (relation "measure (\<lambda>(h, pos, hashed, w). case h of None \<Rightarrow> 0 | Some b \<Rightarrow> length b - pos)")
    (auto dest!: read_at_progress split: option.splits)

declare hash_reads.simps [simp del]

definition hash_file_stream :: "(bytes \<Rightarrow> bytes) \<Rightarrow> abspath \<Rightarrow> world \<Rightarrow> (string + (u64 \<times> bytes)) \<times> world" where
  "hash_file_stream sha256 path w =
     io_then (fs_open path w) (\<lambda>h w.
     io_then (fs_handle_len h w) (\<lambda>file_size w.
     io_then (hash_reads h 0 [] w) (\<lambda>hashed w.
       (Inr (file_size, sha256 hashed), w))))"

type_synonym scan = "LocalSendEntry list \<times> u32"

definition scan_push :: "string \<Rightarrow> abspath \<Rightarrow> u64 \<Rightarrow> bytes \<Rightarrow> bool \<Rightarrow> scan \<Rightarrow> scan" where
  "scan_push rel_path path n h is_dir st =
     (fst st @ [\<lparr>le_file_id = snd st, le_relative_path = rel_path, le_full_path = path, le_size = n, le_sha256 = h,
        le_is_dir = is_dir\<rparr>], snd st + 1)"

definition strip_root :: "abspath \<Rightarrow> abspath \<Rightarrow> string" where
  "strip_root root path = join_with CHR ''/'' (drop (length root) path)"

text \<open>The loop over the entries of a directory; \<open>walk\<close> is the call for a directory below.\<close>

fun walk_entries :: "(abspath \<Rightarrow> scan \<Rightarrow> world \<Rightarrow> (ffi_error + scan) \<times> world) \<Rightarrow> (bytes \<Rightarrow> bytes) \<Rightarrow> abspath \<Rightarrow> abspath list
    \<Rightarrow> scan \<Rightarrow> world \<Rightarrow> (ffi_error + scan) \<times> world" where
  "walk_entries walk sha256 root [] st w = (Inr st, w)"
| "walk_entries walk sha256 root (p # ps) st w =
     io_then (io_map_err FxIo (fs_dir_entry p w)) (\<lambda>path w.
       case fs_probe (\<lambda>w. path \<in> set (dirs w)) w of (is_dir, w) \<Rightarrow>
         if is_dir
         then io_then (walk path (scan_push (strip_root root path) path 0 (replicate 32 0) True st) w) (\<lambda>st w.
                walk_entries walk sha256 root ps st w)
         else case fs_probe (\<lambda>w. fs_lookup path w \<noteq> None) w of (is_file, w) \<Rightarrow>
           if is_file
           then io_then (io_map_err FxIo (hash_file_stream sha256 path w)) (\<lambda>(n, h) w.
                  walk_entries walk sha256 root ps (scan_push (strip_root root path) path n h False st) w)
           else walk_entries walk sha256 root ps st w)"

fun walk_directory :: "nat \<Rightarrow> (bytes \<Rightarrow> bytes) \<Rightarrow> abspath \<Rightarrow> abspath \<Rightarrow> scan \<Rightarrow> world \<Rightarrow> (ffi_error + scan) \<times> world" where
  "walk_directory 0 sha256 root current st w = (Inl (FxPanic ''stack overflow''), w)"
| "walk_directory (Suc fuel) sha256 root current st w =
     io_then (io_map_err FxIo (fs_read_dir current w)) (\<lambda>ps w.
       walk_entries (walk_directory fuel sha256 root) sha256 root ps st w)"

definition dir_depth :: "world \<Rightarrow> nat" where
  "dir_depth w = Max (insert 0 (length ` set (dirs w)))"

definition scan_send_path :: "(bytes \<Rightarrow> bytes) \<Rightarrow> abspath \<Rightarrow> world \<Rightarrow> (ffi_error + (string \<times> LocalSendEntry list)) \<times> world" where
  "scan_send_path sha256 base_path w =
     (case fs_probe (fs_exists base_path) w of (ex, w) \<Rightarrow>
        if \<not> ex then (Inl (FxText (''path does not exist: '' @ path_display base_path)), w)
        else case fs_probe (\<lambda>w. fs_lookup base_path w \<noteq> None) w of (is_file, w) \<Rightarrow>
          if is_file
          then let name = (case path_file_name base_path of None \<Rightarrow> ''file'' | Some n \<Rightarrow> n)
               in io_then (io_map_err FxIo (hash_file_stream sha256 base_path w)) (\<lambda>(n, h) w.
                    (Inr (name, fst (scan_push name base_path n h False ([], 1))), w))
          else let display_name = (case path_file_name base_path of None \<Rightarrow> ''transfer'' | Some n \<Rightarrow> n)
               in io_then (walk_directory (Suc (dir_depth w)) sha256 base_path base_path ([], 1) w) (\<lambda>st w.
                    if fst st = [] then (Inl (FxText ''directory is empty''), w)
                    else (Inr (display_name, fst st), w)))"

section \<open>Announcing\<close>

record ffi_send_args =
  sg_session_id :: u32
  sg_peer_device_id :: bytes
  sg_timely :: bool
  sg_meanwhile :: "u32 \<Rightarrow> world \<Rightarrow> world"
  sg_debug :: "ControlMessage \<Rightarrow> string"

definition files_of :: "LocalSendEntry list \<Rightarrow> LocalSendEntry list" where
  "files_of entries = filter (\<lambda>e. \<not> le_is_dir e) entries"

definition total_size_of :: "LocalSendEntry list \<Rightarrow> u64" where
  "total_size_of entries = sum_list (map le_size (files_of entries))"

definition manifest_entry :: "LocalSendEntry \<Rightarrow> ManifestEntry" where
  "manifest_entry e =
     \<lparr>me_file_id = le_file_id e, me_relative_path = le_relative_path e,
      me_size = (if le_is_dir e then None else Some (le_size e)),
      me_sha256 = (if le_is_dir e then None else Some (le_sha256 e)),
      me_entry_type = (if le_is_dir e then Dir else File)\<rparr>"

definition ffi_request :: "TransferId \<Rightarrow> string \<Rightarrow> LocalSendEntry list \<Rightarrow> ControlMessage" where
  "ffi_request tid display_name entries =
     TransferRequest tid Files display_name (of_nat (length (files_of entries))) (total_size_of entries)
       (map manifest_entry entries)"

definition ffi_metadata :: "TransferId \<Rightarrow> LocalSendEntry \<Rightarrow> ControlMessage" where
  "ffi_metadata tid e =
     FileMetadata tid (le_file_id e) (le_file_id e) (le_relative_path e) (le_size e) (le_sha256 e) None None"

text \<open>\<open>rand_transfer_id\<close> panics when there are no random bytes.\<close>

definition rand_transfer_id :: "ffi_state \<Rightarrow> (ffi_error + TransferId) \<times> ffi_state" where
  "rand_transfer_id s =
     (case mb_draw 16 s of
        (Inl _, s) \<Rightarrow> (Inl (FxPanic ''RNG fill failed''), s)
      | (Inr buf, s) \<Rightarrow> (Inr (TransferId buf), s))"

definition ffi_await_accept :: "daemon_lib \<Rightarrow> ffi_send_args \<Rightarrow> ffi_state \<Rightarrow> (ffi_error + unit) \<times> ffi_state" where
  "ffi_await_accept lib g s =
     (if \<not> sg_timely g
      then (Inl (FxText ''accept timeout (120s)''),
            mb_emit (FeError ''Accept timeout: peer did not respond within 120s'' (Some (hex_encode (sg_peer_device_id g)))) s)
      else case recv_frame (mb_conn s) of
        (Inl e, c) \<Rightarrow> (Inl (FxAccept e), s\<lparr>mb_conn := c\<rparr>)
      | (Inr (_, payload), c) \<Rightarrow>
          (case decode_control (lib_from_reader lib) payload of
             Inl e \<Rightarrow> Inl (FxCodec e)
           | Inr (TransferAccept _) \<Rightarrow> Inr ()
           | Inr (TransferReject _ reason) \<Rightarrow> Inl (FxText (''rejected: '' @ (case reason of None \<Rightarrow> '''' | Some t \<Rightarrow> t)))
           | Inr msg \<Rightarrow> Inl (FxUnexpected ''expected Accept/Reject, got '' msg),
           s\<lparr>mb_conn := c\<rparr>))"

section \<open>Streaming\<close>

text \<open>A waiting loop, while at least \<open>limit\<close> chunks are in flight; frames that are not acknowledgements are skipped.\<close>

definition ffi_acked :: "u64 \<Rightarrow> LocalSendEntry \<Rightarrow> u64 \<Rightarrow> ffi_state \<Rightarrow> ffi_state" where
  "ffi_acked total_bytes e len s =
     (let n = mb_cumulative s + len
      in mb_emit (FeProgress n total_bytes (le_relative_path e)) (s\<lparr>mb_cumulative := n\<rparr>))"

lemma ffi_acked_conn [simp]: "mb_conn (ffi_acked t e n s) = mb_conn s" "mb_world (ffi_acked t e n s) = mb_world s"
  by (simp_all add: ffi_acked_def Let_def)

definition ack_length :: "daemon_lib \<Rightarrow> NxfrFrame \<Rightarrow> u64 option" where
  "ack_length lib frame =
     (case decode_control (lib_from_reader lib) (snd frame) of Inr (ChunkAck _ _ _ len) \<Rightarrow> Some len | _ \<Rightarrow> None)"

function ffi_wait :: "daemon_lib \<Rightarrow> u64 \<Rightarrow> LocalSendEntry \<Rightarrow> nat \<Rightarrow> nat \<Rightarrow> ffi_state \<Rightarrow> (ffi_error + nat) \<times> ffi_state" where
  "ffi_wait lib total_bytes e limit in_flight s =
     (if in_flight \<ge> limit then
        (case mb_recv s of
           (Inl err, s) \<Rightarrow> (Inl err, s)
         | (Inr frame, s) \<Rightarrow>
             (case ack_length lib frame of
                Some len \<Rightarrow> ffi_wait lib total_bytes e limit (in_flight - 1) (ffi_acked total_bytes e len s)
              | None \<Rightarrow> ffi_wait lib total_bytes e limit in_flight s))
      else (Inr in_flight, s))"
  by pat_completeness auto
termination
  by (relation "measure (\<lambda>(lib, t, e, limit, n, s). length (rx (mb_conn s)))") (auto dest: mb_recv_shorter [OF sym])

declare ffi_wait.simps [simp del]

text \<open>\<open>read_exact\<close> at a position of an open file.\<close>

definition fs_read_exact :: "bytes option \<Rightarrow> nat \<Rightarrow> nat \<Rightarrow> world \<Rightarrow> (string + bytes) \<times> world" where
  "fs_read_exact h pos n =
     faulty (\<lambda>w. (case h of
         None \<Rightarrow> Inl ''is a directory''
       | Some b \<Rightarrow> if pos + n \<le> length b then Inr (take n (drop pos b)) else Inl ''early eof'', w)) (\<lambda>_ w. w)"

definition ffi_send_chunk :: "daemon_lib \<Rightarrow> ffi_send_args \<Rightarrow> LocalSendEntry \<Rightarrow> nat \<Rightarrow> bytes \<Rightarrow> bool \<Rightarrow> ffi_state \<Rightarrow> (ffi_error + unit) \<times> ffi_state" where
  "ffi_send_chunk lib g e off buf is_last s =
     (case send_chunk (sg_session_id g) (le_file_id e) (if is_last then 0x0001 else 0x0000)
             (u64_to_be_bytes (of_nat off) @ lib_sha256 lib buf @ buf) (mb_conn s) of
        (Inl err, c) \<Rightarrow> (Inl (FxConn err), s\<lparr>mb_conn := c\<rparr>)
      | (Inr _, c) \<Rightarrow> (Inr (), s\<lparr>mb_conn := c\<rparr>))"

function ffi_stream :: "daemon_lib \<Rightarrow> ffi_send_args \<Rightarrow> u64 \<Rightarrow> LocalSendEntry \<Rightarrow> bytes option \<Rightarrow> nat \<Rightarrow> nat \<Rightarrow> ffi_state
    \<Rightarrow> (ffi_error + nat) \<times> ffi_state" where
  "ffi_stream lib g total_bytes e h off in_flight s =
     (let file_size = unat (le_size e)
      in if off < file_size then
           io_then (ffi_wait lib total_bytes e MAX_IN_FLIGHT in_flight s) (\<lambda>in_flight s.
             let want = min CHUNK_DATA_SIZE (file_size - off)
             in io_then (mb_io (fs_read_exact h off want) s) (\<lambda>buf s.
                io_then (ffi_send_chunk lib g e off buf (off + want = file_size) s) (\<lambda>_ s.
                  ffi_stream lib g total_bytes e h (off + want) (in_flight + 1) s)))
         else (Inr in_flight, s))"
  by pat_completeness auto
termination
  by (relation "measure (\<lambda>(lib, g, t, e, h, off, n, s). unat (le_size e) - off)") (auto simp: CHUNK_DATA_SIZE_def)

declare ffi_stream.simps [simp del]

definition ffi_send_entry :: "daemon_lib \<Rightarrow> ffi_send_args \<Rightarrow> TransferId \<Rightarrow> u64 \<Rightarrow> LocalSendEntry \<Rightarrow> ffi_state \<Rightarrow> (ffi_error + unit) \<times> ffi_state" where
  "ffi_send_entry lib g tid total_bytes e s =
     io_then (mb_io (fs_open (le_full_path e)) (s\<lparr>mb_world := sg_meanwhile g (le_file_id e) (mb_world s)\<rparr>)) (\<lambda>h s.
     io_then (mb_send lib (sg_session_id g) (ffi_metadata tid e) s) (\<lambda>_ s.
     io_then (mb_recv s) (\<lambda>frame s.
       case decode_control (lib_from_reader lib) (snd frame) of
         Inl err \<Rightarrow> (Inl (FxCodec err), s)
       | Inr (FileMetadataAck _ _ _ True) \<Rightarrow>
           io_then (ffi_stream lib g total_bytes e h 0 0 s) (\<lambda>in_flight s.
           io_then (ffi_wait lib total_bytes e 1 in_flight s) (\<lambda>_ s. (Inr (), s)))
       | Inr _ \<Rightarrow> (Inl (FxText (''file metadata rejected for '' @ le_relative_path e)), s))))"

fun ffi_send_entries :: "daemon_lib \<Rightarrow> ffi_send_args \<Rightarrow> TransferId \<Rightarrow> u64 \<Rightarrow> LocalSendEntry list \<Rightarrow> ffi_state \<Rightarrow> (ffi_error + unit) \<times> ffi_state" where
  "ffi_send_entries lib g tid total_bytes [] s = (Inr (), s)"
| "ffi_send_entries lib g tid total_bytes (e # es) s =
     io_then (ffi_send_entry lib g tid total_bytes e s) (\<lambda>_ s. ffi_send_entries lib g tid total_bytes es s)"

text \<open>The answer to the completion only decides which event the host sees.\<close>

definition ffi_send_outcome :: "daemon_lib \<Rightarrow> ffi_send_args \<Rightarrow> ffi_state \<Rightarrow> (ffi_error + unit) \<times> ffi_state" where
  "ffi_send_outcome lib g s =
     io_then (mb_recv s) (\<lambda>frame s.
       let peer_id = Some (hex_encode (sg_peer_device_id g))
       in case decode_control (lib_from_reader lib) (snd frame) of
            Inl err \<Rightarrow> (Inl (FxCodec err), s)
          | Inr (TransferAck _ Success _) \<Rightarrow> (Inr (), mb_emit (FeComplete None peer_id) s)
          | Inr (TransferAck _ PartialFailure _) \<Rightarrow>
              (Inr (), mb_emit (FeError ''Transfer completed with partial failures on receiver'' peer_id) s)
          | Inr msg \<Rightarrow>
              (Inr (), mb_emit (FeError (''Unexpected response after TransferComplete: '' @ sg_debug g msg) peer_id) s))"

definition mb_scan :: "daemon_lib \<Rightarrow> abspath \<Rightarrow> ffi_state \<Rightarrow> (ffi_error + (string \<times> LocalSendEntry list)) \<times> ffi_state" where
  "mb_scan lib path s =
     (case scan_send_path (lib_sha256 lib) path (mb_world s) of (r, w) \<Rightarrow> (r, s\<lparr>mb_world := w\<rparr>))"

definition do_send_file :: "daemon_lib \<Rightarrow> ffi_send_args \<Rightarrow> abspath \<Rightarrow> ffi_state \<Rightarrow> (ffi_error + unit) \<times> ffi_state" where
  "do_send_file lib g path s =
     io_then (mb_scan lib path s) (\<lambda>(display_name, send_entries) s.
     io_then (rand_transfer_id s) (\<lambda>tid s.
       if \<not> mb_connected s then (Inl (FxText ''connection not available''), s)
       else
         io_then (mb_send lib (sg_session_id g) (ffi_request tid display_name send_entries) s) (\<lambda>_ s.
         io_then (ffi_await_accept lib g s) (\<lambda>_ s.
         io_then (ffi_send_entries lib g tid (total_size_of send_entries) (files_of send_entries) (s\<lparr>mb_cumulative := 0\<rparr>)) (\<lambda>_ s.
         io_then (mb_send lib (sg_session_id g) (TransferComplete tid) s) (\<lambda>_ s.
           ffi_send_outcome lib g s))))))"

section \<open>What a scan finds\<close>

text \<open>A scan only reads.\<close>

definition same_tree :: "world \<Rightarrow> world \<Rightarrow> bool" where
  "same_tree w w' \<longleftrightarrow> files w' = files w \<and> dirs w' = dirs w"

lemma same_tree_refl [simp]: "same_tree w w" by (simp add: same_tree_def)

lemma same_tree_trans: "same_tree w w1 \<Longrightarrow> same_tree w1 w2 \<Longrightarrow> same_tree w w2" by (simp add: same_tree_def)

lemma same_tree_lookup: "same_tree w w' \<Longrightarrow> fs_lookup p w' = fs_lookup p w"
  by (simp add: same_tree_def fs_lookup_def)

named_theorems reads \<open>calls that leave files and directories alone\<close>

lemma io_then_reads [reads]:
  "same_tree w (snd m) \<Longrightarrow> (\<And>x w'. m = (Inr x, w') \<Longrightarrow> same_tree w w' \<Longrightarrow> same_tree w (snd (f x w'))) \<Longrightarrow> same_tree w (snd (io_then m f))"
  by (cases m; cases "fst m") auto

lemma io_map_err_reads [reads]: "same_tree w (snd m) \<Longrightarrow> same_tree w (snd (io_map_err g m))"
  by (simp add: io_map_err_def)

lemma faulty_reads [reads]: "same_tree w w1 \<Longrightarrow> (\<And>v. same_tree w v \<Longrightarrow> same_tree w (snd (call v))) \<Longrightarrow> same_tree w (snd (faulty call (\<lambda>_ w. w) w1))"
  by (auto simp: fault_cases same_tree_def split: fault_splits)

lemma file_reads [reads]:
  "same_tree w w1 \<Longrightarrow> same_tree w (snd (fs_open p w1))" "same_tree w w1 \<Longrightarrow> same_tree w (snd (fs_handle_len h w1))"
  "same_tree w w1 \<Longrightarrow> same_tree w (snd (fs_read_at h i n w1))" "same_tree w w1 \<Longrightarrow> same_tree w (snd (fs_dir_entry p w1))"
  "same_tree w w1 \<Longrightarrow> same_tree w (snd (fs_read_dir p w1))" "same_tree w w1 \<Longrightarrow> same_tree w (snd (fs_read_exact h i n w1))"
  unfolding fs_open_def fs_handle_len_def fs_read_at_def fs_dir_entry_def fs_read_dir_def fs_read_exact_def
  by (auto intro!: faulty_reads)

lemma probe_reads: "fs_probe P w = (b, w') \<Longrightarrow> same_tree w w'"
  by (auto simp: fs_probe_def fault_cases same_tree_def split: fault_splits)

lemma probe_true:
  assumes "fs_probe P w = (True, w')" shows "P (w\<lparr>io_faults := tl (io_faults w)\<rparr>) \<or> P w"
  using assms by (auto simp: fs_probe_def fault_cases split: fault_splits)

lemma hash_reads_exact:
  assumes "hash_reads h pos hashed w = (r, w')"
  shows "same_tree w w' \<and> (\<forall>d. r = Inr d \<longrightarrow> (\<exists>b. h = Some b \<and> d = hashed @ drop pos b))"
  using assms
proof (induction h pos hashed w rule: hash_reads.induct)
  case (1 h pos hashed w)
  obtain q v where q: "fs_read_at h pos HASH_BUF w = (q, v)" by fastforce
  have v: "same_tree w v" using file_reads(3) [of w w h pos HASH_BUF] q by simp
  show ?case
  proof (cases "\<exists>d. q = Inr d \<and> d \<noteq> []")
    case True
    then obtain d where d: "q = Inr d" "d \<noteq> []" by blast
    then obtain b where b: "h = Some b" "d = take HASH_BUF (drop pos b)"
      using q by (auto simp: fs_read_at_def fault_cases split: fault_splits)
    have rec: "hash_reads h (pos + length d) (hashed @ d) v = (r, w')"
      using "1.prems" q d by (simp add: hash_reads.simps [of h pos hashed w])
    have "drop pos b = d @ drop (pos + length d) b"
      using b(2) append_take_drop_id [of HASH_BUF "drop pos b"] by (cases "HASH_BUF \<le> length (drop pos b)") (auto simp: add.commute)
    then show ?thesis
      using "1.IH" [OF q [symmetric] d(1) d(2) rec] v b(1) same_tree_trans by auto
  next
    case False
    then show ?thesis
      using "1.prems" q v by (cases q)
        (auto simp: hash_reads.simps [of h pos hashed w] fs_read_at_def fault_cases HASH_BUF_def split: fault_splits if_splits)
  qed
qed

lemma hash_file_stream_exact:
  assumes "hash_file_stream sha p w = (r, w')"
  shows "same_tree w w'" "r = Inr (n, h) \<Longrightarrow> \<exists>b. fs_lookup p w = Some b \<and> n = of_nat (length b) \<and> h = sha b"
proof -
  have hr: "same_tree w v \<Longrightarrow> same_tree w (snd (hash_reads h pos acc v))" for h pos acc v
    using hash_reads_exact [of h pos acc v] same_tree_trans by (metis prod.collapse)
  have "same_tree w (snd (hash_file_stream sha p w))"
    unfolding hash_file_stream_def by (auto intro!: reads hr)
  then show "same_tree w w'" using assms by simp
  show "\<exists>b. fs_lookup p w = Some b \<and> n = of_nat (length b) \<and> h = sha b" if r: "r = Inr (n, h)"
  proof -
    from assms r obtain f w1 w2 d where f: "fs_open p w = (Inr f, w1)" "fs_handle_len f w1 = (Inr n, w2)"
      and d: "hash_reads f 0 [] w2 = (Inr d, w')" "h = sha d"
      by (auto simp: hash_file_stream_def io_then_Inr)
    obtain b where "f = Some b" "d = b" using hash_reads_exact [OF d(1)] by auto
    then show ?thesis
      using f d(2) by (auto simp: fs_open_def fs_handle_len_def fault_cases fs_lookup_def split: fault_splits if_splits)
  qed
qed

text \<open>An entry tells the truth about a path below the root; the ids count up from one.\<close>

definition file_true :: "(bytes \<Rightarrow> bytes) \<Rightarrow> world \<Rightarrow> LocalSendEntry \<Rightarrow> bool" where
  "file_true sha w e \<longleftrightarrow> (\<exists>b. fs_lookup (le_full_path e) w = Some b \<and> le_size e = of_nat (length b) \<and> le_sha256 e = sha b)"

definition entry_ok :: "(bytes \<Rightarrow> bytes) \<Rightarrow> abspath \<Rightarrow> world \<Rightarrow> LocalSendEntry \<Rightarrow> bool" where
  "entry_ok sha root w e \<longleftrightarrow> strict_prefix root (le_full_path e) \<and> le_relative_path e = strip_root root (le_full_path e) \<and>
     (if le_is_dir e then le_full_path e \<in> set (dirs w) else file_true sha w e)"

definition scan_ok :: "(bytes \<Rightarrow> bytes) \<Rightarrow> abspath \<Rightarrow> world \<Rightarrow> scan \<Rightarrow> bool" where
  "scan_ok sha root w st \<longleftrightarrow> list_all (entry_ok sha root w) (fst st) \<and>
     map le_file_id (fst st) = map (\<lambda>i. of_nat (Suc i)) [0..<length (fst st)] \<and> snd st = of_nat (Suc (length (fst st)))"

lemma scan_ok_start: "scan_ok sha root w ([], 1)" by (simp add: scan_ok_def)

lemma scan_push_ok:
  assumes "scan_ok sha root w st" "strict_prefix root p"
    and "if d then p \<in> set (dirs w) else \<exists>b. fs_lookup p w = Some b \<and> n = of_nat (length b) \<and> h = sha b"
  shows "scan_ok sha root w (scan_push (strip_root root p) p n h d st)"
  using assms by (auto simp: scan_ok_def scan_push_def entry_ok_def file_true_def)

lemma same_tree_ok: "same_tree w w' \<Longrightarrow> scan_ok sha root w' st = scan_ok sha root w st"
  by (simp add: scan_ok_def entry_ok_def [abs_def] file_true_def [abs_def] same_tree_lookup) (simp add: same_tree_def)

definition walks_ok :: "(bytes \<Rightarrow> bytes) \<Rightarrow> abspath \<Rightarrow> (abspath \<Rightarrow> scan \<Rightarrow> world \<Rightarrow> (ffi_error + scan) \<times> world) \<Rightarrow> bool" where
  "walks_ok sha root walk \<longleftrightarrow> (\<forall>p st w r w'. walk p st w = (r, w') \<longrightarrow> prefix root p \<longrightarrow> scan_ok sha root w st \<longrightarrow>
     same_tree w w' \<and> (\<forall>st'. r = Inr st' \<longrightarrow> scan_ok sha root w' st'))"

lemma walks_okD:
  "walks_ok sha root walk \<Longrightarrow> walk p st w = (r, w') \<Longrightarrow> prefix root p \<Longrightarrow> scan_ok sha root w st \<Longrightarrow>
     same_tree w w' \<and> (\<forall>st'. r = Inr st' \<longrightarrow> scan_ok sha root w' st')"
  unfolding walks_ok_def by blast

lemma walk_entries_ok:
  assumes "walk_entries walk sha root ps st w = (r, w')" "walks_ok sha root walk" "\<forall>p\<in>set ps. strict_prefix root p" "scan_ok sha root w st"
  shows "same_tree w w' \<and> (\<forall>st'. r = Inr st' \<longrightarrow> scan_ok sha root w' st')"
  using assms(1,3,4)
proof (induction ps arbitrary: st w)
  case (Cons p ps)
  obtain r0 w0 where w0: "fs_dir_entry p w = (r0, w0)" by fastforce
  have t0: "same_tree w w0" using file_reads(4) [of w w p] w0 by simp
  obtain d w1 where d: "fs_probe (\<lambda>w. p \<in> set (dirs w)) w0 = (d, w1)" by fastforce
  obtain f w2 where f: "fs_probe (\<lambda>w. fs_lookup p w \<noteq> None) w1 = (f, w2)" by fastforce
  have t1: "same_tree w w1" and t2: "same_tree w w2"
    using probe_reads [OF d] probe_reads [OF f] t0 same_tree_trans by blast+
  have pre: "strict_prefix root p" "\<forall>p\<in>set ps. strict_prefix root p" using Cons.prems(2) by simp_all
  consider e where "r0 = Inl e" | "r0 = Inr p" "d" | "r0 = Inr p" "\<not> d" "f" | "r0 = Inr p" "\<not> d" "\<not> f"
    using w0 by (cases r0) (auto simp: fs_dir_entry_def fault_cases split: fault_splits)
  then show ?case
  proof cases
    case 1
    then show ?thesis using Cons.prems(1) w0 t0 by (auto simp: io_map_err_def)
  next
    case 2
    let ?st = "scan_push (strip_root root p) p 0 (replicate 32 0) True st"
    have "p \<in> set (dirs w)" using probe_true [of "\<lambda>w. p \<in> set (dirs w)" w0 w1] d 2(2) t0 by (auto simp: same_tree_def)
    then have ok: "scan_ok sha root w1 ?st"
      using scan_push_ok [OF Cons.prems(3) pre(1), of True] by (simp add: same_tree_ok [OF t1])
    obtain q v where q: "walk p ?st w1 = (q, v)" by fastforce
    have v: "same_tree w1 v" "\<forall>st'. q = Inr st' \<longrightarrow> scan_ok sha root v st'"
      using walks_okD [OF assms(2) q prefix_order.less_imp_le [OF pre(1)] ok] by blast+
    show ?thesis
    proof (cases q)
      case (Inl e)
      then show ?thesis using Cons.prems(1) w0 2 d q v(1) t1 same_tree_trans by (auto simp: io_map_err_def)
    next
      case (Inr st1)
      then have "walk_entries walk sha root ps st1 v = (r, w')" using Cons.prems(1) w0 2 d q by (simp add: io_map_err_def)
      from Cons.IH [OF this pre(2)] show ?thesis using v Inr t1 same_tree_trans by blast
    qed
  next
    case 3
    obtain q v where q: "hash_file_stream sha p w2 = (q, v)" by fastforce
    note hf = hash_file_stream_exact [OF q]
    have tv: "same_tree w v" using hf(1) t2 same_tree_trans by blast
    show ?thesis
    proof (cases q)
      case (Inl e)
      then show ?thesis using Cons.prems(1) w0 3 d f q tv by (auto simp: io_map_err_def)
    next
      case (Inr nh)
      obtain n h where nh: "nh = (n, h)" by (cases nh)
      let ?st = "scan_push (strip_root root p) p n h False st"
      have "scan_ok sha root w ?st"
        by (rule scan_push_ok [OF Cons.prems(3) pre(1)]) (use hf(2) Inr nh same_tree_lookup [OF t2] in simp)
      then have ok: "scan_ok sha root v ?st" by (simp add: same_tree_ok [OF tv])
      have "walk_entries walk sha root ps ?st v = (r, w')" using Cons.prems(1) w0 3 d f q Inr nh by (simp add: io_map_err_def)
      from Cons.IH [OF this pre(2) ok] show ?thesis using tv same_tree_trans by blast
    qed
  next
    case 4
    then have "walk_entries walk sha root ps st w2 = (r, w')" using Cons.prems(1) w0 d f by (simp add: io_map_err_def)
    from Cons.IH [OF this pre(2)] show ?thesis using Cons.prems(3) same_tree_ok [OF t2] t2 same_tree_trans by blast
  qed
qed auto

lemma strict_prefix_butlast: "c \<noteq> [] \<Longrightarrow> prefix root (butlast c) \<Longrightarrow> strict_prefix root c"
  by (cases c rule: rev_cases) (auto simp: strict_prefix_def dest: prefix_length_le)

lemma walk_directory_ok: "walks_ok sha root (walk_directory fuel sha root)"
proof (induction fuel)
  case 0
  then show ?case by (simp add: walks_ok_def)
next
  case (Suc fuel)
  show ?case unfolding walks_ok_def
  proof (intro allI impI)
    fix p st w r w'
    assume run: "walk_directory (Suc fuel) sha root p st w = (r, w')" and pre: "prefix root p" and ok: "scan_ok sha root w st"
    obtain q v where q: "fs_read_dir p w = (q, v)" by fastforce
    have v: "same_tree w v" using file_reads(5) [of w w p] q by simp
    show "same_tree w w' \<and> (\<forall>st'. r = Inr st' \<longrightarrow> scan_ok sha root w' st')"
    proof (cases q)
      case (Inl e)
      then show ?thesis using run q v by (auto simp: io_map_err_def)
    next
      case (Inr ps)
      then have "\<forall>c\<in>set ps. c \<noteq> [] \<and> butlast c = p" using q by (auto simp: fs_read_dir_def fault_cases split: fault_splits if_splits)
      then have ps: "\<forall>c\<in>set ps. strict_prefix root c"
        using pre prefix_order.le_less_trans by (auto simp: strict_prefix_butlast)
      have "walk_entries (walk_directory fuel sha root) sha root ps st v = (r, w')" using run q Inr by (simp add: io_map_err_def)
      from walk_entries_ok [OF this Suc ps] show ?thesis using ok same_tree_ok [OF v] v same_tree_trans by blast
    qed
  qed
qed

lemma scan_send_path_ok:
  assumes "scan_send_path sha p w = (r, w')"
  shows "same_tree w w'" "r = Inr (name, es) \<Longrightarrow> e \<in> set es \<Longrightarrow> \<not> le_is_dir e \<Longrightarrow> file_true sha w e"
proof -
  obtain ex w1 where w1: "fs_probe (fs_exists p) w = (ex, w1)" by fastforce
  obtain f w2 where w2: "fs_probe (\<lambda>w. fs_lookup p w \<noteq> None) w1 = (f, w2)" by fastforce
  have t1: "same_tree w w1" and t2: "same_tree w w2" using probe_reads [OF w1] probe_reads [OF w2] same_tree_trans by blast+
  obtain q v where q: "hash_file_stream sha p w2 = (q, v)" by fastforce
  note hf = hash_file_stream_exact [OF q]
  have tv: "same_tree w v" using hf(1) t2 same_tree_trans by blast
  obtain x u where x: "walk_directory (Suc (dir_depth w2)) sha p p ([], 1) w2 = (x, u)" by fastforce
  note wd = walks_okD [OF walk_directory_ok x prefix_order.refl scan_ok_start]
  have tu: "same_tree w u" using wd t2 same_tree_trans by blast
  show "same_tree w w'"
    using assms w1 w2 q x t1 t2 tv tu
    by (cases ex; cases f; cases q; cases x) (auto simp: scan_send_path_def io_map_err_def Let_def simp del: walk_directory.simps split: if_splits)
  show "file_true sha w e" if r: "r = Inr (name, es)" and e: "e \<in> set es" "\<not> le_is_dir e"
  proof (cases f)
    case True
    then obtain n h where "q = Inr (n, h)" "es = fst (scan_push name p n h False ([], 1))"
      using assms w1 w2 q r by (cases ex; cases q) (auto simp: scan_send_path_def io_map_err_def Let_def)
    then show ?thesis using e hf(2) same_tree_lookup [OF t2] by (auto simp: scan_push_def file_true_def)
  next
    case False
    then obtain i where "x = Inr (es, i)"
      using assms w1 w2 x r by (cases ex; cases x)
        (auto simp: scan_send_path_def io_map_err_def Let_def simp del: walk_directory.simps split: if_splits)
    then have "scan_ok sha p w (es, i)" using wd same_tree_ok [OF tu] by simp
    then show ?thesis using e by (auto simp: scan_ok_def entry_ok_def list_all_iff)
  qed
qed

section \<open>Without faults\<close>

text \<open>A scan of an intact tree meets every path below its root.\<close>

definition tree :: "world \<Rightarrow> bool" where
  "tree w \<longleftrightarrow> io_faults w = [] \<and> (\<forall>p. p \<noteq> [] \<and> fs_exists p w \<longrightarrow> butlast p \<in> set (dirs w)) \<and>
     (\<forall>p\<in>set (dirs w). fs_lookup p w = None)"

definition tree_below :: "world \<Rightarrow> abspath \<Rightarrow> abspath set" where
  "tree_below w p = {q. strict_prefix p q \<and> fs_exists q w}"

definition paths :: "scan \<Rightarrow> abspath set" where
  "paths st = le_full_path ` set (fst st)"

lemma paths_push [simp]: "paths (scan_push r p n h d st) = insert p (paths st)"
  by (auto simp: paths_def scan_push_def)

lemma probe_faultless: "tree w \<Longrightarrow> fs_probe P w = (P w, w)"
  by (simp add: tree_def fs_probe_def fault_cases)

lemma hash_reads_faultless:
  "io_faults w = [] \<Longrightarrow> hash_reads (Some b) pos hashed w = (Inr (hashed @ drop pos b), w)"
proof (induction "Some b" pos hashed w rule: hash_reads.induct)
  case (1 pos hashed w)
  let ?d = "take HASH_BUF (drop pos b)"
  have rd: "fs_read_at (Some b) pos HASH_BUF w = (Inr ?d, w)" using "1.prems" by (simp add: fs_read_at_def fault_cases)
  show ?case
  proof (cases "?d = []")
    case True
    then have "drop pos b = []" by (simp add: HASH_BUF_def)
    then show ?thesis using rd True by (simp add: hash_reads.simps)
  next
    case False
    have "drop pos b = ?d @ drop (pos + length ?d) b"
      using append_take_drop_id [of HASH_BUF "drop pos b"] by (cases "HASH_BUF \<le> length (drop pos b)") (auto simp: add.commute)
    then show ?thesis using "1.hyps" [OF rd [symmetric] refl False "1.prems"] rd False
      by (simp add: hash_reads.simps [of _ pos hashed w])
  qed
qed

lemma hash_file_faultless:
  assumes "tree w" "fs_lookup p w = Some b"
  shows "hash_file_stream sha p w = (Inr (of_nat (length b), sha b), w)"
  using assms hash_reads_faultless [of w b 0 "[]"]
  by (simp add: hash_file_stream_def fs_open_def fs_handle_len_def fault_cases tree_def fs_exists_def)

lemma below_is_dir:
  assumes "tree w" "strict_prefix p q" "fs_exists q w" shows "p \<in> set (dirs w)"
  using assms(2,3)
proof (induction q rule: rev_induct)
  case (snoc x q)
  have q: "q \<in> set (dirs w)" using assms(1) snoc.prems(2) unfolding tree_def by (metis butlast_snoc snoc_eq_iff_butlast)
  show ?case
  proof (cases "p = q")
    case False
    then have "strict_prefix p q" using snoc.prems(1) by (auto simp: strict_prefix_def)
    then show ?thesis using snoc.IH q by (simp add: fs_exists_def)
  qed (use q in simp)
qed simp

lemma below_step:
  assumes "tree w"
  shows "tree_below w cur = (\<Union>c\<in>{c. c \<noteq> [] \<and> butlast c = cur \<and> fs_exists c w}. insert c (tree_below w c))"
proof (intro set_eqI iffI)
  fix q assume "q \<in> tree_below w cur"
  then obtain y ys where q: "q = cur @ y # ys" "fs_exists q w" by (auto simp: tree_below_def elim!: strict_prefixE')
  let ?c = "cur @ [y]"
  have "fs_exists ?c w"
  proof (cases ys)
    case (Cons z zs)
    have "strict_prefix ?c q" using q(1) Cons by (simp add: strict_prefix_def)
    then show ?thesis using below_is_dir [OF assms _ q(2)] by (simp add: fs_exists_def)
  qed (use q in simp)
  moreover have "q = ?c \<or> strict_prefix ?c q" using q(1) by (cases ys) (auto simp: strict_prefix_def)
  ultimately show "q \<in> (\<Union>c\<in>{c. c \<noteq> [] \<and> butlast c = cur \<and> fs_exists c w}. insert c (tree_below w c))"
    using q(2) by (intro UN_I [of ?c]) (auto simp: tree_below_def)
next
  fix q assume "q \<in> (\<Union>c\<in>{c. c \<noteq> [] \<and> butlast c = cur \<and> fs_exists c w}. insert c (tree_below w c))"
  then obtain c where "c \<noteq> []" "butlast c = cur" "fs_exists c w" "q = c \<or> q \<in> tree_below w c" by blast
  then show "q \<in> tree_below w cur"
    using strict_prefix_butlast [of c cur] prefix_order.less_trans by (auto simp: tree_below_def)
qed

lemma walk_entries_complete:
  assumes "tree w" "\<forall>p\<in>set ps. fs_exists p w"
    and "\<And>p st. p \<in> set ps \<Longrightarrow> p \<in> set (dirs w) \<Longrightarrow> \<exists>st'. walk p st w = (Inr st', w) \<and> paths st' = paths st \<union> tree_below w p"
  shows "\<exists>st'. walk_entries walk sha root ps st w = (Inr st', w) \<and> paths st' = paths st \<union> (\<Union>p\<in>set ps. insert p (tree_below w p))"
  using assms(2,3)
proof (induction ps arbitrary: st)
  case (Cons p ps)
  have entry: "fs_dir_entry p w = (Inr p, w)" using assms(1) by (simp add: fs_dir_entry_def fault_cases tree_def)
  have rest: "\<exists>st'. walk_entries walk sha root ps t w = (Inr st', w) \<and> paths st' = paths t \<union> (\<Union>p\<in>set ps. insert p (tree_below w p))" for t
    using Cons by auto
  show ?case
  proof (cases "p \<in> set (dirs w)")
    case True
    let ?st = "scan_push (strip_root root p) p 0 (replicate 32 0) True st"
    obtain t where t: "walk p ?st w = (Inr t, w)" "paths t = insert p (paths st) \<union> tree_below w p"
      using Cons.prems(2) [of p ?st] True by auto
    then show ?thesis using rest [of t] entry True by (auto simp: probe_faultless [OF assms(1)] io_map_err_def)
  next
    case False
    then obtain b where b: "fs_lookup p w = Some b" using Cons.prems(1) by (auto simp: fs_exists_def)
    have "tree_below w p = {}" using below_is_dir [OF assms(1)] False by (auto simp: tree_below_def)
    then show ?thesis
      using rest [of "scan_push (strip_root root p) p (of_nat (length b)) (sha b) False st"] entry False b hash_file_faultless [OF assms(1) b]
      by (auto simp: probe_faultless [OF assms(1)] io_map_err_def)
  qed
qed simp

lemma dir_depth_ge: "p \<in> set (dirs w) \<Longrightarrow> length p \<le> dir_depth w"
  by (simp add: dir_depth_def)

lemma walk_directory_complete:
  assumes "tree w" "cur \<in> set (dirs w)" "dir_depth w < fuel + length cur"
  shows "\<exists>st'. walk_directory fuel sha root cur st w = (Inr st', w) \<and> paths st' = paths st \<union> tree_below w cur"
  using assms(2,3)
proof (induction fuel arbitrary: cur st)
  case 0
  then show ?case using dir_depth_ge [of cur w] by simp
next
  case (Suc fuel)
  let ?ps = "filter (\<lambda>p. p \<noteq> [] \<and> butlast p = cur) (map fst (files w) @ dirs w)"
  have rd: "fs_read_dir cur w = (Inr ?ps, w)" using assms(1) Suc.prems(1) by (simp add: fs_read_dir_def fault_cases tree_def)
  have ps: "set ?ps = {c. c \<noteq> [] \<and> butlast c = cur \<and> fs_exists c w}"
    by (auto simp: fs_exists_def fs_lookup_def map_of_eq_None_iff)
  have walk: "\<exists>st'. walk_directory fuel sha root p st w = (Inr st', w) \<and> paths st' = paths st \<union> tree_below w p"
    if "p \<in> set ?ps" "p \<in> set (dirs w)" for p st
  proof (rule Suc.IH [OF that(2)])
    have "length p = Suc (length cur)" using that(1) by (cases p rule: rev_cases) auto
    then show "dir_depth w < fuel + length p" using Suc.prems(2) by simp
  qed
  have "\<exists>st'. walk_entries (walk_directory fuel sha root) sha root ?ps st w = (Inr st', w) \<and>
      paths st' = paths st \<union> (\<Union>p\<in>set ?ps. insert p (tree_below w p))"
  proof (rule walk_entries_complete [OF assms(1)])
    show "\<forall>p\<in>set ?ps. fs_exists p w" unfolding ps by simp
  qed (rule walk)
  then obtain st' where st': "walk_entries (walk_directory fuel sha root) sha root ?ps st w = (Inr st', w)"
    "paths st' = paths st \<union> (\<Union>p\<in>set ?ps. insert p (tree_below w p))" by (elim exE conjE)
  have "tree_below w cur = (\<Union>p\<in>set ?ps. insert p (tree_below w p))" unfolding ps by (rule below_step [OF assms(1)])
  with st'(2) have "paths st' = paths st \<union> tree_below w cur" by (simp only:)
  then show ?case using st'(1) by (intro exI [of _ st']) (simp add: rd io_map_err_def)
qed

section \<open>What a send writes\<close>

definition frame_says :: "daemon_lib \<Rightarrow> u32 \<Rightarrow> ControlMessage \<Rightarrow> NxfrFrame \<Rightarrow> bool" where
  "frame_says lib i msg f \<longleftrightarrow> kind (fst f) = Control \<and> session_id (fst f) = i \<and>
     encode_control (lib_into_writer lib) msg = Inr (snd f)"

lemma mb_send_tx:
  assumes "mb_send lib i msg s = (Inr u, s')"
  shows "\<exists>f. frame_says lib i msg f \<and> tx (mb_conn s') = tx (mb_conn s) @ [f] \<and> mb_world s' = mb_world s"
  using assms
  by (auto simp: mb_send_def send_control_def send_frame_def framed_send_def frame_says_def Let_def
      split: prod.splits sum.splits list.splits option.splits)

lemma mb_recv_tx: "mb_recv s = (r, s') \<Longrightarrow> tx (mb_conn s') = tx (mb_conn s) \<and> mb_world s' = mb_world s
    \<and> next_message_id (mb_conn s') = next_message_id (mb_conn s)"
  by (auto simp: mb_recv_def recv_frame_def split: prod.splits list.splits sum.splits)

lemma ffi_wait_tx:
  "ffi_wait lib t e limit n s = (r, s') \<Longrightarrow> tx (mb_conn s') = tx (mb_conn s) \<and> mb_world s' = mb_world s
    \<and> next_message_id (mb_conn s') = next_message_id (mb_conn s)"
proof (induction lib t e limit n s rule: ffi_wait.induct)
  case (1 lib t e limit n s)
  obtain q v where q: "mb_recv s = (q, v)" by fastforce
  note v = mb_recv_tx [OF q]
  show ?case
  proof (cases "limit \<le> n \<and> (\<exists>fr. q = Inr fr)")
    case False
    then show ?thesis using "1.prems" q v by (cases q) (auto simp: ffi_wait.simps [of lib t e limit n s] split: if_splits)
  next
    case True
    then obtain fr where fr: "limit \<le> n" "q = Inr fr" by blast
    note IH = "1.IH" [OF fr(1) q [symmetric] fr(2)]
    show ?thesis
    proof (cases "ack_length lib fr")
      case None
      then show ?thesis using IH(1) "1.prems" fr q v by (simp add: ffi_wait.simps [of lib t e limit n s])
    next
      case (Some len)
      then show ?thesis using IH(2) [OF Some] "1.prems" fr q v by (simp add: ffi_wait.simps [of lib t e limit n s])
    qed
  qed
qed

definition stream_args :: "ffi_send_args \<Rightarrow> LocalSendEntry \<Rightarrow> send_args" where
  "stream_args g e = \<lparr>sa_session_id = sg_session_id g, sa_stream_id = le_file_id e, sa_progress = True,
     sa_file_name = le_relative_path e, sa_total_file_size = le_size e\<rparr>"

lemma fs_read_exact_Inr:
  assumes "fs_read_exact h pos n w = (Inr d, w')"
  shows "same_tree w w' \<and> (\<exists>b. h = Some b \<and> pos + n \<le> length b \<and> d = take n (drop pos b))"
  using assms by (auto simp: fs_read_exact_def fault_cases same_tree_def split: fault_splits if_splits)

lemma ffi_send_chunk_tx:
  assumes "ffi_send_chunk lib g e off (subslice off (chunk_end b off) b) (chunk_end b off = length b) s = (Inr u, s')"
  shows "tx (mb_conn s') = tx (mb_conn s) @ [chunk_frame (lib_sha256 lib) (stream_args g e) b off (next_message_id (mb_conn s))]
    \<and> next_message_id (mb_conn s') = next_message_id (mb_conn s) + 1 \<and> mb_world s' = mb_world s"
  using assms
  by (auto simp: ffi_send_chunk_def send_chunk_def send_frame_def framed_send_def chunk_frame_def stream_args_def Let_def
      split: prod.splits sum.splits list.splits option.splits)

text \<open>A stream that ends well wrote the chunks of the file, as long as it was when it was scanned.\<close>

lemma ffi_stream_tx:
  assumes "ffi_stream lib g t e (Some d) off n s = (Inr m, s')" "off \<le> unat (le_size e)"
  shows "same_tree (mb_world s) (mb_world s') \<and> (off < unat (le_size e) \<longrightarrow> unat (le_size e) \<le> length d) \<and>
    tx (mb_conn s') = tx (mb_conn s) @
      file_frames (lib_sha256 lib) (stream_args g e) (take (unat (le_size e)) d) off (next_message_id (mb_conn s))"
  using assms
proof (induction lib g t e "Some d" off n s rule: ffi_stream.induct)
  case (1 lib g t e off n s)
  let ?size = "unat (le_size e)"
  show ?case
  proof (cases "off < ?size")
    case False
    then have "s' = s" using "1.prems" by (subst (asm) ffi_stream.simps) simp
    then show ?thesis using False by (simp add: file_frames.simps)
  next
    case True
    let ?want = "min CHUNK_DATA_SIZE (?size - off)"
    from "1.prems"(1) True obtain n1 s1 buf s2 u s3 where w: "ffi_wait lib t e MAX_IN_FLIGHT n s = (Inr n1, s1)"
      and rd: "mb_io (fs_read_exact (Some d) off ?want) s1 = (Inr buf, s2)"
      and ch: "ffi_send_chunk lib g e off buf (off + ?want = ?size) s2 = (Inr u, s3)"
      and rec: "ffi_stream lib g t e (Some d) (off + ?want) (n1 + 1) s3 = (Inr m, s')"
      by (auto simp: ffi_stream.simps [of lib g t e "Some d" off n s] io_then_Inr Let_def)
    note ws = ffi_wait_tx [OF w]
    from rd obtain v where v: "fs_read_exact (Some d) off ?want (mb_world s1) = (Inr buf, v)" "s2 = s1\<lparr>mb_world := v\<rparr>"
      by (cases "fs_read_exact (Some d) off ?want (mb_world s1)") (auto simp: mb_io_def result_simps)
    note rx = fs_read_exact_Inr [OF v(1)]
    have le: "off + ?want \<le> ?size" using True by simp
    note IH = "1.hyps" [OF refl True refl rec le]
    let ?b = "take ?size d"
    have big: "?size \<le> length d" using rx IH True by (cases "off + ?want < ?size") auto
    then have b: "length ?b = ?size" "chunk_end ?b off = off + ?want"
      using True by (auto simp: chunk_end_def)
    have "buf = subslice off (chunk_end ?b off) ?b"
      using rx b(2) by (auto simp: subslice_def drop_take)
    with ch have "ffi_send_chunk lib g e off (subslice off (chunk_end ?b off) ?b) (chunk_end ?b off = length ?b) s2 = (Inr u, s3)"
      using b by simp
    note ct = ffi_send_chunk_tx [OF this]
    have "file_frames (lib_sha256 lib) (stream_args g e) ?b off (next_message_id (mb_conn s)) =
        chunk_frame (lib_sha256 lib) (stream_args g e) ?b off (next_message_id (mb_conn s)) #
        file_frames (lib_sha256 lib) (stream_args g e) ?b (off + ?want) (next_message_id (mb_conn s) + 1)"
      using True b by (subst file_frames.simps) simp
    then show ?thesis using IH ct ws v(2) rx big by (auto simp: same_tree_def)
  qed
qed

text \<open>What a file looks like on the wire, when it did not change between the scan and its turn.\<close>

definition file_sent :: "daemon_lib \<Rightarrow> ffi_send_args \<Rightarrow> TransferId \<Rightarrow> world \<Rightarrow> LocalSendEntry \<Rightarrow> NxfrFrame list \<Rightarrow> bool" where
  "file_sent lib g tid w e fs \<longleftrightarrow> (\<exists>b f chunks. fs = f # chunks \<and> fs_lookup (le_full_path e) w = Some b \<and>
     frame_says lib (sg_session_id g) (FileMetadata tid (le_file_id e) (le_file_id e) (le_relative_path e) (of_nat (length b))
       (lib_sha256 lib b) None None) f \<and>
     frames_carry (lib_sha256 lib) (le_file_id e) 0 chunks b)"

definition undisturbed_send :: "ffi_send_args \<Rightarrow> bool" where
  "undisturbed_send g \<longleftrightarrow> (\<forall>i w q. fs_lookup q (sg_meanwhile g i w) = fs_lookup q w)"

definition same_contents :: "world \<Rightarrow> world \<Rightarrow> bool" where
  "same_contents w w' \<longleftrightarrow> (\<forall>q. fs_lookup q w' = fs_lookup q w)"

lemma same_tree_files: "same_tree w w' \<Longrightarrow> same_contents w w'"
  by (simp add: same_contents_def same_tree_lookup)

lemma ffi_send_entry_tx:
  assumes "ffi_send_entry lib g tid t e s = (Inr u, s')" "undisturbed_send g" "same_contents w (mb_world s)" "file_true (lib_sha256 lib) w e"
    and "\<forall>b. fs_lookup (le_full_path e) w = Some b \<longrightarrow> length b < 2 ^ 64"
  shows "same_contents w (mb_world s') \<and> (\<exists>fs. tx (mb_conn s') = tx (mb_conn s) @ fs \<and> file_sent lib g tid w e fs)"
proof -
  let ?s = "s\<lparr>mb_world := sg_meanwhile g (le_file_id e) (mb_world s)\<rparr>"
  from assms(1) obtain h s1 v1 s2 fr s3 where o: "mb_io (fs_open (le_full_path e)) ?s = (Inr h, s1)"
    and m: "mb_send lib (sg_session_id g) (ffi_metadata tid e) s1 = (Inr v1, s2)"
    and r: "mb_recv s2 = (Inr fr, s3)"
    by (auto simp: ffi_send_entry_def io_then_Inr)
  from assms(1) o m r obtain n s4 k where st: "ffi_stream lib g t e h 0 0 s3 = (Inr n, s4)" and k: "ffi_wait lib t e 1 n s4 = (Inr k, s')"
    by (auto simp: ffi_send_entry_def io_then_Inr split: sum.splits ControlMessage.splits bool.splits)
  from assms(4) obtain b where b: "fs_lookup (le_full_path e) w = Some b" "le_size e = of_nat (length b)" "le_sha256 e = lib_sha256 lib b"
    by (auto simp: file_true_def)
  have len: "unat (le_size e) = length b" using b(2) assms(5) b(1) by (simp add: unat_of_nat_u64)
  have w0: "same_contents w (mb_world ?s)" using assms(2,3) by (simp add: undisturbed_send_def same_contents_def)
  have hb: "h = Some b" and w1: "same_tree (mb_world ?s) (mb_world s1)" and c1: "mb_conn s1 = mb_conn s"
    using o b(1) w0 by (auto simp: mb_io_def fs_open_def fault_cases result_simps same_tree_def same_contents_def fs_lookup_def
        split: prod.splits fault_splits if_splits sum.splits)
  obtain f where f: "frame_says lib (sg_session_id g) (ffi_metadata tid e) f" "tx (mb_conn s2) = tx (mb_conn s1) @ [f]" "mb_world s2 = mb_world s1"
    using mb_send_tx [OF m] by blast
  note str = ffi_stream_tx [OF st [unfolded hb]]
  let ?c = "file_frames (lib_sha256 lib) (stream_args g e) b 0 (next_message_id (mb_conn s3))"
  have "tx (mb_conn s') = tx (mb_conn s) @ f # ?c" "same_contents w (mb_world s')"
    using str len f(2,3) c1 mb_recv_tx [OF r] ffi_wait_tx [OF k] w0 w1
    by (auto simp: same_contents_def same_tree_lookup)
  moreover have "frames_carry (lib_sha256 lib) (le_file_id e) 0 ?c b"
    using file_frames_carry [of 0 b "lib_sha256 lib" "stream_args g e"] by (simp add: stream_args_def)
  moreover have "frame_says lib (sg_session_id g) (FileMetadata tid (le_file_id e) (le_file_id e) (le_relative_path e) (of_nat (length b))
      (lib_sha256 lib b) None None) f" using b f(1) by (simp add: ffi_metadata_def)
  ultimately show ?thesis using b(1) unfolding file_sent_def by blast
qed

lemma ffi_send_entries_tx:
  assumes "ffi_send_entries lib g tid t es s = (Inr u, s')" "undisturbed_send g" "same_contents w (mb_world s)"
    and "\<forall>e\<in>set es. file_true (lib_sha256 lib) w e" "\<forall>q b. fs_lookup q w = Some b \<longrightarrow> length b < 2 ^ 64"
  shows "\<exists>fss. tx (mb_conn s') = tx (mb_conn s) @ concat fss \<and> list_all2 (file_sent lib g tid w) es fss"
  using assms
proof (induction es arbitrary: s)
  case Nil
  then show ?case by simp
next
  case (Cons e es)
  from Cons.prems(1) obtain v s1 where s1: "ffi_send_entry lib g tid t e s = (Inr v, s1)"
    and rec: "ffi_send_entries lib g tid t es s1 = (Inr u, s')" by (auto simp: io_then_Inr)
  from ffi_send_entry_tx [OF s1 Cons.prems(2,3)] Cons.prems(4,5) obtain fs where
    fs: "same_contents w (mb_world s1)" "tx (mb_conn s1) = tx (mb_conn s) @ fs" "file_sent lib g tid w e fs" by auto
  from Cons.IH [OF rec Cons.prems(2) fs(1)] Cons.prems(4,5) obtain fss where
    "tx (mb_conn s') = tx (mb_conn s1) @ concat fss" "list_all2 (file_sent lib g tid w) es fss" by auto
  then show ?case using fs by (intro exI [of _ "fs # fss"]) simp
qed

lemma ffi_send_outcome_tx: "tx (mb_conn (snd (ffi_send_outcome lib g s))) = tx (mb_conn s)"
proof -
  obtain q v where q: "mb_recv s = (q, v)" by fastforce
  note v = mb_recv_tx [OF q]
  show ?thesis
  proof (cases q)
    case (Inl e)
    then show ?thesis using q v by (simp add: ffi_send_outcome_def)
  next
    case (Inr fr)
    have "tx (mb_conn (snd (ffi_send_outcome lib g s))) = tx (mb_conn v)"
    proof (cases "decode_control (lib_from_reader lib) (snd fr)")
      case (Inr msg)
      then show ?thesis
        using q \<open>q = Inr fr\<close> by (cases msg) (simp_all add: ffi_send_outcome_def Let_def split: TransferAckStatus.splits)
    qed (simp add: q Inr ffi_send_outcome_def Let_def)
    then show ?thesis using v by simp
  qed
qed

section \<open>Properties\<close>

text \<open>
  C38 A mobile send that returns success wrote exactly this, if no other program changed files meanwhile: the
  request, with the manifest of what the scan found; then, for every file of the scan and in its order, the
  metadata with the size and SHA-256 of the file as it is on disk, and chunks that carry exactly the bytes of
  the file, in order, each with its own hash; then the completion. Files are shorter than \<open>2\<^sup>6\<^sup>4\<close> bytes.
\<close>

theorem mobile_send_transmits:
  assumes "do_send_file lib g path s = (Inr (), s')" "\<forall>i w q. fs_lookup q (sg_meanwhile g i w) = fs_lookup q w"
    and "\<forall>q b. fs_lookup q (mb_world s) = Some b \<longrightarrow> length b < 2 ^ 64"
  shows "\<exists>name es tid f0 fss fz. fst (scan_send_path (lib_sha256 lib) path (mb_world s)) = Inr (name, es) \<and>
    tx (mb_conn s') = tx (mb_conn s) @ f0 # concat fss @ [fz] \<and>
    frame_says lib (sg_session_id g) (ffi_request tid name es) f0 \<and>
    list_all2 (file_sent lib g tid (mb_world s)) (files_of es) fss \<and>
    frame_says lib (sg_session_id g) (TransferComplete tid) fz"
proof -
  from assms(1) obtain name es s1 tid s2 where s1: "mb_scan lib path s = (Inr (name, es), s1)"
    and s2: "rand_transfer_id s1 = (Inr tid, s2)" by (auto simp: do_send_file_def io_then_Inr)
  with assms(1) obtain u1 s3 u2 s4 u3 s5 u4 s6 where s3: "mb_send lib (sg_session_id g) (ffi_request tid name es) s2 = (Inr u1, s3)"
    and s4: "ffi_await_accept lib g s3 = (Inr u2, s4)"
    and s5: "ffi_send_entries lib g tid (total_size_of es) (files_of es) (s4\<lparr>mb_cumulative := 0\<rparr>) = (Inr u3, s5)"
    and s6: "mb_send lib (sg_session_id g) (TransferComplete tid) s5 = (Inr u4, s6)"
    and s7: "ffi_send_outcome lib g s6 = (Inr (), s')"
    by (auto simp: do_send_file_def io_then_Inr split: if_splits)
  obtain w1 where scan: "scan_send_path (lib_sha256 lib) path (mb_world s) = (Inr (name, es), w1)"
    and e1: "mb_world s1 = w1" "mb_conn s1 = mb_conn s" using s1 by (auto simp: mb_scan_def split: prod.splits)
  have e2: "mb_world s2 = w1" "mb_conn s2 = mb_conn s"
    using s2 e1 by (auto simp: rand_transfer_id_def mb_draw_def split: prod.splits sum.splits list.splits)
  obtain f0 where f0: "frame_says lib (sg_session_id g) (ffi_request tid name es) f0" "tx (mb_conn s3) = tx (mb_conn s) @ [f0]" "mb_world s3 = w1"
    using mb_send_tx [OF s3] e2 by auto
  have e4: "tx (mb_conn s4) = tx (mb_conn s3)" "mb_world s4 = w1"
    using s4 f0(3) by (auto simp: ffi_await_accept_def recv_frame_def split: if_splits prod.splits list.splits sum.splits)
  have files: "same_contents (mb_world s) (mb_world (s4\<lparr>mb_cumulative := 0\<rparr>))"
    using scan_send_path_ok(1) [OF scan] e4(2) by (simp add: same_tree_files)
  have true: "\<forall>e\<in>set (files_of es). file_true (lib_sha256 lib) (mb_world s) e"
    using scan_send_path_ok(2) [OF scan refl] by (auto simp: files_of_def)
  obtain fss where fss: "tx (mb_conn s5) = tx (mb_conn s4) @ concat fss" "list_all2 (file_sent lib g tid (mb_world s)) (files_of es) fss"
    using ffi_send_entries_tx [OF s5 _ files true assms(3)] assms(2) by (auto simp: undisturbed_send_def)
  obtain fz where fz: "frame_says lib (sg_session_id g) (TransferComplete tid) fz" "tx (mb_conn s6) = tx (mb_conn s5) @ [fz]"
    using mb_send_tx [OF s6] by auto
  have "tx (mb_conn s') = tx (mb_conn s6)"
    using s7 ffi_send_outcome_tx [of lib g s6] by simp
  then have "tx (mb_conn s') = tx (mb_conn s) @ f0 # concat fss @ [fz]" using fz(2) fss(1) e4 f0(2) by simp
  then show ?thesis using scan f0(1) fss(2) fz(1) by auto
qed

theorem mobile_send_transmits_witness:
  "\<exists>lib g s s' tid f0 f chunks fz. do_send_file lib g [''d'', ''f''] s = (Inr (), s') \<and>
     tx (mb_conn s') = [f0, f] @ chunks @ [fz] \<and>
     frame_says lib (sg_session_id g) (FileMetadata tid 1 1 ''f'' 1 (lib_sha256 lib [5]) None None) f \<and>
     frames_carry (lib_sha256 lib) 1 0 chunks [5]"
proof -
  let ?tid = "TransferId (replicate 16 0)"
  let ?lib = "\<lparr>lib_sha256 = (\<lambda>_. replicate 32 0), lib_from_reader = ref_from_reader, lib_into_writer = (\<lambda>_. Inr []),
    lib_to_vec = ref_to_vec, lib_from_str = ref_from_str, lib_canonicalize = (\<lambda>_ p. Inr p), lib_path_error = (\<lambda>_. ''bad'')\<rparr> :: daemon_lib"
  let ?g = "\<lparr>sg_session_id = 1, sg_peer_device_id = [], sg_timely = True, sg_meanwhile = (\<lambda>_ w. w), sg_debug = (\<lambda>_. ''m'')\<rparr>"
  let ?w = "\<lparr>files = [([''d'', ''f''], [5])], dirs = [[], [''d'']], io_faults = []\<rparr> :: world"
  let ?h = "\<lparr>kind = Control, flags = FrameFlags 0, session_id = 1, stream_id = 0, message_id = 1, payload_len = 0\<rparr> :: FrameHeader"
  obtain b2 b3 b4 b5 where enc:
    "encode_control ref_into_writer (TransferAccept ?tid) = Inr b2"
    "encode_control ref_into_writer (FileMetadataAck ?tid 1 1 True) = Inr b3"
    "encode_control ref_into_writer (ChunkAck 1 1 0 1) = Inr b4"
    "encode_control ref_into_writer (TransferAck ?tid Success None) = Inr b5"
    by (simp add: write_eval encode_transfer_id_def encode_file_metadata_ack_def encode_chunk_ack_def
        encode_transfer_ack_def limit_defs)
  have dec: "decode_control ref_from_reader b2 = Inr (TransferAccept ?tid)" "decode_control ref_from_reader b3 = Inr (FileMetadataAck ?tid 1 1 True)"
    "decode_control ref_from_reader b4 = Inr (ChunkAck 1 1 0 1)" "decode_control ref_from_reader b5 = Inr (TransferAck ?tid Success None)"
    using enc by (auto intro!: ref_cbor.decode_encode_wire simp: wf_transfer_id_def)
  let ?s = "\<lparr>mb_connected = True, mb_conn = connection_new [Inr (?h, b2), Inr (?h, b3), Inr (?h, b4), Inr (?h, b5)] [], mb_world = ?w,
    mb_events = [], mb_random = [], mb_count = 0, mb_cumulative = 0, mb_first = None\<rparr>"
  let ?e = "\<lparr>le_file_id = 1, le_relative_path = ''f'', le_full_path = [''d'', ''f''], le_size = 1, le_sha256 = replicate 32 0, le_is_dir = False\<rparr>"
  have hash: "hash_reads (Some [5]) 0 [] ?w = (Inr [5], ?w)"
    by (simp add: hash_reads.simps fs_read_at_def fault_cases HASH_BUF_def)
  have scan: "scan_send_path (lib_sha256 ?lib) [''d'', ''f''] ?w = (Inr (''f'', [?e]), ?w)"
    by (simp add: scan_send_path_def fs_probe_def fault_cases fs_exists_def fs_lookup_def path_file_name_def hash_file_stream_def fs_open_def
        fs_handle_len_def hash io_map_err_def scan_push_def Let_def)
  have "\<exists>s'. do_send_file ?lib ?g [''d'', ''f''] ?s = (Inr (), s')"
    using dec
    by (simp add: do_send_file_def mb_scan_def scan [simplified] rand_transfer_id_def mb_draw_def mb_send_def send_control_def encode_control_def
        send_frame_def framed_send_def connection_new_def ffi_request_def encode_transfer_request_def encode_manifest_entry_def
        files_of_def total_size_of_def manifest_entry_def limit_defs ffi_await_accept_def recv_frame_def ffi_send_entry_def mb_io_def fs_open_def
        fault_cases fs_exists_def fs_lookup_def ffi_metadata_def mb_recv_def ffi_stream.simps ffi_wait.simps MAX_IN_FLIGHT_def CHUNK_DATA_SIZE_def
        fs_read_exact_def ffi_send_chunk_def send_chunk_def ack_length_def ffi_acked_def mb_emit_def ffi_send_outcome_def Let_def)
  then obtain s' where run: "do_send_file ?lib ?g [''d'', ''f''] ?s = (Inr (), s')" by blast
  have len: "\<forall>q b. fs_lookup q (mb_world ?s) = Some b \<longrightarrow> length b < 2 ^ 64" by (auto simp: fs_lookup_def split: if_splits)
  from mobile_send_transmits [OF run _ len] scan obtain tid f0 fss fz where
    tx: "tx (mb_conn s') = f0 # concat fss @ [fz]" "list_all2 (file_sent ?lib ?g tid ?w) (files_of [?e]) fss"
    by (auto simp: connection_new_def)
  then obtain fs where "fss = [fs]" "file_sent ?lib ?g tid ?w ?e fs" by (auto simp: files_of_def list_all2_Cons1)
  then show ?thesis using run tx by (fastforce simp: file_sent_def fs_lookup_def)
qed

text \<open>
  C39 The scan of a directory finds everything. On a tree without input errors, where every path has its parent
  directory and no file has the name of a directory, it returns (the walk has fuel enough): an error exactly
  if nothing is below the directory, and otherwise entries for all paths below it and no others, with ids
  counted up from one, each a directory or a file as it is on disk, with its path relative to the directory,
  and for a file its size and SHA-256.
\<close>

theorem mobile_scan_complete:
  assumes "io_faults w = []" "\<forall>p. p \<noteq> [] \<and> fs_exists p w \<longrightarrow> butlast p \<in> set (dirs w)" "\<forall>p\<in>set (dirs w). fs_lookup p w = None"
    and "base \<in> set (dirs w)"
  shows "\<exists>es name. scan_send_path sha base w = (if es = [] then Inl (FxText ''directory is empty'') else Inr (name, es), w) \<and>
    le_full_path ` set es = {p. strict_prefix base p \<and> fs_exists p w} \<and> list_all (entry_ok sha base w) es \<and>
    map le_file_id es = map (\<lambda>i. of_nat (Suc i)) [0..<length es]"
proof -
  have t: "tree w" using assms(1-3) by (simp add: tree_def)
  obtain es i where run: "walk_directory (Suc (dir_depth w)) sha base base ([], 1) w = (Inr (es, i), w)"
    and es: "paths (es, i) = paths ([], 1) \<union> tree_below w base"
    using walk_directory_complete [OF t assms(4), of "Suc (dir_depth w)" sha base "([], 1)"] by auto
  have "scan_ok sha base w (es, i)" using walks_okD [OF walk_directory_ok run prefix_order.refl scan_ok_start] by blast
  moreover have "fs_exists base w" "fs_lookup base w = None" using assms(3,4) by (simp_all add: fs_exists_def)
  then have "scan_send_path sha base w = (if es = [] then Inl (FxText ''directory is empty'')
      else Inr (case path_file_name base of None \<Rightarrow> ''transfer'' | Some n \<Rightarrow> n, es), w)"
    using run by (simp add: scan_send_path_def probe_faultless [OF t] del: walk_directory.simps)
  ultimately show ?thesis using es by (auto simp: scan_ok_def paths_def tree_below_def)
qed

theorem mobile_scan_complete_witness:
  "\<exists>w es name. scan_send_path (\<lambda>b. b) [''d''] w = (Inr (name, es), w) \<and>
     le_full_path ` set es = {[''d'', ''e''], [''d'', ''e'', ''f'']} \<and> list_all (entry_ok (\<lambda>b. b) [''d''] w) es"
proof -
  let ?w = "\<lparr>files = [([''d'', ''e'', ''f''], [5])], dirs = [[], [''d''], [''d'', ''e'']], io_faults = []\<rparr> :: world"
  have "\<forall>p. p \<noteq> [] \<and> fs_exists p ?w \<longrightarrow> butlast p \<in> set (dirs ?w)" "\<forall>p\<in>set (dirs ?w). fs_lookup p ?w = None"
    by (auto simp: fs_exists_def fs_lookup_def split: if_splits)
  from mobile_scan_complete [OF _ this, of "[''d'']" "\<lambda>b. b"] obtain es name where
    es: "scan_send_path (\<lambda>b. b) [''d''] ?w = (if es = [] then Inl (FxText ''directory is empty'') else Inr (name, es), ?w)"
      "le_full_path ` set es = {p. strict_prefix [''d''] p \<and> fs_exists p ?w}" "list_all (entry_ok (\<lambda>b. b) [''d''] ?w) es" by auto
  have "{p. strict_prefix [''d''] p \<and> fs_exists p ?w} = {[''d'', ''e''], [''d'', ''e'', ''f'']}"
    by (auto simp: fs_exists_def fs_lookup_def strict_prefix_def split: if_splits)
  with es(2) have set: "le_full_path ` set es = {[''d'', ''e''], [''d'', ''e'', ''f'']}" by (rule trans)
  have "set es \<noteq> {}"
  proof
    assume "set es = {}"
    with set show False by simp
  qed
  then have "scan_send_path (\<lambda>b. b) [''d''] ?w = (Inr (name, es), ?w)" using es(1) by simp
  then show ?thesis using set es(3) by blast
qed

end
