(* ===== verification/Nxfr_Mobile_Host.thy ===== *)
theory Nxfr_Mobile_Host
  imports Nxfr_Mobile_Send Nxfr_Outbound
begin

text \<open>
  The calls of a mobile host (\<open>nxfr-ffi/src/lib.rs\<close>): connecting and accepting, the reader of an accepted
  session, starting and answering transfers, polling for events, pairing, and closing.

  The state has the table of sessions, the tasks that calls have spawned, the files, the device table and the
  coming random bytes. A call and a task are steps: a task runs with the lock of its session's connection, so
  tasks of one session exclude each other; the reader is two tasks, since it takes the connection out of the
  session and waits for a frame without the lock. A session that was closed stays in the list, marked, for the
  tasks that still refer to it. What the outside decides are arguments of a call: the outcome of the dialling or
  the stream that arrived, deadlines, the clock, the outcome of opening the database, the configured name.
  The replies are values; their JSON texts are not modelled.
\<close>

section \<open>State\<close>

record mobile_session =
  ms_open :: bool
  ms_conn :: "NxfrConnection option"
  ms_events :: "FfiEvent list"
  ms_local_id :: bytes
  ms_peer_id :: bytes
  ms_peer_name :: string
  ms_peer_cert :: bytes
  ms_session_id :: u32
  ms_pending :: "ffi_offer option"

datatype mobile_task =
    TkReader (task_handle: u64)
  | TkReading (task_handle: u64) NxfrConnection
  | TkReject (task_handle: u64) TransferId
  | TkReceive (task_handle: u64) ffi_offer
  | TkSend (task_handle: u64) abspath
  | TkClose (task_handle: u64)

record mobile =
  mh_sessions :: "(u64 \<times> mobile_session) list"
  mh_next :: u64
  mh_tasks :: "mobile_task list"
  mh_world :: world
  mh_db :: paired_db
  mh_random :: "(string + bytes) list"
  mh_receive_dir :: "abspath option"

datatype mobile_error =
    MeText string
  | MeConn string io_error
  | MeCodec string CodecError
  | MeUnexpected string ControlMessage
  | MeStorage string StorageError

datatype mobile_reply =
    RpError mobile_error
  | RpSession u64 bytes string u32
  | RpStarted u64
  | RpConfirmed u64 bool
  | RpEvent FfiEvent bytes
  | RpNone
  | RpSas u64 string
  | RpPaired u64 bool
  | RpUnpaired string
  | RpPolicy string string
  | RpClosed u64
  | RpDir abspath

definition mh_update :: "u64 \<Rightarrow> (mobile_session \<Rightarrow> mobile_session) \<Rightarrow> mobile \<Rightarrow> mobile" where
  "mh_update h f m = m\<lparr>mh_sessions := map (\<lambda>(k, s). (k, if k = h then f s else s)) (mh_sessions m)\<rparr>"

definition mh_session :: "u64 \<Rightarrow> mobile \<Rightarrow> mobile_session option" where
  "mh_session h m = map_of (mh_sessions m) h"

text \<open>The lookup of a handle in the table.\<close>

definition mh_get :: "u64 \<Rightarrow> mobile \<Rightarrow> mobile_session option" where
  "mh_get h m = (case mh_session h m of Some s \<Rightarrow> if ms_open s then Some s else None | None \<Rightarrow> None)"

definition mh_spawn :: "mobile_task \<Rightarrow> mobile \<Rightarrow> mobile" where
  "mh_spawn t m = m\<lparr>mh_tasks := mh_tasks m @ [t]\<rparr>"

definition mh_draw :: "nat \<Rightarrow> mobile \<Rightarrow> (string + bytes) \<times> mobile" where
  "mh_draw n m =
     (case mh_random m of
        [] \<Rightarrow> (Inr (replicate n 0), m)
      | r # rs \<Rightarrow> (r, m\<lparr>mh_random := rs\<rparr>))"

definition mh_add :: "mobile_session \<Rightarrow> mobile \<Rightarrow> u64 \<times> mobile" where
  "mh_add s m =
     (let h = mh_next m in (h, m\<lparr>mh_sessions := (h, s) # mh_sessions m, mh_next := h + 1\<rparr>))"

section \<open>Connecting\<close>

definition load_identity :: "out_lib \<Rightarrow> abspath \<Rightarrow> world \<Rightarrow> (mobile_error + bytes) \<times> world" where
  "load_identity lib dir w =
     io_then (io_map_err (\<lambda>e. MeText (''read key: '' @ e)) (fs_read (dir @ [''identity.der'']) w)) (\<lambda>key_der w.
     io_then (io_map_err (\<lambda>e. MeText (''read cert: '' @ e)) (fs_read (dir @ [''identity.crt'']) w)) (\<lambda>cert_der w.
       (map_err (\<lambda>e. MeText (''device_id derivation: '' @ e)) (device_id_from_cert (ol_x509 lib) (lib_sha256 lib) cert_der), w)))"

definition mobile_name :: "string option \<Rightarrow> string" where
  "mobile_name configured = (case configured of Some n \<Rightarrow> if n = '''' then ''NXFR-Android'' else n | None \<Rightarrow> ''NXFR-Android'')"

definition mobile_peer :: "out_lib \<Rightarrow> string \<Rightarrow> string \<Rightarrow> peer_stream \<Rightarrow> mobile_error + (bytes \<times> bytes)" where
  "mobile_peer lib no_certs no_first p =
     and_then (ok_or (MeText no_certs) (ps_certs p)) (\<lambda>peer_certs.
     and_then (case peer_certs of [] \<Rightarrow> Inl (MeText no_first) | cert # _ \<Rightarrow> Inr cert) (\<lambda>peer_cert.
     and_then (map_err (\<lambda>e. MeText (''peer device_id: '' @ e)) (device_id_from_cert (ol_x509 lib) (lib_sha256 lib) peer_cert)) (\<lambda>peer_device_id.
       Inr (peer_device_id, peer_cert))))"

definition version_text :: "ProtocolVersion \<Rightarrow> string" where
  "version_text v = dec_string (unat (major v)) @ ''.'' @ dec_string (unat (minor v))"

text \<open>HELLO and its answer, as the dialling side.\<close>

definition mobile_hello :: "out_lib \<Rightarrow> bytes \<Rightarrow> string \<Rightarrow> NxfrConnection \<Rightarrow> mobile_error + (NxfrConnection \<times> string \<times> u32)" where
  "mobile_hello lib device_id name c =
     (case send_control (lib_into_writer lib) 0 0 (Hello V1_0 (DeviceId device_id) name Android [] False) c of
        (Inl e, _) \<Rightarrow> Inl (MeConn ''send HELLO: '' e)
      | (Inr _, c) \<Rightarrow>
          (case recv_frame c of
             (Inl e, _) \<Rightarrow> Inl (MeConn ''recv HELLO_ACK: '' e)
           | (Inr (hdr, payload), c) \<Rightarrow>
               if kind hdr \<noteq> Control then Inl (MeText ''expected CONTROL frame for HELLO_ACK'')
               else case decode_control (lib_from_reader lib) payload of
                 Inl e \<Rightarrow> Inl (MeCodec ''decode: '' e)
               | Inr (HelloAck version _ device_name _ _ _ session) \<Rightarrow>
                   if \<not> is_supported version
                   then Inl (MeText (''peer returned unsupported protocol version '' @ version_text version))
                   else Inr (c, device_name, session)
               | Inr msg \<Rightarrow> Inl (MeUnexpected ''expected HELLO_ACK, got '' msg)))"

text \<open>The check against the device table; the first argument is how opening the database turns out.\<close>

definition mobile_tofu :: "out_lib \<Rightarrow> (string + unit) \<times> (string + unit) \<Rightarrow> i64 \<Rightarrow> bytes \<Rightarrow> bytes \<Rightarrow> paired_db
    \<Rightarrow> (mobile_error + unit) \<times> paired_db" where
  "mobile_tofu lib opening now peer_device_id peer_cert_der db =
     (case paired_open (fst opening) (snd opening) db of
        (Inl _, db) \<Rightarrow> (Inr (), db)
      | (Inr _, db) \<Rightarrow>
          let peer_id_hex = hex_encode peer_device_id;
              spki = (case extract_spki (ol_x509 lib) peer_cert_der of Inl _ \<Rightarrow> [] | Inr k \<Rightarrow> k)
          in case verify_identity (extract_spki (ol_x509 lib)) peer_id_hex spki db of
               (Inr Changed, db) \<Rightarrow> (Inl (MeText ''TOFU violation: peer identity changed since last pairing''), db)
             | (Inr Matched, db) \<Rightarrow> (Inr (), snd (update_last_seen now peer_id_hex db))
             | (_, db) \<Rightarrow> (Inr (), db))"

record connect_env =
  ce_dial :: "string + peer_stream"
  ce_timely :: bool
  ce_name :: "string option"
  ce_opening :: "(string + unit) \<times> (string + unit)"
  ce_now :: i64

definition mobile_dial :: "out_lib \<Rightarrow> connect_env \<Rightarrow> bytes \<Rightarrow> mobile_error + (NxfrConnection \<times> bytes \<times> string \<times> u32 \<times> bytes)" where
  "mobile_dial lib v device_id =
     (if \<not> ce_timely v then Inl (MeText ''connect timeout (5s)'')
      else and_then (map_err MeText (ce_dial v)) (\<lambda>p.
           and_then (mobile_peer lib ''no peer certificates'' ''empty peer cert chain'' p) (\<lambda>(peer_device_id, peer_cert).
           and_then (mobile_hello lib device_id (mobile_name (ce_name v)) (ps_conn p)) (\<lambda>(c, peer_name, session).
             Inr (c, peer_device_id, peer_name, session, peer_cert)))))"

definition new_session :: "bytes \<Rightarrow> NxfrConnection \<Rightarrow> bytes \<Rightarrow> string \<Rightarrow> u32 \<Rightarrow> bytes \<Rightarrow> mobile_session" where
  "new_session local_id c peer_device_id peer_name session peer_cert =
     \<lparr>ms_open = True, ms_conn = Some c, ms_events = [], ms_local_id = local_id, ms_peer_id = peer_device_id,
      ms_peer_name = peer_name, ms_peer_cert = peer_cert, ms_session_id = session, ms_pending = None\<rparr>"

definition nxfr_connect :: "out_lib \<Rightarrow> connect_env \<Rightarrow> abspath \<Rightarrow> mobile \<Rightarrow> mobile_reply \<times> mobile" where
  "nxfr_connect lib v dir m =
     (case load_identity lib dir (mh_world m) of
        (Inl e, w) \<Rightarrow> (RpError e, m\<lparr>mh_world := w\<rparr>)
      | (Inr device_id, w) \<Rightarrow>
          (case mobile_dial lib v device_id of
             Inl e \<Rightarrow> (RpError e, m\<lparr>mh_world := w\<rparr>)
           | Inr (c, peer_device_id, peer_name, session, peer_cert) \<Rightarrow>
               (case mobile_tofu lib (ce_opening v) (ce_now v) peer_device_id peer_cert (mh_db m) of
                  (Inl e, db) \<Rightarrow> (RpError e, m\<lparr>mh_world := w, mh_db := db\<rparr>)
                | (Inr _, db) \<Rightarrow>
                    (case mh_add (new_session device_id c peer_device_id peer_name session peer_cert) (m\<lparr>mh_world := w, mh_db := db\<rparr>) of
                       (h, m) \<Rightarrow> (RpSession h peer_device_id peer_name session, m)))))"

section \<open>Accepting\<close>

text \<open>
  The listener is given by its device id, none for an unknown handle; the stream that arrives is an argument,
  none when the listener is closed.
\<close>

record accept_env =
  ae_listener :: "bytes option"
  ae_arrived :: "peer_stream option"
  ae_timely :: bool
  ae_name :: "string option"

definition mobile_greet :: "out_lib \<Rightarrow> accept_env \<Rightarrow> NxfrConnection \<Rightarrow> mobile_error + (NxfrConnection \<times> string)" where
  "mobile_greet lib v c =
     (if \<not> ae_timely v then Inl (MeText ''HELLO exchange timed out (10s)'')
      else case recv_frame c of
        (Inl e, _) \<Rightarrow> Inl (MeConn ''recv HELLO: '' e)
      | (Inr (hdr, payload), c) \<Rightarrow>
          if kind hdr \<noteq> Control then Inl (MeText ''expected CONTROL for HELLO'')
          else case decode_control (lib_from_reader lib) payload of
            Inl e \<Rightarrow> Inl (MeCodec ''decode: '' e)
          | Inr (Hello version _ device_name _ _ _) \<Rightarrow>
              if \<not> is_supported version then Inl (MeText (''unsupported protocol version '' @ version_text version))
              else Inr (c, device_name)
          | Inr msg \<Rightarrow> Inl (MeUnexpected ''expected HELLO, got '' msg))"

definition nxfr_accept :: "out_lib \<Rightarrow> accept_env \<Rightarrow> mobile \<Rightarrow> mobile_reply \<times> mobile" where
  "nxfr_accept lib v m =
     (case ae_listener v of
        None \<Rightarrow> (RpError (MeText ''invalid listener handle''), m)
      | Some device_id \<Rightarrow>
          (case ae_arrived v of
             None \<Rightarrow> (RpError (MeText ''listener closed''), m)
           | Some p \<Rightarrow>
               (case and_then (mobile_peer lib ''no peer certs'' ''empty peer cert'' p) (\<lambda>peer.
                     and_then (mobile_greet lib v (ps_conn p)) (\<lambda>greeted. Inr (peer, greeted))) of
                  Inl e \<Rightarrow> (RpError e, m)
                | Inr ((peer_device_id, peer_cert), c, peer_name) \<Rightarrow>
                    (case mh_draw 4 m of
                       (Inl _, m) \<Rightarrow> (RpError (MeText ''internal panic caught at FFI boundary''), m)
                     | (Inr buf, m) \<Rightarrow>
                         let session = u32_from_be_bytes buf
                         in case send_control (lib_into_writer lib) session 0
                                   (HelloAck V1_0 (DeviceId device_id) (mobile_name (ae_name v)) Android [] False session) c of
                              (Inl e, _) \<Rightarrow> (RpError (MeConn ''send HELLO_ACK: '' e), m)
                            | (Inr _, c) \<Rightarrow>
                                (case mh_add (new_session device_id c peer_device_id peer_name session peer_cert) m of
                                   (h, m) \<Rightarrow> (RpSession h peer_device_id peer_name session, mh_spawn (TkReader h) m))))))"

section \<open>Transfers and events\<close>

definition nxfr_send_file :: "u64 \<Rightarrow> abspath \<Rightarrow> mobile \<Rightarrow> mobile_reply \<times> mobile" where
  "nxfr_send_file h path m =
     (case fs_probe (fs_exists path) (mh_world m) of (ex, w) \<Rightarrow>
        let m = m\<lparr>mh_world := w\<rparr>
        in if \<not> ex then (RpError (MeText (''file not found: '' @ path_display path)), m)
           else case mh_get h m of
             None \<Rightarrow> (RpError (MeText ''invalid session handle''), m)
           | Some _ \<Rightarrow> (RpStarted h, mh_spawn (TkSend h path) m))"

definition nxfr_pump :: "u64 \<Rightarrow> mobile \<Rightarrow> mobile_reply \<times> mobile" where
  "nxfr_pump h m =
     (case mh_get h m of
        None \<Rightarrow> (RpError (MeText ''invalid session handle''), m)
      | Some s \<Rightarrow>
          (case ms_events s of
             [] \<Rightarrow> (RpNone, m)
           | event # rest \<Rightarrow> (RpEvent event (ms_peer_id s), mh_update h (\<lambda>s. s\<lparr>ms_events := rest\<rparr>) m)))"

definition nxfr_confirm :: "u64 \<Rightarrow> bool \<Rightarrow> mobile \<Rightarrow> mobile_reply \<times> mobile" where
  "nxfr_confirm h accept m =
     (case mh_get h m of
        None \<Rightarrow> (RpError (MeText ''invalid session handle''), m)
      | Some s \<Rightarrow>
          let m = mh_update h (\<lambda>s. s\<lparr>ms_pending := None\<rparr>) m
          in if \<not> accept
             then (RpConfirmed h False,
                   case ms_pending s of None \<Rightarrow> m | Some offer \<Rightarrow> mh_spawn (TkReject h (fo_transfer_id offer)) m)
             else case ms_pending s of
               None \<Rightarrow> (RpError (MeText ''no pending offer''), m)
             | Some offer \<Rightarrow> (RpConfirmed h True, mh_spawn (TkReceive h offer) m))"

section \<open>Pairing\<close>

definition sas_context :: "bytes \<Rightarrow> bytes \<Rightarrow> bytes" where
  "sas_context local_id peer_id = (if local_id < peer_id then local_id @ peer_id else peer_id @ local_id)"

definition mobile_sas :: "out_lib \<Rightarrow> bytes \<Rightarrow> bytes \<Rightarrow> string + string" where
  "mobile_sas lib local_id peer_id =
     and_then (map_err (\<lambda>e. ''export_keying_material: '' @ e) (ol_export lib ''NXFR-SAS-v0'' (sas_context local_id peer_id)))
       (\<lambda>exporter. Inr (fst (derive_sas local_id peer_id exporter)))"

definition nxfr_pair_begin :: "out_lib \<Rightarrow> u64 \<Rightarrow> mobile \<Rightarrow> mobile_reply \<times> mobile" where
  "nxfr_pair_begin lib h m =
     (case mh_get h m of
        None \<Rightarrow> (RpError (MeText ''invalid session handle''), m)
      | Some s \<Rightarrow>
          (case ms_conn s of
             None \<Rightarrow> (RpError (MeText ''connection not available''), m)
           | Some c \<Rightarrow>
               (case send_control (lib_into_writer lib) (ms_session_id s) 0 (PairRequest ''numeric-6'') c of
                  (Inl e, c) \<Rightarrow> (RpError (MeConn ''send PairRequest: '' e), mh_update h (\<lambda>s. s\<lparr>ms_conn := Some c\<rparr>) m)
                | (Inr _, c) \<Rightarrow>
                    (case mobile_sas lib (ms_local_id s) (ms_peer_id s) of Inl e \<Rightarrow> RpError (MeText e) | Inr code \<Rightarrow> RpSas h code,
                     mh_update h (\<lambda>s. s\<lparr>ms_conn := Some c\<rparr>) m))))"

definition mobile_pin :: "out_lib \<Rightarrow> i64 \<Rightarrow> mobile_session \<Rightarrow> PairedDevice" where
  "mobile_pin lib now s =
     \<lparr>pd_device_id = hex_encode (ms_peer_id s), pd_name = ms_peer_name s,
      pd_public_key_spki = (case extract_spki (ol_x509 lib) (ms_peer_cert s) of Inl _ \<Rightarrow> [] | Inr k \<Rightarrow> k),
      pd_first_seen = now, pd_last_seen = now, pd_trust_level = ''paired'', pd_auto_accept = ''prompt''\<rparr>"

definition mobile_store_pin :: "(string + unit) \<times> (string + unit) \<Rightarrow> PairedDevice \<Rightarrow> paired_db \<Rightarrow> paired_db" where
  "mobile_store_pin opening d db =
     (case paired_open (fst opening) (snd opening) db of
        (Inl _, db) \<Rightarrow> db
      | (Inr _, db) \<Rightarrow> snd (insert_or_update d db))"

definition nxfr_pair_confirm :: "out_lib \<Rightarrow> u64 \<Rightarrow> bool \<Rightarrow> (string + unit) \<times> (string + unit) \<Rightarrow> i64 \<Rightarrow> mobile \<Rightarrow> mobile_reply \<times> mobile" where
  "nxfr_pair_confirm lib h accepted opening now m =
     (case mh_get h m of
        None \<Rightarrow> (RpError (MeText ''invalid session handle''), m)
      | Some s \<Rightarrow>
          (case ms_conn s of
             None \<Rightarrow> (RpError (MeText ''connection not available''), m)
           | Some c \<Rightarrow>
               (case send_control (lib_into_writer lib) (ms_session_id s) 0 (if accepted then PairAccept else PairReject None) c of
                  (Inl e, c) \<Rightarrow> (RpError (MeConn ''send: '' e), mh_update h (\<lambda>s. s\<lparr>ms_conn := Some c\<rparr>) m)
                | (Inr _, c) \<Rightarrow>
                    let m = mh_update h (\<lambda>s. s\<lparr>ms_conn := Some c\<rparr>) m
                    in (RpPaired h accepted,
                        if accepted then m\<lparr>mh_db := mobile_store_pin opening (mobile_pin lib now s) (mh_db m)\<rparr> else m))))"

definition nxfr_unpair :: "(string + unit) \<times> (string + unit) \<Rightarrow> string \<Rightarrow> mobile \<Rightarrow> mobile_reply \<times> mobile" where
  "nxfr_unpair opening did m =
     (case paired_open (fst opening) (snd opening) (mh_db m) of
        (Inl e, db) \<Rightarrow> (RpError (MeStorage ''open paired.db: '' e), m\<lparr>mh_db := db\<rparr>)
      | (Inr _, db) \<Rightarrow>
          (case paired_remove did db of
             (Inl e, db) \<Rightarrow> (RpError (MeStorage ''unpair: '' e), m\<lparr>mh_db := db\<rparr>)
           | (Inr _, db) \<Rightarrow> (RpUnpaired did, m\<lparr>mh_db := db\<rparr>)))"

definition nxfr_set_auto_accept :: "(string + unit) \<times> (string + unit) \<Rightarrow> string \<Rightarrow> string \<Rightarrow> mobile \<Rightarrow> mobile_reply \<times> mobile" where
  "nxfr_set_auto_accept opening did pol m =
     (if pol \<noteq> ''prompt'' \<and> pol \<noteq> ''always'' then (RpError (MeText (''policy must be '' @ CHR 0x27 # ''prompt'' @ CHR 0x27 # '' or '' @ CHR 0x27 # ''always'' @ [CHR 0x27])), m)
      else case paired_open (fst opening) (snd opening) (mh_db m) of
        (Inl e, db) \<Rightarrow> (RpError (MeStorage ''open paired.db: '' e), m\<lparr>mh_db := db\<rparr>)
      | (Inr _, db) \<Rightarrow>
          (case paired_lookup did db of
             (Inl e, db) \<Rightarrow> (RpError (MeStorage ''lookup: '' e), m\<lparr>mh_db := db\<rparr>)
           | (Inr None, db) \<Rightarrow> (RpError (MeText ''device not paired''), m\<lparr>mh_db := db\<rparr>)
           | (Inr (Some device), db) \<Rightarrow>
               (case insert_or_update (device\<lparr>pd_auto_accept := pol\<rparr>) db of
                  (Inl e, db) \<Rightarrow> (RpError (MeStorage ''update: '' e), m\<lparr>mh_db := db\<rparr>)
                | (Inr _, db) \<Rightarrow> (RpPolicy did pol, m\<lparr>mh_db := db\<rparr>))))"

definition nxfr_close :: "u64 \<Rightarrow> mobile \<Rightarrow> mobile_reply \<times> mobile" where
  "nxfr_close h m =
     (RpClosed h,
      case mh_get h m of
        None \<Rightarrow> m
      | Some _ \<Rightarrow> mh_spawn (TkClose h) (mh_update h (\<lambda>s. s\<lparr>ms_open := False\<rparr>) m))"

definition nxfr_set_receive_dir :: "abspath \<Rightarrow> mobile \<Rightarrow> mobile_reply \<times> mobile" where
  "nxfr_set_receive_dir dir m =
     (case fs_create_dir_all dir (mh_world m) of
        (Inl e, w) \<Rightarrow> (RpError (MeText (''create receive dir: '' @ e)), m\<lparr>mh_world := w\<rparr>)
      | (Inr _, w) \<Rightarrow> (RpDir dir, m\<lparr>mh_world := w, mh_receive_dir := Some dir\<rparr>))"

section \<open>Tasks\<close>

record task_env =
  te_timely :: bool
  te_meanwhile :: "u32 \<Rightarrow> world \<Rightarrow> world"
  te_debug :: "ControlMessage \<Rightarrow> string"
  te_show :: "ffi_error \<Rightarrow> string"
  te_config_dir :: abspath
  te_now :: nat

definition ms_emit :: "FfiEvent \<Rightarrow> mobile_session \<Rightarrow> mobile_session" where
  "ms_emit event s = s\<lparr>ms_events := ms_events s @ [event]\<rparr>"

text \<open>The owners of the connection of a session: the table, the task that asks, and the other tasks.\<close>

definition strong_count :: "u64 \<Rightarrow> mobile \<Rightarrow> nat" where
  "strong_count h m = (case mh_get h m of None \<Rightarrow> 0 | Some _ \<Rightarrow> 1) + 1 + length (filter (\<lambda>t. task_handle t = h) (mh_tasks m))"

definition reader_take :: "u64 \<Rightarrow> mobile_session \<Rightarrow> mobile \<Rightarrow> mobile" where
  "reader_take h s m =
     (case ms_conn s of
        None \<Rightarrow> m
      | Some c \<Rightarrow> mh_spawn (TkReading h c) (mh_update h (\<lambda>s. s\<lparr>ms_conn := None\<rparr>) m))"

text \<open>What the reader does with the first frame, and whether it goes on to give the connection back.\<close>

definition reader_event :: "out_lib \<Rightarrow> mobile_session \<Rightarrow> io_error + NxfrFrame \<Rightarrow> mobile_session \<times> bool" where
  "reader_event lib s r =
     (case r of
        Inl _ \<Rightarrow> (ms_emit (FeError ''connection closed before offer'' None) s, True)
      | Inr (hdr, payload) \<Rightarrow>
          if kind hdr \<noteq> Control then (ms_emit (FeError ''connection closed before offer'' None) s, True)
          else case decode_control (lib_from_reader lib) payload of
            Inr (TransferRequest tid _ display_name n_files n_bytes manifest) \<Rightarrow>
              (ms_emit (FeOffer display_name n_bytes n_files (ms_peer_name s))
                 (s\<lparr>ms_pending := Some \<lparr>fo_transfer_id = tid, fo_manifest = manifest, fo_display_name = display_name,
                      fo_total_size = n_bytes, fo_total_files = n_files\<rparr>\<rparr>), True)
          | Inr (PairRequest _) \<Rightarrow>
              (case mobile_sas lib (ms_local_id s) (ms_peer_id s) of
                 Inl e \<Rightarrow> (ms_emit (FeError (''SAS derivation failed: '' @ e) None) s, False)
               | Inr sas_code \<Rightarrow> (ms_emit (FePairRequest sas_code (ms_peer_name s)) s, True))
          | _ \<Rightarrow> (s, True))"

definition reader_finish :: "out_lib \<Rightarrow> u64 \<Rightarrow> NxfrConnection \<Rightarrow> mobile_session \<Rightarrow> mobile \<Rightarrow> mobile" where
  "reader_finish lib h c s m =
     (case recv_frame c of (r, c) \<Rightarrow>
      case reader_event lib s r of (s, back) \<Rightarrow>
        mh_update h (\<lambda>_. if back \<and> strong_count h m \<noteq> 1 then s\<lparr>ms_conn := Some c\<rparr> else s) m)"

text \<open>A transfer runs on the connection of its session, the files and the random bytes.\<close>

definition engine :: "mobile_session \<Rightarrow> mobile \<Rightarrow> ffi_state" where
  "engine s m =
     \<lparr>mb_connected = (ms_conn s \<noteq> None), mb_conn = (case ms_conn s of None \<Rightarrow> connection_new [] [] | Some c \<Rightarrow> c),
      mb_world = mh_world m, mb_events = ms_events s, mb_random = mh_random m, mb_count = 0, mb_cumulative = 0, mb_first = None\<rparr>"

definition engine_back :: "u64 \<Rightarrow> ffi_state \<Rightarrow> mobile \<Rightarrow> mobile" where
  "engine_back h e m =
     (mh_update h (\<lambda>s. s\<lparr>ms_conn := (if mb_connected e then Some (mb_conn e) else None), ms_events := mb_events e\<rparr>) m)
       \<lparr>mh_world := mb_world e, mh_random := mb_random e\<rparr>"

definition report :: "task_env \<Rightarrow> (ffi_error + unit) \<times> ffi_state \<Rightarrow> ffi_state" where
  "report v r =
     (case r of
        (Inr _, e) \<Rightarrow> e
      | (Inl (FxPanic _), e) \<Rightarrow> e
      | (Inl err, e) \<Rightarrow> mb_emit (FeError (te_show v err) None) e)"

definition task_receive :: "out_lib \<Rightarrow> task_env \<Rightarrow> u64 \<Rightarrow> ffi_offer \<Rightarrow> mobile_session \<Rightarrow> mobile \<Rightarrow> mobile" where
  "task_receive lib v h offer s m =
     engine_back h (report v (do_receive_file (daemon_lib.truncate lib)
       \<lparr>fa_session_id = ms_session_id s, fa_peer_device_id = ms_peer_id s, fa_offer = offer, fa_override = mh_receive_dir m,
        fa_config_dir = te_config_dir v, fa_now = te_now v\<rparr> (engine s m))) m"

definition task_send :: "out_lib \<Rightarrow> task_env \<Rightarrow> u64 \<Rightarrow> abspath \<Rightarrow> mobile_session \<Rightarrow> mobile \<Rightarrow> mobile" where
  "task_send lib v h path s m =
     engine_back h (report v (do_send_file (daemon_lib.truncate lib)
       \<lparr>sg_session_id = ms_session_id s, sg_peer_device_id = ms_peer_id s, sg_timely = te_timely v,
        sg_meanwhile = te_meanwhile v, sg_debug = te_debug v\<rparr> path (engine s m))) m"

definition task_message :: "out_lib \<Rightarrow> u32 \<Rightarrow> ControlMessage \<Rightarrow> mobile_session \<Rightarrow> mobile_session" where
  "task_message lib session msg s =
     s\<lparr>ms_conn := map_option (\<lambda>c. snd (send_control (lib_into_writer lib) session 0 msg c)) (ms_conn s)\<rparr>"

fun run_task :: "out_lib \<Rightarrow> task_env \<Rightarrow> mobile_task \<Rightarrow> mobile_session \<Rightarrow> mobile \<Rightarrow> mobile" where
  "run_task lib v (TkReader h) s m = reader_take h s m"
| "run_task lib v (TkReading h c) s m = reader_finish lib h c s m"
| "run_task lib v (TkReject h tid) s m =
     mh_update h (task_message lib (ms_session_id s) (TransferReject tid (Some ''user_rejected''))) m"
| "run_task lib v (TkReceive h offer) s m = task_receive lib v h offer s m"
| "run_task lib v (TkSend h path) s m = task_send lib v h path s m"
| "run_task lib v (TkClose h) s m =
     (if te_timely v
      then mh_update h (\<lambda>s. (task_message lib (ms_session_id s) (SessionClose None) s)\<lparr>ms_conn := None\<rparr>) m
      else m)"

section \<open>Runs\<close>

datatype mobile_call =
    CallConnect connect_env abspath
  | CallAccept accept_env
  | CallSend u64 abspath
  | CallPump u64
  | CallConfirm u64 bool
  | CallPairBegin u64
  | CallPairConfirm u64 bool "(string + unit) \<times> (string + unit)" i64
  | CallUnpair "(string + unit) \<times> (string + unit)" string
  | CallPolicy "(string + unit) \<times> (string + unit)" string string
  | CallReceiveDir abspath
  | CallClose u64
  | RunTask task_env nat

text \<open>A call of the host, or a task of the list.\<close>

fun mobile_do :: "out_lib \<Rightarrow> mobile_call \<Rightarrow> mobile \<Rightarrow> mobile_reply \<times> mobile" where
  "mobile_do lib (CallConnect v dir) m = nxfr_connect lib v dir m"
| "mobile_do lib (CallAccept v) m = nxfr_accept lib v m"
| "mobile_do lib (CallSend h path) m = nxfr_send_file h path m"
| "mobile_do lib (CallPump h) m = nxfr_pump h m"
| "mobile_do lib (CallConfirm h accept) m = nxfr_confirm h accept m"
| "mobile_do lib (CallPairBegin h) m = nxfr_pair_begin lib h m"
| "mobile_do lib (CallPairConfirm h accepted opening now) m = nxfr_pair_confirm lib h accepted opening now m"
| "mobile_do lib (CallUnpair opening did) m = nxfr_unpair opening did m"
| "mobile_do lib (CallPolicy opening did pol) m = nxfr_set_auto_accept opening did pol m"
| "mobile_do lib (CallReceiveDir dir) m = nxfr_set_receive_dir dir m"
| "mobile_do lib (CallClose h) m = nxfr_close h m"
| "mobile_do lib (RunTask v i) m =
     (RpNone,
      if i < length (mh_tasks m)
      then let t = mh_tasks m ! i; m = m\<lparr>mh_tasks := take i (mh_tasks m) @ drop (Suc i) (mh_tasks m)\<rparr>
           in case mh_session (task_handle t) m of None \<Rightarrow> m | Some s \<Rightarrow> run_task lib v t s m
      else m)"

fun mobile_run :: "out_lib \<Rightarrow> mobile_call list \<Rightarrow> mobile \<Rightarrow> mobile" where
  "mobile_run lib [] m = m"
| "mobile_run lib (call # calls) m = mobile_run lib calls (snd (mobile_do lib call m))"

section \<open>A send changes no file\<close>

definition keeps :: "world \<Rightarrow> ffi_state \<Rightarrow> bool" where
  "keeps w s \<longleftrightarrow> same_contents w (mb_world s)"

lemma keeps_world: "keeps w s \<Longrightarrow> same_contents (mb_world s) (mb_world t) \<Longrightarrow> keeps w t"
  by (simp add: keeps_def same_contents_def)

lemma keeps_same: "keeps w s \<Longrightarrow> mb_world t = mb_world s \<Longrightarrow> keeps w t"
  by (simp add: keeps_def)

named_theorems keeps_intros \<open>steps of a send that leave the files alone\<close>

lemmas [keeps_intros] = io_then_inv [where P = "keeps w" for w]

lemma mb_steps_keep [keeps_intros]:
  "keeps w s \<Longrightarrow> keeps w (snd (mb_send lib i msg s))" "keeps w s \<Longrightarrow> keeps w (snd (mb_recv s))"
  "keeps w s \<Longrightarrow> keeps w (mb_emit e s)"
  by (erule keeps_same, simp)+

lemma mb_io_keep: "keeps w s \<Longrightarrow> (\<And>v. same_tree v (snd (call v))) \<Longrightarrow> keeps w (snd (mb_io call s))"
  by (erule keeps_world) (auto simp: mb_io_def case_prod_beta intro: same_tree_files)

lemma ffi_wait_keep [keeps_intros]: "keeps w s \<Longrightarrow> keeps w (snd (ffi_wait lib t e limit n s))"
  using ffi_wait_tx [OF prod.collapse [symmetric]] keeps_same by blast

lemma ffi_send_chunk_keep [keeps_intros]: "keeps w s \<Longrightarrow> keeps w (snd (ffi_send_chunk lib g e off buf b s))"
  by (erule keeps_same) (simp add: ffi_send_chunk_def split: prod.splits sum.splits)

lemma ffi_stream_keep [keeps_intros]: "keeps w s \<Longrightarrow> keeps w (snd (ffi_stream lib g t e h off n s))"
proof (induction lib g t e h off n s rule: ffi_stream.induct)
  case (1 lib g t e h off n s)
  show ?case
  proof (cases "off < unat (le_size e)")
    case True
    have rec: "keeps w (snd (ffi_stream lib g t e h (off + min CHUNK_DATA_SIZE (unat (le_size e) - off)) (Suc n') s'))"
      if "keeps w s'" for n' s' using "1.IH" [OF refl True refl that, of n'] by simp
    show ?thesis
      using True by (subst ffi_stream.simps) (auto simp: Let_def intro!: keeps_intros rec mb_io_keep file_reads "1.prems")
  qed (use "1.prems" in \<open>simp add: ffi_stream.simps\<close>)
qed

lemma ffi_send_entry_keep:
  assumes "keeps w s" "undisturbed_send g"
  shows "keeps w (snd (ffi_send_entry lib g tid t e s))"
proof -
  have "keeps w (s\<lparr>mb_world := sg_meanwhile g (le_file_id e) (mb_world s)\<rparr>)"
    using assms by (simp add: keeps_def undisturbed_send_def same_contents_def)
  then show ?thesis
    unfolding ffi_send_entry_def
    by (auto intro!: keeps_intros mb_io_keep file_reads split: sum.splits ControlMessage.splits bool.splits)
qed

lemma ffi_send_entries_keep: "keeps w s \<Longrightarrow> undisturbed_send g \<Longrightarrow> keeps w (snd (ffi_send_entries lib g tid t es s))"
  by (induction es arbitrary: s) (auto intro!: keeps_intros ffi_send_entry_keep)

lemma do_send_file_keep:
  assumes "undisturbed_send g"
  shows "same_contents (mb_world s) (mb_world (snd (do_send_file lib g path s)))"
proof -
  have scan: "keeps w (snd (mb_scan lib path s))" if "keeps w s" for w s
    using that scan_send_path_ok(1) [OF prod.collapse [symmetric]]
    by (auto simp: mb_scan_def case_prod_beta intro!: keeps_world [OF that] same_tree_files)
  have rand: "keeps w (snd (rand_transfer_id s))" if "keeps w s" for w s
    by (rule keeps_same [OF that]) (simp add: rand_transfer_id_def mb_draw_def split: prod.splits sum.splits list.splits)
  have acc: "keeps w (snd (ffi_await_accept lib g s))" if "keeps w s" for w s
    by (rule keeps_same [OF that]) (auto simp: ffi_await_accept_def split: prod.splits sum.splits)
  have fin: "keeps w (snd (ffi_send_outcome lib g s))" if "keeps w s" for w s
    unfolding ffi_send_outcome_def Let_def using that
    by (auto intro!: keeps_intros split: sum.splits ControlMessage.splits TransferAckStatus.splits)
  have cum: "keeps w (s\<lparr>mb_cumulative := 0\<rparr>)" if "keeps w s" for w s using that by (simp add: keeps_def)
  have "keeps (mb_world s) (snd (do_send_file lib g path s))"
    unfolding do_send_file_def
    by (rule io_then_inv [where P = "keeps (mb_world s)"], rule scan)
      (auto simp: keeps_def [of _ s] same_contents_def intro!: keeps_intros rand acc fin cum ffi_send_entries_keep assms)
  then show ?thesis by (simp add: keeps_def)
qed

section \<open>What a step can do\<close>

lemma mh_update_fields [simp]:
  "mh_tasks (mh_update h f m) = mh_tasks m" "mh_world (mh_update h f m) = mh_world m" "mh_db (mh_update h f m) = mh_db m"
  by (simp_all add: mh_update_def)

lemma mh_spawn_fields [simp]:
  "mh_tasks (mh_spawn t m) = mh_tasks m @ [t]" "mh_world (mh_spawn t m) = mh_world m" "mh_db (mh_spawn t m) = mh_db m"
  "mh_sessions (mh_spawn t m) = mh_sessions m"
  by (simp_all add: mh_spawn_def)

lemma engine_back_fields [simp]:
  "mh_tasks (engine_back h e m) = mh_tasks m" "mh_world (engine_back h e m) = mb_world e" "mh_db (engine_back h e m) = mh_db m"
  by (simp_all add: engine_back_def)

lemma mh_draw_fields:
  "mh_draw n m = (r, m') \<Longrightarrow> mh_tasks m' = mh_tasks m \<and> mh_world m' = mh_world m \<and> mh_db m' = mh_db m \<and> mh_sessions m' = mh_sessions m"
  by (auto simp: mh_draw_def split: list.splits)

text \<open>Only an accepted offer starts a reception.\<close>

lemma run_task_receive:
  "TkReceive h offer \<in> set (mh_tasks (run_task lib v t s m)) \<Longrightarrow> TkReceive h offer \<in> set (mh_tasks m)"
  by (cases t) (auto simp: reader_take_def reader_finish_def task_receive_def task_send_def split: option.splits prod.splits if_splits)

lemma connect_tasks: "mh_tasks (snd (nxfr_connect lib v dir m)) = mh_tasks m"
  by (simp add: nxfr_connect_def mh_add_def Let_def split: prod.splits sum.splits)

lemma accept_tasks:
  "\<exists>ts. mh_tasks (snd (nxfr_accept lib v m)) = mh_tasks m @ ts \<and> (\<forall>h offer. TkReceive h offer \<notin> set ts)"
  by (auto simp: nxfr_accept_def mh_add_def Let_def dest!: mh_draw_fields split: prod.splits sum.splits option.splits)

lemma step_receive:
  assumes "TkReceive h offer \<in> set (mh_tasks (snd (mobile_do lib call m)))"
  shows "TkReceive h offer \<in> set (mh_tasks m) \<or> call = CallConfirm h True \<and> (\<exists>s. mh_get h m = Some s \<and> ms_pending s = Some offer)"
proof (cases call)
  case (CallConnect v dir)
  then show ?thesis using assms connect_tasks by simp
next
  case (CallAccept v)
  then show ?thesis using assms accept_tasks [of lib v m] by auto
next
  case (CallConfirm k accept)
  then show ?thesis using assms by (auto simp: nxfr_confirm_def Let_def split: option.splits if_splits)
next
  case (RunTask v i)
  then show ?thesis
    using assms by (auto simp: Let_def dest!: run_task_receive dest: in_set_takeD in_set_dropD split: if_splits option.splits)
qed (use assms in \<open>auto simp: nxfr_send_file_def nxfr_pump_def nxfr_pair_begin_def nxfr_pair_confirm_def nxfr_unpair_def
    nxfr_set_auto_accept_def nxfr_set_receive_dir_def nxfr_close_def Let_def split: prod.splits option.splits list.splits sum.splits if_splits\<close>)

text \<open>Only a reception changes files.\<close>

definition quiet_call :: "mobile_call \<Rightarrow> bool" where
  "quiet_call call \<longleftrightarrow> (\<forall>v i j w q. call = RunTask v i \<longrightarrow> fs_lookup q (te_meanwhile v j w) = fs_lookup q w)"

lemma same_contents_refl [simp]: "same_contents w w" by (simp add: same_contents_def)

lemma load_identity_files: "same_contents w (snd (load_identity lib dir w))"
proof -
  have "same_tree w (snd (load_identity lib dir w))"
    unfolding load_identity_def fs_read_def by (auto intro!: reads)
  then show ?thesis by (rule same_tree_files)
qed

lemma report_world [simp]: "mb_world (report v r) = mb_world (snd r)"
  by (cases r; cases "fst r") (auto simp: report_def split: ffi_error.splits)

lemma run_task_files:
  assumes "\<forall>j w q. fs_lookup q (te_meanwhile v j w) = fs_lookup q w" "\<forall>offer. t \<noteq> TkReceive h offer" "task_handle t = h"
  shows "same_contents (mh_world m) (mh_world (run_task lib v t s m))"
proof (cases t)
  case (TkSend k path)
  let ?g = "\<lparr>sg_session_id = ms_session_id s, sg_peer_device_id = ms_peer_id s, sg_timely = te_timely v,
        sg_meanwhile = te_meanwhile v, sg_debug = te_debug v\<rparr>"
  have "undisturbed_send ?g" using assms(1) by (simp add: undisturbed_send_def)
  from do_send_file_keep [OF this, of "engine s m"] show ?thesis using TkSend by (simp add: task_send_def engine_def)
qed (use assms(2,3) in \<open>auto simp: reader_take_def reader_finish_def split: option.splits prod.splits\<close>)

lemma step_files:
  assumes "quiet_call call" "fs_lookup q (mh_world (snd (mobile_do lib call m))) \<noteq> fs_lookup q (mh_world m)"
  shows "\<exists>h offer. TkReceive h offer \<in> set (mh_tasks m)"
proof (rule ccontr)
  assume none: "\<not> ?thesis"
  have "same_contents (mh_world m) (mh_world (snd (mobile_do lib call m)))"
  proof (cases call)
    case (CallConnect v dir)
    obtain r w where r: "load_identity lib dir (mh_world m) = (r, w)" by fastforce
    have "same_contents (mh_world m) w" using load_identity_files [of "mh_world m" lib dir] r by simp
    then show ?thesis
      using r CallConnect by (auto simp: nxfr_connect_def mh_add_def Let_def split: prod.splits sum.splits)
  next
    case (CallAccept v)
    then show ?thesis
      by (auto simp: nxfr_accept_def mh_add_def Let_def dest!: mh_draw_fields split: prod.splits sum.splits option.splits)
  next
    case (CallSend h path)
    then show ?thesis
      by (auto simp: nxfr_send_file_def Let_def split: prod.splits option.splits dest!: probe_reads same_tree_files)
  next
    case (CallReceiveDir dir)
    then show ?thesis
      using fs_create_dir_all_effect by (auto simp: nxfr_set_receive_dir_def same_contents_def split: prod.splits sum.splits)
  next
    case (RunTask v i)
    show ?thesis
    proof (cases "i < length (mh_tasks m)")
      case True
      then have "\<forall>offer. mh_tasks m ! i \<noteq> TkReceive (task_handle (mh_tasks m ! i)) offer" using none by (metis nth_mem)
      then show ?thesis
        using run_task_files [of v "mh_tasks m ! i" "task_handle (mh_tasks m ! i)"] assms(1) True RunTask
        by (auto simp: Let_def quiet_call_def same_contents_def split: option.splits)
    qed (simp add: RunTask)
  qed (auto simp: nxfr_pump_def nxfr_confirm_def nxfr_pair_begin_def nxfr_pair_confirm_def nxfr_unpair_def
    nxfr_set_auto_accept_def nxfr_close_def Let_def split: prod.splits option.splits list.splits sum.splits if_splits)
  then show False using assms(2) by (simp add: same_contents_def)
qed

text \<open>The peer of a session is the one its certificate names.\<close>

definition peer_ok :: "out_lib \<Rightarrow> mobile_session \<Rightarrow> bool" where
  "peer_ok lib s \<longleftrightarrow> (\<exists>spki. extract_spki (ol_x509 lib) (ms_peer_cert s) = Inr spki \<and> ms_peer_id s = lib_sha256 lib spki)"

definition peers_ok :: "out_lib \<Rightarrow> mobile \<Rightarrow> bool" where
  "peers_ok lib m \<longleftrightarrow> (\<forall>(h, s)\<in>set (mh_sessions m). peer_ok lib s)"

lemma peers_ok_session: "peers_ok lib m \<Longrightarrow> mh_session h m = Some s \<Longrightarrow> peer_ok lib s"
  by (auto simp: peers_ok_def mh_session_def dest: map_of_SomeD)

lemma peers_ok_get: "peers_ok lib m \<Longrightarrow> mh_get h m = Some s \<Longrightarrow> peer_ok lib s"
  by (auto simp: mh_get_def split: option.splits if_splits intro: peers_ok_session)

lemma peers_ok_fields [simp]:
  "peers_ok lib (m\<lparr>mh_world := w\<rparr>) = peers_ok lib m" "peers_ok lib (m\<lparr>mh_db := db\<rparr>) = peers_ok lib m"
  "peers_ok lib (m\<lparr>mh_tasks := ts\<rparr>) = peers_ok lib m" "peers_ok lib (m\<lparr>mh_receive_dir := d\<rparr>) = peers_ok lib m"
  "peers_ok lib (m\<lparr>mh_random := rs\<rparr>) = peers_ok lib m"
  "peers_ok lib (mh_spawn t m) = peers_ok lib m" "peers_ok lib (snd (mh_draw n m)) = peers_ok lib m"
  by (simp_all add: peers_ok_def mh_draw_def split: list.splits)

lemma peers_ok_update: "peers_ok lib m \<Longrightarrow> (\<And>s. peer_ok lib s \<Longrightarrow> peer_ok lib (f s)) \<Longrightarrow> peers_ok lib (mh_update h f m)"
  by (fastforce simp: peers_ok_def mh_update_def)

lemma peer_ok_cong: "ms_peer_cert s' = ms_peer_cert s \<Longrightarrow> ms_peer_id s' = ms_peer_id s \<Longrightarrow> peer_ok lib s' = peer_ok lib s"
  by (simp add: peer_ok_def)

lemma mobile_peer_ok:
  "mobile_peer lib a b p = Inr (pid, cert) \<Longrightarrow> peer_ok lib (new_session l c pid nm i cert)"
  by (auto simp: mobile_peer_def device_id_from_cert_def peer_ok_def new_session_def result_simps)

lemma peers_ok_add: "peers_ok lib m \<Longrightarrow> peer_ok lib s \<Longrightarrow> peers_ok lib (snd (mh_add s m))"
  by (simp add: peers_ok_def mh_add_def Let_def)

lemma connect_peers: "peers_ok lib m \<Longrightarrow> peers_ok lib (snd (nxfr_connect lib v dir m))"
proof -
  assume ok: "peers_ok lib m"
  have "peer_ok lib (new_session l c pid nm i cert)" if "mobile_dial lib v did = Inr (c, pid, nm, i, cert)" for l c pid nm i cert did
    using that by (auto simp: mobile_dial_def result_simps intro: mobile_peer_ok split: if_splits)
  then show ?thesis
    using ok by (auto simp: nxfr_connect_def case_prod_beta intro!: peers_ok_add split: sum.splits)
qed

lemma accept_peers: "peers_ok lib m \<Longrightarrow> peers_ok lib (snd (nxfr_accept lib v m))"
proof -
  assume ok: "peers_ok lib m"
  show ?thesis
    unfolding nxfr_accept_def
    by (auto simp: Let_def ok result_simps case_prod_beta intro!: peers_ok_add mobile_peer_ok split: option.splits sum.splits prod.splits)
qed

lemma run_task_peers:
  assumes "peers_ok lib m" "peer_ok lib s"
  shows "peers_ok lib (run_task lib v t s m)"
proof -
  have event: "peer_ok lib (fst (reader_event lib s r))" for r
    using assms(2) by (auto simp: reader_event_def ms_emit_def peer_ok_def split: sum.splits ControlMessage.splits)
  have returned: "peers_ok lib (engine_back h e m)" for h e
    unfolding engine_back_def by (auto simp: peer_ok_def intro!: peers_ok_update assms(1))
  show ?thesis
  proof (cases t)
    case (TkReading h c)
    obtain r c' where r: "recv_frame c = (r, c')" by fastforce
    obtain s' b where e: "reader_event lib s r = (s', b)" by fastforce
    have "peer_ok lib s'" using event [of r] e by simp
    then show ?thesis
      using TkReading r e by (auto simp: reader_finish_def peer_ok_def intro!: peers_ok_update [OF assms(1)])
  qed (use assms in \<open>auto simp: reader_take_def task_receive_def task_send_def task_message_def returned peer_ok_def
      intro!: peers_ok_update split: option.splits\<close>)
qed

lemma step_peers:
  assumes "peers_ok lib m" shows "peers_ok lib (snd (mobile_do lib call m))"
proof (cases call)
  case (RunTask v i)
  let ?m = "m\<lparr>mh_tasks := take i (mh_tasks m) @ drop (Suc i) (mh_tasks m)\<rparr>"
  have ok: "peers_ok lib ?m" using assms by simp
  show ?thesis
    using RunTask assms run_task_peers [OF ok peers_ok_session [OF ok]] by (auto simp: Let_def split: option.splits)
next
  case (CallPairConfirm h accepted op now)
  show ?thesis
    using assms unfolding CallPairConfirm mobile_do.simps nxfr_pair_confirm_def Let_def
    by (auto simp: peer_ok_def case_prod_beta intro!: peers_ok_update split: option.splits sum.splits)
qed (use assms in \<open>auto simp: connect_peers accept_peers nxfr_send_file_def nxfr_pump_def nxfr_confirm_def nxfr_pair_begin_def
    nxfr_unpair_def nxfr_set_auto_accept_def nxfr_set_receive_dir_def nxfr_close_def Let_def peer_ok_def case_prod_beta
    intro!: peers_ok_update split: option.splits list.splits sum.splits\<close>)

text \<open>Rows of the device table.\<close>

abbreviation rows_of :: "paired_db \<Rightarrow> string \<Rightarrow> PairedDevice option" where
  "rows_of \<equiv> table_view pd_device_id"

definition same_key :: "PairedDevice \<Rightarrow> PairedDevice \<Rightarrow> bool" where
  "same_key d d' \<longleftrightarrow> pd_device_id d' = pd_device_id d \<and> pd_public_key_spki d' = pd_public_key_spki d \<and>
     pd_trust_level d' = pd_trust_level d"

definition pins :: "out_lib \<Rightarrow> mobile_session \<Rightarrow> string \<Rightarrow> PairedDevice \<Rightarrow> bool" where
  "pins lib s k d \<longleftrightarrow> (\<exists>spki. extract_spki (ol_x509 lib) (ms_peer_cert s) = Inr spki \<and> k = hex_encode (lib_sha256 lib spki) \<and>
     pd_device_id d = k \<and> pd_public_key_spki d = spki \<and> pd_trust_level d = ''paired'')"

definition rows_kept :: "paired_db \<Rightarrow> paired_db \<Rightarrow> bool" where
  "rows_kept db db' \<longleftrightarrow> table_ok pd_device_id db' \<and> (\<forall>k d'. rows_of db' k = Some d' \<longrightarrow> (\<exists>d. rows_of db k = Some d \<and> same_key d d'))"

lemma rows_kept_refl: "table_ok pd_device_id db \<Longrightarrow> rows_kept db db"
  by (simp add: rows_kept_def same_key_def)

lemma rows_kept_trans: "rows_kept a b \<Longrightarrow> rows_kept b c \<Longrightarrow> rows_kept a c"
  unfolding rows_kept_def same_key_def by metis

lemma rows_kept_rows: "table_ok pd_device_id db \<Longrightarrow> db_rows db' = db_rows db \<Longrightarrow> rows_kept db db'"
  by (auto simp: rows_kept_def same_key_def table_ok_def table_view_def)

lemma open_kept: "table_ok pd_device_id db \<Longrightarrow> paired_open a b db = (r, db') \<Longrightarrow> rows_kept db db'"
  by (rule rows_kept_rows)
    (auto simp: paired_open_def table_ok_def split: sum.splits option.splits dest!: init_schema_rows)

lemma seen_kept:
  assumes "table_ok pd_device_id db" shows "rows_kept db (snd (update_last_seen now k db))"
proof -
  obtain r db' where s: "update_last_seen now k db = (r, db')" by fastforce
  then have "rows_kept db db'"
    using paired_perform_step [OF assms, of "Seen now k" r db'] unfolding rows_kept_def same_key_def by (fastforce split: if_splits)
  then show ?thesis using s by simp
qed

lemma remove_kept:
  assumes "table_ok pd_device_id db" "paired_remove k db = (r, db')" shows "rows_kept db db'"
  using paired_perform_step [OF assms(1), of "Unpair k"] assms(2)
  unfolding rows_kept_def same_key_def by (fastforce split: if_splits)

lemma pin_row:
  assumes "table_ok pd_device_id db" "insert_or_update d db = (r, db')"
  shows "table_ok pd_device_id db'" "rows_of db' k = Some d' \<Longrightarrow> rows_of db k = Some d' \<or> k = pd_device_id d \<and> same_key d d'"
proof -
  note step = paired_perform_step [OF assms(1), of "Pin d" r db']
  show "table_ok pd_device_id db'" using step assms(2) by simp
  show "rows_of db' k = Some d' \<Longrightarrow> rows_of db k = Some d' \<or> k = pd_device_id d \<and> same_key d d'"
    using step [of k] assms(2) by (cases "rows_of db k") (auto simp: same_key_def split: if_splits)
qed

lemma tofu_kept:
  assumes "table_ok pd_device_id db" shows "rows_kept db (snd (mobile_tofu lib op now pid cert db))"
proof -
  obtain r db1 where o: "paired_open (fst op) (snd op) db = (r, db1)" by fastforce
  note k1 = open_kept [OF assms o]
  then have ok: "table_ok pd_device_id db1" by (simp add: rows_kept_def)
  let ?k = "hex_encode pid" and ?s = "case extract_spki (ol_x509 lib) cert of Inl _ \<Rightarrow> [] | Inr k \<Rightarrow> k"
  obtain q db2 where q: "verify_identity (extract_spki (ol_x509 lib)) ?k ?s db1 = (q, db2)" by fastforce
  have "db_rows db2 = db_rows db1"
    using q paired_lookup_view [OF ok, of ?k] by (auto simp: verify_identity_def Let_def split: prod.splits sum.splits option.splits)
  then have k2: "rows_kept db db2" using rows_kept_trans [OF k1 rows_kept_rows [OF ok]] by blast
  then have "rows_kept db (snd (update_last_seen now ?k db2))"
    using rows_kept_trans [OF k2 seen_kept] by (simp add: rows_kept_def)
  then show ?thesis
    using o q k1 k2 by (auto simp: mobile_tofu_def Let_def split: sum.splits IdentityCheck.splits)
qed

lemma policy_kept:
  assumes "table_ok pd_device_id (mh_db m)"
  shows "rows_kept (mh_db m) (mh_db (snd (nxfr_set_auto_accept op did pol m)))"
proof -
  obtain r db1 where o: "paired_open (fst op) (snd op) (mh_db m) = (r, db1)" by fastforce
  note k1 = open_kept [OF assms o]
  then have ok: "table_ok pd_device_id db1" by (simp add: rows_kept_def)
  obtain q db2 where q: "paired_lookup did db1 = (q, db2)" by fastforce
  note look = paired_lookup_view [OF ok q]
  have k2: "rows_kept (mh_db m) db2" using rows_kept_trans [OF k1 rows_kept_rows [OF ok]] look by blast
  have view: "rows_of db2 = rows_of db1" using look by (simp add: table_view_def fun_eq_iff)
  have k3: "rows_kept (mh_db m) (snd (insert_or_update (d\<lparr>pd_auto_accept := pol\<rparr>) db2))" if "q = Inr (Some d)" for d
  proof -
    have d: "rows_of db2 did = Some d" "pd_device_id d = did"
      using look that view by (auto simp: table_view_def split: option.splits dest: find_key [OF sym])
    note row = pin_row [of db2, OF _ prod.collapse [symmetric]]
    have ok2: "table_ok pd_device_id db2" using k2 by (simp add: rows_kept_def)
    have "rows_kept db2 (snd (insert_or_update (d\<lparr>pd_auto_accept := pol\<rparr>) db2))"
      unfolding rows_kept_def using row(1) [OF ok2] row(2) [OF ok2] d by (fastforce simp: same_key_def)
    then show ?thesis using rows_kept_trans [OF k2] by blast
  qed
  show ?thesis
    using o q k1 k2 k3 rows_kept_refl [OF assms]
    by (auto simp: nxfr_set_auto_accept_def case_prod_beta split: sum.splits option.splits)
qed

lemma confirm_rows:
  assumes "table_ok pd_device_id (mh_db m)" "peers_ok lib m"
    and "rows_of (mh_db (snd (nxfr_pair_confirm lib h accepted op now m))) k = Some d'"
  shows "rows_of (mh_db m) k = Some d' \<or> accepted \<and> (\<exists>s. mh_get h m = Some s \<and> pins lib s k d')"
proof -
  obtain r db1 where o: "paired_open (fst op) (snd op) (mh_db m) = (r, db1)" by fastforce
  note k1 = open_kept [OF assms(1) o]
  have same: "rows_of db1 = rows_of (mh_db m)"
    using o assms(1) by (auto simp: paired_open_def table_ok_def table_view_def fun_eq_iff split: sum.splits option.splits dest!: init_schema_rows)
  have ok: "table_ok pd_device_id db1" using k1 by (simp add: rows_kept_def)
  have pin: "rows_of (mh_db m) k = Some d' \<or> pins lib s k d'"
    if s: "mh_get h m = Some s" and row: "rows_of (mobile_store_pin op (mobile_pin lib now s) (mh_db m)) k = Some d'" for s
  proof (cases r)
    case (Inl e)
    then show ?thesis using row o same by (simp add: mobile_store_pin_def)
  next
    case (Inr u)
    then have "rows_of (snd (insert_or_update (mobile_pin lib now s) db1)) k = Some d'" using row o by (simp add: mobile_store_pin_def)
    from pin_row(2) [OF ok prod.collapse [symmetric] this] show ?thesis
      using same peers_ok_get [OF assms(2) s] by (auto simp: pins_def peer_ok_def same_key_def mobile_pin_def)
  qed
  show ?thesis
    using assms(3) pin by (auto simp: nxfr_pair_confirm_def Let_def case_prod_beta split: option.splits sum.splits if_splits)
qed

lemma confirm_table:
  assumes "table_ok pd_device_id (mh_db m)"
  shows "table_ok pd_device_id (mh_db (snd (nxfr_pair_confirm lib h accepted op now m)))"
proof -
  obtain r db1 where o: "paired_open (fst op) (snd op) (mh_db m) = (r, db1)" by fastforce
  have ok: "table_ok pd_device_id db1" using open_kept [OF assms o] by (simp add: rows_kept_def)
  have "table_ok pd_device_id (mobile_store_pin op d (mh_db m))" for d
    using o ok pin_row(1) [OF ok prod.collapse [symmetric]] by (cases r) (auto simp: mobile_store_pin_def)
  then show ?thesis
    using assms by (auto simp: nxfr_pair_confirm_def Let_def case_prod_beta split: option.splits sum.splits)
qed

lemma unpair_kept:
  assumes "table_ok pd_device_id (mh_db m)" shows "rows_kept (mh_db m) (mh_db (snd (nxfr_unpair op did m)))"
proof -
  obtain r db1 where o: "paired_open (fst op) (snd op) (mh_db m) = (r, db1)" by fastforce
  note k1 = open_kept [OF assms o]
  obtain q db2 where q: "paired_remove did db1 = (q, db2)" by fastforce
  have "rows_kept db1 db2" using remove_kept [OF _ q] k1 by (simp add: rows_kept_def)
  then have "rows_kept (mh_db m) db2" using rows_kept_trans [OF k1] by blast
  then show ?thesis using o q k1 by (auto simp: nxfr_unpair_def split: sum.splits)
qed

lemma connect_kept:
  assumes "table_ok pd_device_id (mh_db m)" shows "rows_kept (mh_db m) (mh_db (snd (nxfr_connect lib v dir m)))"
  using tofu_kept [OF assms] rows_kept_refl [OF assms]
  by (auto simp: nxfr_connect_def mh_add_def Let_def case_prod_beta split: sum.splits)

lemma quiet_db:
  "\<forall>h b op now. call \<noteq> CallPairConfirm h b op now \<Longrightarrow> \<forall>op did. call \<noteq> CallUnpair op did \<Longrightarrow> \<forall>op did pol. call \<noteq> CallPolicy op did pol \<Longrightarrow>
     \<forall>v dir. call \<noteq> CallConnect v dir \<Longrightarrow> mh_db (snd (mobile_do lib call m)) = mh_db m"
proof (cases call)
  case (RunTask v i)
  have "mh_db (run_task lib v t s m') = mh_db m'" for t s m'
    by (cases t) (auto simp: reader_take_def reader_finish_def task_receive_def task_send_def split: option.splits prod.splits)
  then show ?thesis using RunTask by (simp add: Let_def split: option.splits)
qed (auto simp: nxfr_accept_def nxfr_send_file_def nxfr_pump_def nxfr_confirm_def nxfr_pair_begin_def nxfr_set_receive_dir_def nxfr_close_def
    mh_add_def Let_def dest!: mh_draw_fields split: prod.splits option.splits list.splits sum.splits)

lemma step_rows:
  assumes "table_ok pd_device_id (mh_db m)" "peers_ok lib m"
  shows "table_ok pd_device_id (mh_db (snd (mobile_do lib call m)))"
    and "rows_of (mh_db (snd (mobile_do lib call m))) k = Some d' \<Longrightarrow>
      (\<exists>d. rows_of (mh_db m) k = Some d \<and> same_key d d') \<or>
      (\<exists>h op now s. call = CallPairConfirm h True op now \<and> mh_get h m = Some s \<and> pins lib s k d')"
proof -
  have refl: "same_key d d" for d by (simp add: same_key_def)
  consider (confirm) h b op now where "call = CallPairConfirm h b op now"
    | (kept) "rows_kept (mh_db m) (mh_db (snd (mobile_do lib call m)))"
    using quiet_db [of call lib m] rows_kept_refl [OF assms(1)] connect_kept [OF assms(1)] unpair_kept [OF assms(1)] policy_kept [OF assms(1)]
    by (cases call) auto
  note cases = this
  show "table_ok pd_device_id (mh_db (snd (mobile_do lib call m)))"
    using cases by cases (simp_all add: confirm_table assms(1) rows_kept_def)
  show "(\<exists>d. rows_of (mh_db m) k = Some d \<and> same_key d d') \<or>
      (\<exists>h op now s. call = CallPairConfirm h True op now \<and> mh_get h m = Some s \<and> pins lib s k d')"
    if row: "rows_of (mh_db (snd (mobile_do lib call m))) k = Some d'"
    using cases
  proof cases
    case confirm
    then show ?thesis using confirm_rows [OF assms, of h b op now k d'] row refl by auto
  next
    case kept
    then show ?thesis using row by (simp add: rows_kept_def)
  qed
qed

section \<open>Properties\<close>

lemma mobile_run_append: "mobile_run lib (xs @ ys) m = mobile_run lib ys (mobile_run lib xs m)"
  by (induction xs arbitrary: m) simp_all

lemma mobile_run_snoc: "mobile_run lib (xs @ [call]) m = snd (mobile_do lib call (mobile_run lib xs m))"
  by (simp add: mobile_run_append)

text \<open>Moments of a run: a call is made, in the state that the calls before it left.\<close>

definition moment :: "out_lib \<Rightarrow> mobile \<Rightarrow> mobile_call list \<Rightarrow> mobile_call \<Rightarrow> mobile \<Rightarrow> bool" where
  "moment lib m calls call before \<longleftrightarrow> (\<exists>pre post. calls = pre @ call # post \<and> before = mobile_run lib pre m)"

lemma moment_snoc: "moment lib m calls call b \<Longrightarrow> moment lib m (calls @ [c]) call b"
  by (fastforce simp: moment_def)

lemma moment_last: "moment lib m (calls @ [c]) c (mobile_run lib calls m)"
  by (auto simp: moment_def)

definition offer_accepted :: "out_lib \<Rightarrow> mobile \<Rightarrow> mobile_call list \<Rightarrow> u64 \<Rightarrow> ffi_offer \<Rightarrow> bool" where
  "offer_accepted lib m calls h offer \<longleftrightarrow> (\<exists>b s. moment lib m calls (CallConfirm h True) b \<and> mh_get h b = Some s \<and> ms_pending s = Some offer)"

definition pairing_accepted :: "out_lib \<Rightarrow> mobile \<Rightarrow> mobile_call list \<Rightarrow> string \<Rightarrow> PairedDevice \<Rightarrow> bool" where
  "pairing_accepted lib m calls k d \<longleftrightarrow> (\<exists>h op now b s. moment lib m calls (CallPairConfirm h True op now) b \<and> mh_get h b = Some s \<and> pins lib s k d)"

lemma run_receives:
  assumes "mh_tasks m = []" "TkReceive h offer \<in> set (mh_tasks (mobile_run lib calls m))"
  shows "offer_accepted lib m calls h offer"
  using assms(2)
proof (induction calls rule: rev_induct)
  case (snoc c calls)
  then show ?case
    using step_receive [of h offer lib c "mobile_run lib calls m"] moment_last moment_snoc
    unfolding mobile_run_snoc offer_accepted_def by metis
qed (simp add: assms(1))

lemma run_files:
  assumes "mh_tasks m = []" "\<forall>call\<in>set calls. quiet_call call" "fs_lookup q (mh_world (mobile_run lib calls m)) \<noteq> fs_lookup q (mh_world m)"
  shows "\<exists>h offer. offer_accepted lib m calls h offer"
  using assms(2,3)
proof (induction calls rule: rev_induct)
  case (snoc c calls)
  show ?case
  proof (cases "fs_lookup q (mh_world (mobile_run lib calls m)) = fs_lookup q (mh_world m)")
    case True
    then obtain h offer where "TkReceive h offer \<in> set (mh_tasks (mobile_run lib calls m))"
      using step_files [of c q lib "mobile_run lib calls m"] snoc.prems by (auto simp: mobile_run_snoc)
    then show ?thesis using run_receives [OF assms(1)] moment_snoc unfolding offer_accepted_def by metis
  next
    case False
    then show ?thesis using snoc.IH snoc.prems(1) moment_snoc unfolding offer_accepted_def by (metis in_set_conv_decomp append_Nil2 butlast_snoc in_set_butlastD)
  qed
qed simp

lemma run_rows:
  assumes "mh_sessions m = []" "table_ok pd_device_id (mh_db m)"
  shows "table_ok pd_device_id (mh_db (mobile_run lib calls m)) \<and> peers_ok lib (mobile_run lib calls m) \<and>
    (\<forall>k d'. rows_of (mh_db (mobile_run lib calls m)) k = Some d' \<longrightarrow>
      (\<exists>d. rows_of (mh_db m) k = Some d \<and> same_key d d') \<or> pairing_accepted lib m calls k d')"
proof (induction calls rule: rev_induct)
  case Nil
  then show ?case using assms by (simp add: peers_ok_def same_key_def)
next
  case (snoc c calls)
  let ?b = "mobile_run lib calls m"
  have IH: "table_ok pd_device_id (mh_db ?b)" "peers_ok lib ?b" using snoc by simp_all
  have "(\<exists>d. rows_of (mh_db m) k = Some d \<and> same_key d d') \<or> pairing_accepted lib m (calls @ [c]) k d'"
    if row: "rows_of (mh_db (mobile_run lib (calls @ [c]) m)) k = Some d'" for k d'
  proof -
    consider d where "rows_of (mh_db ?b) k = Some d" "same_key d d'"
      | h op now s where "c = CallPairConfirm h True op now" "mh_get h ?b = Some s" "pins lib s k d'"
      using step_rows(2) [OF IH row [unfolded mobile_run_snoc]] by blast
    then show ?thesis
    proof cases
      case 1
      have move: "pairing_accepted lib m calls k d \<Longrightarrow> pairing_accepted lib m (calls @ [c]) k d'"
        using 1(2) moment_snoc unfolding pairing_accepted_def pins_def same_key_def by metis
      have "(\<exists>d0. rows_of (mh_db m) k = Some d0 \<and> same_key d0 d) \<or> pairing_accepted lib m calls k d" using snoc 1(1) by blast
      then show ?thesis using 1(2) move by (auto simp: same_key_def)
    next
      case 2
      then show ?thesis using moment_last [of lib m calls c] unfolding pairing_accepted_def by blast
    qed
  qed
  then show ?case using step_rows(1) [OF IH] step_peers [OF IH(2)] by (simp add: mobile_run_snoc)
qed

text \<open>
  C40 The mobile engine acts on consent only. Whatever calls the host makes, in whatever order the tasks run and
  whatever the peers send: files differ afterwards only if the host accepted an offer that was pending on an open
  session; and a device is in the device table afterwards only with the key it had there before, or if the
  host confirmed the pairing on an open session, and then under the id and with the public key of the
  certificate that TLS authenticated on that session. (Other programs leave the files alone; the
  engine starts without sessions.)
\<close>

theorem mobile_acts_on_consent:
  assumes "mh_sessions m = []" "mh_tasks m = []" "table_ok pd_device_id (mh_db m)"
    and "\<forall>v i j w q. RunTask v i \<in> set calls \<longrightarrow> fs_lookup q (te_meanwhile v j w) = fs_lookup q w"
  shows "(fs_lookup q (mh_world (mobile_run lib calls m)) \<noteq> fs_lookup q (mh_world m) \<longrightarrow>
      (\<exists>h b s offer. moment lib m calls (CallConfirm h True) b \<and> mh_get h b = Some s \<and> ms_pending s = Some offer)) \<and>
    (rows_of (mh_db (mobile_run lib calls m)) k = Some d' \<longrightarrow>
      (\<exists>d. rows_of (mh_db m) k = Some d \<and> pd_public_key_spki d' = pd_public_key_spki d) \<or>
      (\<exists>h op now b s spki. moment lib m calls (CallPairConfirm h True op now) b \<and> mh_get h b = Some s \<and>
        extract_spki (ol_x509 lib) (ms_peer_cert s) = Inr spki \<and> k = hex_encode (lib_sha256 lib spki) \<and> pd_public_key_spki d' = spki))"
proof (intro conjI impI)
  assume "fs_lookup q (mh_world (mobile_run lib calls m)) \<noteq> fs_lookup q (mh_world m)"
  moreover have "\<forall>call\<in>set calls. quiet_call call" using assms(4) by (auto simp: quiet_call_def)
  ultimately show "\<exists>h b s offer. moment lib m calls (CallConfirm h True) b \<and> mh_get h b = Some s \<and> ms_pending s = Some offer"
    using run_files [OF assms(2)] unfolding offer_accepted_def by blast
next
  assume "rows_of (mh_db (mobile_run lib calls m)) k = Some d'"
  then show "(\<exists>d. rows_of (mh_db m) k = Some d \<and> pd_public_key_spki d' = pd_public_key_spki d) \<or>
      (\<exists>h op now b s spki. moment lib m calls (CallPairConfirm h True op now) b \<and> mh_get h b = Some s \<and>
        extract_spki (ol_x509 lib) (ms_peer_cert s) = Inr spki \<and> k = hex_encode (lib_sha256 lib spki) \<and> pd_public_key_spki d' = spki)"
    using run_rows [OF assms(1,3), of lib calls] unfolding pairing_accepted_def pins_def same_key_def by blast
qed

theorem mobile_acts_on_consent_witness:
  "\<exists>lib m calls d' h op now b s. rows_of (mh_db m) (hex_encode [2]) = None \<and>
     rows_of (mh_db (mobile_run lib calls m)) (hex_encode [2]) = Some d' \<and> pd_public_key_spki d' = [2] \<and>
     moment lib m calls (CallPairConfirm h True op now) b \<and> mh_get h b = Some s"
proof -
  let ?lib = "\<lparr>lib_sha256 = (\<lambda>k. k), lib_from_reader = ref_from_reader, lib_into_writer = (\<lambda>_. Inr []),
    lib_to_vec = ref_to_vec, lib_from_str = ref_from_str, lib_canonicalize = (\<lambda>_ p. Inr p), lib_path_error = (\<lambda>_. ''bad''),
    ol_x509 = (\<lambda>_. Inr [2]), ol_export = (\<lambda>_ _. Inr []), ol_hex_decode = (\<lambda>_. Inl '''')\<rparr> :: out_lib"
  let ?me = "DeviceId (replicate 32 1)"
  let ?h = "\<lparr>kind = Control, flags = FrameFlags 0, session_id = 0, stream_id = 0, message_id = 1, payload_len = 0\<rparr> :: FrameHeader"
  obtain bs where bs: "encode_control ref_into_writer (Hello V1_0 ?me ''p'' Linux [] False) = Inr bs"
    by (simp add: write_eval encode_hello_def make_version_array_def limit_defs V1_0_def)
  have dec: "decode_control ref_from_reader bs = Inr (Hello V1_0 ?me ''p'' Linux [] False)"
    using bs by (auto intro!: ref_cbor.decode_encode_wire simp: V1_0_def wf_device_id_def canonical_platform_def)
  let ?p = "\<lparr>ps_certs = Some [[1]], ps_conn = connection_new [Inr (?h, bs)] []\<rparr>"
  let ?v = "\<lparr>ae_listener = Some (replicate 32 3), ae_arrived = Some ?p, ae_timely = True, ae_name = None\<rparr>"
  let ?m = "\<lparr>mh_sessions = [], mh_next = 1, mh_tasks = [], mh_world = \<lparr>files = [], dirs = [], io_faults = []\<rparr>,
    mh_db = \<lparr>db_rows = Some [], db_autoinc = 0, db_version = Some [1], db_faults = []\<rparr>, mh_random = [], mh_receive_dir = None\<rparr> :: mobile"
  let ?calls = "[CallAccept ?v, CallPairConfirm 1 True (Inr (), Inr ()) 0]"
  have "\<exists>d'. rows_of (mh_db (mobile_run ?lib ?calls ?m)) (hex_encode [2]) = Some d'"
    using dec
    by (simp add: nxfr_accept_def mobile_peer_def device_id_from_cert_def extract_spki_def mobile_greet_def recv_frame_def connection_new_def
        is_supported_def V1_0_def mh_draw_def send_control_def encode_control_def send_frame_def framed_send_def mobile_name_def
        mh_add_def new_session_def nxfr_pair_confirm_def mh_get_def mh_session_def mh_spawn_def mh_update_def mobile_store_pin_def
        paired_open_def init_schema_def sql_create_table_def create_version_table_def select_version_def mobile_pin_def insert_or_update_def
        sql_on_rows_def rows_upsert_def table_view_def limit_defs Let_def)
  then obtain d' where d': "rows_of (mh_db (mobile_run ?lib ?calls ?m)) (hex_encode [2]) = Some d'" by blast
  have none: "rows_of (mh_db ?m) (hex_encode [2]) = None" by (simp add: table_view_def)
  have "\<exists>h op now b s spki. moment ?lib ?m ?calls (CallPairConfirm h True op now) b \<and> mh_get h b = Some s \<and>
        extract_spki (ol_x509 ?lib) (ms_peer_cert s) = Inr spki \<and> hex_encode [2] = hex_encode (lib_sha256 ?lib spki) \<and> pd_public_key_spki d' = spki"
    using mobile_acts_on_consent [of ?m ?calls "[]" ?lib "hex_encode [2]" d'] d' none by (simp add: table_ok_def)
  then obtain h op now b s where "moment ?lib ?m ?calls (CallPairConfirm h True op now) b" "mh_get h b = Some s" "pd_public_key_spki d' = [2]"
    by (auto simp: extract_spki_def)
  then show ?thesis using d' none by blast
qed

end
