(* ===== verification/Spec2Isabelle.thy ===== *)
theory Spec2Isabelle
  imports Nxfr_Session Nxfr_Transfer Nxfr_History Nxfr_Watch
    Nxfr_Web_Files Nxfr_Web_Downloads Nxfr_Web_Life Nxfr_Mobile_Host
begin

text \<open>
  A verification development for NXFR, a peer-to-peer file transfer program in Rust
  (\<open>src/crates\<close>): shallow embeddings of its crates, and the theorems that make them correct.

  \<^bold>\<open>The program.\<close> A device runs a daemon (\<open>nxfr-daemon\<close>). Its listener accepts TLS connections from
  other devices; \<open>handle_incoming\<close> identifies the peer by the public key of its certificate, answers
  its HELLO and serves its requests: transfers, resumptions, pairing, keepalives. \<open>handle_outbound_send\<close>
  and \<open>handle_outbound_resume\<close> are the initiator's side. Both speak frames (\<open>nxfr-core\<close>: frame header,
  chunks, control messages in CBOR) through a codec and a connection (\<open>nxfr-transport\<close>), and keep
  state in a device table, a transfer history, a configuration file and a resume journal
  (\<open>nxfr-storage\<close>). A command line client talks to the daemon over a local socket: it lists and
  pairs devices, sends files, and watches and answers the offers that connections wait on.
  \<open>nxfr-discovery\<close> advertises and browses devices. \<open>nxfr-web\<close> is an HTTP server that shares files with,
  and receives them from, a browser. \<open>nxfr-ffi\<close> is the engine for mobile hosts, with transfer code of its own.

  \<^bold>\<open>The theories\<close>, each with the files it models:

  \<^item> \<open>Nxfr_Prelude\<close>: integer types, results, hexadecimal and decimal texts, shared lemmas and fact
    collections.
  \<^item> \<open>Nxfr_Common\<close> (\<open>nxfr-common\<close>), \<open>Nxfr_Frame\<close> (\<open>frame.rs\<close>, \<open>chunk.rs\<close>, \<open>keepalive.rs\<close>),
    \<open>Nxfr_Messages\<close> (\<open>messages.rs\<close>, \<open>error_codes.rs\<close>, \<open>sas.rs\<close>), \<open>Nxfr_Codec\<close> (\<open>codec.rs\<close>), \<open>Nxfr_Cbor_Ref\<close>
    (a CBOR library that shows the assumptions on \<open>ciborium\<close> can be met), \<open>Nxfr_Path\<close> (\<open>path.rs\<close>).
  \<^item> \<open>Nxfr_Machine\<close>, \<open>Nxfr_Session\<close> (\<open>session.rs\<close>), \<open>Nxfr_Transfer\<close> (\<open>transfer.rs\<close>): the two protocol state
    machines, their runs and timers.
  \<^item> \<open>Nxfr_Transport\<close> (\<open>framed.rs\<close>, \<open>connection.rs\<close>), \<open>Nxfr_Files\<close> (the file system as \<open>std::fs\<close> shows it),
    \<open>Nxfr_Sql\<close> (tables and statements), \<open>Nxfr_Resume\<close> (\<open>resume.rs\<close>), \<open>Nxfr_Paired_Db\<close> (\<open>db.rs\<close>), \<open>Nxfr_History\<close>
    (\<open>history.rs\<close>), \<open>Nxfr_Config\<close> (\<open>config.rs\<close>), \<open>Nxfr_Discovery\<close> (\<open>nxfr-discovery\<close>), \<open>Nxfr_Identity\<close>
    (\<open>nxfr-crypto\<close> and \<open>nxfr-daemon/src/identity.rs\<close>).
  \<^item> \<open>Nxfr_Receiver\<close> (\<open>receiver.rs\<close>), \<open>Nxfr_Sender\<close> (\<open>sender.rs\<close>), \<open>Nxfr_Incoming\<close>
    (\<open>handle_incoming_transfer\<close>), \<open>Nxfr_Ipc\<close> (\<open>nxfr-daemon/src/lib.rs\<close>, the shared state and the commands of \<open>ipc.rs\<close>
    that answer at once, the background tasks of \<open>main.rs\<close>), \<open>Nxfr_Handler\<close> (\<open>handle_incoming\<close>),
    \<open>Nxfr_Sessions\<close> and \<open>Nxfr_Connection\<close> (what a whole connection can do), \<open>Nxfr_Outbound\<close> (the initiator),
    \<open>Nxfr_Commands\<close> (a client of the socket with \<open>watch\<close>, \<open>send\<close> and \<open>pair\<close>), \<open>Nxfr_Watch\<close> (what a watcher sees).
  \<^item> \<open>Nxfr_Text\<close> (functions of \<open>str\<close>), \<open>Nxfr_Web_Wire\<close>, \<open>Nxfr_Web\<close>, \<open>Nxfr_Web_Routes\<close>, \<open>Nxfr_Web_Upload\<close>,
    \<open>Nxfr_Web_Server\<close> (\<open>nxfr-web/src/lib.rs\<close>: formats, state and credentials, requests and downloads, uploads, life
    of the server); \<open>Nxfr_Web_Safety\<close>, \<open>Nxfr_Web_Files\<close>, \<open>Nxfr_Web_Upload_Exact\<close>, \<open>Nxfr_Web_Downloads\<close>,
    \<open>Nxfr_Web_Life\<close> (their properties).
  \<^item> \<open>Nxfr_Mobile\<close>, \<open>Nxfr_Mobile_Send\<close>, \<open>Nxfr_Mobile_Host\<close> (\<open>nxfr-ffi/src/lib.rs\<close>: \<open>do_receive_file\<close>; \<open>scan_send_path\<close> and
    \<open>do_send_file\<close>; sessions, the calls of the host and the tasks they spawn).

  \<^bold>\<open>How code becomes definitions.\<close> Structs are records and enums datatypes with the source's fields and
  variants; machine integers are words of their width, and arithmetic wraps as in a release build.
  A function that returns \<open>Result\<close> returns a sum, \<open>Inl\<close> the error; \<open>?\<close> is \<open>and_then\<close>, or \<open>io_then\<close> where
  a state is passed along. Methods that change their object take and return a record of the state.
  Strings are their UTF-8 bytes; hash maps are association lists in the order of their iterators.
  Texts of errors are kept where the peer or the client sees them; log output is left out.

  Loops are recursive functions with termination proofs: a loop over frames ends because each turn
  consumes a frame that the peer sent (the end of the list is the end of the connection), a loop
  over a file because the rest of it gets shorter. One function takes fuel, the walk through
  the directories of a mobile send: the depth of the directories, proved to be enough. One loop may run
  forever, the search of the web server for a free name; it is a partial function, proved to return.

  \<^bold>\<open>Faults, time and concurrency\<close> are data of the state, so that theorems hold for all of them: a world
  has the outcomes of its coming file operations (a failing write may have written a part), a
  database those of its statements, a connection those of its sends, a dialling side those of its
  dials and deadlines. The clock is a list of readings, or an instant that steps advance. Tasks share
  the daemon's state: where a task waits, the actions of other tasks are an explicit list
  (\<open>hs_others\<close> of a connection, the input of a client of the socket or of the web server); the accept
  loop of the web server is a step relation with the steps of other tasks; a run of the mobile engine is a list of
  calls and tasks.

  \<^bold>\<open>Parameters\<close> stand for libraries: \<open>ciborium\<close> (\<open>from_reader\<close>, \<open>into_writer\<close>), \<open>serde_json\<close>, the TOML library,
  SHA-256, CRC-32, X.509 parsing, the TLS exporter, \<open>hex::decode\<close>, \<open>canonicalize\<close>, Unicode case mapping,
  the HTML templates. What the code relies on is an assumption of a locale (\<open>cbor_library\<close>,
  \<open>resume_json\<close>, \<open>config_toml\<close>, \<open>paths_json\<close>) with an interpretation on a concrete library, or a hypothesis of
  the theorem. Other locales state contracts between components: \<open>timed_machine\<close> (interpreted by both state
  machines), \<open>keyed_store\<close> (by the journal), \<open>keyed_table\<close> (by the device table), \<open>session_relation\<close> (a relation
  on the shared state that every step of a connection keeps; interpreted five times).

  \<^bold>\<open>What is shown\<close>:

  \<^item> \<^emph>\<open>Transfers\<close>: a file sent is the file received, over both ends at once; whatever the peer and the file
    system do, only verified files appear; the sender keeps its window; a transfer writes only below the
    download root; a send that reports success said exactly what it should, and only to the requested device.
  \<^item> \<^emph>\<open>Formats\<close>: control messages and frame headers survive encoding and decoding, the decoder refuses
    documents beyond its structural limits, decoding does not depend on how the stream is cut.
  \<^item> \<^emph>\<open>Paths\<close>: sanitized paths are safe; which paths the download jail accepts, exactly, with symbolic links and missing
    directories.
  \<^item> \<^emph>\<open>State machines\<close>: a session is active only after authorization, a peer is pinned only after its code was
    displayed, a transfer completes only after all its stages.
  \<^item> \<^emph>\<open>Consent\<close>: files change only on consent; a connection can pin only its own peer, after both devices sent their
    acceptance, confirmed by a user here whenever the daemon is watched (an unwatched daemon accepts by itself); a client of
    the socket pins on confirmation only; a waiting connection gets exactly the first decision; a watcher is shown
    exactly what its channel forwards, in order.
  \<^item> \<^emph>\<open>Storage\<close>: the journal, the device table, the history, the configuration and the identity implement their
    abstract counterparts under any failures.
  \<^item> \<^emph>\<open>Web\<close>: credentials, confinement of files, exactness of uploads, downloads, ranges and archives, the rate limit,
    and why and when the server ends.
  \<^item> \<^emph>\<open>Mobile engine\<close>: a reception changes only its temporary files and complete verified files below the receive
    directory; a send transmits exactly what the scan found; the scan finds everything below a directory;
    over any calls of the host, files change and devices are pinned only on consent.

  \<^bold>\<open>Not modelled\<close>: the TLS configuration and the listener with its semaphore and startup (calls into \<open>rustls\<close> and
  \<open>tokio\<close>); the socket server \<open>run_ipc_server\<close> that spawns a task per client; the HTML pages; the command line
  client \<open>nxfr-cli\<close> (argument parsing and printing around the socket protocol); the raw pointers and JSON texts of \<open>nxfr-ffi\<close>, its
  listener and its wrappers of the identity, history and web functions, and its JNI bindings;
  the \<open>nxfr-loopback\<close> test tool, fuzz targets and tests. The two state machines of \<open>nxfr-core\<close> are not called by the daemon.
\<close>

section \<open>Sender and receiver together\<close>

lemma is_ack_frame_decodes:
  assumes "cbor_library from_reader into_writer" "is_ack_frame into_writer f"
  shows "is_chunk_ack from_reader (Inr f)"
proof -
  obtain h bs where f: "f = (h, bs)" by (cases f)
  then obtain s m off l where "kind h = Control" and enc: "encode_control into_writer (ChunkAck s m off l) = Inr bs"
    using assms(2) by (auto simp: is_ack_frame_def)
  moreover have "decode_control from_reader bs = Inr (ChunkAck s m off l)"
    by (rule cbor_library.decode_encode_wire [OF assms(1) _ enc]) simp
  ultimately show ?thesis using f by (simp add: is_chunk_ack_def)
qed

text \<open>
  C1 A file arrives: take the sender and the receiver of one file, each connected to what the other
  sends. Without I/O failures, with a CBOR library that reads back what it wrote, and for a
  non-empty file whose size and hash were announced, there is an exchange of frames in which both
  ends succeed, and afterwards the receiver has exactly the sender's bytes at the final path.
\<close>

theorem file_transfer_end_to_end:
  assumes "cbor_library (lib_from_reader lib) (lib_into_writer lib)" "lib_works lib"
    and "file_data \<noteq> []" "length file_data < 2 ^ 64"
    and "ra_expected_hash a = lib_sha256 lib file_data" "ra_expected_size a = of_nat (length file_data)"
    and "ra_stream_id a = sa_stream_id b"
    and "\<not> has_partial st (ra_file_id a)" "io_faults w = []"
    and "\<forall>p\<in>insert (ra_final_path a) (scratch_paths a (rs_transfer_id st)). fs_creatable p w"
    and "\<forall>n. \<exists>json. lib_to_vec lib (update_resume (ra_file_id a) n st) = Inr json"
    and "part_separate a (rs_transfer_id st)"
    and "ra_final_path a \<notin> scratch_paths a (rs_transfer_id st)" "fs_lookup (ra_final_path a) w = None"
  shows "\<exists>chunks acks ss rs.
    send_file (lib_sha256 lib) (lib_from_reader lib) b file_data (connection_new (map Inr acks) []) = (Inr (), ss)
    \<and> tx (sd_conn ss) = chunks
    \<and> receive_file lib a (connection_new (map Inr chunks) []) st w = (Inr (), rs)
    \<and> tx (rv_conn rs) = acks
    \<and> fs_lookup (ra_final_path a) (rv_world rs) = Some file_data"
proof -
  let ?chunks = "file_frames (lib_sha256 lib) b file_data 0 1"
  have carry: "frames_carry (lib_sha256 lib) (ra_stream_id a) 0 ?chunks file_data"
    using file_frames_carry [of 0 file_data "lib_sha256 lib" b 1] assms(7) by simp
  have "unat (ra_expected_size a) = length file_data"
    using assms(4,6) unat_of_nat_u64 by simp
  moreover have "\<not> fs_exists (ra_final_path a) w" "starts_with a st w []"
    using assms(8,10,14) by (auto simp: fs_exists_def fs_creatable_def starts_with_def scratch_paths_def)
  moreover have "quiet lib a (recv_start (connection_new (map Inr ?chunks) []) st w)"
    using assms(9-11) by (simp add: quiet_def recv_start_def connection_new_def scratch_paths_def)
  ultimately obtain rs acks where rs: "receive_file lib a (connection_new (map Inr ?chunks) []) st w = (Inr (), rs)"
    "fs_lookup (ra_final_path a) (rv_world rs) = Some file_data" "tx (rv_conn rs) = acks"
    and acks: "length acks = length ?chunks" "list_all (is_ack_frame (lib_into_writer lib)) acks"
    using receive_file_progress [of a st w "[]" file_data file_data lib ?chunks "connection_new (map Inr ?chunks) []"]
      carry assms(2,3,5,10,12,13) by (auto simp: connection_new_def)
  have "list_all (is_chunk_ack (lib_from_reader lib)) (map Inr acks)"
    using acks(2) is_ack_frame_decodes [OF assms(1)] by (auto simp: list_all_iff)
  then obtain ss where ss: "send_file (lib_sha256 lib) (lib_from_reader lib) b file_data
      (connection_new (map Inr acks) []) = (Inr (), ss)"
    using send_file_progress [of "lib_from_reader lib" "connection_new (map Inr acks) []" "lib_sha256 lib" b file_data 1]
      acks(1) by (auto simp: connection_new_def)
  have "tx (sd_conn ss) = ?chunks"
    using send_file_exact [OF ss] by (simp add: connection_new_def)
  then show ?thesis using rs ss by blast
qed

theorem file_transfer_end_to_end_witness:
  "\<exists>rs conn. receive_file
      \<lparr>lib_sha256 = (\<lambda>_. replicate 32 0), lib_from_reader = ref_from_reader, lib_into_writer = ref_into_writer,
       lib_to_vec = ref_to_vec\<rparr>
      \<lparr>ra_session_id = 1, ra_file_id = 0, ra_stream_id = 2, ra_expected_size = 3,
       ra_expected_hash = replicate 32 0, ra_part_path = [''d'', ''f.part''], ra_final_path = [''d'', ''f''],
       ra_journal_dir = [''j''], ra_now = 0\<rparr>
      conn
      \<lparr>rs_transfer_id = ''ab'', rs_peer_device_id = ''p'', rs_display_name = ''f'', rs_manifest = [],
       rs_files = [], rs_created_at = 0, rs_expires_at = 10, rs_version = 1\<rparr>
      \<lparr>files = [], dirs = [[''d''], [''j'']], io_faults = []\<rparr> = (Inr (), rs)
    \<and> fs_lookup [''d'', ''f''] (rv_world rs) = Some [1, 2, 3]"
proof -
  let ?lib = "\<lparr>lib_sha256 = (\<lambda>_. replicate 32 0), lib_from_reader = ref_from_reader,
    lib_into_writer = ref_into_writer, lib_to_vec = ref_to_vec\<rparr> :: recv_lib"
  let ?a = "\<lparr>ra_session_id = 1, ra_file_id = 0, ra_stream_id = 2, ra_expected_size = 3,
       ra_expected_hash = replicate 32 0, ra_part_path = [''d'', ''f.part''], ra_final_path = [''d'', ''f''],
       ra_journal_dir = [''j''], ra_now = 0\<rparr> :: recv_args"
  let ?b = "\<lparr>sa_session_id = 1, sa_stream_id = 2, sa_progress = True, sa_file_name = ''f'',
    sa_total_file_size = 3\<rparr> :: send_args"
  let ?st = "\<lparr>rs_transfer_id = ''ab'', rs_peer_device_id = ''p'', rs_display_name = ''f'', rs_manifest = [],
       rs_files = [], rs_created_at = 0, rs_expires_at = 10, rs_version = 1\<rparr> :: ResumeState"
  let ?w = "\<lparr>files = [], dirs = [[''d''], [''j'']], io_faults = []\<rparr> :: world"
  have works: "lib_works ?lib" by (simp add: lib_works_def ref_ack_encodes)
  have json: "\<forall>n. \<exists>json. lib_to_vec ?lib (update_resume (ra_file_id ?a) n ?st) = Inr json"
    by (simp add: update_resume_def ref_to_vec_def write_eval state_to_value_def)
  have tmp: "journal_tmp_path [''j''] ''ab'' = [''j'', ''ab.json.tmp'']" by code_simp
  have lib: "cbor_library (lib_from_reader ?lib) (lib_into_writer ?lib)"
    using ref_cbor.cbor_library_axioms by simp
  note run = file_transfer_end_to_end [of ?lib "[1, 2, 3]" ?a ?b ?st ?w, OF lib works _ _ _ _ _ _ _ _ json]
  show ?thesis
    using run
    by (simp add: has_partial_def scratch_paths_def part_separate_def journal_path_def tmp
        fs_creatable_def fs_lookup_def) blast
qed

end
